(* ===== verification/Prelude.thy ===== *)
theory Prelude
  imports Main "HOL-Library.Word" "HOL-Library.Sublist"
begin

text \<open>
  What every component of the development shares: the list operations of the
  JavaScript library the client uses (\<open>Array.prototype.slice\<close> with its clamping of
  out-of-range and negative bounds, \<open>Array.prototype.at(-1)\<close>), the two scanning
  loops that appear in several source files (the length of a common prefix and of a
  common suffix), the replacement of a range of a list, and the lemmas about them.
  The collection \<open>js_list\<close> holds the facts that turn the library operations into
  \<open>take\<close> and \<open>drop\<close> once their bounds are known.
\<close>

named_theorems js_list "JavaScript array operations as take and drop"

subsection \<open>Array slices\<close>

text \<open>The relative index of \<open>slice\<close>: negative counts from the end, both ends clamp.\<close>

definition relative_index :: "nat \<Rightarrow> int \<Rightarrow> nat" where
  "relative_index n i = (if i < 0 then nat (int n + i) else min n (nat i))"

definition js_slice :: "'a list \<Rightarrow> int \<Rightarrow> int \<Rightarrow> 'a list" where
  "js_slice xs s e =
     (let a = relative_index (length xs) s; b = relative_index (length xs) e
      in take (b - a) (drop a xs))"

definition js_slice_from :: "'a list \<Rightarrow> int \<Rightarrow> 'a list" where
  "js_slice_from xs s = drop (relative_index (length xs) s) xs"

definition last_opt :: "'a list \<Rightarrow> 'a option" where
  "last_opt xs = (if xs = [] then None else Some (last xs))"

lemma relative_index_le [simp]: "relative_index n i \<le> n"
  by (auto simp: relative_index_def)

lemma relative_index_nat [js_list]: "relative_index n (int i) = min n i"
  by (simp add: relative_index_def)

lemma js_slice_nat [js_list]: "js_slice xs (int s) (int e) = take (e - s) (drop s xs)"
  by (cases "s \<le> length xs"; cases "e \<le> length xs")
    (auto simp: js_slice_def relative_index_nat min_def)

lemma js_slice_nonneg [js_list]:
  "0 \<le> s \<Longrightarrow> 0 \<le> e \<Longrightarrow> js_slice xs s e = take (nat e - nat s) (drop (nat s) xs)"
  using js_slice_nat [of xs "nat s" "nat e"] by simp

lemma js_slice_0 [js_list]: "js_slice xs 0 (int n) = take n xs"
  using js_slice_nat [of xs 0 n] by simp

lemma js_slice_from_nat [js_list]: "js_slice_from xs (int s) = drop s xs"
  by (simp add: js_slice_from_def relative_index_nat min_def)

lemma js_slice_from_nonneg [js_list]: "0 \<le> s \<Longrightarrow> js_slice_from xs s = drop (nat s) xs"
  using js_slice_from_nat [of xs "nat s"] by simp

lemma js_slice_prefix_suffix [simp]: "js_slice xs 0 i @ js_slice_from xs i = xs"
  by (simp add: js_slice_def js_slice_from_def relative_index_def)

lemma take_drop_join [js_list]: "take n (drop p xs) @ drop (p + n) xs = drop p xs"
  by (metis add.commute append_take_drop_id drop_drop)

lemma last_opt_snoc [simp]: "last_opt (xs @ [x]) = Some x"
  by (simp add: last_opt_def)

lemma last_opt_Nil [simp]: "last_opt [] = None"
  by (simp add: last_opt_def)

lemma last_opt_SomeD: "last_opt xs = Some x \<Longrightarrow> xs = butlast xs @ [x]"
  by (auto simp: last_opt_def split: if_splits)

subsection \<open>Scanning for a common prefix and suffix\<close>

text \<open>
  \<open>while (i < xs.length && i < ys.length && xs[i] === ys[i]) i += 1\<close>, the result
  being the final \<open>i\<close>; the relation is the comparison the loop makes.
\<close>

fun common_prefix :: "('a \<Rightarrow> 'a \<Rightarrow> bool) \<Rightarrow> 'a list \<Rightarrow> 'a list \<Rightarrow> nat" where
  "common_prefix eq (x # xs) (y # ys) = (if eq x y then Suc (common_prefix eq xs ys) else 0)"
| "common_prefix eq xs ys = 0"

text \<open>The same scan from the two ends, stopping at the first \<open>n\<close> elements of each.\<close>

definition common_suffix :: "('a \<Rightarrow> 'a \<Rightarrow> bool) \<Rightarrow> nat \<Rightarrow> 'a list \<Rightarrow> 'a list \<Rightarrow> nat" where
  "common_suffix eq n xs ys = common_prefix eq (rev (drop n xs)) (rev (drop n ys))"

lemma common_prefix_le:
  "common_prefix eq xs ys \<le> length xs" "common_prefix eq xs ys \<le> length ys"
  by (induction eq xs ys rule: common_prefix.induct) auto

lemma common_prefix_nth:
  "i < common_prefix eq xs ys \<Longrightarrow> eq (xs ! i) (ys ! i)"
  by (induction eq xs ys arbitrary: i rule: common_prefix.induct)
    (auto split: if_splits simp: nth_Cons')

lemma common_prefix_stop:
  "common_prefix eq xs ys < length xs \<Longrightarrow> common_prefix eq xs ys < length ys \<Longrightarrow>
   \<not> eq (xs ! common_prefix eq xs ys) (ys ! common_prefix eq xs ys)"
  by (induction eq xs ys rule: common_prefix.induct) auto

lemma common_prefix_greatest:
  "i \<le> length xs \<Longrightarrow> i \<le> length ys \<Longrightarrow> (\<And>j. j < i \<Longrightarrow> eq (xs ! j) (ys ! j)) \<Longrightarrow>
   i \<le> common_prefix eq xs ys"
  using common_prefix_stop [of eq xs ys] by (meson le_less_trans not_less order.strict_trans2)

lemma common_prefix_take: "take (common_prefix (=) xs ys) xs = take (common_prefix (=) xs ys) ys"
  by (rule nth_equalityI) (use common_prefix_le [of "(=)" xs ys] common_prefix_nth [of _ "(=)" xs ys] in auto)

lemma common_suffix_le:
  "common_suffix eq n xs ys \<le> length xs - n" "common_suffix eq n xs ys \<le> length ys - n"
  using common_prefix_le [of eq "rev (drop n xs)" "rev (drop n ys)"]
  by (auto simp: common_suffix_def)

lemma common_suffix_drop:
  "drop (length xs - common_suffix (=) n xs ys) xs = drop (length ys - common_suffix (=) n xs ys) ys"
proof -
  let ?k = "common_suffix (=) n xs ys"
  have le: "?k \<le> length xs - n" "?k \<le> length ys - n"
    by (rule common_suffix_le)+
  have "take ?k (rev (drop n xs)) = take ?k (rev (drop n ys))"
    unfolding common_suffix_def by (rule common_prefix_take)
  then have "drop (length xs - n - ?k) (drop n xs) = drop (length ys - n - ?k) (drop n ys)"
    by (simp add: take_rev)
  moreover have "n + (length xs - n - ?k) = length xs - ?k \<or> ?k = 0"
    and "n + (length ys - n - ?k) = length ys - ?k \<or> ?k = 0"
    using le by auto
  ultimately show ?thesis
    by (auto simp: add.commute)
qed

subsection \<open>Replacing a range of a list\<close>

text \<open>The effect of one splice: \<open>d\<close> elements at \<open>i\<close> give way to \<open>ins\<close>.\<close>

definition replace_range :: "nat \<Rightarrow> nat \<Rightarrow> 'a list \<Rightarrow> 'a list \<Rightarrow> 'a list" where
  "replace_range i d ins xs = take i xs @ ins @ drop (i + d) xs"

lemma length_replace_range:
  "i + d \<le> length xs \<Longrightarrow> length (replace_range i d ins xs) = length xs - d + length ins"
  by (simp add: replace_range_def)

lemma map_replace_range: "map f (replace_range i d ins xs) = replace_range i d (map f ins) (map f xs)"
  by (simp add: replace_range_def take_map drop_map)

lemma replace_range_append_same:
  "i = length xs \<Longrightarrow> replace_range i d ins (xs @ ys) = xs @ ins @ drop d ys"
  by (simp add: replace_range_def)

lemma replace_range_append_later:
  "replace_range (length xs + i) d ins (xs @ ys) = xs @ replace_range i d ins ys"
  by (simp add: replace_range_def add.assoc)

lemma replace_range_nothing [simp]: "replace_range i 0 [] xs = xs"
  by (simp add: replace_range_def)

lemma sum_list_map_length: "sum_list (map length xss) = length (concat xss)"
  by (simp add: length_concat)

end
