(* ===== verification/Js_String.thy ===== *)
theory Js_String
  imports Prelude
begin

text \<open>
  JavaScript strings. A string is a sequence of UTF-16 code units; \<open>Array.from(s)\<close>
  and \<open>for (const p of s)\<close> iterate its code points, each a string of one or two
  units, a lone surrogate being a point of its own. Offsets of textareas are in units,
  offsets of the core are in points; the two agree only on text without supplementary
  characters, so both are kept.
\<close>

type_synonym code_unit = "16 word"
type_synonym js_string = "code_unit list"

definition is_high_surrogate :: "code_unit \<Rightarrow> bool" where
  "is_high_surrogate u \<longleftrightarrow> 0xD800 \<le> u \<and> u \<le> 0xDBFF"

definition is_low_surrogate :: "code_unit \<Rightarrow> bool" where
  "is_low_surrogate u \<longleftrightarrow> 0xDC00 \<le> u \<and> u \<le> 0xDFFF"

text \<open>\<open>Array.from(value)\<close>: the string iterator of ECMAScript.\<close>

fun code_points :: "js_string \<Rightarrow> js_string list" where
  "code_points [] = []"
| "code_points [u] = [[u]]"
| "code_points (u # v # us) =
     (if is_high_surrogate u \<and> is_low_surrogate v then [u, v] # code_points us
      else [u] # code_points (v # us))"

text \<open>A string literal of the source, for witnesses and constants (ASCII only).\<close>

definition js :: "string \<Rightarrow> js_string" where
  "js s = map of_char s"

text \<open>Text without lone surrogates, which is what the core stores (Unicode scalars).\<close>

definition scalar_point :: "js_string \<Rightarrow> bool" where
  "scalar_point p \<longleftrightarrow>
     (case p of
        [u] \<Rightarrow> \<not> is_high_surrogate u \<and> \<not> is_low_surrogate u
      | [u, v] \<Rightarrow> is_high_surrogate u \<and> is_low_surrogate v
      | _ \<Rightarrow> False)"

definition well_formed :: "js_string \<Rightarrow> bool" where
  "well_formed s \<longleftrightarrow> list_all scalar_point (code_points s)"

lemma surrogates_disjoint: "is_high_surrogate u \<Longrightarrow> \<not> is_low_surrogate u"
  by (auto simp: is_high_surrogate_def is_low_surrogate_def word_le_nat_alt)

lemma concat_code_points [simp]: "concat (code_points s) = s"
  by (induction s rule: code_points.induct) auto

lemma code_points_inject [simp]: "code_points s = code_points t \<longleftrightarrow> s = t"
  by (metis concat_code_points)

lemma code_points_eq_Nil [simp]: "code_points s = [] \<longleftrightarrow> s = []"
  by (cases s rule: code_points.cases) auto

lemma code_points_length: "length (code_points s) \<le> length s"
  by (induction s rule: code_points.induct) auto

lemma code_point_nonempty: "p \<in> set (code_points s) \<Longrightarrow> p \<noteq> []"
  by (induction s rule: code_points.induct) (auto split: if_splits)

lemma scalar_point_cases:
  assumes "scalar_point p"
  obtains (bmp) u where "p = [u]" "\<not> is_high_surrogate u" "\<not> is_low_surrogate u"
  | (pair) u v where "p = [u, v]" "is_high_surrogate u" "is_low_surrogate v"
  using assms by (auto simp: scalar_point_def split: list.splits)

lemma code_points_scalar_append:
  assumes "scalar_point p"
  shows "code_points (p @ s) = p # code_points s"
  using assms
proof (cases rule: scalar_point_cases)
  case (bmp u)
  then show ?thesis by (cases s) auto
next
  case (pair u v)
  then show ?thesis by simp
qed

lemma code_points_concat:
  "list_all scalar_point ps \<Longrightarrow> code_points (concat ps) = ps"
  by (induction ps) (auto simp: code_points_scalar_append)

lemma code_points_append:
  assumes "well_formed s"
  shows "code_points (s @ t) = code_points s @ code_points t"
proof -
  have "code_points (concat ps @ t) = ps @ code_points t" if "list_all scalar_point ps" for ps
    using that by (induction ps) (auto simp: code_points_scalar_append)
  from this [of "code_points s"] assms show ?thesis
    by (simp add: well_formed_def)
qed

lemma well_formed_Nil [simp]: "well_formed []"
  by (simp add: well_formed_def)

lemma well_formed_append [simp, intro]:
  "well_formed s \<Longrightarrow> well_formed t \<Longrightarrow> well_formed (s @ t)"
  by (simp add: well_formed_def code_points_append)

lemma well_formed_concat: "list_all scalar_point ps \<Longrightarrow> well_formed (concat ps)"
  by (simp add: well_formed_def code_points_concat)

lemma well_formed_points: "well_formed s \<Longrightarrow> list_all scalar_point (code_points s)"
  by (simp add: well_formed_def)

lemma list_all_take [intro]: "list_all P xs \<Longrightarrow> list_all P (take n xs)"
  by (auto simp: list_all_iff dest: in_set_takeD)

lemma list_all_drop [intro]: "list_all P xs \<Longrightarrow> list_all P (drop n xs)"
  by (auto simp: list_all_iff dest: in_set_dropD)

end
