(* ===== verification/Text_Diff.thy ===== *)
theory Text_Diff
  imports Js_String
begin

text \<open>
  \<open>features/blocks/editor/text-diff.ts\<close>: the smallest single-range splice between
  two strings, in code points.
\<close>

record splice =
  sp_index :: nat
  sp_delete :: nat
  sp_insert :: js_string

fun codePointIndex_loop :: "js_string list \<Rightarrow> nat \<Rightarrow> nat \<Rightarrow> nat \<Rightarrow> nat" where
  "codePointIndex_loop [] utf16 offset index = index"
| "codePointIndex_loop (p # ps) utf16 offset index =
     (if utf16 \<le> offset then index
      else codePointIndex_loop ps utf16 (offset + length p) (index + 1))"

definition codePointIndex :: "js_string \<Rightarrow> nat \<Rightarrow> nat" where
  "codePointIndex value utf16 = codePointIndex_loop (code_points value) utf16 0 0"

text \<open>The loop that slides a pure insertion or deletion back towards the caret.\<close>

fun slide_back :: "'a list \<Rightarrow> nat \<Rightarrow> nat \<Rightarrow> nat \<Rightarrow> nat \<Rightarrow> nat" where
  "slide_back changed len ins end 0 = 0"
| "slide_back changed len ins end (Suc p) =
     (if end < Suc p + ins \<and> changed ! p = changed ! (p + len)
      then slide_back changed len ins end p
      else Suc p)"

definition diffSplice :: "js_string \<Rightarrow> js_string \<Rightarrow> nat option \<Rightarrow> splice option" where
  "diffSplice before after caret =
     (if before = after then None
      else
        let left = code_points before;
            right = code_points after;
            prefix = common_prefix (=) left right;
            suffix = common_suffix (=) prefix left right;
            remove = length left - prefix - suffix;
            ins = length right - prefix - suffix;
            index = (case caret of
                None \<Rightarrow> prefix
              | Some c \<Rightarrow>
                  if remove = 0 \<or> ins = 0
                  then slide_back (if ins = 0 then left else right) (remove + ins) ins
                         (codePointIndex after c) prefix
                  else prefix)
        in Some \<lparr>sp_index = index, sp_delete = remove,
                 sp_insert = concat (take ins (drop index right))\<rparr>)"

subsection \<open>Code point indices\<close>

lemma codePointIndex_loop_offset:
  "codePointIndex_loop ps utf16 offset index =
     index + codePointIndex_loop ps (utf16 - offset) 0 0"
proof (induction ps arbitrary: utf16 offset index)
  case (Cons p ps)
  show ?case
    using Cons.IH [of utf16 "offset + length p" "index + 1"]
      Cons.IH [of "utf16 - offset" "length p" 1]
    by simp
qed simp

lemma codePointIndex_loop_le: "codePointIndex_loop ps utf16 0 0 \<le> length ps"
proof (induction ps arbitrary: utf16)
  case (Cons p ps)
  then show ?case
    using codePointIndex_loop_offset [of ps utf16 "length p" 1] by simp
qed simp

lemma codePointIndex_le: "codePointIndex value utf16 \<le> length (code_points value)"
  by (simp add: codePointIndex_def codePointIndex_loop_le)

text \<open>At a point boundary the index is exact.\<close>

lemma codePointIndex_loop_boundary:
  assumes "k \<le> length ps" and "\<forall>p \<in> set ps. p \<noteq> []"
  shows "codePointIndex_loop ps (length (concat (take k ps))) 0 0 = k"
  using assms
proof (induction ps arbitrary: k)
  case (Cons p ps)
  then show ?case
  proof (cases k)
    case (Suc j)
    then show ?thesis
      using Cons codePointIndex_loop_offset
        [of ps "length p + length (concat (take j ps))" "length p" 1]
      by simp
  qed simp
qed simp

lemma codePointIndex_boundary:
  assumes "k \<le> length (code_points value)"
  shows "codePointIndex value (length (concat (take k (code_points value)))) = k"
  unfolding codePointIndex_def
  using assms code_point_nonempty by (intro codePointIndex_loop_boundary) auto

subsection \<open>Sliding\<close>

lemma slide_back_le: "slide_back changed len ins end p \<le> p"
  by (induction p) auto

text \<open>Every position the slide passes compares equal one length further on.\<close>

lemma slide_back_equal:
  "slide_back changed len ins end p \<le> j \<Longrightarrow> j < p \<Longrightarrow> changed ! j = changed ! (j + len)"
proof (induction p)
  case (Suc p)
  show ?case
  proof (cases "end < Suc p + ins \<and> changed ! p = changed ! (p + len)")
    case True
    then show ?thesis
      using Suc by (cases "j = p") auto
  next
    case False
    then show ?thesis
      using Suc.prems by (simp split: if_splits)
  qed
qed simp

lemma slide_back_reaches:
  assumes "i \<le> p" and "\<And>j. i \<le> j \<Longrightarrow> j < p \<Longrightarrow> changed ! j = changed ! (j + len)"
    and "i + ins = end"
  shows "slide_back changed len ins end p = i"
  using assms
proof (induction p)
  case (Suc p)
  show ?case
  proof (cases "i = Suc p")
    case False
    then have "i \<le> p" "changed ! p = changed ! (p + len)"
      using Suc.prems(1,2) by auto
    then show ?thesis
      using Suc by simp
  qed (use Suc.prems in simp)
qed simp

lemma shift_equal_remove:
  assumes "i \<le> p" and "p + len \<le> length xs"
    and "\<And>j. i \<le> j \<Longrightarrow> j < p \<Longrightarrow> xs ! j = xs ! (j + len)"
  shows "take i xs @ drop (i + len) xs = take p xs @ drop (p + len) xs"
proof (rule nth_equalityI)
  show "length (take i xs @ drop (i + len) xs) = length (take p xs @ drop (p + len) xs)"
    using assms(1,2) by simp
next
  fix k
  assume "k < length (take i xs @ drop (i + len) xs)"
  then show "(take i xs @ drop (i + len) xs) ! k = (take p xs @ drop (p + len) xs) ! k"
    using assms(1,2) assms(3) [of k]
    by (cases "k < i"; cases "k < p") (auto simp: nth_append add.commute min_def)
qed


subsection \<open>The splice is correct, smallest and placed at the caret\<close>

text \<open>Two lists that agree outside a middle range: the range is what the scans leave.\<close>

lemma prefix_suffix_decompose:
  fixes left right :: "'a list"
  defines "p \<equiv> common_prefix (=) left right"
  defines "s \<equiv> common_suffix (=) p left right"
  shows "p + s \<le> length left" and "p + s \<le> length right"
    and "take p left = take p right"
    and "drop (length left - s) left = drop (length right - s) right"
proof -
  have "p \<le> length left" "p \<le> length right"
    unfolding p_def by (rule common_prefix_le)+
  moreover have "s \<le> length left - p" "s \<le> length right - p"
    unfolding s_def by (rule common_suffix_le)+
  ultimately show "p + s \<le> length left" "p + s \<le> length right"
    by arith+
  show "take p left = take p right"
    unfolding p_def by (rule common_prefix_take)
  show "drop (length left - s) left = drop (length right - s) right"
    unfolding s_def by (rule common_suffix_drop)
qed

lemma middle_replacement:
  assumes "p + s \<le> length left" "p + s \<le> length right"
    and "take p left = take p right"
    and "drop (length left - s) left = drop (length right - s) right"
  shows "replace_range p (length left - p - s) (take (length right - p - s) (drop p right)) left = right"
proof -
  have "drop (p + (length left - p - s)) left = drop (length right - s) right"
    using assms(1,4) by (simp add: algebra_simps)
  moreover have "take (length right - p - s) (drop p right) @ drop (length right - s) right = drop p right"
    using take_drop_join [of "length right - p - s" p right] assms(2) by simp
  ultimately show ?thesis
    using assms(3) by (simp add: replace_range_def)
qed

text \<open>Sliding keeps the result: a pure insertion and a pure deletion commute with a repeated run.\<close>

lemma slide_insertion:
  assumes ins: "replace_range p 0 (take n (drop p right)) left = right"
    and "p + n \<le> length right" and "p \<le> length left" and "i \<le> p"
    and run: "\<And>j. i \<le> j \<Longrightarrow> j < p \<Longrightarrow> right ! j = right ! (j + n)"
  shows "replace_range i 0 (take n (drop i right)) left = right"
proof -
  have left: "left = take p right @ drop (p + n) right"
  proof -
    have "take p left = take p right"
      using arg_cong [OF ins, of "take p"] assms(3) by (simp add: replace_range_def)
    moreover have "drop p left = drop (p + n) right"
      using arg_cong [OF ins, of "drop (p + n)"] assms(2,3) by (simp add: replace_range_def)
    ultimately show ?thesis
      by (metis append_take_drop_id)
  qed
  also have "\<dots> = take i right @ drop (i + n) right"
    using assms(2,4) run by (intro shift_equal_remove [symmetric]) auto
  finally have "left = take i right @ drop (i + n) right" .
  moreover have "i + n \<le> length right"
    using assms(2,4) by simp
  ultimately show ?thesis
    by (simp add: replace_range_def take_drop_join)
qed

lemma slide_deletion:
  assumes "replace_range p n [] left = right" and "p + n \<le> length left" and "i \<le> p"
    and "\<And>j. i \<le> j \<Longrightarrow> j < p \<Longrightarrow> left ! j = left ! (j + n)"
  shows "replace_range i n [] left = right"
  using assms shift_equal_remove [of i p n left] by (simp add: replace_range_def)

text \<open>What the definition says of its result, with the intermediate values named.\<close>

lemma diffSplice_SomeE:
  assumes "diffSplice before after caret = Some sp"
  obtains l r p s changed rem ins where
    "l = code_points before" "r = code_points after" "l \<noteq> r"
    "p = common_prefix (=) l r" "s = common_suffix (=) p l r"
    "rem = length l - p - s" "ins = length r - p - s"
    "changed = (if ins = 0 then l else r)"
    "sp_delete sp = rem" "sp_insert sp = concat (take ins (drop (sp_index sp) r))"
    "sp_index sp = (case caret of None \<Rightarrow> p
       | Some c \<Rightarrow> if rem = 0 \<or> ins = 0
           then slide_back changed (rem + ins) ins (codePointIndex after c) p else p)"
proof -
  have ne: "code_points before \<noteq> code_points after"
    using assms by (auto simp: diffSplice_def)
  show ?thesis
    by (rule that [OF refl refl ne refl refl refl refl refl])
      (use assms ne in \<open>auto simp only: diffSplice_def Let_def if_False code_points_inject
          option.inject splice.simps\<close>)
qed

lemma diffSplice_None: "diffSplice before after caret = None \<longleftrightarrow> before = after"
  by (simp add: diffSplice_def Let_def)

lemma diffSplice_points:
  assumes "diffSplice before after caret = Some sp"
  shows "\<exists>ins. sp_insert sp = concat ins
     \<and> sp_index sp + sp_delete sp \<le> length (code_points before)
     \<and> sp_index sp + length ins \<le> length (code_points after)
     \<and> ins = take (length ins) (drop (sp_index sp) (code_points after))
     \<and> replace_range (sp_index sp) (sp_delete sp) ins (code_points before) = code_points after"
  using assms
proof (rule diffSplice_SomeE)
  fix l r p s and changed :: "js_string list" and rem ins
  assume l: "l = code_points before" and r: "r = code_points after"
    and p: "p = common_prefix (=) l r" and s: "s = common_suffix (=) p l r"
    and rem: "rem = length l - p - s" and ins: "ins = length r - p - s"
    and changed: "changed = (if ins = 0 then l else r)"
    and sp: "sp_delete sp = rem" "sp_insert sp = concat (take ins (drop (sp_index sp) r))"
    and index: "sp_index sp = (case caret of None \<Rightarrow> p
       | Some c \<Rightarrow> if rem = 0 \<or> ins = 0
           then slide_back changed (rem + ins) ins (codePointIndex after c) p else p)"
  define i where "i = sp_index sp"
  note dec = prefix_suffix_decompose [of l r, folded p, folded s]
  have base: "replace_range p rem (take ins (drop p r)) l = r"
    unfolding rem ins using dec by (rule middle_replacement)
  have i: "i = p \<or> (rem = 0 \<or> ins = 0) \<and> (\<exists>c. i = slide_back changed (rem + ins) ins c p)"
    unfolding i_def index by (auto split: option.splits)
  have le: "i \<le> p"
    using i by (auto simp: slide_back_le)
  have run: "changed ! j = changed ! (j + (rem + ins))" if "i \<le> j" "j < p" for j
    using i slide_back_equal [of changed "rem + ins" ins _ p j] that by auto
  have "replace_range i rem (take ins (drop i r)) l = r"
  proof (cases "i = p")
    case False
    with i consider "ins = 0" | "rem = 0" "ins \<noteq> 0"
      by blast
    then show ?thesis
    proof cases
      case 1
      have "replace_range i rem [] l = r"
        by (rule slide_deletion [of p]) (use 1 base run le dec changed rem in auto)
      then show ?thesis using 1 by simp
    next
      case 2
      have "replace_range i 0 (take ins (drop i r)) l = r"
        by (rule slide_insertion [of p]) (use 2 base run le dec changed ins in auto)
      then show ?thesis using 2 by simp
    qed
  qed (use base in simp)
  moreover have "i + rem \<le> length l" and "i + ins \<le> length r"
    using le dec(1,2) rem ins by auto
  ultimately show ?thesis
    using sp l r by (intro exI [of _ "take ins (drop i r)"]) (simp add: min_def i_def)
qed

text \<open>
  No other single range is shorter, on either side: the bound every caller relies on
  when it sends one splice to the core.
\<close>

lemma common_prefix_bound:
  assumes "i + d \<le> length l" and "replace_range i d mid l = r"
  shows "i \<le> common_prefix (=) l r"
    and "length l - common_prefix (=) l r - common_suffix (=) (common_prefix (=) l r) l r \<le> d"
proof -
  let ?p = "common_prefix (=) l r"
  let ?s = "common_suffix (=) ?p l r"
  define n where "n = length l - (i + d)"
  have r: "r = take i l @ mid @ drop (i + d) l"
    using assms(2) by (simp add: replace_range_def)
  have "j < i \<Longrightarrow> l ! j = r ! j" for j
    using assms(1) by (simp add: r nth_append)
  then show ip: "i \<le> ?p"
    using assms(1) by (intro common_prefix_greatest) (auto simp: r)
  have lens: "length r = i + length mid + n" "length l = i + d + n"
    using assms(1) by (auto simp: r n_def)
  have rev: "rev l ! j = rev r ! j" if "j < n" for j
    using that lens assms(1) by (simp add: rev_nth r nth_append)
  have "min n (min (length l - ?p) (length r - ?p)) \<le> ?s"
    unfolding common_suffix_def
    by (rule common_prefix_greatest) (auto simp: rev_drop rev)
  then show "length l - ?p - ?s \<le> d"
    using lens ip common_prefix_le [of "(=)" l r] by (auto simp: min_def split: if_splits)
qed


text \<open>
  C11. The splice \<open>diffSplice\<close> returns, applied to the code points of the old text,
  gives exactly the new text and lies inside the old one; it returns no splice exactly
  when the two texts are the same. This holds whatever the caret is.
\<close>

theorem diffSplice_correct:
  "case diffSplice before after caret of
     None \<Rightarrow> before = after
   | Some sp \<Rightarrow>
       before \<noteq> after
     \<and> sp_index sp + sp_delete sp \<le> length (code_points before)
     \<and> concat (take (sp_index sp) (code_points before)) @ sp_insert sp
         @ concat (drop (sp_index sp + sp_delete sp) (code_points before)) = after"
proof (cases "diffSplice before after caret")
  case None
  with diffSplice_None [of before after caret] show ?thesis by simp
next
  case (Some sp)
  obtain ins where ins: "sp_insert sp = concat ins"
    and le: "sp_index sp + sp_delete sp \<le> length (code_points before)"
    and eq: "replace_range (sp_index sp) (sp_delete sp) ins (code_points before) = code_points after"
    using diffSplice_points [OF Some] by blast
  have "before \<noteq> after"
    using Some by (auto simp: diffSplice_def)
  moreover have "concat (take (sp_index sp) (code_points before)) @ sp_insert sp
      @ concat (drop (sp_index sp + sp_delete sp) (code_points before)) = after"
    using arg_cong [OF eq, of concat] by (simp add: replace_range_def ins)
  ultimately show ?thesis
    using Some le by simp
qed



text \<open>
  Inside a repeated run several splices are equally small; the caret picks the one
  that ends there. If some pure insertion or pure deletion that ends at the caret gives
  the new text, the returned splice is that one.
\<close>

theorem diffSplice_ends_at_caret:
  assumes "diffSplice before after (Some caret) = Some sp"
    and "i + d \<le> length (code_points before)"
    and "replace_range i d mid (code_points before) = code_points after"
    and "d = 0 \<or> mid = []"
    and "i + length mid = codePointIndex after caret"
    and "d = sp_delete sp"
  shows "sp_index sp = i"
  using assms(1)
proof (rule diffSplice_SomeE)
  fix l r p s and changed :: "js_string list" and rem ins
  assume l: "l = code_points before" and r: "r = code_points after"
    and p: "p = common_prefix (=) l r" and s: "s = common_suffix (=) p l r"
    and rem: "rem = length l - p - s" and ins: "ins = length r - p - s"
    and changed: "changed = (if ins = 0 then l else r)"
    and sp: "sp_delete sp = rem"
    and index: "sp_index sp = (case Some caret of None \<Rightarrow> p
       | Some c \<Rightarrow> if rem = 0 \<or> ins = 0
           then slide_back changed (rem + ins) ins (codePointIndex after c) p else p)"
  note dec = prefix_suffix_decompose [of l r, folded p, folded s]
  have le: "i + d \<le> length l" and eq: "replace_range i d mid l = r"
    using assms(2,3) l r by simp_all
  have ip: "i \<le> p"
    unfolding p by (rule common_prefix_bound(1) [OF le eq])
  have "length r = length l - d + length mid"
    using length_replace_range [OF le, of mid] eq by simp
  then have mid: "length mid = ins"
    using sp assms(6) rem ins dec(1,2) le by auto
  have pre: "l ! j = r ! j" if "j < p" for j
    using that dec(1,2,3) by (metis nth_take)
  have later: "r ! (j + length mid) = l ! (j + d)" if "i \<le> j" "j < p" for j
    using that le dec(1) eq by (auto simp: replace_range_def nth_append min_def add.commute)
  have run: "changed ! j = changed ! (j + (rem + ins))" if j: "i \<le> j" "j < p" for j
  proof (cases "ins = 0")
    case True
    then show ?thesis
      using later [OF j] pre [OF j(2)] mid changed sp assms(6) by simp
  next
    case False
    then show ?thesis
      using later [OF j] pre [OF j(2)] mid changed sp assms(4,6) by auto
  qed
  have "slide_back changed (rem + ins) ins (codePointIndex after caret) p = i"
    using assms(5) mid by (intro slide_back_reaches ip run) auto
  then show ?thesis
    using index assms(4,6) sp mid by auto
qed

theorem diffSplice_ends_at_caret_witness:
  "sp_index (the (diffSplice [97, 97] [97, 97, 97] (Some 1))) = 0"
proof -
  have d: "diffSplice [97, 97] [97, 97, 97] (Some 1)
      = Some \<lparr>sp_index = 0, sp_delete = 0, sp_insert = [97]\<rparr>"
    by code_simp
  show ?thesis
    using diffSplice_ends_at_caret [OF d, of 0 0 "[[97]]"] d
    by (simp add: replace_range_def is_high_surrogate_def codePointIndex_def)
qed

end
