(* ===== verification/Inline_Content.thy ===== *)
theory Inline_Content
  imports Text_Diff
begin

text \<open>
  \<open>features/blocks/editor/inline-content.ts\<close> and the projection of
  \<open>core-port/snapshot.ts\<close> it inverts. A block's content is a list of Markdown runs
  and page references; the textarea shows one string in which a reference is the token
  \<open>[[title]]\<close>. Positions come in three coordinates: UTF-16 units (textarea), code
  points of the shown string (display), and atoms (one per code point of Markdown, one
  per reference), which is what the core's commands count in.
\<close>

type_synonym page_id = js_string
type_synonym block_id = js_string

datatype inline_content = Markdown js_string | PageReference page_id

record page_reference_span =
  ref_start :: int
  ref_end :: int
  ref_index :: int
  ref_page_id :: page_id

record inline_content_projection =
  markdown :: js_string
  pageReferences :: "page_reference_span list"

record page_directory_entry =
  pd_id :: page_id
  pd_title :: js_string
  pd_journal_date :: "js_string option"
  pd_deleted :: bool

record inline_content_boundary =
  bd_index :: int
  bd_utf16Offset :: nat

record block_content_splice =
  bs_block_id :: block_id
  bs_index :: int
  bs_delete :: int
  bs_insert :: "inline_content list"

record inline_edit_plan =
  pl_splice :: block_content_splice
  pl_references :: "page_reference_span list"

subsection \<open>Projection of content to the shown string (snapshot.ts)\<close>

text \<open>\<open>new Map(pages.map((page) => [page.id, page]))\<close>: of two entries with one id the later counts.\<close>

definition pageDirectoryIndex :: "page_directory_entry list \<Rightarrow> page_id \<rightharpoonup> page_directory_entry" where
  "pageDirectoryIndex pages = map_of (rev (map (\<lambda>page. (pd_id page, page)) pages))"

definition reference_token :: "(page_id \<rightharpoonup> page_directory_entry) \<Rightarrow> page_id \<Rightarrow> js_string" where
  "reference_token directory page_id =
     js ''[['' @
     (case directory page_id of
        None \<Rightarrow> page_id
      | Some page \<Rightarrow>
          (case pd_journal_date page of Some date \<Rightarrow> date | None \<Rightarrow> pd_title page)) @
     js '']]''"

fun projectInlineContent_loop ::
  "(page_id \<rightharpoonup> page_directory_entry) \<Rightarrow> inline_content list \<Rightarrow>
   js_string \<Rightarrow> int \<Rightarrow> int \<Rightarrow> page_reference_span list \<Rightarrow> inline_content_projection" where
  "projectInlineContent_loop directory [] md display index refs =
     \<lparr>markdown = md, pageReferences = refs\<rparr>"
| "projectInlineContent_loop directory (Markdown value # content) md display index refs =
     (let len = int (length (code_points value))
      in projectInlineContent_loop directory content (md @ value) (display + len) (index + len) refs)"
| "projectInlineContent_loop directory (PageReference page_id # content) md display index refs =
     (let token = reference_token directory page_id;
          end = display + int (length (code_points token))
      in projectInlineContent_loop directory content (md @ token) end (index + 1)
           (refs @ [\<lparr>ref_start = display, ref_end = end, ref_index = index, ref_page_id = page_id\<rparr>]))"

definition projectInlineContent ::
  "inline_content list \<Rightarrow> (page_id \<rightharpoonup> page_directory_entry) \<Rightarrow> inline_content_projection" where
  "projectInlineContent content directory =
     projectInlineContent_loop directory content [] 0 0 []"

subsection \<open>Coordinates\<close>

definition ordered :: "page_reference_span list \<Rightarrow> page_reference_span list" where
  "ordered references = sort_key ref_start references"

fun logicalBoundary_loop :: "int \<Rightarrow> page_reference_span list \<Rightarrow> int \<Rightarrow> int" where
  "logicalBoundary_loop position [] collapsed = position - collapsed"
| "logicalBoundary_loop position (reference # references) collapsed =
     (if position < ref_end reference then position - collapsed
      else logicalBoundary_loop position references
             (collapsed + (ref_end reference - ref_start reference - 1)))"

definition logicalBoundary :: "int \<Rightarrow> page_reference_span list \<Rightarrow> int" where
  "logicalBoundary position references = logicalBoundary_loop position references 0"

text \<open>The scan for the reference a position falls inside; \<open>None\<close> when the loop ends without one.\<close>

fun reference_inside :: "int \<Rightarrow> page_reference_span list \<Rightarrow> page_reference_span option" where
  "reference_inside position [] = None"
| "reference_inside position (reference # references) =
     (if position \<le> ref_start reference then None
      else if position < ref_end reference then Some reference
      else reference_inside position references)"

definition canonicalContentBoundary ::
  "js_string \<Rightarrow> page_reference_span list \<Rightarrow> nat \<Rightarrow> inline_content_boundary" where
  "canonicalContentBoundary value referencesInput utf16Offset =
     (let position = int (codePointIndex value utf16Offset);
          references = ordered referencesInput
      in case reference_inside position references of
           Some reference \<Rightarrow>
             (let after = (ref_end reference - ref_start reference
                            \<le> 2 * (position - ref_start reference));
                  displayPosition = (if after then ref_end reference else ref_start reference)
              in \<lparr>bd_index = ref_index reference + (if after then 1 else 0),
                  bd_utf16Offset = length (concat (js_slice (code_points value) 0 displayPosition))\<rparr>)
         | None \<Rightarrow> \<lparr>bd_index = logicalBoundary position references,
                    bd_utf16Offset = utf16Offset\<rparr>)"

definition splitInlineContentProjection ::
  "js_string \<Rightarrow> page_reference_span list \<Rightarrow> inline_content_boundary \<Rightarrow>
   inline_content_projection \<times> inline_content_projection" where
  "splitInlineContentProjection value referencesInput boundary =
     (let displayIndex = int (codePointIndex value (bd_utf16Offset boundary));
          references = ordered referencesInput
      in (\<lparr>markdown = take (bd_utf16Offset boundary) value,
           pageReferences = filter (\<lambda>reference. ref_end reference \<le> displayIndex) references\<rparr>,
          \<lparr>markdown = drop (bd_utf16Offset boundary) value,
           pageReferences =
             map (\<lambda>reference. reference
                    \<lparr>ref_start := ref_start reference - displayIndex,
                     ref_end := ref_end reference - displayIndex,
                     ref_index := ref_index reference - bd_index boundary\<rparr>)
               (filter (\<lambda>reference. displayIndex \<le> ref_start reference) references)\<rparr>))"

definition joinInlineContentProjections ::
  "inline_content_projection \<Rightarrow> inline_content_projection \<Rightarrow> inline_content_projection" where
  "joinInlineContentProjections head tail =
     (let displayOffset = int (length (code_points (markdown head)));
          logicalOffset = logicalBoundary displayOffset (ordered (pageReferences head))
      in \<lparr>markdown = markdown head @ markdown tail,
          pageReferences =
            pageReferences head @
            map (\<lambda>reference. reference
                   \<lparr>ref_start := ref_start reference + displayOffset,
                    ref_end := ref_end reference + displayOffset,
                    ref_index := ref_index reference + logicalOffset\<rparr>)
              (pageReferences tail)\<rparr>)"

subsection \<open>Planning an edit\<close>

definition touchedBy :: "page_reference_span \<Rightarrow> int \<Rightarrow> int \<Rightarrow> bool" where
  "touchedBy reference start end =
     (if start = end then ref_start reference < start \<and> start < ref_end reference
      else ref_start reference < end \<and> start < ref_end reference)"

definition transformReferences ::
  "page_reference_span list \<Rightarrow> int \<Rightarrow> int \<Rightarrow> int \<Rightarrow> int \<Rightarrow> page_reference_span list" where
  "transformReferences references start end displayLength logicalDelta =
     (let displayDelta = displayLength - (end - start)
      in concat (map (\<lambda>reference.
           if ref_end reference \<le> start then [reference]
           else if end \<le> ref_start reference then
             [reference\<lparr>ref_start := ref_start reference + displayDelta,
                        ref_end := ref_end reference + displayDelta,
                        ref_index := ref_index reference + logicalDelta\<rparr>]
           else []) references))"

definition expandedRange :: "page_reference_span list \<Rightarrow> int \<Rightarrow> int \<Rightarrow> int \<times> int" where
  "expandedRange references start end =
     foldl (\<lambda>(expandedStart, expandedEnd) reference.
         if \<not> touchedBy reference start end then (expandedStart, expandedEnd)
         else (min expandedStart (ref_start reference), max expandedEnd (ref_end reference)))
       (start, end) references"

definition planInlineEdit ::
  "block_id \<Rightarrow> js_string \<Rightarrow> page_reference_span list \<Rightarrow> js_string \<Rightarrow> nat option \<Rightarrow>
   inline_edit_plan option" where
  "planInlineEdit blockId before referencesInput after caret =
     (case diffSplice before after caret of
        None \<Rightarrow> None
      | Some diff \<Rightarrow>
          (let references = ordered referencesInput;
               beforePoints = code_points before;
               diffStart = int (sp_index diff);
               diffEnd = int (sp_index diff + sp_delete diff);
               (rangeStart, rangeEnd) = expandedRange references diffStart diffEnd;
               replacement =
                 concat (js_slice beforePoints rangeStart diffStart
                         @ code_points (sp_insert diff)
                         @ js_slice beforePoints diffEnd rangeEnd);
               index = logicalBoundary rangeStart references;
               deleteCount = logicalBoundary rangeEnd references - index;
               insertLength = int (length (code_points replacement));
               nextReferences = transformReferences references rangeStart rangeEnd
                                  insertLength (insertLength - deleteCount);
               insert = (if replacement = [] then [] else [Markdown replacement])
           in Some \<lparr>pl_splice = \<lparr>bs_block_id = blockId, bs_index = index,
                                 bs_delete = deleteCount, bs_insert = insert\<rparr>,
                    pl_references = nextReferences\<rparr>))"

definition planPageReference ::
  "block_id \<Rightarrow> js_string \<Rightarrow> page_reference_span list \<Rightarrow> nat \<Rightarrow> nat \<Rightarrow> page_id \<Rightarrow> js_string \<Rightarrow>
   js_string \<times> nat \<times> inline_edit_plan" where
  "planPageReference blockId before referencesInput fromUtf16 toUtf16 pageId title =
     (let references = ordered referencesInput;
          tokenStart = int (codePointIndex before fromUtf16);
          tokenEnd = int (codePointIndex before toUtf16);
          (rangeStart, rangeEnd) = expandedRange references tokenStart tokenEnd;
          points = code_points before;
          prefix = concat (js_slice points rangeStart tokenStart);
          suffix = concat (js_slice points tokenEnd rangeEnd);
          source = js ''[['' @ title @ js '']]'';
          replacement = prefix @ source @ suffix;
          value = concat (js_slice points 0 rangeStart @ code_points replacement
                          @ js_slice_from points rangeEnd);
          index = logicalBoundary rangeStart references;
          deleteCount = logicalBoundary rangeEnd references - index;
          prefixLength = int (length (code_points prefix));
          suffixLength = int (length (code_points suffix));
          insert = (if prefix \<noteq> [] then [Markdown prefix] else [])
                   @ [PageReference pageId]
                   @ (if suffix \<noteq> [] then [Markdown suffix] else []);
          insertLogicalLength = prefixLength + 1 + suffixLength;
          displayLength = int (length (code_points replacement));
          referenceStart = rangeStart + prefixLength;
          sourceLength = int (length (code_points source));
          nextReferences =
            sort_key ref_start
              (transformReferences references rangeStart rangeEnd displayLength
                 (insertLogicalLength - deleteCount)
               @ [\<lparr>ref_start = referenceStart, ref_end = referenceStart + sourceLength,
                   ref_index = index + prefixLength, ref_page_id = pageId\<rparr>]);
          caret = length (concat (js_slice (code_points value) 0 (referenceStart + sourceLength)))
      in (value, caret,
          \<lparr>pl_splice = \<lparr>bs_block_id = blockId, bs_index = index,
                        bs_delete = deleteCount, bs_insert = insert\<rparr>,
           pl_references = nextReferences\<rparr>))"

end
