(* ===== verification/Content_Buffer.thy ===== *)
theory Content_Buffer
  imports Inline_Content
begin

text \<open>
  \<open>features/blocks/editor/content-buffer.ts\<close>: a draft of a block's content as a piece
  table over its semantic source. Source pieces keep the identity of untouched atoms,
  insert pieces hold what was typed. The lemmas show that splicing a buffer is splicing
  the list of its atoms, that the changes read off the pieces turn the source into the
  draft, and that the representation stays well formed.
\<close>

subsection \<open>Data\<close>

text \<open>\<open>ContentAtom\<close>: one Unicode scalar, or one semantic reference.\<close>

datatype content_atom = Txt js_string | Ref page_id

datatype piece = SourcePiece nat nat | InsertPiece "content_atom list"

record content_buffer =
  source :: "content_atom list"
  pieces :: "piece list"

record content_change =
  ch_from :: nat
  ch_to :: nat
  ch_insert :: "content_atom list"

text \<open>\<open>ContentRangeChange\<close> of the core: a range replaced, by its lengths only.\<close>

record content_range_change =
  rc_index :: int
  rc_delete :: int
  rc_insert :: int

datatype owner_kind = PageOwner | TagOwner

record outline_owner =
  owner_kind :: owner_kind
  owner_id :: js_string

datatype content_command =
    SpliceBlockContent outline_owner block_content_splice
  | SpliceBlockContents outline_owner "block_content_splice list"

datatype content_error = RangeError

subsection \<open>Atoms and content\<close>

definition contentAtoms :: "inline_content list \<Rightarrow> content_atom list" where
  "contentAtoms content =
     concat (map (\<lambda>item. case item of
         Markdown value \<Rightarrow> map Txt (code_points value)
       | PageReference page_id \<Rightarrow> [Ref page_id]) content)"

fun inlineContent_step :: "inline_content list \<Rightarrow> content_atom \<Rightarrow> inline_content list" where
  "inlineContent_step content (Ref page_id) = content @ [PageReference page_id]"
| "inlineContent_step content (Txt atom) =
     (case last_opt content of
        Some (Markdown value) \<Rightarrow> butlast content @ [Markdown (value @ atom)]
      | _ \<Rightarrow> content @ [Markdown atom])"

definition inlineContent :: "content_atom list \<Rightarrow> inline_content list" where
  "inlineContent atoms = foldl inlineContent_step [] atoms"

definition createContentBuffer :: "inline_content list \<Rightarrow> content_buffer" where
  "createContentBuffer content =
     (let source = contentAtoms content
      in \<lparr>source = source,
          pieces = (if source \<noteq> [] then [SourcePiece 0 (length source)] else [])\<rparr>)"

fun contentFromProjection_loop ::
  "js_string list \<Rightarrow> page_reference_span list \<Rightarrow> int \<Rightarrow> inline_content list" where
  "contentFromProjection_loop points [] from =
     (if from < int (length points) then [Markdown (concat (js_slice_from points from))] else [])"
| "contentFromProjection_loop points (reference # references) from =
     (if ref_start reference < from \<or> int (length points) < ref_end reference
      then contentFromProjection_loop points references from
      else (if from < ref_start reference
            then [Markdown (concat (js_slice points from (ref_start reference)))] else [])
           @ [PageReference (ref_page_id reference)]
           @ contentFromProjection_loop points references (ref_end reference))"

definition contentFromProjection ::
  "js_string \<Rightarrow> page_reference_span list \<Rightarrow> inline_content list" where
  "contentFromProjection md references = contentFromProjection_loop (code_points md) references 0"

subsection \<open>Pieces\<close>

fun pieceLength :: "piece \<Rightarrow> nat" where
  "pieceLength (SourcePiece from to) = to - from"
| "pieceLength (InsertPiece atoms) = length atoms"

fun piece_atoms :: "content_atom list \<Rightarrow> piece \<Rightarrow> content_atom list" where
  "piece_atoms src (SourcePiece from to) = take (to - from) (drop from src)"
| "piece_atoms src (InsertPiece atoms) = atoms"

definition bufferAtoms :: "content_buffer \<Rightarrow> content_atom list" where
  "bufferAtoms buffer = concat (map (piece_atoms (source buffer)) (pieces buffer))"

definition projectContent ::
  "content_atom list \<Rightarrow> page_directory_entry list \<Rightarrow> inline_content_projection" where
  "projectContent atoms directory =
     projectInlineContent (inlineContent atoms) (pageDirectoryIndex directory)"

definition projectBuffer ::
  "content_buffer \<Rightarrow> page_directory_entry list \<Rightarrow> inline_content_projection" where
  "projectBuffer buffer directory = projectContent (bufferAtoms buffer) directory"

fun slice_piece :: "piece \<Rightarrow> nat \<Rightarrow> nat \<Rightarrow> piece" where
  "slice_piece (SourcePiece from to) start end = SourcePiece (from + start) (from + end)"
| "slice_piece (InsertPiece atoms) start end = InsertPiece (take (end - start) (drop start atoms))"

fun slicePieces_loop :: "piece list \<Rightarrow> nat \<Rightarrow> nat \<Rightarrow> nat \<Rightarrow> piece list" where
  "slicePieces_loop [] from to offset = []"
| "slicePieces_loop (piece # rest) from to offset =
     (let len = pieceLength piece;
          start = from - offset;
          end = min len (to - offset);
          sliced = (if start < end then [slice_piece piece start end] else [])
      in if to \<le> offset + len then sliced
         else sliced @ slicePieces_loop rest from to (offset + len))"

definition slicePieces :: "piece list \<Rightarrow> nat \<Rightarrow> nat \<Rightarrow> piece list" where
  "slicePieces ps from to = slicePieces_loop ps from to 0"

definition compactPieces_step :: "piece list \<Rightarrow> piece \<Rightarrow> piece list" where
  "compactPieces_step compact piece =
     (if pieceLength piece = 0 then compact
      else case (last_opt compact, piece) of
          (Some (SourcePiece from to), SourcePiece from' to') \<Rightarrow>
            if to = from' then butlast compact @ [SourcePiece from to'] else compact @ [piece]
        | (Some (InsertPiece atoms), InsertPiece atoms') \<Rightarrow>
            butlast compact @ [InsertPiece (atoms @ atoms')]
        | _ \<Rightarrow> compact @ [piece])"

definition compactPieces :: "piece list \<Rightarrow> piece list" where
  "compactPieces ps = foldl compactPieces_step [] ps"

definition spliceBuffer ::
  "content_buffer \<Rightarrow> int \<Rightarrow> int \<Rightarrow> inline_content list \<Rightarrow> content_error + content_buffer" where
  "spliceBuffer buffer index remove ins =
     (let len = sum_list (map pieceLength (pieces buffer))
      in if index < 0 \<or> remove < 0 \<or> int len < index + remove then Inl RangeError
         else Inr \<lparr>source = source buffer,
                   pieces = compactPieces
                     (slicePieces (pieces buffer) 0 (nat index)
                      @ [InsertPiece (contentAtoms ins)]
                      @ slicePieces (pieces buffer) (nat (index + remove)) len)\<rparr>)"

definition editBuffer ::
  "content_buffer \<Rightarrow> inline_content_projection \<Rightarrow> js_string \<Rightarrow> nat option \<Rightarrow>
   content_error + content_buffer" where
  "editBuffer buffer projection value caret =
     (case planInlineEdit [] (markdown projection) (pageReferences projection) value caret of
        Some plan \<Rightarrow> spliceBuffer buffer (bs_index (pl_splice plan)) (bs_delete (pl_splice plan))
                       (bs_insert (pl_splice plan))
      | None \<Rightarrow> Inr buffer)"

subsection \<open>Changes, splices and commands\<close>

fun bufferChanges_loop ::
  "nat \<Rightarrow> piece list \<Rightarrow> nat \<Rightarrow> content_atom list \<Rightarrow> content_change list" where
  "bufferChanges_loop len [] from ins =
     (if from < len \<or> ins \<noteq> []
      then [\<lparr>ch_from = from, ch_to = len, ch_insert = ins\<rparr>] else [])"
| "bufferChanges_loop len (InsertPiece atoms # rest) from ins =
     bufferChanges_loop len rest from (ins @ atoms)"
| "bufferChanges_loop len (SourcePiece pfrom pto # rest) from ins =
     (if from < pfrom \<or> ins \<noteq> []
      then [\<lparr>ch_from = from, ch_to = pfrom, ch_insert = ins\<rparr>] else [])
     @ bufferChanges_loop len rest pto []"

definition bufferChanges :: "content_buffer \<Rightarrow> content_change list" where
  "bufferChanges buffer = bufferChanges_loop (length (source buffer)) (pieces buffer) 0 []"

fun bufferSplices_loop :: "block_id \<Rightarrow> content_change list \<Rightarrow> int \<Rightarrow> block_content_splice list" where
  "bufferSplices_loop blockId [] delta = []"
| "bufferSplices_loop blockId (change # changes) delta =
     (let removed = int (ch_to change) - int (ch_from change);
          splice = \<lparr>bs_block_id = blockId, bs_index = int (ch_from change) + delta,
                    bs_delete = removed, bs_insert = inlineContent (ch_insert change)\<rparr>
      in splice # bufferSplices_loop blockId changes
                    (delta + int (length (ch_insert change)) - removed))"

definition bufferSplices :: "content_buffer \<Rightarrow> block_id \<Rightarrow> block_content_splice list" where
  "bufferSplices buffer blockId = bufferSplices_loop blockId (bufferChanges buffer) 0"

text \<open>\<open>sameAtom\<close> compares strings with strings and page ids with page ids: it is equality.\<close>

fun sameAtom :: "content_atom \<Rightarrow> content_atom \<Rightarrow> bool" where
  "sameAtom (Txt a) other = (case other of Txt b \<Rightarrow> a = b | Ref _ \<Rightarrow> False)"
| "sameAtom (Ref a) other = (case other of Txt _ \<Rightarrow> False | Ref b \<Rightarrow> a = b)"

definition sameContent :: "content_atom list \<Rightarrow> content_atom list \<Rightarrow> bool" where
  "sameContent left right \<longleftrightarrow>
     length left = length right \<and> list_all (\<lambda>(a, b). sameAtom a b) (zip left right)"

definition bufferIsClean :: "content_buffer \<Rightarrow> bool" where
  "bufferIsClean buffer = sameContent (source buffer) (bufferAtoms buffer)"

definition bufferCommand ::
  "content_buffer \<Rightarrow> outline_owner \<Rightarrow> block_id \<Rightarrow> content_command option" where
  "bufferCommand buffer owner blockId =
     (if bufferIsClean buffer then None
      else case bufferSplices buffer blockId of
          [sp] \<Rightarrow> Some (SpliceBlockContent owner sp)
        | splices \<Rightarrow> Some (SpliceBlockContents owner splices))"

definition contentEditCommand ::
  "outline_owner \<Rightarrow> block_id \<Rightarrow> inline_content list \<Rightarrow> inline_content list \<Rightarrow>
   content_error + content_command option" where
  "contentEditCommand owner blockId from to =
     (let before = contentAtoms from;
          after = contentAtoms to;
          same = (\<lambda>left right. sameContent [left] [right]);
          start = common_prefix same before after;
          end = common_suffix same start before after
      in case spliceBuffer (createContentBuffer from) (int start)
                (int (length before) - int start - int end)
                (inlineContent (js_slice after (int start) (int (length after) - int end))) of
           Inl e \<Rightarrow> Inl e
         | Inr buffer \<Rightarrow> Inr (bufferCommand buffer owner blockId))"

text \<open>The loop of \<open>restoreBuffer\<close>: one splice after another, stopping where one throws.\<close>

fun run_splices ::
  "('s \<Rightarrow> int \<Rightarrow> int \<Rightarrow> inline_content list \<Rightarrow> 'e + 's) \<Rightarrow> 's \<Rightarrow>
   block_content_splice list \<Rightarrow> 'e + 's" where
  "run_splices splice_op result [] = Inr result"
| "run_splices splice_op result (sp # splices) =
     (case splice_op result (bs_index sp) (bs_delete sp) (bs_insert sp) of
        Inl e \<Rightarrow> Inl e
      | Inr result' \<Rightarrow> run_splices splice_op result' splices)"

definition restoreBuffer :: "content_buffer \<Rightarrow> content_buffer \<Rightarrow> content_error + content_buffer" where
  "restoreBuffer original newer = run_splices spliceBuffer original (bufferSplices newer [])"

definition settleBuffer :: "content_buffer \<Rightarrow> content_buffer" where
  "settleBuffer buffer = createContentBuffer (inlineContent (bufferAtoms buffer))"


subsection \<open>Atoms and content agree\<close>

fun scalar_atom :: "content_atom \<Rightarrow> bool" where
  "scalar_atom (Txt p) = scalar_point p"
| "scalar_atom (Ref page_id) = True"

fun well_formed_item :: "inline_content \<Rightarrow> bool" where
  "well_formed_item (Markdown value) = well_formed value"
| "well_formed_item (PageReference page_id) = True"

definition well_formed_content :: "inline_content list \<Rightarrow> bool" where
  "well_formed_content content = list_all well_formed_item content"

lemma contentAtoms_append [simp]: "contentAtoms (xs @ ys) = contentAtoms xs @ contentAtoms ys"
  by (simp add: contentAtoms_def)

lemma contentAtoms_simps [simp]:
  "contentAtoms [] = []"
  "contentAtoms (Markdown value # xs) = map Txt (code_points value) @ contentAtoms xs"
  "contentAtoms (PageReference page_id # xs) = Ref page_id # contentAtoms xs"
  by (simp_all add: contentAtoms_def)

lemma scalar_point_well_formed: "scalar_point p \<Longrightarrow> well_formed p \<and> code_points p = [p]"
  using code_points_scalar_append [of p "[]"] by (simp add: well_formed_def)

lemma inlineContent_step_atoms:
  assumes "well_formed_content content" and "scalar_atom atom"
  shows "contentAtoms (inlineContent_step content atom) = contentAtoms content @ [atom]"
    and "well_formed_content (inlineContent_step content atom)"
proof -
  have "contentAtoms (inlineContent_step content atom) = contentAtoms content @ [atom]
      \<and> well_formed_content (inlineContent_step content atom)"
  proof (cases atom)
    case (Ref page_id)
    then show ?thesis
      using assms by (simp add: well_formed_content_def)
  next
    case (Txt p)
    then have p: "well_formed p" "code_points p = [p]"
      using assms(2) scalar_point_well_formed by auto
    show ?thesis
    proof (cases "\<exists>v. last_opt content = Some (Markdown v)")
      case True
      then obtain v where last: "last_opt content = Some (Markdown v)" by blast
      define front where "front = butlast content"
      have content: "content = front @ [Markdown v]"
        unfolding front_def by (rule last_opt_SomeD [OF last])
      have step: "inlineContent_step content atom = front @ [Markdown (v @ p)]"
        using Txt last by (simp add: front_def)
      have "well_formed v" and "well_formed_content front"
        using assms(1) by (simp_all add: content well_formed_content_def)
      then show ?thesis
        unfolding step using Txt p
        by (simp add: content code_points_append well_formed_content_def)
    next
      case False
      then have "inlineContent_step content atom = content @ [Markdown p]"
        using Txt by (auto split: option.splits inline_content.splits)
      then show ?thesis
        using assms(1) Txt p by (simp add: well_formed_content_def)
    qed
  qed
  then show "contentAtoms (inlineContent_step content atom) = contentAtoms content @ [atom]"
    and "well_formed_content (inlineContent_step content atom)"
    by blast+
qed

lemma inlineContent_foldl:
  "well_formed_content content \<Longrightarrow> list_all scalar_atom atoms \<Longrightarrow>
   contentAtoms (foldl inlineContent_step content atoms) = contentAtoms content @ atoms
   \<and> well_formed_content (foldl inlineContent_step content atoms)"
  by (induction atoms arbitrary: content) (auto simp: inlineContent_step_atoms)

lemma contentAtoms_inlineContent [simp]:
  "list_all scalar_atom atoms \<Longrightarrow> contentAtoms (inlineContent atoms) = atoms"
  using inlineContent_foldl [of "[]" atoms] by (simp add: inlineContent_def well_formed_content_def)

lemma well_formed_inlineContent [simp]:
  "list_all scalar_atom atoms \<Longrightarrow> well_formed_content (inlineContent atoms)"
  using inlineContent_foldl [of "[]" atoms] by (simp add: inlineContent_def well_formed_content_def)

lemma scalar_contentAtoms [simp]:
  "well_formed_content content \<Longrightarrow> list_all scalar_atom (contentAtoms content)"
  by (induction content)
    (auto simp: well_formed_content_def list_all_iff well_formed_def contentAtoms_def
      split: inline_content.splits)

lemma sameAtom_eq [simp]: "sameAtom a b \<longleftrightarrow> a = b"
  by (cases a; cases b) auto

lemma sameContent_eq [simp]: "sameContent xs ys \<longleftrightarrow> xs = ys"
  by (auto simp: sameContent_def list_all_length list_eq_iff_nth_eq)

lemma bufferIsClean_iff: "bufferIsClean buffer \<longleftrightarrow> bufferAtoms buffer = source buffer"
  by (auto simp: bufferIsClean_def)

subsection \<open>The invariant of a buffer\<close>

text \<open>
  Source pieces are non-empty ranges of the source, in increasing order and without
  overlap; insert pieces are non-empty; no two neighbours could be one piece.
\<close>

fun ordered_pieces :: "nat \<Rightarrow> nat \<Rightarrow> piece list \<Rightarrow> bool" where
  "ordered_pieces lo len [] = (lo \<le> len)"
| "ordered_pieces lo len (SourcePiece from to # ps) =
     (lo \<le> from \<and> from < to \<and> to \<le> len \<and> ordered_pieces to len ps)"
| "ordered_pieces lo len (InsertPiece atoms # ps) =
     (atoms \<noteq> [] \<and> list_all scalar_atom atoms \<and> ordered_pieces lo len ps)"

fun mergeable :: "piece \<Rightarrow> piece \<Rightarrow> bool" where
  "mergeable (SourcePiece from to) (SourcePiece from' to') = (to = from')"
| "mergeable (InsertPiece _) (InsertPiece _) = True"
| "mergeable _ _ = False"

definition buffer_inv :: "content_buffer \<Rightarrow> bool" where
  "buffer_inv buffer \<longleftrightarrow>
     list_all scalar_atom (source buffer)
   \<and> ordered_pieces 0 (length (source buffer)) (pieces buffer)
   \<and> successively (\<lambda>p q. \<not> mergeable p q) (pieces buffer)"

lemma mergeable_right [simp]:
  "mergeable p (SourcePiece from to) \<longleftrightarrow> (\<exists>from'. p = SourcePiece from' from)"
  "mergeable p (InsertPiece atoms) \<longleftrightarrow> (\<exists>atoms'. p = InsertPiece atoms')"
  by (cases p; auto)+

text \<open>Where the source pieces of a prefix end.\<close>

fun pieces_end :: "nat \<Rightarrow> piece list \<Rightarrow> nat" where
  "pieces_end lo [] = lo"
| "pieces_end lo (SourcePiece from to # ps) = pieces_end to ps"
| "pieces_end lo (InsertPiece atoms # ps) = pieces_end lo ps"

lemma ordered_pieces_le: "ordered_pieces lo len ps \<Longrightarrow> lo \<le> len"
  by (induction lo len ps rule: ordered_pieces.induct) auto

lemma ordered_pieces_weaken: "ordered_pieces lo len ps \<Longrightarrow> lo' \<le> lo \<Longrightarrow> ordered_pieces lo' len ps"
  by (induction lo len ps rule: ordered_pieces.induct) auto

lemma ordered_pieces_append:
  "ordered_pieces lo len (ps @ qs) \<longleftrightarrow>
     ordered_pieces lo len ps \<and> ordered_pieces (pieces_end lo ps) len qs"
  by (induction lo len ps rule: ordered_pieces.induct)
    (auto dest: ordered_pieces_le)

lemma ordered_pieces_length:
  "ordered_pieces lo len ps \<Longrightarrow> p \<in> set ps \<Longrightarrow> 0 < pieceLength p"
  by (induction lo len ps rule: ordered_pieces.induct) auto

lemma ordered_pieces_atoms_length:
  "ordered_pieces lo (length src) ps \<Longrightarrow> p \<in> set ps \<Longrightarrow>
   length (piece_atoms src p) = pieceLength p"
  by (induction lo "length src" ps rule: ordered_pieces.induct) auto

lemma ordered_pieces_total:
  "ordered_pieces lo (length src) ps \<Longrightarrow>
   length (concat (map (piece_atoms src) ps)) = sum_list (map pieceLength ps)"
  by (induction lo "length src" ps rule: ordered_pieces.induct) auto

lemma ordered_pieces_scalar:
  "list_all scalar_atom src \<Longrightarrow> ordered_pieces lo (length src) ps \<Longrightarrow>
   list_all scalar_atom (concat (map (piece_atoms src) ps))"
  by (induction lo "length src" ps rule: ordered_pieces.induct) auto

lemma length_bufferAtoms:
  "buffer_inv buffer \<Longrightarrow> sum_list (map pieceLength (pieces buffer)) = length (bufferAtoms buffer)"
  using ordered_pieces_total by (auto simp: buffer_inv_def bufferAtoms_def)

lemma scalar_bufferAtoms: "buffer_inv buffer \<Longrightarrow> list_all scalar_atom (bufferAtoms buffer)"
  using ordered_pieces_scalar by (auto simp: buffer_inv_def bufferAtoms_def)

subsection \<open>Slices of pieces are slices of atoms\<close>

text \<open>The two slices \<open>spliceBuffer\<close> takes, as structural recursions without an offset.\<close>

fun pieces_take :: "nat \<Rightarrow> piece list \<Rightarrow> piece list" where
  "pieces_take i [] = []"
| "pieces_take i (p # ps) =
     (if i = 0 then [] else if i \<le> pieceLength p then [slice_piece p 0 i]
      else p # pieces_take (i - pieceLength p) ps)"

fun pieces_drop :: "nat \<Rightarrow> piece list \<Rightarrow> piece list" where
  "pieces_drop j [] = []"
| "pieces_drop j (p # ps) =
     (if j < pieceLength p then slice_piece p j (pieceLength p) # ps
      else pieces_drop (j - pieceLength p) ps)"

lemma pieces_take_0 [simp]: "pieces_take 0 ps = []"
  by (cases ps) auto

lemma slice_piece_all: "0 < pieceLength p \<Longrightarrow> slice_piece p 0 (pieceLength p) = p"
  by (cases p) auto

lemma slicePieces_take:
  "\<forall>p \<in> set ps. 0 < pieceLength p \<Longrightarrow> slicePieces_loop ps 0 (off + i) off = pieces_take i ps"
proof (induction ps arbitrary: off i)
  case (Cons p ps)
  show ?case
  proof (cases "i \<le> pieceLength p")
    case True
    then show ?thesis by (simp add: min_def Let_def)
  next
    case False
    then have "slicePieces_loop ps 0 (off + i) (off + pieceLength p) = pieces_take (i - pieceLength p) ps"
      using Cons.IH [of "off + pieceLength p" "i - pieceLength p"] Cons.prems by simp
    then show ?thesis
      using False Cons.prems slice_piece_all [of p] by (simp add: min_def Let_def)
  qed
qed simp

lemma slicePieces_rest:
  "\<forall>p \<in> set ps. 0 < pieceLength p \<Longrightarrow> from \<le> off \<Longrightarrow>
   slicePieces_loop ps from (off + sum_list (map pieceLength ps)) off = ps"
proof (induction ps arbitrary: off)
  case (Cons p ps)
  have "ps = [] \<or> 0 < sum_list (map pieceLength ps)"
    using Cons.prems by (cases ps) auto
  then show ?case
    using Cons slice_piece_all [of p]
    by (auto simp: Let_def min_def add.assoc [symmetric])
qed simp

lemma slicePieces_drop:
  "\<forall>p \<in> set ps. 0 < pieceLength p \<Longrightarrow>
   slicePieces_loop ps (off + j) (off + sum_list (map pieceLength ps)) off = pieces_drop j ps"
proof (induction ps arbitrary: off j)
  case (Cons p ps)
  have pos: "ps = [] \<or> 0 < sum_list (map pieceLength ps)"
    using Cons.prems by (cases ps) auto
  show ?case
  proof (cases "j < pieceLength p")
    case True
    then show ?thesis
      using pos Cons.prems slicePieces_rest [of ps "off + j" "off + pieceLength p"]
      by (auto simp: Let_def min_def add.assoc)
  next
    case False
    then show ?thesis
      using pos Cons.prems Cons.IH [of "off + pieceLength p" "j - pieceLength p"]
      by (auto simp: Let_def min_def add.assoc)
  qed
qed simp

lemma slicePieces_eq:
  assumes "ordered_pieces lo len ps"
  shows "slicePieces ps 0 i = pieces_take i ps"
    and "slicePieces ps j (sum_list (map pieceLength ps)) = pieces_drop j ps"
  using slicePieces_take [of ps 0 i] slicePieces_drop [of ps 0 j] ordered_pieces_length [OF assms]
  by (simp_all add: slicePieces_def)

lemma pieces_take_atoms:
  "ordered_pieces lo (length src) ps \<Longrightarrow>
   concat (map (piece_atoms src) (pieces_take i ps)) = take i (concat (map (piece_atoms src) ps))"
  by (induction lo "length src" ps arbitrary: i rule: ordered_pieces.induct)
    (auto simp: min_absorb1 min_absorb2 diff_le_mono)

lemma pieces_drop_atoms:
  "ordered_pieces lo (length src) ps \<Longrightarrow>
   concat (map (piece_atoms src) (pieces_drop j ps)) = drop j (concat (map (piece_atoms src) ps))"
  by (induction lo "length src" ps arbitrary: j rule: ordered_pieces.induct)
    (auto simp: min_absorb1 min_absorb2 diff_le_mono drop_take add.commute)

lemma pieces_take_ordered: "ordered_pieces lo len ps \<Longrightarrow> ordered_pieces lo len (pieces_take i ps)"
  by (induction lo len ps arbitrary: i rule: ordered_pieces.induct)
    (auto dest: ordered_pieces_le)

lemma pieces_take_drop_ordered:
  "ordered_pieces lo len ps \<Longrightarrow> i \<le> j \<Longrightarrow>
   ordered_pieces (pieces_end lo (pieces_take i ps)) len (pieces_drop j ps)"
proof (induction lo len ps arbitrary: i j rule: ordered_pieces.induct)
  case (2 lo len f t ps)
  have rest: "ordered_pieces lo' len (pieces_drop k ps)" if "lo' \<le> t" for lo' k
    using ordered_pieces_weaken [OF _ that] "2.IH" [of 0 k] "2.prems" by simp
  show ?case
    using "2.prems" rest "2.IH" [of "i - (t - f)" "j - (t - f)"] by auto
next
  case (3 lo len atoms ps)
  then show ?case
    using "3.IH" [of 0 "j - length atoms"] "3.IH" [of "i - length atoms" "j - length atoms"] by auto
qed simp

subsection \<open>Compaction keeps the atoms and the order\<close>

lemma compactPieces_step_cases:
  assumes "0 < pieceLength p"
  obtains (merge_source) front f t t' where
      "ps = front @ [SourcePiece f t]" "p = SourcePiece t t'"
      "compactPieces_step ps p = front @ [SourcePiece f t']"
  | (merge_insert) front as bs where
      "ps = front @ [InsertPiece as]" "p = InsertPiece bs"
      "compactPieces_step ps p = front @ [InsertPiece (as @ bs)]"
  | (push) "compactPieces_step ps p = ps @ [p]"
      "ps = [] \<or> \<not> mergeable (last ps) p"
proof (cases ps rule: rev_cases)
  case Nil
  then show ?thesis
    using assms push by (simp add: compactPieces_step_def)
next
  case (snoc front q)
  show ?thesis
  proof (cases q)
    case (SourcePiece f t)
    then show ?thesis
      using assms snoc push merge_source
      by (cases p) (auto simp: compactPieces_step_def split: if_splits)
  next
    case (InsertPiece as)
    then show ?thesis
      using assms snoc push merge_insert by (cases p) (auto simp: compactPieces_step_def)
  qed
qed

lemma pieces_end_append [simp]: "pieces_end lo (ps @ qs) = pieces_end (pieces_end lo ps) qs"
  by (induction lo ps rule: pieces_end.induct) auto

lemma successively_snoc_replace:
  assumes "successively (\<lambda>p q. \<not> mergeable p q) (front @ [q])"
    and "\<And>x. mergeable x q' \<Longrightarrow> mergeable x q"
  shows "successively (\<lambda>p q. \<not> mergeable p q) (front @ [q'])"
  using assms by (auto simp: successively_append_iff)

lemma compactPieces_step_inv:
  assumes "ordered_pieces lo (length src) (ps @ [p])"
    and "successively (\<lambda>p q. \<not> mergeable p q) ps"
  shows "ordered_pieces lo (length src) (compactPieces_step ps p)
     \<and> pieces_end lo (compactPieces_step ps p) = pieces_end lo (ps @ [p])
     \<and> concat (map (piece_atoms src) (compactPieces_step ps p))
         = concat (map (piece_atoms src) (ps @ [p]))
     \<and> successively (\<lambda>p q. \<not> mergeable p q) (compactPieces_step ps p)"
proof -
  have "0 < pieceLength p"
    using ordered_pieces_length [OF assms(1)] by simp
  then show ?thesis
  proof (cases rule: compactPieces_step_cases [where ps = ps])
    case (merge_source front f t t')
    then have "f < t" "t < t'" "t' \<le> length src"
      using assms(1) by (auto simp: ordered_pieces_append)
    then have "take (t' - f) (drop f src) = take (t - f) (drop f src) @ take (t' - t) (drop t src)"
      using take_add [of "t - f" "t' - t" "drop f src"] by simp
    then show ?thesis
      using merge_source assms \<open>f < t\<close> \<open>t < t'\<close>
        successively_snoc_replace [of front "SourcePiece f t" "SourcePiece f t'"]
      by (auto simp: ordered_pieces_append)
  next
    case (merge_insert front as bs)
    then show ?thesis
      using assms successively_snoc_replace [of front "InsertPiece as" "InsertPiece (as @ bs)"]
      by (auto simp: ordered_pieces_append)
  next
    case push
    then show ?thesis
      using assms by (auto simp: successively_append_iff)
  qed
qed

lemma compactPieces_foldl:
  "ordered_pieces lo (length src) (ps @ qs) \<Longrightarrow> successively (\<lambda>p q. \<not> mergeable p q) ps \<Longrightarrow>
   ordered_pieces lo (length src) (foldl compactPieces_step ps qs)
   \<and> concat (map (piece_atoms src) (foldl compactPieces_step ps qs))
       = concat (map (piece_atoms src) (ps @ qs))
   \<and> successively (\<lambda>p q. \<not> mergeable p q) (foldl compactPieces_step ps qs)"
proof (induction qs arbitrary: ps)
  case (Cons q qs)
  have "ordered_pieces lo (length src) (ps @ [q])"
    using Cons.prems(1) by (metis append.assoc append_Cons append_Nil ordered_pieces_append)
  note step = compactPieces_step_inv [OF this Cons.prems(2)]
  have "ordered_pieces lo (length src) (compactPieces_step ps q @ qs)"
    using step Cons.prems(1) ordered_pieces_append [of lo "length src" "ps @ [q]" qs]
    by (auto simp: ordered_pieces_append)
  then show ?case
    using Cons.IH [of "compactPieces_step ps q"] step by simp
qed simp

text \<open>A piece of length zero is skipped, so compaction also drops an empty insertion.\<close>

lemma compactPieces_drop_empty:
  "compactPieces (ps @ [InsertPiece []] @ qs) = compactPieces (ps @ qs)"
  by (simp add: compactPieces_def compactPieces_step_def)

lemma compactPieces_inv:
  assumes "ordered_pieces lo (length src) ps"
  shows "ordered_pieces lo (length src) (compactPieces ps)"
    and "concat (map (piece_atoms src) (compactPieces ps)) = concat (map (piece_atoms src) ps)"
    and "successively (\<lambda>p q. \<not> mergeable p q) (compactPieces ps)"
  using compactPieces_foldl [of lo src "[]" ps] assms by (simp_all add: compactPieces_def)


subsection \<open>Splicing\<close>

lemma buffer_inv_create [simp]:
  assumes "well_formed_content content"
  shows "buffer_inv (createContentBuffer content)"
    and "bufferAtoms (createContentBuffer content) = contentAtoms content"
    and "source (createContentBuffer content) = contentAtoms content"
  using assms
  by (auto simp: createContentBuffer_def buffer_inv_def bufferAtoms_def Let_def)

lemma spliceBuffer_error:
  assumes "buffer_inv buffer"
  shows "spliceBuffer buffer index remove ins = Inl RangeError \<longleftrightarrow>
     index < 0 \<or> remove < 0 \<or> int (length (bufferAtoms buffer)) < index + remove"
  using length_bufferAtoms [OF assms] by (simp add: spliceBuffer_def Let_def)

lemma spliceBuffer_ok:
  assumes inv: "buffer_inv buffer" and wf: "well_formed_content ins"
    and range: "0 \<le> index" "0 \<le> remove" "index + remove \<le> int (length (bufferAtoms buffer))"
  shows "\<exists>buffer'. spliceBuffer buffer index remove ins = Inr buffer'
     \<and> buffer_inv buffer' \<and> source buffer' = source buffer
     \<and> bufferAtoms buffer'
         = replace_range (nat index) (nat remove) (contentAtoms ins) (bufferAtoms buffer)"
proof -
  let ?src = "source buffer" and ?ps = "pieces buffer"
  let ?i = "nat index" and ?j = "nat (index + remove)"
  have ord: "ordered_pieces 0 (length ?src) ?ps" and scalar: "list_all scalar_atom ?src"
    using inv by (auto simp: buffer_inv_def)
  let ?new = "pieces_take ?i ?ps @ [InsertPiece (contentAtoms ins)] @ pieces_drop ?j ?ps"
  let ?lean = "pieces_take ?i ?ps @ (if contentAtoms ins = [] then [] else [InsertPiece (contentAtoms ins)])
     @ pieces_drop ?j ?ps"
  have compact: "compactPieces ?new = compactPieces ?lean"
    using compactPieces_drop_empty by (cases "contentAtoms ins = []") auto
  have lean: "ordered_pieces 0 (length ?src) ?lean"
    using pieces_take_ordered [OF ord, of ?i] pieces_take_drop_ordered [OF ord, of ?i ?j]
      range wf by (auto simp: ordered_pieces_append nat_mono dest: ordered_pieces_le)
  have eq: "spliceBuffer buffer index remove ins
      = Inr \<lparr>source = ?src, pieces = compactPieces ?lean\<rparr>"
    using range length_bufferAtoms [OF inv] slicePieces_eq [OF ord] compact
    by (simp add: spliceBuffer_def Let_def)
  have "?j = ?i + nat remove"
    using range by simp
  then have "concat (map (piece_atoms ?src) ?lean)
      = replace_range ?i (nat remove) (contentAtoms ins) (bufferAtoms buffer)"
    using pieces_take_atoms [OF ord, of ?i] pieces_drop_atoms [OF ord, of ?j]
    by (simp add: replace_range_def bufferAtoms_def)
  then show ?thesis
    using eq scalar compactPieces_inv [OF lean]
    by (auto simp: buffer_inv_def bufferAtoms_def)
qed

subsection \<open>The interface of a draft\<close>

text \<open>
  What the core does with the splices of a command: one after the other, each inside the
  content the earlier ones left.
\<close>

fun apply_splices :: "block_content_splice list \<Rightarrow> content_atom list \<Rightarrow> content_atom list option" where
  "apply_splices [] atoms = Some atoms"
| "apply_splices (sp # sps) atoms =
     (if 0 \<le> bs_index sp \<and> 0 \<le> bs_delete sp \<and> bs_index sp + bs_delete sp \<le> int (length atoms)
      then apply_splices sps
             (replace_range (nat (bs_index sp)) (nat (bs_delete sp)) (contentAtoms (bs_insert sp)) atoms)
      else None)"

text \<open>
  A draft: something with a list of atoms, an unchanging source and a splice that acts on
  the atoms as a list splice and throws exactly outside them.
\<close>

locale draft =
  fixes inv :: "'s \<Rightarrow> bool"
    and atoms :: "'s \<Rightarrow> content_atom list"
    and base :: "'s \<Rightarrow> content_atom list"
    and splice_op :: "'s \<Rightarrow> int \<Rightarrow> int \<Rightarrow> inline_content list \<Rightarrow> content_error + 's"
  assumes splice_op_ok:
    "\<lbrakk>inv b; well_formed_content ins; 0 \<le> i; 0 \<le> d; i + d \<le> int (length (atoms b))\<rbrakk> \<Longrightarrow>
     \<exists>b'. splice_op b i d ins = Inr b' \<and> inv b' \<and> base b' = base b
        \<and> atoms b' = replace_range (nat i) (nat d) (contentAtoms ins) (atoms b)"
    and splice_op_error:
    "inv b \<Longrightarrow> splice_op b i d ins = Inl RangeError \<longleftrightarrow>
       i < 0 \<or> d < 0 \<or> int (length (atoms b)) < i + d"
begin

text \<open>A run of splices acts as the core's run of the same splices.\<close>

lemma run_splices_apply:
  assumes "inv b" and "list_all (\<lambda>sp. well_formed_content (bs_insert sp)) sps"
    and "apply_splices sps (atoms b) = Some result"
  shows "\<exists>b'. run_splices splice_op b sps = Inr b' \<and> inv b' \<and> base b' = base b \<and> atoms b' = result"
  using assms
proof (induction sps arbitrary: b)
  case (Cons sp sps)
  let ?i = "bs_index sp" and ?d = "bs_delete sp"
  have range: "0 \<le> ?i" "0 \<le> ?d" "?i + ?d \<le> int (length (atoms b))"
    and rest: "apply_splices sps
      (replace_range (nat ?i) (nat ?d) (contentAtoms (bs_insert sp)) (atoms b)) = Some result"
    using Cons.prems(3) by (auto split: if_splits)
  obtain b1 where b1: "splice_op b ?i ?d (bs_insert sp) = Inr b1" "inv b1" "base b1 = base b"
    "atoms b1 = replace_range (nat ?i) (nat ?d) (contentAtoms (bs_insert sp)) (atoms b)"
    using splice_op_ok [OF Cons.prems(1) _ range] Cons.prems(2) by fastforce
  then show ?case
    using Cons.IH [of b1] Cons.prems(2) rest by auto
qed simp

text \<open>A run throws exactly when the core would refuse one of its splices.\<close>

lemma run_splices_error:
  assumes "inv b" and "list_all (\<lambda>sp. well_formed_content (bs_insert sp)) sps"
    and "apply_splices sps (atoms b) = None"
  shows "run_splices splice_op b sps = Inl RangeError"
  using assms
proof (induction sps arbitrary: b)
  case (Cons sp sps)
  let ?i = "bs_index sp" and ?d = "bs_delete sp"
  show ?case
  proof (cases "0 \<le> ?i \<and> 0 \<le> ?d \<and> ?i + ?d \<le> int (length (atoms b))")
    case True
    then obtain b1 where "splice_op b ?i ?d (bs_insert sp) = Inr b1" "inv b1"
      "atoms b1 = replace_range (nat ?i) (nat ?d) (contentAtoms (bs_insert sp)) (atoms b)"
      using splice_op_ok [OF Cons.prems(1), of "bs_insert sp" ?i ?d] Cons.prems(2) by fastforce
    then show ?thesis
      using Cons.IH [of b1] Cons.prems True by simp
  next
    case False
    then have "splice_op b ?i ?d (bs_insert sp) = Inl RangeError"
      using splice_op_error [OF Cons.prems(1), of ?i ?d "bs_insert sp"] by auto
    then show ?thesis by simp
  qed
qed simp

lemma run_splices_keeps:
  assumes "inv b" and "list_all (\<lambda>sp. well_formed_content (bs_insert sp)) sps"
    and "run_splices splice_op b sps = Inr result"
  shows "inv result \<and> base result = base b"
  using run_splices_apply [OF assms(1,2)] run_splices_error [OF assms(1,2)] assms(3)
  by (cases "apply_splices sps (atoms b)") auto

end

interpretation buffer_draft: draft buffer_inv bufferAtoms source spliceBuffer
  by unfold_locales (use spliceBuffer_ok spliceBuffer_error in blast)+


subsection \<open>Changes turn the source into the draft\<close>

lemma contentAtoms_well_formed_splices:
  "list_all (\<lambda>c. list_all scalar_atom (ch_insert c)) changes \<Longrightarrow>
   list_all (\<lambda>sp. well_formed_content (bs_insert sp)) (bufferSplices_loop blockId changes delta)"
  by (induction changes arbitrary: delta) (auto simp: Let_def)

lemma bufferChanges_scalar:
  "ordered_pieces lo len ps \<Longrightarrow> list_all scalar_atom ins \<Longrightarrow>
   list_all (\<lambda>c. list_all scalar_atom (ch_insert c)) (bufferChanges_loop n ps from ins)"
  by (induction lo len ps arbitrary: "from" ins rule: ordered_pieces.induct) auto

lemma apply_splices_changes:
  assumes "ordered_pieces lo (length src) ps" and "list_all scalar_atom ins"
    and "int (length out) = int lo + delta"
  shows "apply_splices
       (bufferSplices_loop blockId (bufferChanges_loop (length src) ps lo ins) delta)
       (out @ drop lo src)
     = Some (out @ ins @ concat (map (piece_atoms src) ps))"
  using assms
proof (induction lo "length src" ps arbitrary: ins out delta rule: ordered_pieces.induct)
  case (1 lo)
  then show ?case
    by (auto simp: Let_def replace_range_def)
next
  case (2 lo f t ps)
  have *: "lo \<le> f" "f < t" "t \<le> length src" "ordered_pieces t (length src) ps"
    using "2.prems"(1) by auto
  let ?out = "out @ ins @ take (t - f) (drop f src)"
  let ?delta = "delta + int (length ins) - (int f - int lo)"
  have rest: "apply_splices (bufferSplices_loop blockId (bufferChanges_loop (length src) ps t []) ?delta)
      (?out @ drop t src) = Some (?out @ concat (map (piece_atoms src) ps))"
    using "2.hyps" [OF *(4), of "[]" ?out ?delta] "2.prems"(3) * by simp
  have shift: "take (t - f) (drop f src) @ drop t src = drop f src"
    using take_drop_join [of "t - f" f src] *(2) by simp
  have out: "nat (int lo + delta) = length out"
    using "2.prems"(3) by simp
  have spliced: "replace_range (length out) (nat (int f - int lo)) ins (out @ drop lo src)
      = ?out @ drop t src"
    using shift *(1) by (simp add: replace_range_def nat_diff_distrib)
  show ?case
    using rest spliced * out "2.prems"
    by (auto simp: Let_def algebra_simps)
next
  case (3 lo atoms ps)
  then show ?case
    using "3.hyps" [of "ins @ atoms" out delta] by simp
qed

lemma bufferSplices_apply:
  assumes "buffer_inv buffer"
  shows "apply_splices (bufferSplices buffer blockId) (source buffer) = Some (bufferAtoms buffer)"
  using assms apply_splices_changes [of 0 "source buffer" "pieces buffer" "[]" "[]" 0 blockId]
  by (simp add: buffer_inv_def bufferSplices_def bufferChanges_def bufferAtoms_def)

lemma bufferSplices_well_formed:
  assumes "buffer_inv buffer"
  shows "list_all (\<lambda>sp. well_formed_content (bs_insert sp)) (bufferSplices buffer blockId)"
  using assms bufferChanges_scalar contentAtoms_well_formed_splices
  by (force simp: buffer_inv_def bufferSplices_def bufferChanges_def)

lemma bufferSplices_block:
  "sp \<in> set (bufferSplices buffer blockId) \<Longrightarrow> bs_block_id sp = blockId"
proof -
  have "sp \<in> set (bufferSplices_loop blockId changes delta) \<Longrightarrow> bs_block_id sp = blockId" for changes delta
    by (induction changes arbitrary: delta) (auto simp: Let_def)
  then show "sp \<in> set (bufferSplices buffer blockId) \<Longrightarrow> bs_block_id sp = blockId"
    by (simp add: bufferSplices_def)
qed

text \<open>The splices a command carries.\<close>

fun command_splices :: "content_command \<Rightarrow> block_content_splice list" where
  "command_splices (SpliceBlockContent owner sp) = [sp]"
| "command_splices (SpliceBlockContents owner sps) = sps"

fun command_owner :: "content_command \<Rightarrow> outline_owner" where
  "command_owner (SpliceBlockContent owner sp) = owner"
| "command_owner (SpliceBlockContents owner sps) = owner"

lemma bufferCommand_splices:
  "bufferCommand buffer owner blockId = Some command \<Longrightarrow>
   command_splices command = bufferSplices buffer blockId \<and> command_owner command = owner"
  by (auto simp: bufferCommand_def split: if_splits list.splits)


subsection \<open>Properties\<close>

lemma settleBuffer_props:
  assumes "buffer_inv buffer"
  shows "buffer_inv (settleBuffer buffer)" "bufferAtoms (settleBuffer buffer) = bufferAtoms buffer"
    "source (settleBuffer buffer) = bufferAtoms buffer"
  using assms scalar_bufferAtoms [OF assms] by (simp_all add: settleBuffer_def)

text \<open>
  C13. Splicing a well-formed draft either throws a \<open>RangeError\<close>, exactly when the range
  leaves the draft, or gives a well-formed draft of the same source whose atoms are the old
  atoms with that range replaced.
\<close>

theorem spliceBuffer_correct:
  assumes "buffer_inv buffer" and "well_formed_content ins"
  shows "case spliceBuffer buffer index remove ins of
       Inl e \<Rightarrow> index < 0 \<or> remove < 0 \<or> int (length (bufferAtoms buffer)) < index + remove
     | Inr buffer' \<Rightarrow>
         0 \<le> index \<and> 0 \<le> remove \<and> index + remove \<le> int (length (bufferAtoms buffer))
       \<and> buffer_inv buffer' \<and> source buffer' = source buffer
       \<and> bufferAtoms buffer'
           = replace_range (nat index) (nat remove) (contentAtoms ins) (bufferAtoms buffer)"
proof (cases "0 \<le> index \<and> 0 \<le> remove \<and> index + remove \<le> int (length (bufferAtoms buffer))")
  case True
  then show ?thesis
    using spliceBuffer_ok [OF assms, of index remove] by auto
next
  case False
  then have "spliceBuffer buffer index remove ins = Inl RangeError"
    using spliceBuffer_error [OF assms(1)] by auto
  then show ?thesis using False by auto
qed

theorem spliceBuffer_correct_witness:
  "bufferAtoms (projr (spliceBuffer (createContentBuffer [Markdown (js ''abc'')]) 1 1 [PageReference (js ''p'')]))
     = [Txt (js ''a''), Ref (js ''p''), Txt (js ''c'')]"
proof -
  let ?b = "createContentBuffer [Markdown (js ''abc'')]"
  have inv: "buffer_inv ?b" "well_formed_content [PageReference (js ''p'')]"
    by code_simp+
  have eq: "spliceBuffer ?b 1 1 [PageReference (js ''p'')]
      = Inr \<lparr>source = map Txt (code_points (js ''abc'')),
             pieces = [SourcePiece 0 1, InsertPiece [Ref (js ''p'')], SourcePiece 2 3]\<rparr>"
    by code_simp
  have "replace_range (nat 1) (nat 1) (contentAtoms [PageReference (js ''p'')]) (bufferAtoms ?b)
      = [Txt (js ''a''), Ref (js ''p''), Txt (js ''c'')]"
    by code_simp
  then show ?thesis
    using spliceBuffer_correct [OF inv, of 1 1] by (simp only: eq sum.case sum.sel)
qed

text \<open>
  C14. The command a draft is saved with is exactly its difference from its source: there is
  none when the draft is clean; otherwise every splice of it names the block, and applying
  the splices in order to the source gives the draft.
\<close>

theorem bufferCommand_applies:
  assumes "buffer_inv buffer"
  shows "case bufferCommand buffer owner blockId of
       None \<Rightarrow> bufferAtoms buffer = source buffer
     | Some command \<Rightarrow>
         bufferAtoms buffer \<noteq> source buffer
       \<and> command_owner command = owner
       \<and> (\<forall>sp \<in> set (command_splices command). bs_block_id sp = blockId)
       \<and> apply_splices (command_splices command) (source buffer) = Some (bufferAtoms buffer)"
proof (cases "bufferCommand buffer owner blockId")
  case None
  then show ?thesis
    by (auto simp: bufferCommand_def bufferIsClean_iff split: if_splits list.splits)
next
  case (Some command)
  then have "bufferAtoms buffer \<noteq> source buffer"
    by (auto simp: bufferCommand_def bufferIsClean_iff)
  then show ?thesis
    using Some bufferCommand_splices [OF Some] bufferSplices_apply [OF assms] bufferSplices_block
    by auto
qed

theorem bufferCommand_applies_witness:
  "apply_splices
     (command_splices (the (bufferCommand
        \<lparr>source = [Txt (js ''a''), Txt (js ''b'')], pieces = [InsertPiece [Txt (js ''x'')], SourcePiece 1 2]\<rparr>
        \<lparr>owner_kind = PageOwner, owner_id = js ''o''\<rparr> (js ''k''))))
     [Txt (js ''a''), Txt (js ''b'')]
   = Some [Txt (js ''x''), Txt (js ''b'')]"
proof -
  let ?b = "\<lparr>source = [Txt (js ''a''), Txt (js ''b'')],
     pieces = [InsertPiece [Txt (js ''x'')], SourcePiece 1 2]\<rparr>"
  let ?o = "\<lparr>owner_kind = PageOwner, owner_id = js ''o''\<rparr>"
  have inv: "buffer_inv ?b" by code_simp
  have atoms: "bufferAtoms ?b = [Txt (js ''x''), Txt (js ''b'')]" by code_simp
  have "bufferCommand ?b ?o (js ''k'') \<noteq> None" by code_simp
  then show ?thesis
    using bufferCommand_applies [OF inv, of ?o "js ''k''"] atoms by (auto split: option.splits)
qed

lemma restoreBuffer_ok:
  assumes "buffer_inv original" and "buffer_inv newer" and "source newer = bufferAtoms original"
  shows "\<exists>result. restoreBuffer original newer = Inr result \<and> buffer_inv result
     \<and> source result = source original \<and> bufferAtoms result = bufferAtoms newer"
  unfolding restoreBuffer_def
  using assms bufferSplices_apply [OF assms(2)] bufferSplices_well_formed [OF assms(2)]
  by (intro buffer_draft.run_splices_apply) auto

text \<open>
  C15. Input typed after a submission that failed is not lost: when the newer draft was
  started from what the older one showed, restoring it onto the older one succeeds, shows
  exactly the newer draft and has the original source again.
\<close>

theorem restoreBuffer_keeps_input:
  assumes "buffer_inv original" and "buffer_inv newer" and "source newer = bufferAtoms original"
  shows "\<exists>result. restoreBuffer original newer = Inr result \<and> buffer_inv result
     \<and> source result = source original \<and> bufferAtoms result = bufferAtoms newer"
  by (rule restoreBuffer_ok [OF assms])

theorem restoreBuffer_keeps_input_witness:
  "\<exists>result. restoreBuffer
      \<lparr>source = [Txt (js ''a'')], pieces = [SourcePiece 0 1, InsertPiece [Txt (js ''b'')]]\<rparr>
      \<lparr>source = [Txt (js ''a''), Txt (js ''b'')], pieces = [SourcePiece 1 2]\<rparr> = Inr result
    \<and> bufferAtoms result = [Txt (js ''b'')]"
proof -
  let ?o = "\<lparr>source = [Txt (js ''a'')], pieces = [SourcePiece 0 1, InsertPiece [Txt (js ''b'')]]\<rparr>"
  let ?n = "\<lparr>source = [Txt (js ''a''), Txt (js ''b'')], pieces = [SourcePiece 1 2]\<rparr>"
  have "buffer_inv ?o" "buffer_inv ?n" "source ?n = bufferAtoms ?o" "bufferAtoms ?n = [Txt (js ''b'')]"
    by code_simp+
  then show ?thesis
    using restoreBuffer_keeps_input [of ?o ?n] by metis
qed

end
