(* ===== verification/Inline_Edit.thy ===== *)
theory Inline_Edit
  imports Content_Buffer
begin

text \<open>
  Native input decoded against the projection that received it: the correctness of
  \<open>planInlineEdit\<close>, \<open>contentFromProjection\<close> and \<open>editBuffer\<close>. The projection of a
  list of atoms is first described atom by atom (\<open>atom_text\<close>, \<open>spans\<close>); an edit
  range, once expanded over the references it touches, then cuts the list of atoms in
  three, and every computed coordinate is a length of one of the parts.
\<close>

subsection \<open>The projection, atom by atom\<close>

fun atom_text :: "(page_id \<rightharpoonup> page_directory_entry) \<Rightarrow> content_atom \<Rightarrow> js_string" where
  "atom_text directory (Txt p) = p"
| "atom_text directory (Ref page_id) = reference_token directory page_id"

definition atom_points :: "(page_id \<rightharpoonup> page_directory_entry) \<Rightarrow> content_atom \<Rightarrow> js_string list" where
  "atom_points directory atom = code_points (atom_text directory atom)"

definition display_width :: "(page_id \<rightharpoonup> page_directory_entry) \<Rightarrow> content_atom list \<Rightarrow> nat" where
  "display_width directory atoms = sum_list (map (length \<circ> atom_points directory) atoms)"

fun spans ::
  "(page_id \<rightharpoonup> page_directory_entry) \<Rightarrow> content_atom list \<Rightarrow> int \<Rightarrow> int \<Rightarrow> page_reference_span list" where
  "spans directory [] display index = []"
| "spans directory (Txt p # atoms) display index = spans directory atoms (display + 1) (index + 1)"
| "spans directory (Ref page_id # atoms) display index =
     (let end = display + int (length (atom_points directory (Ref page_id)))
      in \<lparr>ref_start = display, ref_end = end, ref_index = index, ref_page_id = page_id\<rparr>
         # spans directory atoms end (index + 1))"

text \<open>Every atom shown is text without lone surrogates.\<close>

fun shown_atom :: "(page_id \<rightharpoonup> page_directory_entry) \<Rightarrow> content_atom \<Rightarrow> bool" where
  "shown_atom directory (Txt p) = scalar_point p"
| "shown_atom directory (Ref page_id) = well_formed (reference_token directory page_id)"

lemma shown_scalar: "list_all (shown_atom directory) atoms \<Longrightarrow> list_all scalar_atom atoms"
  by (induction atoms rule: list.induct) (auto elim: shown_atom.elims)

lemma shown_Txt [simp]: "list_all (shown_atom directory) (map Txt ps) \<longleftrightarrow> list_all scalar_point ps"
  by (simp add: list_all_iff)

lemma reference_token_nonempty [simp]: "reference_token directory page_id \<noteq> []"
  by (simp add: reference_token_def js_def)

lemma atom_points_Txt: "scalar_point p \<Longrightarrow> atom_points directory (Txt p) = [p]"
  by (simp add: atom_points_def scalar_point_well_formed)

lemma atom_points_pos: "shown_atom directory a \<Longrightarrow> 0 < length (atom_points directory a)"
  by (cases a) (auto simp: atom_points_def scalar_point_def)

lemma display_width_simps [simp]:
  "display_width directory [] = 0"
  "display_width directory (a # atoms) = length (atom_points directory a) + display_width directory atoms"
  "display_width directory (xs @ ys) = display_width directory xs + display_width directory ys"
  by (simp_all add: display_width_def)

lemma display_width_Txt:
  "list_all scalar_point ps \<Longrightarrow> display_width directory (map Txt ps) = length ps"
  by (induction ps) (auto simp: atom_points_Txt)

lemma points_Txt:
  "list_all scalar_point ps \<Longrightarrow> concat (map (atom_points directory \<circ> Txt) ps) = ps"
  by (induction ps) (auto simp: atom_points_Txt)

lemma spans_append:
  "list_all (shown_atom directory) xs \<Longrightarrow>
   spans directory (xs @ ys) d i
     = spans directory xs d i @ spans directory ys (d + int (display_width directory xs)) (i + int (length xs))"
proof (induction xs arbitrary: d i)
  case (Cons x xs)
  then show ?case
    by (cases x) (auto simp: Let_def atom_points_Txt algebra_simps)
qed simp

lemma spans_Txt [simp]: "spans directory (map Txt ps) d i = []"
  by (induction ps arbitrary: d i) auto

lemma spans_shift:
  "spans directory xs (d + dd) (i + di)
     = map (\<lambda>r. r\<lparr>ref_start := ref_start r + dd, ref_end := ref_end r + dd, ref_index := ref_index r + di\<rparr>)
         (spans directory xs d i)"
proof (induction xs arbitrary: d i)
  case (Cons x xs)
  show ?case
  proof (cases x)
    case (Txt p)
    then show ?thesis using Cons [of "d + 1" "i + 1"] by (simp add: algebra_simps)
  next
    case (Ref pid)
    then show ?thesis
      using Cons [of "d + int (length (atom_points directory x))" "i + 1"]
      by (simp add: Let_def algebra_simps)
  qed
qed simp

text \<open>Where a span comes from.\<close>

lemma spans_memberE:
  assumes "r \<in> set (spans directory atoms d i)" and "list_all (shown_atom directory) atoms"
  obtains xs pid ys where "atoms = xs @ Ref pid # ys"
    "r = \<lparr>ref_start = d + int (display_width directory xs),
          ref_end = d + int (display_width directory (xs @ [Ref pid])),
          ref_index = i + int (length xs), ref_page_id = pid\<rparr>"
proof -
  have "\<exists>xs pid ys. atoms = xs @ Ref pid # ys
      \<and> r = \<lparr>ref_start = d + int (display_width directory xs),
          ref_end = d + int (display_width directory (xs @ [Ref pid])),
          ref_index = i + int (length xs), ref_page_id = pid\<rparr>"
    using assms
  proof (induction atoms arbitrary: d i)
    case (Cons a atoms)
    show ?case
    proof (cases a)
      case (Txt p)
      then obtain xs pid ys where "atoms = xs @ Ref pid # ys"
        "r = \<lparr>ref_start = d + 1 + int (display_width directory xs),
          ref_end = d + 1 + int (display_width directory (xs @ [Ref pid])),
          ref_index = i + 1 + int (length xs), ref_page_id = pid\<rparr>"
        using Cons.IH [of "d + 1" "i + 1"] Cons.prems by auto
      then show ?thesis
        using Txt Cons.prems(2)
        by (intro exI [of _ "Txt p # xs"] exI [of _ pid] exI [of _ ys]) (auto simp: atom_points_Txt)
    next
      case (Ref pid')
      let ?w = "int (length (atom_points directory a))"
      from Ref Cons.prems(1) consider
        "r = \<lparr>ref_start = d, ref_end = d + ?w, ref_index = i, ref_page_id = pid'\<rparr>"
        | "r \<in> set (spans directory atoms (d + ?w) (i + 1))"
        by (auto simp: Let_def)
      then show ?thesis
      proof cases
        case 1
        then show ?thesis
          using Ref by (intro exI [of _ "[]"] exI [of _ pid'] exI [of _ atoms]) simp
      next
        case 2
        then obtain xs pid ys where "atoms = xs @ Ref pid # ys"
          "r = \<lparr>ref_start = d + ?w + int (display_width directory xs),
            ref_end = d + ?w + int (display_width directory (xs @ [Ref pid])),
            ref_index = i + 1 + int (length xs), ref_page_id = pid\<rparr>"
          using Cons.IH [of "d + ?w" "i + 1"] Cons.prems by auto
        then show ?thesis
          using Ref by (intro exI [of _ "a # xs"] exI [of _ pid] exI [of _ ys]) auto
      qed
    qed
  qed simp
  then show thesis using that by blast
qed

lemma spans_sorted:
  assumes "list_all (shown_atom directory) atoms"
  shows "sorted (map ref_start (spans directory atoms d i))"
    and "\<forall>r \<in> set (spans directory atoms d i). d \<le> ref_start r"
proof -
  have "sorted (map ref_start (spans directory atoms d i))
      \<and> (\<forall>r \<in> set (spans directory atoms d i). d \<le> ref_start r)"
    using assms
  proof (induction directory atoms d i rule: spans.induct)
    case (2 directory p atoms d i)
    then show ?case by (auto dest: bspec)
  next
    case (3 directory pid atoms d i)
    let ?e = "d + int (length (atom_points directory (Ref pid)))"
    have "sorted (map ref_start (spans directory atoms ?e (i + 1)))
        \<and> (\<forall>r \<in> set (spans directory atoms ?e (i + 1)). ?e \<le> ref_start r)"
      using 3 by (simp add: Let_def)
    then show ?case
      by (auto simp: Let_def dest!: bspec)
  qed simp
  then show "sorted (map ref_start (spans directory atoms d i))"
    and "\<forall>r \<in> set (spans directory atoms d i). d \<le> ref_start r"
    by blast+
qed

lemma ordered_spans [simp]:
  "list_all (shown_atom directory) atoms \<Longrightarrow> ordered (spans directory atoms d i) = spans directory atoms d i"
  by (simp add: ordered_def sort_key_id_if_sorted spans_sorted)

subsection \<open>The projection computes this\<close>

lemma project_loop_spans:
  assumes "well_formed_content content"
  shows "projectInlineContent_loop directory content md d i refs
     = \<lparr>markdown = md @ concat (map (atom_text directory) (contentAtoms content)),
        pageReferences = refs @ spans directory (contentAtoms content) d i\<rparr>"
  using assms
proof (induction directory content md d i refs rule: projectInlineContent_loop.induct)
  case (2 directory val content md d i refs)
  have len: "spans directory (map Txt ps @ rest) d i
      = spans directory rest (d + int (length ps)) (i + int (length ps))" for ps rest d i
    by (induction ps arbitrary: d i) (auto simp: algebra_simps)
  have "map (atom_text directory \<circ> Txt) ps = ps" for ps
    by (induction ps) auto
  then show ?case
    using 2 by (simp add: Let_def len well_formed_content_def)
next
  case (3 directory pid content md d i refs)
  then show ?case
    by (simp add: Let_def atom_points_def well_formed_content_def)
qed simp

lemma projectContent_spans:
  assumes "list_all scalar_atom atoms"
  shows "projectContent atoms directory
     = \<lparr>markdown = concat (map (atom_text (pageDirectoryIndex directory)) atoms),
        pageReferences = spans (pageDirectoryIndex directory) atoms 0 0\<rparr>"
  using project_loop_spans [of "inlineContent atoms" "pageDirectoryIndex directory" "[]" 0 0 "[]"] assms
  by (simp add: projectContent_def projectInlineContent_def)

lemma shown_points:
  assumes "list_all (shown_atom directory) atoms"
  shows "code_points (concat (map (atom_text directory) atoms)) = concat (map (atom_points directory) atoms)"
    and "well_formed (concat (map (atom_text directory) atoms))"
    and "length (concat (map (atom_points directory) atoms)) = display_width directory atoms"
    and "list_all scalar_point (concat (map (atom_points directory) atoms))"
proof -
  have "well_formed (atom_text directory a)" if "shown_atom directory a" for a
    using that by (cases a) (auto simp: scalar_point_well_formed)
  then have "code_points (concat (map (atom_text directory) atoms)) = concat (map (atom_points directory) atoms)
      \<and> well_formed (concat (map (atom_text directory) atoms))"
    using assms by (induction atoms) (auto simp: code_points_append atom_points_def)
  then show 1: "code_points (concat (map (atom_text directory) atoms)) = concat (map (atom_points directory) atoms)"
    and 2: "well_formed (concat (map (atom_text directory) atoms))"
    by blast+
  show "length (concat (map (atom_points directory) atoms)) = display_width directory atoms"
    by (induction atoms) auto
  show "list_all scalar_point (concat (map (atom_points directory) atoms))"
    using 1 2 well_formed_points by metis
qed


subsection \<open>Positions that are atom boundaries\<close>

lemma boundary_split:
  assumes "list_all (shown_atom directory) atoms"
    and "d \<le> q" and "q \<le> d + int (display_width directory atoms)"
    and "\<forall>r \<in> set (spans directory atoms d i). \<not> (ref_start r < q \<and> q < ref_end r)"
  shows "\<exists>xs ys. atoms = xs @ ys \<and> q = d + int (display_width directory xs)"
  using assms
proof (induction atoms arbitrary: d i)
  case (Cons a atoms)
  let ?w = "int (length (atom_points directory a))"
  show ?case
  proof (cases "q = d")
    case True
    then show ?thesis by (intro exI [of _ "[]"] exI [of _ "a # atoms"]) simp
  next
    case False
    have "d + ?w \<le> q \<and> (\<forall>r \<in> set (spans directory atoms (d + ?w) (i + 1)).
        \<not> (ref_start r < q \<and> q < ref_end r))"
      using Cons.prems False by (cases a) (auto simp: atom_points_Txt Let_def)
    then obtain xs ys where "atoms = xs @ ys" "q = d + ?w + int (display_width directory xs)"
      using Cons.IH [of "d + ?w" "i + 1"] Cons.prems by auto
    then show ?thesis
      by (intro exI [of _ "a # xs"] exI [of _ ys]) simp
  qed
qed simp

text \<open>Two spans never overlap: no span starts or ends strictly inside another.\<close>

lemma spans_disjoint:
  assumes "list_all (shown_atom directory) atoms"
    and "r \<in> set (spans directory atoms d i)" and "r' \<in> set (spans directory atoms d i)"
  shows "r = r' \<or> ref_end r \<le> ref_start r' \<or> ref_end r' \<le> ref_start r"
proof -
  obtain xs pid ys where r: "atoms = xs @ Ref pid # ys"
    "r = \<lparr>ref_start = d + int (display_width directory xs),
          ref_end = d + int (display_width directory (xs @ [Ref pid])),
          ref_index = i + int (length xs), ref_page_id = pid\<rparr>"
    using spans_memberE [OF assms(2,1)] by blast
  obtain xs' pid' ys' where r': "atoms = xs' @ Ref pid' # ys'"
    "r' = \<lparr>ref_start = d + int (display_width directory xs'),
          ref_end = d + int (display_width directory (xs' @ [Ref pid'])),
          ref_index = i + int (length xs'), ref_page_id = pid'\<rparr>"
    using spans_memberE [OF assms(3,1)] by blast
  have eq: "xs @ Ref pid # ys = xs' @ Ref pid' # ys'"
    using r(1) r'(1) by simp
  then consider "xs = xs'" "pid = pid'"
    | zs where "xs' = xs @ Ref pid # zs" | zs where "xs = xs' @ Ref pid' # zs"
    by (auto simp: append_eq_append_conv2 append_eq_Cons_conv Cons_eq_append_conv)
  then show ?thesis
    by cases (use r r' in auto)
qed

lemma spans_positive:
  assumes "list_all (shown_atom directory) atoms" and "r \<in> set (spans directory atoms d i)"
  shows "d \<le> ref_start r" "ref_start r < ref_end r"
    "ref_end r \<le> d + int (display_width directory atoms)"
  using spans_memberE [OF assms(2,1)] assms(1) atom_points_pos [of directory]
  by (fastforce simp: list_all_append)+

subsection \<open>The expanded range\<close>

lemma expandedRange_foldl:
  fixes touched :: "page_reference_span \<Rightarrow> bool"
  assumes "foldl (\<lambda>(a, b) r. if \<not> touched r then (a, b) else (min a (ref_start r), max b (ref_end r)))
      (s0, e0) refs = (s, e)"
  shows "s \<le> s0 \<and> e0 \<le> e
    \<and> (s = s0 \<or> (\<exists>r \<in> set refs. touched r \<and> s = ref_start r))
    \<and> (e = e0 \<or> (\<exists>r \<in> set refs. touched r \<and> e = ref_end r))
    \<and> (\<forall>r \<in> set refs. touched r \<longrightarrow> s \<le> ref_start r \<and> ref_end r \<le> e)"
  using assms
proof (induction refs arbitrary: s0 e0)
  case (Cons r refs)
  show ?case
  proof (cases "touched r")
    case True
    then show ?thesis
      using Cons.IH [of "min s0 (ref_start r)" "max e0 (ref_end r)"] Cons.prems
      by (auto simp: min_def max_def split: if_splits)
  next
    case False
    then show ?thesis
      using Cons.IH [of s0 e0] Cons.prems by auto
  qed
qed simp

text \<open>An expanded range cuts the atoms in three.\<close>

lemma expandedRange_split:
  assumes shown: "list_all (shown_atom directory) atoms"
    and range: "0 \<le> s0" "s0 \<le> e0" "e0 \<le> int (display_width directory atoms)"
    and exp: "expandedRange (spans directory atoms 0 0) s0 e0 = (s, e)"
  shows "\<exists>xs ys zs. atoms = xs @ ys @ zs \<and> s = int (display_width directory xs)
     \<and> e = int (display_width directory (xs @ ys)) \<and> s \<le> s0 \<and> e0 \<le> e"
proof -
  let ?refs = "spans directory atoms 0 0"
  note f = expandedRange_foldl [OF exp [unfolded expandedRange_def]]
  note pos = spans_positive [OF shown]
  have out_s: "\<not> (ref_start r < s \<and> s < ref_end r)" if r: "r \<in> set ?refs" for r
  proof
    assume in_r: "ref_start r < s \<and> s < ref_end r"
    show False
    proof (cases "s = s0")
      case True
      then have "touchedBy r s0 e0"
        using in_r range(2) by (auto simp: touchedBy_def)
      then show False using f r in_r by fastforce
    next
      case False
      then obtain r' where "r' \<in> set ?refs" "s = ref_start r'"
        using f by blast
      then show False
        using in_r spans_disjoint [OF shown r, of r'] pos(2) by fastforce
    qed
  qed
  have out_e: "\<not> (ref_start r < e \<and> e < ref_end r)" if r: "r \<in> set ?refs" for r
  proof
    assume in_r: "ref_start r < e \<and> e < ref_end r"
    show False
    proof (cases "e = e0")
      case True
      then have "touchedBy r s0 e0"
        using in_r range(2) by (auto simp: touchedBy_def)
      then show False using f r in_r by fastforce
    next
      case False
      then obtain r' where "r' \<in> set ?refs" "e = ref_end r'"
        using f by blast
      then show False
        using in_r spans_disjoint [OF shown r, of r'] pos(2) by fastforce
    qed
  qed
  have "0 \<le> s" "s \<le> int (display_width directory atoms)"
    using f range pos by fastforce+
  then obtain xs rest where xs: "atoms = xs @ rest" "s = int (display_width directory xs)"
    using boundary_split [OF shown, of 0 s 0] out_s by auto
  have rest: "list_all (shown_atom directory) rest" "list_all (shown_atom directory) xs"
    using shown xs(1) by auto
  have "s \<le> e" "e \<le> int (display_width directory atoms)"
    using f range pos by fastforce+
  moreover have "\<forall>r \<in> set (spans directory rest s (int (length xs))). \<not> (ref_start r < e \<and> e < ref_end r)"
    using out_e xs spans_append [OF rest(2), of rest 0 0] by auto
  ultimately obtain ys zs where "rest = ys @ zs" "e = s + int (display_width directory ys)"
    using boundary_split [OF rest(1), of s e "int (length xs)"] xs by auto
  then show ?thesis
    using xs f by (intro exI [of _ xs] exI [of _ ys] exI [of _ zs]) simp
qed

subsection \<open>Logical positions and moved references\<close>

lemma logicalBoundary_loop_spans:
  assumes "list_all (shown_atom directory) (xs @ ys)"
  shows "logicalBoundary_loop (d + int (display_width directory xs)) (spans directory (xs @ ys) d i) c
     = d + int (length xs) - c"
  using assms
proof (induction xs arbitrary: d i c)
  case Nil
  have "d < ref_end r" if "r \<in> set (spans directory ys d i)" for r
    using spans_positive [of directory ys r d i] Nil that by simp
  then show ?case
    by (cases "spans directory ys d i") auto
next
  case (Cons a xs)
  show ?case
  proof (cases a)
    case (Txt p)
    then show ?thesis
      using Cons.IH [of "d + 1" "i + 1" c] Cons.prems by (simp add: atom_points_Txt algebra_simps)
  next
    case (Ref pid)
    let ?w = "int (length (atom_points directory a))"
    show ?thesis
      using Cons.IH [of "d + ?w" "i + 1" "c + (?w - 1)"] Cons.prems Ref
      by (simp add: Let_def algebra_simps)
  qed
qed

lemma logicalBoundary_spans:
  assumes "list_all (shown_atom directory) (xs @ ys)"
  shows "logicalBoundary (int (display_width directory xs)) (spans directory (xs @ ys) 0 0) = int (length xs)"
  using logicalBoundary_loop_spans [OF assms, of 0 0 0] by (simp add: logicalBoundary_def)

lemma transformReferences_spans:
  assumes shown: "list_all (shown_atom directory) (xs @ ys @ zs)"
  shows "transformReferences (spans directory (xs @ ys @ zs) 0 0)
       (int (display_width directory xs)) (int (display_width directory (xs @ ys)))
       (int (display_width directory mid)) (int (length mid) - int (length ys))
     = spans directory xs 0 0
       @ spans directory zs (int (display_width directory (xs @ mid))) (int (length (xs @ mid)))"
proof -
  let ?s = "int (display_width directory xs)" and ?e = "int (display_width directory (xs @ ys))"
  let ?dd = "int (display_width directory mid) - (?e - ?s)" and ?ld = "int (length mid) - int (length ys)"
  have parts: "list_all (shown_atom directory) xs" "list_all (shown_atom directory) ys"
    "list_all (shown_atom directory) zs"
    using shown by auto
  let ?f = "\<lambda>r. if ref_end r \<le> ?s then [r]
     else if ?e \<le> ref_start r then
       [r\<lparr>ref_start := ref_start r + ?dd, ref_end := ref_end r + ?dd, ref_index := ref_index r + ?ld\<rparr>]
     else []"
  have xs: "concat (map ?f (spans directory xs 0 0)) = spans directory xs 0 0"
  proof -
    have "?f r = [r]" if "r \<in> set (spans directory xs 0 0)" for r
      using spans_positive [OF parts(1) that] by simp
    then have "map ?f (spans directory xs 0 0) = map (\<lambda>r. [r]) (spans directory xs 0 0)"
      by (intro map_cong refl) auto
    then show ?thesis by (simp only: concat_map_singleton map_ident)
  qed
  have ys: "concat (map ?f (spans directory ys ?s (int (length xs)))) = []"
  proof -
    have "?f r = []" if "r \<in> set (spans directory ys ?s (int (length xs)))" for r
      using spans_positive [OF parts(2) that] by auto
    then show ?thesis by (simp only: concat_eq_Nil_conv set_map) auto
  qed
  have zs: "concat (map ?f (spans directory zs ?e (int (length (xs @ ys)))))
      = spans directory zs (?e + ?dd) (int (length (xs @ ys)) + ?ld)"
  proof -
    have "?f r = [r\<lparr>ref_start := ref_start r + ?dd, ref_end := ref_end r + ?dd, ref_index := ref_index r + ?ld\<rparr>]"
      if "r \<in> set (spans directory zs ?e (int (length (xs @ ys))))" for r
      using spans_positive [OF parts(3) that] by auto
    then have "map ?f (spans directory zs ?e (int (length (xs @ ys))))
        = map (\<lambda>r. [r\<lparr>ref_start := ref_start r + ?dd, ref_end := ref_end r + ?dd, ref_index := ref_index r + ?ld\<rparr>])
            (spans directory zs ?e (int (length (xs @ ys))))"
      by (intro map_cong refl) auto
    then show ?thesis by (simp only: spans_shift concat_map_singleton)
  qed
  have all: "spans directory (xs @ ys @ zs) 0 0 = spans directory xs 0 0
      @ spans directory ys ?s (int (length xs)) @ spans directory zs ?e (int (length (xs @ ys)))"
    using parts by (simp add: spans_append algebra_simps)
  have "transformReferences (spans directory (xs @ ys @ zs) 0 0) ?s ?e (int (display_width directory mid)) ?ld
      = concat (map ?f (spans directory xs 0 0 @ spans directory ys ?s (int (length xs))
          @ spans directory zs ?e (int (length (xs @ ys)))))"
    unfolding transformReferences_def Let_def all ..
  also have "\<dots> = spans directory xs 0 0 @ spans directory zs (?e + ?dd) (int (length (xs @ ys)) + ?ld)"
    by (simp only: map_append concat_append xs ys zs append_Nil)
  also have "\<dots> = spans directory xs 0 0
       @ spans directory zs (int (display_width directory (xs @ mid))) (int (length (xs @ mid)))"
    by (simp add: algebra_simps)
  finally show ?thesis .
qed


subsection \<open>The plan of an edit\<close>

lemma points_of_parts:
  assumes shown: "list_all (shown_atom directory) (xs @ ys @ zs)"
    and points: "points = concat (map (atom_points directory) (xs @ ys @ zs))"
  shows "take (display_width directory xs) points = concat (map (atom_points directory) xs)"
    and "drop (display_width directory (xs @ ys)) points = concat (map (atom_points directory) zs)"
proof -
  have len: "length (concat (map (atom_points directory) ws)) = display_width directory ws" for ws
    by (induction ws) auto
  show "take (display_width directory xs) points = concat (map (atom_points directory) xs)"
    using len [of xs] by (simp add: points)
  have "points = concat (map (atom_points directory) (xs @ ys)) @ concat (map (atom_points directory) zs)"
    by (simp add: points)
  then show "drop (display_width directory (xs @ ys)) points = concat (map (atom_points directory) zs)"
    using len [of "xs @ ys"] by (metis append_eq_conv_conj)
qed

lemma concat_atom_text: "concat (map (atom_text directory) atoms) = concat (concat (map (atom_points directory) atoms))"
  by (induction atoms) (auto simp: atom_points_def)

text \<open>
  Every coordinate the planners compute from an expanded range \<open>(s, e)\<close> of the display
  range \<open>i..j\<close>, as a length of a part of the atoms: \<open>pre\<close> and \<open>suf\<close> are the points of
  touched references that the range keeps as plain text.
\<close>

lemma edit_range:
  assumes shown: "list_all (shown_atom directory) atoms"
    and points: "points = code_points (concat (map (atom_text directory) atoms))"
    and range: "i \<le> j" "j \<le> length points"
    and exp: "expandedRange (spans directory atoms 0 0) (int i) (int j) = (s, e)"
  obtains xs ys zs pre suf where "atoms = xs @ ys @ zs"
    "s = int (display_width directory xs)" "e = int (display_width directory (xs @ ys))"
    "js_slice points s (int i) = pre" "js_slice points (int j) e = suf"
    "list_all scalar_point pre" "list_all scalar_point suf"
    "logicalBoundary s (spans directory atoms 0 0) = int (length xs)"
    "logicalBoundary e (spans directory atoms 0 0) - int (length xs) = int (length ys)"
    "js_slice points 0 s = concat (map (atom_points directory) xs)"
    "js_slice_from points e = concat (map (atom_points directory) zs)"
    "take i points = concat (map (atom_points directory) xs) @ pre"
    "drop j points = suf @ concat (map (atom_points directory) zs)"
proof -
  have pts: "points = concat (map (atom_points directory) atoms)"
    "list_all scalar_point points" "length points = display_width directory atoms"
    using shown_points [OF shown] points by simp_all
  obtain xs ys zs where split: "atoms = xs @ ys @ zs" "s = int (display_width directory xs)"
    "e = int (display_width directory (xs @ ys))" "s \<le> int i" "int j \<le> e"
    using expandedRange_split [OF shown _ _ _ exp] range pts(3) by auto
  let ?s = "display_width directory xs" and ?e = "display_width directory (xs @ ys)"
  note parts = points_of_parts [of directory xs ys zs points]
  have outer: "take ?s points = concat (map (atom_points directory) xs)"
    "drop ?e points = concat (map (atom_points directory) zs)"
    using parts shown split(1) pts(1) by simp_all
  have lb: "logicalBoundary s (spans directory atoms 0 0) = int (length xs)"
    "logicalBoundary e (spans directory atoms 0 0) - int (length xs) = int (length ys)"
    using logicalBoundary_spans [of directory xs "ys @ zs"] logicalBoundary_spans [of directory "xs @ ys" zs]
      shown split by simp_all
  have "take i points = take ?s points @ take (i - ?s) (drop ?s points)"
    using split by (simp add: take_add [symmetric])
  moreover have "drop j points = take (?e - j) (drop j points) @ drop ?e points"
    using take_drop_join [of "?e - j" j points] split by simp
  ultimately have whole: "take i points = concat (map (atom_points directory) xs) @ js_slice points s (int i)"
    "drop j points = js_slice points (int j) e @ concat (map (atom_points directory) zs)"
    by (simp_all only: outer split(2,3) js_slice_nat)
  have "list_all scalar_point (js_slice points s (int i))" "list_all scalar_point (js_slice points (int j) e)"
    unfolding split(2,3) js_slice_nat using pts(2) by blast+
  moreover have "js_slice points 0 s = concat (map (atom_points directory) xs)"
    "js_slice_from points e = concat (map (atom_points directory) zs)"
    by (simp_all only: outer split(2,3) js_slice_0 js_slice_from_nat)
  ultimately show thesis
    by (rule that [OF split(1,2,3) refl refl _ _ lb _ _ whole])
qed

text \<open>
  The replaced range, as a cut of the atoms: what \<open>planInlineEdit\<close> computes from display
  coordinates is a splice of the middle part.
\<close>

lemma planInlineEdit_split:
  assumes shown: "list_all (shown_atom directory) atoms"
    and before: "before = concat (map (atom_text directory) atoms)"
    and after: "well_formed after"
    and plan: "planInlineEdit blockId before (spans directory atoms 0 0) after caret = Some plan"
  obtains xs ys zs rep where "atoms = xs @ ys @ zs" "list_all scalar_point rep"
    "pl_splice plan = \<lparr>bs_block_id = blockId, bs_index = int (length xs), bs_delete = int (length ys),
        bs_insert = (if rep = [] then [] else [Markdown (concat rep)])\<rparr>"
    "pl_references plan = spans directory (xs @ map Txt rep @ zs) 0 0"
    "after = concat (map (atom_text directory) (xs @ map Txt rep @ zs))"
proof -
  obtain diff where diff: "diffSplice before after caret = Some diff"
    using plan by (auto simp: planInlineEdit_def split: option.splits)
  obtain ins where ins: "sp_insert diff = concat ins"
    and le: "sp_index diff + sp_delete diff \<le> length (code_points before)"
    and part: "ins = take (length ins) (drop (sp_index diff) (code_points after))"
    and eq: "replace_range (sp_index diff) (sp_delete diff) ins (code_points before) = code_points after"
    using diffSplice_points [OF diff] by blast
  have ins_scalar: "list_all scalar_point ins"
    by (subst part) (use after well_formed_points in blast)
  obtain s e where exp: "expandedRange (spans directory atoms 0 0) (int (sp_index diff))
      (int (sp_index diff + sp_delete diff)) = (s, e)"
    by (rule prod.exhaust)
  obtain xs ys zs pre suf where split: "atoms = xs @ ys @ zs"
    "s = int (display_width directory xs)" "e = int (display_width directory (xs @ ys))"
    and slices: "js_slice (code_points before) s (int (sp_index diff)) = pre"
      "js_slice (code_points before) (int (sp_index diff + sp_delete diff)) e = suf"
    and scalar: "list_all scalar_point pre" "list_all scalar_point suf"
    and lb: "logicalBoundary s (spans directory atoms 0 0) = int (length xs)"
      "logicalBoundary e (spans directory atoms 0 0) - int (length xs) = int (length ys)"
    and outer: "take (sp_index diff) (code_points before) = concat (map (atom_points directory) xs) @ pre"
      "drop (sp_index diff + sp_delete diff) (code_points before)
         = suf @ concat (map (atom_points directory) zs)"
    using edit_range [OF shown arg_cong [OF before] le_add1 le exp] by metis
  define rep where "rep = pre @ ins @ suf"
  have rep: "list_all scalar_point rep"
    unfolding rep_def using scalar ins_scalar by simp
  have rep_pts: "code_points (concat rep) = rep" and rep_nil: "concat rep = [] \<longleftrightarrow> rep = []"
    using code_points_concat [OF rep] by (simp, metis code_points_eq_Nil code_points_concat rep)
  have refs: "transformReferences (spans directory atoms 0 0) s e (int (length rep))
        (int (length rep) - int (length ys)) = spans directory (xs @ map Txt rep @ zs) 0 0"
    using transformReferences_spans [of directory xs ys zs "map Txt rep"] shown split rep
    by (simp add: display_width_Txt spans_append)
  have plan_eq: "plan = \<lparr>pl_splice = \<lparr>bs_block_id = blockId, bs_index = int (length xs),
        bs_delete = int (length ys), bs_insert = (if rep = [] then [] else [Markdown (concat rep)])\<rparr>,
      pl_references = spans directory (xs @ map Txt rep @ zs) 0 0\<rparr>"
    using plan refs
    by (simp only: planInlineEdit_def diff option.case Let_def ordered_spans [OF shown] exp prod.case
        slices ins code_points_concat [OF ins_scalar] rep_def [symmetric] lb rep_pts rep_nil option.inject)
  have "concat (map (atom_points directory) (xs @ map Txt rep @ zs)) = code_points after"
    using eq outer by (simp add: replace_range_def rep_def points_Txt scalar ins_scalar)
  then have "after = concat (map (atom_text directory) (xs @ map Txt rep @ zs))"
    by (metis concat_atom_text concat_code_points)
  then show ?thesis
    using that [OF split(1) rep] plan_eq by simp
qed

lemma planInlineEdit_atoms:
  assumes shown: "list_all (shown_atom (pageDirectoryIndex directory)) atoms"
    and after: "well_formed after"
    and plan: "planInlineEdit blockId (markdown (projectContent atoms directory))
      (pageReferences (projectContent atoms directory)) after caret = Some plan"
  obtains atoms' where "apply_splices [pl_splice plan] atoms = Some atoms'"
    "list_all (shown_atom (pageDirectoryIndex directory)) atoms'"
    "projectContent atoms' directory = \<lparr>markdown = after, pageReferences = pl_references plan\<rparr>"
    "well_formed_content (bs_insert (pl_splice plan))"
    "bs_block_id (pl_splice plan) = blockId"
proof -
  let ?dir = "pageDirectoryIndex directory"
  note proj = projectContent_spans [OF shown_scalar [OF shown], of directory]
  obtain xs ys zs rep where split: "atoms = xs @ ys @ zs" "list_all scalar_point rep"
    and sp: "pl_splice plan = \<lparr>bs_block_id = blockId, bs_index = int (length xs), bs_delete = int (length ys),
        bs_insert = (if rep = [] then [] else [Markdown (concat rep)])\<rparr>"
    and refs: "pl_references plan = spans ?dir (xs @ map Txt rep @ zs) 0 0"
    and txts: "after = concat (map (atom_text ?dir) (xs @ map Txt rep @ zs))"
    by (rule planInlineEdit_split [OF shown refl after plan [unfolded proj inline_content_projection.simps]])
  have ins: "contentAtoms (if rep = [] then [] else [Markdown (concat rep)]) = map Txt rep"
    using code_points_concat [OF split(2)] by simp
  have shown': "list_all (shown_atom ?dir) (xs @ map Txt rep @ zs)"
    using shown split by (auto simp: list_all_iff)
  have "apply_splices [pl_splice plan] atoms = Some (xs @ map Txt rep @ zs)"
    using ins by (simp add: sp split(1) replace_range_def)
  moreover have "projectContent (xs @ map Txt rep @ zs) directory
      = \<lparr>markdown = after, pageReferences = pl_references plan\<rparr>"
    using projectContent_spans [OF shown_scalar [OF shown'], of directory] refs txts by simp
  moreover have "well_formed_content (bs_insert (pl_splice plan))"
    using split(2) by (simp add: sp well_formed_content_def well_formed_concat)
  ultimately show thesis
    using that shown' sp by simp
qed

lemma editBuffer_ok:
  assumes "buffer_inv buffer" and "well_formed text"
    and "list_all (shown_atom (pageDirectoryIndex directory)) (bufferAtoms buffer)"
  shows "\<exists>buffer'. editBuffer buffer (projectBuffer buffer directory) text caret = Inr buffer'
     \<and> buffer_inv buffer' \<and> source buffer' = source buffer
     \<and> markdown (projectBuffer buffer' directory) = text"
proof (cases "planInlineEdit [] (markdown (projectBuffer buffer directory))
    (pageReferences (projectBuffer buffer directory)) text caret")
  case None
  then have "markdown (projectBuffer buffer directory) = text"
    by (auto simp: planInlineEdit_def Let_def diffSplice_None split: option.splits prod.splits)
  then show ?thesis
    using None assms(1) by (simp add: editBuffer_def)
next
  case (Some plan)
  obtain atoms' where a: "apply_splices [pl_splice plan] (bufferAtoms buffer) = Some atoms'"
    and p: "projectContent atoms' directory = \<lparr>markdown = text, pageReferences = pl_references plan\<rparr>"
    and wf: "well_formed_content (bs_insert (pl_splice plan))"
    using planInlineEdit_atoms [OF assms(3,2), of "[]" caret plan] Some
    by (auto simp: projectBuffer_def)
  obtain b where "run_splices spliceBuffer buffer [pl_splice plan] = Inr b"
    and b: "buffer_inv b" "source b = source buffer" "bufferAtoms b = atoms'"
    using buffer_draft.run_splices_apply [OF assms(1), of "[pl_splice plan]" atoms'] a wf by auto
  then have "editBuffer buffer (projectBuffer buffer directory) text caret = Inr b"
    using Some by (simp add: editBuffer_def split: sum.splits)
  then show ?thesis
    using b p by (simp add: projectBuffer_def)
qed

text \<open>
  C16. Typing is decoded faithfully: when a textarea showing the projection of a draft
  changes to any new text, the decoded edit applies, and the new draft projects to
  exactly the text that was typed, over the same source.
\<close>

theorem editBuffer_shows_input:
  assumes "buffer_inv buffer" and "well_formed text"
    and "list_all (shown_atom (pageDirectoryIndex directory)) (bufferAtoms buffer)"
  shows "\<exists>buffer'. editBuffer buffer (projectBuffer buffer directory) text caret = Inr buffer'
     \<and> buffer_inv buffer' \<and> source buffer' = source buffer
     \<and> markdown (projectBuffer buffer' directory) = text"
  by (rule editBuffer_ok [OF assms])

theorem editBuffer_shows_input_witness:
  "\<exists>buffer'. editBuffer (createContentBuffer [Markdown (js ''a''), PageReference (js ''p'')])
       (projectBuffer (createContentBuffer [Markdown (js ''a''), PageReference (js ''p'')]) [])
       (js ''ab[[p]]!'') (Some 2) = Inr buffer'
     \<and> markdown (projectBuffer buffer' []) = js ''ab[[p]]!''"
proof -
  let ?b = "createContentBuffer [Markdown (js ''a''), PageReference (js ''p'')]"
  have "buffer_inv ?b" "well_formed (js ''ab[[p]]!'')"
    "list_all (shown_atom (pageDirectoryIndex [])) (bufferAtoms ?b)"
    by code_simp+
  then show ?thesis
    using editBuffer_shows_input [of ?b "js ''ab[[p]]!''" "[]" "Some 2"] by blast
qed

text \<open>
  The references the plan reports without re-reading the core are the right ones: the
  planned splice applies to the atoms, and the projection of the result has the typed text
  and exactly the planned reference spans. In particular a reference the edit does not
  touch survives with shifted coordinates, and a touched one becomes plain text.
\<close>

theorem planInlineEdit_references:
  assumes "list_all (shown_atom (pageDirectoryIndex directory)) atoms" and "well_formed after"
    and "planInlineEdit blockId (markdown (projectContent atoms directory))
      (pageReferences (projectContent atoms directory)) after caret = Some plan"
  shows "\<exists>atoms'. apply_splices [pl_splice plan] atoms = Some atoms'
     \<and> projectContent atoms' directory = \<lparr>markdown = after, pageReferences = pl_references plan\<rparr>
     \<and> bs_block_id (pl_splice plan) = blockId"
  using planInlineEdit_atoms [OF assms] by metis

theorem planInlineEdit_references_witness:
  "\<exists>atoms'. apply_splices [\<lparr>bs_block_id = js ''k'', bs_index = 0, bs_delete = 0, bs_insert = [Markdown (js ''x'')]\<rparr>]
       [Ref (js ''p'')] = Some atoms'
     \<and> projectContent atoms' []
         = \<lparr>markdown = js ''x[[p]]'',
            pageReferences = [\<lparr>ref_start = 1, ref_end = 6, ref_index = 1, ref_page_id = js ''p''\<rparr>]\<rparr>"
proof -
  let ?plan = "\<lparr>pl_splice = \<lparr>bs_block_id = js ''k'', bs_index = 0, bs_delete = 0, bs_insert = [Markdown (js ''x'')]\<rparr>,
     pl_references = [\<lparr>ref_start = 1, ref_end = 6, ref_index = 1, ref_page_id = js ''p''\<rparr>]\<rparr>"
  have "list_all (shown_atom (pageDirectoryIndex [])) [Ref (js ''p'')]" "well_formed (js ''x[[p]]'')"
    "planInlineEdit (js ''k'') (markdown (projectContent [Ref (js ''p'')] []))
      (pageReferences (projectContent [Ref (js ''p'')] [])) (js ''x[[p]]'') None = Some ?plan"
    by code_simp+
  then show ?thesis
    using planInlineEdit_references [of "[]" "[Ref (js ''p'')]" "js ''x[[p]]''" "js ''k''" None ?plan] by auto
qed

subsection \<open>Reading content back from a projection\<close>

lemma contentFromProjection_loop_spans:
  assumes "list_all (shown_atom directory) (pre @ map Txt ps @ rest)"
    and "points = concat (map (atom_points directory) (pre @ map Txt ps @ rest))"
  shows "contentAtoms (contentFromProjection_loop points
       (spans directory rest (int (display_width directory (pre @ map Txt ps))) i)
       (int (display_width directory pre))) = map Txt ps @ rest"
  using assms
proof (induction rest arbitrary: pre ps i)
  case Nil
  have ps: "list_all scalar_point ps" and pre: "list_all (shown_atom directory) pre"
    using Nil.prems(1) by auto
  note txts = points_Txt [OF ps, of directory]
  have "drop (display_width directory pre) points = ps"
    and "length points = display_width directory pre + length ps"
    using shown_points(3) [OF pre] txts by (auto simp: Nil.prems(2))
  then show ?case
    using code_points_concat [OF ps] by (auto simp: js_slice_from_nat)
next
  case (Cons a rest)
  show ?case
  proof (cases a)
    case (Txt p)
    then show ?thesis
      using Cons.IH [of pre "ps @ [p]" "i + 1"] Cons.prems
      by (simp add: atom_points_Txt algebra_simps)
  next
    case (Ref pid)
    have ps: "list_all scalar_point ps" and pre: "list_all (shown_atom directory) pre"
      using Cons.prems(1) by auto
    define F where "F = display_width directory pre"
    define D where "D = display_width directory (pre @ map Txt ps)"
    define E where "E = display_width directory (pre @ map Txt ps @ [Ref pid])"
    note txts = points_Txt [OF ps, of directory]
    have D: "D = F + length ps" and E: "int D + int (length (atom_points directory (Ref pid))) = int E"
      using display_width_Txt [OF ps] by (simp_all add: D_def E_def F_def)
    have mid: "take (D - F) (drop F points) = ps" "F \<le> D"
      using shown_points(3) [OF pre] txts D by (simp_all add: Cons.prems(2) F_def)
    have fits: "E \<le> length points"
      using shown_points(3) [of directory "pre @ map Txt ps @ a # rest"] Cons.prems Ref by (simp add: E_def)
    have "contentAtoms (contentFromProjection_loop points (spans directory rest (int E) (i + 1)) (int E)) = rest"
      using Cons.IH [of "pre @ map Txt ps @ [Ref pid]" "[]" "i + 1"] Cons.prems Ref by (simp add: E_def)
    moreover have "contentFromProjection_loop points (spans directory (a # rest) (int D) i) (int F)
        = (if F < D then [Markdown (concat ps)] else []) @ PageReference pid
          # contentFromProjection_loop points (spans directory rest (int E) (i + 1)) (int E)"
      using fits mid by (simp add: Ref Let_def E js_slice_nat)
    ultimately show ?thesis
      using code_points_concat [OF ps] D by (auto simp: Ref D_def F_def)
  qed
qed

text \<open>
  C17. A projection determines the content: reading the shown text and the reference spans
  back gives the atoms that were projected.
\<close>

theorem contentFromProjection_roundtrip:
  assumes "list_all (shown_atom (pageDirectoryIndex directory)) atoms"
  shows "contentAtoms (contentFromProjection (markdown (projectContent atoms directory))
     (pageReferences (projectContent atoms directory))) = atoms"
  using contentFromProjection_loop_spans [of "pageDirectoryIndex directory" "[]" "[]" atoms _ 0] assms
    shown_points(1) [OF assms] projectContent_spans [OF shown_scalar [OF assms], of directory]
  by (simp add: contentFromProjection_def)

theorem contentFromProjection_roundtrip_witness:
  "contentAtoms (contentFromProjection (markdown (projectContent [Txt (js ''a''), Ref (js ''p'')] []))
     (pageReferences (projectContent [Txt (js ''a''), Ref (js ''p'')] []))) = [Txt (js ''a''), Ref (js ''p'')]"
proof -
  have "list_all (shown_atom (pageDirectoryIndex [])) [Txt (js ''a''), Ref (js ''p'')]"
    by code_simp
  then show ?thesis by (rule contentFromProjection_roundtrip)
qed

end
