(* ===== verification/Inline_Split.thy ===== *)
theory Inline_Split
  imports Inline_Edit "HOL-Library.Multiset"
begin

text \<open>
  Splitting and joining a line in display coordinates
  (\<open>canonicalContentBoundary\<close>, \<open>splitInlineContentProjection\<close>,
  \<open>joinInlineContentProjections\<close>) and turning a typed \<open>[[\<dots>]]\<close> token into a
  semantic reference (\<open>planPageReference\<close>): all of them agree with the corresponding
  operation on the atoms.
\<close>

subsection \<open>The nearest atom boundary\<close>

lemma reference_inside_Some:
  "reference_inside q refs = Some r \<Longrightarrow> r \<in> set refs \<and> ref_start r < q \<and> q < ref_end r"
  by (induction q refs rule: reference_inside.induct) (auto split: if_splits)

lemma reference_inside_None:
  "reference_inside q refs = None \<Longrightarrow> sorted (map ref_start refs) \<Longrightarrow> r \<in> set refs \<Longrightarrow>
   \<not> (ref_start r < q \<and> q < ref_end r)"
  by (induction q refs rule: reference_inside.induct) (auto split: if_splits)

text \<open>A boundary of the shown text that is a boundary of the atoms.\<close>

definition cuts_at ::
  "(page_id \<rightharpoonup> page_directory_entry) \<Rightarrow> content_atom list \<Rightarrow> content_atom list \<Rightarrow>
   inline_content_boundary \<Rightarrow> bool" where
  "cuts_at directory xs ys boundary \<longleftrightarrow>
     bd_index boundary = int (length xs)
   \<and> bd_utf16Offset boundary = length (concat (map (atom_text directory) xs))"

lemma text_of_prefix:
  assumes "list_all (shown_atom directory) (xs @ ys)"
  shows "length (concat (take (display_width directory xs)
           (code_points (concat (map (atom_text directory) (xs @ ys))))))
     = length (concat (map (atom_text directory) xs))"
proof -
  have "take (display_width directory xs) (code_points (concat (map (atom_text directory) (xs @ ys))))
      = concat (map (atom_points directory) xs)"
    using points_of_parts(1) [of directory xs ys "[]"] shown_points(1) [OF assms] assms by simp
  then show ?thesis
    by (simp add: concat_atom_text)
qed

lemma canonicalContentBoundary_cuts:
  assumes shown: "list_all (shown_atom directory) atoms"
    and val: "val = concat (map (atom_text directory) atoms)"
    and j: "j \<le> length (code_points val)" "off = length (concat (take j (code_points val)))"
  shows "\<exists>xs ys. atoms = xs @ ys
     \<and> cuts_at directory xs ys (canonicalContentBoundary val (spans directory atoms 0 0) off)"
proof -
  let ?refs = "spans directory atoms 0 0" and ?b = "canonicalContentBoundary val (spans directory atoms 0 0) off"
  have pos: "codePointIndex val off = j"
    unfolding j(2) by (rule codePointIndex_boundary [OF j(1)])
  note width = shown_points(1,3) [OF shown, folded val]
  show ?thesis
  proof (cases "reference_inside (int j) ?refs")
    case None
    have "\<forall>r \<in> set ?refs. \<not> (ref_start r < int j \<and> int j < ref_end r)"
      using reference_inside_None [OF None spans_sorted(1) [OF shown]] by blast
    then obtain xs ys where xs: "atoms = xs @ ys" "int j = int (display_width directory xs)"
      using boundary_split [OF shown, of 0 "int j" 0] j(1) width by auto
    have b: "?b = \<lparr>bd_index = logicalBoundary (int j) ?refs, bd_utf16Offset = off\<rparr>"
      using None shown by (simp add: canonicalContentBoundary_def pos)
    have "bd_index ?b = int (length xs)"
      unfolding b using xs shown logicalBoundary_spans [of directory xs ys] by simp
    moreover have "bd_utf16Offset ?b = length (concat (map (atom_text directory) xs))"
      unfolding b using xs shown text_of_prefix [of directory xs ys] by (simp add: j(2) val)
    ultimately show ?thesis
      using xs(1) by (auto simp: cuts_at_def)
  next
    case (Some r)
    note r = reference_inside_Some [OF Some]
    then obtain xs pid ys where split: "atoms = xs @ Ref pid # ys"
      and r_eq: "r = \<lparr>ref_start = int (display_width directory xs),
          ref_end = int (display_width directory (xs @ [Ref pid])),
          ref_index = int (length xs), ref_page_id = pid\<rparr>"
      using spans_memberE [of r directory atoms 0 0] shown by auto
    define after where "after = (ref_end r - ref_start r \<le> 2 * (int j - ref_start r))"
    define head where "head = (if after then xs @ [Ref pid] else xs)"
    define tail where "tail = (if after then ys else Ref pid # ys)"
    have atoms: "atoms = head @ tail"
      using split by (simp add: head_def tail_def)
    have b: "?b = \<lparr>bd_index = ref_index r + (if after then 1 else 0),
        bd_utf16Offset = length (concat (js_slice (code_points val) 0 (if after then ref_end r else ref_start r)))\<rparr>"
      using Some shown by (simp add: canonicalContentBoundary_def pos after_def Let_def)
    have w: "(if after then ref_end r else ref_start r) = int (display_width directory head)"
      by (simp add: head_def r_eq)
    have "bd_utf16Offset ?b = length (concat (map (atom_text directory) head))"
      unfolding b using text_of_prefix [OF shown [unfolded atoms]]
      by (simp only: w inline_content_boundary.simps js_slice_0 val atoms)
    moreover have "bd_index ?b = int (length head)"
      by (simp add: b head_def r_eq)
    ultimately show ?thesis
      using atoms by (auto simp: cuts_at_def)
  qed
qed

subsection \<open>Splitting and joining\<close>

lemma split_projection:
  assumes shown: "list_all (shown_atom (pageDirectoryIndex directory)) (xs @ ys)"
    and cut: "cuts_at (pageDirectoryIndex directory) xs ys boundary"
  shows "splitInlineContentProjection (markdown (projectContent (xs @ ys) directory))
       (pageReferences (projectContent (xs @ ys) directory)) boundary
     = (projectContent xs directory, projectContent ys directory)"
proof -
  let ?dir = "pageDirectoryIndex directory"
  let ?tx = "concat (map (atom_text ?dir) xs)" and ?ty = "concat (map (atom_text ?dir) ys)"
  have parts: "list_all (shown_atom ?dir) xs" "list_all (shown_atom ?dir) ys"
    using shown by auto
  note proj = projectContent_spans [OF shown_scalar [OF shown], of directory]
    projectContent_spans [OF shown_scalar [OF parts(1)], of directory]
    projectContent_spans [OF shown_scalar [OF parts(2)], of directory]
  let ?w = "display_width ?dir xs"
  have "codePointIndex (?tx @ ?ty) (length ?tx) = ?w"
    using codePointIndex_boundary [of ?w "?tx @ ?ty"] text_of_prefix [OF shown] shown_points [OF shown]
    by simp
  moreover have "filter (\<lambda>r. ref_end r \<le> int ?w) (spans ?dir (xs @ ys) 0 0) = spans ?dir xs 0 0"
  proof -
    have "ref_end r \<le> int ?w" if "r \<in> set (spans ?dir xs 0 0)" for r
      using spans_positive [OF parts(1) that] by simp
    moreover have "\<not> ref_end r \<le> int ?w" if "r \<in> set (spans ?dir ys (int ?w) (int (length xs)))" for r
      using spans_positive [OF parts(2) that] by simp
    ultimately show ?thesis
      using parts by (simp add: spans_append filter_empty_conv)
  qed
  moreover have "filter (\<lambda>r. int ?w \<le> ref_start r) (spans ?dir (xs @ ys) 0 0)
      = spans ?dir ys (int ?w) (int (length xs))"
  proof -
    have "\<not> int ?w \<le> ref_start r" if "r \<in> set (spans ?dir xs 0 0)" for r
      using spans_positive [OF parts(1) that] by simp
    moreover have "int ?w \<le> ref_start r" if "r \<in> set (spans ?dir ys (int ?w) (int (length xs)))" for r
      using spans_positive [OF parts(2) that] by simp
    ultimately show ?thesis
      using parts by (simp add: spans_append filter_empty_conv)
  qed
  moreover have "map (\<lambda>r. r\<lparr>ref_start := ref_start r - int ?w, ref_end := ref_end r - int ?w,
        ref_index := ref_index r - int (length xs)\<rparr>) (spans ?dir ys (int ?w) (int (length xs)))
      = spans ?dir ys 0 0"
    using spans_shift [of ?dir ys "int ?w" "- int ?w" "int (length xs)" "- int (length xs)"] by simp
  ultimately show ?thesis
    using cut shown by (simp add: splitInlineContentProjection_def proj cuts_at_def Let_def)
qed

text \<open>
  C18. Enter at a caret splits the content where it splits the text: at every code point
  boundary of the shown text (a caret never stands inside a surrogate pair), the canonical
  boundary cuts the atoms in two, and splitting the shown projection there gives exactly
  the projections of the two halves.
\<close>

theorem splitInlineContentProjection_atoms:
  assumes "list_all (shown_atom (pageDirectoryIndex directory)) atoms"
    and "projection = projectContent atoms directory"
    and "j \<le> length (code_points (markdown projection))"
    and "boundary = canonicalContentBoundary (markdown projection) (pageReferences projection)
           (length (concat (take j (code_points (markdown projection)))))"
  shows "\<exists>xs ys. atoms = xs @ ys \<and> bd_index boundary = int (length xs)
     \<and> splitInlineContentProjection (markdown projection) (pageReferences projection) boundary
         = (projectContent xs directory, projectContent ys directory)"
proof -
  note proj = projectContent_spans [OF shown_scalar [OF assms(1)], of directory, folded assms(2)]
  obtain xs ys where "atoms = xs @ ys" "cuts_at (pageDirectoryIndex directory) xs ys boundary"
    using canonicalContentBoundary_cuts [OF assms(1) refl, of j] assms(3,4) by (auto simp: proj)
  then show ?thesis
    using split_projection [of directory xs ys boundary] assms(1,2) by (auto simp: cuts_at_def)
qed

theorem splitInlineContentProjection_atoms_witness:
  "\<exists>xs ys. [Txt (js ''a''), Ref (js ''pq''), Txt (js ''b'')] = xs @ ys
     \<and> splitInlineContentProjection (js ''a[[pq]]b'')
         [\<lparr>ref_start = 1, ref_end = 7, ref_index = 1, ref_page_id = js ''pq''\<rparr>]
         (canonicalContentBoundary (js ''a[[pq]]b'')
           [\<lparr>ref_start = 1, ref_end = 7, ref_index = 1, ref_page_id = js ''pq''\<rparr>] 3)
       = (projectContent xs [], projectContent ys [])"
proof -
  let ?as = "[Txt (js ''a''), Ref (js ''pq''), Txt (js ''b'')]"
  let ?p = "\<lparr>markdown = js ''a[[pq]]b'',
     pageReferences = [\<lparr>ref_start = 1, ref_end = 7, ref_index = 1, ref_page_id = js ''pq''\<rparr>]\<rparr>"
  have h: "list_all (shown_atom (pageDirectoryIndex [])) ?as" "?p = projectContent ?as []"
    "3 \<le> length (code_points (markdown ?p))"
    "length (concat (take 3 (code_points (markdown ?p)))) = 3"
    by code_simp+
  show ?thesis
    using splitInlineContentProjection_atoms [OF h(1,2,3) refl] h(4) by auto
qed

text \<open>
  Joining two lines in display coordinates is joining their atoms: the joined
  projection is the projection of the concatenated atoms, references included.
\<close>

theorem joinInlineContentProjections_atoms:
  assumes "list_all (shown_atom (pageDirectoryIndex directory)) (xs @ ys)"
  shows "joinInlineContentProjections (projectContent xs directory) (projectContent ys directory)
     = projectContent (xs @ ys) directory"
proof -
  let ?dir = "pageDirectoryIndex directory"
  have parts: "list_all (shown_atom ?dir) xs" "list_all (shown_atom ?dir) ys"
    using assms by auto
  note proj = projectContent_spans [OF shown_scalar [OF assms], of directory]
    projectContent_spans [OF shown_scalar [OF parts(1)], of directory]
    projectContent_spans [OF shown_scalar [OF parts(2)], of directory]
  have "logicalBoundary (int (display_width ?dir xs)) (spans ?dir xs 0 0) = int (length xs)"
    using logicalBoundary_spans [of ?dir xs "[]"] parts by simp
  then show ?thesis
    using parts shown_points(1,3) [OF parts(1)]
      spans_shift [of ?dir ys 0 "int (display_width ?dir xs)" 0 "int (length xs)"]
    by (simp add: joinInlineContentProjections_def proj Let_def spans_append)
qed

theorem joinInlineContentProjections_atoms_witness:
  "joinInlineContentProjections (projectContent [Ref (js ''p'')] []) (projectContent [Ref (js ''q'')] [])
     = projectContent [Ref (js ''p''), Ref (js ''q'')] []"
proof -
  have "list_all (shown_atom (pageDirectoryIndex [])) ([Ref (js ''p'')] @ [Ref (js ''q'')])"
    by code_simp
  from joinInlineContentProjections_atoms [OF this] show ?thesis by simp
qed


subsection \<open>Turning a token into a reference\<close>

lemma sort_key_insert_middle:
  fixes f :: "'a \<Rightarrow> int"
  assumes "sorted (map f (xs @ x # ys))" and "distinct (map f (xs @ x # ys))"
  shows "sort_key f (xs @ ys @ [x]) = xs @ x # ys"
proof (rule properties_for_sort_key)
  show "mset (xs @ x # ys) = mset (xs @ ys @ [x])" by simp
  show "sorted (map f (xs @ x # ys))" by (rule assms(1))
  fix k
  assume k: "k \<in> set (xs @ x # ys)"
  have inj: "inj_on f (set (xs @ x # ys))" and dist: "distinct (xs @ x # ys)"
    using assms(2) by (simp_all only: distinct_map)
  have "f k = f a \<longleftrightarrow> k = a" if "a \<in> set (xs @ x # ys)" for a
    using inj_on_eq_iff [OF inj k that] by simp
  then have eq: "filter (\<lambda>a. f k = f a) zs = filter (\<lambda>a. k = a) zs" if "set zs \<subseteq> set (xs @ x # ys)" for zs
    using that by (intro filter_cong refl) blast
  have "filter (\<lambda>a. k = a) (xs @ x # ys) = filter (\<lambda>a. k = a) (xs @ ys @ [x])"
  proof -
    have "filter (\<lambda>a. k = a) zs = (if k \<in> set zs then [k] else [])" if "distinct zs" for zs
      using that by (induction zs) auto
    then show ?thesis
      using dist by auto
  qed
  then show "filter (\<lambda>a. f k = f a) (xs @ x # ys) = filter (\<lambda>a. f k = f a) (xs @ ys @ [x])"
    using eq [of "xs @ x # ys"] eq [of "xs @ ys @ [x]"] by auto
qed

lemma spans_distinct:
  assumes "list_all (shown_atom directory) atoms"
  shows "distinct (map ref_start (spans directory atoms d i))"
  using assms
proof (induction directory atoms d i rule: spans.induct)
  case (3 directory pid atoms d i)
  let ?e = "d + int (length (atom_points directory (Ref pid)))"
  have "0 < length (atom_points directory (Ref pid))"
    using 3 atom_points_pos [of directory "Ref pid"] by simp
  moreover have "?e \<le> ref_start r" if "r \<in> set (spans directory atoms ?e (i + 1))" for r
    using spans_positive(1) [OF _ that] 3 by simp
  ultimately have "d \<notin> ref_start ` set (spans directory atoms ?e (i + 1))"
    by fastforce
  then show ?case
    using 3 by (simp add: Let_def)
qed simp_all

lemma codePointIndex_loop_mono:
  "a \<le> b \<Longrightarrow> codePointIndex_loop ps a off i \<le> codePointIndex_loop ps b off i"
proof (induction ps arbitrary: off i)
  case (Cons p ps)
  have "i + 1 \<le> codePointIndex_loop ps b (off + length p) (i + 1)"
    by (subst codePointIndex_loop_offset) simp
  then show ?case
    using Cons.IH [of "off + length p" "i + 1"] Cons.prems by auto
qed simp

lemma codePointIndex_mono: "a \<le> b \<Longrightarrow> codePointIndex val a \<le> codePointIndex val b"
  by (simp add: codePointIndex_def codePointIndex_loop_mono)

lemma planPageReference_split:
  assumes shown: "list_all (shown_atom directory) atoms"
    and before: "before = concat (map (atom_text directory) atoms)"
    and token: "reference_token directory pid = js ''[['' @ title @ js '']]''"
      "well_formed (reference_token directory pid)"
    and order: "from_utf16 \<le> to_utf16"
  obtains xs ys zs pre suf where "atoms = xs @ ys @ zs"
    "list_all scalar_point pre" "list_all scalar_point suf"
    "planPageReference blockId before (spans directory atoms 0 0) from_utf16 to_utf16 pid title
     = (concat (map (atom_text directory) (xs @ map Txt pre @ [Ref pid] @ map Txt suf @ zs)),
        length (concat (map (atom_text directory) (xs @ map Txt pre @ [Ref pid]))),
        \<lparr>pl_splice = \<lparr>bs_block_id = blockId, bs_index = int (length xs), bs_delete = int (length ys),
           bs_insert = (if pre \<noteq> [] then [Markdown (concat pre)] else []) @ [PageReference pid]
             @ (if suf \<noteq> [] then [Markdown (concat suf)] else [])\<rparr>,
         pl_references = spans directory (xs @ map Txt pre @ [Ref pid] @ map Txt suf @ zs) 0 0\<rparr>)"
proof -
  let ?refs = "spans directory atoms 0 0" and ?pts = "code_points before"
  let ?i = "codePointIndex before from_utf16" and ?j = "codePointIndex before to_utf16"
  obtain s e where exp: "expandedRange ?refs (int ?i) (int ?j) = (s, e)"
    by (rule prod.exhaust)
  obtain xs ys zs pre suf where split: "atoms = xs @ ys @ zs"
    "s = int (display_width directory xs)" "e = int (display_width directory (xs @ ys))"
    and slices: "js_slice ?pts s (int ?i) = pre" "js_slice ?pts (int ?j) e = suf"
    and sc: "list_all scalar_point pre" "list_all scalar_point suf"
    and lb: "logicalBoundary s ?refs = int (length xs)"
      "logicalBoundary e ?refs - int (length xs) = int (length ys)"
    and outer: "js_slice ?pts 0 s = concat (map (atom_points directory) xs)"
      "js_slice_from ?pts e = concat (map (atom_points directory) zs)"
    using edit_range [OF shown arg_cong [OF before] codePointIndex_mono [OF order] codePointIndex_le exp]
    by metis
  note cp = code_points_concat [OF sc(1)] code_points_concat [OF sc(2)]
  have nil: "concat pre = [] \<longleftrightarrow> pre = []" "concat suf = [] \<longleftrightarrow> suf = []"
    using cp by (metis code_points_eq_Nil)+
  define mid where "mid = map Txt pre @ [Ref pid] @ map Txt suf"
  let ?new = "xs @ mid @ zs"
  have shown_new: "list_all (shown_atom directory) ?new" and shown_xs: "list_all (shown_atom directory) xs"
    and shown_zs: "list_all (shown_atom directory) zs" and shown_mid: "list_all (shown_atom directory) mid"
    using shown sc token(2) by (simp_all add: split(1) mid_def)
  let ?tok = "js ''[['' @ title @ js '']]''"
  have tok_pts: "code_points ?tok = atom_points directory (Ref pid)"
    using token(1) by (simp add: atom_points_def)
  have wf: "well_formed (concat pre)" "well_formed ?tok" "well_formed (concat suf)"
    using sc token by (simp_all add: well_formed_concat)
  have rep_pts: "code_points (concat pre @ ?tok @ concat suf) = concat (map (atom_points directory) mid)"
    by (simp add: mid_def code_points_append [OF wf(1)] code_points_append [OF wf(2), simplified]
        tok_pts [simplified] cp points_Txt sc)
  have rep_len: "int (length (concat (map (atom_points directory) mid))) = int (display_width directory mid)"
    using shown_points(3) [OF shown_mid] by simp
  have val: "concat (js_slice ?pts 0 s @ concat (map (atom_points directory) mid) @ js_slice_from ?pts e)
      = concat (map (atom_text directory) ?new)"
    by (simp add: outer concat_atom_text)
  let ?r = "\<lparr>ref_start = s + int (length pre), ref_end = s + int (length pre) + int (length (atom_points directory (Ref pid))),
     ref_index = int (length xs) + int (length pre), ref_page_id = pid\<rparr>"
  have new_spans: "spans directory ?new 0 0 = spans directory xs 0 0 @ ?r
      # spans directory zs (int (display_width directory (xs @ mid))) (int (length (xs @ mid)))"
    using shown_xs shown_zs shown_mid sc
    by (simp add: mid_def spans_append display_width_Txt split(2) Let_def algebra_simps)
  have refs: "transformReferences ?refs s e (int (display_width directory mid))
        (int (length pre) + 1 + int (length suf) - int (length ys))
      = spans directory xs 0 0
        @ spans directory zs (int (display_width directory (xs @ mid))) (int (length (xs @ mid)))"
    using transformReferences_spans [of directory xs ys zs mid] shown split
    by (simp add: mid_def algebra_simps)
  have sorted_refs: "sort_key ref_start
      (transformReferences ?refs s e (int (display_width directory mid))
        (int (length pre) + 1 + int (length suf) - int (length ys)) @ [?r]) = spans directory ?new 0 0"
    unfolding refs append.assoc
    by (subst sort_key_insert_middle)
      (use spans_sorted(1) [OF shown_new, of 0 0] spans_distinct [OF shown_new, of 0 0] in
        \<open>simp_all only: new_spans\<close>)
  have head: "length (concat (js_slice (code_points (concat (map (atom_text directory) ?new))) 0
        (s + int (length pre) + int (length (atom_points directory (Ref pid))))))
      = length (concat (map (atom_text directory) (xs @ map Txt pre @ [Ref pid])))"
  proof -
    have "s + int (length pre) + int (length (atom_points directory (Ref pid)))
        = int (display_width directory (xs @ map Txt pre @ [Ref pid]))"
      using sc by (simp add: split(2) display_width_Txt)
    moreover have "?new = (xs @ map Txt pre @ [Ref pid]) @ map Txt suf @ zs"
      by (simp add: mid_def)
    ultimately show ?thesis
      using text_of_prefix [of directory "xs @ map Txt pre @ [Ref pid]" "map Txt suf @ zs"] shown_new
      by (simp only: js_slice_0)
  qed
  have "planPageReference blockId before ?refs from_utf16 to_utf16 pid title
     = (concat (map (atom_text directory) ?new),
        length (concat (map (atom_text directory) (xs @ map Txt pre @ [Ref pid]))),
        \<lparr>pl_splice = \<lparr>bs_block_id = blockId, bs_index = int (length xs), bs_delete = int (length ys),
           bs_insert = (if pre \<noteq> [] then [Markdown (concat pre)] else []) @ [PageReference pid]
             @ (if suf \<noteq> [] then [Markdown (concat suf)] else [])\<rparr>,
         pl_references = spans directory ?new 0 0\<rparr>)"
    by (simp only: planPageReference_def Let_def ordered_spans [OF shown] exp prod.case slices rep_pts
        rep_len lb cp nil tok_pts sorted_refs val head)
  then show ?thesis
    using that [OF split(1) sc] by (simp add: mid_def)
qed


text \<open>
  Choosing a page for a typed \<open>[[\<dots>]]\<close> token turns it into one reference atom: the
  planned splice applies, the result contains the reference, its projection is the text and
  the spans the plan promises, and the caret stands right after the reference. The page's
  shown title must be the one the plan is given.
\<close>

theorem planPageReference_correct:
  assumes "list_all (shown_atom (pageDirectoryIndex directory)) atoms"
    and "reference_token (pageDirectoryIndex directory) pid = js ''[['' @ title @ js '']]''"
    and "well_formed (js ''[['' @ title @ js '']]'')"
    and "from_utf16 \<le> to_utf16"
    and "planPageReference blockId (markdown (projectContent atoms directory))
      (pageReferences (projectContent atoms directory)) from_utf16 to_utf16 pid title = (val, caret, plan)"
  shows "\<exists>head tail. apply_splices [pl_splice plan] atoms = Some (head @ Ref pid # tail)
     \<and> projectContent (head @ Ref pid # tail) directory
         = \<lparr>markdown = val, pageReferences = pl_references plan\<rparr>
     \<and> caret = length (markdown (projectContent (head @ [Ref pid]) directory))"
proof -
  let ?dir = "pageDirectoryIndex directory"
  note shown = assms(1)
  note proj = projectContent_spans [OF shown_scalar [OF shown], of directory]
  have tok: "well_formed (reference_token ?dir pid)"
    using assms(2,3) by simp
  obtain xs ys zs pre suf where split: "atoms = xs @ ys @ zs"
    and sc: "list_all scalar_point pre" "list_all scalar_point suf"
    and result: "(val, caret, plan)
     = (concat (map (atom_text ?dir) (xs @ map Txt pre @ [Ref pid] @ map Txt suf @ zs)),
        length (concat (map (atom_text ?dir) (xs @ map Txt pre @ [Ref pid]))),
        \<lparr>pl_splice = \<lparr>bs_block_id = blockId, bs_index = int (length xs), bs_delete = int (length ys),
           bs_insert = (if pre \<noteq> [] then [Markdown (concat pre)] else []) @ [PageReference pid]
             @ (if suf \<noteq> [] then [Markdown (concat suf)] else [])\<rparr>,
         pl_references = spans ?dir (xs @ map Txt pre @ [Ref pid] @ map Txt suf @ zs) 0 0\<rparr>)"
    using planPageReference_split [OF shown refl assms(2) tok assms(4), of blockId] assms(5)
    unfolding proj inline_content_projection.simps by metis
  let ?head = "xs @ map Txt pre" and ?tail = "map Txt suf @ zs"
  have ins: "contentAtoms (bs_insert (pl_splice plan)) = map Txt pre @ [Ref pid] @ map Txt suf"
    using result code_points_concat [OF sc(1)] code_points_concat [OF sc(2)] by simp
  have "list_all scalar_atom (?head @ Ref pid # ?tail)" "list_all scalar_atom (?head @ [Ref pid])"
    using shown_scalar [OF shown] sc by (auto simp: split list_all_iff)
  then have "projectContent (?head @ Ref pid # ?tail) directory
        = \<lparr>markdown = val, pageReferences = pl_references plan\<rparr>
      \<and> caret = length (markdown (projectContent (?head @ [Ref pid]) directory))"
    using result by (simp add: projectContent_spans)
  moreover have "apply_splices [pl_splice plan] atoms = Some (?head @ Ref pid # ?tail)"
    using result ins by (simp add: split replace_range_def)
  ultimately show ?thesis by blast
qed

theorem planPageReference_correct_witness:
  "\<exists>head tail. apply_splices [\<lparr>bs_block_id = [], bs_index = 1, bs_delete = 3, bs_insert = [PageReference (js ''p'')]\<rparr>]
       (map Txt (code_points (js ''a[[p''))) = Some (head @ Ref (js ''p'') # tail)
     \<and> markdown (projectContent (head @ Ref (js ''p'') # tail) []) = js ''a[[p]]''"
proof -
  let ?as = "map Txt (code_points (js ''a[[p''))"
  let ?plan = "\<lparr>pl_splice = \<lparr>bs_block_id = [], bs_index = 1, bs_delete = 3, bs_insert = [PageReference (js ''p'')]\<rparr>,
     pl_references = [\<lparr>ref_start = 1, ref_end = 6, ref_index = 1, ref_page_id = js ''p''\<rparr>]\<rparr>"
  have h: "list_all (shown_atom (pageDirectoryIndex [])) ?as"
    "reference_token (pageDirectoryIndex []) (js ''p'') = js ''[['' @ js ''p'' @ js '']]''"
    "well_formed (js ''[['' @ js ''p'' @ js '']]'')" "(1::nat) \<le> 4"
    "planPageReference [] (markdown (projectContent ?as [])) (pageReferences (projectContent ?as []))
       1 4 (js ''p'') (js ''p'') = (js ''a[[p]]'', 6, ?plan)"
    by code_simp+
  show ?thesis
    using planPageReference_correct [OF h]
    unfolding inline_edit_plan.simps by (metis inline_content_projection.select_convs(1))
qed

end
