(* ===== verification/Content_Mapping.thy ===== *)
theory Content_Mapping
  imports Content_Buffer
begin

text \<open>
  The coordinate part of \<open>features/blocks/editor/content-buffer.ts\<close>: a canonical change as a
  list of replaced ranges (\<open>ContentRangeChange\<close>), what such a list does to the origins of
  atoms (the loop \<open>rebaseBuffer\<close> opens with), to a position (\<open>mapContentPosition\<close>), and
  the list that is read back from origins (\<open>changesFromOrigins\<close>).
\<close>

subsection \<open>Definitions\<close>

datatype affinity = Before | After

definition mapContentPosition_step ::
  "affinity \<Rightarrow> int \<Rightarrow> content_range_change \<Rightarrow> int" where
  "mapContentPosition_step affinity position change =
     (if position < rc_index change \<or> (position = rc_index change \<and> affinity = Before) then position
      else if rc_index change + rc_delete change \<le> position
      then position + (rc_insert change - rc_delete change)
      else rc_index change + (if affinity = After then rc_insert change else 0))"

definition mapContentPosition ::
  "int \<Rightarrow> content_range_change list \<Rightarrow> affinity \<Rightarrow> int" where
  "mapContentPosition position changes affinity =
     foldl (mapContentPosition_step affinity) position changes"

text \<open>The closure \<open>emit\<close>: the change up to \<open>to\<close>, if any, and the new \<open>delta\<close>.\<close>

definition emit_change ::
  "nat \<Rightarrow> nat \<Rightarrow> int \<Rightarrow> nat \<Rightarrow> content_range_change list \<times> int" where
  "emit_change cursor ins delta to =
     (if cursor < to \<or> 0 < ins
      then ([\<lparr>rc_index = int cursor + delta, rc_delete = int to - int cursor, rc_insert = int ins\<rparr>],
            delta + int ins - (int to - int cursor))
      else ([], delta))"

fun changesFromOrigins_loop ::
  "nat \<Rightarrow> nat option list \<Rightarrow> nat \<Rightarrow> nat \<Rightarrow> int \<Rightarrow> content_range_change list" where
  "changesFromOrigins_loop len [] cursor ins delta = fst (emit_change cursor ins delta len)"
| "changesFromOrigins_loop len (None # origins) cursor ins delta =
     changesFromOrigins_loop len origins cursor (ins + 1) delta"
| "changesFromOrigins_loop len (Some origin # origins) cursor ins delta =
     (let (changes, delta') = emit_change cursor ins delta origin
      in changes @ changesFromOrigins_loop len origins (origin + 1) 0 delta')"

definition changesFromOrigins :: "nat \<Rightarrow> nat option list \<Rightarrow> content_range_change list" where
  "changesFromOrigins len origins = changesFromOrigins_loop len origins 0 0 0"

text \<open>
  The origins of the atoms after a list of changes. A range outside the content gives
  \<open>None\<close> (the \<open>return null\<close>); \<open>Array(n)\<close> throws unless \<open>0 \<le> n < 2 ^ 32\<close>.
\<close>

fun map_origins ::
  "content_range_change list \<Rightarrow> 'a option list \<Rightarrow> content_error + 'a option list option" where
  "map_origins [] origins = Inr (Some origins)"
| "map_origins (change # changes) origins =
     (if rc_index change < 0 \<or> rc_delete change < 0
         \<or> int (length origins) < rc_index change + rc_delete change
      then Inr None
      else if rc_insert change < 0 \<or> 2 ^ 32 \<le> rc_insert change then Inl RangeError
      else map_origins changes
             (js_slice origins 0 (rc_index change)
              @ replicate (nat (rc_insert change)) None
              @ js_slice_from origins (rc_index change + rc_delete change)))"

subsection \<open>Origins after one change\<close>

definition change_inside :: "nat \<Rightarrow> content_range_change \<Rightarrow> bool" where
  "change_inside n change \<longleftrightarrow>
     0 \<le> rc_index change \<and> 0 \<le> rc_delete change \<and> rc_index change + rc_delete change \<le> int n
   \<and> 0 \<le> rc_insert change \<and> rc_insert change < 2 ^ 32"

lemma map_origins_Cons:
  "change_inside (length origins) change \<Longrightarrow>
   map_origins (change # changes) origins
     = map_origins changes
         (replace_range (nat (rc_index change)) (nat (rc_delete change))
            (replicate (nat (rc_insert change)) None) origins)"
  by (simp add: change_inside_def replace_range_def nat_add_distrib js_list js_slice_nonneg [of 0])

lemma map_origins_ConsD:
  assumes "map_origins (change # changes) origins = Inr (Some result)"
  shows "change_inside (length origins) change"
  using assms by (auto simp: change_inside_def split: if_splits)

lemma map_origins_append:
  "map_origins (xs @ ys) origins =
     (case map_origins xs origins of
        Inr (Some origins') \<Rightarrow> map_origins ys origins'
      | r \<Rightarrow> r)"
  by (induction xs origins rule: map_origins.induct) auto


text \<open>The atoms that kept an origin, in order.\<close>

definition somes :: "'a option list \<Rightarrow> 'a list" where
  "somes xs = List.map_filter id xs"

lemma somes_simps [simp]:
  "somes [] = []" "somes (None # xs) = somes xs" "somes (Some x # xs) = x # somes xs"
  "somes (xs @ ys) = somes xs @ somes ys" "somes (map Some zs) = zs" "somes (replicate n None) = []"
  by (induction xs) (auto simp: somes_def map_filter_def filter_replicate o_def)

lemma set_somes: "x \<in> set (somes xs) \<longleftrightarrow> Some x \<in> set xs"
  by (auto simp: somes_def map_filter_def image_iff)

lemma sorted_wrt_somes_nth:
  assumes "\<And>i j x y. i < j \<Longrightarrow> j < length xs \<Longrightarrow> xs ! i = Some x \<Longrightarrow> xs ! j = Some y \<Longrightarrow> R x y"
  shows "sorted_wrt R (somes xs)"
  using assms
proof (induction xs)
  case (Cons z xs)
  have IH: "sorted_wrt R (somes xs)"
    using Cons.prems [of "Suc _" "Suc _"] by (intro Cons.IH) auto
  show ?case
  proof (cases z)
    case (Some x)
    have "R x y" if y: "Some y \<in> set xs" for y
    proof -
      obtain j where "j < length xs" "xs ! j = Some y"
        using y by (auto simp: in_set_conv_nth)
      then show ?thesis using Cons.prems [of 0 "Suc j" x y] Some by simp
    qed
    then show ?thesis using IH Some by (auto simp: set_somes)
  qed (use IH in simp)
qed simp

lemma sorted_somes_nthD:
  "sorted_wrt R (somes xs) \<Longrightarrow> i < j \<Longrightarrow> j < length xs \<Longrightarrow> xs ! i = Some x \<Longrightarrow> xs ! j = Some y \<Longrightarrow> R x y"
proof (induction xs arbitrary: i j)
  case (Cons z xs)
  then obtain k where k: "j = Suc k" "k < length xs" "xs ! k = Some y" by (cases j) auto
  show ?case
  proof (cases i)
    case 0
    then show ?thesis
      using Cons.prems(1,4) k nth_mem [OF k(2)] by (auto simp: set_somes)
  next
    case (Suc i')
    then show ?thesis
      using Cons.IH [of i' k] Cons.prems k by (cases z) auto
  qed
qed simp

lemma somes_replace_range:
  "subseq (somes (replace_range i d (replicate n None) xs)) (somes xs)"
proof -
  have "somes xs = somes (take i xs) @ somes (take d (drop i xs)) @ somes (drop (i + d) xs)"
    using take_drop_join [of d i xs] append_take_drop_id [of i xs] by (metis somes_simps(4))
  then show ?thesis
    by (simp add: replace_range_def subseq_append' list_emb_append2)
qed

lemma map_origins_subseq:
  "map_origins changes origins = Inr (Some result) \<Longrightarrow> subseq (somes result) (somes origins)"
proof (induction changes arbitrary: origins)
  case (Cons change changes)
  note inside = map_origins_ConsD [OF Cons.prems]
  then have "map_origins changes (replace_range (nat (rc_index change)) (nat (rc_delete change))
      (replicate (nat (rc_insert change)) None) origins) = Inr (Some result)"
    using Cons.prems by (simp only: map_origins_Cons)
  then show ?case
    using Cons.IH somes_replace_range subseq_order.order_trans by blast
qed simp

lemma subseq_set: "subseq xs ys \<Longrightarrow> set xs \<subseteq> set ys"
  by (induction rule: list_emb.induct) auto

lemma sorted_wrt_subseq: "subseq xs ys \<Longrightarrow> sorted_wrt R ys \<Longrightarrow> sorted_wrt R xs"
  by (induction rule: list_emb.induct) (auto dest: subseq_set)

lemma map_origins_sorted:
  assumes "map_origins changes (map Some [0..<n]) = Inr (Some result)"
  shows "sorted_wrt (<) (somes result)" and "\<forall>x \<in> set (somes result). x < n"
proof -
  have sub: "subseq (somes result) [0..<n]"
    using map_origins_subseq [OF assms] by simp
  show "sorted_wrt (<) (somes result)"
    using sorted_wrt_subseq [OF sub] by simp
  show "\<forall>x \<in> set (somes result). x < n"
    using subseq_set [OF sub] by auto
qed

subsection \<open>Positions follow the origins\<close>

text \<open>
  A position after the move lies behind exactly the atoms it lay behind before: an atom
  that survives at index \<open>i\<close> and was at index \<open>j\<close> is before the moved position if and only
  if it was before the position.
\<close>

lemma replace_range_origin:
  assumes inside: "change_inside (length origins) change"
    and len: "i < length (replace_range (nat (rc_index change)) (nat (rc_delete change))
               (replicate (nat (rc_insert change)) None) origins)"
    and some: "replace_range (nat (rc_index change)) (nat (rc_delete change))
           (replicate (nat (rc_insert change)) None) origins ! i = Some x"
  shows "\<exists>j. j < length origins \<and> origins ! j = Some x
     \<and> (\<forall>p. int j < p \<longleftrightarrow> int i < mapContentPosition_step After p change)"
proof -
  obtain a d n where c: "rc_index change = int a" "rc_delete change = int d" "rc_insert change = int n"
    using inside by (metis change_inside_def zero_le_imp_eq_int)
  have ad: "a + d \<le> length origins"
    using inside c by (simp add: change_inside_def)
  show ?thesis
  proof (cases "i < a")
    case True
    then show ?thesis
      using len some ad c
      by (intro exI [of _ i]) (auto simp: replace_range_def nth_append mapContentPosition_step_def)
  next
    case False
    have "a + n \<le> i"
    proof (rule ccontr)
      assume "\<not> a + n \<le> i"
      then show False
        using False some ad c by (simp add: replace_range_def nth_append split: if_splits)
    qed
    then have "i - n + d < length origins" "origins ! (i - n + d) = Some x"
      using False some len ad c
      by (auto simp: replace_range_def nth_append algebra_simps split: if_splits)
    then show ?thesis
      using False \<open>a + n \<le> i\<close> c
      by (intro exI [of _ "i - n + d"]) (auto simp: mapContentPosition_step_def)
  qed
qed

lemma map_origins_position:
  assumes "map_origins changes origins = Inr (Some result)" and "i < length result"
    and "result ! i = Some x"
  shows "\<exists>j. j < length origins \<and> origins ! j = Some x
     \<and> (\<forall>p. int j < p \<longleftrightarrow> int i < mapContentPosition p changes After)"
  using assms
proof (induction changes arbitrary: origins)
  case Nil
  then show ?case by (auto simp: mapContentPosition_def)
next
  case (Cons change changes)
  note inside = map_origins_ConsD [OF Cons.prems(1)]
  let ?mid = "replace_range (nat (rc_index change)) (nat (rc_delete change))
      (replicate (nat (rc_insert change)) None) origins"
  have "map_origins changes ?mid = Inr (Some result)"
    using Cons.prems(1) inside by (simp only: map_origins_Cons)
  then obtain k where k: "k < length ?mid" "?mid ! k = Some x"
    and pos: "\<forall>p. int k < p \<longleftrightarrow> int i < mapContentPosition p changes After"
    using Cons by blast
  from replace_range_origin [OF inside k] pos show ?case
    by (auto simp: mapContentPosition_def)
qed

lemma origin_before_position:
  assumes "map_origins changes (map Some [0..<n]) = Inr (Some result)" and "i < length result"
    and "result ! i = Some x"
  shows "int x < p \<longleftrightarrow> int i < mapContentPosition p changes After"
proof -
  obtain j where j: "j < length (map Some [0..<n])" "map Some [0..<n] ! j = Some x"
    and pos: "\<forall>p. int j < p \<longleftrightarrow> int i < mapContentPosition p changes After"
    using map_origins_position [OF assms] by blast
  have "j = x" using j by simp
  then show ?thesis using pos by blast
qed

lemma mapContentPosition_step_bounds:
  assumes "change_inside n change" and "0 \<le> p" "p \<le> int n"
  shows "0 \<le> mapContentPosition_step After p change"
    and "mapContentPosition_step After p change \<le> int n - rc_delete change + rc_insert change"
  using assms by (auto simp: change_inside_def mapContentPosition_step_def)

lemma mapContentPosition_bounds:
  assumes "map_origins changes origins = Inr (Some result)" and "0 \<le> p" "p \<le> int (length origins)"
  shows "0 \<le> mapContentPosition p changes After
     \<and> mapContentPosition p changes After \<le> int (length result)"
  using assms
proof (induction changes arbitrary: origins p)
  case Nil
  then show ?case by (simp add: mapContentPosition_def)
next
  case (Cons change changes)
  note inside = map_origins_ConsD [OF Cons.prems(1)]
  let ?mid = "replace_range (nat (rc_index change)) (nat (rc_delete change))
      (replicate (nat (rc_insert change)) None) origins"
  have rest: "map_origins changes ?mid = Inr (Some result)"
    using Cons.prems(1) inside by (simp only: map_origins_Cons)
  have "int (length ?mid) = int (length origins) - rc_delete change + rc_insert change"
    using inside by (subst length_replace_range) (auto simp: change_inside_def)
  then show ?case
    using Cons.IH [OF rest] mapContentPosition_step_bounds [OF inside] Cons.prems
    by (simp add: mapContentPosition_def)
qed

lemma mapContentPosition_step_mono:
  "change_inside n change \<Longrightarrow> p \<le> q \<Longrightarrow>
   mapContentPosition_step After p change \<le> mapContentPosition_step After q change"
  by (auto simp: change_inside_def mapContentPosition_step_def)

lemma mapContentPosition_mono:
  "map_origins changes origins = Inr (Some result) \<Longrightarrow> p \<le> q \<Longrightarrow>
   mapContentPosition p changes After \<le> mapContentPosition q changes After"
proof (induction changes arbitrary: origins p q)
  case Nil
  then show ?case by (simp add: mapContentPosition_def)
next
  case (Cons change changes)
  note inside = map_origins_ConsD [OF Cons.prems(1)]
  have "map_origins changes (replace_range (nat (rc_index change)) (nat (rc_delete change))
      (replicate (nat (rc_insert change)) None) origins) = Inr (Some result)"
    using Cons.prems(1) inside by (simp only: map_origins_Cons)
  then show ?case
    using Cons.IH mapContentPosition_step_mono [OF inside Cons.prems(2)]
    by (simp add: mapContentPosition_def)
qed

subsection \<open>Origins and changes are inverse\<close>

lemma map_origins_emit:
  assumes "int (length out) = int cursor + delta" and "cursor \<le> to" "to \<le> len" and "ins < 2 ^ 32"
    and "emit_change cursor ins delta to = (changes, delta')"
  shows "map_origins (changes @ rest) (out @ map Some [cursor..<len])
       = map_origins rest (out @ replicate ins None @ map Some [to..<len])"
    and "int (length out + ins) = int to + delta'"
proof -
  have drop: "drop (to - cursor) (map Some [cursor..<len]) = map Some [to..<len]"
    using assms(2,3) by (simp add: drop_map)
  have at: "nat (int cursor + delta) = length out"
    using assms(1) by simp
  have "map_origins (\<lparr>rc_index = int cursor + delta, rc_delete = int to - int cursor, rc_insert = int ins\<rparr> # rest)
      (out @ map Some [cursor..<len])
     = map_origins rest (out @ replicate ins None @ map Some [to..<len])"
    using assms at drop
    by (subst map_origins_Cons)
      (auto simp: change_inside_def replace_range_append_same nat_diff_distrib)
  then show "map_origins (changes @ rest) (out @ map Some [cursor..<len])
       = map_origins rest (out @ replicate ins None @ map Some [to..<len])"
    using assms(2,5) by (auto simp: emit_change_def split: if_splits)
  show "int (length out + ins) = int to + delta'"
    using assms(1,2,5) by (auto simp: emit_change_def split: if_splits)
qed

lemma map_origins_changes_loop:
  assumes "int (length out) = int cursor + delta" and "cursor \<le> len"
    and "sorted_wrt (<) (somes origins)" and "\<forall>x \<in> set (somes origins). cursor \<le> x \<and> x < len"
    and "ins + length origins < 2 ^ 32"
  shows "map_origins (changesFromOrigins_loop len origins cursor ins delta) (out @ map Some [cursor..<len])
       = Inr (Some (out @ replicate ins None @ origins))"
  using assms
proof (induction len origins cursor ins delta arbitrary: out rule: changesFromOrigins_loop.induct)
  case (1 len cursor ins delta)
  obtain changes delta' where emit: "emit_change cursor ins delta len = (changes, delta')"
    by fastforce
  then show ?case
    using map_origins_emit(1) [OF "1.prems"(1,2) _ _ emit, where rest = "[]"] "1.prems"(5) by simp
next
  case (2 len origins cursor ins delta)
  then show ?case
    by (simp add: replicate_append_same [symmetric] del: replicate_append_same)
next
  case (3 len x origins cursor ins delta)
  obtain changes delta' where emit: "emit_change cursor ins delta x = (changes, delta')"
    by fastforce
  have x: "cursor \<le> x" "x < len" "ins < 2 ^ 32"
    using "3.prems"(4,5) by auto
  let ?out = "out @ replicate ins None @ [Some x]"
  note step = map_origins_emit [OF "3.prems"(1) x(1) less_imp_le [OF x(2)] x(3) emit]
  have up: "map Some [x..<len] = Some x # map Some [x + 1..<len]"
    using x(2) by (simp add: upt_conv_Cons)
  have len: "int (length ?out) = int (x + 1) + delta'"
    using step(2) by simp
  have "map_origins (changesFromOrigins_loop len origins (x + 1) 0 delta') (?out @ map Some [x + 1..<len])
      = Inr (Some (?out @ replicate 0 None @ origins))"
    using "3.IH" [OF emit [symmetric] refl len] x(2) "3.prems"(3-5) by fastforce
  then show ?case
    using step(1) [where rest = "changesFromOrigins_loop len origins (x + 1) 0 delta'"] emit up by simp
qed

lemma map_origins_changesFromOrigins:
  assumes "sorted_wrt (<) (somes origins)" and "\<forall>x \<in> set (somes origins). x < len"
    and "length origins < 2 ^ 32"
  shows "map_origins (changesFromOrigins len origins) (map Some [0..<len]) = Inr (Some origins)"
  using map_origins_changes_loop [of "[] :: nat option list" 0 0 len origins 0] assms
  by (simp add: changesFromOrigins_def)

end
