(* ===== verification/Content_Match.thy ===== *)
theory Content_Match
  imports Content_Mapping
begin

text \<open>
  \<open>diffContent\<close> and \<open>matchMiddle\<close> of \<open>features/blocks/editor/content-buffer.ts\<close>: the
  greedy search of Myers for a shortest edit script, cut off after \<open>DIFF_EDIT_LIMIT\<close> edits,
  and the walk back through its trace. The frontier, an \<open>Int32Array\<close> read and written at
  \<open>offset + k\<close>, is a function of the diagonal \<open>k\<close>. The lemmas show that the search stops at
  the corner of the grid and nowhere beyond it, that the walk back follows matching atoms
  only, and that the resulting changes map the one content onto the other.
\<close>

subsection \<open>Definitions\<close>

definition DIFF_EDIT_LIMIT :: int where
  "DIFF_EDIT_LIMIT = 500"

type_synonym frontier = "int \<Rightarrow> int"

definition fromAbove :: "int \<Rightarrow> int \<Rightarrow> frontier \<Rightarrow> bool" where
  "fromAbove edits diagonal at \<longleftrightarrow>
     diagonal = - edits \<or> (diagonal \<noteq> edits \<and> at (diagonal - 1) < at (diagonal + 1))"

text \<open>The inner \<open>while\<close>: along the diagonal as long as the atoms agree.\<close>

function snake :: "(int \<Rightarrow> int \<Rightarrow> bool) \<Rightarrow> int \<Rightarrow> int \<Rightarrow> int \<Rightarrow> int \<Rightarrow> int \<times> int" where
  "snake same n m x y =
     (if x < n \<and> y < m \<and> same x y then snake same n m (x + 1) (y + 1) else (x, y))"
  by pat_completeness auto
termination by (relation "measure (\<lambda>(same, n, m, x, y). nat (n - x))") auto

declare snake.simps [simp del]

text \<open>One round of the search: every second diagonal, until the corner is reached.\<close>

function match_round ::
  "(int \<Rightarrow> int \<Rightarrow> bool) \<Rightarrow> int \<Rightarrow> int \<Rightarrow> int \<Rightarrow> frontier \<Rightarrow> int \<Rightarrow> frontier \<times> bool" where
  "match_round same n m edits frontier diagonal =
     (if diagonal \<le> edits
      then let x0 = (if fromAbove edits diagonal frontier
                     then frontier (diagonal + 1) else frontier (diagonal - 1) + 1);
               (x, y) = snake same n m x0 (x0 - diagonal);
               frontier' = frontier(diagonal := x)
           in if n \<le> x \<and> m \<le> y then (frontier', True)
              else match_round same n m edits frontier' (diagonal + 2)
      else (frontier, False))"
  by pat_completeness auto
termination
  by (relation "measure (\<lambda>(same, n, m, edits, frontier, diagonal). nat (edits + 1 - diagonal))") auto

declare match_round.simps [simp del]

text \<open>The rounds: the number of edits of the script, if found, and the trace of frontiers.\<close>

function match_search ::
  "(int \<Rightarrow> int \<Rightarrow> bool) \<Rightarrow> int \<Rightarrow> int \<Rightarrow> int \<Rightarrow> int \<Rightarrow> frontier \<Rightarrow> frontier list \<Rightarrow>
   int option \<times> frontier list" where
  "match_search same n m limit edits frontier trace =
     (if edits \<le> limit
      then let trace' = trace @ [frontier];
               (frontier', found) = match_round same n m edits frontier (- edits)
           in if found then (Some edits, trace')
              else match_search same n m limit (edits + 1) frontier' trace'
      else (None, trace))"
  by pat_completeness auto
termination
  by (relation "measure (\<lambda>(same, n, m, limit, edits, frontier, trace). nat (limit + 1 - edits))") auto

declare match_search.simps [simp del]

type_synonym kept = "nat \<rightharpoonup> nat"

text \<open>
  The inner loop of the walk back: the pairs of one diagonal down to, and not including, the
  point the search came from.
\<close>

function match_walk ::
  "nat \<Rightarrow> nat \<Rightarrow> int \<Rightarrow> int \<Rightarrow> int \<Rightarrow> int \<Rightarrow> kept \<Rightarrow> kept" where
  "match_walk beforeStart afterStart previousX previousY x y kept =
     (if previousX < x \<and> previousY < y
      then match_walk beforeStart afterStart previousX previousY (x - 1) (y - 1)
             (kept(nat (int afterStart + (y - 1)) \<mapsto> nat (int beforeStart + (x - 1))))
      else kept)"
  by pat_completeness auto
termination
  by (relation "measure (\<lambda>(beforeStart, afterStart, previousX, previousY, x, y, kept). nat (x - previousX))") auto

declare match_walk.simps [simp del]

function match_back ::
  "nat \<Rightarrow> nat \<Rightarrow> frontier list \<Rightarrow> int \<Rightarrow> int \<Rightarrow> int \<Rightarrow> kept \<Rightarrow> kept" where
  "match_back beforeStart afterStart trace edits x y kept =
     (if 0 < edits
      then let at = trace ! nat edits;
               diagonal = x - y;
               previous = (if fromAbove edits diagonal at then diagonal + 1 else diagonal - 1);
               previousX = at previous;
               previousY = previousX - previous
           in match_back beforeStart afterStart trace (edits - 1) previousX previousY
                (match_walk beforeStart afterStart previousX previousY x y kept)
      else match_walk beforeStart afterStart 0 0 x y kept)"
  by pat_completeness auto
termination
  by (relation "measure (\<lambda>(beforeStart, afterStart, trace, edits, x, y, kept). nat edits)") auto

declare match_back.simps [simp del]

definition matchMiddle ::
  "content_atom list \<Rightarrow> nat \<Rightarrow> nat \<Rightarrow> content_atom list \<Rightarrow> nat \<Rightarrow> nat \<Rightarrow> kept" where
  "matchMiddle before beforeStart beforeEnd after afterStart afterEnd =
     (let n = int beforeEnd - int beforeStart;
          m = int afterEnd - int afterStart;
          same = (\<lambda>x y. sameAtom (before ! nat (int beforeStart + x)) (after ! nat (int afterStart + y)));
          limit = min (n + m) DIFF_EDIT_LIMIT
      in case match_search same n m limit 0 (\<lambda>_. 0) [] of
           (None, trace) \<Rightarrow> Map.empty
         | (Some found, trace) \<Rightarrow> match_back beforeStart afterStart trace found n m Map.empty)"

definition diff_origins :: "content_atom list \<Rightarrow> content_atom list \<Rightarrow> nat option list" where
  "diff_origins before after =
     (let start = common_prefix sameAtom before after;
          sfx = common_suffix sameAtom start before after;
          beforeEnd = length before - sfx;
          afterEnd = length after - sfx;
          middle = matchMiddle before start beforeEnd after start afterEnd
      in map Some [0..<start] @ map middle [start..<afterEnd]
         @ map (\<lambda>index. Some (beforeEnd + index - afterEnd)) [afterEnd..<length after])"

definition diffContent :: "content_atom list \<Rightarrow> content_atom list \<Rightarrow> content_range_change list" where
  "diffContent before after = changesFromOrigins (length before) (diff_origins before after)"

subsection \<open>The frontier after whole rounds\<close>

text \<open>The diagonals a round visits.\<close>

definition on_round :: "nat \<Rightarrow> int \<Rightarrow> bool" where
  "on_round d k \<longleftrightarrow> - int d \<le> k \<and> k \<le> int d \<and> even (k + int d)"

definition start_x :: "int \<Rightarrow> frontier \<Rightarrow> int \<Rightarrow> int" where
  "start_x edits at k = (if fromAbove edits k at then at (k + 1) else at (k - 1) + 1)"

definition round_x ::
  "(int \<Rightarrow> int \<Rightarrow> bool) \<Rightarrow> int \<Rightarrow> int \<Rightarrow> nat \<Rightarrow> frontier \<Rightarrow> int \<Rightarrow> int" where
  "round_x same n m d at k = fst (snake same n m (start_x (int d) at k) (start_x (int d) at k - k))"

primrec frontier_at :: "(int \<Rightarrow> int \<Rightarrow> bool) \<Rightarrow> int \<Rightarrow> int \<Rightarrow> nat \<Rightarrow> frontier" where
  "frontier_at same n m 0 = (\<lambda>_. 0)"
| "frontier_at same n m (Suc d) =
     (\<lambda>k. if on_round d k then round_x same n m d (frontier_at same n m d) k
          else frontier_at same n m d k)"

lemma snake_props:
  "snake same n m x y = (x', y') \<Longrightarrow>
     x \<le> x' \<and> y' - x' = y - x \<and> (x < x' \<longrightarrow> x' \<le> n \<and> y' \<le> m)
   \<and> (\<forall>i. x \<le> i \<longrightarrow> i < x' \<longrightarrow> same i (i - (x - y)) \<and> i < n \<and> i - (x - y) < m)"
proof (induction same n m x y rule: snake.induct)
  case (1 same n m x y)
  show ?case
  proof (cases "x < n \<and> y < m \<and> same x y")
    case True
    then have eq: "snake same n m (x + 1) (y + 1) = (x', y')"
      using "1.prems" by (simp add: snake.simps [of same n m x y])
    note IH = "1.IH" [OF True eq]
    have "same i (i - (x - y)) \<and> i < n \<and> i - (x - y) < m" if "x \<le> i" "i < x'" for i
      using IH that True by (cases "i = x") auto
    moreover have "x' = x + 1 \<or> x + 1 < x'"
      using IH by linarith
    ultimately show ?thesis
      using IH True by auto
  qed (use "1.prems" in \<open>auto simp: snake.simps [of same n m x y]\<close>)
qed

lemma round_x_props:
  fixes k :: int and at :: frontier and same :: "int \<Rightarrow> int \<Rightarrow> bool" and n m :: int and d :: nat
  defines "s \<equiv> start_x (int d) at k" and "x \<equiv> round_x same n m d at k"
  shows "s \<le> x" and "s < x \<Longrightarrow> x \<le> n \<and> x - k \<le> m"
    and "\<And>i. s \<le> i \<Longrightarrow> i < x \<Longrightarrow> same i (i - k) \<and> i < n \<and> i - k < m"
    and "snake same n m s (s - k) = (x, x - k)"
proof -
  obtain x' y' where *: "snake same n m s (s - k) = (x', y')" by fastforce
  then have "x = x'" and "y' = x - k"
    using snake_props [OF *] by (auto simp: x_def s_def round_x_def)
  then show "s \<le> x" "s < x \<Longrightarrow> x \<le> n \<and> x - k \<le> m"
    "\<And>i. s \<le> i \<Longrightarrow> i < x \<Longrightarrow> same i (i - k) \<and> i < n \<and> i - k < m"
    "snake same n m s (s - k) = (x, x - k)"
    using snake_props [OF *] * by auto
qed


text \<open>
  The point round \<open>d\<close> reaches on diagonal \<open>k\<close>, and where it started: at the better of
  the two neighbours the round before reached.
\<close>

definition reach :: "(int \<Rightarrow> int \<Rightarrow> bool) \<Rightarrow> int \<Rightarrow> int \<Rightarrow> nat \<Rightarrow> int \<Rightarrow> int" where
  "reach same n m d k = frontier_at same n m (Suc d) k"

lemma on_round_0 [simp]: "on_round 0 k \<longleftrightarrow> k = 0"
  by (auto simp: on_round_def)

lemma reach_round: "on_round d k \<Longrightarrow> reach same n m d k = round_x same n m d (frontier_at same n m d) k"
  by (simp add: reach_def)

lemma frontier_at_Suc: "frontier_at same n m (Suc d) = reach same n m d"
  by (simp add: reach_def fun_eq_iff)

lemma reach_Suc:
  "on_round (Suc d) k \<Longrightarrow>
   reach same n m (Suc d) k = round_x same n m (Suc d) (reach same n m d) k"
  using reach_round [of "Suc d" k] by (simp only: frontier_at_Suc)

lemma fromAbove_on_round:
  assumes "on_round (Suc d) k"
  shows "fromAbove (int (Suc d)) k at \<Longrightarrow> on_round d (k + 1)"
    and "\<not> fromAbove (int (Suc d)) k at \<Longrightarrow> on_round d (k - 1)"
  using assms by (auto simp: fromAbove_def on_round_def) presburger+

lemma reach_0: "0 \<le> reach same n m 0 0"
  and start_0: "start_x 0 (\<lambda>_. 0) 0 = 0"
  using round_x_props(1) [of 0 "\<lambda>_. 0" 0 same n m]
  by (simp_all add: reach_def start_x_def fromAbove_def)

lemma start_ge:
  assumes "on_round (Suc d) k"
  shows "on_round d (k + 1) \<Longrightarrow>
      reach same n m d (k + 1) \<le> start_x (int (Suc d)) (reach same n m d) k"
    and "on_round d (k - 1) \<Longrightarrow>
      reach same n m d (k - 1) + 1 \<le> start_x (int (Suc d)) (reach same n m d) k"
  using assms by (auto simp: start_x_def fromAbove_def on_round_def)

lemma reach_ge_start:
  "on_round (Suc d) k \<Longrightarrow>
   start_x (int (Suc d)) (reach same n m d) k \<le> reach same n m (Suc d) k"
  using round_x_props(1) [of "Suc d" "reach same n m d" k same n m]
  by (simp add: reach_Suc)

lemma reach_nonneg: "on_round d k \<Longrightarrow> 0 \<le> reach same n m d k \<and> k \<le> reach same n m d k"
proof (induction d arbitrary: k)
  case 0
  then show ?case using reach_0 by simp
next
  case (Suc d)
  note ge = start_ge [OF Suc.prems, of same n m] reach_ge_start [OF Suc.prems, of same n m]
  have "on_round d (k + 1) \<or> on_round d (k - 1)"
    using fromAbove_on_round [OF Suc.prems] by blast
  then show ?case
    using Suc.IH [of "k + 1"] Suc.IH [of "k - 1"] ge by linarith
qed

subsection \<open>The search never runs past the corner\<close>

lemma reach_0_bounds: "0 \<le> n \<Longrightarrow> 0 \<le> m \<Longrightarrow> reach same n m 0 0 \<le> n \<and> reach same n m 0 0 \<le> m"
  using round_x_props(1) [of 0 "\<lambda>_. 0" 0 same n m] round_x_props(2) [of 0 "\<lambda>_. 0" 0 same n m] start_0
  by (cases "0 < reach same n m 0 0") (auto simp: reach_def)

lemma reach_start_or_inside:
  assumes "on_round (Suc d) k"
  shows "reach same n m (Suc d) k = start_x (int (Suc d)) (reach same n m d) k
     \<or> reach same n m (Suc d) k \<le> n \<and> reach same n m (Suc d) k - k \<le> m"
  using round_x_props(1,2) [of "Suc d" "reach same n m d" k same n m] assms
  by (fastforce simp: reach_Suc)

text \<open>A point right of the grid has a point at least as good on the diagonal before it.\<close>

lemma reach_right:
  assumes "0 \<le> n" "0 \<le> m" "on_round d k" "n < reach same n m d k"
  shows "\<exists>d'. d = Suc d' \<and> on_round d' (k - 1) \<and> reach same n m d k - 1 \<le> reach same n m d' (k - 1)"
  using assms
proof (induction d arbitrary: k)
  case 0
  then show ?case using reach_0_bounds [of n m same] by simp
next
  case (Suc d)
  let ?at = "reach same n m d"
  have start: "reach same n m (Suc d) k = start_x (int (Suc d)) ?at k"
    using reach_start_or_inside [OF Suc.prems(3), of same n m] Suc.prems(4) by auto
  show ?case
  proof (cases "fromAbove (int (Suc d)) k ?at")
    case False
    then show ?thesis
      using start fromAbove_on_round(2) [OF Suc.prems(3) False] by (simp add: start_x_def)
  next
    case True
    then have above: "on_round d (k + 1)" "reach same n m (Suc d) k = ?at (k + 1)"
      using start fromAbove_on_round(1) [OF Suc.prems(3) True] by (simp_all add: start_x_def)
    then obtain d' where d': "d = Suc d'" "on_round d' k" "?at (k + 1) - 1 \<le> reach same n m d' k"
      using Suc.IH [of "k + 1"] Suc.prems by auto
    then have left: "on_round (Suc d') (k - 1)"
      by (auto simp: on_round_def)
    have "reach same n m d' k \<le> reach same n m d (k - 1)"
      using start_ge(1) [OF left, of same n m] reach_ge_start [OF left, of same n m] d' by simp
    then show ?thesis
      using left d' above by auto
  qed
qed

text \<open>A point below the grid has one on the diagonal after it.\<close>

lemma reach_below:
  assumes "0 \<le> n" "0 \<le> m" "on_round d k" "m < reach same n m d k - k"
  shows "\<exists>d'. d = Suc d' \<and> on_round d' (k + 1) \<and> reach same n m d k \<le> reach same n m d' (k + 1)"
  using assms
proof (induction d arbitrary: k)
  case 0
  then show ?case using reach_0_bounds [of n m same] by simp
next
  case (Suc d)
  let ?at = "reach same n m d"
  have start: "reach same n m (Suc d) k = start_x (int (Suc d)) ?at k"
    using reach_start_or_inside [OF Suc.prems(3), of same n m] Suc.prems(4) by auto
  show ?case
  proof (cases "fromAbove (int (Suc d)) k ?at")
    case True
    then show ?thesis
      using start fromAbove_on_round(1) [OF Suc.prems(3) True] by (simp add: start_x_def)
  next
    case False
    then have left: "on_round d (k - 1)" "reach same n m (Suc d) k = ?at (k - 1) + 1"
      using start fromAbove_on_round(2) [OF Suc.prems(3) False] by (simp_all add: start_x_def)
    then obtain d' where d': "d = Suc d'" "on_round d' k" "?at (k - 1) \<le> reach same n m d' k"
      using Suc.IH [of "k - 1"] Suc.prems by auto
    then have right: "on_round (Suc d') (k + 1)"
      by (auto simp: on_round_def)
    have "reach same n m d' k + 1 \<le> reach same n m d (k + 1)"
      using start_ge(2) [OF right, of same n m] reach_ge_start [OF right, of same n m] d' by simp
    then show ?thesis
      using right d' left by auto
  qed
qed

definition at_corner :: "(int \<Rightarrow> int \<Rightarrow> bool) \<Rightarrow> int \<Rightarrow> int \<Rightarrow> nat \<Rightarrow> int \<Rightarrow> bool" where
  "at_corner same n m d k \<longleftrightarrow> n \<le> reach same n m d k \<and> m \<le> reach same n m d k - k"

lemma first_at_corner:
  assumes "0 \<le> n" "0 \<le> m" "on_round d k" "at_corner same n m d k"
    and first: "\<And>d' k'. d' < d \<Longrightarrow> on_round d' k' \<Longrightarrow> \<not> at_corner same n m d' k'"
  shows "reach same n m d k = n \<and> k = n - m"
proof (rule ccontr)
  assume "\<not> ?thesis"
  then have "n < reach same n m d k \<or> m < reach same n m d k - k"
    using assms(4) by (auto simp: at_corner_def)
  then obtain d' k' where "d' < d" "on_round d' k'" "at_corner same n m d' k'"
    using reach_right [OF assms(1-3)] reach_below [OF assms(1-3)] assms(4)
    by (fastforce simp: at_corner_def)
  then show False using first by blast
qed


subsection \<open>The rounds and the search\<close>

text \<open>The frontier in the middle of round \<open>d\<close>, before diagonal \<open>k0\<close> is visited.\<close>

definition partial_frontier ::
  "(int \<Rightarrow> int \<Rightarrow> bool) \<Rightarrow> int \<Rightarrow> int \<Rightarrow> nat \<Rightarrow> int \<Rightarrow> frontier" where
  "partial_frontier same n m d k0 =
     (\<lambda>k. if on_round d k \<and> k < k0 then reach same n m d k else frontier_at same n m d k)"

lemma partial_frontier_start:
  assumes "on_round d k0"
  shows "(if fromAbove (int d) k0 (partial_frontier same n m d k0)
          then partial_frontier same n m d k0 (k0 + 1) else partial_frontier same n m d k0 (k0 - 1) + 1)
     = start_x (int d) (frontier_at same n m d) k0"
proof -
  have "\<not> on_round d (k0 - 1)" "\<not> on_round d (k0 + 1)"
    using assms by (auto simp: on_round_def)
  then show ?thesis
    by (simp add: partial_frontier_def start_x_def fromAbove_def)
qed

lemma partial_frontier_step:
  assumes "on_round d k0"
  shows "(partial_frontier same n m d k0)(k0 := reach same n m d k0) = partial_frontier same n m d (k0 + 2)"
proof
  fix k
  have "k \<noteq> k0 + 1" if "on_round d k"
    using that assms by (auto simp: on_round_def)
  then show "((partial_frontier same n m d k0)(k0 := reach same n m d k0)) k
      = partial_frontier same n m d (k0 + 2) k"
    using assms by (auto simp: partial_frontier_def)
qed

lemma partial_frontier_end:
  "int d < k0 \<Longrightarrow> partial_frontier same n m d k0 = frontier_at same n m (Suc d)"
  by (auto simp: partial_frontier_def reach_def on_round_def fun_eq_iff)

lemma match_round_props:
  assumes "match_round same n m (int d) (partial_frontier same n m d k0) k0 = (g, found)"
    and "- int d \<le> k0" "even (k0 + int d)"
    and "\<And>k. on_round d k \<Longrightarrow> k < k0 \<Longrightarrow> \<not> at_corner same n m d k"
  shows "if found then \<exists>k. on_round d k \<and> at_corner same n m d k
     else g = frontier_at same n m (Suc d) \<and> (\<forall>k. on_round d k \<longrightarrow> \<not> at_corner same n m d k)"
  using assms
proof (induction "nat (int d + 1 - k0)" arbitrary: k0 rule: less_induct)
  case less
  show ?case
  proof (cases "k0 \<le> int d")
    case False
    then have "g = frontier_at same n m (Suc d)" "\<not> found"
      using less.prems(1) partial_frontier_end [of d k0 same n m]
      by (simp_all add: match_round.simps [of _ _ _ _ _ k0] del: frontier_at.simps)
    moreover have "k < k0" if "on_round d k" for k
      using False that by (auto simp: on_round_def)
    ultimately show ?thesis
      using less.prems(4) by auto
  next
    case True
    then have on: "on_round d k0"
      using less.prems by (simp add: on_round_def)
    let ?s = "start_x (int d) (frontier_at same n m d) k0" and ?x = "reach same n m d k0"
    have snake: "snake same n m ?s (?s - k0) = (?x, ?x - k0)"
      using round_x_props(4) [of same n m d "frontier_at same n m d" k0] reach_round [OF on] by simp
    have run: "match_round same n m (int d) (partial_frontier same n m d k0) k0
        = (if n \<le> ?x \<and> m \<le> ?x - k0 then (partial_frontier same n m d (k0 + 2), True)
           else match_round same n m (int d) (partial_frontier same n m d (k0 + 2)) (k0 + 2))"
      using True snake partial_frontier_start [OF on, of same n m] partial_frontier_step [OF on, of same n m]
      by (subst match_round.simps) (simp only: Let_def if_True prod.case)
    show ?thesis
    proof (cases "n \<le> ?x \<and> m \<le> ?x - k0")
      case True
      then show ?thesis
        using run less.prems(1) on by (auto simp: at_corner_def)
    next
      case False
      have none: "\<not> at_corner same n m d k" if "on_round d k" "k < k0 + 2" for k
      proof -
        have "k < k0 \<or> k = k0"
          using that on unfolding on_round_def by presburger
        then show ?thesis
          using less.prems(4) [OF that(1)] False by (auto simp: at_corner_def)
      qed
      have "match_round same n m (int d) (partial_frontier same n m d (k0 + 2)) (k0 + 2) = (g, found)"
        using run False less.prems(1) by simp
      moreover have "nat (int d + 1 - (k0 + 2)) < nat (int d + 1 - k0)"
        using True by simp
      ultimately show ?thesis
        using less.hyps [of "k0 + 2"] less.prems(2,3) none by simp
    qed
  qed
qed

lemma partial_frontier_begin: "partial_frontier same n m d (- int d) = frontier_at same n m d"
  by (auto simp: partial_frontier_def on_round_def fun_eq_iff)

lemma match_search_props:
  assumes "match_search same n m limit (int d) (frontier_at same n m d) (map (frontier_at same n m) [0..<d])
      = (Some found, trace)"
    and "\<And>d' k. d' < d \<Longrightarrow> on_round d' k \<Longrightarrow> \<not> at_corner same n m d' k"
  shows "\<exists>e k. found = int e \<and> on_round e k \<and> at_corner same n m e k
     \<and> (\<forall>d' k. d' < e \<longrightarrow> on_round d' k \<longrightarrow> \<not> at_corner same n m d' k)
     \<and> trace = map (frontier_at same n m) [0..<Suc e]"
  using assms
proof (induction "nat (limit + 1 - int d)" arbitrary: d rule: less_induct)
  case less
  obtain g hit where run: "match_round same n m (int d) (frontier_at same n m d) (- int d) = (g, hit)"
    by fastforce
  have props: "if hit then \<exists>k. on_round d k \<and> at_corner same n m d k
     else g = frontier_at same n m (Suc d) \<and> (\<forall>k. on_round d k \<longrightarrow> \<not> at_corner same n m d k)"
    using match_round_props [of same n m d "- int d" g hit] run
    by (auto simp: partial_frontier_begin on_round_def)
  have le: "int d \<le> limit"
    using less.prems(1) by (subst (asm) match_search.simps) (auto split: if_splits)
  have trace: "map (frontier_at same n m) [0..<d] @ [frontier_at same n m d]
      = map (frontier_at same n m) [0..<Suc d]"
    by simp
  have step: "(if hit then (Some (int d), map (frontier_at same n m) [0..<Suc d])
       else match_search same n m limit (int (Suc d)) g (map (frontier_at same n m) [0..<Suc d]))
     = (Some found, trace)"
    using less.prems(1) le run trace
    by (subst (asm) match_search.simps) (simp only: Let_def if_True prod.case of_nat_Suc add.commute)
  show ?case
  proof (cases hit)
    case True
    then show ?thesis
      using step props less.prems(2) by auto
  next
    case False
    then have "match_search same n m limit (int (Suc d)) (frontier_at same n m (Suc d))
        (map (frontier_at same n m) [0..<Suc d]) = (Some found, trace)"
      using step props by (simp only: if_False)
    moreover have "\<not> at_corner same n m d' k" if "d' < Suc d" "on_round d' k" for d' k
      using that props less.prems(2) False by (cases "d' = d") auto
    moreover have "nat (limit + 1 - int (Suc d)) < nat (limit + 1 - int d)"
      using le by simp
    ultimately show ?thesis
      using less.hyps [of "Suc d"] by blast
  qed
qed


subsection \<open>The walk back\<close>

text \<open>
  The pairs kept so far: matching atoms at or beyond the point \<open>(x, y)\<close>, in the same order
  on both sides.
\<close>

definition kept_from ::
  "(int \<Rightarrow> int \<Rightarrow> bool) \<Rightarrow> nat \<Rightarrow> nat \<Rightarrow> int \<Rightarrow> int \<Rightarrow> int \<Rightarrow> int \<Rightarrow> kept \<Rightarrow> bool" where
  "kept_from same beforeStart afterStart n m x y kept \<longleftrightarrow>
     (\<forall>a b. kept a = Some b \<longrightarrow>
        (\<exists>i j. a = nat (int afterStart + j) \<and> b = nat (int beforeStart + i)
             \<and> x \<le> i \<and> i < n \<and> y \<le> j \<and> j < m \<and> same i j))
   \<and> (\<forall>a a' b b'. kept a = Some b \<longrightarrow> kept a' = Some b' \<longrightarrow> a < a' \<longrightarrow> b < b')"

lemma kept_from_weaken:
  "kept_from same bs as n m x y kept \<Longrightarrow> x' \<le> x \<Longrightarrow> y' \<le> y \<Longrightarrow> kept_from same bs as n m x' y' kept"
  unfolding kept_from_def by (meson order_trans)

lemma kept_from_add:
  assumes "kept_from same bs as n m x y kept" and "0 < x" "0 < y" "x \<le> n" "y \<le> m" "same (x - 1) (y - 1)"
  shows "kept_from same bs as n m (x - 1) (y - 1)
     (kept(nat (int as + (y - 1)) \<mapsto> nat (int bs + (x - 1))))"
proof -
  have old: "nat (int as + (y - 1)) < a \<and> nat (int bs + (x - 1)) < b" if "kept a = Some b" for a b
  proof -
    obtain i j where "a = nat (int as + j)" "b = nat (int bs + i)" "x \<le> i" "y \<le> j"
      using assms(1) \<open>kept a = Some b\<close> unfolding kept_from_def by blast
    then show ?thesis using assms(2,3) by simp
  qed
  let ?kept = "kept(nat (int as + (y - 1)) \<mapsto> nat (int bs + (x - 1)))"
  have "\<exists>i j. a = nat (int as + j) \<and> b = nat (int bs + i)
             \<and> x - 1 \<le> i \<and> i < n \<and> y - 1 \<le> j \<and> j < m \<and> same i j" if "?kept a = Some b" for a b
  proof (cases "a = nat (int as + (y - 1))")
    case True
    then show ?thesis
      using \<open>?kept a = Some b\<close> assms by (intro exI [of _ "x - 1"] exI [of _ "y - 1"]) auto
  next
    case False
    then show ?thesis
      using \<open>?kept a = Some b\<close> kept_from_weaken [OF assms(1), of "x - 1" "y - 1"]
      unfolding kept_from_def by simp
  qed
  moreover have "b < b'" if "?kept a = Some b" "?kept a' = Some b'" "a < a'" for a a' b b'
    using that old [of a b] old [of a' b'] assms(1) unfolding kept_from_def
    by (auto split: if_splits)
  ultimately show ?thesis
    unfolding kept_from_def by blast
qed

lemma match_walk_props:
  assumes "kept_from same bs as n m x y kept" and "0 \<le> px" "0 \<le> py" "px \<le> x" "py \<le> y"
    and "\<And>i. i \<le> x \<Longrightarrow> px < i \<Longrightarrow> py < i - (x - y) \<Longrightarrow>
      i \<le> n \<and> i - (x - y) \<le> m \<and> same (i - 1) (i - (x - y) - 1)"
  shows "kept_from same bs as n m px py (match_walk bs as px py x y kept)"
  using assms
proof (induction bs as px py x y kept rule: match_walk.induct)
  case (1 bs as px py x y kept)
  show ?case
  proof (cases "px < x \<and> py < y")
    case True
    let ?kept = "kept(nat (int as + (y - 1)) \<mapsto> nat (int bs + (x - 1)))"
    have "kept_from same bs as n m (x - 1) (y - 1) ?kept"
      using kept_from_add [OF "1.prems"(1)] "1.prems"(6) [of x] "1.prems"(2,3) True by auto
    moreover have "i \<le> n \<and> i - (x - y) \<le> m \<and> same (i - 1) (i - (x - y) - 1)"
      if "i \<le> x - 1" "px < i" "py < i - (x - y)" for i
      using "1.prems"(6) [of i] that by simp
    ultimately have "kept_from same bs as n m px py (match_walk bs as px py (x - 1) (y - 1) ?kept)"
      using "1.IH" [OF True] "1.prems"(2-5) True by (simp del: fun_upd_apply)
    then show ?thesis
      using True by (simp add: match_walk.simps [of _ _ _ _ x y])
  next
    case False
    then show ?thesis
      using kept_from_weaken [OF "1.prems"(1,4,5)] by (subst match_walk.simps) (simp only: if_False)
  qed
qed

text \<open>Where a round starts on a diagonal, and the previous point the walk back goes to.\<close>

lemma previous_props:
  fixes same :: "int \<Rightarrow> int \<Rightarrow> bool" and n m :: int
  assumes "on_round (Suc d) k"
  defines "at \<equiv> reach same n m d"
  defines "p \<equiv> (if fromAbove (int (Suc d)) k at then k + 1 else k - 1)"
  shows "on_round d p" and "at p \<le> reach same n m (Suc d) k" and "at p - p \<le> reach same n m (Suc d) k - k"
    and "\<And>i. i \<le> reach same n m (Suc d) k \<Longrightarrow> at p < i \<Longrightarrow> at p - p < i - k \<Longrightarrow>
      i \<le> n \<and> i - k \<le> m \<and> same (i - 1) (i - k - 1)"
proof -
  let ?s = "start_x (int (Suc d)) at k"
  show "on_round d p"
    using fromAbove_on_round [OF assms(1)] by (simp add: p_def)
  have s: "?s = (if fromAbove (int (Suc d)) k at then at p else at p + 1)"
    by (simp add: start_x_def p_def)
  have ge: "?s \<le> reach same n m (Suc d) k"
    using reach_ge_start [OF assms(1), of same n m] by (simp add: at_def)
  show "at p \<le> reach same n m (Suc d) k" "at p - p \<le> reach same n m (Suc d) k - k"
    using ge s by (auto simp: p_def split: if_splits)
  fix i
  assume i: "i \<le> reach same n m (Suc d) k" "at p < i" "at p - p < i - k"
  then have "?s \<le> i - 1"
    using s by (auto simp: p_def split: if_splits)
  moreover have "reach same n m (Suc d) k = round_x same n m (Suc d) at k"
    using reach_Suc [OF assms(1), of same n m] by (simp add: at_def)
  ultimately show "i \<le> n \<and> i - k \<le> m \<and> same (i - 1) (i - k - 1)"
    using round_x_props(3) [of "Suc d" at k "i - 1" same n m] i(1) by (simp add: algebra_simps)
qed

lemma match_back_props:
  assumes "kept_from same bs as n m (reach same n m d k) (reach same n m d k - k) kept"
    and "on_round d k" and "d < length trace" and "\<And>e. e < length trace \<Longrightarrow> trace ! e = frontier_at same n m e"
  shows "kept_from same bs as n m 0 0
     (match_back bs as trace (int d) (reach same n m d k) (reach same n m d k - k) kept)"
  using assms
proof (induction d arbitrary: k kept)
  case 0
  have "i \<le> n \<and> i \<le> m \<and> same (i - 1) (i - 1)" if "i \<le> reach same n m 0 0" "0 < i" for i
    using round_x_props(3) [of 0 "\<lambda>_. 0" 0 "i - 1" same n m] start_0 that by (simp add: reach_def)
  then show ?case
    using 0 reach_nonneg [of 0 0 same n m]
    by (subst match_back.simps) (auto intro!: match_walk_props simp del: frontier_at.simps)
next
  case (Suc d)
  let ?at = "reach same n m d" and ?x = "reach same n m (Suc d) k"
  define p where "p = (if fromAbove (int (Suc d)) k ?at then k + 1 else k - 1)"
  note prev = previous_props [OF Suc.prems(2), where same = same and n = n and m = m, folded p_def]
  have nonneg: "0 \<le> ?at p" "0 \<le> ?at p - p"
    using reach_nonneg [OF prev(1), of same n m] by auto
  let ?kept = "match_walk bs as (?at p) (?at p - p) ?x (?x - k) kept"
  have walk: "kept_from same bs as n m (?at p) (?at p - p) ?kept"
    using Suc.prems(1) nonneg prev(2-4) by (intro match_walk_props) simp_all
  have at: "trace ! nat (int (Suc d)) = ?at"
    using Suc.prems(3) Suc.prems(4) [of "Suc d"] by (simp only: frontier_at_Suc nat_int)
  have "match_back bs as trace (int (Suc d)) ?x (?x - k) kept
      = match_back bs as trace (int d) (?at p) (?at p - p) ?kept"
    using at by (subst match_back.simps) (simp add: Let_def p_def)
  then show ?case
    using Suc.IH [OF walk prev(1)] Suc.prems(3,4) by simp
qed

text \<open>What \<open>matchMiddle\<close> keeps: equal atoms of the two spans, in the same order.\<close>

lemma matchMiddle_props:
  fixes before after :: "content_atom list"
  assumes "beforeStart \<le> beforeEnd" "afterStart \<le> afterEnd"
  defines "kept \<equiv> matchMiddle before beforeStart beforeEnd after afterStart afterEnd"
  shows "kept a = Some b \<Longrightarrow>
      afterStart \<le> a \<and> a < afterEnd \<and> beforeStart \<le> b \<and> b < beforeEnd \<and> before ! b = after ! a"
    and "kept a = Some b \<Longrightarrow> kept a' = Some b' \<Longrightarrow> a < a' \<Longrightarrow> b < b'"
proof -
  define n m where "n = int beforeEnd - int beforeStart" and "m = int afterEnd - int afterStart"
  define same where
    "same = (\<lambda>x y. sameAtom (before ! nat (int beforeStart + x)) (after ! nat (int afterStart + y)))"
  have nm: "0 \<le> n" "0 \<le> m" using assms(1,2) by (simp_all add: n_def m_def)
  obtain r trace where search:
    "match_search same n m (min (n + m) DIFF_EDIT_LIMIT) 0 (\<lambda>_. 0) [] = (r, trace)"
    by fastforce
  have kept: "kept = (case r of None \<Rightarrow> Map.empty
      | Some found \<Rightarrow> match_back beforeStart afterStart trace found n m Map.empty)"
    using search unfolding kept_def matchMiddle_def Let_def n_def [symmetric] m_def [symmetric]
      same_def [symmetric] by (cases r) simp_all
  have all: "kept_from same beforeStart afterStart n m 0 0 kept"
  proof (cases r)
    case None
    then show ?thesis by (simp add: kept kept_from_def)
  next
    case (Some found)
    obtain e k where e: "found = int e" "on_round e k" "at_corner same n m e k"
        "\<forall>d' k. d' < e \<longrightarrow> on_round d' k \<longrightarrow> \<not> at_corner same n m d' k"
        "trace = map (frontier_at same n m) [0..<Suc e]"
      using match_search_props [of same n m "min (n + m) DIFF_EDIT_LIMIT" 0 found trace] search Some
      by auto
    have corner: "reach same n m e k = n" "n - k = m"
      using first_at_corner [OF nm e(2,3)] e(4) by auto
    have "trace ! d = frontier_at same n m d" if "d < length trace" for d
      using that e(5) by (simp del: upt_Suc)
    moreover have "kept_from same beforeStart afterStart n m n m Map.empty"
      by (simp add: kept_from_def)
    ultimately show ?thesis
      using match_back_props [of same beforeStart afterStart n m e k Map.empty trace] corner e Some kept
      by simp
  qed
  show "afterStart \<le> a \<and> a < afterEnd \<and> beforeStart \<le> b \<and> b < beforeEnd \<and> before ! b = after ! a"
    if kept_a: "kept a = Some b"
  proof -
    obtain i j where "a = nat (int afterStart + j)" "b = nat (int beforeStart + i)"
      "0 \<le> i" "i < n" "0 \<le> j" "j < m" "same i j"
      using all kept_a unfolding kept_from_def by blast
    then show ?thesis
      by (auto simp: n_def m_def same_def)
  qed
  show "kept a = Some b \<Longrightarrow> kept a' = Some b' \<Longrightarrow> a < a' \<Longrightarrow> b < b'"
    using all unfolding kept_from_def by blast
qed


subsection \<open>The changes of a diff\<close>

lemma common_prefix_sameAtom: "common_prefix sameAtom = common_prefix (=)"
  and common_suffix_sameAtom: "common_suffix sameAtom = common_suffix (=)"
proof -
  have "sameAtom = (=)" by (intro ext) simp
  then show "common_prefix sameAtom = common_prefix (=)" "common_suffix sameAtom = common_suffix (=)"
    by simp_all
qed

text \<open>The origins of a diff: in order, inside the old content, and of equal atoms.\<close>

lemma diff_origins_nth:
  fixes before after :: "content_atom list"
  defines "start \<equiv> common_prefix (=) before after"
  defines "sfx \<equiv> common_suffix (=) start before after"
  defines "be \<equiv> length before - sfx" and "ae \<equiv> length after - sfx"
  shows "length (diff_origins before after) = length after"
    and "i < length after \<Longrightarrow> diff_origins before after ! i =
      (if i < start then Some i
       else if i < ae then matchMiddle before start be after start ae i
       else Some (be + i - ae))"
    and "start \<le> be" "start \<le> ae" "be + sfx = length before" "ae + sfx = length after"
proof -
  have le: "start \<le> length before" "start \<le> length after"
    "sfx \<le> length before - start" "sfx \<le> length after - start"
    unfolding start_def sfx_def by (rule common_prefix_le common_suffix_le)+
  then show *: "start \<le> be" "start \<le> ae" "be + sfx = length before" "ae + sfx = length after"
    by (auto simp: be_def ae_def)
  have eq: "diff_origins before after = map Some [0..<start]
      @ map (matchMiddle before start be after start ae) [start..<ae]
      @ map (\<lambda>index. Some (be + index - ae)) [ae..<length after]"
    unfolding diff_origins_def Let_def common_prefix_sameAtom common_suffix_sameAtom
      start_def [symmetric] sfx_def [symmetric] be_def [symmetric] ae_def [symmetric] ..
  show "length (diff_origins before after) = length after"
    using * by (simp add: eq)
  show "i < length after \<Longrightarrow> diff_origins before after ! i =
      (if i < start then Some i
       else if i < ae then matchMiddle before start be after start ae i
       else Some (be + i - ae))"
    using * by (auto simp: eq nth_append)
qed

lemma diff_origins_props:
  shows "i < length after \<Longrightarrow> diff_origins before after ! i = Some x \<Longrightarrow>
      x < length before \<and> before ! x = after ! i"
    and "i < j \<Longrightarrow> j < length after \<Longrightarrow> diff_origins before after ! i = Some x \<Longrightarrow>
      diff_origins before after ! j = Some y \<Longrightarrow> x < y"
proof -
  define start where "start = common_prefix (=) before after"
  define sfx where "sfx = common_suffix (=) start before after"
  define be ae where "be = length before - sfx" and "ae = length after - sfx"
  note nth = diff_origins_nth [where before = before and after = after,
      folded start_def, folded sfx_def, folded be_def ae_def]
  note middle = matchMiddle_props [OF nth(3,4), of before after]
  have prefix: "before ! i = after ! i" if "i < start" for i
    using that common_prefix_nth [of i "(=)" before after] by (simp add: start_def)
  have "drop be before = drop ae after"
    unfolding be_def ae_def sfx_def by (rule common_suffix_drop)
  then have suf: "before ! (be + k) = after ! (ae + k)" if "k < sfx" for k
    using that nth(5,6) by (metis nth_drop le_add1)
  show "x < length before \<and> before ! x = after ! i"
    if i: "i < length after" and x: "diff_origins before after ! i = Some x"
    using x nth(2) [OF i] nth(3-6) prefix [of i] middle(1) [of i x] suf [of "i - ae"] i
    by (auto split: if_splits)
  show "x < y" if ij: "i < j" "j < length after" and x: "diff_origins before after ! i = Some x"
    and y: "diff_origins before after ! j = Some y"
    using x y nth(2) [of i] nth(2) [of j] nth(3-6) middle(1) [of i x] middle(1) [of j y]
      middle(2) [of i x j y] ij
    by (auto split: if_splits)
qed

lemma diffContent_origins:
  assumes "length after < 2 ^ 32"
  shows "map_origins (diffContent before after) (map Some [0..<length before])
     = Inr (Some (diff_origins before after))"
  unfolding diffContent_def
proof (rule map_origins_changesFromOrigins)
  show "sorted_wrt (<) (somes (diff_origins before after))"
    using diff_origins_props(2) diff_origins_nth(1) by (intro sorted_wrt_somes_nth) metis
  show "\<forall>x \<in> set (somes (diff_origins before after)). x < length before"
    using diff_origins_props(1) diff_origins_nth(1) by (metis in_set_conv_nth set_somes)
  show "length (diff_origins before after) < 2 ^ 32"
    using assms diff_origins_nth(1) by simp
qed

text \<open>
  C22. A diff maps its own source: the changes \<open>diffContent\<close> returns stay inside the content
  at every step, applying them to the old content leaves one origin per new atom, every
  kept atom is the same atom at both places, and kept atoms stay in order.
\<close>

theorem diffContent_maps:
  assumes "length after < 2 ^ 32"
  shows "\<exists>origins. map_origins (diffContent before after) (map Some [0..<length before]) = Inr (Some origins)
     \<and> length origins = length after
     \<and> (\<forall>i x. i < length after \<longrightarrow> origins ! i = Some x \<longrightarrow> x < length before \<and> before ! x = after ! i)
     \<and> sorted_wrt (<) (somes origins)"
  using diffContent_origins [OF assms, of before] diff_origins_nth(1) [of before after]
    diff_origins_props(1) [of _ after before] map_origins_sorted(1)
  by (intro exI [of _ "diff_origins before after"]) blast

theorem diffContent_maps_witness:
  "map_origins (diffContent (map Txt (code_points (js ''abcd''))) (map Txt (code_points (js ''axcy''))))
     (map Some [0..<4]) = Inr (Some [Some 0, None, Some 2, None])"
proof -
  let ?b = "map Txt (code_points (js ''abcd''))" and ?a = "map Txt (code_points (js ''axcy''))"
  have "length ?a = 4" and len: "length ?b = 4"
    by code_simp+
  then have "length ?a < 2 ^ 32" by (simp only:) simp
  with len obtain origins where "map_origins (diffContent ?b ?a) (map Some [0..<4]) = Inr (Some origins)"
    using diffContent_maps [of ?a ?b] by metis
  moreover have "map_origins (diffContent ?b ?a) (map Some [0..<4]) = Inr (Some [Some 0, None, Some 2, None])"
    by code_simp
  ultimately show ?thesis by simp
qed

end
