(* ===== verification/Content_Rebase.thy ===== *)
theory Content_Rebase
  imports Content_Match
begin

text \<open>
  \<open>rebaseBuffer\<close> and \<open>rebaseOnto\<close> of \<open>features/blocks/editor/content-buffer.ts\<close>: a draft
  moved onto new canonical content. The lemmas show that nothing authored is lost, that a
  concurrent insertion survives a local deletion around it, that only atoms one of the two
  sides deleted are gone, and that the mapping returned describes exactly this move.
\<close>

subsection \<open>Definitions\<close>

text \<open>
  Where the atoms of the draft are shown: the source atoms by their index, the authored ones
  in a list, and the length of the draft.
\<close>

fun visible_loop ::
  "piece list \<Rightarrow> (nat \<rightharpoonup> nat) \<Rightarrow> nat list \<Rightarrow> nat \<Rightarrow> (nat \<rightharpoonup> nat) \<times> nat list \<times> nat" where
  "visible_loop [] originalVisible insertedVisible visible = (originalVisible, insertedVisible, visible)"
| "visible_loop (SourcePiece from to # ps) originalVisible insertedVisible visible =
     (let (originalVisible', visible') =
        foldl (\<lambda>(shown, v) index. (shown(index \<mapsto> v), v + 1)) (originalVisible, visible) [from..<to]
      in visible_loop ps originalVisible' insertedVisible visible')"
| "visible_loop (InsertPiece atoms # ps) originalVisible insertedVisible visible =
     visible_loop ps originalVisible (insertedVisible @ [visible..<visible + length atoms])
       (visible + length atoms)"

type_synonym insertions = "int \<rightharpoonup> content_atom list \<times> nat list"

fun insertions_loop ::
  "content_range_change list \<Rightarrow> nat list \<Rightarrow> content_change list \<Rightarrow> nat \<Rightarrow> insertions \<Rightarrow> insertions" where
  "insertions_loop mapping insertedVisible [] insertedOffset insertions = insertions"
| "insertions_loop mapping insertedVisible (change # changes) insertedOffset insertions =
     (if length (ch_insert change) = 0
      then insertions_loop mapping insertedVisible changes insertedOffset insertions
      else let at = mapContentPosition (int (ch_from change)) mapping After;
               (atoms, origins) = (case insertions at of Some previous \<Rightarrow> previous | None \<Rightarrow> ([], []));
               len = length (ch_insert change)
           in insertions_loop mapping insertedVisible changes (insertedOffset + len)
                (insertions(at \<mapsto>
                   (atoms @ ch_insert change,
                    origins @ js_slice insertedVisible (int insertedOffset) (int (insertedOffset + len))))))"

definition insertion_at :: "insertions \<Rightarrow> nat \<Rightarrow> piece list \<times> nat option list" where
  "insertion_at insertions index =
     (case insertions (int index) of
        Some (atoms, origins) \<Rightarrow> ([InsertPiece atoms], map Some origins)
      | None \<Rightarrow> ([], []))"

text \<open>The last loop, over the origins of the new source and the position after it.\<close>

fun rebase_loop ::
  "insertions \<Rightarrow> (nat \<rightharpoonup> nat) \<Rightarrow> nat option list \<Rightarrow> nat \<Rightarrow> piece list \<times> nat option list" where
  "rebase_loop insertions originalVisible [] index = insertion_at insertions index"
| "rebase_loop insertions originalVisible (origin # origins) index =
     (let (ps, vs) = insertion_at insertions index;
          (ps', vs') = rebase_loop insertions originalVisible origins (index + 1)
      in case origin of
           Some x \<Rightarrow>
             (case originalVisible x of
                None \<Rightarrow> (ps @ ps', vs @ vs')
              | Some v \<Rightarrow> (ps @ SourcePiece index (index + 1) # ps', vs @ Some v # vs'))
         | None \<Rightarrow> (ps @ SourcePiece index (index + 1) # ps', vs @ None # vs'))"

definition origins_agree :: "content_atom list \<Rightarrow> content_atom list \<Rightarrow> nat option list \<Rightarrow> bool" where
  "origins_agree old new origins \<longleftrightarrow>
     list_all (\<lambda>(origin, atom). case origin of
         None \<Rightarrow> True | Some x \<Rightarrow> sameContent [old ! x] [atom]) (zip origins new)"

definition rebaseBuffer ::
  "content_buffer \<Rightarrow> inline_content list \<Rightarrow> content_range_change list \<Rightarrow>
   content_error + (content_buffer \<times> content_range_change list) option" where
  "rebaseBuffer buffer content mapping =
     (let src = contentAtoms content
      in case map_origins mapping (map Some [0..<length (source buffer)]) of
           Inl e \<Rightarrow> Inl e
         | Inr None \<Rightarrow> Inr None
         | Inr (Some origins) \<Rightarrow>
             if length origins \<noteq> length src \<or> \<not> origins_agree (source buffer) src origins
             then Inr None
             else let (originalVisible, insertedVisible, visible) = visible_loop (pieces buffer) Map.empty [] 0;
                      insertions = insertions_loop mapping insertedVisible (bufferChanges buffer) 0 Map.empty;
                      (ps, visibleOrigins) = rebase_loop insertions originalVisible origins 0
                  in Inr (Some (\<lparr>source = src, pieces = compactPieces ps\<rparr>,
                                changesFromOrigins visible visibleOrigins)))"

datatype rebase_error = MappingError content_error | DiffDoesNotMap

definition rebaseOnto ::
  "content_buffer \<Rightarrow> inline_content list \<Rightarrow> content_range_change list option \<Rightarrow>
   rebase_error + (content_buffer \<times> content_range_change list)" where
  "rebaseOnto buffer content mapping =
     (case (case mapping of None \<Rightarrow> Inr None | Some m \<Rightarrow> rebaseBuffer buffer content m) of
        Inl e \<Rightarrow> Inl (MappingError e)
      | Inr (Some mapped) \<Rightarrow> Inr mapped
      | Inr None \<Rightarrow>
          (case rebaseBuffer buffer content (diffContent (source buffer) (contentAtoms content)) of
             Inl e \<Rightarrow> Inl (MappingError e)
           | Inr None \<Rightarrow> Inl DiffDoesNotMap
           | Inr (Some diffed) \<Rightarrow> Inr diffed))"


subsection \<open>Where the atoms of a draft come from\<close>

text \<open>
  For every shown atom of a draft its index in the source, or \<open>None\<close> for an authored atom;
  and the authored atoms, each with the source position it follows and where it is shown.
\<close>

fun piece_sources :: "piece \<Rightarrow> nat option list" where
  "piece_sources (SourcePiece from to) = map Some [from..<to]"
| "piece_sources (InsertPiece atoms) = replicate (length atoms) None"

definition draft_sources :: "piece list \<Rightarrow> nat option list" where
  "draft_sources ps = concat (map piece_sources ps)"

fun authored :: "piece list \<Rightarrow> nat \<Rightarrow> nat \<Rightarrow> ((nat \<times> content_atom) \<times> nat) list" where
  "authored [] from vis = []"
| "authored (SourcePiece f t # ps) from vis = authored ps t (vis + (t - f))"
| "authored (InsertPiece atoms # ps) from vis =
     zip (map (Pair from) atoms) [vis..<vis + length atoms] @ authored ps from (vis + length atoms)"

lemma draft_sources_simps [simp]:
  "draft_sources [] = []"
  "draft_sources (p # ps) = piece_sources p @ draft_sources ps"
  "draft_sources (ps @ qs) = draft_sources ps @ draft_sources qs"
  by (simp_all add: draft_sources_def)

lemma length_piece_sources [simp]: "length (piece_sources p) = pieceLength p"
  by (cases p) auto

lemma length_draft_sources: "length (draft_sources ps) = sum_list (map pieceLength ps)"
  by (induction ps) auto

lemma draft_atom_nth:
  "ordered_pieces lo (length src) ps \<Longrightarrow> v < length (draft_sources ps) \<Longrightarrow>
   draft_sources ps ! v = Some x \<Longrightarrow> concat (map (piece_atoms src) ps) ! v = src ! x \<and> lo \<le> x \<and> x < length src"
proof (induction lo "length src" ps arbitrary: v rule: ordered_pieces.induct)
  case (2 lo f t ps)
  show ?case
  proof (cases "v < t - f")
    case True
    then show ?thesis using "2.prems" by (auto simp: nth_append)
  next
    case False
    then have "v - (t - f) < length (draft_sources ps)" "draft_sources ps ! (v - (t - f)) = Some x"
      using "2.prems" by (simp_all add: nth_append)
    then show ?thesis
      using "2.hyps" [of "v - (t - f)"] "2.prems" False by (auto simp: nth_append min_absorb2)
  qed
next
  case (3 lo atoms ps)
  show ?case
  proof (cases "v < length atoms")
    case True
    then show ?thesis using "3.prems" by (simp add: nth_append)
  next
    case False
    then have "v - length atoms < length (draft_sources ps)"
      "draft_sources ps ! (v - length atoms) = Some x"
      using "3.prems" by (simp_all add: nth_append)
    then show ?thesis
      using "3.hyps" [of "v - length atoms"] "3.prems" False by (simp add: nth_append)
  qed
qed simp

lemma draft_sources_sorted:
  "ordered_pieces lo len ps \<Longrightarrow> sorted_wrt (<) (somes (draft_sources ps))
     \<and> (\<forall>x \<in> set (somes (draft_sources ps)). lo \<le> x \<and> x < len)"
proof (induction lo len ps rule: ordered_pieces.induct)
  case (2 lo len f t ps)
  then show ?case by (fastforce simp: sorted_wrt_append)
qed auto

lemma draft_sources_compact_step:
  assumes "ordered_pieces lo len (ps @ [p])"
  shows "draft_sources (compactPieces_step ps p) = draft_sources (ps @ [p])"
proof -
  have "0 < pieceLength p"
    using ordered_pieces_length [OF assms] by simp
  then show ?thesis
  proof (cases rule: compactPieces_step_cases [where ps = ps])
    case (merge_source front f t t')
    then have "f < t" "t < t'"
      using assms by (auto simp: ordered_pieces_append)
    then have "[f..<t'] = [f..<t] @ [t..<t']"
      by (metis less_imp_le upt_add_eq_append le_add_diff_inverse)
    then show ?thesis using merge_source by simp
  qed (auto simp: replicate_add)
qed

lemma draft_sources_compact_foldl:
  fixes src :: "content_atom list"
  shows "ordered_pieces lo (length src) (ps @ qs) \<Longrightarrow> successively (\<lambda>p q. \<not> mergeable p q) ps \<Longrightarrow>
   draft_sources (foldl compactPieces_step ps qs) = draft_sources (ps @ qs)"
proof (induction qs arbitrary: ps)
  case (Cons q qs)
  have one: "ordered_pieces lo (length src) (ps @ [q])"
    using Cons.prems(1) by (metis append.assoc append_Cons append_Nil ordered_pieces_append)
  note step = compactPieces_step_inv [OF one Cons.prems(2)]
  have "ordered_pieces lo (length src) (compactPieces_step ps q @ qs)"
    using step Cons.prems(1) ordered_pieces_append [of lo "length src" "ps @ [q]" qs]
    by (auto simp: ordered_pieces_append)
  then show ?case
    using Cons.IH [of "compactPieces_step ps q"] step draft_sources_compact_step [OF one] by simp
qed simp

lemma draft_sources_compact:
  fixes src :: "content_atom list"
  shows "ordered_pieces lo (length src) ps \<Longrightarrow> draft_sources (compactPieces ps) = draft_sources ps"
  using draft_sources_compact_foldl [of lo src "[]" ps] by (simp add: compactPieces_def)

subsection \<open>What the first loops compute\<close>

lemma visible_foldl:
  "f \<le> t \<Longrightarrow> foldl (\<lambda>(shown, v) index. (shown(index \<mapsto> v), v + 1)) (V, vis) [f..<t]
     = ((\<lambda>x. if f \<le> x \<and> x < t then Some (vis + (x - f)) else V x), vis + (t - f))"
proof (induction "t - f" arbitrary: t)
  case (Suc k)
  then obtain u where t: "t = Suc u" "f \<le> u" "k = u - f"
    by (cases t) auto
  show ?case
    using Suc.hyps(1) [OF t(3,2)] t(1,2) by (auto simp: fun_eq_iff Suc_diff_le)
qed (auto simp: fun_eq_iff)

lemma visible_loop_props:
  assumes "ordered_pieces lo len ps" and "\<forall>x \<in> set (somes pre). x < lo"
    and "\<forall>x v. V x = Some v \<longleftrightarrow> v < length pre \<and> pre ! v = Some x"
  defines "D \<equiv> pre @ draft_sources ps"
  shows "\<exists>V'. visible_loop ps V IV (length pre)
       = (V', IV @ map snd (authored ps lo (length pre)), length D)
     \<and> (\<forall>x v. V' x = Some v \<longleftrightarrow> v < length D \<and> D ! v = Some x)"
  using assms(1-3) unfolding D_def
proof (induction lo len ps arbitrary: pre V IV rule: ordered_pieces.induct)
  case (2 lo len f t ps)
  let ?V = "\<lambda>x. if f \<le> x \<and> x < t then Some (length pre + (x - f)) else V x"
  let ?pre = "pre @ map Some [f..<t]"
  have ft: "lo \<le> f" "f < t" using "2.prems"(1) by auto
  have low: "x < f" if "pre ! v = Some x" "v < length pre" for x v
    using that "2.prems"(2) ft by (metis nth_mem order_less_le_trans set_somes)
  have V: "\<forall>x v. ?V x = Some v \<longleftrightarrow> v < length ?pre \<and> ?pre ! v = Some x"
    using "2.prems"(3) low by (force simp: nth_append)
  have "\<forall>x \<in> set (somes ?pre). x < t"
    using "2.prems"(2) ft by auto
  then have "\<exists>V'. visible_loop ps ?V IV (length ?pre)
       = (V', IV @ map snd (authored ps t (length ?pre)), length (?pre @ draft_sources ps))
     \<and> (\<forall>x v. V' x = Some v \<longleftrightarrow> v < length (?pre @ draft_sources ps) \<and> (?pre @ draft_sources ps) ! v = Some x)"
    using "2.IH" [OF _ _ V] "2.prems"(1) by simp
  then show ?case
    using visible_foldl [of f t V "length pre"] ft by simp
next
  case (3 lo len atoms ps)
  let ?pre = "pre @ replicate (length atoms) None"
  have V: "\<forall>x v. V x = Some v \<longleftrightarrow> v < length ?pre \<and> ?pre ! v = Some x"
    using "3.prems"(3) by (auto simp: nth_append)
  show ?case
    using "3.IH" [of ?pre V "IV @ [length pre..<length pre + length atoms]"] "3.prems"(1,2) V
    by (simp add: map_snd_zip_take)
qed simp

lemma authored_changes:
  "concat (map (\<lambda>c. map (Pair (ch_from c)) (ch_insert c)) (bufferChanges_loop len ps lo ins))
     = map (Pair lo) ins @ map fst (authored ps lo vis)"
  by (induction len ps lo ins arbitrary: vis rule: bufferChanges_loop.induct) auto


text \<open>
  An authored atom: shown where the draft has no source atom, behind exactly the source
  atoms before its anchor; the authored atoms are listed in the order they are shown.
\<close>

lemma authored_props:
  assumes "ordered_pieces lo (length src) ps" and "\<forall>x \<in> set (somes pre). x < lo"
    and "length preatoms = length pre"
    and "((f, a), v) \<in> set (authored ps lo (length pre))"
  defines "D \<equiv> pre @ draft_sources ps" and "B \<equiv> preatoms @ concat (map (piece_atoms src) ps)"
  shows "lo \<le> f \<and> f \<le> length src \<and> length pre \<le> v \<and> v < length D \<and> D ! v = None \<and> B ! v = a \<and> scalar_atom a
     \<and> (\<forall>w x. w < length D \<longrightarrow> D ! w = Some x \<longrightarrow> (w < v \<longleftrightarrow> x < f))"
  using assms(1-4) unfolding D_def B_def
proof (induction lo "length src" ps arbitrary: pre preatoms rule: ordered_pieces.induct)
  case (2 lo f' t ps)
  let ?pre = "pre @ map Some [f'..<t]" and ?preatoms = "preatoms @ take (t - f') (drop f' src)"
  have bounds: "lo \<le> f'" "f' < t" "t \<le> length src" "ordered_pieces t (length src) ps"
    using "2.prems"(1) by auto
  have eqs: "pre @ draft_sources (SourcePiece f' t # ps) = ?pre @ draft_sources ps"
    "preatoms @ concat (map (piece_atoms src) (SourcePiece f' t # ps))
       = ?preatoms @ concat (map (piece_atoms src) ps)"
    by simp_all
  have "\<forall>x \<in> set (somes ?pre). x < t" "length ?preatoms = length ?pre"
      "((f, a), v) \<in> set (authored ps t (length ?pre))"
    using "2.prems"(2-4) bounds by auto
  note IH = "2.hyps" [OF bounds(4) this]
  have "length pre \<le> length ?pre" by simp
  then show ?case
    unfolding eqs using IH bounds(1,2) by (meson order_trans less_imp_le)
next
  case (3 lo atoms ps)
  let ?pre = "pre @ replicate (length atoms) None"
  show ?case
  proof (cases "((f, a), v) \<in> set (authored ps lo (length ?pre))")
    case True
    then show ?thesis
      using "3.hyps" [of ?pre "preatoms @ atoms"] "3.prems" by auto
  next
    case False
    then obtain i where i: "i < length atoms" "f = lo" "a = atoms ! i" "v = length pre + i"
      using "3.prems"(4) by (auto simp: set_zip)
    have later: "lo \<le> x" if "draft_sources ps ! w = Some x" "w < length (draft_sources ps)" for x w
      using draft_sources_sorted [of lo "length src" ps] "3.prems"(1) that
      by (metis nth_mem ordered_pieces.simps(3) set_somes)
    have early: "x < lo" if "pre ! w = Some x" "w < length pre" for x w
      using "3.prems"(2) that by (metis nth_mem set_somes)
    have "w < v \<longleftrightarrow> x < f" if "w < length (pre @ draft_sources (InsertPiece atoms # ps))"
        "(pre @ draft_sources (InsertPiece atoms # ps)) ! w = Some x" for w x
    proof -
      have "w < length pre \<or> length pre + length atoms \<le> w"
        using that by (force simp: nth_append split: if_splits)
      then show ?thesis
      proof
        assume "w < length pre"
        then show ?thesis using that i(1,2,4) early [of w x] by (simp add: nth_append)
      next
        assume far: "length pre + length atoms \<le> w"
        then have "w - (length pre + length atoms) < length (draft_sources ps)"
          "draft_sources ps ! (w - (length pre + length atoms)) = Some x"
          using that by (auto simp: nth_append split: if_splits)
        then show ?thesis using far i(1,2,4) later by fastforce
      qed
    qed
    moreover have "scalar_atom a" "lo \<le> length src"
      using "3.prems"(1) i(1,3) by (auto simp: list_all_length dest: ordered_pieces_le)
    ultimately show ?thesis
      using i "3.prems"(3) by (simp add: nth_append)
  qed
qed simp

lemma authored_bounds:
  "ordered_pieces lo len ps \<Longrightarrow> ((f, a), v) \<in> set (authored ps lo vis) \<Longrightarrow> lo \<le> f \<and> vis \<le> v"
  by (induction lo len ps arbitrary: vis rule: ordered_pieces.induct) (fastforce simp: set_zip)+

lemma authored_sorted:
  "ordered_pieces lo len ps \<Longrightarrow>
   sorted_wrt (\<lambda>e e'. snd e < snd e' \<and> fst (fst e) \<le> fst (fst e')) (authored ps lo vis)"
proof (induction lo len ps arbitrary: vis rule: ordered_pieces.induct)
  case (3 lo len atoms ps)
  have "sorted_wrt (\<lambda>e e'. snd e < snd e' \<and> fst (fst e) \<le> fst (fst e'))
      (zip (map (Pair lo) atoms) [vis..<vis + length atoms])"
    by (auto simp: sorted_wrt_iff_nth_less)
  moreover have "snd x < snd y \<and> fst (fst x) \<le> fst (fst y)"
    if "x \<in> set (zip (map (Pair lo) atoms) [vis..<vis + length atoms])"
      and "y \<in> set (authored ps lo (vis + length atoms))" for x y
    using that authored_bounds [of lo len ps "fst (fst y)" "snd (fst y)" "snd y" "vis + length atoms"]
      "3.prems" by (auto simp: set_zip)
  ultimately show ?case
    using "3.IH" "3.prems" by (simp add: sorted_wrt_append)
qed auto

lemma authored_all:
  assumes "ordered_pieces lo len ps" and "v < length (draft_sources ps)" "draft_sources ps ! v = None"
  shows "vis + v \<in> set (map snd (authored ps lo vis))"
  using assms
proof (induction lo len ps arbitrary: v vis rule: ordered_pieces.induct)
  case (2 lo len f t ps)
  then have "\<not> v < t - f" by (auto simp: nth_append)
  then show ?case
    using "2.IH" [of "v - (t - f)" "vis + (t - f)"] "2.prems" by (simp add: nth_append)
next
  case (3 lo len atoms ps)
  show ?case
  proof (cases "v < length atoms")
    case True
    then show ?thesis by (simp add: map_snd_zip_take)
  next
    case False
    then show ?thesis
      using "3.IH" [of "v - length atoms" "vis + length atoms"] "3.prems" by (simp add: nth_append)
  qed
qed simp

text \<open>The authored atoms a position collects.\<close>

definition landing ::
  "content_range_change list \<Rightarrow> ((nat \<times> content_atom) \<times> nat) list \<Rightarrow> int \<Rightarrow> ((nat \<times> content_atom) \<times> nat) list" where
  "landing mapping entries at =
     filter (\<lambda>(p, v). mapContentPosition (int (fst p)) mapping After = at) entries"

definition add_landing ::
  "(content_atom list \<times> nat list) option \<Rightarrow> ((nat \<times> content_atom) \<times> nat) list \<Rightarrow>
   (content_atom list \<times> nat list) option" where
  "add_landing previous entries =
     (if entries = [] then previous
      else case previous of
          None \<Rightarrow> Some (map (snd \<circ> fst) entries, map snd entries)
        | Some (atoms, origins) \<Rightarrow> Some (atoms @ map (snd \<circ> fst) entries, origins @ map snd entries))"

lemma add_landing_append:
  "add_landing previous (xs @ ys) = add_landing (add_landing previous xs) ys"
  by (auto simp: add_landing_def split: option.splits)

lemma landing_append [simp]: "landing mapping (xs @ ys) at = landing mapping xs at @ landing mapping ys at"
  by (simp add: landing_def)

lemma landing_same:
  "length vs = length atoms \<Longrightarrow> landing mapping (zip (map (Pair f) atoms) vs) at =
     (if mapContentPosition (int f) mapping After = at then zip (map (Pair f) atoms) vs else [])"
  unfolding landing_def
  by (induction vs atoms rule: list_induct2) auto

lemma insertions_loop_eq:
  assumes "length entries = length (drop offset IV)" and "map snd entries = drop offset IV"
    and "map fst entries = concat (map (\<lambda>c. map (Pair (ch_from c)) (ch_insert c)) changes)"
  shows "insertions_loop mapping IV changes offset ins at = add_landing (ins at) (landing mapping entries at)"
  using assms
proof (induction changes arbitrary: offset ins entries)
  case Nil
  then show ?case by (simp add: landing_def add_landing_def)
next
  case (Cons change changes)
  let ?n = "length (ch_insert change)"
  show ?case
  proof (cases "ch_insert change = []")
    case True
    then show ?thesis using Cons.IH [of entries offset ins] Cons.prems by simp
  next
    case False
    define here rest where "here = take ?n entries" and "rest = drop ?n entries"
    have n: "?n \<le> length entries"
      using arg_cong [OF Cons.prems(3), of length] by simp
    have vs: "map snd here = take ?n (drop offset IV)" "map snd rest = drop (offset + ?n) IV"
      using Cons.prems(2) by (simp_all add: here_def rest_def flip: take_map drop_map) (simp add: add.commute)
    have ps: "map fst here = map (Pair (ch_from change)) (ch_insert change)"
      "map fst rest = concat (map (\<lambda>c. map (Pair (ch_from c)) (ch_insert c)) changes)"
      using Cons.prems(3) n by (simp_all add: here_def rest_def flip: take_map drop_map)
    have here: "here = zip (map (Pair (ch_from change)) (ch_insert change)) (take ?n (drop offset IV))"
      by (metis ps(1) vs(1) zip_map_fst_snd)
    let ?at = "mapContentPosition (int (ch_from change)) mapping After"
    have step: "landing mapping here at = (if ?at = at then here else [])" for at
      unfolding here using Cons.prems(1) n by (intro landing_same) simp
    have entries: "entries = here @ rest" by (simp add: here_def rest_def)
    have "map snd (map fst here) = ch_insert change"
      unfolding ps(1) by (simp add: comp_def)
    then have atoms: "map (snd \<circ> fst) here = ch_insert change" and ne: "here \<noteq> []"
      using False by auto
    have slice: "js_slice IV (int offset) (int (offset + ?n)) = map snd here"
      using vs(1) by (simp only: js_slice_nat diff_add_inverse)
    obtain as os where prev: "(case ins ?at of Some previous \<Rightarrow> previous | None \<Rightarrow> ([], [])) = (as, os)"
      by fastforce
    define ins' where "ins' = ins(?at \<mapsto> (as @ ch_insert change, os @ map snd here))"
    have run: "insertions_loop mapping IV (change # changes) offset ins
        = insertions_loop mapping IV changes (offset + ?n) ins'"
      using False slice prev by (simp only: insertions_loop.simps Let_def prod.case ins'_def length_0_conv if_False)
    have "ins' at = add_landing (ins at) (landing mapping here at)"
      using step [of at] ne atoms prev by (auto simp: ins'_def add_landing_def split: option.splits)
    moreover have "insertions_loop mapping IV changes (offset + ?n) ins' at
        = add_landing (ins' at) (landing mapping rest at)"
      using vs(2) ps(2) by (intro Cons.IH) (metis length_map)+
    ultimately show ?thesis
      by (simp only: run entries landing_append add_landing_append)
  qed
qed


subsection \<open>What the last loop computes\<close>

text \<open>
  The new draft atom by atom: its index in the new source or \<open>None\<close> for an authored one,
  and where the old draft showed it or \<open>None\<close> for an atom that arrived.
\<close>

fun rebase_entries ::
  "(nat \<Rightarrow> nat list) \<Rightarrow> (nat \<rightharpoonup> nat) \<Rightarrow> nat option list \<Rightarrow> nat \<Rightarrow> (nat option \<times> nat option) list" where
  "rebase_entries shown V [] index = map (\<lambda>v. (None, Some v)) (shown index)"
| "rebase_entries shown V (origin # origins) index =
     map (\<lambda>v. (None, Some v)) (shown index)
     @ (case origin of
          None \<Rightarrow> [(Some index, None)]
        | Some x \<Rightarrow> (case V x of None \<Rightarrow> [] | Some v \<Rightarrow> [(Some index, Some v)]))
     @ rebase_entries shown V origins (index + 1)"

definition insertions_show ::
  "insertions \<Rightarrow> (nat \<Rightarrow> nat list) \<Rightarrow> content_atom list \<Rightarrow> bool" where
  "insertions_show insertions shown atoms \<longleftrightarrow>
     (\<forall>i. case insertions (int i) of
        None \<Rightarrow> shown i = []
      | Some (as, os) \<Rightarrow> os = shown i \<and> os \<noteq> [] \<and> as = map ((!) atoms) os \<and> list_all scalar_atom as)"

definition entry_atom ::
  "content_atom list \<Rightarrow> content_atom list \<Rightarrow> nat option \<times> nat option \<Rightarrow> content_atom" where
  "entry_atom src atoms e = (case fst e of Some j \<Rightarrow> src ! j | None \<Rightarrow> atoms ! the (snd e))"

lemma insertion_at_props:
  assumes "insertions_show insertions shown atoms" and "insertion_at insertions index = (ps, vs)"
    and "index \<le> len"
  shows "vs = map Some (shown index)" "draft_sources ps = map (\<lambda>v. None) (shown index)"
    "ordered_pieces index len ps" "pieces_end index ps = index"
    "concat (map (piece_atoms src) ps) = map ((!) atoms) (shown index)"
  using assms(1) [unfolded insertions_show_def, rule_format, of index] assms(2,3)
  by (auto simp: insertion_at_def map_replicate_const split: option.splits)

lemma rebase_loop_props:
  assumes "insertions_show insertions shown atoms"
    and "rebase_loop insertions V origins index = (ps, vs)"
    and "length src = index + length origins"
  shows "vs = map snd (rebase_entries shown V origins index)
     \<and> draft_sources ps = map fst (rebase_entries shown V origins index)
     \<and> ordered_pieces index (length src) ps
     \<and> concat (map (piece_atoms src) ps) = map (entry_atom src atoms) (rebase_entries shown V origins index)"
  using assms(2,3)
proof (induction origins arbitrary: index ps vs)
  case Nil
  then have run: "insertion_at insertions index = (ps, vs)" by simp
  show ?case
    using insertion_at_props [OF assms(1) run, of "length src"] Nil.prems(2)
    by (simp add: entry_atom_def comp_def)
next
  case (Cons origin origins)
  obtain ips ivs where ins: "insertion_at insertions index = (ips, ivs)" by fastforce
  obtain rps rvs where rest: "rebase_loop insertions V origins (index + 1) = (rps, rvs)" by fastforce
  note insp = insertion_at_props [OF assms(1) ins, of "length src"]
  note IH = Cons.IH [OF rest]
  have le: "index < length src" using Cons.prems(2) by simp
  have one: "take 1 (drop index src) = [src ! index]"
    using le by (simp add: take_Suc_conv_app_nth flip: Cons_nth_drop_Suc)
  have ord: "ordered_pieces index (length src) rps"
    using IH Cons.prems(2) by (auto intro: ordered_pieces_weaken [of "index + 1"])
  show ?case
  proof (cases "\<exists>x. origin = Some x \<and> V x = None")
    case True
    then have "ps = ips @ rps" "vs = ivs @ rvs"
      using Cons.prems(1) ins rest by auto
    then show ?thesis
      using True insp IH ord le Cons.prems(2)
      by (auto simp: ordered_pieces_append entry_atom_def comp_def)
  next
    case False
    define b where "b = (case origin of None \<Rightarrow> None | Some x \<Rightarrow> V x)"
    have "ps = ips @ SourcePiece index (index + 1) # rps" "vs = ivs @ b # rvs"
      using False Cons.prems(1) ins rest by (auto simp: b_def split: option.splits)
    moreover have "rebase_entries shown V (origin # origins) index
        = map (\<lambda>v. (None, Some v)) (shown index) @ (Some index, b) # rebase_entries shown V origins (index + 1)"
      using False by (auto simp: b_def split: option.splits)
    ultimately show ?thesis
      using insp IH le one Cons.prems(2)
      by (simp add: ordered_pieces_append entry_atom_def comp_def)
  qed
qed

lemma set_rebase_entries:
  "(a, b) \<in> set (rebase_entries shown V origins index) \<longleftrightarrow>
     (\<exists>i v. (index \<le> i \<and> i \<le> index + length origins) \<and> v \<in> set (shown i) \<and> a = None \<and> b = Some v)
   \<or> (\<exists>j < length origins. a = Some (index + j) \<and>
        (case origins ! j of None \<Rightarrow> b = None | Some x \<Rightarrow> \<exists>v. V x = Some v \<and> b = Some v))"
  (is "?l origins index \<longleftrightarrow> ?ins origins index \<or> ?src origins index")
proof (induction origins arbitrary: index)
  case (Cons origin origins)
  have ins: "?ins (origin # origins) index \<longleftrightarrow>
      (a = None \<and> (\<exists>v \<in> set (shown index). b = Some v)) \<or> ?ins origins (index + 1)"
  proof -
    have "(index \<le> i \<and> i \<le> index + length (origin # origins)) \<longleftrightarrow>
        i = index \<or> (index + 1 \<le> i \<and> i \<le> index + 1 + length origins)" for i
      by auto
    then show ?thesis by (simp only:) blast
  qed
  have src: "?src (origin # origins) index \<longleftrightarrow>
      (a = Some index \<and> (case origin of None \<Rightarrow> b = None | Some x \<Rightarrow> \<exists>v. V x = Some v \<and> b = Some v))
      \<or> ?src origins (index + 1)"
    by (auto simp: less_Suc_eq_0_disj)
  show ?case
    unfolding ins src using Cons.IH [of "index + 1"]
    by (auto split: option.splits)
qed (auto simp: le_antisym)

text \<open>The atoms both drafts show come in the same order in both.\<close>

lemma rebase_entries_sorted:
  assumes "\<And>i. sorted_wrt (<) (shown i)"
    and "\<And>i i' v v'. i < i' \<Longrightarrow> v \<in> set (shown i) \<Longrightarrow> v' \<in> set (shown i') \<Longrightarrow> v < v'"
    and "\<And>i j v x w. j < length origins \<Longrightarrow> origins ! j = Some x \<Longrightarrow> V x = Some w \<Longrightarrow> v \<in> set (shown i) \<Longrightarrow>
      (if i \<le> index + j then v < w else w < v)"
    and "\<And>j j' x x' w w'. j < j' \<Longrightarrow> j' < length origins \<Longrightarrow> origins ! j = Some x \<Longrightarrow> V x = Some w \<Longrightarrow>
      origins ! j' = Some x' \<Longrightarrow> V x' = Some w' \<Longrightarrow> w < w'"
  shows "sorted_wrt (<) (somes (map snd (rebase_entries shown V origins index)))"
  using assms(3,4)
proof (induction origins arbitrary: index)
  case Nil
  then show ?case using assms(1) by (simp add: comp_def)
next
  case (Cons origin origins)
  let ?rest = "rebase_entries shown V origins (index + 1)"
  have IH: "sorted_wrt (<) (somes (map snd ?rest))"
  proof (rule Cons.IH)
    show "if i \<le> index + 1 + j then v < w else w < v"
      if "j < length origins" "origins ! j = Some x" "V x = Some w" "v \<in> set (shown i)" for i j v x w
      using Cons.prems(1) [of "Suc j" x w v i] that by simp
    show "w < w'" if "j < j'" "j' < length origins" "origins ! j = Some x" "V x = Some w"
      "origins ! j' = Some x'" "V x' = Some w'" for j j' x x' w w'
      using Cons.prems(2) [of "Suc j" "Suc j'" x w x' w'] that by simp
  qed
  have later: "v < w" if v: "v \<in> set (shown index)" and w: "w \<in> set (somes (map snd ?rest))" for v w
  proof -
    obtain a where "(a, Some w) \<in> set ?rest"
      using w by (auto simp: set_somes)
    then consider i where "index + 1 \<le> i" "w \<in> set (shown i)"
      | j x where "j < length origins" "origins ! j = Some x" "V x = Some w"
      unfolding set_rebase_entries by (auto split: option.splits)
    then show ?thesis
    proof cases
      case (1 i)
      then show ?thesis using v assms(2) [of index i v w] by simp
    next
      case (2 j x)
      then show ?thesis using v Cons.prems(1) [of "Suc j" x w v index] by simp
    qed
  qed
  have kept: "v < w" if x: "origin = Some x" "V x = Some v" and w: "w \<in> set (somes (map snd ?rest))" for v w x
  proof -
    obtain a where "(a, Some w) \<in> set ?rest"
      using w by (auto simp: set_somes)
    then consider i where "index + 1 \<le> i" "w \<in> set (shown i)"
      | j y where "j < length origins" "origins ! j = Some y" "V y = Some w"
      unfolding set_rebase_entries by (auto split: option.splits)
    then show ?thesis
    proof cases
      case (1 i)
      then show ?thesis using x Cons.prems(1) [of 0 x v w i] by simp
    next
      case (2 j y)
      then show ?thesis using x Cons.prems(2) [of 0 "Suc j" x v y w] by simp
    qed
  qed
  have here: "v < w" if "origin = Some x" "V x = Some w" "v \<in> set (shown index)" for v w x
    using that Cons.prems(1) [of 0 x w v index] by simp
  show ?case
    using IH later kept here assms(1) [of index]
    by (auto simp: comp_def sorted_wrt_append split: option.splits)
qed


subsection \<open>A rebased draft, atom by atom\<close>

definition rebased ::
  "content_buffer \<Rightarrow> content_atom list \<Rightarrow> nat option list \<Rightarrow> (nat option \<times> nat option) list \<Rightarrow>
   content_buffer \<Rightarrow> bool" where
  "rebased old src origins entries new \<longleftrightarrow>
     buffer_inv new \<and> source new = src
   \<and> draft_sources (pieces new) = map fst entries
   \<and> bufferAtoms new = map (entry_atom src (bufferAtoms old)) entries
   \<and> sorted_wrt (<) (somes (map snd entries))
   \<and> (\<forall>a b. (a, b) \<in> set entries \<longleftrightarrow>
        (a = None \<and> (\<exists>v < length (bufferAtoms old). draft_sources (pieces old) ! v = None \<and> b = Some v))
      \<or> (\<exists>j < length src. a = Some j \<and>
           (case origins ! j of
              None \<Rightarrow> b = None
            | Some x \<Rightarrow> \<exists>v < length (bufferAtoms old). draft_sources (pieces old) ! v = Some x \<and> b = Some v)))"

definition shown_at :: "content_range_change list \<Rightarrow> piece list \<Rightarrow> nat \<Rightarrow> nat list" where
  "shown_at mapping ps i = map snd (landing mapping (authored ps 0 0) (int i))"

lemma in_shown_at:
  "v \<in> set (shown_at mapping ps i) \<longleftrightarrow>
     (\<exists>f a. ((f, a), v) \<in> set (authored ps 0 0) \<and> mapContentPosition (int f) mapping After = int i)"
  by (force simp: shown_at_def landing_def)

lemma authored_atom:
  assumes "buffer_inv buffer" and "((f, a), v) \<in> set (authored (pieces buffer) 0 0)"
  shows "f \<le> length (source buffer)" "v < length (bufferAtoms buffer)"
    "draft_sources (pieces buffer) ! v = None" "bufferAtoms buffer ! v = a" "scalar_atom a"
    "w < length (bufferAtoms buffer) \<Longrightarrow> draft_sources (pieces buffer) ! w = Some x \<Longrightarrow> w < v \<longleftrightarrow> x < f"
proof -
  have ord: "ordered_pieces 0 (length (source buffer)) (pieces buffer)"
    using assms(1) by (simp add: buffer_inv_def)
  have len: "length (draft_sources (pieces buffer)) = length (bufferAtoms buffer)"
    using length_bufferAtoms [OF assms(1)] by (simp add: length_draft_sources)
  note props = authored_props [OF ord, of "[]" "[]", simplified, OF assms(2)]
  then show "f \<le> length (source buffer)" "v < length (bufferAtoms buffer)"
    "draft_sources (pieces buffer) ! v = None" "bufferAtoms buffer ! v = a" "scalar_atom a"
    "w < length (bufferAtoms buffer) \<Longrightarrow> draft_sources (pieces buffer) ! w = Some x \<Longrightarrow> w < v \<longleftrightarrow> x < f"
    using len by (auto simp: bufferAtoms_def)
qed

lemma insertions_show_buffer:
  assumes "buffer_inv buffer"
  shows "insertions_show
      (insertions_loop mapping (map snd (authored (pieces buffer) 0 0)) (bufferChanges buffer) 0 Map.empty)
      (shown_at mapping (pieces buffer)) (bufferAtoms buffer)"
proof -
  let ?A = "authored (pieces buffer) 0 0"
  have "insertions_loop mapping (map snd ?A) (bufferChanges buffer) 0 Map.empty at
      = add_landing None (landing mapping ?A at)" for at
    using authored_changes [of "length (source buffer)" "pieces buffer" 0 "[]" 0]
    by (subst insertions_loop_eq [where entries = ?A]) (simp_all add: bufferChanges_def)
  moreover have "map (snd \<circ> fst) (landing mapping ?A at)
      = map ((!) (bufferAtoms buffer)) (map snd (landing mapping ?A at))" for at
    using authored_atom(4) [OF assms] by (auto simp: landing_def)
  moreover have "list_all scalar_atom (map (snd \<circ> fst) (landing mapping ?A at))" for at
    using authored_atom(5) [OF assms] by (auto simp: landing_def list_all_iff)
  ultimately show ?thesis
    by (auto simp: insertions_show_def add_landing_def shown_at_def)
qed

lemma shown_at_order:
  assumes "buffer_inv buffer" and "map_origins mapping origins0 = Inr (Some origins)"
  shows "sorted_wrt (<) (shown_at mapping (pieces buffer) i)"
    and "i < i' \<Longrightarrow> v \<in> set (shown_at mapping (pieces buffer) i) \<Longrightarrow>
      v' \<in> set (shown_at mapping (pieces buffer) i') \<Longrightarrow> v < v'"
proof -
  let ?A = "authored (pieces buffer) 0 0"
  have sorted: "sorted_wrt (\<lambda>e e'. snd e < snd e' \<and> fst (fst e) \<le> fst (fst e')) ?A"
    using assms(1) authored_sorted by (auto simp: buffer_inv_def)
  have "sorted_wrt (\<lambda>e e'. snd e < snd e') (landing mapping ?A (int i))"
    using sorted unfolding landing_def
    by (intro sorted_wrt_filter) (auto elim: sorted_wrt_mono_rel [rotated])
  then show "sorted_wrt (<) (shown_at mapping (pieces buffer) i)"
    by (simp add: shown_at_def sorted_wrt_map)
  show "v < v'" if "i < i'" and v: "v \<in> set (shown_at mapping (pieces buffer) i)"
    and v': "v' \<in> set (shown_at mapping (pieces buffer) i')"
  proof -
    obtain f a where fa: "((f, a), v) \<in> set ?A" "mapContentPosition (int f) mapping After = int i"
      using v by (auto simp: in_shown_at)
    obtain f' a' where fa': "((f', a'), v') \<in> set ?A" "mapContentPosition (int f') mapping After = int i'"
      using v' by (auto simp: in_shown_at)
    have "f < f'"
      using mapContentPosition_mono [OF assms(2), of "int f'" "int f"] fa(2) fa'(2) \<open>i < i'\<close> by linarith
    obtain m n where mn: "m < length ?A" "?A ! m = ((f, a), v)" "n < length ?A" "?A ! n = ((f', a'), v')"
      using fa(1) fa'(1) by (metis in_set_conv_nth)
    have "m \<noteq> n" "\<not> n < m"
      using mn \<open>f < f'\<close> sorted_wrt_nth_less [OF sorted, of n m] by auto
    then show "v < v'"
      using mn sorted_wrt_nth_less [OF sorted, of m n] by simp
  qed
qed

lemma length_draft: "buffer_inv buffer \<Longrightarrow> length (draft_sources (pieces buffer)) = length (bufferAtoms buffer)"
  using length_bufferAtoms by (simp add: length_draft_sources)

lemma shown_at_authored:
  assumes inv: "buffer_inv buffer"
    and origins: "map_origins mapping (map Some [0..<length (source buffer)]) = Inr (Some origins)"
  shows "(\<exists>i v. (0 \<le> i \<and> i \<le> 0 + length origins) \<and> v \<in> set (shown_at mapping (pieces buffer) i)
            \<and> a = None \<and> b = Some v)
     \<longleftrightarrow> a = None \<and> (\<exists>v < length (bufferAtoms buffer). draft_sources (pieces buffer) ! v = None \<and> b = Some v)"
    (is "?l \<longleftrightarrow> ?r")
proof
  assume ?l
  then show ?r
    using authored_atom [OF inv] by (fastforce simp: in_shown_at)
next
  assume ?r
  then obtain v where v: "a = None" "v < length (bufferAtoms buffer)"
    "draft_sources (pieces buffer) ! v = None" "b = Some v" by blast
  moreover have ord: "ordered_pieces 0 (length (source buffer)) (pieces buffer)"
    using inv by (simp add: buffer_inv_def)
  ultimately obtain f at where "((f, at), v) \<in> set (authored (pieces buffer) 0 0)"
    using authored_all [OF ord, of v 0] length_draft [OF inv] by auto
  moreover from this have "f \<le> length (source buffer)"
    using authored_atom(1) [OF inv] by auto
  ultimately have "v \<in> set (shown_at mapping (pieces buffer) (nat (mapContentPosition (int f) mapping After)))"
      "nat (mapContentPosition (int f) mapping After) \<le> length origins"
    using mapContentPosition_bounds [OF origins, of "int f"] by (auto simp: in_shown_at)
  then show ?l using v by auto
qed

text \<open>The table of shown source atoms that the first loop builds.\<close>

definition shows_sources :: "content_buffer \<Rightarrow> (nat \<rightharpoonup> nat) \<Rightarrow> bool" where
  "shows_sources buffer V \<longleftrightarrow>
     (\<forall>x v. V x = Some v \<longleftrightarrow> v < length (bufferAtoms buffer) \<and> draft_sources (pieces buffer) ! v = Some x)"

lemma visible_loop_buffer:
  assumes "buffer_inv buffer"
  obtains V where "visible_loop (pieces buffer) Map.empty [] 0
      = (V, map snd (authored (pieces buffer) 0 0), length (bufferAtoms buffer))"
    and "shows_sources buffer V"
proof -
  have ord: "ordered_pieces 0 (length (source buffer)) (pieces buffer)"
    using assms by (simp add: buffer_inv_def)
  show ?thesis
    using visible_loop_props [OF ord, of "[]" Map.empty "[]"] length_draft [OF assms] that
    by (auto simp: shows_sources_def)
qed

lemma rebase_entries_buffer_set:
  assumes inv: "buffer_inv buffer" and V: "shows_sources buffer V"
    and origins: "map_origins mapping (map Some [0..<length (source buffer)]) = Inr (Some origins)"
  shows "(a, b) \<in> set (rebase_entries (shown_at mapping (pieces buffer)) V origins 0) \<longleftrightarrow>
        (a = None \<and> (\<exists>v < length (bufferAtoms buffer). draft_sources (pieces buffer) ! v = None \<and> b = Some v))
      \<or> (\<exists>j < length origins. a = Some j \<and>
           (case origins ! j of
              None \<Rightarrow> b = None
            | Some x \<Rightarrow> \<exists>v < length (bufferAtoms buffer). draft_sources (pieces buffer) ! v = Some x \<and> b = Some v))"
proof -
  have "(\<exists>v. V x = Some v \<and> b = Some v) \<longleftrightarrow>
      (\<exists>v < length (bufferAtoms buffer). draft_sources (pieces buffer) ! v = Some x \<and> b = Some v)" for x
    using V by (auto simp: shows_sources_def)
  then show ?thesis
    unfolding set_rebase_entries shown_at_authored [OF inv origins] by (simp cong: option.case_cong)
qed

lemma rebase_entries_buffer_sorted:
  assumes inv: "buffer_inv buffer" and V: "shows_sources buffer V"
    and origins: "map_origins mapping (map Some [0..<length (source buffer)]) = Inr (Some origins)"
  shows "sorted_wrt (<) (somes (map snd (rebase_entries (shown_at mapping (pieces buffer)) V origins 0)))"
proof (rule rebase_entries_sorted)
  let ?D = "draft_sources (pieces buffer)"
  show "sorted_wrt (<) (shown_at mapping (pieces buffer) i)" for i
    by (rule shown_at_order(1) [OF inv origins])
  show "i < i' \<Longrightarrow> v \<in> set (shown_at mapping (pieces buffer) i) \<Longrightarrow>
      v' \<in> set (shown_at mapping (pieces buffer) i') \<Longrightarrow> v < v'" for i i' v v'
    by (rule shown_at_order(2) [OF inv origins])
  show "if i \<le> 0 + j then v < w else w < v"
    if j: "j < length origins" "origins ! j = Some x" "V x = Some w"
      and v: "v \<in> set (shown_at mapping (pieces buffer) i)" for i j v x w
  proof -
    obtain f a where fa: "((f, a), v) \<in> set (authored (pieces buffer) 0 0)"
      "mapContentPosition (int f) mapping After = int i"
      using v by (auto simp: in_shown_at)
    have w: "w < length (bufferAtoms buffer)" "?D ! w = Some x"
      using V j(3) by (auto simp: shows_sources_def)
    have "w < v \<longleftrightarrow> x < f"
      using authored_atom(6) [OF inv fa(1) w] .
    moreover have "x < f \<longleftrightarrow> j < i"
      using origin_before_position [OF origins j(1,2), of "int f"] fa(2) by simp
    moreover have "w \<noteq> v"
      using authored_atom(3) [OF inv fa(1)] w by auto
    ultimately show ?thesis by auto
  qed
  show "w < w'" if j: "j < j'" "j' < length origins" "origins ! j = Some x" "V x = Some w"
    "origins ! j' = Some x'" "V x' = Some w'" for j j' x x' w w'
  proof -
    have "sorted_wrt (<) (somes ?D)"
      using draft_sources_sorted inv by (auto simp: buffer_inv_def)
    moreover have "x < x'"
      using sorted_somes_nthD [OF map_origins_sorted(1) [OF origins]] j by blast
    moreover have "w < length ?D" "?D ! w = Some x" "w' < length ?D" "?D ! w' = Some x'"
      using V j length_draft [OF inv] by (auto simp: shows_sources_def)
    ultimately show ?thesis
      using sorted_somes_nthD [of "(<)" ?D w' w x' x] by (metis linorder_neqE_nat less_asym option.inject)
  qed
qed

lemma rebaseBuffer_core:
  assumes inv: "buffer_inv buffer" and wf: "well_formed_content content"
    and origins: "map_origins mapping (map Some [0..<length (source buffer)]) = Inr (Some origins)"
    and len: "length origins = length (contentAtoms content)"
    and agree: "origins_agree (source buffer) (contentAtoms content) origins"
  shows "\<exists>new entries.
       rebaseBuffer buffer content mapping
         = Inr (Some (new, changesFromOrigins (length (bufferAtoms buffer)) (map snd entries)))
     \<and> rebased buffer (contentAtoms content) origins entries new"
proof -
  define src ps where "src = contentAtoms content" and "ps = pieces buffer"
  obtain V where V: "visible_loop ps Map.empty [] 0 = (V, map snd (authored ps 0 0), length (bufferAtoms buffer))"
    "shows_sources buffer V"
    using visible_loop_buffer [OF inv] unfolding ps_def by blast
  define I where "I = insertions_loop mapping (map snd (authored ps 0 0)) (bufferChanges buffer) 0 Map.empty"
  have shows_ok: "insertions_show I (shown_at mapping ps) (bufferAtoms buffer)"
    using insertions_show_buffer [OF inv, of mapping] by (simp add: I_def ps_def)
  obtain ps' vs where run: "rebase_loop I V origins 0 = (ps', vs)" by fastforce
  define E where "E = rebase_entries (shown_at mapping ps) V origins 0"
  have len_src: "length src = 0 + length origins" using len by (simp add: src_def)
  note loop = rebase_loop_props [OF shows_ok run len_src, folded E_def]
  let ?new = "\<lparr>source = src, pieces = compactPieces ps'\<rparr>"
  have eq: "rebaseBuffer buffer content mapping
      = Inr (Some (?new, changesFromOrigins (length (bufferAtoms buffer)) (map snd E)))"
    using origins len agree V(1) run loop
    unfolding rebaseBuffer_def Let_def src_def [symmetric] ps_def [symmetric]
    by (simp add: I_def [symmetric])
  have "buffer_inv ?new" "draft_sources (pieces ?new) = map fst E"
      "bufferAtoms ?new = map (entry_atom src (bufferAtoms buffer)) E"
    using loop compactPieces_inv [of 0 src ps'] draft_sources_compact [of 0 src ps'] wf
    by (auto simp: buffer_inv_def src_def bufferAtoms_def)
  then have "rebased buffer src origins E ?new"
    using rebase_entries_buffer_set [OF inv V(2) origins] rebase_entries_buffer_sorted [OF inv V(2) origins]
      len_src
    unfolding rebased_def E_def ps_def by simp
  then show ?thesis
    using eq unfolding src_def by metis
qed


text \<open>A rebase that succeeds, and when it does.\<close>

lemma origins_agree_iff:
  "length origins = length new \<Longrightarrow> origins_agree old new origins \<longleftrightarrow>
     (\<forall>i x. i < length new \<longrightarrow> origins ! i = Some x \<longrightarrow> old ! x = new ! i)"
  by (auto simp: origins_agree_def list_all_length split: option.splits)

lemma rebaseBuffer_SomeE:
  assumes "buffer_inv buffer" and "well_formed_content content"
    and "rebaseBuffer buffer content mapping = Inr (Some (new, moved))"
  obtains origins entries where
    "map_origins mapping (map Some [0..<length (source buffer)]) = Inr (Some origins)"
    "length origins = length (contentAtoms content)"
    "origins_agree (source buffer) (contentAtoms content) origins"
    "moved = changesFromOrigins (length (bufferAtoms buffer)) (map snd entries)"
    "rebased buffer (contentAtoms content) origins entries new"
proof -
  obtain origins where origins: "map_origins mapping (map Some [0..<length (source buffer)]) = Inr (Some origins)"
      "length origins = length (contentAtoms content)"
      "origins_agree (source buffer) (contentAtoms content) origins"
    using assms(3) unfolding rebaseBuffer_def Let_def
    by (auto split: sum.splits option.splits if_splits)
  then show thesis
    using rebaseBuffer_core [OF assms(1,2) origins] assms(3) that by fastforce
qed

lemma rebased_nth:
  assumes "rebased old src origins entries new" and "buffer_inv old" and "i < length entries"
    and "origins_agree (source old) src origins" and "length origins = length src"
  shows "snd (entries ! i) = Some v \<Longrightarrow> v < length (bufferAtoms old) \<and> bufferAtoms new ! i = bufferAtoms old ! v"
    and "snd (entries ! i) = None \<longleftrightarrow>
      (\<exists>j < length src. draft_sources (pieces new) ! i = Some j \<and> origins ! j = None)"
proof -
  obtain a b where ab: "entries ! i = (a, b)" by fastforce
  have "(a, b) \<in> set entries" using assms(3) ab by (metis nth_mem)
  then consider (typed) v where "a = None" "v < length (bufferAtoms old)" "b = Some v"
    | (arrived) j where "j < length src" "a = Some j" "origins ! j = None" "b = None"
    | (kept) j x v where "j < length src" "a = Some j" "origins ! j = Some x"
        "v < length (bufferAtoms old)" "draft_sources (pieces old) ! v = Some x" "b = Some v"
    using assms(1) unfolding rebased_def by (fastforce split: option.splits)
  note cases = this
  have atoms: "bufferAtoms new ! i = entry_atom src (bufferAtoms old) (a, b)"
    and src: "draft_sources (pieces new) ! i = a"
    using assms(1,3) ab unfolding rebased_def by auto
  have source_atom: "bufferAtoms old ! v = source old ! x"
    if "v < length (bufferAtoms old)" "draft_sources (pieces old) ! v = Some x" for v x
    using draft_atom_nth [of 0 "source old" "pieces old" v x] that assms(2) length_draft [OF assms(2)]
    by (simp add: buffer_inv_def bufferAtoms_def)
  show "v < length (bufferAtoms old) \<and> bufferAtoms new ! i = bufferAtoms old ! v"
    if "snd (entries ! i) = Some v"
    using cases
  proof cases
    case (kept j x w)
    then show ?thesis
      using that atoms ab assms(4) source_atom [of w x] origins_agree_iff [OF assms(5)]
      by (simp add: entry_atom_def)
  qed (use that atoms ab in \<open>auto simp: entry_atom_def\<close>)
  show "snd (entries ! i) = None \<longleftrightarrow>
      (\<exists>j < length src. draft_sources (pieces new) ! i = Some j \<and> origins ! j = None)"
    using cases by cases (use src ab in auto)
qed

subsection \<open>What a draft holds\<close>

text \<open>The authored atoms of a draft, in order.\<close>

fun typed_piece :: "piece \<Rightarrow> content_atom list" where
  "typed_piece (SourcePiece from to) = []"
| "typed_piece (InsertPiece atoms) = atoms"

definition typed_atoms :: "content_buffer \<Rightarrow> content_atom list" where
  "typed_atoms buffer = concat (map typed_piece (pieces buffer))"

text \<open>The source atoms of a draft, by their index.\<close>

definition kept_indices :: "content_buffer \<Rightarrow> nat list" where
  "kept_indices buffer = somes (draft_sources (pieces buffer))"

lemma typed_pieces_zip:
  "ordered_pieces lo (length src) ps \<Longrightarrow>
   concat (map typed_piece ps)
     = map snd (filter (\<lambda>e. fst e = None) (zip (draft_sources ps) (concat (map (piece_atoms src) ps))))"
proof (induction lo "length src" ps rule: ordered_pieces.induct)
  case (2 lo f t ps)
  have "filter (\<lambda>e. fst e = None) (zip (map Some [f..<t]) (take (t - f) (drop f src))) = []"
    by (auto simp: filter_empty_conv set_zip)
  then show ?case using 2 by (auto simp: zip_append min_absorb2)
next
  case (3 lo atoms ps)
  have "map snd (filter (\<lambda>e. fst e = None) (zip (replicate (length atoms) (None :: nat option)) atoms)) = atoms"
    by (induction atoms) auto
  then show ?case using 3 by (simp add: zip_append)
qed simp

lemma typed_atoms_nth:
  assumes "buffer_inv buffer"
  shows "typed_atoms buffer = map ((!) (bufferAtoms buffer))
     (filter (\<lambda>v. draft_sources (pieces buffer) ! v = None) [0..<length (bufferAtoms buffer)])"
proof -
  have "zip (draft_sources (pieces buffer)) (bufferAtoms buffer)
      = map (\<lambda>v. (draft_sources (pieces buffer) ! v, bufferAtoms buffer ! v)) [0..<length (bufferAtoms buffer)]"
    using length_draft [OF assms] by (auto intro!: nth_equalityI)
  then show ?thesis
    using typed_pieces_zip [of 0 "source buffer" "pieces buffer"] assms
    by (simp add: typed_atoms_def buffer_inv_def bufferAtoms_def filter_map comp_def)
qed

lemma strict_sorted_eqI:
  fixes xs ys :: "nat list"
  assumes "sorted_wrt (<) xs" "sorted_wrt (<) ys" "set xs = set ys"
  shows "xs = ys"
  using assms strict_sorted_equal by blast

lemma somes_filter: "subseq (somes (filter P xs)) (somes xs)"
  by (induction xs) (auto simp: somes_def map_filter_def split: option.splits)

lemma rebased_typed:
  assumes re: "rebased old src origins entries new" and inv: "buffer_inv old"
  shows "typed_atoms new = typed_atoms old"
proof -
  let ?own = "filter (\<lambda>e. fst e = None) entries"
  have new: "buffer_inv new" "draft_sources (pieces new) = map fst entries"
    "bufferAtoms new = map (entry_atom src (bufferAtoms old)) entries"
    using re by (auto simp: rebased_def)
  have mem: "(None, b) \<in> set entries \<longleftrightarrow>
      (\<exists>v < length (bufferAtoms old). draft_sources (pieces old) ! v = None \<and> b = Some v)" for b
    using re unfolding rebased_def by blast
  have some: "map snd ?own = map Some (map (the \<circ> snd) ?own)"
    using mem by (auto simp: comp_def)
  have "zip (map fst entries) (map (entry_atom src (bufferAtoms old)) entries)
      = map (\<lambda>e. (fst e, entry_atom src (bufferAtoms old) e)) entries"
    by (induction entries) auto
  then have "typed_atoms new = map (entry_atom src (bufferAtoms old)) ?own"
    using typed_pieces_zip [of 0 "source new" "pieces new"] new
    by (simp add: typed_atoms_def buffer_inv_def bufferAtoms_def filter_map comp_def)
  also have "\<dots> = map ((!) (bufferAtoms old)) (map (the \<circ> snd) ?own)"
    by (auto simp: entry_atom_def)
  also have "map (the \<circ> snd) ?own
      = filter (\<lambda>v. draft_sources (pieces old) ! v = None) [0..<length (bufferAtoms old)]"
  proof (rule strict_sorted_eqI)
    have "subseq (somes (map snd ?own)) (somes (map snd entries))"
      by (induction entries) (auto simp: somes_def map_filter_def)
    moreover have "somes (map snd ?own) = map (the \<circ> snd) ?own"
      unfolding some by (rule somes_simps(5))
    ultimately show "sorted_wrt (<) (map (the \<circ> snd) ?own)"
      using re sorted_wrt_subseq [of "somes (map snd ?own)" "somes (map snd entries)" "(<)"]
      unfolding rebased_def by (simp only:)
    show "sorted_wrt (<) (filter (\<lambda>v. draft_sources (pieces old) ! v = None) [0..<length (bufferAtoms old)])"
      by (rule sorted_wrt_filter) simp
    show "set (map (the \<circ> snd) ?own)
        = set (filter (\<lambda>v. draft_sources (pieces old) ! v = None) [0..<length (bufferAtoms old)])"
      using mem by (force simp: image_iff)
  qed
  finally show ?thesis
    using typed_atoms_nth [OF inv] by simp
qed

lemma rebased_kept:
  assumes re: "rebased old src origins entries new" and inv: "buffer_inv old"
    and len: "length origins = length src"
  shows "kept_indices new = filter (\<lambda>j. case origins ! j of
      None \<Rightarrow> True | Some x \<Rightarrow> x \<in> set (kept_indices old)) [0..<length origins]"
proof (rule strict_sorted_eqI)
  have new: "buffer_inv new" "draft_sources (pieces new) = map fst entries"
    using re by (auto simp: rebased_def)
  show "sorted_wrt (<) (kept_indices new)"
    using draft_sources_sorted new(1) by (auto simp: buffer_inv_def kept_indices_def)
  show "sorted_wrt (<) (filter (\<lambda>j. case origins ! j of
      None \<Rightarrow> True | Some x \<Rightarrow> x \<in> set (kept_indices old)) [0..<length origins])"
    by (rule sorted_wrt_filter) simp
  have old: "x \<in> set (kept_indices old) \<longleftrightarrow>
      (\<exists>v < length (bufferAtoms old). draft_sources (pieces old) ! v = Some x)" for x
    unfolding kept_indices_def set_somes using in_set_conv_nth [of "Some x"] length_draft [OF inv] by metis
  have "j \<in> set (kept_indices new) \<longleftrightarrow> (\<exists>b. (Some j, b) \<in> set entries)" for j
    using new by (force simp: kept_indices_def set_somes image_iff)
  moreover have "(\<exists>b. (Some j, b) \<in> set entries) \<longleftrightarrow> j < length src \<and>
      (case origins ! j of None \<Rightarrow> True | Some x \<Rightarrow> x \<in> set (kept_indices old))" for j
    using re old unfolding rebased_def by (auto split: option.splits)
  ultimately show "set (kept_indices new) = set (filter (\<lambda>j. case origins ! j of
      None \<Rightarrow> True | Some x \<Rightarrow> x \<in> set (kept_indices old)) [0..<length origins])"
    using len by auto
qed


lemma untyped_sources:
  "ordered_pieces lo len ps \<Longrightarrow> concat (map typed_piece ps) = [] \<Longrightarrow>
   draft_sources ps = map Some (somes (draft_sources ps))"
  by (induction lo len ps rule: ordered_pieces.induct) auto

lemma unedited_atoms:
  assumes "buffer_inv buffer" "typed_atoms buffer = []" "kept_indices buffer = [0..<length (source buffer)]"
  shows "bufferAtoms buffer = source buffer"
proof -
  have ord: "ordered_pieces 0 (length (source buffer)) (pieces buffer)"
    using assms(1) by (simp add: buffer_inv_def)
  have sources: "draft_sources (pieces buffer) = map Some [0..<length (source buffer)]"
    using untyped_sources [OF ord] assms(2,3) by (simp add: typed_atoms_def kept_indices_def)
  then have len: "length (bufferAtoms buffer) = length (source buffer)"
    using length_draft [OF assms(1)] by simp
  show ?thesis
  proof (rule nth_equalityI [OF len])
    fix i
    assume "i < length (bufferAtoms buffer)"
    then show "bufferAtoms buffer ! i = source buffer ! i"
      using draft_atom_nth [OF ord, of i i] sources len by (simp add: bufferAtoms_def)
  qed
qed

subsection \<open>Properties\<close>

text \<open>
  C19. A rebase loses nothing it need not lose: the new draft is a well-formed draft of the
  new content, it holds every authored atom of the old draft in the same order, and of the
  new content it shows exactly the atoms that arrived with the change and the old atoms the
  old draft still showed. So a local deletion removes only atoms it observed, and an
  insertion that arrives inside a locally deleted range survives.
\<close>

theorem rebaseBuffer_keeps_both:
  assumes "buffer_inv buffer" and "well_formed_content content"
    and "rebaseBuffer buffer content mapping = Inr (Some (new, moved))"
  shows "\<exists>origins. map_origins mapping (map Some [0..<length (source buffer)]) = Inr (Some origins)
     \<and> length origins = length (source new)
     \<and> buffer_inv new \<and> source new = contentAtoms content
     \<and> typed_atoms new = typed_atoms buffer
     \<and> kept_indices new = filter (\<lambda>j. case origins ! j of
           None \<Rightarrow> True | Some x \<Rightarrow> x \<in> set (kept_indices buffer)) [0..<length origins]"
proof -
  obtain origins entries where
    "map_origins mapping (map Some [0..<length (source buffer)]) = Inr (Some origins)"
    "length origins = length (contentAtoms content)"
    "rebased buffer (contentAtoms content) origins entries new"
    by (rule rebaseBuffer_SomeE [OF assms])
  then show ?thesis
    using rebased_typed [OF _ assms(1)] rebased_kept [OF _ assms(1)] unfolding rebased_def by auto
qed

theorem rebaseBuffer_keeps_both_witness:
  "typed_atoms \<lparr>source = map Txt (code_points (js ''abZc'')),
                 pieces = [SourcePiece 0 1, InsertPiece [Txt (js ''x'')], SourcePiece 2 3]\<rparr>
     = typed_atoms \<lparr>source = map Txt (code_points (js ''abc'')),
                    pieces = [SourcePiece 0 1, InsertPiece [Txt (js ''x'')]]\<rparr>"
proof -
  let ?b = "\<lparr>source = map Txt (code_points (js ''abc'')),
     pieces = [SourcePiece 0 1, InsertPiece [Txt (js ''x'')]]\<rparr>"
  let ?n = "\<lparr>source = map Txt (code_points (js ''abZc'')),
     pieces = [SourcePiece 0 1, InsertPiece [Txt (js ''x'')], SourcePiece 2 3]\<rparr>"
  have inv: "buffer_inv ?b" "well_formed_content [Markdown (js ''abZc'')]"
    and run: "rebaseBuffer ?b [Markdown (js ''abZc'')] [\<lparr>rc_index = 2, rc_delete = 0, rc_insert = 1\<rparr>]
        = Inr (Some (?n, [\<lparr>rc_index = 2, rc_delete = 0, rc_insert = 1\<rparr>]))"
    by code_simp+
  show ?thesis
    using rebaseBuffer_keeps_both [OF inv run] by blast
qed

text \<open>
  C20. The mapping a rebase returns tracks the shown draft: it is inside the old draft, it
  gives one origin per atom of the new one, an atom with an origin is the same atom at both
  places, in the same order, and the atoms without one are exactly those that arrived.
\<close>

theorem rebaseBuffer_mapping_tracks:
  assumes "buffer_inv buffer" and "well_formed_content content"
    and "rebaseBuffer buffer content mapping = Inr (Some (new, moved))"
    and "length (bufferAtoms new) < 2 ^ 32"
  shows "\<exists>origins shown.
       map_origins mapping (map Some [0..<length (source buffer)]) = Inr (Some origins)
     \<and> map_origins moved (map Some [0..<length (bufferAtoms buffer)]) = Inr (Some shown)
     \<and> length shown = length (bufferAtoms new)
     \<and> sorted_wrt (<) (somes shown)
     \<and> (\<forall>i v. i < length shown \<longrightarrow> shown ! i = Some v \<longrightarrow>
           v < length (bufferAtoms buffer) \<and> bufferAtoms new ! i = bufferAtoms buffer ! v)
     \<and> (\<forall>i < length shown. shown ! i = None \<longleftrightarrow>
           (\<exists>j < length origins. draft_sources (pieces new) ! i = Some j \<and> origins ! j = None))"
proof -
  obtain origins entries where o: "map_origins mapping (map Some [0..<length (source buffer)]) = Inr (Some origins)"
    "length origins = length (contentAtoms content)"
    "origins_agree (source buffer) (contentAtoms content) origins"
    "moved = changesFromOrigins (length (bufferAtoms buffer)) (map snd entries)"
    "rebased buffer (contentAtoms content) origins entries new"
    by (rule rebaseBuffer_SomeE [OF assms(1-3)])
  note nth = rebased_nth [OF o(5) assms(1) _ o(3,2)]
  have len: "length (bufferAtoms new) = length entries" and sorted: "sorted_wrt (<) (somes (map snd entries))"
    using o(5) by (auto simp: rebased_def)
  have "\<forall>v \<in> set (somes (map snd entries)). v < length (bufferAtoms buffer)"
  proof
    fix v
    assume "v \<in> set (somes (map snd entries))"
    then have "Some v \<in> set (map snd entries)"
      by (simp only: set_somes)
    then obtain i where "i < length entries" "snd (entries ! i) = Some v"
      unfolding in_set_conv_nth by auto
    then show "v < length (bufferAtoms buffer)" using nth(1) by blast
  qed
  then have "map_origins moved (map Some [0..<length (bufferAtoms buffer)]) = Inr (Some (map snd entries))"
    unfolding o(4) using sorted assms(4) len by (intro map_origins_changesFromOrigins) auto
  then show ?thesis
    using o(1,2) nth len sorted
    by (intro exI [of _ origins] exI [of _ "map snd entries"]) simp
qed

theorem rebaseBuffer_mapping_tracks_witness:
  "\<exists>shown. map_origins [\<lparr>rc_index = 2, rc_delete = 1, rc_insert = 1\<rparr>] (map Some [0..<3 :: nat]) = Inr (Some shown)
     \<and> sorted_wrt (<) (somes shown) \<and> length shown = 3"
proof -
  let ?b = "\<lparr>source = map Txt (code_points (js ''ab'')),
     pieces = [InsertPiece [Txt (js ''x'')], SourcePiece 0 2]\<rparr>"
  let ?n = "\<lparr>source = map Txt (code_points (js ''aZ'')),
     pieces = [InsertPiece [Txt (js ''x'')], SourcePiece 0 2]\<rparr>"
  have inv: "buffer_inv ?b" "well_formed_content [Markdown (js ''aZ'')]"
    and run: "rebaseBuffer ?b [Markdown (js ''aZ'')] [\<lparr>rc_index = 1, rc_delete = 1, rc_insert = 1\<rparr>]
        = Inr (Some (?n, [\<lparr>rc_index = 2, rc_delete = 1, rc_insert = 1\<rparr>]))"
    and lens: "length (bufferAtoms ?n) = 3" "length (bufferAtoms ?b) = 3"
    by code_simp+
  then have "length (bufferAtoms ?n) < 2 ^ 32" by (simp only:) simp
  from rebaseBuffer_mapping_tracks [OF inv run this] show ?thesis
    unfolding lens by blast
qed

lemma rebaseOnto_ok:
  assumes "buffer_inv buffer" and "well_formed_content content" and "length (contentAtoms content) < 2 ^ 32"
    and "\<forall>changes. mapping = Some changes \<longrightarrow> (\<forall>c \<in> set changes. 0 \<le> rc_insert c \<and> rc_insert c < 2 ^ 32)"
  shows "\<exists>new moved. rebaseOnto buffer content mapping = Inr (new, moved)
     \<and> buffer_inv new \<and> source new = contentAtoms content \<and> typed_atoms new = typed_atoms buffer"
proof -
  have no_throw: "map_origins changes origins \<noteq> Inl e"
    if "\<forall>c \<in> set changes. 0 \<le> rc_insert c \<and> rc_insert c < 2 ^ 32" for changes e and origins :: "nat option list"
    using that by (induction changes arbitrary: origins) auto
  have keeps: "buffer_inv new \<and> source new = contentAtoms content \<and> typed_atoms new = typed_atoms buffer"
    if run: "rebaseBuffer buffer content changes = Inr (Some (new, moved))" for changes new moved
  proof -
    obtain origins entries where "rebased buffer (contentAtoms content) origins entries new"
      by (rule rebaseBuffer_SomeE [OF assms(1,2) run])
    then show ?thesis
      using rebased_typed [OF _ assms(1)] by (auto simp: rebased_def)
  qed
  let ?diff = "diffContent (source buffer) (contentAtoms content)"
  have "origins_agree (source buffer) (contentAtoms content) (diff_origins (source buffer) (contentAtoms content))"
    using diff_origins_props(1) diff_origins_nth(1) by (simp add: origins_agree_iff)
  then obtain new moved where diff: "rebaseBuffer buffer content ?diff = Inr (Some (new, moved))"
    using rebaseBuffer_core [OF assms(1,2) diffContent_origins [OF assms(3)] diff_origins_nth(1)] by blast
  show ?thesis
  proof (cases mapping)
    case None
    then show ?thesis using diff keeps by (auto simp: rebaseOnto_def)
  next
    case (Some changes)
    obtain r0 where r0: "map_origins changes (map Some [0..<length (source buffer)]) = Inr r0"
      using no_throw [of changes "map Some [0..<length (source buffer)]"] assms(4) Some
      by (cases "map_origins changes (map Some [0..<length (source buffer)])") auto
    have "\<exists>r. rebaseBuffer buffer content changes = Inr r"
      using r0 by (cases r0) (simp_all add: rebaseBuffer_def Let_def case_prod_beta)
    then obtain r where "rebaseBuffer buffer content changes = Inr r" ..
    then show ?thesis
      using Some diff keeps by (cases r) (auto simp: rebaseOnto_def)
  qed
qed

text \<open>
  C21. A draft always survives new canonical content: whether the change came with no
  mapping, with one that maps the draft's source, or with one that does not, \<open>rebaseOnto\<close>
  returns a well-formed draft of the new content that holds everything authored; the error
  it could throw when even the diff does not map is unreachable.
\<close>

theorem rebaseOnto_survives:
  assumes "buffer_inv buffer" and "well_formed_content content" and "length (contentAtoms content) < 2 ^ 32"
    and "\<forall>changes. mapping = Some changes \<longrightarrow> (\<forall>c \<in> set changes. 0 \<le> rc_insert c \<and> rc_insert c < 2 ^ 32)"
  shows "\<exists>new moved. rebaseOnto buffer content mapping = Inr (new, moved)
     \<and> buffer_inv new \<and> source new = contentAtoms content \<and> typed_atoms new = typed_atoms buffer"
  by (rule rebaseOnto_ok [OF assms])

theorem rebaseOnto_survives_witness:
  "\<exists>new moved. rebaseOnto \<lparr>source = map Txt (code_points (js ''abc'')),
       pieces = [SourcePiece 0 1, InsertPiece [Txt (js ''x'')], SourcePiece 2 3]\<rparr>
       [Markdown (js ''bcd'')] (Some [\<lparr>rc_index = 7, rc_delete = 0, rc_insert = 1\<rparr>]) = Inr (new, moved)
     \<and> typed_atoms new = [Txt (js ''x'')]"
proof -
  let ?b = "\<lparr>source = map Txt (code_points (js ''abc'')),
     pieces = [SourcePiece 0 1, InsertPiece [Txt (js ''x'')], SourcePiece 2 3]\<rparr>"
  have inv: "buffer_inv ?b" "well_formed_content [Markdown (js ''bcd'')]"
    and len: "length (contentAtoms [Markdown (js ''bcd'')]) = 3"
    and typed: "typed_atoms ?b = [Txt (js ''x'')]"
    by code_simp+
  have short: "length (contentAtoms [Markdown (js ''bcd'')]) < 2 ^ 32" using len by (simp only:) simp
  have "\<forall>changes. Some [\<lparr>rc_index = 7, rc_delete = 0, rc_insert = 1\<rparr>] = Some changes \<longrightarrow>
      (\<forall>c \<in> set changes. 0 \<le> rc_insert c \<and> rc_insert c < 2 ^ 32)"
    by auto
  from rebaseOnto_survives [OF inv short this] show ?thesis
    unfolding typed by blast
qed

text \<open>
  A draft without edits follows the canonical content: whatever the change, its rebase
  shows exactly the new content and is clean.
\<close>

theorem rebaseBuffer_clean:
  assumes "well_formed_content before" and "well_formed_content content"
    and "rebaseBuffer (createContentBuffer before) content mapping = Inr (Some (new, moved))"
  shows "bufferAtoms new = contentAtoms content \<and> bufferIsClean new"
proof -
  let ?old = "createContentBuffer before"
  have old: "buffer_inv ?old" "source ?old = contentAtoms before"
    using assms(1) by simp_all
  have untyped: "typed_atoms ?old = []" "kept_indices ?old = [0..<length (source ?old)]"
    by (auto simp: createContentBuffer_def typed_atoms_def kept_indices_def Let_def)
  obtain origins entries where o: "map_origins mapping (map Some [0..<length (source ?old)]) = Inr (Some origins)"
    "length origins = length (contentAtoms content)"
    "rebased ?old (contentAtoms content) origins entries new"
    by (rule rebaseBuffer_SomeE [OF old(1) assms(2,3)])
  have "x < length (source ?old)" if "j < length origins" "origins ! j = Some x" for j x
    using map_origins_sorted(2) [OF o(1)] that by (metis nth_mem set_somes)
  then have "kept_indices new = [0..<length origins]"
    unfolding rebased_kept [OF o(3) old(1) o(2)] untyped(2)
    by (intro filter_True) (auto split: option.splits)
  moreover have "typed_atoms new = []"
    using rebased_typed [OF o(3) old(1)] untyped(1) by simp
  ultimately have "bufferAtoms new = contentAtoms content" "source new = contentAtoms content"
    using unedited_atoms [of new] o(2,3) by (auto simp: rebased_def)
  then show ?thesis by (simp add: bufferIsClean_iff)
qed

theorem rebaseBuffer_clean_witness:
  "bufferIsClean \<lparr>source = map Txt (code_points (js ''xb'')), pieces = [SourcePiece 0 2]\<rparr>"
proof -
  have wf: "well_formed_content [Markdown (js ''ab'')]" "well_formed_content [Markdown (js ''xb'')]"
    and run: "rebaseBuffer (createContentBuffer [Markdown (js ''ab'')]) [Markdown (js ''xb'')]
        [\<lparr>rc_index = 0, rc_delete = 1, rc_insert = 1\<rparr>]
      = Inr (Some (\<lparr>source = map Txt (code_points (js ''xb'')), pieces = [SourcePiece 0 2]\<rparr>,
                   [\<lparr>rc_index = 0, rc_delete = 1, rc_insert = 1\<rparr>]))"
    by code_simp+
  show ?thesis
    using rebaseBuffer_clean [OF wf run] by blast
qed

text \<open>
  The command between two contents: none exactly when their atoms agree; otherwise its
  splices, applied in order, turn the one into the other. The splice it plans never leaves
  the content.
\<close>

theorem contentEditCommand_correct:
  assumes "well_formed_content before" and "well_formed_content after"
  shows "\<exists>command. contentEditCommand owner blockId before after = Inr command
     \<and> (case command of
          None \<Rightarrow> contentAtoms before = contentAtoms after
        | Some c \<Rightarrow> contentAtoms before \<noteq> contentAtoms after \<and> command_owner c = owner
            \<and> (\<forall>sp \<in> set (command_splices c). bs_block_id sp = blockId)
            \<and> apply_splices (command_splices c) (contentAtoms before) = Some (contentAtoms after))"
proof -
  define b a where "b = contentAtoms before" and "a = contentAtoms after"
  define s where "s = common_prefix (=) b a"
  define e where "e = common_suffix (=) s b a"
  have le: "s \<le> length b" "s \<le> length a" "e \<le> length b - s" "e \<le> length a - s"
    unfolding s_def e_def by (rule common_prefix_le common_suffix_le)+
  let ?mid = "take (length a - e - s) (drop s a)"
  have slice: "js_slice a (int s) (int (length a) - int e) = ?mid"
    using le by (simp add: js_slice_nonneg nat_diff_distrib)
  have scalar: "list_all scalar_atom a" "list_all scalar_atom ?mid"
    using assms(2) by (auto simp: a_def list_all_take list_all_drop)
  have ends: "s + (length b - s - e) = length b - e" "s + (length a - e - s) = length a - e"
    using le by auto
  have "drop (length b - e) b = drop (length a - e) a"
    unfolding e_def by (rule common_suffix_drop)
  moreover have "take s b = take s a" unfolding s_def by (rule common_prefix_take)
  ultimately have "replace_range s (length b - s - e) ?mid b = a"
    using take_drop_join [of "length a - e - s" s a] by (simp only: replace_range_def ends append_take_drop_id)
  moreover have len: "int (length b) - int s - int e = int (length b - s - e)"
    using le by simp
  moreover have "int s + int (length b - s - e) \<le> int (length b)"
    using le by simp
  moreover have "\<exists>buffer'. spliceBuffer (createContentBuffer before) (int s)
      (int (length b - s - e)) (inlineContent ?mid) = Inr buffer'
     \<and> buffer_inv buffer' \<and> source buffer' = source (createContentBuffer before)
     \<and> bufferAtoms buffer' = replace_range (nat (int s)) (nat (int (length b - s - e)))
         (contentAtoms (inlineContent ?mid)) (bufferAtoms (createContentBuffer before))"
    by (rule spliceBuffer_ok) (use assms(1) scalar(2) calculation b_def in simp_all)
  ultimately obtain buffer where buffer: "spliceBuffer (createContentBuffer before) (int s)
      (int (length b) - int s - int e) (inlineContent ?mid) = Inr buffer"
      "buffer_inv buffer" "source buffer = b" "bufferAtoms buffer = a"
    unfolding len using assms(1) scalar(2) by (auto simp: b_def [symmetric])
  have "(\<lambda>left right. sameContent [left] [right]) = (=)" by (intro ext) simp
  then have run: "contentEditCommand owner blockId before after = Inr (bufferCommand buffer owner blockId)"
    unfolding contentEditCommand_def Let_def b_def [symmetric] a_def [symmetric]
    using buffer(1) slice by (simp add: s_def [symmetric] e_def [symmetric])
  show ?thesis
  proof (cases "bufferCommand buffer owner blockId")
    case None
    then show ?thesis
      using run buffer by (auto simp: a_def b_def bufferCommand_def bufferIsClean_iff split: if_splits list.splits)
  next
    case (Some c)
    then have "a \<noteq> b"
      using buffer by (auto simp: bufferCommand_def bufferIsClean_iff)
    then show ?thesis
      using run Some bufferCommand_splices [OF Some] bufferSplices_block bufferSplices_apply [OF buffer(2)]
        buffer(3,4) by (auto simp: a_def b_def)
  qed
qed

theorem contentEditCommand_correct_witness:
  "\<exists>c. contentEditCommand \<lparr>owner_kind = PageOwner, owner_id = js ''o''\<rparr> (js ''k'')
         [Markdown (js ''abc'')] [Markdown (js ''axc'')] = Inr (Some c)
     \<and> apply_splices (command_splices c) (contentAtoms [Markdown (js ''abc'')])
         = Some (contentAtoms [Markdown (js ''axc'')])"
proof -
  let ?o = "\<lparr>owner_kind = PageOwner, owner_id = js ''o''\<rparr>"
  have wf: "well_formed_content [Markdown (js ''abc'')]" "well_formed_content [Markdown (js ''axc'')]"
    and ne: "contentAtoms [Markdown (js ''abc'')] \<noteq> contentAtoms [Markdown (js ''axc'')]"
    by code_simp+
  show ?thesis
    using contentEditCommand_correct [OF wf, of ?o "js ''k''"] ne by (auto split: option.splits)
qed

end
