(* ===== verification/Graph_Types.thy ===== *)
theory Graph_Types
  imports Content_Buffer Complex_Main "HOL-Library.AList"
begin

text \<open>
  The values of \<open>generated/domain.ts\<close> the client's state holds: properties, blocks, pages,
  tags and the graph snapshot. A finite double of JSON is a rational. An insertion-ordered
  \<open>Map\<close> of JavaScript is an association list, written with \<open>AList.update\<close> (in place for a
  key that is present, at the end otherwise) and \<open>AList.delete\<close>, and read with \<open>map_of\<close>.
\<close>

type_synonym tag_id = js_string
type_synonym property_key = js_string
type_synonym local_date = js_string

datatype property_type = NumberType | StringType | PageType | CheckboxType | DateType | DocumentType
datatype cardinality = Single | SetOf

text \<open>A stored query document and its views.\<close>

record query_definition =
  qd_source :: js_string
  qd_language :: js_string
  qd_plan :: "(int \<times> js_string) option"

datatype query_view_kind = TableView | ListView

record query_view_column =
  vc_variable :: js_string
  vc_hidden :: bool
  vc_width :: "rat option"

record query_view_options =
  vo_conditions_open :: "bool option"
  vo_compact :: bool
  vo_wrap :: bool
  vo_sort :: "(js_string \<times> bool) list"
  vo_list_sort :: "(js_string \<times> bool) list"

record query_view =
  qv_id :: js_string
  qv_name :: js_string
  qv_definition :: query_definition
  qv_kind :: query_view_kind
  qv_position :: rat
  qv_columns :: "query_view_column list"
  qv_options :: query_view_options

record property_document =
  doc_schema :: js_string
  doc_version :: int
  doc_views :: "query_view list"
  doc_default_view_id :: js_string

datatype property_value =
    NumberValue rat
  | StringValue js_string
  | PageValue page_id
  | CheckboxValue bool
  | DateValue local_date
  | DocumentValue property_document
  | UnsupportedDocument js_string int

record property_field =
  pf_key :: property_key
  pf_value_type :: property_type
  pf_cardinality :: cardinality
  pf_values :: "property_value list"

type_synonym property_bag = "property_field list"

datatype block_snapshot = Block
  (bl_id: block_id)
  (bl_content: "inline_content list")
  (bl_markdown: js_string)
  (bl_page_references: "page_reference_span list")
  (bl_properties: property_bag)
  (bl_tags: "tag_id list")
  (bl_children: "block_snapshot list")

lemma size_bl_children [termination_simp]: "size_list size (bl_children block) < size block"
  by (cases block) simp

lemma size_bl_children_less [termination_simp]:
  "size_list size (bl_children block) < Suc (size block + n)"
  using size_bl_children [of block] by simp

text \<open>Every block of a forest, in document order.\<close>

fun preorder :: "block_snapshot list \<Rightarrow> block_snapshot list" where
  "preorder [] = []"
| "preorder (block # blocks) = block # preorder (bl_children block) @ preorder blocks"


subsection \<open>The graph\<close>

record page_snapshot =
  pg_id :: page_id
  pg_title :: js_string
  pg_properties :: property_bag
  pg_tags :: "tag_id list"
  pg_blocks :: "block_snapshot list"

record tag_snapshot =
  tg_id :: tag_id
  tg_name :: js_string
  tg_properties :: property_bag
  tg_defaults :: property_bag
  tg_blocks :: "block_snapshot list"

record page_summary =
  ps_id :: page_id
  ps_title :: js_string
  ps_properties :: property_bag
  ps_tags :: "tag_id list"

record tag_summary =
  ts_id :: tag_id
  ts_name :: js_string
  ts_properties :: property_bag
  ts_defaults :: property_bag

record default_query =
  dq_id :: js_string
  dq_title :: js_string
  dq_position :: rat
  dq_document :: property_document

datatype query_owner =
    PageQuery page_id
  | BlockQuery owner_kind js_string block_id
  | TagQuery tag_id
  | DefaultQuery js_string

datatype text_target =
    PageTitle page_id
  | BlockContent owner_kind js_string block_id
  | QuerySource query_owner js_string

datatype graph_conflict =
    DuplicateEntityName js_string "page_id list"
  | DefaultQueryOverflow "js_string list"
  | QueryViewOverflow query_owner "js_string list"
  | QueryDefaultViewUnavailable query_owner js_string js_string
  | TextLimitExceeded text_target int int

record graph_snapshot =
  gs_schema_version :: int
  gs_graph_id :: js_string
  gs_pages :: "page_snapshot list"
  gs_page_directory :: "page_directory_entry list"
  gs_tags :: "tag_snapshot list"
  gs_settings :: "default_query list"
  gs_conflicts :: "graph_conflict list"
  gs_quarantined :: "js_string list"

record graph_summary =
  gm_schema_version :: int
  gm_graph_id :: js_string
  gm_pages :: "page_summary list"
  gm_page_directory :: "page_directory_entry list"
  gm_tags :: "tag_summary list"
  gm_settings :: "default_query list"
  gm_conflicts :: "graph_conflict list"
  gm_quarantined :: "js_string list"

record outline_snapshot =
  os_owner :: outline_owner
  os_blocks :: "block_snapshot list"

record block_content_update =
  up_owner :: outline_owner
  up_block_id :: block_id
  up_content :: "inline_content list"
  up_markdown :: js_string
  up_page_references :: "page_reference_span list"
  up_properties :: property_bag
  up_mapping :: "content_range_change list"

datatype graph_changes =
    ContentChanges "block_content_update list"
  | RefreshChanges "outline_owner list option" "block_content_update list" bool

end
