(* ===== verification/Outline_Rows.thy ===== *)
theory Outline_Rows
  imports Graph_Types
begin

text \<open>
  \<open>core-port/outline-index.ts\<close>, \<open>entities/outline.ts\<close> and \<open>features/outline/selection.ts\<close>:
  the rows of an outline in document order, the rows that are shown, the structural
  selection over them and the place where dragged blocks land. The caches of the index
  (\<open>WeakMap\<close>s keyed by immutable values) only return what would be computed again.
\<close>

subsection \<open>The rows of an outline\<close>

record outline_row =
  row_block :: block_snapshot
  row_depth :: nat
  row_parentId :: "block_id option"
  row_index :: nat
  row_siblingCount :: nat
  row_hasChildren :: bool
  row_collapsed :: bool

type_synonym outline_rows = "(block_id \<times> outline_row) list"

fun outlineIndex_visit ::
  "block_snapshot list \<Rightarrow> nat \<Rightarrow> block_id option \<Rightarrow> nat \<Rightarrow> nat \<Rightarrow> outline_rows \<Rightarrow> outline_rows" where
  "outlineIndex_visit [] depth parentId index siblingCount rows = rows"
| "outlineIndex_visit (block # blocks) depth parentId index siblingCount rows =
     outlineIndex_visit blocks depth parentId (index + 1) siblingCount
       (outlineIndex_visit (bl_children block) (depth + 1) (Some (bl_id block)) 0
          (length (bl_children block))
          (AList.update (bl_id block)
             \<lparr>row_block = block, row_depth = depth, row_parentId = parentId, row_index = index,
              row_siblingCount = siblingCount, row_hasChildren = (bl_children block \<noteq> []),
              row_collapsed = False\<rparr> rows))"

definition outlineIndex :: "block_snapshot list \<Rightarrow> outline_rows" where
  "outlineIndex blocks = outlineIndex_visit blocks 0 None 0 (length blocks) []"

fun hidden_by :: "nat option \<Rightarrow> nat \<Rightarrow> bool" where
  "hidden_by None depth = False"
| "hidden_by (Some hiddenBelow) depth = (hiddenBelow < depth)"

fun flattenOutline_loop ::
  "(block_id \<Rightarrow> bool) \<Rightarrow> outline_row list \<Rightarrow> nat option \<Rightarrow> outline_row list" where
  "flattenOutline_loop collapsedIds [] hiddenBelow = []"
| "flattenOutline_loop collapsedIds (row # rows) hiddenBelow =
     (if hidden_by hiddenBelow (row_depth row)
      then flattenOutline_loop collapsedIds rows hiddenBelow
      else if collapsedIds (bl_id (row_block row))
      then row\<lparr>row_collapsed := True\<rparr> # flattenOutline_loop collapsedIds rows (Some (row_depth row))
      else row # flattenOutline_loop collapsedIds rows None)"

definition flattenOutline :: "block_snapshot list \<Rightarrow> (block_id \<Rightarrow> bool) \<Rightarrow> outline_row list" where
  "flattenOutline blocks collapsedIds =
     flattenOutline_loop collapsedIds (map snd (outlineIndex blocks)) None"

text \<open>\<open>findIndex\<close>: the first index that satisfies a predicate, -1 without one.\<close>

fun find_index :: "('a \<Rightarrow> bool) \<Rightarrow> 'a list \<Rightarrow> int" where
  "find_index P [] = -1"
| "find_index P (x # xs) = (if P x then 0 else (let i = find_index P xs in if i < 0 then -1 else i + 1))"

definition rowIndexOf :: "outline_row list \<Rightarrow> block_id \<Rightarrow> int" where
  "rowIndexOf rows blockId = find_index (\<lambda>row. bl_id (row_block row) = blockId) rows"

definition findBlock :: "block_snapshot list \<Rightarrow> block_id \<Rightarrow> block_snapshot option" where
  "findBlock blocks blockId = map_option row_block (map_of (outlineIndex blocks) blockId)"

subsection \<open>Selection\<close>

definition row_id :: "outline_row \<Rightarrow> block_id" where
  "row_id row = bl_id (row_block row)"

text \<open>\<open>inside\<close> is the depth of the selected root a row lies in, \<open>-1\<close> outside of one.\<close>

definition leave_root :: "int \<Rightarrow> outline_row \<Rightarrow> int" where
  "leave_root inside row = (if 0 \<le> inside \<and> int (row_depth row) \<le> inside then -1 else inside)"

fun selectionRoots_loop :: "(block_id \<Rightarrow> bool) \<Rightarrow> outline_row list \<Rightarrow> int \<Rightarrow> outline_row list" where
  "selectionRoots_loop selected [] inside = []"
| "selectionRoots_loop selected (row # rows) inside0 =
     (let inside = leave_root inside0 row
      in if 0 \<le> inside then selectionRoots_loop selected rows inside
         else if selected (row_id row)
         then row # selectionRoots_loop selected rows (int (row_depth row))
         else selectionRoots_loop selected rows inside)"

definition selectionRoots :: "outline_row list \<Rightarrow> (block_id \<Rightarrow> bool) \<Rightarrow> outline_row list" where
  "selectionRoots rows selected = selectionRoots_loop selected rows (-1)"

fun coveredMask_loop :: "(block_id \<Rightarrow> bool) \<Rightarrow> outline_row list \<Rightarrow> int \<Rightarrow> bool list" where
  "coveredMask_loop ids [] inside = []"
| "coveredMask_loop ids (row # rows) inside0 =
     (let inside = leave_root inside0 row
      in if 0 \<le> inside then True # coveredMask_loop ids rows inside
         else if ids (row_id row) then True # coveredMask_loop ids rows (int (row_depth row))
         else False # coveredMask_loop ids rows inside)"

definition coveredMask :: "outline_row list \<Rightarrow> (block_id \<Rightarrow> bool) \<Rightarrow> bool list" where
  "coveredMask rows ids = coveredMask_loop ids rows (-1)"

definition selectionSize :: "outline_row list \<Rightarrow> (block_id \<Rightarrow> bool) \<Rightarrow> nat" where
  "selectionSize rows selected =
     foldl (\<lambda>total c. total + (if c then 1 else 0)) 0 (coveredMask rows selected)"

definition coveredIds :: "outline_row list \<Rightarrow> (block_id \<Rightarrow> bool) \<Rightarrow> block_id set" where
  "coveredIds rows ids =
     set (map (row_id \<circ> fst) (filter snd (zip rows (coveredMask rows ids))))"

definition idsInRange :: "outline_row list \<Rightarrow> int \<Rightarrow> int \<Rightarrow> block_id set" where
  "idsInRange rows from to =
     (let start = max 0 (min from to);
          end = min (int (length rows) - 1) (max from to)
      in set (map (\<lambda>index. row_id (rows ! nat index)) [start..end]))"

subsection \<open>Dropping\<close>

record drop_target =
  dt_parentId :: "block_id option"
  dt_afterId :: "block_id option"
  dt_depth :: nat
  dt_gap :: nat

text \<open>The two loops that step over rows that travel with the drag; \<open>None\<close> past either end.\<close>

fun unmasked_before :: "bool list \<Rightarrow> nat \<Rightarrow> nat option" where
  "unmasked_before covered 0 = None"
| "unmasked_before covered (Suc i) = (if covered ! i then unmasked_before covered i else Some i)"

function unmasked_after :: "bool list \<Rightarrow> nat \<Rightarrow> nat option" where
  "unmasked_after covered i =
     (if i < length covered then (if covered ! i then unmasked_after covered (i + 1) else Some i) else None)"
  by pat_completeness auto
termination by (relation "measure (\<lambda>(covered, i). length covered - i)") auto

declare unmasked_after.simps [simp del]

text \<open>The nearest row at or above an index that has a given depth.\<close>

fun row_above :: "outline_row list \<Rightarrow> nat \<Rightarrow> nat \<Rightarrow> nat option" where
  "row_above rows depth 0 = None"
| "row_above rows depth (Suc i) =
     (if row_depth (rows ! i) \<noteq> depth then row_above rows depth i else Some i)"

text \<open>\<open>lastSibling\<close> scans down from \<open>to\<close>; the bound below is one past the cursor.\<close>

fun lastSibling :: "outline_row list \<Rightarrow> bool list \<Rightarrow> nat \<Rightarrow> nat \<Rightarrow> nat \<Rightarrow> block_id option" where
  "lastSibling rows covered depth from 0 = None"
| "lastSibling rows covered depth from (Suc cursor) =
     (if cursor < from then None
      else if row_depth (rows ! cursor) = depth \<and> \<not> covered ! cursor then Some (row_id (rows ! cursor))
      else lastSibling rows covered depth from cursor)"

definition dropTarget ::
  "outline_row list \<Rightarrow> (block_id \<Rightarrow> bool) \<Rightarrow> int \<Rightarrow> int \<Rightarrow> drop_target option" where
  "dropTarget rows moving gap desiredDepth =
     (let covered = coveredMask rows moving;
          clampedGap = nat (max 0 (min (int (length rows)) gap));
          beforeIndex = unmasked_before covered clampedGap;
          afterIndex = unmasked_after covered clampedGap;
          upto = (case beforeIndex of None \<Rightarrow> 0 | Some i \<Rightarrow> i + 1);
          maxDepth = (case beforeIndex of
              None \<Rightarrow> 0
            | Some i \<Rightarrow> if row_collapsed (rows ! i) then row_depth (rows ! i) else row_depth (rows ! i) + 1);
          minDepth = (case afterIndex of None \<Rightarrow> 0 | Some i \<Rightarrow> row_depth (rows ! i))
      in if maxDepth < minDepth then None
         else let depth = nat (max (int minDepth) (min (int maxDepth) desiredDepth))
              in if depth = 0
                 then Some \<lparr>dt_parentId = None, dt_afterId = lastSibling rows covered 0 0 upto,
                            dt_depth = depth, dt_gap = clampedGap\<rparr>
                 else case row_above rows (depth - 1) upto of
                        None \<Rightarrow> None
                      | Some parentIndex \<Rightarrow>
                          Some \<lparr>dt_parentId = Some (row_id (rows ! parentIndex)),
                                dt_afterId = lastSibling rows covered depth (parentIndex + 1) upto,
                                dt_depth = depth, dt_gap = clampedGap\<rparr>)"


subsection \<open>The index lists the blocks in document order\<close>

definition forest_ids :: "block_snapshot list \<Rightarrow> block_id list" where
  "forest_ids blocks = map bl_id (preorder blocks)"

text \<open>The rows of a forest by structural recursion, without the map.\<close>

fun forest_rows :: "block_snapshot list \<Rightarrow> nat \<Rightarrow> block_id option \<Rightarrow> nat \<Rightarrow> nat \<Rightarrow> outline_row list" where
  "forest_rows [] depth parentId index siblingCount = []"
| "forest_rows (block # blocks) depth parentId index siblingCount =
     \<lparr>row_block = block, row_depth = depth, row_parentId = parentId, row_index = index,
      row_siblingCount = siblingCount, row_hasChildren = (bl_children block \<noteq> []), row_collapsed = False\<rparr>
     # forest_rows (bl_children block) (depth + 1) (Some (bl_id block)) 0 (length (bl_children block))
     @ forest_rows blocks depth parentId (index + 1) siblingCount"

definition keyed_rows :: "outline_row list \<Rightarrow> outline_rows" where
  "keyed_rows rows = map (\<lambda>row. (row_id row, row)) rows"

lemma map_row_block_forest: "map row_block (forest_rows blocks depth parentId index n) = preorder blocks"
  by (induction blocks depth parentId index n rule: forest_rows.induct) auto

lemma map_row_id_forest: "map row_id (forest_rows blocks depth parentId index n) = forest_ids blocks"
proof -
  have "map row_id (forest_rows blocks depth parentId index n)
      = map bl_id (map row_block (forest_rows blocks depth parentId index n))"
    by (simp add: row_id_def)
  then show ?thesis by (simp only: map_row_block_forest forest_ids_def)
qed

lemma update_new: "k \<notin> fst ` set al \<Longrightarrow> AList.update k v al = al @ [(k, v)]"
  by (induction al) auto

lemma forest_ids_Cons:
  "forest_ids (block # blocks) = bl_id block # forest_ids (bl_children block) @ forest_ids blocks"
  by (simp add: forest_ids_def)

lemma outlineIndex_visit_eq:
  "distinct (forest_ids blocks) \<Longrightarrow> fst ` set rows \<inter> set (forest_ids blocks) = {} \<Longrightarrow>
   outlineIndex_visit blocks depth parentId index n rows
     = rows @ keyed_rows (forest_rows blocks depth parentId index n)"
proof (induction blocks depth parentId index n rows rule: outlineIndex_visit.induct)
  case (2 block blocks depth parentId index n rows)
  define row where "row = \<lparr>row_block = block, row_depth = depth, row_parentId = parentId, row_index = index,
      row_siblingCount = n, row_hasChildren = (bl_children block \<noteq> []), row_collapsed = False\<rparr>"
  let ?rows1 = "rows @ [(bl_id block, row)]"
  let ?kids = "forest_rows (bl_children block) (depth + 1) (Some (bl_id block)) 0 (length (bl_children block))"
  have ids: "bl_id block \<notin> fst ` set rows" "distinct (forest_ids (bl_children block))"
    "distinct (forest_ids blocks)" "bl_id block \<notin> set (forest_ids (bl_children block))"
    "bl_id block \<notin> set (forest_ids blocks)"
    "set (forest_ids (bl_children block)) \<inter> set (forest_ids blocks) = {}"
    "fst ` set rows \<inter> set (forest_ids (bl_children block)) = {}" "fst ` set rows \<inter> set (forest_ids blocks) = {}"
    using "2.prems" by (auto simp: forest_ids_Cons)
  have upd: "AList.update (bl_id block) row rows = ?rows1"
    using update_new [OF ids(1)] .
  have keys: "fst ` set (keyed_rows ?kids) = set (forest_ids (bl_children block))"
    using arg_cong [OF map_row_id_forest, of set] by (force simp: keyed_rows_def image_image)
  have kids: "outlineIndex_visit (bl_children block) (depth + 1) (Some (bl_id block)) 0
      (length (bl_children block)) ?rows1 = ?rows1 @ keyed_rows ?kids"
    using "2.IH"(1) [folded row_def, unfolded upd] ids by auto
  have "fst ` set (?rows1 @ keyed_rows ?kids) \<inter> set (forest_ids blocks) = {}"
    unfolding set_append image_Un keys using ids by auto
  then have "outlineIndex_visit blocks depth parentId (index + 1) n (?rows1 @ keyed_rows ?kids)
      = (?rows1 @ keyed_rows ?kids) @ keyed_rows (forest_rows blocks depth parentId (index + 1) n)"
    using "2.IH"(2) [folded row_def, unfolded upd kids] ids(3) by blast
  moreover have "forest_rows (block # blocks) depth parentId index n
      = row # ?kids @ forest_rows blocks depth parentId (index + 1) n"
    by (simp add: row_def)
  moreover have "outlineIndex_visit (block # blocks) depth parentId index n rows
      = outlineIndex_visit blocks depth parentId (index + 1) n (?rows1 @ keyed_rows ?kids)"
    unfolding outlineIndex_visit.simps row_def [symmetric] upd kids ..
  moreover have "row_id row = bl_id block" by (simp add: row_def row_id_def)
  ultimately show ?case
    by (simp add: keyed_rows_def)
qed (simp add: keyed_rows_def)

lemma outlineIndex_rows:
  "distinct (forest_ids blocks) \<Longrightarrow>
   outlineIndex blocks = keyed_rows (forest_rows blocks 0 None 0 (length blocks))"
  using outlineIndex_visit_eq [of blocks "[]"] by (simp add: outlineIndex_def)

lemma map_of_keyed_rows:
  assumes "distinct (map row_id rows)"
  shows "map_of (keyed_rows rows) k = Some row \<longleftrightarrow> row \<in> set rows \<and> row_id row = k"
proof -
  have d: "distinct (map fst (keyed_rows rows))"
    using assms by (simp add: keyed_rows_def comp_def)
  show ?thesis
    unfolding map_of_eq_Some_iff [OF d] by (auto simp: keyed_rows_def)
qed

lemma findBlock_Some:
  assumes "distinct (forest_ids blocks)"
  shows "findBlock blocks blockId = Some block \<longleftrightarrow> block \<in> set (preorder blocks) \<and> bl_id block = blockId"
proof -
  let ?rows = "forest_rows blocks 0 None 0 (length blocks)"
  have d: "distinct (map row_id ?rows)" using assms by (simp add: map_row_id_forest)
  have "set (preorder blocks) = row_block ` set ?rows"
    using arg_cong [OF map_row_block_forest, of set blocks 0 None 0 "length blocks"] by simp
  then show ?thesis
    unfolding findBlock_def outlineIndex_rows [OF assms] map_option_eq_Some map_of_keyed_rows [OF d]
    by (auto simp: row_id_def)
qed

lemma findBlock_None:
  assumes "distinct (forest_ids blocks)"
  shows "findBlock blocks blockId = None \<longleftrightarrow> blockId \<notin> set (forest_ids blocks)"
proof (cases "findBlock blocks blockId")
  case None
  then have "\<not> (block \<in> set (preorder blocks) \<and> bl_id block = blockId)" for block
    using findBlock_Some [OF assms, of blockId block] by simp
  then show ?thesis using None by (auto simp: forest_ids_def)
next
  case (Some block)
  then show ?thesis
    using findBlock_Some [OF assms, of blockId block] by (auto simp: forest_ids_def)
qed

subsection \<open>Shown rows\<close>

text \<open>The reference definition: a collapsed block is shown without its descendants.\<close>

fun shown_rows ::
  "(block_id \<Rightarrow> bool) \<Rightarrow> block_snapshot list \<Rightarrow> nat \<Rightarrow> block_id option \<Rightarrow> nat \<Rightarrow> nat \<Rightarrow> outline_row list" where
  "shown_rows collapsed [] depth parentId index siblingCount = []"
| "shown_rows collapsed (block # blocks) depth parentId index siblingCount =
     \<lparr>row_block = block, row_depth = depth, row_parentId = parentId, row_index = index,
      row_siblingCount = siblingCount, row_hasChildren = (bl_children block \<noteq> []),
      row_collapsed = collapsed (bl_id block)\<rparr>
     # (if collapsed (bl_id block) then []
        else shown_rows collapsed (bl_children block) (depth + 1) (Some (bl_id block)) 0
               (length (bl_children block)))
     @ shown_rows collapsed blocks depth parentId (index + 1) siblingCount"

lemma forest_rows_depth: "row \<in> set (forest_rows blocks depth parentId index n) \<Longrightarrow> depth \<le> row_depth row"
  by (induction blocks depth parentId index n rule: forest_rows.induct) fastforce+

lemma flattenOutline_hidden:
  "\<forall>row \<in> set rows. d < row_depth row \<Longrightarrow>
   flattenOutline_loop c (rows @ rest) (Some d) = flattenOutline_loop c rest (Some d)"
  by (induction rows) auto

lemma flattenOutline_unhide:
  "(\<forall>row \<in> set (take 1 rows). row_depth row \<le> d) \<Longrightarrow>
   flattenOutline_loop c rows (Some d) = flattenOutline_loop c rows None"
  by (cases rows) auto

lemma flattenOutline_forest:
  assumes "\<forall>row \<in> set (take 1 rest). row_depth row \<le> depth"
    and "case hidden of None \<Rightarrow> True | Some d \<Rightarrow> depth \<le> d"
  shows "\<exists>hidden'. flattenOutline_loop c (forest_rows blocks depth parentId index n @ rest) hidden
       = shown_rows c blocks depth parentId index n @ flattenOutline_loop c rest hidden'
     \<and> (case hidden' of None \<Rightarrow> True | Some d \<Rightarrow> depth \<le> d)"
  using assms
proof (induction c blocks depth parentId index n arbitrary: hidden rest rule: shown_rows.induct)
  case (1 c depth parentId index n)
  then show ?case by (auto intro!: exI [of _ hidden])
next
  case (2 c block blocks depth parentId index n)
  let ?kids = "forest_rows (bl_children block) (depth + 1) (Some (bl_id block)) 0 (length (bl_children block))"
  let ?more = "forest_rows blocks depth parentId (index + 1) n @ rest"
  have next_depth: "\<forall>row \<in> set (take 1 ?more). row_depth row \<le> depth"
    using "2.prems"(1) by (cases blocks) auto
  have shown: "\<not> hidden_by hidden depth"
    using "2.prems"(2) by (cases hidden) auto
  show ?case
  proof (cases "c (bl_id block)")
    case True
    have "flattenOutline_loop c (?kids @ ?more) (Some depth) = flattenOutline_loop c ?more (Some depth)"
      using forest_rows_depth [of _ "bl_children block" "depth + 1"] by (intro flattenOutline_hidden) fastforce
    then show ?thesis
      using True shown "2.IH"(2) [of rest "Some depth"] "2.prems"(1) by simp
  next
    case False
    have "\<forall>row \<in> set (take 1 ?more). row_depth row \<le> depth + 1"
      using next_depth by (meson le_add1 order_trans)
    then obtain hidden1 where h1: "flattenOutline_loop c (?kids @ ?more) None
        = shown_rows c (bl_children block) (depth + 1) (Some (bl_id block)) 0 (length (bl_children block))
          @ flattenOutline_loop c ?more hidden1"
      "case hidden1 of None \<Rightarrow> True | Some d \<Rightarrow> depth + 1 \<le> d"
      using "2.IH"(1) [OF False, of ?more None] by auto
    have "case hidden1 of None \<Rightarrow> True | Some d \<Rightarrow> depth \<le> d"
      using h1(2) by (auto split: option.splits)
    then show ?thesis
      using False shown h1(1) "2.IH"(2) [of rest hidden1] "2.prems"(1) by simp
  qed
qed


lemma flattenOutline_shown:
  assumes "distinct (forest_ids blocks)"
  shows "flattenOutline blocks collapsed = shown_rows collapsed blocks 0 None 0 (length blocks)"
proof -
  have "map snd (keyed_rows rows) = rows" for rows
    by (simp add: keyed_rows_def comp_def)
  then show ?thesis
    using flattenOutline_forest [of "[]" 0 None collapsed blocks None 0 "length blocks"] assms
    by (auto simp: flattenOutline_def outlineIndex_rows)
qed

subsection \<open>Depths of shown rows\<close>

text \<open>
  Rows in document order: the first is at depth 0, each later one at most one level below
  the row before it, and no deeper than a collapsed row before it.
\<close>

definition row_follows :: "outline_row \<Rightarrow> outline_row \<Rightarrow> bool" where
  "row_follows row next_row \<longleftrightarrow>
     row_depth next_row \<le> (if row_collapsed row then row_depth row else row_depth row + 1)"

definition ordered_rows :: "outline_row list \<Rightarrow> bool" where
  "ordered_rows rows \<longleftrightarrow>
     (rows \<noteq> [] \<longrightarrow> row_depth (hd rows) = 0) \<and> successively row_follows rows"

lemma shown_rows_hd:
  "shown_rows c blocks depth parentId index n \<noteq> [] \<Longrightarrow>
   row_depth (hd (shown_rows c blocks depth parentId index n)) = depth"
  by (cases blocks) auto

lemma shown_rows_depth: "row \<in> set (shown_rows c blocks depth parentId index n) \<Longrightarrow> depth \<le> row_depth row"
  by (induction c blocks depth parentId index n rule: shown_rows.induct) (fastforce split: if_splits)+

lemma shown_rows_successively: "successively row_follows (shown_rows c blocks depth parentId index n)"
proof (induction c blocks depth parentId index n rule: shown_rows.induct)
  case (2 c block blocks depth parentId index n)
  define row where "row = \<lparr>row_block = block, row_depth = depth, row_parentId = parentId, row_index = index,
      row_siblingCount = n, row_hasChildren = (bl_children block \<noteq> []), row_collapsed = c (bl_id block)\<rparr>"
  define kids where "kids = (if c (bl_id block) then []
      else shown_rows c (bl_children block) (depth + 1) (Some (bl_id block)) 0 (length (bl_children block)))"
  define more where "more = shown_rows c blocks depth parentId (index + 1) n"
  have kids: "successively row_follows kids" "kids \<noteq> [] \<Longrightarrow> row_depth (hd kids) = depth + 1"
    "\<And>r. r \<in> set kids \<Longrightarrow> depth + 1 \<le> row_depth r" "c (bl_id block) \<Longrightarrow> kids = []"
    using "2.IH"(1) shown_rows_hd shown_rows_depth [of _ c "bl_children block" "depth + 1"]
    by (auto simp: kids_def split: if_splits)
  have more: "successively row_follows more" "more \<noteq> [] \<Longrightarrow> row_depth (hd more) = depth"
    using "2.IH"(2) shown_rows_hd by (auto simp: more_def)
  have "row_follows r s" if "depth \<le> row_depth r" "row_depth s = depth" for r s
    using that by (auto simp: row_follows_def)
  moreover have "row_depth (last kids) \<ge> depth" if "kids \<noteq> []"
    using kids(3) [OF last_in_set [OF that]] by simp
  moreover have "row_follows row (hd kids)" if "kids \<noteq> []"
    using that kids(2,4) by (auto simp: row_follows_def row_def)
  moreover have "row_depth row = depth" by (simp add: row_def)
  ultimately have "successively row_follows (row # kids @ more)"
    using kids(1) more
    by (cases "kids = []") (auto simp: successively_Cons successively_append_iff)
  then show ?case
    by (simp add: row_def kids_def more_def)
qed simp

lemma ordered_flattenOutline:
  "distinct (forest_ids blocks) \<Longrightarrow> ordered_rows (flattenOutline blocks collapsed)"
  using shown_rows_successively shown_rows_hd
  by (simp add: flattenOutline_shown ordered_rows_def)


subsection \<open>Selected roots and covered rows\<close>

text \<open>Row \<open>i\<close> lies in the subtree of row \<open>j\<close>: every row after \<open>j\<close> up to \<open>i\<close> is deeper.\<close>

definition in_subtree :: "outline_row list \<Rightarrow> nat \<Rightarrow> nat \<Rightarrow> bool" where
  "in_subtree rows j i \<longleftrightarrow> j \<le> i \<and> (\<forall>k. j < k \<and> k \<le> i \<longrightarrow> row_depth (rows ! j) < row_depth (rows ! k))"

definition below_selected :: "outline_row list \<Rightarrow> (block_id \<Rightarrow> bool) \<Rightarrow> nat \<Rightarrow> bool" where
  "below_selected rows ids i \<longleftrightarrow> (\<exists>j < i. ids (row_id (rows ! j)) \<and> in_subtree rows j i)"

definition covered_at :: "outline_row list \<Rightarrow> (block_id \<Rightarrow> bool) \<Rightarrow> nat \<Rightarrow> bool" where
  "covered_at rows ids i \<longleftrightarrow> (\<exists>j \<le> i. ids (row_id (rows ! j)) \<and> in_subtree rows j i)"

text \<open>
  The state of the scan in front of row \<open>i\<close>: \<open>-1\<close>, or the depth of a selected row before
  it all of whose followers are deeper, such that no shallower one exists.
\<close>

definition scan_state :: "outline_row list \<Rightarrow> (block_id \<Rightarrow> bool) \<Rightarrow> nat \<Rightarrow> int \<Rightarrow> bool" where
  "scan_state rows ids i inside \<longleftrightarrow>
     (0 \<le> inside \<longrightarrow> (\<exists>j < i. ids (row_id (rows ! j)) \<and> int (row_depth (rows ! j)) = inside
        \<and> (\<forall>k. j < k \<and> k < i \<longrightarrow> row_depth (rows ! j) < row_depth (rows ! k))))
   \<and> (\<forall>j < i. ids (row_id (rows ! j)) \<longrightarrow>
        (\<forall>k. j < k \<and> k < i \<longrightarrow> row_depth (rows ! j) < row_depth (rows ! k)) \<longrightarrow>
        0 \<le> inside \<and> inside \<le> int (row_depth (rows ! j)))"

lemma scan_state_leave:
  assumes "scan_state rows ids i inside"
  shows "0 \<le> leave_root inside (rows ! i) \<longleftrightarrow> below_selected rows ids i"
  unfolding below_selected_def
proof
  assume "0 \<le> leave_root inside (rows ! i)"
  then have stay: "0 \<le> inside" "inside < int (row_depth (rows ! i))"
    by (auto simp: leave_root_def split: if_splits)
  then obtain j where "j < i" "ids (row_id (rows ! j))" "int (row_depth (rows ! j)) = inside"
    "\<forall>k. j < k \<and> k < i \<longrightarrow> row_depth (rows ! j) < row_depth (rows ! k)"
    using assms unfolding scan_state_def by blast
  then show "\<exists>j < i. ids (row_id (rows ! j)) \<and> in_subtree rows j i"
    using stay(2) by (auto simp: in_subtree_def le_less)
next
  assume "\<exists>j < i. ids (row_id (rows ! j)) \<and> in_subtree rows j i"
  then obtain j where j: "j < i" "ids (row_id (rows ! j))" "in_subtree rows j i" by blast
  then have "0 \<le> inside \<and> inside \<le> int (row_depth (rows ! j))"
    using assms unfolding scan_state_def in_subtree_def by (meson less_imp_le)
  moreover have "row_depth (rows ! j) < row_depth (rows ! i)"
    using j by (auto simp: in_subtree_def)
  ultimately show "0 \<le> leave_root inside (rows ! i)"
    by (auto simp: leave_root_def)
qed

lemma scan_state_next:
  assumes "scan_state rows ids i inside"
  shows "scan_state rows ids (Suc i)
    (let inside' = leave_root inside (rows ! i)
     in if 0 \<le> inside' then inside' else if ids (row_id (rows ! i)) then int (row_depth (rows ! i)) else inside')"
    (is "scan_state rows ids (Suc i) ?next")
proof -
  let ?d = "\<lambda>j. row_depth (rows ! j)"
  have stay: "leave_root inside (rows ! i) = inside \<and> inside < int (?d i)" if "0 \<le> leave_root inside (rows ! i)"
    using that by (auto simp: leave_root_def split: if_splits)
  have first: "\<exists>j < Suc i. ids (row_id (rows ! j)) \<and> int (?d j) = ?next
      \<and> (\<forall>k. j < k \<and> k < Suc i \<longrightarrow> ?d j < ?d k)" if "0 \<le> ?next"
  proof (cases "0 \<le> leave_root inside (rows ! i)")
    case True
    then obtain j where "j < i" "ids (row_id (rows ! j))" "int (?d j) = inside"
      "\<forall>k. j < k \<and> k < i \<longrightarrow> ?d j < ?d k"
      using assms stay [OF True] unfolding scan_state_def by auto
    then show ?thesis
      using stay [OF True] True by (intro exI [of _ j]) (auto simp: less_Suc_eq)
  next
    case False
    then show ?thesis
      using that by (intro exI [of _ i]) (auto simp: Let_def split: if_splits)
  qed
  have "0 \<le> ?next \<and> ?next \<le> int (?d j)"
    if j: "j < Suc i" "ids (row_id (rows ! j))" "\<forall>k. j < k \<and> k < Suc i \<longrightarrow> ?d j < ?d k" for j
  proof (cases "j = i")
    case True
    then show ?thesis
      using stay j(2) by (auto simp: Let_def)
  next
    case False
    then have "j < i" "in_subtree rows j i"
      using j by (auto simp: in_subtree_def)
    then have inside: "0 \<le> leave_root inside (rows ! i)"
      using scan_state_leave [OF assms] j(2) by (auto simp: below_selected_def)
    moreover have "0 \<le> inside \<and> inside \<le> int (?d j)"
      using assms j(2,3) \<open>j < i\<close> unfolding scan_state_def by auto
    ultimately show ?thesis
      using stay by (simp add: Let_def)
  qed
  then show ?thesis
    using first unfolding scan_state_def by blast
qed

lemma covered_at_split: "covered_at rows ids i \<longleftrightarrow> ids (row_id (rows ! i)) \<or> below_selected rows ids i"
  unfolding covered_at_def below_selected_def in_subtree_def by (auto simp: le_less)

lemma coveredMask_loop_nth:
  assumes "scan_state rows ids i inside" and "i + n < length rows"
  shows "coveredMask_loop ids (drop i rows) inside ! n \<longleftrightarrow> covered_at rows ids (i + n)"
  using assms
proof (induction n arbitrary: i inside)
  case 0
  have drop: "drop i rows = rows ! i # drop (Suc i) rows"
    using 0 by (simp add: Cons_nth_drop_Suc)
  show ?case
    using scan_state_leave [OF "0.prems"(1)] covered_at_split [of rows ids i] unfolding drop by (auto simp: Let_def)
next
  case (Suc n)
  have drop: "drop i rows = rows ! i # drop (Suc i) rows"
    using Suc.prems(2) by (simp add: Cons_nth_drop_Suc)
  show ?case
    unfolding drop using Suc.IH [OF scan_state_next [OF Suc.prems(1)]] Suc.prems(2)
    by (simp add: Let_def split: if_splits)
qed

lemma length_coveredMask_loop [simp]: "length (coveredMask_loop ids rows inside) = length rows"
  by (induction ids rows inside rule: coveredMask_loop.induct) (auto simp: Let_def)

lemma length_coveredMask [simp]: "length (coveredMask rows ids) = length rows"
  by (simp add: coveredMask_def)

lemma coveredMask_nth: "i < length rows \<Longrightarrow> coveredMask rows ids ! i \<longleftrightarrow> covered_at rows ids i"
  using coveredMask_loop_nth [of rows ids 0 "-1" i] by (simp add: coveredMask_def scan_state_def)

lemma selectionRoots_loop_eq:
  "scan_state rows ids i inside \<Longrightarrow> i \<le> length rows \<Longrightarrow>
   selectionRoots_loop ids (drop i rows) inside
     = map ((!) rows) (filter (\<lambda>k. ids (row_id (rows ! k)) \<and> \<not> below_selected rows ids k) [i..<length rows])"
proof (induction "length rows - i" arbitrary: i inside)
  case (Suc n)
  then have i: "i < length rows" by simp
  have drop: "drop i rows = rows ! i # drop (Suc i) rows"
    using i by (simp add: Cons_nth_drop_Suc)
  have upt: "[i..<length rows] = i # [Suc i..<length rows]"
    using i by (simp add: upt_conv_Cons)
  show ?case
    unfolding drop upt
    using Suc.hyps(1) [OF _ scan_state_next [OF Suc.prems(1)]] Suc.hyps(2) i scan_state_leave [OF Suc.prems(1)]
    by (auto simp: Let_def)
qed simp


subsection \<open>Where a drop lands\<close>

lemma unmasked_before_Some:
  "unmasked_before covered g = Some i \<Longrightarrow> i < g \<and> \<not> covered ! i \<and> (\<forall>k. i < k \<and> k < g \<longrightarrow> covered ! k)"
  by (induction covered g rule: unmasked_before.induct) (auto split: if_splits simp: less_Suc_eq)

lemma unmasked_before_None: "unmasked_before covered g = None \<Longrightarrow> k < g \<Longrightarrow> covered ! k"
  by (induction covered g rule: unmasked_before.induct) (auto split: if_splits simp: less_Suc_eq)

lemma unmasked_after_Some:
  "unmasked_after covered g = Some i \<Longrightarrow>
   g \<le> i \<and> i < length covered \<and> \<not> covered ! i \<and> (\<forall>k. g \<le> k \<and> k < i \<longrightarrow> covered ! k)"
proof (induction covered g rule: unmasked_after.induct)
  case (1 covered g)
  show ?case
  proof (cases "g < length covered \<and> covered ! g")
    case True
    then have "unmasked_after covered (g + 1) = Some i"
      using "1.prems" by (simp add: unmasked_after.simps [of covered g])
    then show ?thesis
      using "1.IH" True by (metis Suc_eq_plus1 Suc_leI Suc_le_lessD le_neq_implies_less less_imp_le)
  next
    case False
    then show ?thesis
      using "1.prems" by (auto simp: unmasked_after.simps [of covered g] split: if_splits)
  qed
qed

lemma row_above_Some:
  "row_above rows d u = Some p \<Longrightarrow>
   p < u \<and> row_depth (rows ! p) = d \<and> (\<forall>k. p < k \<and> k < u \<longrightarrow> row_depth (rows ! k) \<noteq> d)"
  by (induction rows d u rule: row_above.induct) (auto split: if_splits simp: less_Suc_eq)

lemma row_above_None: "row_above rows d u = None \<Longrightarrow> k < u \<Longrightarrow> row_depth (rows ! k) \<noteq> d"
  by (induction rows d u rule: row_above.induct) (auto split: if_splits simp: less_Suc_eq)

lemma lastSibling_None:
  "lastSibling rows covered d f u = None \<Longrightarrow> f \<le> k \<Longrightarrow> k < u \<Longrightarrow>
   \<not> (row_depth (rows ! k) = d \<and> \<not> covered ! k)"
  by (induction rows covered d f u rule: lastSibling.induct) (auto simp: less_Suc_eq split: if_splits)

lemma lastSibling_Some:
  "lastSibling rows covered d f u = Some a \<Longrightarrow>
   \<exists>m. f \<le> m \<and> m < u \<and> row_id (rows ! m) = a \<and> row_depth (rows ! m) = d \<and> \<not> covered ! m
     \<and> (\<forall>k. m < k \<and> k < u \<longrightarrow> \<not> (row_depth (rows ! k) = d \<and> \<not> covered ! k))"
proof (induction rows covered d f u rule: lastSibling.induct)
  case (2 rows covered d f cursor)
  show ?case
  proof (cases "row_depth (rows ! cursor) = d \<and> \<not> covered ! cursor")
    case True
    then show ?thesis
      using "2.prems" by (intro exI [of _ cursor]) (auto split: if_splits)
  next
    case False
    then obtain m where "f \<le> m \<and> m < cursor \<and> row_id (rows ! m) = a \<and> row_depth (rows ! m) = d \<and> \<not> covered ! m
        \<and> (\<forall>k. m < k \<and> k < cursor \<longrightarrow> \<not> (row_depth (rows ! k) = d \<and> \<not> covered ! k))"
      using "2.IH" "2.prems" by (auto split: if_splits)
    then show ?thesis
      using False by (intro exI [of _ m]) (auto simp: less_Suc_eq)
  qed
qed simp

lemma ordered_rows_step:
  "ordered_rows rows \<Longrightarrow> Suc i < length rows \<Longrightarrow> row_follows (rows ! i) (rows ! Suc i)"
  by (simp add: ordered_rows_def successively_conv_nth)

lemma ordered_rows_first: "ordered_rows rows \<Longrightarrow> 0 < length rows \<Longrightarrow> row_depth (rows ! 0) = 0"
  by (simp add: ordered_rows_def hd_conv_nth)

text \<open>Depths grow by at most one from row to row, so no level is skipped on the way down.\<close>

lemma depth_between:
  assumes "ordered_rows rows" and "i \<le> j" "j < length rows"
    and "row_depth (rows ! i) \<le> d" "d \<le> row_depth (rows ! j)"
  shows "\<exists>k. i \<le> k \<and> k \<le> j \<and> row_depth (rows ! k) = d"
  using assms(2-5)
proof (induction "j - i" arbitrary: i)
  case (Suc n)
  show ?case
  proof (cases "row_depth (rows ! i) = d")
    case False
    then have less: "row_depth (rows ! i) < d" using Suc.prems(3) by simp
    have "row_follows (rows ! i) (rows ! Suc i)"
      using ordered_rows_step [OF assms(1), of i] Suc.hyps(2) Suc.prems(2) by simp
    then have "row_depth (rows ! Suc i) \<le> d"
      using less by (auto simp: row_follows_def split: if_splits)
    moreover have "n = j - Suc i" "Suc i \<le> j"
      using Suc.hyps(2) by auto
    ultimately obtain k where "Suc i \<le> k \<and> k \<le> j \<and> row_depth (rows ! k) = d"
      using Suc.hyps(1) [of "Suc i"] Suc.prems(2,4) by auto
    then show ?thesis by (auto intro: exI [of _ k])
  qed (use Suc.prems in auto)
qed auto

lemma covered_at_extend:
  assumes "covered_at rows ids i" "i < a" "\<And>k. i < k \<Longrightarrow> k \<le> a \<Longrightarrow> row_depth (rows ! i) < row_depth (rows ! k)"
  shows "covered_at rows ids a"
proof -
  obtain j where j: "j \<le> i" "ids (row_id (rows ! j))" "in_subtree rows j i"
    using assms(1) by (auto simp: covered_at_def)
  have below: "row_depth (rows ! j) \<le> row_depth (rows ! i)"
    using j(1,3) unfolding in_subtree_def by (cases "j = i") (simp, meson le_eq_less_or_eq order_refl)
  have "row_depth (rows ! j) < row_depth (rows ! k)" if "j < k" "k \<le> a" for k
  proof (cases "k \<le> i")
    case True
    then show ?thesis using j(3) that by (auto simp: in_subtree_def)
  next
    case False
    then show ?thesis using assms(3) [of k] below that by simp
  qed
  then have "in_subtree rows j a"
    using j(1) assms(2) by (auto simp: in_subtree_def)
  then show ?thesis
    using j(1,2) assms(2) unfolding covered_at_def by (meson less_imp_le order_trans)
qed

text \<open>Taking whole subtrees out leaves rows in document order.\<close>

lemma uncovered_after_covered:
  assumes s: "s < a" and all: "\<forall>k. s \<le> k \<and> k < a \<longrightarrow> covered_at rows ids k"
    and a: "\<not> covered_at rows ids a"
  shows "row_depth (rows ! a) \<le> row_depth (rows ! s)"
proof (rule ccontr)
  assume "\<not> row_depth (rows ! a) \<le> row_depth (rows ! s)"
  then have deep: "row_depth (rows ! s) < row_depth (rows ! a)" by simp
  let ?K = "{k. s \<le> k \<and> k < a \<and> row_depth (rows ! k) \<le> row_depth (rows ! s)}"
  have fin: "finite ?K" "?K \<noteq> {}" using s by auto
  define k where "k = Max ?K"
  have k: "s \<le> k" "k < a" "row_depth (rows ! k) \<le> row_depth (rows ! s)"
    using Max_in [OF fin] by (auto simp: k_def)
  have "row_depth (rows ! k) < row_depth (rows ! l)" if "k < l" "l \<le> a" for l
  proof (cases "l = a")
    case True
    then show ?thesis using deep k(3) by simp
  next
    case False
    have "l \<notin> ?K" using Max_ge [OF fin(1), of l] that(1) unfolding k_def by (meson not_le)
    then show ?thesis using that False k by auto
  qed
  then show False
    using covered_at_extend [of rows ids k a] k all a by blast
qed

definition legal_drop :: "outline_row list \<Rightarrow> (block_id \<Rightarrow> bool) \<Rightarrow> drop_target \<Rightarrow> bool" where
  "legal_drop rows moving t \<longleftrightarrow>
     (let lands = (\<lambda>from.
        case dt_afterId t of
          None \<Rightarrow> \<forall>k. from \<le> k \<and> k < dt_gap t \<and> \<not> covered_at rows moving k \<longrightarrow> row_depth (rows ! k) \<noteq> dt_depth t
        | Some a \<Rightarrow> \<exists>m. from \<le> m \<and> m < dt_gap t \<and> row_id (rows ! m) = a
            \<and> \<not> covered_at rows moving m \<and> row_depth (rows ! m) = dt_depth t
            \<and> (\<forall>k. m < k \<and> k < dt_gap t \<and> \<not> covered_at rows moving k \<longrightarrow> row_depth (rows ! k) \<noteq> dt_depth t))
      in (case dt_parentId t of
            None \<Rightarrow> dt_depth t = 0 \<and> lands 0
          | Some parent \<Rightarrow> \<exists>p < dt_gap t. row_id (rows ! p) = parent
              \<and> \<not> covered_at rows moving p \<and> \<not> row_collapsed (rows ! p)
              \<and> dt_depth t = row_depth (rows ! p) + 1
              \<and> (\<forall>k. p < k \<and> k < dt_gap t \<and> \<not> covered_at rows moving k \<longrightarrow> dt_depth t \<le> row_depth (rows ! k))
              \<and> lands (p + 1))
       \<and> (\<forall>a. dt_gap t \<le> a \<and> a < length rows \<and> \<not> covered_at rows moving a
            \<and> (\<forall>k. dt_gap t \<le> k \<and> k < a \<longrightarrow> covered_at rows moving k) \<longrightarrow> row_depth (rows ! a) \<le> dt_depth t))"


lemma drop_depth_range:
  assumes rows: "ordered_rows rows" and gap: "g \<le> length rows"
    and b: "unmasked_before (coveredMask rows moving) g = b"
    and a: "unmasked_after (coveredMask rows moving) g = Some a"
  shows "row_depth (rows ! a) \<le> (case b of None \<Rightarrow> 0
     | Some i \<Rightarrow> if row_collapsed (rows ! i) then row_depth (rows ! i) else row_depth (rows ! i) + 1)"
proof -
  have a_props: "g \<le> a" "a < length rows" "\<not> covered_at rows moving a"
    "\<And>k. g \<le> k \<Longrightarrow> k < a \<Longrightarrow> covered_at rows moving k"
    using unmasked_after_Some [OF a] by (auto simp: coveredMask_nth)
  define s where "s = (case b of None \<Rightarrow> 0 | Some i \<Rightarrow> Suc i)"
  have s: "s \<le> g" "\<And>k. s \<le> k \<Longrightarrow> k < g \<Longrightarrow> covered_at rows moving k"
    using unmasked_before_None [of "coveredMask rows moving" g] unmasked_before_Some [of "coveredMask rows moving" g]
      b gap by (auto simp: s_def coveredMask_nth Suc_le_eq split: option.splits)
  have "row_depth (rows ! a) \<le> row_depth (rows ! s)"
  proof (cases "s = a")
    case False
    then show ?thesis
      using uncovered_after_covered [of s a rows moving] s a_props by (metis le_neq_implies_less le_trans not_le)
  qed simp
  moreover have "s < length rows"
    using s(1) a_props(1,2) by simp
  ultimately show ?thesis
    using ordered_rows_first [OF rows] ordered_rows_step [OF rows, of "the b"]
    by (cases b) (auto simp: s_def row_follows_def split: if_splits)
qed

text \<open>The row the drop is put under: an ancestor, or the row itself, of the row above the gap.\<close>

lemma drop_parent:
  assumes rows: "ordered_rows rows" and i: "i < length rows" "\<not> covered_at rows moving i"
    and d: "0 < d" "d \<le> (if row_collapsed (rows ! i) then row_depth (rows ! i) else row_depth (rows ! i) + 1)"
  shows "\<exists>p. row_above rows (d - 1) (i + 1) = Some p \<and> p \<le> i \<and> \<not> covered_at rows moving p
     \<and> \<not> row_collapsed (rows ! p) \<and> d = row_depth (rows ! p) + 1
     \<and> (\<forall>k. p < k \<and> k \<le> i \<longrightarrow> d \<le> row_depth (rows ! k))"
proof -
  have "d - 1 \<le> row_depth (rows ! i)"
    using d by (auto split: if_splits)
  then have ex: "\<exists>k. 0 \<le> k \<and> k \<le> i \<and> row_depth (rows ! k) = d - 1"
    using depth_between [OF rows, of 0 i "d - 1"] ordered_rows_first [OF rows] i(1) by (cases rows) auto
  then have "row_above rows (d - 1) (i + 1) \<noteq> None"
    using row_above_None [of rows "d - 1" "i + 1"] by (metis less_Suc_eq_le Suc_eq_plus1)
  then obtain p where p: "row_above rows (d - 1) (i + 1) = Some p"
    by (metis not_None_eq)
  note props = row_above_Some [OF p]
  have deep: "d \<le> row_depth (rows ! k)" if pk: "p < k" and ki: "k \<le> i" for k
  proof (rule ccontr)
    assume "\<not> d \<le> row_depth (rows ! k)"
    then have "row_depth (rows ! k) \<le> d - 1" by simp
    then obtain l where l: "k \<le> l" "l \<le> i" "row_depth (rows ! l) = d - 1"
      using depth_between [OF rows ki i(1), of "d - 1"] \<open>d - 1 \<le> row_depth (rows ! i)\<close> by auto
    have "p < l" "l < i + 1" using pk l by simp_all
    then show False using props l(3) by blast
  qed
  have pd: "d = row_depth (rows ! p) + 1" "p \<le> i"
    using props d(1) by auto
  have "\<not> covered_at rows moving p"
    using covered_at_extend [of rows moving p i] deep pd i(2)
    by (cases "p = i") (auto simp: Suc_le_eq)
  moreover have "\<not> row_collapsed (rows ! p)"
  proof (cases "p = i")
    case True
    then show ?thesis using d(2) pd(1) by (auto split: if_splits)
  next
    case False
    then have "row_follows (rows ! p) (rows ! Suc p)" "d \<le> row_depth (rows ! Suc p)"
      using ordered_rows_step [OF rows, of p] deep [of "Suc p"] pd(2) i(1) by auto
    then show ?thesis using pd(1) by (auto simp: row_follows_def split: if_splits)
  qed
  ultimately show ?thesis
    using p pd deep by blast
qed


lemma lands_upto:
  assumes "\<And>k. u \<le> k \<Longrightarrow> k < g \<Longrightarrow> covered_at rows moving k" and "u \<le> g" "g \<le> length rows"
  shows "case lastSibling rows (coveredMask rows moving) d f u of
     None \<Rightarrow> \<forall>k. f \<le> k \<and> k < g \<and> \<not> covered_at rows moving k \<longrightarrow> row_depth (rows ! k) \<noteq> d
   | Some a \<Rightarrow> \<exists>m. f \<le> m \<and> m < g \<and> row_id (rows ! m) = a
       \<and> \<not> covered_at rows moving m \<and> row_depth (rows ! m) = d
       \<and> (\<forall>k. m < k \<and> k < g \<and> \<not> covered_at rows moving k \<longrightarrow> row_depth (rows ! k) \<noteq> d)"
proof -
  have free: "k < u" if "k < g" "\<not> covered_at rows moving k" for k
    using assms(1) [of k] that by (meson not_le)
  have mask: "coveredMask rows moving ! k \<longleftrightarrow> covered_at rows moving k" if "k < u" for k
    using that assms(2,3) by (simp add: coveredMask_nth)
  show ?thesis
  proof (cases "lastSibling rows (coveredMask rows moving) d f u")
    case None
    then show ?thesis
      using lastSibling_None [OF None] free mask by fastforce
  next
    case (Some a)
    then obtain m where m: "f \<le> m" "m < u" "row_id (rows ! m) = a" "row_depth (rows ! m) = d"
      "\<not> coveredMask rows moving ! m"
      "\<forall>k. m < k \<and> k < u \<longrightarrow> \<not> (row_depth (rows ! k) = d \<and> \<not> coveredMask rows moving ! k)"
      using lastSibling_Some [OF Some] by blast
    have "m < g" "\<not> covered_at rows moving m"
      using mask [OF m(2)] m(2,5) assms(2) by auto
    moreover have "row_depth (rows ! k) \<noteq> d" if "m < k" "k < g" "\<not> covered_at rows moving k" for k
      using m(6) free [OF that(2,3)] mask [of k] that by blast
    ultimately show ?thesis
      unfolding Some option.case using m(1,3,4) by blast
  qed
qed

lemma drop_next_row:
  assumes "unmasked_after (coveredMask rows moving) g = a"
    and "g \<le> k" "k < length rows" "\<not> covered_at rows moving k"
    and "\<forall>l. g \<le> l \<and> l < k \<longrightarrow> covered_at rows moving l"
  shows "a = Some k"
proof (cases a)
  case None
  have "unmasked_after c i = None \<Longrightarrow> i \<le> k \<Longrightarrow> k < length c \<Longrightarrow> c ! k" for c i
  proof (induction c i rule: unmasked_after.induct)
    case (1 c i)
    have "i < length c" using "1.prems"(2,3) by simp
    then have hit: "c ! i" and rest: "unmasked_after c (i + 1) = None"
      using "1.prems"(1) by (simp_all add: unmasked_after.simps [of c i] split: if_splits)
    show ?case
      using "1.IH" [OF \<open>i < length c\<close> hit rest] hit "1.prems"(2,3) by (cases "i = k") auto
  qed
  then have "coveredMask rows moving ! k"
    using None assms(1-3) by (metis length_coveredMask)
  then show ?thesis
    using assms(3,4) by (simp add: coveredMask_nth)
next
  case (Some i)
  then show ?thesis
    using unmasked_after_Some [of "coveredMask rows moving" g i] assms
    by (metis coveredMask_nth length_coveredMask linorder_neqE_nat)
qed

lemma dropTarget_legal_core:
  assumes rows: "ordered_rows rows"
  shows "\<exists>t. dropTarget rows moving gap desiredDepth = Some t \<and> legal_drop rows moving t
     \<and> dt_gap t = nat (max 0 (min (int (length rows)) gap))"
proof -
  define g where "g = nat (max 0 (min (int (length rows)) gap))"
  define b a where "b = unmasked_before (coveredMask rows moving) g"
    and "a = unmasked_after (coveredMask rows moving) g"
  define u where "u = (case b of None \<Rightarrow> 0 | Some i \<Rightarrow> i + 1)"
  define hi where "hi = (case b of None \<Rightarrow> 0
      | Some i \<Rightarrow> if row_collapsed (rows ! i) then row_depth (rows ! i) else row_depth (rows ! i) + 1)"
  define lo where "lo = (case a of None \<Rightarrow> 0 | Some i \<Rightarrow> row_depth (rows ! i))"
  define d where "d = nat (max (int lo) (min (int hi) desiredDepth))"
  have g: "g \<le> length rows" by (auto simp: g_def)
  have "lo \<le> hi"
  proof (cases a)
    case (Some i)
    then show ?thesis
      using drop_depth_range [OF rows g b_def [symmetric], of i] a_def by (simp add: lo_def hi_def)
  qed (simp add: lo_def)
  then have d: "lo \<le> d" "d \<le> hi" by (auto simp: d_def)
  have ug: "u \<le> g" "\<And>k. u \<le> k \<Longrightarrow> k < g \<Longrightarrow> covered_at rows moving k"
    using unmasked_before_None [of "coveredMask rows moving" g] unmasked_before_Some [of "coveredMask rows moving" g]
      g by (auto simp: u_def b_def coveredMask_nth Suc_le_eq split: option.splits)
  note lands = lands_upto [OF ug(2) ug(1) g]
  have below: "\<forall>k. g \<le> k \<and> k < length rows \<and> \<not> covered_at rows moving k
      \<and> (\<forall>l. g \<le> l \<and> l < k \<longrightarrow> covered_at rows moving l) \<longrightarrow> row_depth (rows ! k) \<le> d"
    using drop_next_row [OF a_def [symmetric]] d(1) by (auto simp: lo_def)
  have run: "dropTarget rows moving gap desiredDepth =
     (if d = 0 then Some \<lparr>dt_parentId = None, dt_afterId = lastSibling rows (coveredMask rows moving) 0 0 u,
                          dt_depth = d, dt_gap = g\<rparr>
      else case row_above rows (d - 1) u of
             None \<Rightarrow> None
           | Some p \<Rightarrow> Some \<lparr>dt_parentId = Some (row_id (rows ! p)),
               dt_afterId = lastSibling rows (coveredMask rows moving) d (p + 1) u, dt_depth = d, dt_gap = g\<rparr>)"
    unfolding dropTarget_def Let_def g_def [symmetric] b_def [symmetric] a_def [symmetric]
      u_def [symmetric] hi_def [symmetric] lo_def [symmetric] d_def [symmetric]
    using \<open>lo \<le> hi\<close> by simp
  show ?thesis
  proof (cases "d = 0")
    case True
    then show ?thesis
      using run lands [of 0 0] below by (simp add: legal_drop_def g_def [symmetric] cong: option.case_cong)
  next
    case False
    then obtain i where i: "b = Some i"
      using d(2) by (cases b) (auto simp: hi_def)
    have iprops: "i < length rows" "\<not> covered_at rows moving i" "i < g" "u = i + 1"
      using unmasked_before_Some [of "coveredMask rows moving" g i] i g
      by (auto simp: b_def u_def coveredMask_nth)
    obtain p where p: "row_above rows (d - 1) (i + 1) = Some p" "p \<le> i" "\<not> covered_at rows moving p"
      "\<not> row_collapsed (rows ! p)" "d = row_depth (rows ! p) + 1"
      "\<forall>k. p < k \<and> k \<le> i \<longrightarrow> d \<le> row_depth (rows ! k)"
    proof -
      have "d \<le> (if row_collapsed (rows ! i) then row_depth (rows ! i) else row_depth (rows ! i) + 1)"
        using d(2) i by (simp add: hi_def)
      then show thesis
        using drop_parent [OF rows iprops(1,2), of d] False that by blast
    qed
    have "d \<le> row_depth (rows ! k)" if "p < k" "k < g" "\<not> covered_at rows moving k" for k
      using p(6) ug(2) [of k] that iprops(4) by (metis Suc_eq_plus1 not_less_eq_eq)
    moreover define t where "t = \<lparr>dt_parentId = Some (row_id (rows ! p)),
        dt_afterId = lastSibling rows (coveredMask rows moving) d (p + 1) u, dt_depth = d, dt_gap = g\<rparr>"
    moreover have "p < g" using p(2) iprops(3) by simp
    ultimately have "legal_drop rows moving t"
      using p(3-5) lands [where d = d and f = "p + 1"] below
      unfolding legal_drop_def Let_def t_def
      by (simp del: lastSibling.simps add: exI [of _ p] cong: option.case_cong)
    moreover have "dropTarget rows moving gap desiredDepth = Some t"
      using run False p(1) iprops(4) by (simp only: t_def if_False option.case)
    ultimately show ?thesis
      by (simp add: g_def [symmetric] t_def)
  qed
qed


subsection \<open>Properties\<close>

text \<open>
  C24. The rows shown are the tree without the descendants of collapsed blocks: the flat
  scan of the index over remembered depths equals the recursion over the tree, with every
  row's depth, parent, index and sibling count, and the rows are in document order.
\<close>

theorem flattenOutline_correct:
  assumes "distinct (forest_ids blocks)"
  shows "flattenOutline blocks collapsed = shown_rows collapsed blocks 0 None 0 (length blocks)
     \<and> ordered_rows (flattenOutline blocks collapsed)"
  using flattenOutline_shown [OF assms] ordered_flattenOutline [OF assms] by blast

definition sample_block :: "string \<Rightarrow> block_snapshot list \<Rightarrow> block_snapshot" where
  "sample_block name kids = Block (js name) [] [] [] [] [] kids"

definition sample_outline :: "block_snapshot list" where
  "sample_outline =
     [sample_block ''a'' [sample_block ''b'' [sample_block ''c'' []], sample_block ''d'' []],
      sample_block ''e'' []]"

theorem flattenOutline_correct_witness:
  "map row_id (flattenOutline sample_outline (\<lambda>id. id = js ''b'')) = map js [''a'', ''b'', ''d'', ''e'']
   \<and> ordered_rows (flattenOutline sample_outline (\<lambda>id. id = js ''b''))"
proof -
  have "distinct (forest_ids sample_outline)" by code_simp
  moreover have "map row_id (shown_rows (\<lambda>id. id = js ''b'') sample_outline 0 None 0 (length sample_outline))
      = map js [''a'', ''b'', ''d'', ''e'']"
    by code_simp
  ultimately show ?thesis
    using flattenOutline_correct [of sample_outline "\<lambda>id. id = js ''b''"] by metis
qed

text \<open>
  A block is found by its id exactly when it is in the outline, and the row found for
  it is its own.
\<close>

theorem findBlock_correct:
  assumes "distinct (forest_ids blocks)"
  shows "findBlock blocks blockId = Some block \<longleftrightarrow> block \<in> set (preorder blocks) \<and> bl_id block = blockId"
  by (rule findBlock_Some [OF assms])

theorem findBlock_correct_witness:
  "findBlock sample_outline (js ''c'') = Some (sample_block ''c'' [])"
proof -
  have "distinct (forest_ids sample_outline)"
    "sample_block ''c'' [] \<in> set (preorder sample_outline)" "bl_id (sample_block ''c'' []) = js ''c''"
    by code_simp+
  then show ?thesis
    using findBlock_correct [of sample_outline "js ''c''"] by blast
qed

text \<open>
  C25. The scans over depths compute subtrees: a row is covered exactly when it is selected
  or lies in the subtree of a selected row, the selected roots are the selected rows inside
  no other selected subtree, in row order, and the size of the selection counts the covered
  rows. This holds for every list of rows.
\<close>

theorem selection_correct:
  shows "coveredMask rows ids = map (covered_at rows ids) [0..<length rows]
     \<and> selectionRoots rows ids
         = map ((!) rows) (filter (\<lambda>k. ids (row_id (rows ! k)) \<and> \<not> below_selected rows ids k) [0..<length rows])
     \<and> selectionSize rows ids = length (filter (covered_at rows ids) [0..<length rows])
     \<and> coveredIds rows ids = {row_id (rows ! k) | k. k < length rows \<and> covered_at rows ids k}"
proof -
  have mask: "coveredMask rows ids = map (covered_at rows ids) [0..<length rows]"
    by (rule nth_equalityI) (auto simp: coveredMask_nth)
  have "foldl (\<lambda>total c. total + (if c then 1 else 0)) n xs = n + length (filter id xs)" for n xs
    by (induction xs arbitrary: n) auto
  then have "selectionSize rows ids = length (filter (covered_at rows ids) [0..<length rows])"
    by (simp add: selectionSize_def mask filter_map comp_def)
  moreover have "selectionRoots rows ids
      = map ((!) rows) (filter (\<lambda>k. ids (row_id (rows ! k)) \<and> \<not> below_selected rows ids k) [0..<length rows])"
    using selectionRoots_loop_eq [of rows ids 0 "-1"] by (simp add: selectionRoots_def scan_state_def)
  moreover have "coveredIds rows ids = {row_id (rows ! k) | k. k < length rows \<and> covered_at rows ids k}"
    unfolding coveredIds_def mask by (force simp: set_zip)
  ultimately show ?thesis using mask by blast
qed

text \<open>
  C23. Dropping always finds a place in a shown outline, and a legal one: the parent is a
  row above the gap that does not travel with the drag and is not collapsed, one level above
  the drop; no staying row between them is shallower than the drop, so the rows below keep
  their parents; the anchor is the last staying child of that parent above the gap; and the
  next staying row is not deeper than the drop.
\<close>

theorem dropTarget_legal:
  assumes "distinct (forest_ids blocks)"
  shows "\<exists>t. dropTarget (flattenOutline blocks collapsed) moving gap desiredDepth = Some t
     \<and> legal_drop (flattenOutline blocks collapsed) moving t
     \<and> dt_gap t = nat (max 0 (min (int (length (flattenOutline blocks collapsed))) gap))"
  using dropTarget_legal_core [OF ordered_flattenOutline [OF assms]] .

theorem dropTarget_legal_witness:
  "\<exists>t. dropTarget (flattenOutline sample_outline (\<lambda>_. False)) (\<lambda>id. id = js ''b'') 4 1 = Some t
     \<and> legal_drop (flattenOutline sample_outline (\<lambda>_. False)) (\<lambda>id. id = js ''b'') t
     \<and> dt_parentId t = Some (js ''a'') \<and> dt_afterId t = Some (js ''d'')"
proof -
  have "distinct (forest_ids sample_outline)" by code_simp
  moreover have "dropTarget (flattenOutline sample_outline (\<lambda>_. False)) (\<lambda>id. id = js ''b'') 4 1
      = Some \<lparr>dt_parentId = Some (js ''a''), dt_afterId = Some (js ''d''), dt_depth = 1, dt_gap = 4\<rparr>"
    by code_simp
  ultimately show ?thesis
    using dropTarget_legal [of sample_outline "\<lambda>_. False" "\<lambda>id. id = js ''b''" 4 1] by auto
qed

end
