(* ===== verification/Graph_Snapshot.thy ===== *)
theory Graph_Snapshot
  imports Outline_Rows
begin

text \<open>
  \<open>core-port/snapshot.ts\<close> and \<open>core-port/content-patch.ts\<close>: the immutable snapshot of a
  graph the session publishes, and how a new summary, a re-read outline or a list of content
  updates is merged into it. Object identity, which the source keeps for unchanged values so
  that views re-render less, is not visible in values: \<open>===\<close> on immutable values is equality
  here, and the lemmas show that sharing old objects never changes a value.
\<close>

subsection \<open>Reading\<close>

text \<open>\<open>byId\<close> builds \<open>new Map(documents.map(...))\<close>: of two documents with one id the later counts.\<close>

definition byId :: "('a \<Rightarrow> js_string) \<Rightarrow> 'a list \<Rightarrow> js_string \<Rightarrow> 'a option" where
  "byId key documents ident = map_of (rev (map (\<lambda>document. (key document, document)) documents)) ident"

definition findPage :: "graph_snapshot \<Rightarrow> page_id \<Rightarrow> page_snapshot option" where
  "findPage snapshot pageId = byId pg_id (gs_pages snapshot) pageId"

definition findTag :: "graph_snapshot \<Rightarrow> tag_id \<Rightarrow> tag_snapshot option" where
  "findTag snapshot tagId = byId tg_id (gs_tags snapshot) tagId"

text \<open>\<open>findOutline\<close>, by the blocks of the document found: all its callers use of it.\<close>

definition findOutline :: "graph_snapshot \<Rightarrow> outline_owner \<Rightarrow> block_snapshot list option" where
  "findOutline snapshot owner =
     (case findPage snapshot (owner_id owner) of
        Some page \<Rightarrow> Some (pg_blocks page)
      | None \<Rightarrow> map_option tg_blocks (findTag snapshot (owner_id owner)))"

definition outlineOwnerKey :: "outline_owner \<Rightarrow> js_string" where
  "outlineOwnerKey owner = js ''document:'' @ owner_id owner"

definition sameOutlineOwner :: "outline_owner \<Rightarrow> outline_owner \<Rightarrow> bool" where
  "sameOutlineOwner left right \<longleftrightarrow> owner_id left = owner_id right"

definition propertyField :: "property_bag \<Rightarrow> property_key \<Rightarrow> property_field option" where
  "propertyField bag key = find (\<lambda>field. pf_key field = key) bag"

definition singleValue :: "property_bag \<Rightarrow> property_key \<Rightarrow> property_value option" where
  "singleValue bag key =
     (case propertyField bag key of
        None \<Rightarrow> None
      | Some field \<Rightarrow> (case pf_values field of [] \<Rightarrow> None | value # _ \<Rightarrow> Some value))"

definition stringValue :: "property_bag \<Rightarrow> property_key \<Rightarrow> js_string option" where
  "stringValue bag key = (case singleValue bag key of Some (StringValue v) \<Rightarrow> Some v | _ \<Rightarrow> None)"

definition queryDocument :: "property_bag \<Rightarrow> property_document option" where
  "queryDocument bag =
     (case singleValue bag (js ''builtin.query'') of
        Some (DocumentValue document) \<Rightarrow>
          if doc_schema document = js ''neoseq.query'' then Some document else None
      | _ \<Rightarrow> None)"

definition numberValue :: "property_bag \<Rightarrow> property_key \<Rightarrow> rat option" where
  "numberValue bag key = (case singleValue bag key of Some (NumberValue v) \<Rightarrow> Some v | _ \<Rightarrow> None)"

definition dateValue :: "property_bag \<Rightarrow> property_key \<Rightarrow> local_date option" where
  "dateValue bag key = (case singleValue bag key of Some (DateValue v) \<Rightarrow> Some v | _ \<Rightarrow> None)"

definition booleanValue :: "property_bag \<Rightarrow> property_key \<Rightarrow> bool" where
  "booleanValue bag key = (case singleValue bag key of Some (CheckboxValue v) \<Rightarrow> v | _ \<Rightarrow> False)"

definition journalDate :: "page_snapshot \<Rightarrow> local_date option" where
  "journalDate page = dateValue (pg_properties page) (js ''builtin.journal-date'')"

definition pageTitle :: "page_snapshot \<Rightarrow> js_string" where
  "pageTitle page =
     (case journalDate page of
        Some date \<Rightarrow> date
      | None \<Rightarrow> if pg_title page \<noteq> [] then pg_title page else pg_id page)"

datatype page_kind = RegularPage | JournalPage

definition pageKind :: "page_snapshot \<Rightarrow> page_kind" where
  "pageKind page =
     (if stringValue (pg_properties page) (js ''builtin.page-kind'') = Some (js ''journal'')
      then JournalPage else RegularPage)"

definition isDeleted :: "page_snapshot \<Rightarrow> bool" where
  "isDeleted page \<longleftrightarrow> singleValue (pg_properties page) (js ''builtin.deleted-at'') \<noteq> None"

definition findJournalPage :: "graph_snapshot \<Rightarrow> local_date \<Rightarrow> page_snapshot option" where
  "findJournalPage snapshot date =
     find (\<lambda>page. pageKind page = JournalPage \<and> journalDate page = Some date) (gs_pages snapshot)"

definition documentTitle :: "graph_snapshot \<Rightarrow> js_string \<Rightarrow> js_string" where
  "documentTitle snapshot ident =
     (case byId pd_id (gs_page_directory snapshot) ident of
        Some entry \<Rightarrow> pd_title entry
      | None \<Rightarrow>
          (case findPage snapshot ident of
             Some page \<Rightarrow> pageTitle page
           | None \<Rightarrow> (case findTag snapshot ident of Some tag \<Rightarrow> tg_name tag | None \<Rightarrow> ident)))"

subsection \<open>Merging a summary\<close>

fun rematerializeBlock ::
  "(page_id \<rightharpoonup> page_directory_entry) \<Rightarrow> block_snapshot \<Rightarrow> block_snapshot" where
  "rematerializeBlock directory (Block ident content md references properties tags children) =
     (let children' = map (rematerializeBlock directory) children;
          childrenChanged = (children' \<noteq> children)
      in if references = []
         then (if childrenChanged then Block ident content md references properties tags children'
               else Block ident content md references properties tags children)
         else let projection = projectInlineContent content directory
              in if \<not> childrenChanged \<and> markdown projection = md \<and> pageReferences projection = references
                 then Block ident content md references properties tags children
                 else Block ident content (markdown projection) (pageReferences projection)
                        properties tags children')"

definition mergeSummary :: "graph_summary \<Rightarrow> graph_snapshot \<Rightarrow> graph_snapshot" where
  "mergeSummary summary current =
     (let directory = pageDirectoryIndex (gm_page_directory summary);
          hydrate = map (rematerializeBlock directory);
          hydrated = map_of (rev
            (map (\<lambda>page. (pg_id page, hydrate (pg_blocks page))) (gs_pages current)
             @ map (\<lambda>tag. (tg_id tag, hydrate (tg_blocks tag))) (gs_tags current)));
          blocks = (\<lambda>ident. case hydrated ident of Some bs \<Rightarrow> bs | None \<Rightarrow> [])
      in \<lparr>gs_schema_version = gm_schema_version summary,
          gs_graph_id = gm_graph_id summary,
          gs_pages = map (\<lambda>page. \<lparr>pg_id = ps_id page, pg_title = ps_title page,
              pg_properties = ps_properties page, pg_tags = ps_tags page,
              pg_blocks = blocks (ps_id page)\<rparr>) (gm_pages summary),
          gs_page_directory = gm_page_directory summary,
          gs_tags = map (\<lambda>tag. \<lparr>tg_id = ts_id tag, tg_name = ts_name tag,
              tg_properties = ts_properties tag, tg_defaults = ts_defaults tag,
              tg_blocks = blocks (ts_id tag)\<rparr>) (gm_tags summary),
          gs_settings = gm_settings summary,
          gs_conflicts = gm_conflicts summary,
          gs_quarantined = gm_quarantined summary\<rparr>)"

definition mergePage :: "graph_snapshot \<Rightarrow> page_snapshot \<Rightarrow> graph_snapshot" where
  "mergePage snapshot page =
     snapshot\<lparr>gs_pages := map (\<lambda>current. if pg_id current = pg_id page then page else current) (gs_pages snapshot)\<rparr>"

subsection \<open>Merging an outline\<close>

text \<open>\<open>remember\<close>: every block of the old outline by its id, later ones over earlier ones.\<close>

fun remember :: "block_snapshot list \<Rightarrow> (block_id \<rightharpoonup> block_snapshot) \<Rightarrow> (block_id \<rightharpoonup> block_snapshot)" where
  "remember [] before = before"
| "remember (block # blocks) before =
     remember blocks (remember (bl_children block) (before(bl_id block \<mapsto> block)))"

fun share ::
  "(block_id \<rightharpoonup> block_snapshot) \<Rightarrow> block_snapshot list \<Rightarrow> block_snapshot list option \<Rightarrow> block_snapshot list"
and share_block :: "(block_id \<rightharpoonup> block_snapshot) \<Rightarrow> block_snapshot \<Rightarrow> block_snapshot" where
  "share before blocks prior =
     (let shared = map (share_block before) blocks
      in if prior = Some shared then (case prior of Some bs \<Rightarrow> bs | None \<Rightarrow> shared) else shared)"
| "share_block before (Block ident content md references properties tags kids) =
     (let old = before ident;
          children = share before kids (map_option bl_children old)
      in case old of
           Some prev \<Rightarrow>
             if children = bl_children prev \<and> bl_markdown prev = md \<and> bl_content prev = content
                \<and> bl_page_references prev = references \<and> bl_properties prev = properties \<and> bl_tags prev = tags
             then prev
             else if children = kids then Block ident content md references properties tags kids
             else Block ident content md references properties tags children
         | None \<Rightarrow>
             if children = kids then Block ident content md references properties tags kids
             else Block ident content md references properties tags children)"

declare share.simps [simp del] share_block.simps [simp del]

definition shareBlocks :: "block_snapshot list \<Rightarrow> block_snapshot list \<Rightarrow> block_snapshot list" where
  "shareBlocks previous next_blocks =
     (if previous = [] then next_blocks
      else share (remember previous Map.empty) next_blocks (Some previous))"

definition mergeOutline :: "graph_snapshot \<Rightarrow> outline_snapshot \<Rightarrow> graph_snapshot" where
  "mergeOutline snapshot outline =
     (let current = findOutline snapshot (os_owner outline);
          blocks = shareBlocks (case current of Some bs \<Rightarrow> bs | None \<Rightarrow> []) (os_blocks outline);
          ident = owner_id (os_owner outline)
      in if current = Some blocks then snapshot
         else snapshot\<lparr>gs_pages := map (\<lambda>page. if pg_id page = ident then page\<lparr>pg_blocks := blocks\<rparr> else page) (gs_pages snapshot),
                gs_tags := map (\<lambda>tag. if tg_id tag = ident then tag\<lparr>tg_blocks := blocks\<rparr> else tag) (gs_tags snapshot)\<rparr>)"

subsection \<open>Content updates\<close>

type_synonym owner_updates = "js_string \<rightharpoonup> (block_id \<rightharpoonup> block_content_update)"

fun updates_by_owner :: "block_content_update list \<Rightarrow> owner_updates \<Rightarrow> owner_updates" where
  "updates_by_owner [] byOwner = byOwner"
| "updates_by_owner (update # updates) byOwner =
     (let key = outlineOwnerKey (up_owner update);
          blocks = (case byOwner key of Some bs \<Rightarrow> bs | None \<Rightarrow> Map.empty)
      in updates_by_owner updates (byOwner(key \<mapsto> blocks(up_block_id update \<mapsto> update))))"

fun patch_block :: "(block_id \<rightharpoonup> block_content_update) \<Rightarrow> block_snapshot \<Rightarrow> block_snapshot" where
  "patch_block updates (Block ident content md references properties tags kids) =
     (let children = map (patch_block updates) kids
      in case updates ident of
           None \<Rightarrow> Block ident content md references properties tags children
         | Some update \<Rightarrow>
             Block ident (up_content update) (up_markdown update) (up_page_references update)
               (up_properties update) tags children)"

definition applyContentUpdates :: "graph_snapshot \<Rightarrow> block_content_update list \<Rightarrow> graph_snapshot" where
  "applyContentUpdates snapshot updates =
     (let byOwner = updates_by_owner updates Map.empty;
          patch = (\<lambda>kind ident blocks.
            case byOwner (outlineOwnerKey \<lparr>owner_kind = kind, owner_id = ident\<rparr>) of
              None \<Rightarrow> blocks
            | Some us \<Rightarrow> map (patch_block us) blocks)
      in snapshot\<lparr>gs_pages := map (\<lambda>page. page\<lparr>pg_blocks := patch PageOwner (pg_id page) (pg_blocks page)\<rparr>) (gs_pages snapshot),
                  gs_tags := map (\<lambda>tag. tag\<lparr>tg_blocks := patch TagOwner (tg_id tag) (tg_blocks tag)\<rparr>) (gs_tags snapshot)\<rparr>)"


subsection \<open>Sharing keeps the value\<close>

definition keyed :: "(block_id \<rightharpoonup> block_snapshot) \<Rightarrow> bool" where
  "keyed before \<longleftrightarrow> (\<forall>ident block. before ident = Some block \<longrightarrow> bl_id block = ident)"

lemma keyed_update: "keyed before \<Longrightarrow> keyed (before(bl_id block \<mapsto> block))"
  unfolding keyed_def by (metis fun_upd_apply option.inject)

lemma keyed_remember: "keyed before \<Longrightarrow> keyed (remember blocks before)"
  by (induction blocks before rule: remember.induct) (simp_all add: keyed_update)

lemma share_eq:
  "keyed before \<Longrightarrow> share before blocks prior = blocks"
  "keyed before \<Longrightarrow> share_block before block = block"
proof (induction before blocks prior and before block rule: share_share_block.induct)
  case (1 before blocks prior)
  have "map (share_block before) blocks = blocks"
    using "1.IH" "1.prems" by (intro map_idI) auto
  then show ?case by (simp add: share.simps Let_def)
next
  case (2 before ident content md references properties tags kids)
  have kids: "share before kids (map_option bl_children (before ident)) = kids"
    using "2.IH" [OF refl] "2.prems" by simp
  show ?case
  proof (cases "before ident")
    case (Some prev)
    then have "bl_id prev = ident"
      using "2.prems" by (simp add: keyed_def)
    then show ?thesis
      using kids Some by (cases prev) (simp add: share_block.simps Let_def)
  qed (use kids in \<open>simp add: share_block.simps Let_def\<close>)
qed

lemma shareBlocks_eq: "shareBlocks previous next_blocks = next_blocks"
  using share_eq(1) [OF keyed_remember [of Map.empty previous]] by (simp add: shareBlocks_def keyed_def)

subsection \<open>Lookups by id\<close>

lemma byId_in: "byId key xs i = Some x \<Longrightarrow> x \<in> set xs \<and> key x = i"
  unfolding byId_def by (auto dest!: map_of_SomeD)

lemma byId_None: "byId key xs i = None \<longleftrightarrow> i \<notin> key ` set xs"
  by (simp add: byId_def map_of_eq_None_iff image_image)

lemma byId_snoc: "byId key (xs @ [x]) i = (if key x = i then Some x else byId key xs i)"
  by (simp add: byId_def)

lemma byId_map:
  assumes "\<And>x. key (f x) = key x"
  shows "byId key (map f xs) i = map_option f (byId key xs i)"
  by (induction xs rule: rev_induct) (auto simp: byId_snoc assms byId_def)

lemma byId_map_from:
  assumes "\<And>x. key' (f x) = key x"
  shows "byId key' (map f xs) i = map_option f (byId key xs i)"
  by (induction xs rule: rev_induct) (auto simp: byId_snoc assms byId_def)

lemma outlineOwnerKey_inject [simp]:
  "outlineOwnerKey a = outlineOwnerKey b \<longleftrightarrow> owner_id a = owner_id b"
  by (simp add: outlineOwnerKey_def)

definition set_page_blocks :: "page_id \<Rightarrow> block_snapshot list \<Rightarrow> page_snapshot \<Rightarrow> page_snapshot" where
  "set_page_blocks ident blocks page = (if pg_id page = ident then page\<lparr>pg_blocks := blocks\<rparr> else page)"

definition set_tag_blocks :: "tag_id \<Rightarrow> block_snapshot list \<Rightarrow> tag_snapshot \<Rightarrow> tag_snapshot" where
  "set_tag_blocks ident blocks tag = (if tg_id tag = ident then tag\<lparr>tg_blocks := blocks\<rparr> else tag)"

lemma set_blocks_id [simp]:
  "pg_id (set_page_blocks ident blocks page) = pg_id page"
  "tg_id (set_tag_blocks ident blocks tag) = tg_id tag"
  by (auto simp: set_page_blocks_def set_tag_blocks_def)

lemma mergeOutline_eq:
  "mergeOutline snapshot outline =
     (if findOutline snapshot (os_owner outline) = Some (os_blocks outline) then snapshot
      else snapshot\<lparr>
        gs_pages := map (set_page_blocks (owner_id (os_owner outline)) (os_blocks outline)) (gs_pages snapshot),
        gs_tags := map (set_tag_blocks (owner_id (os_owner outline)) (os_blocks outline)) (gs_tags snapshot)\<rparr>)"
  by (simp add: mergeOutline_def shareBlocks_eq Let_def set_page_blocks_def [abs_def] set_tag_blocks_def [abs_def])

lemma findOutline_merge:
  "findOutline (mergeOutline snapshot outline) owner =
     (if owner_id owner = owner_id (os_owner outline) \<and> findOutline snapshot owner \<noteq> None
      then Some (os_blocks outline) else findOutline snapshot owner)"
proof (cases "findOutline snapshot (os_owner outline) = Some (os_blocks outline)")
  case True
  moreover have "findOutline snapshot owner = findOutline snapshot (os_owner outline)"
    if "owner_id owner = owner_id (os_owner outline)"
    by (simp only: findOutline_def that)
  ultimately show ?thesis
    by (auto simp: mergeOutline_eq)
next
  case False
  have page: "byId pg_id (map (set_page_blocks i bs) xs) j = map_option (set_page_blocks i bs) (byId pg_id xs j)" for i bs xs j
    by (rule byId_map) simp
  have tag: "byId tg_id (map (set_tag_blocks i bs) xs) j = map_option (set_tag_blocks i bs) (byId tg_id xs j)" for i bs xs j
    by (rule byId_map) simp
  have merged: "mergeOutline snapshot outline = snapshot\<lparr>
        gs_pages := map (set_page_blocks (owner_id (os_owner outline)) (os_blocks outline)) (gs_pages snapshot),
        gs_tags := map (set_tag_blocks (owner_id (os_owner outline)) (os_blocks outline)) (gs_tags snapshot)\<rparr>"
    using False by (simp add: mergeOutline_eq)
  show ?thesis
  proof (cases "byId pg_id (gs_pages snapshot) (owner_id owner)")
    case (Some p)
    then show ?thesis
      using byId_in [OF Some] by (simp add: merged findOutline_def findPage_def page set_page_blocks_def)
  next
    case None
    then show ?thesis
      using byId_in [of tg_id "gs_tags snapshot" "owner_id owner"]
      by (cases "byId tg_id (gs_tags snapshot) (owner_id owner)")
        (simp_all add: merged findOutline_def findPage_def findTag_def page tag set_tag_blocks_def)
  qed
qed


subsection \<open>What the merges leave untouched\<close>

lemma bl_id_rematerialize [simp]: "bl_id (rematerializeBlock directory block) = bl_id block"
  by (cases block) (auto simp: Let_def)

lemma rematerializeBlock_eq:
  "rematerializeBlock directory (Block ident content md references properties tags children) =
     (let projection = projectInlineContent content directory
      in Block ident content (if references = [] then md else markdown projection)
           (if references = [] then references else pageReferences projection)
           properties tags (map (rematerializeBlock directory) children))"
  by (auto simp: Let_def)

lemma bl_id_patch [simp]: "bl_id (patch_block updates block) = bl_id block"
  by (cases block) (auto simp: Let_def split: option.splits)

lemma preorder_map:
  assumes "\<And>block. bl_children (f block) = map f (bl_children block)"
  shows "preorder (map f blocks) = map f (preorder blocks)"
  by (induction blocks rule: preorder.induct) (simp_all add: assms)

lemma forest_ids_map:
  assumes "\<And>block. bl_children (f block) = map f (bl_children block)" and "\<And>block. bl_id (f block) = bl_id block"
  shows "forest_ids (map f blocks) = forest_ids blocks"
  using assms(2) by (simp add: forest_ids_def preorder_map [OF assms(1)])

lemma patch_children: "bl_children (patch_block updates block) = map (patch_block updates) (bl_children block)"
  by (cases block) (auto simp: Let_def split: option.splits)

lemma rematerialize_children:
  "bl_children (rematerializeBlock directory block) = map (rematerializeBlock directory) (bl_children block)"
  by (cases block) (simp add: rematerializeBlock_eq Let_def del: rematerializeBlock.simps)

lemma findBlock_map:
  assumes children: "\<And>block. bl_children (f block) = map f (bl_children block)"
    and ids: "\<And>block. bl_id (f block) = bl_id block" and distinct: "distinct (forest_ids blocks)"
  shows "findBlock (map f blocks) blockId = map_option f (findBlock blocks blockId)"
proof -
  have distinct': "distinct (forest_ids (map f blocks))"
    using distinct by (simp add: forest_ids_map [OF children ids])
  show ?thesis
  proof (cases "findBlock blocks blockId")
    case None
    then have "findBlock (map f blocks) blockId = None"
      unfolding findBlock_None [OF distinct] findBlock_None [OF distinct'] forest_ids_map [OF children ids] .
    then show ?thesis using None by simp
  next
    case (Some block)
    then have "f block \<in> set (preorder (map f blocks))" "bl_id (f block) = blockId"
      using findBlock_Some [OF distinct] ids by (auto simp: preorder_map [OF children])
    then have "findBlock (map f blocks) blockId = Some (f block)"
      using findBlock_Some [OF distinct'] by blast
    then show ?thesis using Some by simp
  qed
qed


text \<open>The update that counts for a block: the last one for it in the list.\<close>

definition latest_update ::
  "block_content_update list \<Rightarrow> js_string \<Rightarrow> block_id \<Rightarrow> block_content_update option" where
  "latest_update updates ident blockId =
     find (\<lambda>update. owner_id (up_owner update) = ident \<and> up_block_id update = blockId) (rev updates)"

definition owner_lookup :: "owner_updates \<Rightarrow> js_string \<Rightarrow> block_id \<Rightarrow> block_content_update option" where
  "owner_lookup byOwner ident blockId =
     (case byOwner (js ''document:'' @ ident) of None \<Rightarrow> None | Some blocks \<Rightarrow> blocks blockId)"

lemma find_append: "find P (xs @ ys) = (case find P xs of None \<Rightarrow> find P ys | Some x \<Rightarrow> Some x)"
  by (induction xs) auto

lemma updates_by_owner_lookup:
  "owner_lookup (updates_by_owner updates byOwner) ident blockId =
     (case latest_update updates ident blockId of
        Some update \<Rightarrow> Some update
      | None \<Rightarrow> owner_lookup byOwner ident blockId)"
proof (induction updates arbitrary: byOwner)
  case Nil
  then show ?case by (simp add: latest_update_def)
next
  case (Cons update updates)
  define next_map where "next_map = byOwner(outlineOwnerKey (up_owner update) \<mapsto>
      (case byOwner (outlineOwnerKey (up_owner update)) of Some bs \<Rightarrow> bs | None \<Rightarrow> Map.empty)
        (up_block_id update \<mapsto> update))"
  have step: "owner_lookup next_map ident blockId =
      (if owner_id (up_owner update) = ident \<and> up_block_id update = blockId then Some update
       else owner_lookup byOwner ident blockId)"
    by (auto simp: next_map_def owner_lookup_def outlineOwnerKey_def split: option.splits)
  have "updates_by_owner (update # updates) byOwner = updates_by_owner updates next_map"
    by (simp add: next_map_def Let_def)
  then show ?case
    using Cons.IH [of next_map] step by (simp add: latest_update_def find_append split: option.splits)
qed

lemma patch_block_lookup:
  "patch_block (owner_lookup byOwner ident) block =
     (case byOwner (js ''document:'' @ ident) of None \<Rightarrow> block | Some us \<Rightarrow> patch_block us block)"
proof (cases "byOwner (js ''document:'' @ ident)")
  case None
  then have empty: "owner_lookup byOwner ident = Map.empty"
    by (auto simp: owner_lookup_def)
  have "patch_block Map.empty block = block"
    by (induction block) (simp add: map_idI)
  then show ?thesis using None empty by simp
next
  case (Some us)
  then have "owner_lookup byOwner ident = us"
    by (auto simp: owner_lookup_def)
  then show ?thesis using Some by simp
qed

lemma applyContentUpdates_eq:
  "applyContentUpdates snapshot updates = snapshot\<lparr>
     gs_pages := map (\<lambda>page. page\<lparr>pg_blocks := map (patch_block (latest_update updates (pg_id page))) (pg_blocks page)\<rparr>) (gs_pages snapshot),
     gs_tags := map (\<lambda>tag. tag\<lparr>tg_blocks := map (patch_block (latest_update updates (tg_id tag))) (tg_blocks tag)\<rparr>) (gs_tags snapshot)\<rparr>"
proof -
  let ?by = "updates_by_owner updates Map.empty"
  have "latest_update updates ident = owner_lookup ?by ident" for ident
    using updates_by_owner_lookup [of updates Map.empty ident]
    by (auto simp: fun_eq_iff owner_lookup_def [of Map.empty] split: option.splits)
  then have "map (patch_block (latest_update updates ident)) blocks =
      (case ?by (js ''document:'' @ ident) of None \<Rightarrow> blocks | Some us \<Rightarrow> map (patch_block us) blocks)" for ident blocks
    by (auto simp: patch_block_lookup split: option.splits intro: map_idI)
  then show ?thesis
    by (simp add: applyContentUpdates_def Let_def outlineOwnerKey_def)
qed

lemma findOutline_updates:
  "findOutline (applyContentUpdates snapshot updates) owner =
     map_option (map (patch_block (latest_update updates (owner_id owner)))) (findOutline snapshot owner)"
proof -
  have page: "byId pg_id (map (\<lambda>page. page\<lparr>pg_blocks := f page\<rparr>) xs) i
      = map_option (\<lambda>page. page\<lparr>pg_blocks := f page\<rparr>) (byId pg_id xs i)" for f xs i
    by (rule byId_map) simp
  have tag: "byId tg_id (map (\<lambda>tag. tag\<lparr>tg_blocks := f tag\<rparr>) xs) i
      = map_option (\<lambda>tag. tag\<lparr>tg_blocks := f tag\<rparr>) (byId tg_id xs i)" for f xs i
    by (rule byId_map) simp
  show ?thesis
  proof (cases "byId pg_id (gs_pages snapshot) (owner_id owner)")
    case (Some p)
    then show ?thesis
      using byId_in [OF Some] by (simp add: applyContentUpdates_eq findOutline_def findPage_def page)
  next
    case None
    then show ?thesis
      using byId_in [of tg_id "gs_tags snapshot" "owner_id owner"]
      by (cases "byId tg_id (gs_tags snapshot) (owner_id owner)")
        (simp_all add: applyContentUpdates_eq findOutline_def findPage_def findTag_def page tag)
  qed
qed

lemma map_of_rev_keyed: "map_of (rev (map (\<lambda>x. (key x, f x)) xs)) i = map_option f (byId key xs i)"
  by (induction xs rule: rev_induct) (auto simp: byId_snoc byId_def)

lemma hydrated_blocks:
  assumes "pg_id ` set (gs_pages current) \<inter> tg_id ` set (gs_tags current) = {}"
  shows "map_of (rev (map (\<lambda>page. (pg_id page, f (pg_blocks page))) (gs_pages current)
             @ map (\<lambda>tag. (tg_id tag, f (tg_blocks tag))) (gs_tags current))) (owner_id owner)
     = map_option f (findOutline current owner)"
proof -
  have "byId tg_id (gs_tags current) (owner_id owner) = None"
    if "byId pg_id (gs_pages current) (owner_id owner) = Some page" for page
    using byId_in [OF that] assms by (auto simp: byId_None)
  then show ?thesis
    unfolding rev_append map_of_append map_add_def map_of_rev_keyed
    by (cases "byId pg_id (gs_pages current) (owner_id owner)")
      (auto simp: findOutline_def findPage_def findTag_def option.map_comp comp_def split: option.splits)
qed

subsection \<open>Properties\<close>

text \<open>
  Merging a re-read outline installs exactly what was read: its owner, if the snapshot
  knows it, has the read blocks, every other outline is unchanged, and so is everything
  outside outlines. Keeping old blocks for unchanged ones never keeps an old value.
\<close>

theorem mergeOutline_reads:
  "findOutline (mergeOutline snapshot outline) owner =
      (if owner_id owner = owner_id (os_owner outline) \<and> findOutline snapshot owner \<noteq> None
       then Some (os_blocks outline) else findOutline snapshot owner)
   \<and> shareBlocks previous blocks = blocks
   \<and> map pg_id (gs_pages (mergeOutline snapshot outline)) = map pg_id (gs_pages snapshot)
   \<and> map tg_id (gs_tags (mergeOutline snapshot outline)) = map tg_id (gs_tags snapshot)
   \<and> gs_page_directory (mergeOutline snapshot outline) = gs_page_directory snapshot
   \<and> gs_settings (mergeOutline snapshot outline) = gs_settings snapshot
   \<and> gs_conflicts (mergeOutline snapshot outline) = gs_conflicts snapshot"
  by (intro conjI findOutline_merge shareBlocks_eq) (simp_all add: mergeOutline_eq comp_def)

text \<open>
  Content updates install authoritative values: a block named by updates of its owner
  has the content, text, references and properties of the last of them, keeps its id, its
  tags and its place in the tree, and every other block is as it was.
\<close>

theorem applyContentUpdates_reads:
  assumes "findOutline snapshot owner = Some blocks" and "distinct (forest_ids blocks)"
  shows "\<exists>blocks'. findOutline (applyContentUpdates snapshot updates) owner = Some blocks'
     \<and> forest_ids blocks' = forest_ids blocks
     \<and> findBlock blocks' blockId =
         (case findBlock blocks blockId of
            None \<Rightarrow> None
          | Some block \<Rightarrow> Some (patch_block (latest_update updates (owner_id owner)) block))"
proof -
  let ?f = "patch_block (latest_update updates (owner_id owner))"
  have "findOutline (applyContentUpdates snapshot updates) owner = Some (map ?f blocks)"
    using findOutline_updates [of snapshot updates owner] assms(1) by simp
  moreover have "forest_ids (map ?f blocks) = forest_ids blocks"
    by (rule forest_ids_map [OF patch_children bl_id_patch])
  moreover have "findBlock (map ?f blocks) blockId = map_option ?f (findBlock blocks blockId)"
    by (rule findBlock_map [OF patch_children bl_id_patch assms(2)])
  ultimately show ?thesis
    by (intro exI [of _ "map ?f blocks"]) (simp split: option.splits)
qed

definition sample_snapshot :: graph_snapshot where
  "sample_snapshot = \<lparr>gs_schema_version = 1, gs_graph_id = js ''g'',
     gs_pages = [\<lparr>pg_id = js ''p'', pg_title = js ''Page'', pg_properties = [], pg_tags = [],
                  pg_blocks = sample_outline\<rparr>],
     gs_page_directory = [], gs_tags = [], gs_settings = [], gs_conflicts = [], gs_quarantined = []\<rparr>"

definition sample_update :: block_content_update where
  "sample_update = \<lparr>up_owner = \<lparr>owner_kind = PageOwner, owner_id = js ''p''\<rparr>, up_block_id = js ''c'',
     up_content = [Markdown (js ''new'')], up_markdown = js ''new'', up_page_references = [],
     up_properties = [], up_mapping = []\<rparr>"

theorem applyContentUpdates_reads_witness:
  "\<exists>blocks'. findOutline (applyContentUpdates sample_snapshot [sample_update])
        \<lparr>owner_kind = PageOwner, owner_id = js ''p''\<rparr> = Some blocks'
     \<and> forest_ids blocks' = forest_ids sample_outline"
proof -
  let ?o = "\<lparr>owner_kind = PageOwner, owner_id = js ''p''\<rparr>"
  have "findOutline sample_snapshot ?o = Some sample_outline" "distinct (forest_ids sample_outline)"
    by code_simp+
  then show ?thesis
    using applyContentUpdates_reads [of sample_snapshot ?o sample_outline "[sample_update]"] by blast
qed


lemma findOutline_summary:
  assumes "pg_id ` set (gs_pages current) \<inter> tg_id ` set (gs_tags current) = {}"
  shows "findOutline (mergeSummary summary current) owner =
      (if owner_id owner \<in> ps_id ` set (gm_pages summary) \<union> ts_id ` set (gm_tags summary)
       then Some (case findOutline current owner of
           None \<Rightarrow> []
         | Some blocks \<Rightarrow> map (rematerializeBlock (pageDirectoryIndex (gm_page_directory summary))) blocks)
       else None)"
proof -
  let ?f = "map (rematerializeBlock (pageDirectoryIndex (gm_page_directory summary)))"
  define bs where "bs = (\<lambda>i. case map_option ?f (findOutline current \<lparr>owner_kind = PageOwner, owner_id = i\<rparr>) of
      Some bs \<Rightarrow> bs | None \<Rightarrow> [])"
  have same: "findOutline current \<lparr>owner_kind = PageOwner, owner_id = owner_id owner\<rparr> = findOutline current owner"
    by (simp add: findOutline_def cong: option.case_cong)
  have hyd: "map_of (rev (map (\<lambda>page. (pg_id page, ?f (pg_blocks page))) (gs_pages current)
             @ map (\<lambda>tag. (tg_id tag, ?f (tg_blocks tag))) (gs_tags current))) i
      = map_option ?f (findOutline current \<lparr>owner_kind = PageOwner, owner_id = i\<rparr>)" for i
    using hydrated_blocks [OF assms, of ?f "\<lparr>owner_kind = PageOwner, owner_id = i\<rparr>"] by simp
  let ?page = "\<lambda>page. \<lparr>pg_id = ps_id page, pg_title = ps_title page,
      pg_properties = ps_properties page, pg_tags = ps_tags page, pg_blocks = bs (ps_id page)\<rparr>"
  let ?tag = "\<lambda>tag. \<lparr>tg_id = ts_id tag, tg_name = ts_name tag,
      tg_properties = ts_properties tag, tg_defaults = ts_defaults tag, tg_blocks = bs (ts_id tag)\<rparr>"
  have pages: "gs_pages (mergeSummary summary current) = map ?page (gm_pages summary)"
    and tags: "gs_tags (mergeSummary summary current) = map ?tag (gm_tags summary)"
    unfolding mergeSummary_def Let_def hyd bs_def by simp_all
  have bs_owner: "bs (owner_id owner) = (case findOutline current owner of None \<Rightarrow> [] | Some blocks \<Rightarrow> ?f blocks)"
    unfolding bs_def same by (cases "findOutline current owner") simp_all
  have page: "byId pg_id (map ?page xs) i = map_option ?page (byId ps_id xs i)" for xs i
    by (rule byId_map_from) simp
  have tag: "byId tg_id (map ?tag xs) i = map_option ?tag (byId ts_id xs i)" for xs i
    by (rule byId_map_from) simp
  show "findOutline (mergeSummary summary current) owner =
      (if owner_id owner \<in> ps_id ` set (gm_pages summary) \<union> ts_id ` set (gm_tags summary)
       then Some (case findOutline current owner of None \<Rightarrow> [] | Some blocks \<Rightarrow> ?f blocks) else None)"
    unfolding bs_owner [symmetric]
  proof (cases "byId ps_id (gm_pages summary) (owner_id owner)")
    case (Some p)
    then have "ps_id p = owner_id owner" "owner_id owner \<in> ps_id ` set (gm_pages summary)"
      using byId_in [OF Some] by (auto intro: rev_image_eqI [of p])
    then show "findOutline (mergeSummary summary current) owner =
        (if owner_id owner \<in> ps_id ` set (gm_pages summary) \<union> ts_id ` set (gm_tags summary)
         then Some (bs (owner_id owner)) else None)"
      using Some by (simp add: findOutline_def findPage_def pages page)
  next
    case None
    then have "owner_id owner \<notin> ps_id ` set (gm_pages summary)"
      by (simp add: byId_None)
    then show "findOutline (mergeSummary summary current) owner =
        (if owner_id owner \<in> ps_id ` set (gm_pages summary) \<union> ts_id ` set (gm_tags summary)
         then Some (bs (owner_id owner)) else None)"
      using None byId_in [of ts_id "gm_tags summary" "owner_id owner"] byId_None [of ts_id "gm_tags summary" "owner_id owner"]
      by (cases "byId ts_id (gm_tags summary) (owner_id owner)")
        (auto simp: findOutline_def findPage_def findTag_def pages tags page tag)
  qed
qed

text \<open>
  A new summary keeps the outlines already read: every document of the summary has the
  blocks the snapshot held for it, none if it held none, and no other document is kept. Each
  kept block has its id, content, properties and tags; one that shows page references shows
  them, after the merge, with the titles of the new directory.
\<close>

theorem mergeSummary_keeps_outlines:
  assumes "pg_id ` set (gs_pages current) \<inter> tg_id ` set (gs_tags current) = {}"
  shows "findOutline (mergeSummary summary current) owner =
      (if owner_id owner \<in> ps_id ` set (gm_pages summary) \<union> ts_id ` set (gm_tags summary)
       then Some (case findOutline current owner of
           None \<Rightarrow> []
         | Some blocks \<Rightarrow> map (rematerializeBlock (pageDirectoryIndex (gm_page_directory summary))) blocks)
       else None)
   \<and> (let after = rematerializeBlock (pageDirectoryIndex (gm_page_directory summary)) block;
          shown = projectInlineContent (bl_content block) (pageDirectoryIndex (gm_page_directory summary))
      in bl_id after = bl_id block \<and> bl_content after = bl_content block
       \<and> bl_properties after = bl_properties block \<and> bl_tags after = bl_tags block
       \<and> (if bl_page_references block = [] then bl_markdown after = bl_markdown block
          else bl_markdown after = markdown shown \<and> bl_page_references after = pageReferences shown))"
proof
  show "findOutline (mergeSummary summary current) owner =
      (if owner_id owner \<in> ps_id ` set (gm_pages summary) \<union> ts_id ` set (gm_tags summary)
       then Some (case findOutline current owner of
           None \<Rightarrow> []
         | Some blocks \<Rightarrow> map (rematerializeBlock (pageDirectoryIndex (gm_page_directory summary))) blocks)
       else None)"
    by (rule findOutline_summary [OF assms])
next
  show "let after = rematerializeBlock (pageDirectoryIndex (gm_page_directory summary)) block;
          shown = projectInlineContent (bl_content block) (pageDirectoryIndex (gm_page_directory summary))
      in bl_id after = bl_id block \<and> bl_content after = bl_content block
       \<and> bl_properties after = bl_properties block \<and> bl_tags after = bl_tags block
       \<and> (if bl_page_references block = [] then bl_markdown after = bl_markdown block
          else bl_markdown after = markdown shown \<and> bl_page_references after = pageReferences shown)"
    by (cases block) (simp add: rematerializeBlock_eq Let_def del: rematerializeBlock.simps)
qed

definition sample_summary :: graph_summary where
  "sample_summary = \<lparr>gm_schema_version = 1, gm_graph_id = js ''g'',
     gm_pages = [\<lparr>ps_id = js ''p'', ps_title = js ''Renamed'', ps_properties = [], ps_tags = []\<rparr>],
     gm_page_directory = [], gm_tags = [], gm_settings = [], gm_conflicts = [], gm_quarantined = []\<rparr>"

theorem mergeSummary_keeps_outlines_witness:
  "findOutline (mergeSummary sample_summary sample_snapshot) \<lparr>owner_kind = PageOwner, owner_id = js ''p''\<rparr>
     = Some sample_outline"
proof -
  let ?o = "\<lparr>owner_kind = PageOwner, owner_id = js ''p''\<rparr>"
  have "pg_id ` set (gs_pages sample_snapshot) \<inter> tg_id ` set (gs_tags sample_snapshot) = {}"
    by (simp add: sample_snapshot_def)
  moreover have "owner_id ?o \<in> ps_id ` set (gm_pages sample_summary) \<union> ts_id ` set (gm_tags sample_summary)"
    by (simp add: sample_summary_def)
  moreover have "(case findOutline sample_snapshot ?o of None \<Rightarrow> []
      | Some blocks \<Rightarrow> map (rematerializeBlock (pageDirectoryIndex (gm_page_directory sample_summary))) blocks)
      = sample_outline"
    by code_simp
  ultimately show ?thesis
    using mergeSummary_keeps_outlines [of sample_snapshot sample_summary ?o] by (simp only: if_True)
qed

end
