(* ===== verification/Content_Session.thy ===== *)
theory Content_Session
  imports Content_Rebase Inline_Edit Graph_Snapshot
begin

text \<open>
  \<open>features/blocks/editor/content-session.ts\<close>: the drafts of every edited block of a graph,
  their submission, and what happens to them when the graph changes under them.

  A store (\<open>content_sessions\<close>) holds the maps of class \<open>ContentSessions\<close>. A target is known
  by its owner's key and its block, the two parts the code joins with \<open>:\<close> or a line feed. A
  submission runs on the graph's lane: its prepare callback (\<open>submit_prepare\<close>) runs when the
  lane reaches it, and what follows the \<open>await\<close> (\<open>submit_complete\<close>) when the job is done, before
  the lane takes the next job. Between the two the reader may type and the graph may publish
  changes: these interleavings are the sequences of \<open>editor_event\<close>s.

  The revision counter and the listeners that only make views render again are left out, and
  so is the memo of canonical buffers. \<open>publish\<close> and the listeners of recovered drafts are
  recorded in order. The commands of the domain other than the three built here are opaque.
\<close>

subsection \<open>Data\<close>

datatype 'c command =
    ContentCommand content_command
  | InsertBlock outline_owner "block_id option" nat js_string
  | BatchCommand "'c command list"
  | OtherCommand 'c

text \<open>\<open>CorePortError\<close>, and what a job may throw. A \<open>CorePortFailure\<close> says whether the command applied.\<close>

record port_error =
  pe_code :: js_string
  pe_message :: js_string
  pe_retryable :: bool

datatype session_error =
    NoSource
  | CorePortFailure port_error bool
  | BufferFailure content_error
  | RebaseFailure rebase_error
  | OtherError js_string

definition BLOCK_UNAVAILABLE :: js_string where
  "BLOCK_UNAVAILABLE = js ''The edited block is no longer available. Your draft has been retained.''"

record content_target =
  ct_owner :: outline_owner
  ct_block :: block_id

type_synonym target_key = "js_string \<times> block_id"

definition target_key :: "content_target \<Rightarrow> target_key" where
  "target_key target = (outlineOwnerKey (ct_owner target), ct_block target)"

record content_projection_change =
  pc_before :: "content_atom list"
  pc_after :: "content_atom list"
  pc_mapping :: "content_range_change list"
  pc_beforeDirectory :: "page_directory_entry list"
  pc_afterDirectory :: "page_directory_entry list"

record composition =
  cp_content :: "inline_content list option"
  cp_mapping :: "content_range_change list"
  cp_beforeDirectory :: "page_directory_entry list"
  cp_afterDirectory :: "page_directory_entry list"

record block_position =
  bp_parentId :: "block_id option"
  bp_index :: nat

record 'c content_sessions =
  cs_owners :: "(js_string \<times> (block_id \<times> content_buffer) list) list"
  cs_ownerRefs :: "js_string \<rightharpoonup> outline_owner"
  cs_targets :: "target_key \<rightharpoonup> content_target"
  cs_retryActions :: "target_key \<rightharpoonup> 'c command list"
  cs_pending :: "target_key \<rightharpoonup> nat"
  cs_submitted :: "target_key \<rightharpoonup> content_buffer list"
  cs_orphans :: "target_key \<rightharpoonup> block_position"
  cs_unavailable :: "target_key \<rightharpoonup> js_string"
  cs_unsavedInput :: bool
  cs_dirty :: "target_key set"
  cs_compositions :: "target_key \<rightharpoonup> composition"
  cs_observers :: "target_key \<Rightarrow> nat"
  cs_published :: "(target_key \<times> content_projection_change) list"
  cs_recoveries :: "(content_target \<times> block_position) list"
  cs_recovered :: "(target_key \<times> block_id) list"

definition empty_sessions :: "'c content_sessions" where
  "empty_sessions =
     \<lparr>cs_owners = [], cs_ownerRefs = Map.empty, cs_targets = Map.empty, cs_retryActions = Map.empty,
      cs_pending = Map.empty, cs_submitted = Map.empty, cs_orphans = Map.empty,
      cs_unavailable = Map.empty, cs_unsavedInput = False, cs_dirty = {}, cs_compositions = Map.empty,
      cs_observers = (\<lambda>_. 0), cs_published = [], cs_recoveries = [], cs_recovered = []\<rparr>"

record unsaved_edit =
  ue_owner :: outline_owner
  ue_block_id :: block_id
  ue_bases :: "inline_content list list"
  ue_content :: "inline_content list"


subsection \<open>Reading and replacing drafts\<close>

definition buffers :: "'c content_sessions \<Rightarrow> outline_owner \<Rightarrow> (block_id \<times> content_buffer) list" where
  "buffers st owner =
     (case map_of (cs_owners st) (outlineOwnerKey owner) of None \<Rightarrow> [] | Some bs \<Rightarrow> bs)"

definition canonical :: "graph_snapshot \<Rightarrow> outline_owner \<Rightarrow> block_id \<Rightarrow> content_buffer option" where
  "canonical snapshot owner blockId =
     (case findOutline snapshot owner of
        None \<Rightarrow> None
      | Some blocks \<Rightarrow>
          (case findBlock blocks blockId of
             None \<Rightarrow> None
           | Some block \<Rightarrow> Some (createContentBuffer (bl_content block))))"

definition getSnapshot :: "graph_snapshot \<Rightarrow> 'c content_sessions \<Rightarrow> content_target \<Rightarrow> content_buffer option" where
  "getSnapshot snapshot st target =
     (case map_of (buffers st (ct_owner target)) (ct_block target) of
        Some buffer \<Rightarrow> Some buffer
      | None \<Rightarrow> canonical snapshot (ct_owner target) (ct_block target))"

definition mark_dirty ::
  "js_string \<Rightarrow> (block_id \<times> content_buffer) list \<Rightarrow> target_key set \<Rightarrow> block_id \<times> content_buffer \<Rightarrow> target_key set" where
  "mark_dirty ownerKey previous dirty entry =
     (if map_of previous (fst entry) = Some (snd entry) then dirty
      else if bufferIsClean (snd entry) then dirty - {(ownerKey, fst entry)}
      else insert (ownerKey, fst entry) dirty)"

definition forget_dirty ::
  "js_string \<Rightarrow> (block_id \<times> content_buffer) list \<Rightarrow> target_key set \<Rightarrow> block_id \<times> content_buffer \<Rightarrow> target_key set" where
  "forget_dirty ownerKey bs dirty entry =
     (if map_of bs (fst entry) = None then dirty - {(ownerKey, fst entry)} else dirty)"

definition replace_buffers ::
  "'c content_sessions \<Rightarrow> outline_owner \<Rightarrow> (block_id \<times> content_buffer) list \<Rightarrow> 'c content_sessions" where
  "replace_buffers st owner bs =
     (let previous = buffers st owner;
          ownerKey = outlineOwnerKey owner;
          marked = foldl (mark_dirty ownerKey previous) (cs_dirty st) bs;
          dirty = foldl (forget_dirty ownerKey bs) marked previous
      in st\<lparr>cs_owners := AList.update ownerKey bs (cs_owners st),
            cs_ownerRefs := (cs_ownerRefs st)(ownerKey \<mapsto> owner),
            cs_dirty := dirty,
            cs_unsavedInput := (dirty \<noteq> {})\<rparr>)"

definition set_buffer :: "'c content_sessions \<Rightarrow> content_target \<Rightarrow> content_buffer option \<Rightarrow> 'c content_sessions" where
  "set_buffer st target buffer =
     (let current = buffers st (ct_owner target)
      in if map_of current (ct_block target) = buffer then st
         else replace_buffers st (ct_owner target)
                (case buffer of
                   Some b \<Rightarrow> AList.update (ct_block target) b current
                 | None \<Rightarrow> AList.delete (ct_block target) current))"

definition target_of ::
  "'c content_sessions \<Rightarrow> outline_owner \<Rightarrow> block_id \<Rightarrow> content_target \<times> 'c content_sessions" where
  "target_of st owner blockId =
     (let key = (outlineOwnerKey owner, blockId)
      in case cs_targets st key of
           Some target \<Rightarrow> (target, st)
         | None \<Rightarrow>
             (let target = \<lparr>ct_owner = owner, ct_block = blockId\<rparr>
              in (target, st\<lparr>cs_targets := (cs_targets st)(key \<mapsto> target)\<rparr>)))"

definition open_session ::
  "'c content_sessions \<Rightarrow> outline_owner \<Rightarrow> block_id \<Rightarrow> inline_content list \<Rightarrow> content_target \<times> 'c content_sessions" where
  "open_session st owner blockId content =
     (let (target, st') = target_of st owner blockId
      in (target,
          if map_of (buffers st' owner) blockId = None
          then set_buffer st' target (Some (createContentBuffer content)) else st'))"

definition edit_session ::
  "graph_snapshot \<Rightarrow> 'c content_sessions \<Rightarrow> content_target \<Rightarrow> js_string \<Rightarrow> page_directory_entry list \<Rightarrow>
   nat option \<Rightarrow> session_error + 'c content_sessions" where
  "edit_session snapshot st target input directory caret =
     (case getSnapshot snapshot st target of
        None \<Rightarrow> Inl NoSource
      | Some buffer \<Rightarrow>
          (case editBuffer buffer (projectBuffer buffer directory) input caret of
             Inl e \<Rightarrow> Inl (BufferFailure e)
           | Inr edited \<Rightarrow> Inr (set_buffer st target (Some edited))))"

definition splice_session ::
  "graph_snapshot \<Rightarrow> 'c content_sessions \<Rightarrow> content_target \<Rightarrow> int \<Rightarrow> int \<Rightarrow> inline_content list \<Rightarrow>
   session_error + 'c content_sessions" where
  "splice_session snapshot st target index deleteCount ins =
     (case getSnapshot snapshot st target of
        None \<Rightarrow> Inl NoSource
      | Some buffer \<Rightarrow>
          (case spliceBuffer buffer index deleteCount ins of
             Inl e \<Rightarrow> Inl (BufferFailure e)
           | Inr edited \<Rightarrow> Inr (set_buffer st target (Some edited))))"

definition reset_session :: "graph_snapshot \<Rightarrow> 'c content_sessions \<Rightarrow> content_target \<Rightarrow> 'c content_sessions" where
  "reset_session snapshot st target =
     (let key = target_key target
      in set_buffer
           (st\<lparr>cs_retryActions := (cs_retryActions st)(key := None),
               cs_unavailable := (cs_unavailable st)(key := None)\<rparr>)
           target
           (if 0 < cs_observers st key then canonical snapshot (ct_owner target) (ct_block target) else None))"

definition adopt_session ::
  "graph_snapshot \<Rightarrow> 'c content_sessions \<Rightarrow> content_target \<Rightarrow> block_id \<Rightarrow> 'c content_sessions" where
  "adopt_session snapshot st target blockId =
     reset_session snapshot
       (case map_of (buffers st (ct_owner target)) (ct_block target) of
          None \<Rightarrow> st
        | Some buffer \<Rightarrow>
            if bufferIsClean buffer then st
            else let (adopter, st') = target_of st (ct_owner target) blockId
                 in set_buffer st' adopter (Some buffer))
       target"

definition release_session :: "'c content_sessions \<Rightarrow> content_target \<Rightarrow> 'c content_sessions" where
  "release_session st target =
     (let key = target_key target;
          current = buffers st (ct_owner target);
          buffer = map_of current (ct_block target);
          ownerKey = outlineOwnerKey (ct_owner target);
          remaining = AList.delete (ct_block target) current
      in if 0 < cs_observers st key \<or> cs_pending st key \<noteq> None \<or> cs_compositions st key \<noteq> None then st
         else if cs_retryActions st key \<noteq> None \<or> (case buffer of None \<Rightarrow> False | Some b \<Rightarrow> \<not> bufferIsClean b) then st
         else (if remaining \<noteq> [] then st\<lparr>cs_owners := AList.update ownerKey remaining (cs_owners st)\<rparr>
               else st\<lparr>cs_owners := AList.delete ownerKey (cs_owners st),
                       cs_ownerRefs := (cs_ownerRefs st)(ownerKey := None)\<rparr>)
                \<lparr>cs_unavailable := (cs_unavailable st)(key := None)\<rparr>)"

definition observe_session :: "graph_snapshot \<Rightarrow> 'c content_sessions \<Rightarrow> content_target \<Rightarrow> 'c content_sessions" where
  "observe_session snapshot st target =
     (let key = target_key target;
          st' = (if map_of (buffers st (ct_owner target)) (ct_block target) = None
                 then (case canonical snapshot (ct_owner target) (ct_block target) of
                         None \<Rightarrow> st
                       | Some buffer \<Rightarrow> set_buffer st target (Some buffer))
                 else st)
      in st'\<lparr>cs_observers := (cs_observers st')(key := cs_observers st' key + 1)\<rparr>)"

definition unobserve_session :: "'c content_sessions \<Rightarrow> content_target \<Rightarrow> 'c content_sessions" where
  "unobserve_session st target =
     (let key = target_key target
      in release_session (st\<lparr>cs_observers := (cs_observers st)(key := cs_observers st key - 1)\<rparr>) target)"

definition publish :: "'c content_sessions \<Rightarrow> target_key \<Rightarrow> content_projection_change \<Rightarrow> 'c content_sessions" where
  "publish st key change = st\<lparr>cs_published := cs_published st @ [(key, change)]\<rparr>"



subsection \<open>Composition\<close>

text \<open>
  A composition of the input method holds changes of the graph back. Ending it rebases the
  draft; the result is the store and what was thrown, if anything.
\<close>

definition start_composing :: "graph_snapshot \<Rightarrow> 'c content_sessions \<Rightarrow> content_target \<Rightarrow> 'c content_sessions" where
  "start_composing snapshot st target =
     (let directory = gs_page_directory snapshot
      in st\<lparr>cs_compositions := (cs_compositions st)
              (target_key target \<mapsto> \<lparr>cp_content = None, cp_mapping = [],
                 cp_beforeDirectory = directory, cp_afterDirectory = directory\<rparr>)\<rparr>)"

definition rebase_composed ::
  "graph_snapshot \<Rightarrow> 'c content_sessions \<Rightarrow> content_target \<Rightarrow> composition \<Rightarrow> inline_content list \<Rightarrow>
   'c content_sessions \<times> session_error option" where
  "rebase_composed snapshot st target composed content =
     (case getSnapshot snapshot st target of
        None \<Rightarrow> (st, Some NoSource)
      | Some before \<Rightarrow>
          (case rebaseOnto before content (Some (cp_mapping composed)) of
             Inl e \<Rightarrow> (st, Some (RebaseFailure e))
           | Inr (after, mapping) \<Rightarrow>
               (set_buffer
                  (publish st (target_key target)
                     \<lparr>pc_before = bufferAtoms before, pc_after = bufferAtoms after, pc_mapping = mapping,
                      pc_beforeDirectory = cp_beforeDirectory composed,
                      pc_afterDirectory = cp_afterDirectory composed\<rparr>)
                  target (Some after), None)))"

definition end_composing ::
  "graph_snapshot \<Rightarrow> 'c content_sessions \<Rightarrow> content_target \<Rightarrow> 'c content_sessions \<times> session_error option" where
  "end_composing snapshot st target =
     (let st' = st\<lparr>cs_compositions := (cs_compositions st)(target_key target := None)\<rparr>
      in case cs_compositions st (target_key target) of
           None \<Rightarrow> (st', None)
         | Some composed \<Rightarrow>
             (case cp_content composed of
                None \<Rightarrow> (st', None)
              | Some content \<Rightarrow> rebase_composed snapshot st' target composed content))"

definition setComposing ::
  "graph_snapshot \<Rightarrow> 'c content_sessions \<Rightarrow> content_target \<Rightarrow> bool \<Rightarrow> 'c content_sessions \<times> session_error option" where
  "setComposing snapshot st target composing =
     (if composing then (start_composing snapshot st target, None) else end_composing snapshot st target)"


subsection \<open>Recovery of a draft whose block was removed\<close>

definition positionIn :: "graph_snapshot \<Rightarrow> outline_owner \<Rightarrow> block_id \<Rightarrow> block_position option" where
  "positionIn snapshot owner blockId =
     (case findOutline snapshot owner of
        None \<Rightarrow> None
      | Some blocks \<Rightarrow>
          (case map_of (outlineIndex blocks) blockId of
             None \<Rightarrow> None
           | Some row \<Rightarrow> Some \<lparr>bp_parentId = row_parentId row, bp_index = row_index row\<rparr>))"

definition recover :: "'c content_sessions \<Rightarrow> content_target \<Rightarrow> 'c content_sessions" where
  "recover st target =
     (case cs_orphans st (target_key target) of
        None \<Rightarrow> st
      | Some position \<Rightarrow>
          st\<lparr>cs_orphans := (cs_orphans st)(target_key target := None),
             cs_recoveries := cs_recoveries st @ [(target, position)]\<rparr>)"

definition block_children :: "block_snapshot list \<Rightarrow> block_id option \<Rightarrow> block_snapshot list" where
  "block_children blocks parent =
     (case parent of
        None \<Rightarrow> blocks
      | Some parentId \<Rightarrow> (case findBlock blocks parentId of None \<Rightarrow> [] | Some block \<Rightarrow> bl_children block))"

definition recover_prepare ::
  "graph_snapshot \<Rightarrow> 'c content_sessions \<Rightarrow> content_target \<Rightarrow> block_position \<Rightarrow>
   ('c command \<times> inline_content list) option" where
  "recover_prepare snapshot st target position =
     (case map_of (buffers st (ct_owner target)) (ct_block target) of
        None \<Rightarrow> None
      | Some buffer \<Rightarrow>
          (let blocks = (case findOutline snapshot (ct_owner target) of None \<Rightarrow> [] | Some bs \<Rightarrow> bs);
               parent = (case bp_parentId position of
                           None \<Rightarrow> None
                         | Some parentId \<Rightarrow> if findBlock blocks parentId \<noteq> None then Some parentId else None)
           in Some (InsertBlock (ct_owner target) parent
                      (min (bp_index position) (length (block_children blocks parent))) [],
                    inlineContent (bufferAtoms buffer))))"

definition recover_content :: "content_target \<Rightarrow> block_id \<Rightarrow> inline_content list \<Rightarrow> 'c command option" where
  "recover_content target blockId content =
     (if content = [] then None
      else Some (ContentCommand (SpliceBlockContent (ct_owner target)
             \<lparr>bs_block_id = blockId, bs_index = 0, bs_delete = 0, bs_insert = content\<rparr>)))"

definition recover_done :: "'c content_sessions \<Rightarrow> content_target \<Rightarrow> block_id \<Rightarrow> 'c content_sessions" where
  "recover_done st target blockId =
     (let key = target_key target;
          st' = set_buffer (st\<lparr>cs_unavailable := (cs_unavailable st)(key := None)\<rparr>) target None
      in st'\<lparr>cs_recovered := cs_recovered st' @ [(key, blockId)]\<rparr>)"

definition recover_failed :: "'c content_sessions \<Rightarrow> content_target \<Rightarrow> 'c content_sessions" where
  "recover_failed st target =
     st\<lparr>cs_unavailable := (cs_unavailable st)(target_key target \<mapsto> BLOCK_UNAVAILABLE)\<rparr>"


subsection \<open>Submission\<close>

record 'c submission =
  sb_target :: content_target
  sb_buffer :: content_buffer
  sb_actions :: "'c command list"

fun flat_actions :: "'c command list \<Rightarrow> 'c command list" where
  "flat_actions [] = []"
| "flat_actions (BatchCommand commands # actions) = commands @ flat_actions actions"
| "flat_actions (action # actions) = action # flat_actions actions"

definition add_pending :: "target_key \<Rightarrow> 'c content_sessions \<Rightarrow> 'c content_sessions" where
  "add_pending key st =
     st\<lparr>cs_pending := (cs_pending st)(key \<mapsto> (case cs_pending st key of None \<Rightarrow> 0 | Some n \<Rightarrow> n) + 1)\<rparr>"

definition drop_pending :: "target_key \<Rightarrow> 'c content_sessions \<Rightarrow> 'c content_sessions" where
  "drop_pending key st =
     (let pending = (case cs_pending st key of None \<Rightarrow> 1 | Some n \<Rightarrow> n) - 1
      in st\<lparr>cs_pending := (cs_pending st)(key := if pending = 0 then None else Some pending)\<rparr>)"

datatype 'c prepared =
    PrepareThrows session_error
  | NothingToDo
  | Prepared "'c command" "'c submission" "'c content_sessions"

definition submit_commands ::
  "'c content_sessions \<Rightarrow> content_target \<Rightarrow> 'c command list \<Rightarrow> content_buffer \<Rightarrow> 'c command list \<times> 'c command list" where
  "submit_commands st target actions buffer =
     (let submittedActions =
            flat_actions ((case cs_retryActions st (target_key target) of None \<Rightarrow> [] | Some as \<Rightarrow> as) @ actions);
          content = bufferCommand buffer (ct_owner target) (ct_block target)
      in (submittedActions,
          submittedActions @ (case content of None \<Rightarrow> [] | Some command \<Rightarrow> [ContentCommand command])))"

definition submit_prepare ::
  "graph_snapshot \<Rightarrow> 'c content_sessions \<Rightarrow> content_target \<Rightarrow> 'c command list \<Rightarrow> 'c prepared" where
  "submit_prepare snapshot st target actions =
     (case cs_unavailable st (target_key target) of
        Some message \<Rightarrow>
          PrepareThrows (CorePortFailure
            \<lparr>pe_code = js ''target_missing'', pe_message = message, pe_retryable = False\<rparr> False)
      | None \<Rightarrow>
          (case getSnapshot snapshot st target of
             None \<Rightarrow> PrepareThrows NoSource
           | Some buffer \<Rightarrow>
               (let key = target_key target;
                    (submittedActions, commands) = submit_commands st target actions buffer
                in if commands = [] then NothingToDo
                   else Prepared
                     (case commands of [command] \<Rightarrow> command | _ \<Rightarrow> BatchCommand commands)
                     \<lparr>sb_target = target, sb_buffer = buffer, sb_actions = submittedActions\<rparr>
                     (set_buffer
                        (add_pending key
                          (st\<lparr>cs_retryActions := (cs_retryActions st)(key := None),
                              cs_submitted := (cs_submitted st)(key \<mapsto>
                                (case cs_submitted st key of None \<Rightarrow> [] | Some bs \<Rightarrow> bs) @ [buffer])\<rparr>))
                        target (Some (settleBuffer buffer))))))"

text \<open>What follows the \<open>await\<close> when the command was executed.\<close>

definition submit_settled ::
  "graph_snapshot \<Rightarrow> 'c content_sessions \<Rightarrow> 'c submission \<Rightarrow> session_error + (bool \<times> 'c content_sessions)" where
  "submit_settled snapshot st sub =
     (let target = sb_target sub; key = target_key target
      in case getSnapshot snapshot st target of
           None \<Rightarrow> Inl NoSource
         | Some buffer \<Rightarrow>
             (let newerInput = (\<not> sameContent (bufferAtoms buffer) (bufferAtoms (sb_buffer sub)))
              in case canonical snapshot (ct_owner target) (ct_block target) of
                   None \<Rightarrow>
                     if \<not> newerInput then Inr (newerInput, set_buffer st target (Some (settleBuffer (sb_buffer sub))))
                     else Inr (newerInput, st\<lparr>cs_unavailable := (cs_unavailable st)(key \<mapsto> BLOCK_UNAVAILABLE)\<rparr>)
                 | Some current \<Rightarrow>
                     if \<not> newerInput then Inr (newerInput, set_buffer st target (Some current))
                     else if sameContent (source buffer) (source current) then Inr (newerInput, st)
                     else (case rebaseOnto buffer (inlineContent (source current)) None of
                             Inl e \<Rightarrow> Inl (RebaseFailure e)
                           | Inr (after, mapping) \<Rightarrow> Inr (newerInput, set_buffer st target (Some after)))))"

fun was_applied :: "session_error \<Rightarrow> bool" where
  "was_applied (CorePortFailure detail applied) = applied"
| "was_applied _ = False"

text \<open>The catch block: the store, and the error thrown on or the answer of a recovery.\<close>

definition submit_catch ::
  "graph_snapshot \<Rightarrow> 'c content_sessions \<Rightarrow> 'c submission \<Rightarrow> session_error \<Rightarrow>
   'c content_sessions \<times> (session_error + bool)" where
  "submit_catch snapshot st sub error =
     (if was_applied error then (st, Inl error)
      else
        let target = sb_target sub; key = target_key target;
            st' = (if sb_actions sub \<noteq> [] then st\<lparr>cs_retryActions := (cs_retryActions st)(key \<mapsto> sb_actions sub)\<rparr>
                   else st)
        in case getSnapshot snapshot st' target of
             None \<Rightarrow> (st', Inl NoSource)
           | Some buffer \<Rightarrow>
               (case restoreBuffer (sb_buffer sub) buffer of
                  Inl e \<Rightarrow> (st', Inl (BufferFailure e))
                | Inr restored \<Rightarrow>
                    (let st'' = set_buffer st' target (Some restored)
                     in if cs_orphans st'' key \<noteq> None then (recover st'' target, Inr False)
                        else (st'', Inl error))))"

definition submit_finally :: "'c content_sessions \<Rightarrow> 'c submission \<Rightarrow> 'c content_sessions" where
  "submit_finally st sub =
     (let key = target_key (sb_target sub);
          inFlight = filter (\<lambda>entry. entry \<noteq> sb_buffer sub)
                       (case cs_submitted st key of None \<Rightarrow> [] | Some bs \<Rightarrow> bs)
      in release_session
           (drop_pending key
              (st\<lparr>cs_submitted := (cs_submitted st)(key := if inFlight = [] then None else Some inFlight)\<rparr>))
           (sb_target sub))"

definition submit_complete ::
  "graph_snapshot \<Rightarrow> 'c content_sessions \<Rightarrow> 'c submission \<Rightarrow> session_error option \<Rightarrow>
   'c content_sessions \<times> (session_error + bool)" where
  "submit_complete snapshot st sub failure =
     (let (st', answer) =
        (case failure of
           Some error \<Rightarrow> submit_catch snapshot st sub error
         | None \<Rightarrow>
             (case submit_settled snapshot st sub of
                Inr (newerInput, settled) \<Rightarrow> (settled, Inr newerInput)
              | Inl error \<Rightarrow> submit_catch snapshot st sub error))
      in (submit_finally st' sub, answer))"

text \<open>Every block whose input the graph has not acknowledged.\<close>

definition unsaved_entry ::
  "'c content_sessions \<Rightarrow> outline_owner \<Rightarrow> block_id \<times> content_buffer \<Rightarrow> unsaved_edit list" where
  "unsaved_entry st owner entry =
     (let inFlight = (case cs_submitted st (outlineOwnerKey owner, fst entry) of None \<Rightarrow> [] | Some bs \<Rightarrow> bs)
      in if inFlight = [] \<and> bufferIsClean (snd entry) then []
         else [\<lparr>ue_owner = owner, ue_block_id = fst entry,
               ue_bases = map (\<lambda>b. inlineContent (source b)) (inFlight @ [snd entry]),
               ue_content = inlineContent (bufferAtoms (snd entry))\<rparr>])"

definition unsaved :: "'c content_sessions \<Rightarrow> unsaved_edit list" where
  "unsaved st =
     concat (map (\<lambda>(ownerKey, bs).
         case cs_ownerRefs st ownerKey of
           None \<Rightarrow> []
         | Some owner \<Rightarrow> concat (map (unsaved_entry st owner) bs)) (cs_owners st))"

definition hasPendingActions :: "'c content_sessions \<Rightarrow> content_target \<Rightarrow> bool" where
  "hasPendingActions st target \<longleftrightarrow> cs_retryActions st (target_key target) \<noteq> None"


subsection \<open>The graph changes\<close>

record graph_notice =
  gn_snapshot :: graph_snapshot
  gn_updates :: "block_content_update list"
  gn_commandId :: "js_string option"

text \<open>One draft whose block is gone: dropped, kept for a recovery, or marked unavailable.\<close>

definition lost_entry ::
  "graph_notice \<Rightarrow> graph_snapshot \<Rightarrow> content_target \<Rightarrow> outline_owner \<Rightarrow> content_buffer \<Rightarrow> 'c content_sessions \<Rightarrow>
   'c content_sessions \<times> content_buffer option" where
  "lost_entry notice previous target owner buffer st =
     (let key = target_key target;
          position = (if gn_commandId notice \<noteq> None then None else positionIn previous owner (ct_block target))
      in if bufferIsClean buffer \<and> cs_pending st key = None then (st, None)
         else (case position of
                 Some p \<Rightarrow>
                   (let st' = st\<lparr>cs_orphans := (cs_orphans st)(key \<mapsto> p)\<rparr>
                    in (if cs_pending st' key = None then recover st' target else st', Some buffer))
               | None \<Rightarrow>
                   (st\<lparr>cs_unavailable := (cs_unavailable st)(key \<mapsto> BLOCK_UNAVAILABLE)\<rparr>, Some buffer)))"

text \<open>One draft that follows its block, when nothing holds it back.\<close>

definition follow_entry ::
  "graph_notice \<Rightarrow> page_directory_entry list \<Rightarrow> content_target \<Rightarrow> content_buffer \<Rightarrow> content_buffer \<Rightarrow>
   content_range_change list \<Rightarrow> content_buffer \<Rightarrow> 'c content_sessions \<Rightarrow> 'c content_sessions" where
  "follow_entry notice directory target current buffer mapping after st =
     (let key = target_key target;
          st' = (if sameContent (source after) (source current)
                 then st\<lparr>cs_unavailable := (cs_unavailable st)(key := None)\<rparr> else st)
      in publish st' key
           \<lparr>pc_before = bufferAtoms buffer, pc_after = bufferAtoms after, pc_mapping = mapping,
            pc_beforeDirectory = directory, pc_afterDirectory = gs_page_directory (gn_snapshot notice)\<rparr>)"

definition rebase_update ::
  "content_buffer \<Rightarrow> content_buffer \<Rightarrow> block_content_update option \<Rightarrow>
   rebase_error + (content_buffer \<times> content_range_change list)" where
  "rebase_update buffer current update =
     (case update of
        None \<Rightarrow> rebaseOnto buffer (inlineContent (source current)) None
      | Some u \<Rightarrow>
          if sameContent (contentAtoms (up_content u)) (source current)
          then rebaseOnto buffer (up_content u) (Some (up_mapping u))
          else rebaseOnto buffer (inlineContent (source current)) None)"

definition graph_entry ::
  "graph_notice \<Rightarrow> page_directory_entry list \<Rightarrow> graph_snapshot \<Rightarrow> outline_owner \<Rightarrow> block_id \<Rightarrow>
   content_buffer \<Rightarrow> 'c content_sessions \<Rightarrow> 'c content_sessions \<times> (session_error + content_buffer option)" where
  "graph_entry notice directory previous owner blockId buffer st =
     (let (target, st) = target_of st owner blockId; key = target_key target
      in case canonical (gn_snapshot notice) owner blockId of
           None \<Rightarrow> (let (st', kept) = lost_entry notice previous target owner buffer st in (st', Inr kept))
         | Some current \<Rightarrow>
             (let update = find (\<lambda>u. up_block_id u = blockId \<and> outlineOwnerKey (up_owner u) = outlineOwnerKey owner)
                             (gn_updates notice);
                  changes = (case update of None \<Rightarrow> [] | Some u \<Rightarrow> up_mapping u)
              in case cs_compositions st key of
                   Some composed \<Rightarrow>
                     (st\<lparr>cs_compositions := (cs_compositions st)(key \<mapsto>
                           composed\<lparr>cp_content := Some (inlineContent (source current)),
                                    cp_mapping := cp_mapping composed @ changes,
                                    cp_afterDirectory := gs_page_directory (gn_snapshot notice)\<rparr>)\<rparr>,
                      Inr (Some buffer))
                 | None \<Rightarrow>
                     if changes \<noteq> [] \<or> \<not> sameContent (source buffer) (source current) then
                       if cs_pending st key \<noteq> None then (st, Inr (Some buffer))
                       else (case rebase_update buffer current update of
                               Inl e \<Rightarrow> (st, Inl (RebaseFailure e))
                             | Inr (after, mapping) \<Rightarrow>
                                 (follow_entry notice directory target current buffer mapping after st,
                                  Inr (Some after)))
                     else (follow_entry notice directory target current buffer [] buffer st,
                           Inr (Some buffer))))"

text \<open>The drafts of one owner, then every owner; the first error stops the loops.\<close>

fun graph_buffers ::
  "graph_notice \<Rightarrow> page_directory_entry list \<Rightarrow> graph_snapshot \<Rightarrow> outline_owner \<Rightarrow>
   (block_id \<times> content_buffer) list \<Rightarrow> 'c content_sessions \<Rightarrow>
   'c content_sessions \<times> (session_error + (block_id \<times> content_buffer) list)" where
  "graph_buffers notice directory previous owner [] st = (st, Inr [])"
| "graph_buffers notice directory previous owner ((blockId, buffer) # rest) st =
     (case graph_entry notice directory previous owner blockId buffer st of
        (st', Inl e) \<Rightarrow> (st', Inl e)
      | (st', Inr kept) \<Rightarrow>
          (case graph_buffers notice directory previous owner rest st' of
             (st'', Inl e) \<Rightarrow> (st'', Inl e)
           | (st'', Inr remaining) \<Rightarrow>
               (st'', Inr ((case kept of None \<Rightarrow> [] | Some b \<Rightarrow> [(blockId, b)]) @ remaining))))"

fun graph_owners ::
  "graph_notice \<Rightarrow> page_directory_entry list \<Rightarrow> graph_snapshot \<Rightarrow>
   (js_string \<times> (block_id \<times> content_buffer) list) list \<Rightarrow> 'c content_sessions \<Rightarrow>
   'c content_sessions \<times> session_error option" where
  "graph_owners notice directory previous [] st = (st, None)"
| "graph_owners notice directory previous ((ownerKey, bs) # rest) st =
     (case cs_ownerRefs st ownerKey of
        None \<Rightarrow> graph_owners notice directory previous rest st
      | Some owner \<Rightarrow>
          (case graph_buffers notice directory previous owner bs st of
             (st', Inl e) \<Rightarrow> (st', Some e)
           | (st', Inr remaining) \<Rightarrow>
               graph_owners notice directory previous rest
                 (if remaining \<noteq> bs then replace_buffers st' owner remaining else st')))"

definition graph_changed ::
  "graph_notice \<Rightarrow> page_directory_entry list \<Rightarrow> graph_snapshot \<Rightarrow> 'c content_sessions \<Rightarrow>
   'c content_sessions \<times> session_error option" where
  "graph_changed notice directory previous st = graph_owners notice directory previous (cs_owners st) st"



subsection \<open>Interleavings\<close>

text \<open>
  The lane runs one job at a time. An event is something the reader does, a job that reaches
  its prepare callback, a job that completes, or the graph publishing a new state.
\<close>

datatype 'c flight = Submitting "'c submission" | Projecting content_target

record 'c editor_world =
  ew_snapshot :: graph_snapshot
  ew_directory :: "page_directory_entry list"
  ew_previous :: graph_snapshot
  ew_store :: "'c content_sessions"
  ew_flight :: "'c flight option"

datatype 'c editor_event =
    OpenEvent outline_owner block_id "inline_content list"
  | TypeEvent content_target js_string "page_directory_entry list" "nat option"
  | SpliceEvent content_target int int "inline_content list"
  | ResetEvent content_target
  | AdoptEvent content_target block_id
  | ObserveEvent content_target
  | UnobserveEvent content_target
  | ComposeEvent content_target bool
  | SubmitEvent content_target "'c command list"
  | ProjectEvent content_target
  | JobEvent "session_error option"
  | HydrateEvent graph_snapshot
  | PublishEvent graph_notice
  | RecoveredEvent content_target block_id
  | RecoverFailedEvent content_target

definition ok_or :: "'a \<Rightarrow> 'e + 'a \<Rightarrow> 'a" where
  "ok_or old answer = (case answer of Inl e \<Rightarrow> old | Inr new \<Rightarrow> new)"

definition start_submit :: "content_target \<Rightarrow> 'c command list \<Rightarrow> 'c editor_world \<Rightarrow> 'c editor_world" where
  "start_submit target actions w =
     (case ew_flight w of
        Some flight \<Rightarrow> w
      | None \<Rightarrow>
          (case submit_prepare (ew_snapshot w) (ew_store w) target actions of
             Prepared command sub st \<Rightarrow> w\<lparr>ew_store := st, ew_flight := Some (Submitting sub)\<rparr>
           | _ \<Rightarrow> w))"

definition start_project :: "content_target \<Rightarrow> 'c editor_world \<Rightarrow> 'c editor_world" where
  "start_project target w =
     (case ew_flight w of
        Some flight \<Rightarrow> w
      | None \<Rightarrow> w\<lparr>ew_store := add_pending (target_key target) (ew_store w),
                   ew_flight := Some (Projecting target)\<rparr>)"

definition finish_job :: "session_error option \<Rightarrow> 'c editor_world \<Rightarrow> 'c editor_world" where
  "finish_job failure w =
     (case ew_flight w of
        None \<Rightarrow> w
      | Some (Projecting target) \<Rightarrow>
          w\<lparr>ew_store := drop_pending (target_key target) (ew_store w), ew_flight := None\<rparr>
      | Some (Submitting sub) \<Rightarrow>
          w\<lparr>ew_store := fst (submit_complete (ew_snapshot w) (ew_store w) sub failure), ew_flight := None\<rparr>)"

definition publish_notice :: "graph_notice \<Rightarrow> 'c editor_world \<Rightarrow> 'c editor_world" where
  "publish_notice notice w =
     \<lparr>ew_snapshot = gn_snapshot notice, ew_directory = gs_page_directory (gn_snapshot notice),
      ew_previous = gn_snapshot notice,
      ew_store = fst (graph_changed notice (ew_directory w) (ew_previous w) (ew_store w)),
      ew_flight = ew_flight w\<rparr>"

fun store_op :: "graph_snapshot \<Rightarrow> 'c editor_event \<Rightarrow> 'c content_sessions \<Rightarrow> 'c content_sessions" where
  "store_op snapshot (OpenEvent owner blockId content) st = snd (open_session st owner blockId content)"
| "store_op snapshot (TypeEvent target input directory caret) st =
     ok_or st (edit_session snapshot st target input directory caret)"
| "store_op snapshot (SpliceEvent target index deleteCount ins) st =
     ok_or st (splice_session snapshot st target index deleteCount ins)"
| "store_op snapshot (ResetEvent target) st = reset_session snapshot st target"
| "store_op snapshot (AdoptEvent target blockId) st = adopt_session snapshot st target blockId"
| "store_op snapshot (ObserveEvent target) st = observe_session snapshot st target"
| "store_op snapshot (UnobserveEvent target) st = unobserve_session st target"
| "store_op snapshot (ComposeEvent target composing) st = fst (setComposing snapshot st target composing)"
| "store_op snapshot (RecoveredEvent target blockId) st = recover_done st target blockId"
| "store_op snapshot (RecoverFailedEvent target) st = recover_failed st target"
| "store_op snapshot _ st = st"

fun editor_op :: "'c editor_event \<Rightarrow> 'c editor_world \<Rightarrow> 'c editor_world" where
  "editor_op (SubmitEvent target actions) w = start_submit target actions w"
| "editor_op (ProjectEvent target) w = start_project target w"
| "editor_op (JobEvent failure) w = finish_job failure w"
| "editor_op (HydrateEvent snapshot) w = w\<lparr>ew_snapshot := snapshot\<rparr>"
| "editor_op (PublishEvent notice) w = publish_notice notice w"
| "editor_op event w = w\<lparr>ew_store := store_op (ew_snapshot w) event (ew_store w)\<rparr>"

end
