(* ===== verification/Content_Session_Inv.thy ===== *)
theory Content_Session_Inv
  imports Content_Session
begin

text \<open>
  What every operation of the content sessions keeps: the drafts are well formed, the set of
  dirty drafts is exact, and the pending and submitted maps are those of the job in flight.
\<close>

subsection \<open>The invariant of the store\<close>

definition draft_at :: "'c content_sessions \<Rightarrow> target_key \<Rightarrow> content_buffer option" where
  "draft_at st key = (case map_of (cs_owners st) (fst key) of None \<Rightarrow> None | Some bs \<Rightarrow> map_of bs (snd key))"

definition content_ok :: "inline_content list \<Rightarrow> bool" where
  "content_ok content \<longleftrightarrow> well_formed_content content \<and> length (contentAtoms content) < 2 ^ 32"

definition mapping_ok :: "content_range_change list \<Rightarrow> bool" where
  "mapping_ok mapping \<longleftrightarrow> (\<forall>c \<in> set mapping. 0 \<le> rc_insert c \<and> rc_insert c < 2 ^ 32)"

definition composition_ok :: "composition \<Rightarrow> bool" where
  "composition_ok composed \<longleftrightarrow>
     (\<forall>content. cp_content composed = Some content \<longrightarrow> content_ok content) \<and> mapping_ok (cp_mapping composed)"

definition unclean :: "'c content_sessions \<Rightarrow> target_key set" where
  "unclean st = {key. \<exists>b. draft_at st key = Some b \<and> \<not> bufferIsClean b}"

definition drafts_ok :: "'c content_sessions \<Rightarrow> bool" where
  "drafts_ok st \<longleftrightarrow>
     (\<forall>key b. draft_at st key = Some b \<longrightarrow> buffer_inv b)
   \<and> cs_dirty st = unclean st
   \<and> cs_unsavedInput st = (unclean st \<noteq> {})
   \<and> distinct (map fst (cs_owners st))
   \<and> (\<forall>k bs. map_of (cs_owners st) k = Some bs \<longrightarrow> distinct (map fst bs))
   \<and> dom (cs_ownerRefs st) = dom (map_of (cs_owners st))
   \<and> (\<forall>k owner. cs_ownerRefs st k = Some owner \<longrightarrow> outlineOwnerKey owner = k)"

definition targets_ok :: "'c content_sessions \<Rightarrow> bool" where
  "targets_ok st \<longleftrightarrow>
     (\<forall>key target. cs_targets st key = Some target \<longrightarrow> target_key target = key)
   \<and> (\<forall>key composed. cs_compositions st key = Some composed \<longrightarrow> composition_ok composed)"

definition snapshot_ok :: "graph_snapshot \<Rightarrow> bool" where
  "snapshot_ok snapshot \<longleftrightarrow>
     (\<forall>owner blocks blockId block. findOutline snapshot owner = Some blocks \<longrightarrow>
        findBlock blocks blockId = Some block \<longrightarrow> content_ok (bl_content block))"

lemma draft_at_buffers: "map_of (buffers st owner) blockId = draft_at st (outlineOwnerKey owner, blockId)"
  by (simp add: buffers_def draft_at_def split: option.split)

lemma draft_at_target [simp]:
  "map_of (buffers st (ct_owner target)) (ct_block target) = draft_at st (target_key target)"
  by (simp add: draft_at_buffers target_key_def)

lemma draft_at_simps [simp]:
  "draft_at (st\<lparr>cs_targets := x1\<rparr>) = draft_at st"
  "draft_at (st\<lparr>cs_retryActions := x2\<rparr>) = draft_at st"
  "draft_at (st\<lparr>cs_pending := x3\<rparr>) = draft_at st"
  "draft_at (st\<lparr>cs_submitted := x4\<rparr>) = draft_at st"
  "draft_at (st\<lparr>cs_orphans := x5\<rparr>) = draft_at st"
  "draft_at (st\<lparr>cs_unavailable := x6\<rparr>) = draft_at st"
  "draft_at (st\<lparr>cs_compositions := x7\<rparr>) = draft_at st"
  "draft_at (st\<lparr>cs_observers := x8\<rparr>) = draft_at st"
  "draft_at (st\<lparr>cs_published := x9\<rparr>) = draft_at st"
  "draft_at (st\<lparr>cs_recoveries := x10\<rparr>) = draft_at st"
  "draft_at (st\<lparr>cs_recovered := x11\<rparr>) = draft_at st"
  by (simp_all add: draft_at_def fun_eq_iff)

lemma drafts_ok_simps [simp]:
  "drafts_ok (st\<lparr>cs_targets := x1\<rparr>) = drafts_ok st"
  "drafts_ok (st\<lparr>cs_retryActions := x2\<rparr>) = drafts_ok st"
  "drafts_ok (st\<lparr>cs_pending := x3\<rparr>) = drafts_ok st"
  "drafts_ok (st\<lparr>cs_submitted := x4\<rparr>) = drafts_ok st"
  "drafts_ok (st\<lparr>cs_orphans := x5\<rparr>) = drafts_ok st"
  "drafts_ok (st\<lparr>cs_unavailable := x6\<rparr>) = drafts_ok st"
  "drafts_ok (st\<lparr>cs_compositions := x7\<rparr>) = drafts_ok st"
  "drafts_ok (st\<lparr>cs_observers := x8\<rparr>) = drafts_ok st"
  "drafts_ok (st\<lparr>cs_published := x9\<rparr>) = drafts_ok st"
  "drafts_ok (st\<lparr>cs_recoveries := x10\<rparr>) = drafts_ok st"
  "drafts_ok (st\<lparr>cs_recovered := x11\<rparr>) = drafts_ok st"
  by (simp_all add: drafts_ok_def unclean_def)

lemma mark_dirty_foldl:
  assumes "distinct (map fst bs)"
  shows "(k, j) \<in> foldl (mark_dirty ownerKey previous) dirty bs \<longleftrightarrow>
     (if k = ownerKey \<and> map_of bs j \<noteq> None \<and> map_of bs j \<noteq> map_of previous j
      then \<not> bufferIsClean (the (map_of bs j)) else (k, j) \<in> dirty)"
  using assms
proof (induction bs arbitrary: dirty)
  case (Cons entry bs)
  obtain i b where entry: "entry = (i, b)" by force
  have fresh: "map_of bs i = None" and "distinct (map fst bs)"
    using Cons.prems by (auto simp: entry map_of_eq_None_iff)
  then show ?case
    using Cons.IH [of "mark_dirty ownerKey previous dirty entry"]
    by (cases "j = i") (auto simp: entry mark_dirty_def)
qed simp

lemma forget_dirty_foldl:
  "(k, j) \<in> foldl (forget_dirty ownerKey bs) dirty previous \<longleftrightarrow>
     (k, j) \<in> dirty \<and> \<not> (k = ownerKey \<and> map_of bs j = None \<and> map_of previous j \<noteq> None)"
proof (induction previous arbitrary: dirty)
  case (Cons entry previous)
  then show ?case by (cases entry) (auto simp: forget_dirty_def)
qed simp

lemma draft_at_replace:
  "draft_at (replace_buffers st owner bs) key =
     (if fst key = outlineOwnerKey owner then map_of bs (snd key) else draft_at st key)"
  by (simp add: draft_at_def replace_buffers_def Let_def update_conv')

lemma replace_buffers_fields [simp]:
  "cs_targets (replace_buffers st owner bs) = cs_targets st"
  "cs_retryActions (replace_buffers st owner bs) = cs_retryActions st"
  "cs_pending (replace_buffers st owner bs) = cs_pending st"
  "cs_submitted (replace_buffers st owner bs) = cs_submitted st"
  "cs_orphans (replace_buffers st owner bs) = cs_orphans st"
  "cs_unavailable (replace_buffers st owner bs) = cs_unavailable st"
  "cs_compositions (replace_buffers st owner bs) = cs_compositions st"
  "cs_observers (replace_buffers st owner bs) = cs_observers st"
  "cs_published (replace_buffers st owner bs) = cs_published st"
  "cs_recoveries (replace_buffers st owner bs) = cs_recoveries st"
  "cs_recovered (replace_buffers st owner bs) = cs_recovered st"
  by (simp_all add: replace_buffers_def Let_def)

lemma in_dirty_replace:
  assumes "distinct (map fst bs)"
  shows "(k, j) \<in> cs_dirty (replace_buffers st owner bs) \<longleftrightarrow>
     (if k = outlineOwnerKey owner \<and> map_of bs j \<noteq> None \<and> map_of bs j \<noteq> draft_at st (outlineOwnerKey owner, j)
      then \<not> bufferIsClean (the (map_of bs j)) else (k, j) \<in> cs_dirty st)
     \<and> \<not> (k = outlineOwnerKey owner \<and> map_of bs j = None \<and> draft_at st (outlineOwnerKey owner, j) \<noteq> None)"
  by (simp add: replace_buffers_def Let_def forget_dirty_foldl mark_dirty_foldl [OF assms] draft_at_buffers)

lemma in_unclean_replace:
  "(k, j) \<in> unclean (replace_buffers st owner bs) \<longleftrightarrow>
     (if k = outlineOwnerKey owner then map_of bs j \<noteq> None \<and> \<not> bufferIsClean (the (map_of bs j))
      else (k, j) \<in> unclean st)"
  by (auto simp: unclean_def draft_at_replace)

lemma unclean_replace:
  assumes "cs_dirty st = unclean st" and "distinct (map fst bs)"
  shows "cs_dirty (replace_buffers st owner bs) = unclean (replace_buffers st owner bs)"
proof (intro set_eqI)
  fix key :: target_key
  obtain k j where key: "key = (k, j)" by force
  show "key \<in> cs_dirty (replace_buffers st owner bs) \<longleftrightarrow> key \<in> unclean (replace_buffers st owner bs)"
    unfolding key in_dirty_replace [OF assms(2)] in_unclean_replace assms(1)
    by (auto simp: unclean_def)
qed

lemma replace_buffers_owners:
  "cs_owners (replace_buffers st owner bs) = AList.update (outlineOwnerKey owner) bs (cs_owners st)"
  "cs_ownerRefs (replace_buffers st owner bs) = (cs_ownerRefs st)(outlineOwnerKey owner \<mapsto> owner)"
  "cs_unsavedInput (replace_buffers st owner bs) = (cs_dirty (replace_buffers st owner bs) \<noteq> {})"
  by (simp_all add: replace_buffers_def Let_def)

lemma drafts_okD:
  assumes "drafts_ok st"
  shows "draft_at st key = Some b \<Longrightarrow> buffer_inv b" and "cs_dirty st = unclean st"
    and "cs_unsavedInput st = (unclean st \<noteq> {})" and "distinct (map fst (cs_owners st))"
    and "map_of (cs_owners st) k = Some bs \<Longrightarrow> distinct (map fst bs)"
    and "dom (cs_ownerRefs st) = dom (map_of (cs_owners st))"
    and "cs_ownerRefs st k = Some owner \<Longrightarrow> outlineOwnerKey owner = k"
  using assms unfolding drafts_ok_def by blast+

lemma drafts_ok_replace:
  assumes ok: "drafts_ok st" and new: "distinct (map fst bs)" "\<And>j b. map_of bs j = Some b \<Longrightarrow> buffer_inv b"
  shows "drafts_ok (replace_buffers st owner bs)"
  unfolding drafts_ok_def
proof (intro conjI allI impI)
  let ?st = "replace_buffers st owner bs"
  show dirty: "cs_dirty ?st = unclean ?st"
    by (rule unclean_replace [OF drafts_okD(2) [OF ok] new(1)])
  show "cs_unsavedInput ?st = (unclean ?st \<noteq> {})"
    unfolding replace_buffers_owners(3) dirty ..
  show "distinct (map fst (cs_owners ?st))"
    unfolding replace_buffers_owners by (rule distinct_update [OF drafts_okD(4) [OF ok]])
  show "distinct (map fst bs')" if "map_of (cs_owners ?st) k = Some bs'" for k bs'
    using that new(1) drafts_okD(5) [OF ok] by (auto simp: replace_buffers_owners update_conv' split: if_splits)
  show "dom (cs_ownerRefs ?st) = dom (map_of (cs_owners ?st))"
    using drafts_okD(6) [OF ok] by (simp add: replace_buffers_owners update_conv')
  show "outlineOwnerKey owner' = k" if "cs_ownerRefs ?st k = Some owner'" for k owner'
    using that drafts_okD(7) [OF ok] by (auto simp: replace_buffers_owners split: if_splits)
  show "buffer_inv b" if "draft_at ?st key = Some b" for key b
    using that new(2) drafts_okD(1) [OF ok] by (auto simp: draft_at_replace split: if_splits)
qed

lemma distinct_buffers: "drafts_ok st \<Longrightarrow> distinct (map fst (buffers st owner))"
  using drafts_okD(5) [of st] by (auto simp: buffers_def split: option.split)

lemma set_buffer_fields [simp]:
  "cs_targets (set_buffer st target b) = cs_targets st"
  "cs_retryActions (set_buffer st target b) = cs_retryActions st"
  "cs_pending (set_buffer st target b) = cs_pending st"
  "cs_submitted (set_buffer st target b) = cs_submitted st"
  "cs_orphans (set_buffer st target b) = cs_orphans st"
  "cs_unavailable (set_buffer st target b) = cs_unavailable st"
  "cs_compositions (set_buffer st target b) = cs_compositions st"
  "cs_observers (set_buffer st target b) = cs_observers st"
  by (simp_all add: set_buffer_def Let_def)

lemma draft_at_set [simp]: "draft_at (set_buffer st target b) = (draft_at st)(target_key target := b)"
proof
  fix key :: target_key
  obtain k j where key: "key = (k, j)" by force
  show "draft_at (set_buffer st target b) key = ((draft_at st)(target_key target := b)) key"
    by (auto simp: key set_buffer_def Let_def draft_at_replace target_key_def update_conv' delete_conv'
        draft_at_buffers split: option.split)
qed

lemma drafts_ok_set:
  assumes ok: "drafts_ok st" and new: "\<And>b. buffer = Some b \<Longrightarrow> buffer_inv b"
  shows "drafts_ok (set_buffer st target buffer)"
proof -
  let ?bs = "buffers st (ct_owner target)"
  have inv: "buffer_inv b" if "map_of ?bs j = Some b" for j b
    using that drafts_okD(1) [OF ok] by (simp add: draft_at_buffers)
  have dist: "distinct (map fst ?bs)" by (rule distinct_buffers [OF ok])
  show ?thesis
    using ok inv new distinct_update [OF dist] distinct_delete [OF dist]
    by (cases buffer)
      (auto simp: set_buffer_def Let_def update_conv' delete_conv' split: if_splits intro!: drafts_ok_replace)
qed

lemma canonical_inv:
  assumes "snapshot_ok snapshot" and "canonical snapshot owner blockId = Some b"
  shows "buffer_inv b" "bufferIsClean b" "content_ok (inlineContent (source b))"
proof -
  obtain blocks block where "findOutline snapshot owner = Some blocks" "findBlock blocks blockId = Some block"
    and b: "b = createContentBuffer (bl_content block)"
    using assms(2) by (auto simp: canonical_def split: option.splits)
  then have ok: "content_ok (bl_content block)"
    using assms(1) unfolding snapshot_ok_def by blast
  have wf: "well_formed_content (bl_content block)"
    using ok by (simp add: content_ok_def)
  then show "buffer_inv b" "bufferIsClean b" "content_ok (inlineContent (source b))"
    using ok by (simp_all add: b bufferIsClean_iff content_ok_def)
qed

lemma getSnapshot_inv:
  assumes "drafts_ok st" and "snapshot_ok snapshot" and "getSnapshot snapshot st target = Some b"
  shows "buffer_inv b"
  using assms drafts_okD(1) [OF assms(1)] canonical_inv(1) [OF assms(2)]
  by (auto simp: getSnapshot_def split: option.splits)


text \<open>What leaves every draft as it is.\<close>

definition same_drafts :: "'c content_sessions \<Rightarrow> 'c content_sessions \<Rightarrow> bool" where
  "same_drafts st st' \<longleftrightarrow>
     cs_owners st' = cs_owners st \<and> cs_ownerRefs st' = cs_ownerRefs st \<and> cs_dirty st' = cs_dirty st
   \<and> cs_unsavedInput st' = cs_unsavedInput st \<and> cs_pending st' = cs_pending st
   \<and> cs_submitted st' = cs_submitted st \<and> cs_retryActions st' = cs_retryActions st
   \<and> cs_observers st' = cs_observers st"

lemma same_draftsD:
  assumes "same_drafts st st'"
  shows "draft_at st' = draft_at st" "drafts_ok st' = drafts_ok st" "cs_pending st' = cs_pending st"
    "cs_submitted st' = cs_submitted st" "cs_retryActions st' = cs_retryActions st"
    "cs_owners st' = cs_owners st" "cs_ownerRefs st' = cs_ownerRefs st"
proof -
  show draft: "draft_at st' = draft_at st"
    using assms by (auto simp: draft_at_def same_drafts_def)
  show "drafts_ok st' = drafts_ok st"
    using assms draft by (simp add: drafts_ok_def unclean_def same_drafts_def)
qed (use assms in \<open>simp_all add: same_drafts_def\<close>)

lemma same_drafts_trans: "same_drafts st st' \<Longrightarrow> same_drafts st' st'' \<Longrightarrow> same_drafts st st''"
  by (simp add: same_drafts_def)

lemma target_of_props:
  assumes "targets_ok st" and "target_of st owner blockId = (target, st')"
  shows "target_key target = (outlineOwnerKey owner, blockId)" "targets_ok st'" "same_drafts st st'"
    "cs_compositions st' = cs_compositions st"
proof -
  let ?key = "(outlineOwnerKey owner, blockId)"
  have known: "target_key t = k" if "cs_targets st k = Some t" for t k
    using assms(1) that unfolding targets_ok_def by blast
  have new: "target_key \<lparr>ct_owner = owner, ct_block = blockId\<rparr> = ?key"
    by (simp add: target_key_def)
  show key: "target_key target = ?key"
    using assms(2) known [of ?key] new by (auto simp: target_of_def Let_def split: option.splits)
  show "targets_ok st'" "same_drafts st st'" "cs_compositions st' = cs_compositions st"
    using assms new by (auto simp: target_of_def Let_def targets_ok_def same_drafts_def simp del: split_paired_All
        split: option.splits if_splits)
qed

lemma targets_ok_simps [simp]:
  "targets_ok (st\<lparr>cs_retryActions := x2\<rparr>) = targets_ok st"
  "targets_ok (st\<lparr>cs_pending := x3\<rparr>) = targets_ok st"
  "targets_ok (st\<lparr>cs_submitted := x4\<rparr>) = targets_ok st"
  "targets_ok (st\<lparr>cs_orphans := x5\<rparr>) = targets_ok st"
  "targets_ok (st\<lparr>cs_unavailable := x6\<rparr>) = targets_ok st"
  "targets_ok (st\<lparr>cs_observers := x8\<rparr>) = targets_ok st"
  "targets_ok (st\<lparr>cs_published := x9\<rparr>) = targets_ok st"
  "targets_ok (st\<lparr>cs_recoveries := x10\<rparr>) = targets_ok st"
  "targets_ok (st\<lparr>cs_recovered := x11\<rparr>) = targets_ok st"
  "targets_ok (set_buffer st target b) = targets_ok st"
  "targets_ok (replace_buffers st owner bs) = targets_ok st"
  by (simp_all add: targets_ok_def)

lemma recover_props [simp]:
  "targets_ok (recover st target) = targets_ok st" "same_drafts st (recover st target)"
  by (auto simp: recover_def same_drafts_def split: option.split)

lemma rebase_kept:
  assumes "buffer_inv buffer" and "content_ok content" and "\<And>m. mapping = Some m \<Longrightarrow> mapping_ok m"
  obtains new moved where "rebaseOnto buffer content mapping = Inr (new, moved)" "buffer_inv new"
    "source new = contentAtoms content" "typed_atoms new = typed_atoms buffer"
proof -
  have "\<forall>changes. mapping = Some changes \<longrightarrow> (\<forall>c \<in> set changes. 0 \<le> rc_insert c \<and> rc_insert c < 2 ^ 32)"
    using assms(3) by (auto simp: mapping_ok_def)
  then show ?thesis
    using rebaseOnto_ok [OF assms(1), of content mapping] assms(2) that by (auto simp: content_ok_def)
qed


subsection \<open>A change of the graph keeps every draft\<close>

text \<open>
  What may become of a draft: it stays as it is, it is rebased onto the block's content with
  everything that was typed, or, when it held no input and nothing is in flight, it goes away
  with its block.
\<close>

definition followed ::
  "graph_snapshot \<Rightarrow> outline_owner \<Rightarrow> block_id \<Rightarrow> bool \<Rightarrow> content_buffer \<Rightarrow> content_buffer option \<Rightarrow> bool" where
  "followed snapshot owner blockId idle before after \<longleftrightarrow>
     (case after of
        None \<Rightarrow> idle \<and> bufferIsClean before \<and> canonical snapshot owner blockId = None
      | Some b \<Rightarrow>
          b = before
        \<or> idle \<and> buffer_inv b \<and> typed_atoms b = typed_atoms before
          \<and> map_option source (canonical snapshot owner blockId) = Some (source b))"

definition notice_ok :: "graph_notice \<Rightarrow> bool" where
  "notice_ok notice \<longleftrightarrow>
     snapshot_ok (gn_snapshot notice)
   \<and> (\<forall>u \<in> set (gn_updates notice). content_ok (up_content u) \<and> mapping_ok (up_mapping u))"

lemma rebase_update_kept:
  assumes "buffer_inv buffer" and "content_ok (inlineContent (source current))" and "buffer_inv current"
    and "\<And>u. update = Some u \<Longrightarrow> content_ok (up_content u) \<and> mapping_ok (up_mapping u)"
  obtains new moved where "rebase_update buffer current update = Inr (new, moved)" "buffer_inv new"
    "source new = source current" "typed_atoms new = typed_atoms buffer"
proof -
  have atoms: "contentAtoms (inlineContent (source current)) = source current"
    using assms(3) by (simp add: buffer_inv_def)
  show ?thesis
  proof (cases "\<exists>u. update = Some u \<and> contentAtoms (up_content u) = source current")
    case True
    then obtain u where u: "update = Some u" "contentAtoms (up_content u) = source current" by blast
    obtain new moved where "rebaseOnto buffer (up_content u) (Some (up_mapping u)) = Inr (new, moved)"
      "buffer_inv new" "source new = contentAtoms (up_content u)" "typed_atoms new = typed_atoms buffer"
      using rebase_kept [OF assms(1), of "up_content u" "Some (up_mapping u)"] assms(4) [OF u(1)] by auto
    then show ?thesis using u that by (auto simp: rebase_update_def)
  next
    case False
    obtain new moved where "rebaseOnto buffer (inlineContent (source current)) None = Inr (new, moved)"
      "buffer_inv new" "source new = contentAtoms (inlineContent (source current))"
      "typed_atoms new = typed_atoms buffer"
      using rebase_kept [OF assms(1,2), of None] by auto
    moreover have "rebase_update buffer current update = rebaseOnto buffer (inlineContent (source current)) None"
      using False by (cases update) (auto simp: rebase_update_def)
    ultimately show ?thesis using atoms that by simp
  qed
qed


lemma lost_entry_props:
  assumes "targets_ok st" and "canonical snapshot owner blockId = None" and "target_key target = key"
    and "lost_entry notice previous target owner buffer st = (st', kept)"
  shows "targets_ok st' \<and> same_drafts st st' \<and> followed snapshot owner blockId (cs_pending st key = None) buffer kept"
  using assms recover_props [of "st\<lparr>cs_orphans := x\<rparr>" target for x]
  by (auto simp: lost_entry_def Let_def followed_def same_drafts_def split: if_splits option.splits)

lemma follow_entry_props:
  "targets_ok st \<Longrightarrow> targets_ok (follow_entry notice directory target current buffer mapping after st)"
  "same_drafts st (follow_entry notice directory target current buffer mapping after st)"
  by (auto simp: follow_entry_def Let_def publish_def same_drafts_def)

lemma targets_ok_compose:
  assumes "targets_ok st" and "composition_ok composed"
  shows "targets_ok (st\<lparr>cs_compositions := (cs_compositions st)(key \<mapsto> composed)\<rparr>)"
  using assms by (simp add: targets_ok_def)

lemma graph_entry_props:
  assumes ok: "targets_ok st" "notice_ok notice" and inv: "buffer_inv buffer"
  obtains st' kept where "graph_entry notice directory previous owner blockId buffer st = (st', Inr kept)"
    "targets_ok st'" "same_drafts st st'"
    "followed (gn_snapshot notice) owner blockId (cs_pending st (outlineOwnerKey owner, blockId) = None) buffer kept"
proof -
  let ?key = "(outlineOwnerKey owner, blockId)" and ?snapshot = "gn_snapshot notice"
  obtain target st1 where t: "target_of st owner blockId = (target, st1)" by force
  note t1 = target_of_props [OF ok(1) t]
  have pending: "cs_pending st1 = cs_pending st" using t1(3) by (simp add: same_drafts_def)
  define update where "update = find (\<lambda>u. up_block_id u = blockId \<and> outlineOwnerKey (up_owner u) = outlineOwnerKey owner) (gn_updates notice)"
  define changes where "changes = (case update of None \<Rightarrow> [] | Some u \<Rightarrow> up_mapping u)"
  have update: "content_ok (up_content u) \<and> mapping_ok (up_mapping u)" if "update = Some u" for u
    using that ok(2) by (auto simp: update_def find_Some_iff notice_ok_def)
  then have "mapping_ok changes" by (cases update) (auto simp: changes_def mapping_ok_def)
  note entry = graph_entry_def [of notice directory previous owner blockId buffer st,
      folded update_def, unfolded t Let_def, folded changes_def]
  show ?thesis
  proof (cases "canonical ?snapshot owner blockId")
    case None
    obtain st' kept where l: "lost_entry notice previous target owner buffer st1 = (st', kept)" by force
    show ?thesis
      using lost_entry_props [OF t1(2) None t1(1) l] same_drafts_trans [OF t1(3)] None l pending
      by (intro that [of st' kept]) (auto simp: entry)
  next
    case (Some current)
    have snap: "snapshot_ok ?snapshot" using ok(2) by (simp add: notice_ok_def)
    show ?thesis
    proof (cases "cs_compositions st1 ?key")
      case comp: (Some composed)
      let ?composed = "composed\<lparr>cp_content := Some (inlineContent (source current)),
          cp_mapping := cp_mapping composed @ changes, cp_afterDirectory := gs_page_directory ?snapshot\<rparr>"
      have "composition_ok composed" using t1(2) comp unfolding targets_ok_def by blast
      then have "composition_ok ?composed"
        using canonical_inv(3) [OF snap Some] \<open>mapping_ok changes\<close>
        by (auto simp: composition_ok_def mapping_ok_def)
      then show ?thesis
        using t1 Some comp targets_ok_compose [OF t1(2), of ?composed ?key]
        by (intro that [of "st1\<lparr>cs_compositions := (cs_compositions st1)(?key \<mapsto> ?composed)\<rparr>" "Some buffer"])
          (auto simp: entry same_drafts_def followed_def)
    next
      case None
      show ?thesis
      proof (cases "changes \<noteq> [] \<or> source buffer \<noteq> source current")
        case False
        then show ?thesis
          using t1 Some None follow_entry_props [of st1 notice directory target current buffer "[]" buffer]
            same_drafts_trans [OF t1(3)]
          by (intro that [of "follow_entry notice directory target current buffer [] buffer st1" "Some buffer"])
            (auto simp: entry followed_def)
      next
        case changed: True
        show ?thesis
        proof (cases "cs_pending st1 ?key")
          case pend: (Some n)
          then show ?thesis
            using t1 Some None changed by (intro that [of st1 "Some buffer"]) (auto simp: entry followed_def)
        next
          case idle: None
          obtain new moved where r: "rebase_update buffer current update = Inr (new, moved)" "buffer_inv new"
            "source new = source current" "typed_atoms new = typed_atoms buffer"
            using rebase_update_kept [OF inv canonical_inv(3,1) [OF snap Some] update] by blast
          then show ?thesis
            using t1 Some None changed idle pending
              follow_entry_props [of st1 notice directory target current buffer moved new] same_drafts_trans [OF t1(3)]
            by (intro that [of "follow_entry notice directory target current buffer moved new st1" "Some new"])
              (auto simp: entry followed_def)
        qed
      qed
    qed
  qed
qed


lemma graph_buffers_props:
  assumes "targets_ok st" and "notice_ok notice" and "distinct (map fst bs)"
    and "\<forall>j b. map_of bs j = Some b \<longrightarrow> buffer_inv b"
  shows "\<exists>st' remaining. graph_buffers notice directory previous owner bs st = (st', Inr remaining)
     \<and> targets_ok st' \<and> same_drafts st st' \<and> distinct (map fst remaining)
     \<and> set (map fst remaining) \<subseteq> set (map fst bs)
     \<and> (\<forall>j b. map_of bs j = Some b \<longrightarrow>
          followed (gn_snapshot notice) owner j (cs_pending st (outlineOwnerKey owner, j) = None) b
            (map_of remaining j))"
  using assms
proof (induction bs arbitrary: st)
  case Nil
  then show ?case by (simp add: same_drafts_def)
next
  case (Cons entry bs)
  obtain j b where e: "entry = (j, b)" by force
  have fresh: "map_of bs j = None" using Cons.prems(3) e by (simp add: map_of_eq_None_iff)
  have inv: "buffer_inv b" using Cons.prems(4) [rule_format, of j b] by (simp add: e)
  have rest: "\<forall>i b'. map_of bs i = Some b' \<longrightarrow> buffer_inv b'"
  proof (intro allI impI)
    fix i b' assume "map_of bs i = Some b'"
    then show "buffer_inv b'" using Cons.prems(4) [rule_format, of i b'] fresh by (cases "i = j") (auto simp: e)
  qed
  obtain st1 kept where g: "graph_entry notice directory previous owner j b st = (st1, Inr kept)"
    "targets_ok st1" "same_drafts st st1"
    "followed (gn_snapshot notice) owner j (cs_pending st (outlineOwnerKey owner, j) = None) b kept"
    by (rule graph_entry_props [OF Cons.prems(1,2) inv])
  obtain st2 remaining where r: "graph_buffers notice directory previous owner bs st1 = (st2, Inr remaining)"
    "targets_ok st2" "same_drafts st1 st2" "distinct (map fst remaining)"
    "set (map fst remaining) \<subseteq> set (map fst bs)"
    "\<forall>j b. map_of bs j = Some b \<longrightarrow>
       followed (gn_snapshot notice) owner j (cs_pending st1 (outlineOwnerKey owner, j) = None) b (map_of remaining j)"
    using Cons.IH [OF g(2) Cons.prems(2) _ rest] Cons.prems(3) by auto
  have none: "map_of remaining j = None" "j \<notin> set (map fst remaining)"
    using r(5) fresh by (auto simp: map_of_eq_None_iff)
  let ?all = "(case kept of None \<Rightarrow> [] | Some b \<Rightarrow> [(j, b)]) @ remaining"
  have "graph_buffers notice directory previous owner (entry # bs) st = (st2, Inr ?all)"
    using g(1) r(1) by (simp add: e)
  moreover have "map_of ?all j = kept" using none by (cases kept) auto
  moreover have "map_of ?all i = map_of remaining i" if "i \<noteq> j" for i
    using that by (cases kept) auto
  moreover have "distinct (map fst ?all)" "set (map fst ?all) \<subseteq> set (map fst (entry # bs))"
    using r(4,5) none by (auto simp: e split: option.splits)
  moreover have "same_drafts st st2" by (rule same_drafts_trans [OF g(3) r(3)])
  ultimately show ?case
    using r(2,6) g(4) same_draftsD(3) [OF g(3)] fresh
    by (intro exI [of _ st2] exI [of _ ?all]) (auto simp: e)
qed

text \<open>
  The owners already visited have been followed; the ones still to visit are as they were,
  since a draft is only replaced under its own owner.
\<close>

definition owners_followed ::
  "graph_snapshot \<Rightarrow> (js_string \<rightharpoonup> 'b) \<Rightarrow> 'c content_sessions \<Rightarrow> 'c content_sessions \<Rightarrow> bool" where
  "owners_followed snapshot todo st st' \<longleftrightarrow>
     (\<forall>key. todo (fst key) = None \<or> draft_at st key = None \<longrightarrow> draft_at st' key = draft_at st key)
   \<and> (\<forall>key b. todo (fst key) \<noteq> None \<and> draft_at st key = Some b \<longrightarrow>
        (\<exists>owner. outlineOwnerKey owner = fst key
           \<and> followed snapshot owner (snd key) (cs_pending st key = None) b (draft_at st' key)))"

definition same_jobs :: "'c content_sessions \<Rightarrow> 'c content_sessions \<Rightarrow> bool" where
  "same_jobs st st' \<longleftrightarrow> cs_pending st' = cs_pending st \<and> cs_submitted st' = cs_submitted st"

lemma graph_owners_props:
  assumes "targets_ok st" and "notice_ok notice" and "drafts_ok st"
    and "distinct (map fst todo)" and "\<And>k bs. map_of todo k = Some bs \<Longrightarrow> map_of (cs_owners st) k = Some bs"
  shows "\<exists>st'. graph_owners notice directory previous todo st = (st', None)
     \<and> targets_ok st' \<and> drafts_ok st' \<and> same_jobs st st'
     \<and> owners_followed (gn_snapshot notice) (map_of todo) st st'"
  using assms
proof (induction todo arbitrary: st)
  case Nil
  then show ?case by (simp add: same_jobs_def owners_followed_def)
next
  case (Cons entry todo)
  obtain k bs where e: "entry = (k, bs)" by force
  have here: "map_of (cs_owners st) k = Some bs" using Cons.prems(5) [of k bs] by (simp add: e)
  then obtain owner where o: "cs_ownerRefs st k = Some owner"
    using drafts_okD(6) [OF Cons.prems(3)] by (metis domD domI)
  have key: "outlineOwnerKey owner = k" by (rule drafts_okD(7) [OF Cons.prems(3) o])
  have draft: "draft_at st (k, j) = map_of bs j" for j using here by (simp add: draft_at_def)
  have inv: "\<forall>j b. map_of bs j = Some b \<longrightarrow> buffer_inv b"
    using drafts_okD(1) [OF Cons.prems(3)] draft by metis
  obtain st1 remaining where g: "graph_buffers notice directory previous owner bs st = (st1, Inr remaining)"
    "targets_ok st1" "same_drafts st st1" "distinct (map fst remaining)" "set (map fst remaining) \<subseteq> set (map fst bs)"
    "\<forall>j b. map_of bs j = Some b \<longrightarrow>
       followed (gn_snapshot notice) owner j (cs_pending st (k, j) = None) b (map_of remaining j)"
    using graph_buffers_props [OF Cons.prems(1,2) drafts_okD(5) [OF Cons.prems(3) here] inv, where directory = directory and previous = previous and owner = owner]
    unfolding key by blast
  note same = same_draftsD [OF g(3)]
  define st2 where "st2 = (if remaining \<noteq> bs then replace_buffers st1 owner remaining else st1)"
  have sub: "map_of bs j = None \<Longrightarrow> map_of remaining j = None" for j
    using g(5) by (auto simp: map_of_eq_None_iff)
  have "buffer_inv b" if "map_of remaining j = Some b" for j b
  proof (cases "map_of bs j")
    case (Some b0)
    then have "followed (gn_snapshot notice) owner j (cs_pending st (k, j) = None) b0 (Some b)"
      using g(6) that by metis
    then show ?thesis using inv Some by (auto simp: followed_def)
  qed (use sub [of j] that in simp)
  then have ok2: "drafts_ok st2" "targets_ok st2" "same_jobs st st2"
    using drafts_ok_replace [of st1 remaining owner] g(2,4) same Cons.prems(3) by (auto simp: st2_def same_jobs_def)
  have draft2: "draft_at st2 key = (if fst key = k then map_of remaining (snd key) else draft_at st key)" for key
    using draft [of "snd key"] by (cases key) (auto simp: st2_def draft_at_replace key same)
  have others: "map_of (cs_owners st2) k' = Some bs'" if "map_of todo k' = Some bs'" for k' bs'
  proof -
    have "k' \<noteq> k" using Cons.prems(4) that by (auto simp: e image_iff dest: map_of_SomeD)
    moreover have "map_of (cs_owners st) k' = Some bs'"
      using Cons.prems(5) [of k' bs'] that calculation by (simp add: e)
    ultimately show ?thesis
      by (auto simp: st2_def replace_buffers_owners update_conv' key same)
  qed
  obtain st3 where f: "graph_owners notice directory previous todo st2 = (st3, None)" "targets_ok st3" "drafts_ok st3"
    "same_jobs st2 st3" "owners_followed (gn_snapshot notice) (map_of todo) st2 st3"
    using Cons.IH [OF ok2(2) Cons.prems(2) ok2(1) _ others] Cons.prems(4) by (auto simp: e)
  have last: "map_of todo k = None" using Cons.prems(4) by (auto simp: e map_of_eq_None_iff)
  have "owners_followed (gn_snapshot notice) (map_of (entry # todo)) st st3"
    unfolding owners_followed_def
  proof (intro conjI allI impI)
    fix key assume "map_of (entry # todo) (fst key) = None \<or> draft_at st key = None"
    then show "draft_at st3 key = draft_at st key"
      using f(5) draft2 [of key] sub [of "snd key"] draft [of "snd key"] last
      by (cases key) (auto simp: owners_followed_def e split: if_splits)
  next
    fix key b assume a: "map_of (entry # todo) (fst key) \<noteq> None \<and> draft_at st key = Some b"
    show "\<exists>owner. outlineOwnerKey owner = fst key
        \<and> followed (gn_snapshot notice) owner (snd key) (cs_pending st key = None) b (draft_at st3 key)"
    proof (cases "fst key = k")
      case True
      then have "draft_at st3 key = map_of remaining (snd key)" "map_of bs (snd key) = Some b"
        using f(5) draft2 [of key] last a draft [of "snd key"] by (cases key, auto simp: owners_followed_def)+
      then show ?thesis
        using g(6) True key by (intro exI [of _ owner]) (cases key, auto)
    next
      case False
      then show ?thesis
        using f(5) draft2 [of key] a ok2(3) by (cases key) (auto simp: owners_followed_def same_jobs_def e)
    qed
  qed
  moreover have "graph_owners notice directory previous (entry # todo) st = (st3, None)"
    using f(1) g(1) o by (simp add: e st2_def)
  moreover have "same_jobs st st3" using f(4) ok2(3) by (simp add: same_jobs_def)
  ultimately show ?case
    using f(2,3) by blast
qed



subsection \<open>Every operation keeps the invariant\<close>

text \<open>The store after a release that is not refused.\<close>

definition released :: "'c content_sessions \<Rightarrow> content_target \<Rightarrow> 'c content_sessions" where
  "released st target =
     (let remaining = AList.delete (ct_block target) (buffers st (ct_owner target));
          ownerKey = outlineOwnerKey (ct_owner target)
      in (if remaining \<noteq> [] then st\<lparr>cs_owners := AList.update ownerKey remaining (cs_owners st)\<rparr>
          else st\<lparr>cs_owners := AList.delete ownerKey (cs_owners st),
                  cs_ownerRefs := (cs_ownerRefs st)(ownerKey := None)\<rparr>)
           \<lparr>cs_unavailable := (cs_unavailable st)(target_key target := None)\<rparr>)"

lemma release_cases:
  obtains (kept) "release_session st target = st"
  | (released) "release_session st target = released st target" "cs_pending st (target_key target) = None"
      "cs_retryActions st (target_key target) = None"
      "\<And>b. draft_at st (target_key target) = Some b \<Longrightarrow> bufferIsClean b"
  by (cases "draft_at st (target_key target)")
    (fastforce simp: release_session_def released_def Let_def split: if_splits)+

lemma released_fields [simp]:
  "cs_targets (released st target) = cs_targets st" "cs_retryActions (released st target) = cs_retryActions st"
  "cs_pending (released st target) = cs_pending st" "cs_submitted (released st target) = cs_submitted st"
  "cs_orphans (released st target) = cs_orphans st" "cs_compositions (released st target) = cs_compositions st"
  "cs_dirty (released st target) = cs_dirty st" "cs_unsavedInput (released st target) = cs_unsavedInput st"
  by (simp_all add: released_def Let_def)

lemma delete_empty: "AList.delete k al = [] \<Longrightarrow> map_of al j = (if j = k then map_of al k else None)"
  by (metis delete_conv' fun_upd_apply map_of.simps(1))

lemma draft_at_released [simp]: "draft_at (released st target) = (draft_at st)(target_key target := None)"
proof
  fix key :: target_key
  obtain k j where key: "key = (k, j)" by force
  show "draft_at (released st target) key = ((draft_at st)(target_key target := None)) key"
    using delete_empty [of "ct_block target" "buffers st (ct_owner target)" j]
    by (auto simp: key released_def Let_def draft_at_def target_key_def buffers_def update_conv' delete_conv'
        delete_empty split: option.splits if_splits)
qed

lemma drafts_ok_released:
  assumes ok: "drafts_ok st" and clean: "\<And>b. draft_at st (target_key target) = Some b \<Longrightarrow> bufferIsClean b"
  shows "drafts_ok (released st target)"
  unfolding drafts_ok_def
proof (intro conjI allI impI)
  let ?st = "released st target" and ?k = "outlineOwnerKey (ct_owner target)"
  have same: "unclean ?st = unclean st"
    using clean by (auto simp: unclean_def split: if_splits)
  show "cs_dirty ?st = unclean ?st" "cs_unsavedInput ?st = (unclean ?st \<noteq> {})"
    using drafts_okD(2,3) [OF ok] by (simp_all add: same)
  show "buffer_inv b" if "draft_at ?st key = Some b" for key b
    using that drafts_okD(1) [OF ok] by (auto split: if_splits)
  show "distinct (map fst (cs_owners ?st))"
    using drafts_okD(4) [OF ok] by (simp add: released_def Let_def distinct_update distinct_delete)
  show "distinct (map fst bs)" if "map_of (cs_owners ?st) k = Some bs" for k bs
    using that drafts_okD(5) [OF ok] distinct_delete [OF distinct_buffers [OF ok]]
    by (auto simp: released_def Let_def update_conv' delete_conv' split: if_splits)
  have "?k \<in> dom (cs_ownerRefs st)" if "AList.delete (ct_block target) (buffers st (ct_owner target)) \<noteq> []"
    using that drafts_okD(6) [OF ok] by (auto simp: buffers_def split: option.splits)
  then show "dom (cs_ownerRefs ?st) = dom (map_of (cs_owners ?st))"
    using drafts_okD(6) [OF ok] by (auto simp: released_def Let_def update_conv' delete_conv' insert_absorb)
  show "outlineOwnerKey owner = k" if "cs_ownerRefs ?st k = Some owner" for k owner
    using that drafts_okD(7) [OF ok] by (auto simp: released_def Let_def split: if_splits)
qed

lemma release_props:
  assumes "drafts_ok st"
  shows "drafts_ok (release_session st target)" "targets_ok st \<Longrightarrow> targets_ok (release_session st target)"
    "same_jobs st (release_session st target)"
    "draft_at (release_session st target) key \<noteq> draft_at st key \<Longrightarrow>
       key = target_key target \<and> cs_pending st key = None \<and> (\<exists>b. draft_at st key = Some b \<and> bufferIsClean b)"
proof -
  show "drafts_ok (release_session st target)"
    using assms drafts_ok_released [of st target] by (cases rule: release_cases [of st target]) auto
  show "targets_ok st \<Longrightarrow> targets_ok (release_session st target)"
    by (cases rule: release_cases [of st target]) (auto simp: targets_ok_def)
  show "same_jobs st (release_session st target)"
    by (cases rule: release_cases [of st target]) (auto simp: same_jobs_def)
  show "draft_at (release_session st target) key \<noteq> draft_at st key \<Longrightarrow>
     key = target_key target \<and> cs_pending st key = None \<and> (\<exists>b. draft_at st key = Some b \<and> bufferIsClean b)"
    by (cases rule: release_cases [of st target]; cases "draft_at st (target_key target)") (auto split: if_splits)
qed

text \<open>The input an event carries comes from outside the store: its text is well-formed UTF-16.\<close>

fun event_ok :: "graph_snapshot \<Rightarrow> 'c content_sessions \<Rightarrow> 'c editor_event \<Rightarrow> bool" where
  "event_ok snapshot st (OpenEvent owner blockId content) = well_formed_content content"
| "event_ok snapshot st (TypeEvent target input directory caret) =
     (well_formed input \<and>
      (\<forall>b. getSnapshot snapshot st target = Some b \<longrightarrow>
         list_all (shown_atom (pageDirectoryIndex directory)) (bufferAtoms b)))"
| "event_ok snapshot st (SpliceEvent target index deleteCount ins) = well_formed_content ins"
| "event_ok snapshot st (HydrateEvent snapshot') = snapshot_ok snapshot'"
| "event_ok snapshot st (PublishEvent notice) = notice_ok notice"
| "event_ok snapshot st _ = True"

definition store_ok :: "'c content_sessions \<Rightarrow> bool" where
  "store_ok st \<longleftrightarrow> drafts_ok st \<and> targets_ok st"

lemma store_ok_set:
  "store_ok st \<Longrightarrow> (\<And>b. buffer = Some b \<Longrightarrow> buffer_inv b) \<Longrightarrow> store_ok (set_buffer st target buffer)"
  by (simp add: store_ok_def drafts_ok_set)

lemma store_ok_simps [simp]:
  "store_ok (st\<lparr>cs_retryActions := x2\<rparr>) = store_ok st"
  "store_ok (st\<lparr>cs_pending := x3\<rparr>) = store_ok st"
  "store_ok (st\<lparr>cs_submitted := x4\<rparr>) = store_ok st"
  "store_ok (st\<lparr>cs_orphans := x5\<rparr>) = store_ok st"
  "store_ok (st\<lparr>cs_unavailable := x6\<rparr>) = store_ok st"
  "store_ok (st\<lparr>cs_observers := x8\<rparr>) = store_ok st"
  "store_ok (st\<lparr>cs_published := x9\<rparr>) = store_ok st"
  "store_ok (st\<lparr>cs_recovered := x11\<rparr>) = store_ok st"
  "store_ok (recover st target) = store_ok st"
  by (simp_all add: store_ok_def same_draftsD(2) [OF recover_props(2)])

lemma store_ok_target:
  assumes "store_ok st" and "target_of st owner blockId = (target, st')"
  shows "store_ok st'" "same_drafts st st'" "target_key target = (outlineOwnerKey owner, blockId)"
  using assms target_of_props [of st owner blockId target st'] same_draftsD(2) [of st st'] by (auto simp: store_ok_def)

lemma store_ok_inv: "store_ok st \<Longrightarrow> draft_at st key = Some b \<Longrightarrow> buffer_inv b"
  by (auto simp: store_ok_def dest: drafts_okD(1))

lemma store_ok_snapshot:
  "store_ok st \<Longrightarrow> snapshot_ok snapshot \<Longrightarrow> getSnapshot snapshot st target = Some b \<Longrightarrow> buffer_inv b"
  by (auto simp: store_ok_def dest: getSnapshot_inv)


lemma store_op_ok:
  assumes ok: "store_ok st" and snap: "snapshot_ok snapshot" and event: "event_ok snapshot st event"
  shows "store_ok (store_op snapshot event st)"
proof (cases event)
  case (OpenEvent owner blockId content)
  obtain t st' where t: "target_of st owner blockId = (t, st')" by force
  then show ?thesis
    using store_ok_target(1) [OF ok t] event OpenEvent
    by (auto simp: open_session_def intro!: store_ok_set)
next
  case (TypeEvent t input directory caret)
  then show ?thesis
    using ok event store_ok_snapshot [OF ok snap] editBuffer_ok [of _ input directory caret]
    by (fastforce simp: edit_session_def ok_or_def split: option.split sum.split intro!: store_ok_set)
next
  case (SpliceEvent t index deleteCount ins)
  have "buffer_inv b'" if "spliceBuffer b index deleteCount ins = Inr b'" "buffer_inv b" for b b'
    using that event SpliceEvent spliceBuffer_ok [of b ins index deleteCount] spliceBuffer_error [of b index deleteCount ins]
    by (cases "index < 0 \<or> deleteCount < 0 \<or> int (length (bufferAtoms b)) < index + deleteCount") auto
  then show ?thesis
    using SpliceEvent ok store_ok_snapshot [OF ok snap]
    by (auto simp: splice_session_def ok_or_def split: option.split sum.split intro!: store_ok_set)
next
  case (ResetEvent t)
  then show ?thesis
    using ok canonical_inv(1) [OF snap] by (auto simp: reset_session_def Let_def intro!: store_ok_set)
next
  case (AdoptEvent t blockId)
  obtain t' st' where t: "target_of st (ct_owner t) blockId = (t', st')" by force
  have "store_ok (set_buffer st' t' (Some b))" if "draft_at st (target_key t) = Some b" for b
    using store_ok_target(1) [OF ok t] store_ok_inv [OF ok that] by (auto intro!: store_ok_set)
  then show ?thesis
    using ok canonical_inv(1) [OF snap] t AdoptEvent
    by (auto simp: adopt_session_def reset_session_def Let_def intro!: store_ok_set split: option.split)
next
  case (ObserveEvent t)
  then show ?thesis
    using ok canonical_inv(1) [OF snap]
    by (auto simp: observe_session_def Let_def intro!: store_ok_set split: option.split)
next
  case (UnobserveEvent t)
  then show ?thesis
    using ok by (auto simp: unobserve_session_def Let_def store_ok_def intro!: release_props(1,2))
next
  case (ComposeEvent t composing)
  have start: "store_ok (start_composing snapshot st t)"
    using ok by (auto simp: start_composing_def store_ok_def Let_def composition_ok_def mapping_ok_def
        intro!: targets_ok_compose)
  let ?st = "st\<lparr>cs_compositions := (cs_compositions st)(target_key t := None)\<rparr>"
  have cleared: "store_ok ?st" using ok by (auto simp: store_ok_def targets_ok_def)
  have "store_ok (fst (rebase_composed snapshot ?st t composed content))"
    if c: "cs_compositions st (target_key t) = Some composed" "cp_content composed = Some content" for composed content
  proof (cases "getSnapshot snapshot ?st t")
    case (Some before)
    have "composition_ok composed" using ok c(1) unfolding store_ok_def targets_ok_def by blast
    then have cm: "content_ok content" "mapping_ok (cp_mapping composed)" using c(2) by (auto simp: composition_ok_def)
    obtain new moved where "rebaseOnto before content (Some (cp_mapping composed)) = Inr (new, moved)" "buffer_inv new"
      by (rule rebase_kept [OF store_ok_snapshot [OF cleared snap Some] cm(1), of "Some (cp_mapping composed)"])
        (auto simp: cm(2))
    then show ?thesis using Some cleared by (auto simp: rebase_composed_def publish_def intro!: store_ok_set)
  qed (use cleared in \<open>simp add: rebase_composed_def\<close>)
  then show ?thesis
    using ComposeEvent start cleared by (auto simp: setComposing_def end_composing_def Let_def split: option.split)
next
  case (RecoveredEvent t blockId)
  then show ?thesis using ok by (auto simp: recover_done_def Let_def intro!: store_ok_set)
qed (use ok in \<open>auto simp: recover_failed_def\<close>)

lemma same_jobs_refl [simp]: "same_jobs st st"
  by (simp add: same_jobs_def)

lemma same_jobs_trans: "same_jobs st st' \<Longrightarrow> same_jobs st' st'' \<Longrightarrow> same_jobs st st''"
  by (simp add: same_jobs_def)

lemma same_jobs_simps [simp]:
  "same_jobs st0 (st\<lparr>cs_targets := x1\<rparr>) = same_jobs st0 st"
  "same_jobs st0 (st\<lparr>cs_retryActions := x2\<rparr>) = same_jobs st0 st"
  "same_jobs st0 (st\<lparr>cs_orphans := x5\<rparr>) = same_jobs st0 st"
  "same_jobs st0 (st\<lparr>cs_unavailable := x6\<rparr>) = same_jobs st0 st"
  "same_jobs st0 (st\<lparr>cs_compositions := x7\<rparr>) = same_jobs st0 st"
  "same_jobs st0 (st\<lparr>cs_observers := x8\<rparr>) = same_jobs st0 st"
  "same_jobs st0 (st\<lparr>cs_published := x9\<rparr>) = same_jobs st0 st"
  "same_jobs st0 (st\<lparr>cs_recovered := x11\<rparr>) = same_jobs st0 st"
  "same_jobs st0 (set_buffer st target buffer) = same_jobs st0 st"
  "same_jobs st0 (recover st target) = same_jobs st0 st"
  by (auto simp: same_jobs_def recover_def split: option.split)

lemma same_jobs_release: "store_ok st \<Longrightarrow> same_jobs st (release_session st target)"
  by (auto simp: store_ok_def intro: release_props(3))

lemma same_jobs_target: "target_of st owner blockId = (target, st') \<Longrightarrow> same_jobs st st'"
  by (auto simp: target_of_def Let_def same_jobs_def split: option.splits)

lemma store_op_jobs:
  assumes "store_ok st"
  shows "same_jobs st (store_op snapshot event st)"
proof (cases event)
  case (OpenEvent owner blockId content)
  then show ?thesis
    using same_jobs_target [of st owner blockId] by (auto simp: open_session_def split: prod.split)
next
  case (AdoptEvent t blockId)
  then show ?thesis
    using same_jobs_target [of st "ct_owner t" blockId]
    by (auto simp: adopt_session_def reset_session_def Let_def split: prod.split option.split)
next
  case (UnobserveEvent t)
  then show ?thesis
    using assms same_jobs_release [of "st\<lparr>cs_observers := x\<rparr>" t for x]
    by (auto simp: unobserve_session_def Let_def same_jobs_def)
qed (auto simp: edit_session_def splice_session_def ok_or_def reset_session_def observe_session_def Let_def
    setComposing_def start_composing_def end_composing_def rebase_composed_def publish_def recover_done_def
    recover_failed_def split: option.split sum.split)


subsection \<open>Submissions keep the invariant\<close>

lemma restoreBuffer_inv:
  assumes "restoreBuffer original newer = Inr result" and "buffer_inv original" and "buffer_inv newer"
  shows "buffer_inv result"
  using buffer_draft.run_splices_keeps [OF assms(2) bufferSplices_well_formed [OF assms(3)]] assms(1)
  by (auto simp: restoreBuffer_def)

lemma submit_prepare_props:
  assumes "store_ok st" and "snapshot_ok snapshot"
    and "submit_prepare snapshot st target actions = Prepared command sub st'"
  shows "store_ok st'" "buffer_inv (sb_buffer sub)" "sb_target sub = target"
    "getSnapshot snapshot st target = Some (sb_buffer sub)"
    "draft_at st' = (draft_at st)(target_key target \<mapsto> settleBuffer (sb_buffer sub))"
    "cs_pending st' = (cs_pending st)(target_key target \<mapsto> (case cs_pending st (target_key target) of None \<Rightarrow> 0 | Some n \<Rightarrow> n) + 1)"
    "cs_submitted st' = (cs_submitted st)(target_key target \<mapsto>
       (case cs_submitted st (target_key target) of None \<Rightarrow> [] | Some bs \<Rightarrow> bs) @ [sb_buffer sub])"
    "sb_actions sub = fst (submit_commands st target actions (sb_buffer sub))"
proof -
  obtain buffer where b: "getSnapshot snapshot st target = Some buffer" "cs_unavailable st (target_key target) = None"
    using assms(3) by (auto simp: submit_prepare_def split: option.splits)
  note inv = store_ok_snapshot [OF assms(1,2) b(1)]
  obtain submitted commands where c: "submit_commands st target actions buffer = (submitted, commands)" by force
  have sub: "sub = \<lparr>sb_target = target, sb_buffer = buffer, sb_actions = submitted\<rparr>"
    "st' = set_buffer (add_pending (target_key target)
       (st\<lparr>cs_retryActions := (cs_retryActions st)(target_key target := None),
           cs_submitted := (cs_submitted st)(target_key target \<mapsto>
             (case cs_submitted st (target_key target) of None \<Rightarrow> [] | Some bs \<Rightarrow> bs) @ [buffer])\<rparr>))
       target (Some (settleBuffer buffer))"
    using assms(3) b c by (auto simp: submit_prepare_def Let_def split: if_splits)
  show "store_ok st'"
    using settleBuffer_props(1) [OF inv] assms(1) by (auto simp: sub(2) add_pending_def intro!: store_ok_set)
  show "draft_at st' = (draft_at st)(target_key target \<mapsto> settleBuffer (sb_buffer sub))"
    by (simp add: sub add_pending_def)
qed (use assms(3) in \<open>auto simp: submit_prepare_def Let_def add_pending_def case_prod_beta
      dest: store_ok_snapshot [OF assms(1,2)] split: option.splits if_splits\<close>)


lemma submit_settled_ok:
  assumes "store_ok st" and "snapshot_ok snapshot" and "buffer_inv (sb_buffer sub)"
    and "submit_settled snapshot st sub = Inr (newerInput, st')"
  shows "store_ok st' \<and> same_jobs st st'"
proof -
  obtain buffer where b: "getSnapshot snapshot st (sb_target sub) = Some buffer"
    using assms(4) by (auto simp: submit_settled_def Let_def split: option.splits)
  show ?thesis
  proof (cases "canonical snapshot (ct_owner (sb_target sub)) (ct_block (sb_target sub))")
    case None
    then show ?thesis
      using assms b settleBuffer_props(1) [OF assms(3)]
      by (auto simp: submit_settled_def Let_def intro!: store_ok_set split: if_splits)
  next
    case (Some current)
    note current = canonical_inv [OF assms(2) Some]
    obtain new moved where "rebaseOnto buffer (inlineContent (source current)) None = Inr (new, moved)" "buffer_inv new"
      by (rule rebase_kept [OF store_ok_snapshot [OF assms(1,2) b] current(3), of None]) auto
    then show ?thesis
      using assms b Some current(1)
      by (auto simp: submit_settled_def Let_def intro!: store_ok_set split: if_splits)
  qed
qed

lemma submit_catch_ok:
  assumes "store_ok st" and "snapshot_ok snapshot" and "buffer_inv (sb_buffer sub)"
  shows "store_ok (fst (submit_catch snapshot st sub error)) \<and> same_jobs st (fst (submit_catch snapshot st sub error))"
proof -
  have "store_ok (set_buffer st' (sb_target sub) (Some restored))"
    if "store_ok st'" "getSnapshot snapshot st' (sb_target sub) = Some buffer"
      "restoreBuffer (sb_buffer sub) buffer = Inr restored" for st' buffer restored
    using restoreBuffer_inv [OF that(3) assms(3) store_ok_snapshot [OF that(1) assms(2) that(2)]] that(1)
    by (auto intro!: store_ok_set)
  then show ?thesis
    using assms(1) by (auto simp: submit_catch_def Let_def split: option.split sum.split)
qed

lemma submit_finally_ok:
  assumes "store_ok st" and "cs_pending st = [target_key (sb_target sub) \<mapsto> 1]"
    and "cs_submitted st = [target_key (sb_target sub) \<mapsto> [sb_buffer sub]]"
  shows "store_ok (submit_finally st sub)" "cs_pending (submit_finally st sub) = Map.empty"
    "cs_submitted (submit_finally st sub) = Map.empty"
proof -
  let ?key = "target_key (sb_target sub)"
  let ?st = "drop_pending ?key (st\<lparr>cs_submitted := (cs_submitted st)(?key := None)\<rparr>)"
  have eq: "submit_finally st sub = release_session ?st (sb_target sub)"
    using assms by (simp add: submit_finally_def Let_def)
  have ok: "store_ok ?st" using assms(1) by (simp add: drop_pending_def Let_def)
  then show "store_ok (submit_finally st sub)"
    unfolding eq by (auto simp: store_ok_def intro: release_props(1,2))
  have "same_jobs ?st (submit_finally st sub)" unfolding eq by (rule same_jobs_release [OF ok])
  moreover have "cs_pending ?st = Map.empty" "cs_submitted ?st = Map.empty"
    using assms by (simp_all add: drop_pending_def Let_def)
  ultimately show "cs_pending (submit_finally st sub) = Map.empty" "cs_submitted (submit_finally st sub) = Map.empty"
    by (simp_all add: same_jobs_def)
qed

lemma submit_complete_ok:
  assumes "store_ok st" and "snapshot_ok snapshot" and "buffer_inv (sb_buffer sub)"
    and "cs_pending st = [target_key (sb_target sub) \<mapsto> 1]"
    and "cs_submitted st = [target_key (sb_target sub) \<mapsto> [sb_buffer sub]]"
  shows "store_ok (fst (submit_complete snapshot st sub failure))"
    "cs_pending (fst (submit_complete snapshot st sub failure)) = Map.empty"
    "cs_submitted (fst (submit_complete snapshot st sub failure)) = Map.empty"
proof -
  obtain st' where eq: "fst (submit_complete snapshot st sub failure) = submit_finally st' sub"
    and ok: "store_ok st'" "same_jobs st st'"
    using submit_catch_ok [OF assms(1-3)] submit_settled_ok [OF assms(1-3)]
    by (auto simp: submit_complete_def case_prod_beta split: option.splits sum.splits)
  then have st': "cs_pending st' = [target_key (sb_target sub) \<mapsto> 1]"
    "cs_submitted st' = [target_key (sb_target sub) \<mapsto> [sb_buffer sub]]"
    using assms(4,5) by (simp_all add: same_jobs_def)
  show "store_ok (fst (submit_complete snapshot st sub failure))"
    "cs_pending (fst (submit_complete snapshot st sub failure)) = Map.empty"
    "cs_submitted (fst (submit_complete snapshot st sub failure)) = Map.empty"
    unfolding eq by (rule submit_finally_ok [OF ok(1) st'])+
qed


subsection \<open>Reachable states\<close>

text \<open>What is in flight is what the store says is pending and submitted.\<close>

definition flight_ok :: "'c editor_world \<Rightarrow> bool" where
  "flight_ok w \<longleftrightarrow>
     (case ew_flight w of
        None \<Rightarrow> cs_pending (ew_store w) = Map.empty \<and> cs_submitted (ew_store w) = Map.empty
      | Some (Projecting target) \<Rightarrow>
          cs_pending (ew_store w) = [target_key target \<mapsto> 1] \<and> cs_submitted (ew_store w) = Map.empty
      | Some (Submitting sub) \<Rightarrow>
          cs_pending (ew_store w) = [target_key (sb_target sub) \<mapsto> 1]
        \<and> cs_submitted (ew_store w) = [target_key (sb_target sub) \<mapsto> [sb_buffer sub]]
        \<and> buffer_inv (sb_buffer sub))"

definition world_ok :: "'c editor_world \<Rightarrow> bool" where
  "world_ok w \<longleftrightarrow> store_ok (ew_store w) \<and> snapshot_ok (ew_snapshot w) \<and> flight_ok w"

inductive editor_reachable :: "graph_snapshot \<Rightarrow> 'c editor_world \<Rightarrow> bool" for start where
  initial: "snapshot_ok start \<Longrightarrow>
    editor_reachable start \<lparr>ew_snapshot = start, ew_directory = gs_page_directory start, ew_previous = start,
      ew_store = empty_sessions, ew_flight = None\<rparr>"
| event: "editor_reachable start w \<Longrightarrow> event_ok (ew_snapshot w) (ew_store w) e \<Longrightarrow>
    editor_reachable start (editor_op e w)"

lemma graph_changed_props:
  assumes "store_ok st" and "notice_ok notice"
  obtains st' where "graph_changed notice directory previous st = (st', None)" "store_ok st'" "same_jobs st st'"
    "owners_followed (gn_snapshot notice) (map_of (cs_owners st)) st st'"
  using graph_owners_props [of st notice "cs_owners st" directory previous] assms drafts_okD(4) [of st]
  by (auto simp: graph_changed_def store_ok_def)

lemma world_ok_start_submit:
  assumes "world_ok w"
  shows "world_ok (start_submit target actions w)"
proof (cases "ew_flight w")
  case None
  then have none: "cs_pending (ew_store w) = Map.empty" "cs_submitted (ew_store w) = Map.empty"
    using assms by (simp_all add: world_ok_def flight_ok_def)
  show ?thesis
  proof (cases "submit_prepare (ew_snapshot w) (ew_store w) target actions")
    case (Prepared command sub st)
    show ?thesis
      using submit_prepare_props [OF _ _ Prepared] assms None Prepared none
      by (simp add: start_submit_def world_ok_def flight_ok_def)
  qed (use assms None in \<open>simp_all add: start_submit_def\<close>)
qed (use assms in \<open>simp add: start_submit_def\<close>)

lemma world_ok_step:
  assumes ok: "world_ok w" and event: "event_ok (ew_snapshot w) (ew_store w) e"
  shows "world_ok (editor_op e w)"
proof -
  have parts: "store_ok (ew_store w)" "snapshot_ok (ew_snapshot w)" "flight_ok w"
    using ok by (simp_all add: world_ok_def)
  have store: "world_ok (w\<lparr>ew_store := store_op (ew_snapshot w) e (ew_store w)\<rparr>)"
    using store_op_ok [OF parts(1,2) event] store_op_jobs [OF parts(1), of "ew_snapshot w" e] parts
    by (auto simp: world_ok_def flight_ok_def same_jobs_def split: option.splits flight.splits)
  show ?thesis
  proof (cases e)
    case (SubmitEvent target actions)
    then show ?thesis using world_ok_start_submit [OF ok] by simp
  next
    case (ProjectEvent target)
    then show ?thesis
      using ok by (auto simp: start_project_def world_ok_def flight_ok_def add_pending_def split: option.split)
  next
    case (JobEvent failure)
    show ?thesis
    proof (cases "ew_flight w")
      case (Some flight)
      show ?thesis
      proof (cases flight)
        case (Submitting sub)
        then show ?thesis
          using submit_complete_ok [of "ew_store w" "ew_snapshot w" sub failure] parts Some JobEvent
          by (simp add: finish_job_def world_ok_def flight_ok_def)
      next
        case (Projecting target)
        then show ?thesis
          using parts Some JobEvent by (simp add: finish_job_def world_ok_def flight_ok_def drop_pending_def Let_def)
      qed
    qed (use ok JobEvent in \<open>simp add: finish_job_def\<close>)
  next
    case (PublishEvent notice)
    obtain st' where "graph_changed notice (ew_directory w) (ew_previous w) (ew_store w) = (st', None)"
      "store_ok st'" "same_jobs (ew_store w) st'"
      by (rule graph_changed_props [OF parts(1), of notice]) (use event PublishEvent in auto)
    then show ?thesis
      using PublishEvent event parts
      by (auto simp: publish_notice_def world_ok_def flight_ok_def same_jobs_def notice_ok_def
          split: option.splits flight.splits)
  qed (use ok event store in \<open>auto simp: world_ok_def flight_ok_def split: option.splits flight.splits\<close>)
qed

lemma reachable_ok: "editor_reachable start w \<Longrightarrow> world_ok w"
proof (induction rule: editor_reachable.induct)
  case initial
  then show ?case
    by (auto simp: world_ok_def store_ok_def flight_ok_def drafts_ok_def targets_ok_def empty_sessions_def
        draft_at_def unclean_def)
qed (rule world_ok_step)



subsection \<open>While a submission is in flight\<close>

text \<open>
  The events that may happen to a target while it waits for its submission: everything except
  discarding the draft, adopting another one for it, ending a composition on it, and the end
  of the job itself.
\<close>

fun gentle :: "target_key \<Rightarrow> 'c editor_event \<Rightarrow> bool" where
  "gentle key (ResetEvent target) = (target_key target \<noteq> key)"
| "gentle key (AdoptEvent target blockId) =
     (target_key target \<noteq> key \<and> (outlineOwnerKey (ct_owner target), blockId) \<noteq> key)"
| "gentle key (ComposeEvent target composing) = (composing \<or> target_key target \<noteq> key)"
| "gentle key (RecoveredEvent target blockId) = (target_key target \<noteq> key)"
| "gentle key (JobEvent failure) = False"
| "gentle key _ = True"

fun run_events :: "'c editor_event list \<Rightarrow> 'c editor_world \<Rightarrow> 'c editor_world" where
  "run_events [] w = w"
| "run_events (e # es) w = run_events es (editor_op e w)"

fun events_ok :: "'c editor_world \<Rightarrow> 'c editor_event list \<Rightarrow> bool" where
  "events_ok w [] = True"
| "events_ok w (e # es) = (event_ok (ew_snapshot w) (ew_store w) e \<and> events_ok (editor_op e w) es)"

text \<open>The draft has the same source; what it shows may have changed.\<close>

definition same_source :: "content_atom list \<Rightarrow> content_buffer option \<Rightarrow> bool" where
  "same_source atoms buffer \<longleftrightarrow> (\<exists>b. buffer = Some b \<and> source b = atoms)"

lemma same_source_edited:
  assumes "same_source atoms (draft_at st key)" and "getSnapshot snapshot st t = Some b" and "source b' = source b"
  shows "same_source atoms (draft_at (set_buffer st t (Some b')) key)"
  using assms by (cases "key = target_key t") (auto simp: same_source_def getSnapshot_def)

lemma store_op_gentle:
  assumes ok: "store_ok st" "snapshot_ok snapshot" "event_ok snapshot st e" and g: "gentle key e"
    and pending: "cs_pending st key \<noteq> None" and draft: "same_source atoms (draft_at st key)"
  shows "same_source atoms (draft_at (store_op snapshot e st) key)"
proof (cases e)
  case (OpenEvent owner blockId content)
  obtain t st' where t: "target_of st owner blockId = (t, st')" by force
  note tp = store_ok_target [OF ok(1) t]
  show ?thesis
    using draft OpenEvent t same_draftsD(1) [OF tp(2)] tp(3)
    by (auto simp: open_session_def draft_at_buffers same_source_def)
next
  case (TypeEvent t input directory caret)
  show ?thesis
  proof (cases "edit_session snapshot st t input directory caret")
    case (Inr st')
    then obtain b b' where b: "getSnapshot snapshot st t = Some b" "st' = set_buffer st t (Some b')"
      "editBuffer b (projectBuffer b directory) input caret = Inr b'"
      by (auto simp: edit_session_def split: option.splits sum.splits)
    have "source b' = source b"
      using b(1,3) editBuffer_ok [OF store_ok_snapshot [OF ok(1,2) b(1)], of input directory caret] ok(3) TypeEvent by auto
    then show ?thesis
      using same_source_edited [OF draft b(1)] b(2) by (simp add: TypeEvent Inr ok_or_def)
  qed (use draft in \<open>simp add: TypeEvent ok_or_def\<close>)
next
  case (SpliceEvent t index deleteCount ins)
  show ?thesis
  proof (cases "splice_session snapshot st t index deleteCount ins")
    case (Inr st')
    then obtain b b' where b: "getSnapshot snapshot st t = Some b" "st' = set_buffer st t (Some b')"
      "spliceBuffer b index deleteCount ins = Inr b'"
      by (auto simp: splice_session_def split: option.splits sum.splits)
    have "source b' = source b"
      using b(3) by (auto simp: spliceBuffer_def Let_def split: if_splits)
    then show ?thesis
      using same_source_edited [OF draft b(1)] b(2) by (simp add: SpliceEvent Inr ok_or_def)
  qed (use draft in \<open>simp add: SpliceEvent ok_or_def\<close>)
next
  case (ResetEvent t)
  then show ?thesis using draft g by (auto simp: reset_session_def Let_def same_source_def)
next
  case (AdoptEvent t blockId)
  obtain t' st' where t: "target_of st (ct_owner t) blockId = (t', st')" by force
  note tp = store_ok_target [OF ok(1) t]
  show ?thesis
    using draft g AdoptEvent t tp(3) same_draftsD(1) [OF tp(2)]
    by (auto simp: adopt_session_def reset_session_def Let_def same_source_def split: option.split)
next
  case (ObserveEvent t)
  then show ?thesis using draft by (auto simp: observe_session_def Let_def same_source_def split: option.split)
next
  case (UnobserveEvent t)
  let ?st = "st\<lparr>cs_observers := (cs_observers st)(target_key t := cs_observers st (target_key t) - 1)\<rparr>"
  have "draft_at (release_session ?st t) key = draft_at st key"
    using release_props(4) [of ?st t key] ok(1) pending by (fastforce simp: store_ok_def)
  then show ?thesis using UnobserveEvent draft by (simp add: unobserve_session_def Let_def)
next
  case (ComposeEvent t composing)
  then show ?thesis
    using draft g
    by (auto simp: setComposing_def start_composing_def end_composing_def rebase_composed_def publish_def Let_def
        same_source_def split: option.split sum.split)
next
  case (RecoveredEvent t blockId)
  then show ?thesis using draft g by (auto simp: recover_done_def Let_def same_source_def)
qed (use draft in \<open>auto simp: recover_failed_def\<close>)

definition submitting :: "'c submission \<Rightarrow> 'c editor_world \<Rightarrow> bool" where
  "submitting sub w \<longleftrightarrow> world_ok w \<and> ew_flight w = Some (Submitting sub)
     \<and> same_source (bufferAtoms (sb_buffer sub)) (draft_at (ew_store w) (target_key (sb_target sub)))"

lemma submitting_step:
  assumes s: "submitting sub w" and g: "gentle (target_key (sb_target sub)) e"
    and event: "event_ok (ew_snapshot w) (ew_store w) e"
  shows "submitting sub (editor_op e w)"
proof -
  let ?key = "target_key (sb_target sub)" and ?atoms = "bufferAtoms (sb_buffer sub)"
  have ok: "world_ok w" and flight: "ew_flight w = Some (Submitting sub)"
    and draft: "same_source ?atoms (draft_at (ew_store w) ?key)"
    using s by (simp_all add: submitting_def)
  have parts: "store_ok (ew_store w)" "snapshot_ok (ew_snapshot w)" "cs_pending (ew_store w) = [?key \<mapsto> 1]"
    using ok flight by (simp_all add: world_ok_def flight_ok_def)
  have pending: "cs_pending (ew_store w) ?key \<noteq> None" by (simp add: parts(3))
  note next_ok = world_ok_step [OF ok event]
  note store = store_op_gentle [OF parts(1,2) event g pending draft]
  show ?thesis
  proof (cases e)
    case (PublishEvent notice)
    obtain st' where st': "graph_changed notice (ew_directory w) (ew_previous w) (ew_store w) = (st', None)"
      "owners_followed (gn_snapshot notice) (map_of (cs_owners (ew_store w))) (ew_store w) st'"
      by (rule graph_changed_props [OF parts(1), of notice]) (use event PublishEvent in auto)
    obtain b where b: "draft_at (ew_store w) ?key = Some b" using draft by (auto simp: same_source_def)
    then have known: "map_of (cs_owners (ew_store w)) (fst ?key) \<noteq> None"
      by (auto simp: draft_at_def split: option.splits)
    then obtain owner where "followed (gn_snapshot notice) owner (snd ?key)
        (cs_pending (ew_store w) ?key = None) b (draft_at st' ?key)"
      using st'(2) b unfolding owners_followed_def by blast
    then have "draft_at st' ?key = Some b"
      using pending by (auto simp: followed_def split: option.splits)
    then show ?thesis
      using next_ok PublishEvent flight draft b st'(1) by (simp add: submitting_def publish_notice_def)
  qed (use next_ok flight draft store g in \<open>auto simp: submitting_def start_submit_def start_project_def\<close>)
qed

lemma submitting_events:
  assumes "submitting sub w" and "list_all (gentle (target_key (sb_target sub))) es" and "events_ok w es"
  shows "submitting sub (run_events es w)"
  using assms by (induction es arbitrary: w) (auto intro: submitting_step)

lemma submitting_start:
  assumes "world_ok w" and "ew_flight w = None"
    and "ew_flight (start_submit target actions w) = Some (Submitting sub)"
  shows "submitting sub (start_submit target actions w)" "sb_target sub = target"
    "getSnapshot (ew_snapshot w) (ew_store w) target = Some (sb_buffer sub)"
proof -
  obtain command st where p: "submit_prepare (ew_snapshot w) (ew_store w) target actions = Prepared command sub st"
    using assms(2,3) by (auto simp: start_submit_def split: prepared.splits)
  have parts: "store_ok (ew_store w)" "snapshot_ok (ew_snapshot w)"
    using assms(1) by (simp_all add: world_ok_def)
  note props = submit_prepare_props [OF parts p]
  show "sb_target sub = target" "getSnapshot (ew_snapshot w) (ew_store w) target = Some (sb_buffer sub)"
    by (fact props(3,4))+
  show "submitting sub (start_submit target actions w)"
    using world_ok_start_submit [OF assms(1), of target actions] assms(3) props(3,5) settleBuffer_props(3) [OF props(2)]
      p assms(2)
    by (simp add: submitting_def same_source_def start_submit_def)
qed

end
