(* ===== verification/Content_Submission.thy ===== *)
theory Content_Submission
  imports Content_Session_Inv
begin

text \<open>
  The promises of the content sessions to the reader: a change of the graph, a failed
  submission and a page that goes away lose no input.
\<close>

text \<open>What the catch block and the finally block make of a failed submission.\<close>

definition input_kept :: "'c submission \<Rightarrow> content_buffer \<Rightarrow> 'c content_sessions \<Rightarrow> bool" where
  "input_kept sub shown st \<longleftrightarrow>
     (case draft_at st (target_key (sb_target sub)) of
        Some restored \<Rightarrow> bufferAtoms restored = bufferAtoms shown \<and> source restored = source (sb_buffer sub)
      | None \<Rightarrow> bufferAtoms shown = source (sb_buffer sub) \<and> sb_actions sub = [])
   \<and> (sb_actions sub \<noteq> [] \<longrightarrow> cs_retryActions st (target_key (sb_target sub)) = Some (sb_actions sub))"

lemma catch_keeps_input:
  assumes "submitting sub w" and "draft_at (ew_store w) (target_key (sb_target sub)) = Some shown" and "\<not> was_applied error"
  obtains st restored where "fst (submit_catch (ew_snapshot w) (ew_store w) sub error) = st" "store_ok st"
    "draft_at st (target_key (sb_target sub)) = Some restored" "bufferAtoms restored = bufferAtoms shown"
    "source restored = source (sb_buffer sub)"
    "sb_actions sub \<noteq> [] \<longrightarrow> cs_retryActions st (target_key (sb_target sub)) = Some (sb_actions sub)"
    "same_jobs (ew_store w) st"
proof -
  let ?key = "target_key (sb_target sub)"
  have parts: "store_ok (ew_store w)" "snapshot_ok (ew_snapshot w)" "buffer_inv (sb_buffer sub)"
    "source shown = bufferAtoms (sb_buffer sub)" "buffer_inv shown"
    using assms store_ok_inv [OF _ assms(2)]
    by (auto simp: submitting_def world_ok_def flight_ok_def same_source_def)
  obtain restored where r: "restoreBuffer (sb_buffer sub) shown = Inr restored" "source restored = source (sb_buffer sub)"
    "bufferAtoms restored = bufferAtoms shown"
    using restoreBuffer_ok [OF parts(3,5,4)] by blast
  define st1 where "st1 = (if sb_actions sub \<noteq> []
      then (ew_store w)\<lparr>cs_retryActions := (cs_retryActions (ew_store w))(?key \<mapsto> sb_actions sub)\<rparr> else ew_store w)"
  define st2 where "st2 = set_buffer st1 (sb_target sub) (Some restored)"
  have "draft_at st1 = draft_at (ew_store w)" by (simp add: st1_def)
  then have shown: "getSnapshot (ew_snapshot w) st1 (sb_target sub) = Some shown"
    using assms(2) by (simp add: getSnapshot_def)
  have "fst (submit_catch (ew_snapshot w) (ew_store w) sub error) =
      (if cs_orphans st2 ?key \<noteq> None then recover st2 (sb_target sub) else st2)"
    unfolding submit_catch_def Let_def st1_def [symmetric]
    using assms(3) shown r(1) by (simp add: st2_def)
  moreover have "draft_at (recover st2 (sb_target sub)) = draft_at st2"
    "cs_retryActions (recover st2 (sb_target sub)) = cs_retryActions st2"
    using same_draftsD(1,5) [OF recover_props(2) [of st2 "sb_target sub"]] by simp_all
  moreover have "draft_at st2 ?key = Some restored" by (simp add: st2_def)
  moreover have "cs_retryActions st2 ?key = Some (sb_actions sub)" if "sb_actions sub \<noteq> []"
    using that by (simp add: st2_def st1_def)
  ultimately show ?thesis
    using submit_catch_ok [OF parts(1-3), of error] r(2,3)
    by (intro that [of "fst (submit_catch (ew_snapshot w) (ew_store w) sub error)" restored]) (simp_all split: if_splits)
qed

lemma failed_keeps_input:
  assumes s: "submitting sub w" and "draft_at (ew_store w) (target_key (sb_target sub)) = Some shown" and "\<not> was_applied error"
  shows "input_kept sub shown (ew_store (editor_op (JobEvent (Some error)) w))"
proof -
  let ?key = "target_key (sb_target sub)"
  obtain st restored where c: "fst (submit_catch (ew_snapshot w) (ew_store w) sub error) = st" "store_ok st"
    "draft_at st ?key = Some restored" "bufferAtoms restored = bufferAtoms shown"
    "source restored = source (sb_buffer sub)"
    "sb_actions sub \<noteq> [] \<longrightarrow> cs_retryActions st ?key = Some (sb_actions sub)" "same_jobs (ew_store w) st"
    by (rule catch_keeps_input [OF assms])
  have jobs: "cs_submitted st = [?key \<mapsto> [sb_buffer sub]]" "cs_pending st = [?key \<mapsto> 1]"
    and flight: "ew_flight w = Some (Submitting sub)"
    using s c(7) by (auto simp: submitting_def world_ok_def flight_ok_def same_jobs_def)
  let ?st = "drop_pending ?key (st\<lparr>cs_submitted := (cs_submitted st)(?key := None)\<rparr>)"
  have eq: "ew_store (editor_op (JobEvent (Some error)) w) = release_session ?st (sb_target sub)"
    using flight c(1) jobs by (simp add: finish_job_def submit_complete_def case_prod_beta submit_finally_def Let_def)
  have st: "draft_at ?st = draft_at st" "cs_retryActions ?st = cs_retryActions st"
    by (simp_all add: drop_pending_def Let_def)
  show ?thesis
    unfolding eq input_kept_def
    using c(3-6) st
    by (cases rule: release_cases [of ?st "sb_target sub"])
      (auto simp: bufferIsClean_iff split: option.split)
qed


text \<open>
  C2. A change of the graph never loses input and never throws. A draft stays as it is, or
  is rebased onto the new content of its block with everything typed; one goes away only when
  it holds no input, nothing of it is in flight and its block is gone.
\<close>

theorem graph_change_keeps_input:
  assumes "editor_reachable start w" and "notice_ok notice"
    and "draft_at (ew_store w) key = Some b"
  shows "\<exists>st' owner. graph_changed notice (ew_directory w) (ew_previous w) (ew_store w) = (st', None)
     \<and> outlineOwnerKey owner = fst key
     \<and> (case draft_at st' key of
          None \<Rightarrow> bufferIsClean b \<and> cs_pending (ew_store w) key = None
            \<and> canonical (gn_snapshot notice) owner (snd key) = None
        | Some b' \<Rightarrow>
            b' = b
          \<or> buffer_inv b' \<and> typed_atoms b' = typed_atoms b \<and> cs_pending (ew_store w) key = None
            \<and> map_option source (canonical (gn_snapshot notice) owner (snd key)) = Some (source b'))"
proof -
  have ok: "store_ok (ew_store w)" using reachable_ok [OF assms(1)] by (simp add: world_ok_def)
  obtain st' where st': "graph_changed notice (ew_directory w) (ew_previous w) (ew_store w) = (st', None)"
    "owners_followed (gn_snapshot notice) (map_of (cs_owners (ew_store w))) (ew_store w) st'"
    by (rule graph_changed_props [OF ok assms(2)])
  have "map_of (cs_owners (ew_store w)) (fst key) \<noteq> None"
    using assms(3) by (auto simp: draft_at_def split: option.splits)
  then obtain owner where "outlineOwnerKey owner = fst key"
    "followed (gn_snapshot notice) owner (snd key) (cs_pending (ew_store w) key = None) b (draft_at st' key)"
    using st'(2) assms(3) unfolding owners_followed_def by blast
  then show ?thesis
    using st'(1) by (intro exI [of _ st'] exI [of _ owner]) (auto simp: followed_def split: option.splits)
qed


lemma in_unsaved:
  "e \<in> set (unsaved st) \<longleftrightarrow>
     (\<exists>k bs owner j b. (k, bs) \<in> set (cs_owners st) \<and> cs_ownerRefs st k = Some owner
        \<and> (j, b) \<in> set bs \<and> e \<in> set (unsaved_entry st owner (j, b)))"
proof -
  have "e \<in> set (unsaved st) \<longleftrightarrow>
      (\<exists>(k, bs) \<in> set (cs_owners st). \<exists>owner. cs_ownerRefs st k = Some owner
         \<and> (\<exists>entry \<in> set bs. e \<in> set (unsaved_entry st owner entry)))"
    unfolding unsaved_def set_concat set_map UN_iff image_image
    by (intro bex_cong refl) (auto split: option.splits dest: sym)
  then show ?thesis by (auto simp: Bex_def)
qed

lemma draft_at_in:
  assumes "drafts_ok st"
  shows "draft_at st (k, j) = Some b \<longleftrightarrow> (\<exists>bs. (k, bs) \<in> set (cs_owners st) \<and> (j, b) \<in> set bs)"
  using drafts_okD(4,5) [OF assms]
  by (auto simp: draft_at_def split: option.splits dest: map_of_SomeD map_of_is_SomeI)
    (metis map_of_is_SomeI option.distinct(1) option.inject)+

definition in_flight :: "'c content_sessions \<Rightarrow> target_key \<Rightarrow> content_buffer list" where
  "in_flight st key = (case cs_submitted st key of None \<Rightarrow> [] | Some bs \<Rightarrow> bs)"

lemma in_unsaved_entry:
  "e \<in> set (unsaved_entry st owner (j, b)) \<longleftrightarrow>
     (\<not> bufferIsClean b \<or> in_flight st (outlineOwnerKey owner, j) \<noteq> [])
   \<and> ue_owner e = owner \<and> ue_block_id e = j \<and> ue_content e = inlineContent (bufferAtoms b)
   \<and> ue_bases e = map (\<lambda>entry. inlineContent (source entry)) (in_flight st (outlineOwnerKey owner, j) @ [b])"
  by (cases e) (auto simp: unsaved_entry_def Let_def in_flight_def)

text \<open>
  The list kept when the page goes away is complete and exact: one entry for every draft
  that holds input the graph does not have or whose submission is in flight, with the content
  the draft shows and, as bases, the contents the graph may hold when it is read back.
\<close>

theorem unsaved_complete:
  assumes "editor_reachable start w"
  shows "e \<in> set (unsaved (ew_store w)) \<longleftrightarrow>
     (\<exists>k j b owner. cs_ownerRefs (ew_store w) k = Some owner \<and> draft_at (ew_store w) (k, j) = Some b
        \<and> (\<not> bufferIsClean b \<or> in_flight (ew_store w) (k, j) \<noteq> [])
        \<and> ue_owner e = owner \<and> ue_block_id e = j
        \<and> ue_content e = inlineContent (bufferAtoms b) \<and> contentAtoms (ue_content e) = bufferAtoms b
        \<and> ue_bases e = map (\<lambda>entry. inlineContent (source entry)) (in_flight (ew_store w) (k, j) @ [b]))"
proof -
  let ?st = "ew_store w"
  have ok: "drafts_ok ?st" using reachable_ok [OF assms] by (simp add: world_ok_def store_ok_def)
  have "e \<in> set (unsaved ?st) \<longleftrightarrow>
      (\<exists>k j b owner. cs_ownerRefs ?st k = Some owner \<and> draft_at ?st (k, j) = Some b
         \<and> e \<in> set (unsaved_entry ?st owner (j, b)))"
    unfolding in_unsaved draft_at_in [OF ok] by blast
  also have "\<dots> \<longleftrightarrow> (\<exists>k j b owner. cs_ownerRefs ?st k = Some owner \<and> draft_at ?st (k, j) = Some b
        \<and> (\<not> bufferIsClean b \<or> in_flight ?st (k, j) \<noteq> [])
        \<and> ue_owner e = owner \<and> ue_block_id e = j
        \<and> ue_content e = inlineContent (bufferAtoms b) \<and> contentAtoms (ue_content e) = bufferAtoms b
        \<and> ue_bases e = map (\<lambda>entry. inlineContent (source entry)) (in_flight ?st (k, j) @ [b]))"
    (is "?lhs \<longleftrightarrow> ?rhs")
  proof (intro iff_exI conj_cong refl)
    fix k j b owner
    assume owner: "cs_ownerRefs ?st k = Some owner" and draft: "draft_at ?st (k, j) = Some b"
    show "e \<in> set (unsaved_entry ?st owner (j, b)) \<longleftrightarrow>
        (\<not> bufferIsClean b \<or> in_flight ?st (k, j) \<noteq> []) \<and> ue_owner e = owner \<and> ue_block_id e = j
      \<and> ue_content e = inlineContent (bufferAtoms b) \<and> contentAtoms (ue_content e) = bufferAtoms b
      \<and> ue_bases e = map (\<lambda>entry. inlineContent (source entry)) (in_flight ?st (k, j) @ [b])"
      using scalar_bufferAtoms [OF drafts_okD(1) [OF ok draft]] drafts_okD(7) [OF ok owner]
      by (auto simp: in_unsaved_entry)
  qed
  finally show ?thesis .
qed


subsection \<open>A session\<close>

definition sample_target :: content_target where
  "sample_target = \<lparr>ct_owner = \<lparr>owner_kind = PageOwner, owner_id = js ''p''\<rparr>, ct_block = js ''a''\<rparr>"

definition sample_world :: "unit editor_world" where
  "sample_world = \<lparr>ew_snapshot = sample_snapshot, ew_directory = gs_page_directory sample_snapshot,
     ew_previous = sample_snapshot, ew_store = empty_sessions, ew_flight = None\<rparr>"

definition sample_typed :: "unit editor_world" where
  "sample_typed = editor_op (TypeEvent sample_target (js ''hi'') [] None) sample_world"

lemma sample_snapshot_ok: "snapshot_ok sample_snapshot"
proof -
  have "blocks = sample_outline" if "findOutline sample_snapshot owner = Some blocks" for owner blocks
    using that by (auto simp: findOutline_def findPage_def findTag_def byId_def sample_snapshot_def split: if_splits)
  moreover have "distinct (forest_ids sample_outline)" "list_all (\<lambda>b. bl_content b = []) (preorder sample_outline)"
    by code_simp+
  ultimately have "bl_content block = []" if "findOutline sample_snapshot owner = Some blocks"
    "findBlock blocks blockId = Some block" for owner blocks blockId block
    using that findBlock_Some [of sample_outline blockId block] by (auto simp: list_all_iff)
  then show ?thesis
    by (fastforce simp: snapshot_ok_def content_ok_def well_formed_content_def contentAtoms_def)
qed

lemma sample_typed_reachable: "editor_reachable sample_snapshot sample_typed"
proof -
  have w: "editor_reachable sample_snapshot sample_world"
    unfolding sample_world_def by (rule initial [OF sample_snapshot_ok])
  have "getSnapshot sample_snapshot (empty_sessions :: unit content_sessions) sample_target = Some (createContentBuffer [])"
    "well_formed (js ''hi'')" "bufferAtoms (createContentBuffer []) = []"
    by code_simp+
  then have "event_ok (ew_snapshot sample_world) (ew_store sample_world)
      (TypeEvent sample_target (js ''hi'') [] None :: unit editor_event)"
    by (simp add: sample_world_def)
  from event [OF w this] show ?thesis by (simp add: sample_typed_def)
qed


definition sample_notice :: graph_notice where
  "sample_notice = \<lparr>gn_snapshot = sample_snapshot, gn_updates = [], gn_commandId = None\<rparr>"

definition sample_draft :: content_buffer where
  "sample_draft = \<lparr>source = [], pieces = [InsertPiece [Txt (js ''h''), Txt (js ''i'')]]\<rparr>"

lemma sample_typed_draft: "draft_at (ew_store sample_typed) (target_key sample_target) = Some sample_draft"
  by code_simp

theorem graph_change_keeps_input_witness:
  "\<exists>st' owner. graph_changed sample_notice (ew_directory sample_typed) (ew_previous sample_typed) (ew_store sample_typed)
      = (st', None) \<and> outlineOwnerKey owner = js ''document:p''
     \<and> (\<exists>b'. draft_at st' (target_key sample_target) = Some b' \<and> typed_atoms b' = typed_atoms sample_draft)"
proof -
  have "notice_ok sample_notice" by (simp add: notice_ok_def sample_notice_def sample_snapshot_ok)
  moreover have "\<not> bufferIsClean sample_draft" "fst (target_key sample_target) = js ''document:p''" by code_simp+
  ultimately show ?thesis
    using graph_change_keeps_input [OF sample_typed_reachable _ sample_typed_draft] by (fastforce split: option.splits)
qed

definition sample_error :: session_error where
  "sample_error = CorePortFailure \<lparr>pe_code = js ''read_only'', pe_message = [], pe_retryable = False\<rparr> False"

definition sample_submitted :: "unit editor_world" where
  "sample_submitted = editor_op (SubmitEvent sample_target []) sample_typed"

definition sample_submission :: "unit submission" where
  "sample_submission = \<lparr>sb_target = sample_target, sb_buffer = sample_draft, sb_actions = []\<rparr>"


theorem unsaved_complete_witness:
  "\<exists>e \<in> set (unsaved (ew_store sample_typed)). ue_block_id e = js ''a'' \<and> contentAtoms (ue_content e) = bufferAtoms sample_draft"
proof -
  let ?owner = "\<lparr>owner_kind = PageOwner, owner_id = js ''p''\<rparr>"
  let ?e = "\<lparr>ue_owner = ?owner, ue_block_id = js ''a'', ue_bases = [[]], ue_content = [Markdown (js ''hi'')]\<rparr>"
  have "cs_ownerRefs (ew_store sample_typed) (js ''document:p'') = Some ?owner"
    "target_key sample_target = (js ''document:p'', js ''a'')" "\<not> bufferIsClean sample_draft"
    "in_flight (ew_store sample_typed) (js ''document:p'', js ''a'') = []" "inlineContent (source sample_draft) = []"
    "inlineContent (bufferAtoms sample_draft) = [Markdown (js ''hi'')]"
    "contentAtoms [Markdown (js ''hi'')] = bufferAtoms sample_draft"
    by code_simp+
  then have "?e \<in> set (unsaved (ew_store sample_typed))"
    using sample_typed_draft
    unfolding unsaved_complete [OF sample_typed_reachable]
    by (intro exI [of _ "js ''document:p''"] exI [of _ "js ''a''"] exI [of _ sample_draft] exI [of _ ?owner])
      (simp del: contentAtoms_simps)
  then show ?thesis by (rule bexI [rotated]) (simp, code_simp)
qed

end
