(* ===== verification/Vim_Text.thy ===== *)
theory Vim_Text
  imports Js_String
begin

text \<open>
  The text half of \<open>features/blocks/editor/vim/engine.ts\<close>: graphemes, lines, words, text
  objects and word motions across text units. Positions are UTF-16 offsets.

  Two things come from outside the program and are fields of a \<open>text_env\<close>: the segment starts
  of \<open>Intl.Segmenter\<close>, when the platform has one, and the Unicode class
  \<open>[\p{L}\p{N}\p{M}_]\<close> of a code point. What the code relies on is \<open>segmenter_ok\<close>: the starts
  of the segments of a string are increasing offsets inside it. White space is ECMAScript's.
\<close>

record text_env =
  te_segments :: "(js_string \<Rightarrow> nat list) option"
  te_word_point :: "js_string \<Rightarrow> bool"

definition segmenter_ok :: "text_env \<Rightarrow> bool" where
  "segmenter_ok env \<longleftrightarrow>
     (\<forall>segments v. te_segments env = Some segments \<longrightarrow>
        sorted_wrt (<) (segments v) \<and> (\<forall>i \<in> set (segments v). i < length v))"

definition white_space :: "code_unit list" where
  "white_space = [9, 10, 11, 12, 13, 32, 0xA0, 0x1680, 0x2000, 0x2001, 0x2002, 0x2003, 0x2004, 0x2005,
     0x2006, 0x2007, 0x2008, 0x2009, 0x200A, 0x2028, 0x2029, 0x202F, 0x205F, 0x3000, 0xFEFF]"

definition space_point :: "js_string \<Rightarrow> bool" where
  "space_point p = (case p of [u] \<Rightarrow> u \<in> set white_space | _ \<Rightarrow> False)"


subsection \<open>Graphemes\<close>

text \<open>The fallback without a segmenter: the offsets after each code point, short of the end.\<close>

fun point_starts :: "js_string list \<Rightarrow> nat \<Rightarrow> nat \<Rightarrow> nat list" where
  "point_starts [] offset len = []"
| "point_starts (point # points) offset len =
     (let offset' = offset + length point
      in (if offset' < len then [offset'] else []) @ point_starts points offset' len)"

definition graphemeBoundaries :: "text_env \<Rightarrow> js_string \<Rightarrow> nat list" where
  "graphemeBoundaries env v =
     (let starts = 0 # (case te_segments env of
                          Some segments \<Rightarrow> filter (\<lambda>i. 0 < i) (segments v)
                        | None \<Rightarrow> point_starts (code_points v) 0 (length v))
      in if last starts \<noteq> length v then starts @ [length v] else starts)"

definition previousBoundary :: "text_env \<Rightarrow> js_string \<Rightarrow> nat \<Rightarrow> nat" where
  "previousBoundary env v position =
     (let clamped = min position (length v)
      in case find (\<lambda>b. b < clamped) (rev (graphemeBoundaries env v)) of None \<Rightarrow> 0 | Some b \<Rightarrow> b)"

definition nextBoundary :: "text_env \<Rightarrow> js_string \<Rightarrow> nat \<Rightarrow> nat" where
  "nextBoundary env v position =
     (let clamped = min position (length v)
      in case find (\<lambda>b. clamped < b) (graphemeBoundaries env v) of None \<Rightarrow> length v | Some b \<Rightarrow> b)"

lemma last_graphemeBoundaries: "last (graphemeBoundaries env v) = length v"
  by (simp add: graphemeBoundaries_def Let_def split: option.split)

lemma graphemeBoundaries_nonempty: "graphemeBoundaries env v \<noteq> []"
  by (simp add: graphemeBoundaries_def Let_def)

lemma nextBoundary_greater:
  assumes "position < length v"
  shows "position < nextBoundary env v position"
proof -
  have "length v \<in> set (graphemeBoundaries env v)"
    using last_in_set [OF graphemeBoundaries_nonempty] last_graphemeBoundaries by metis
  then show ?thesis
    using assms by (auto simp: nextBoundary_def find_Some_iff split: option.split)
qed

lemma nextBoundary_ge: "position \<le> length v \<Longrightarrow> position \<le> nextBoundary env v position"
  using nextBoundary_greater [of position v env]
  by (cases "position < length v") (auto simp: nextBoundary_def find_Some_iff split: option.split)

lemma previousBoundary_le: "previousBoundary env v position \<le> position" "previousBoundary env v position \<le> length v"
  by (auto simp: previousBoundary_def Let_def find_Some_iff split: option.split)


subsection \<open>Lines\<close>

definition LF :: code_unit where
  "LF = 10"

text \<open>\<open>lastIndexOf("\n", i)\<close> and \<open>indexOf("\n", i)\<close>.\<close>

fun last_newline :: "js_string \<Rightarrow> nat \<Rightarrow> nat option" where
  "last_newline v 0 = (if v \<noteq> [] \<and> v ! 0 = LF then Some 0 else None)"
| "last_newline v (Suc i) = (if Suc i < length v \<and> v ! Suc i = LF then Some (Suc i) else last_newline v i)"

fun newline_in :: "js_string \<Rightarrow> nat option" where
  "newline_in [] = None"
| "newline_in (u # v) = (if u = LF then Some 0 else map_option Suc (newline_in v))"

definition next_newline :: "js_string \<Rightarrow> nat \<Rightarrow> nat option" where
  "next_newline v i = map_option ((+) i) (newline_in (drop i v))"

definition lineStart :: "js_string \<Rightarrow> nat \<Rightarrow> nat" where
  "lineStart v position = (case last_newline v (position - 1) of None \<Rightarrow> 0 | Some i \<Rightarrow> i + 1)"

definition lineEnd :: "js_string \<Rightarrow> nat \<Rightarrow> nat" where
  "lineEnd v position = (case next_newline v position of None \<Rightarrow> length v | Some i \<Rightarrow> i)"

definition normalLineEnd :: "text_env \<Rightarrow> js_string \<Rightarrow> nat \<Rightarrow> nat" where
  "normalLineEnd env v position =
     (let start = lineStart v position; stop = lineEnd v position
      in if start < stop then previousBoundary env v stop else start)"

text \<open>\<open>/^\s$/u\<close>: one white-space code point.\<close>

definition blank_grapheme :: "js_string \<Rightarrow> bool" where
  "blank_grapheme g = (case code_points g of [p] \<Rightarrow> space_point p | _ \<Rightarrow> False)"

definition slice :: "js_string \<Rightarrow> nat \<Rightarrow> nat \<Rightarrow> js_string" where
  "slice v from to = take (to - from) (drop from v)"

function firstNonBlank_loop :: "text_env \<Rightarrow> js_string \<Rightarrow> nat \<Rightarrow> nat \<Rightarrow> nat \<Rightarrow> nat" where
  "firstNonBlank_loop env v start stop cursor =
     (if cursor < stop \<and> cursor < length v then
        let after = nextBoundary env v cursor
        in if \<not> blank_grapheme (slice v cursor after) then cursor
           else firstNonBlank_loop env v start stop after
      else start)"
  by pat_completeness auto
termination
  by (relation "measure (\<lambda>(env, v, start, stop, cursor). length v - cursor)")
    (use nextBoundary_greater in \<open>auto intro!: diff_less_mono2\<close>)

declare firstNonBlank_loop.simps [simp del]

definition firstNonBlank :: "text_env \<Rightarrow> js_string \<Rightarrow> nat \<Rightarrow> nat" where
  "firstNonBlank env v position =
     firstNonBlank_loop env v (lineStart v position) (lineEnd v position) (lineStart v position)"


subsection \<open>Words\<close>

datatype word_class = Space | Word | Punctuation

definition wordClass :: "text_env \<Rightarrow> js_string \<Rightarrow> word_class" where
  "wordClass env g =
     (let points = code_points g
      in if points \<noteq> [] \<and> list_all space_point points then Space
         else if points \<noteq> [] \<and> list_all (te_word_point env) points then Word
         else Punctuation)"

record grapheme =
  gr_start :: nat
  gr_end :: nat
  gr_kind :: word_class

fun graphemes_loop :: "text_env \<Rightarrow> js_string \<Rightarrow> nat list \<Rightarrow> grapheme list" where
  "graphemes_loop env v (start # stop # rest) =
     \<lparr>gr_start = start, gr_end = stop, gr_kind = wordClass env (slice v start stop)\<rparr>
     # graphemes_loop env v (stop # rest)"
| "graphemes_loop env v _ = []"

definition graphemes :: "text_env \<Rightarrow> js_string \<Rightarrow> grapheme list" where
  "graphemes env v = graphemes_loop env v (graphemeBoundaries env v)"

definition textRuns_step :: "grapheme list \<Rightarrow> grapheme \<Rightarrow> grapheme list" where
  "textRuns_step runs item =
     (case last_opt runs of
        None \<Rightarrow> runs @ [item]
      | Some prior \<Rightarrow>
          if gr_kind prior = gr_kind item then butlast runs @ [prior\<lparr>gr_end := gr_end item\<rparr>]
          else runs @ [item])"

definition textRuns :: "text_env \<Rightarrow> js_string \<Rightarrow> grapheme list" where
  "textRuns env v = foldl textRuns_step [] (graphemes env v)"

text \<open>\<open>Array.prototype.findIndex\<close>, with \<open>None\<close> for \<open>-1\<close>.\<close>

fun first_index :: "('a \<Rightarrow> bool) \<Rightarrow> 'a list \<Rightarrow> nat option" where
  "first_index P [] = None"
| "first_index P (x # xs) = (if P x then Some 0 else map_option Suc (first_index P xs))"

definition covers :: "nat \<Rightarrow> grapheme \<Rightarrow> bool" where
  "covers position item \<longleftrightarrow> gr_start item \<le> position \<and> position < gr_end item"

definition runIndexAt :: "grapheme list \<Rightarrow> nat \<Rightarrow> nat" where
  "runIndexAt items position =
     (case first_index (covers position) items of
        Some i \<Rightarrow> i
      | None \<Rightarrow>
          if (case last_opt items of None \<Rightarrow> 0 | Some item \<Rightarrow> gr_end item) \<le> position
          then length items - 1 else 0)"

definition innerWordRange :: "grapheme list \<Rightarrow> nat \<Rightarrow> nat \<Rightarrow> (nat \<times> nat) option" where
  "innerWordRange items index count =
     (let stop = index + count - 1
      in if length items \<le> stop then None else Some (gr_start (items ! index), gr_end (items ! stop)))"

text \<open>The loop of \<open>aroundWordRange\<close>: the last run taken and the words among the runs.\<close>

function take_words :: "grapheme list \<Rightarrow> nat \<Rightarrow> nat \<Rightarrow> nat \<Rightarrow> nat \<times> nat" where
  "take_words items count stop words =
     (if stop + 1 < length items \<and> words < count
      then take_words items count (stop + 1) (if gr_kind (items ! (stop + 1)) \<noteq> Space then words + 1 else words)
      else (stop, words))"
  by pat_completeness auto
termination
  by (relation "measure (\<lambda>(items, count, stop, words). length items - stop)") auto

declare take_words.simps [simp del]

definition kind_at :: "grapheme list \<Rightarrow> nat \<Rightarrow> word_class option" where
  "kind_at items i = (if i < length items then Some (gr_kind (items ! i)) else None)"

definition aroundWordRange :: "grapheme list \<Rightarrow> nat \<Rightarrow> nat \<Rightarrow> (nat \<times> nat) option" where
  "aroundWordRange items index count =
     (if gr_kind (items ! index) = Space then
        (let (stop, words) = take_words items count index 0
         in if words = count then Some (gr_start (items ! index), gr_end (items ! stop)) else None)
      else
        (let (stop, words) = take_words items count index 1
         in if words < count then None
            else if kind_at items (stop + 1) = Some Space
            then Some (gr_start (items ! index), gr_end (items ! (stop + 1)))
            else let start = (if 0 < index \<and> gr_kind (items ! (index - 1)) = Space then index - 1 else index)
                 in Some (gr_start (items ! start), gr_end (items ! stop))))"

datatype text_object = Inner | Around

definition wordTextObjectRange :: "text_env \<Rightarrow> js_string \<Rightarrow> nat \<Rightarrow> text_object \<Rightarrow> nat \<Rightarrow> (nat \<times> nat) option" where
  "wordTextObjectRange env v position modifier count =
     (let items = textRuns env v
      in if items = [] then None
         else let index = runIndexAt items (min position (length v))
              in if modifier = Inner then innerWordRange items index count
                 else aroundWordRange items index count)"

definition graphemeIndexAt :: "grapheme list \<Rightarrow> nat \<Rightarrow> nat option" where
  "graphemeIndexAt items position =
     (case first_index (covers position) items of
        Some i \<Rightarrow> Some i
      | None \<Rightarrow> first_index (\<lambda>item. position \<le> gr_start item) items)"

text \<open>\<open>while (index < items.length && P(items[index])) index += 1\<close>.\<close>

function skip_while :: "(word_class \<Rightarrow> bool) \<Rightarrow> grapheme list \<Rightarrow> nat \<Rightarrow> nat" where
  "skip_while P items index =
     (if index < length items \<and> P (gr_kind (items ! index)) then skip_while P items (index + 1) else index)"
  by pat_completeness auto
termination
  by (relation "measure (\<lambda>(P, items, index). length items - index)") auto

declare skip_while.simps [simp del]

fun wordForward_steps :: "js_string \<Rightarrow> grapheme list \<Rightarrow> nat \<Rightarrow> nat \<Rightarrow> nat" where
  "wordForward_steps v items 0 index = (if index < length items then gr_start (items ! index) else length v)"
| "wordForward_steps v items (Suc steps) index =
     (let current = kind_at items index;
          past = skip_while (\<lambda>kind. Some kind = current) items index;
          index' = skip_while (\<lambda>kind. kind = Space) items past
      in if length items \<le> index' then length v else wordForward_steps v items steps index')"

definition wordForward :: "text_env \<Rightarrow> js_string \<Rightarrow> nat \<Rightarrow> nat \<Rightarrow> nat" where
  "wordForward env v position count =
     (let items = graphemes env v
      in case graphemeIndexAt items position of
           None \<Rightarrow> length v
         | Some index \<Rightarrow> wordForward_steps v items count index)"

text \<open>The loops of \<open>wordBackward\<close>; \<open>None\<close> is an index below zero.\<close>

fun skip_spaces_back :: "grapheme list \<Rightarrow> nat \<Rightarrow> nat option" where
  "skip_spaces_back items 0 = (if gr_kind (items ! 0) = Space then None else Some 0)"
| "skip_spaces_back items (Suc i) =
     (if gr_kind (items ! Suc i) = Space then skip_spaces_back items i else Some (Suc i))"

fun run_start :: "grapheme list \<Rightarrow> word_class \<Rightarrow> nat \<Rightarrow> nat" where
  "run_start items current 0 = 0"
| "run_start items current (Suc i) = (if gr_kind (items ! i) = current then run_start items current i else Suc i)"

fun before :: "nat \<Rightarrow> nat option" where
  "before 0 = None"
| "before (Suc i) = Some i"

fun wordBackward_steps :: "grapheme list \<Rightarrow> nat \<Rightarrow> nat option \<Rightarrow> nat option" where
  "wordBackward_steps items steps None = None"
| "wordBackward_steps items 0 (Some index) = Some index"
| "wordBackward_steps items (Suc steps) (Some index) =
     (case skip_spaces_back items index of
        None \<Rightarrow> None
      | Some i \<Rightarrow>
          (let start = run_start items (gr_kind (items ! i)) i
           in if steps = 0 then Some start else wordBackward_steps items steps (before start)))"

definition wordBackward :: "text_env \<Rightarrow> js_string \<Rightarrow> nat \<Rightarrow> nat \<Rightarrow> nat" where
  "wordBackward env v position count =
     (let items = graphemes env v;
          index = before (case first_index (\<lambda>item. position \<le> gr_start item) items of
                            None \<Rightarrow> length items | Some i \<Rightarrow> i)
      in case wordBackward_steps items count index of None \<Rightarrow> 0 | Some i \<Rightarrow> gr_start (items ! i))"

definition first_start :: "grapheme list \<Rightarrow> nat \<Rightarrow> nat \<Rightarrow> nat" where
  "first_start items index fallback = (if index < length items then gr_start (items ! index) else fallback)"

text \<open>\<open>while (index + 1 < items.length && items[index + 1].kind === current) index += 1\<close>.\<close>

function run_end :: "grapheme list \<Rightarrow> word_class \<Rightarrow> nat \<Rightarrow> nat" where
  "run_end items current index =
     (if index + 1 < length items \<and> gr_kind (items ! (index + 1)) = current
      then run_end items current (index + 1) else index)"
  by pat_completeness auto
termination
  by (relation "measure (\<lambda>(items, current, index). length items - index)") auto

declare run_end.simps [simp del]

fun wordEnd_steps :: "js_string \<Rightarrow> grapheme list \<Rightarrow> nat \<Rightarrow> nat \<Rightarrow> nat" where
  "wordEnd_steps v items 0 index = first_start items (min index (length items - 1)) (length v)"
| "wordEnd_steps v items (Suc steps) index =
     (let i1 = skip_while (\<lambda>kind. kind = Space) items index;
          crossedSpace = (i1 \<noteq> index);
          i2 = (if \<not> crossedSpace \<and> i1 < length items \<and> kind_at items (i1 + 1) \<noteq> kind_at items i1
                then skip_while (\<lambda>kind. kind = Space) items (i1 + 1) else i1)
      in if length items \<le> i2 then first_start items (length items - 1) 0
         else let i3 = run_end items (gr_kind (items ! i2)) i2
              in wordEnd_steps v items steps (if steps = 0 then i3 else i3 + 1))"

definition wordEnd :: "text_env \<Rightarrow> js_string \<Rightarrow> nat \<Rightarrow> nat \<Rightarrow> nat" where
  "wordEnd env v position count =
     (let items = graphemes env v
      in case graphemeIndexAt items position of
           None \<Rightarrow> length v - 1
         | Some index \<Rightarrow> wordEnd_steps v items count index)"



subsection \<open>Word motions across text units\<close>

datatype word_motion = MotionW | MotionB | MotionE

record word_position =
  wp_unit :: nat
  wp_offset :: nat

record word_edit =
  we_unit :: nat
  we_from :: nat
  we_to :: nat

fun unit_starts :: "js_string list \<Rightarrow> nat \<Rightarrow> nat list" where
  "unit_starts [] offset = []"
| "unit_starts (v # vs) offset = offset # unit_starts vs (offset + length v + 1)"

fun join_lines :: "js_string list \<Rightarrow> js_string" where
  "join_lines [] = []"
| "join_lines [v] = v"
| "join_lines (v # vs) = v @ LF # join_lines vs"

definition joinTextUnits :: "js_string list \<Rightarrow> js_string \<times> nat list" where
  "joinTextUnits vs = (join_lines vs, unit_starts vs 0)"

text \<open>\<open>while (unit > 0 && starts[unit] > clamped) unit -= 1\<close>.\<close>

fun unit_at :: "nat list \<Rightarrow> nat \<Rightarrow> nat \<Rightarrow> nat" where
  "unit_at starts clamped 0 = 0"
| "unit_at starts clamped (Suc u) = (if clamped < starts ! Suc u then unit_at starts clamped u else Suc u)"

definition positionInUnits :: "js_string list \<Rightarrow> nat list \<Rightarrow> nat \<Rightarrow> word_position" where
  "positionInUnits vs starts position =
     (if vs = [] then \<lparr>wp_unit = 0, wp_offset = 0\<rparr>
      else
        let final = length vs - 1;
            clamped = min position (starts ! final + length (vs ! final));
            u = unit_at starts clamped (length starts - 1)
        in \<lparr>wp_unit = u, wp_offset = min (length (vs ! u)) (clamped - starts ! u)\<rparr>)"

definition globalWordMotion :: "text_env \<Rightarrow> js_string \<Rightarrow> nat \<Rightarrow> word_motion \<Rightarrow> nat \<Rightarrow> nat" where
  "globalWordMotion env v position motion count =
     (case motion of
        MotionW \<Rightarrow> wordForward env v position count
      | MotionB \<Rightarrow> wordBackward env v position count
      | MotionE \<Rightarrow> wordEnd env v position count)"

definition wordMotionAcrossUnits ::
  "text_env \<Rightarrow> js_string list \<Rightarrow> word_position \<Rightarrow> word_motion \<Rightarrow> nat \<Rightarrow> word_position" where
  "wordMotionAcrossUnits env vs start motion count =
     (if vs = [] then start
      else
        let (joined, starts) = joinTextUnits vs;
            u = min (wp_unit start) (length vs - 1);
            local = min (wp_offset start) (length (vs ! u))
        in positionInUnits vs starts (globalWordMotion env joined (starts ! u + local) motion (max 1 count)))"

text \<open>The part of the range \<open>[from, to)\<close> of the joined text that lies in each unit.\<close>

fun unit_edits :: "js_string list \<Rightarrow> nat list \<Rightarrow> nat \<Rightarrow> nat \<Rightarrow> nat \<Rightarrow> word_edit list" where
  "unit_edits (v # vs) (unitStart # starts) index from to =
     (let editFrom = from - unitStart;
          editTo = min (int (length v)) (int to - int unitStart)
      in (if int editFrom < editTo then [\<lparr>we_unit = index, we_from = editFrom, we_to = nat editTo\<rparr>] else [])
         @ unit_edits vs starts (index + 1) from to)"
| "unit_edits _ _ index from to = []"

definition wordEditsAcrossUnits ::
  "text_env \<Rightarrow> js_string list \<Rightarrow> word_position \<Rightarrow> word_motion \<Rightarrow> nat \<Rightarrow> word_position \<times> word_edit list" where
  "wordEditsAcrossUnits env vs start motion count =
     (if vs = [] then (start, [])
      else
        let (joined, starts) = joinTextUnits vs;
            u = min (wp_unit start) (length vs - 1);
            local = min (wp_offset start) (length (vs ! u));
            origin = starts ! u + local;
            target = globalWordMotion env joined origin motion (max 1 count);
            from = min origin target;
            to = (if origin \<le> target \<and> motion = MotionE then nextBoundary env joined target else max origin target)
        in (positionInUnits vs starts from, unit_edits vs starts 0 from to))"


subsection \<open>Every position lies inside the text\<close>

lemma graphemeBoundaries_props:
  assumes "segmenter_ok env"
  shows "sorted_wrt (<) (graphemeBoundaries env v)" "\<forall>b \<in> set (graphemeBoundaries env v). b \<le> length v"
proof -
  have points: "sorted_wrt (<) (point_starts ps offset len) \<and> (\<forall>b \<in> set (point_starts ps offset len). offset < b \<and> b < len)"
    if "\<forall>p \<in> set ps. p \<noteq> []" for ps :: "js_string list" and offset len
    using that
  proof (induction ps arbitrary: offset)
    case (Cons p ps)
    have "offset < offset + length p" using Cons.prems by simp
    then show ?case
      using Cons.IH [of "offset + length p"] Cons.prems by (auto simp: Let_def dest!: bspec)
  qed simp
  define starts where "starts = (case te_segments env of
      Some segments \<Rightarrow> filter (\<lambda>i. 0 < i) (segments v) | None \<Rightarrow> point_starts (code_points v) 0 (length v))"
  have "sorted_wrt (<) starts \<and> (\<forall>b \<in> set starts. 0 < b \<and> b < length v)"
  proof (cases "te_segments env")
    case None
    then show ?thesis using points [of "code_points v" 0 "length v"] code_point_nonempty by (auto simp: starts_def)
  next
    case (Some segments)
    then show ?thesis
      using assms by (auto simp: starts_def segmenter_ok_def intro!: sorted_wrt_filter)
  qed
  moreover have "graphemeBoundaries env v = (if last (0 # starts) \<noteq> length v then 0 # starts @ [length v] else 0 # starts)"
    by (simp add: graphemeBoundaries_def Let_def starts_def)
  ultimately show "sorted_wrt (<) (graphemeBoundaries env v)" "\<forall>b \<in> set (graphemeBoundaries env v). b \<le> length v"
    by (auto simp: sorted_wrt_append split: if_splits)
qed

lemma nextBoundary_le: "segmenter_ok env \<Longrightarrow> nextBoundary env v position \<le> length v"
  using graphemeBoundaries_props(2) [of env v]
  by (auto simp: nextBoundary_def Let_def find_Some_iff split: option.split)

lemma last_newline_less: "last_newline v i = Some j \<Longrightarrow> j < length v \<and> j \<le> i"
  by (induction i) (auto split: if_splits)

lemma newline_in_less: "newline_in v = Some j \<Longrightarrow> j < length v"
  by (induction v arbitrary: j) (auto split: if_splits)

lemma lineStart_le: "lineStart v position \<le> length v"
  using last_newline_less [of v "position - 1"] by (fastforce simp: lineStart_def split: option.split)

lemma lineEnd_le: "lineEnd v position \<le> length v"
  using newline_in_less [of "drop position v"] by (fastforce simp: lineEnd_def next_newline_def split: option.split)

lemma lineEnd_ge: "position \<le> length v \<Longrightarrow> position \<le> lineEnd v position"
  by (auto simp: lineEnd_def next_newline_def split: option.split)

lemma normalLineEnd_le: "normalLineEnd env v position \<le> length v"
  using lineStart_le previousBoundary_le(2) by (simp add: normalLineEnd_def Let_def)

lemma firstNonBlank_loop_le:
  "start \<le> length v \<Longrightarrow> firstNonBlank_loop env v start stop cursor \<le> length v"
  by (induction env v start stop cursor rule: firstNonBlank_loop.induct) (subst firstNonBlank_loop.simps, simp add: Let_def)

lemma firstNonBlank_le: "firstNonBlank env v position \<le> length v"
  by (simp add: firstNonBlank_def firstNonBlank_loop_le lineStart_le)


text \<open>Graphemes and runs lie one after the other inside the text.\<close>

definition in_order :: "js_string \<Rightarrow> grapheme list \<Rightarrow> bool" where
  "in_order v items \<longleftrightarrow>
     (\<forall>x \<in> set items. gr_start x < gr_end x \<and> gr_end x \<le> length v)
   \<and> sorted_wrt (\<lambda>x y. gr_end x \<le> gr_start y) items"

lemma graphemes_loop_in_order:
  assumes "sorted_wrt (<) bs" and "\<forall>b \<in> set bs. b \<le> length v"
  shows "in_order v (graphemes_loop env v bs) \<and> (\<forall>x \<in> set (graphemes_loop env v bs). hd bs \<le> gr_start x)"
  using assms
proof (induction env v bs rule: graphemes_loop.induct)
  case (1 env v start stop rest)
  then show ?case by (fastforce simp: in_order_def)
qed (auto simp: in_order_def)

lemma graphemes_in_order: "segmenter_ok env \<Longrightarrow> in_order v (graphemes env v)"
  using graphemes_loop_in_order [OF graphemeBoundaries_props] by (simp add: graphemes_def)

lemma in_order_snoc:
  "in_order v (items @ [x]) \<longleftrightarrow>
     in_order v items \<and> gr_start x < gr_end x \<and> gr_end x \<le> length v \<and> (\<forall>y \<in> set items. gr_end y \<le> gr_start x)"
  by (auto simp: in_order_def sorted_wrt_append)

lemma textRuns_foldl:
  assumes "in_order v items"
  shows "in_order v (foldl textRuns_step [] items)
     \<and> (\<forall>run \<in> set (foldl textRuns_step [] items). \<exists>x \<in> set items. gr_end run = gr_end x)"
  using assms
proof (induction items rule: rev_induct)
  case (snoc x items)
  let ?runs = "foldl textRuns_step [] items"
  have item: "in_order v items" "gr_start x < gr_end x" "gr_end x \<le> length v" "\<forall>y \<in> set items. gr_end y \<le> gr_start x"
    using snoc.prems by (simp_all add: in_order_snoc)
  have ends: "gr_end run \<le> gr_start x" if "run \<in> set ?runs" for run
    using snoc.IH [OF item(1)] item(4) that by metis
  show ?case
  proof (cases "?runs = [] \<or> gr_kind (last ?runs) \<noteq> gr_kind x")
    case True
    then have "textRuns_step ?runs x = ?runs @ [x]" by (auto simp: textRuns_step_def last_opt_def)
    then show ?thesis using snoc.IH [OF item(1)] item ends by (auto simp: in_order_snoc)
  next
    case False
    then have split: "?runs = butlast ?runs @ [last ?runs]" by simp
    have step: "textRuns_step ?runs x = butlast ?runs @ [(last ?runs)\<lparr>gr_end := gr_end x\<rparr>]"
      using False by (auto simp: textRuns_step_def last_opt_def)
    have old: "in_order v (butlast ?runs @ [last ?runs])" using snoc.IH [OF item(1)] split by simp
    have "gr_start (last ?runs) < gr_end x"
    proof -
      have "gr_start (last ?runs) < gr_end (last ?runs)" using old by (simp add: in_order_snoc)
      then show ?thesis using ends [of "last ?runs"] item(2) False by simp
    qed
    then have "in_order v (textRuns_step ?runs x)"
      unfolding step using old item(3) by (auto simp: in_order_snoc)
    moreover have "\<exists>y \<in> set (items @ [x]). gr_end run = gr_end y" if "run \<in> set (textRuns_step ?runs x)" for run
      using that snoc.IH [OF item(1)] step in_set_butlastD [of run ?runs] by auto
    ultimately show ?thesis by simp
  qed
qed (simp add: in_order_def)

lemma textRuns_in_order: "segmenter_ok env \<Longrightarrow> in_order v (textRuns env v)"
  using textRuns_foldl [OF graphemes_in_order] by (simp add: textRuns_def)

lemma in_order_start: "in_order v items \<Longrightarrow> i < length items \<Longrightarrow> gr_start (items ! i) < length v"
  unfolding in_order_def by (meson less_le_trans nth_mem)

lemma in_order_range:
  assumes "in_order v items" and "i \<le> j" and "j < length items"
  shows "gr_start (items ! i) < gr_end (items ! j)" "gr_end (items ! j) \<le> length v"
proof -
  have each: "gr_start (items ! k) < gr_end (items ! k)" "gr_end (items ! k) \<le> length v" if "k < length items" for k
    using assms(1) that nth_mem [OF that] by (auto simp: in_order_def)
  show "gr_end (items ! j) \<le> length v" using each assms(3) by simp
  show "gr_start (items ! i) < gr_end (items ! j)"
  proof (cases "i = j")
    case False
    then have "gr_end (items ! i) \<le> gr_start (items ! j)"
      using assms sorted_wrt_nth_less [of "\<lambda>x y. gr_end x \<le> gr_start y" items i j] by (simp add: in_order_def)
    then show ?thesis using each [of i] each [of j] assms by linarith
  qed (use each assms in simp)
qed

lemma first_index_less: "first_index P xs = Some i \<Longrightarrow> i < length xs"
  by (induction xs arbitrary: i) (auto split: if_splits)

lemma take_words_le:
  "stop < length items \<Longrightarrow> stop \<le> fst (take_words items count stop words) \<and> fst (take_words items count stop words) < length items"
  by (induction items count stop words rule: take_words.induct) (subst (1 2) take_words.simps, auto)

lemma wordTextObjectRange_le:
  assumes "segmenter_ok env" and "0 < count" and "wordTextObjectRange env v position modifier count = Some (from, to)"
  shows "from < to \<and> to \<le> length v"
proof -
  let ?items = "textRuns env v"
  note order = textRuns_in_order [OF assms(1), of v]
  define index where "index = runIndexAt ?items (min position (length v))"
  have ne: "?items \<noteq> []" using assms(3) by (auto simp: wordTextObjectRange_def Let_def split: if_splits)
  then have index: "index < length ?items"
    using first_index_less by (fastforce simp: index_def runIndexAt_def split: option.split)
  have range: "from < to \<and> to \<le> length v"
    if "from = gr_start (?items ! i)" "to = gr_end (?items ! j)" "i \<le> j" "j < length ?items" for i j
    using in_order_range [OF order that(3,4)] that by simp
  show ?thesis
  proof (cases modifier)
    case Inner
    then have "innerWordRange ?items index count = Some (from, to)"
      using assms(3) ne by (simp add: wordTextObjectRange_def index_def Let_def)
    then show ?thesis
      using range [of index "index + count - 1"] assms(2) by (auto simp: innerWordRange_def Let_def split: if_splits)
  next
    case Around
    then have around: "aroundWordRange ?items index count = Some (from, to)"
      using assms(3) ne by (simp add: wordTextObjectRange_def index_def Let_def)
    obtain stop words where t: "take_words ?items count index (if gr_kind (?items ! index) = Space then 0 else 1) = (stop, words)"
      by force
    have stop: "index \<le> stop" "stop < length ?items"
      using take_words_le [OF index, of count "if gr_kind (?items ! index) = Space then 0 else 1"] t by auto
    show ?thesis
      using around t stop range [of index stop] range [of index "stop + 1"] range [of "index - 1" stop]
      by (auto simp: aroundWordRange_def Let_def kind_at_def split: if_splits)
  qed
qed

lemma wordForward_steps_le:
  "in_order v items \<Longrightarrow> wordForward_steps v items steps index \<le> length v"
  by (induction v items steps index rule: wordForward_steps.induct)
    (auto simp: Let_def intro: less_imp_le in_order_start)

lemma wordForward_le: "segmenter_ok env \<Longrightarrow> wordForward env v position count \<le> length v"
  using wordForward_steps_le [OF graphemes_in_order] by (auto simp: wordForward_def Let_def split: option.split)

lemma skip_spaces_back_le: "skip_spaces_back items i = Some j \<Longrightarrow> j \<le> i"
  by (induction items i rule: skip_spaces_back.induct) (auto split: if_splits)

lemma run_start_le: "run_start items kind i \<le> i"
  by (induction items kind i rule: run_start.induct) (auto split: if_splits)

lemma wordBackward_steps_le:
  "wordBackward_steps items steps (Some index) = Some j \<Longrightarrow> j \<le> index"
proof (induction items steps "Some index" arbitrary: index rule: wordBackward_steps.induct)
  case (3 items steps index)
  obtain i where i: "skip_spaces_back items index = Some i" using "3.prems" by (auto split: option.splits)
  let ?start = "run_start items (gr_kind (items ! i)) i"
  have le: "?start \<le> index" using run_start_le [of items _ i] skip_spaces_back_le [OF i] by (meson le_trans)
  show ?case
  proof (cases "steps = 0")
    case False
    then have rest: "wordBackward_steps items steps (before ?start) = Some j" using "3.prems" i by (simp add: Let_def)
    then obtain k where k: "?start = Suc k" by (cases ?start) auto
    then show ?thesis using "3.hyps" [OF i refl False, of k] rest le by simp
  qed (use "3.prems" i le in \<open>simp add: Let_def\<close>)
qed simp

lemma wordBackward_le:
  assumes "segmenter_ok env"
  shows "wordBackward env v position count \<le> length v"
proof -
  let ?items = "graphemes env v"
  define index where "index = (case first_index (\<lambda>item. position \<le> gr_start item) ?items of None \<Rightarrow> length ?items | Some i \<Rightarrow> i)"
  have "index \<le> length ?items" using first_index_less by (fastforce simp: index_def split: option.split)
  moreover have "j < length ?items" if "wordBackward_steps ?items count (before index) = Some j" for j
    using that calculation wordBackward_steps_le [of ?items count _ j] by (cases index) fastforce+
  ultimately show ?thesis
    using in_order_start [OF graphemes_in_order [OF assms]]
    by (auto simp: wordBackward_def Let_def index_def [symmetric] intro: less_imp_le split: option.split)
qed

lemma wordEnd_steps_le:
  "in_order v items \<Longrightarrow> wordEnd_steps v items steps index \<le> length v"
  by (induction v items steps index rule: wordEnd_steps.induct)
    (auto simp: Let_def first_start_def intro: less_imp_le in_order_start)

lemma wordEnd_le: "segmenter_ok env \<Longrightarrow> wordEnd env v position count \<le> length v"
  using wordEnd_steps_le [OF graphemes_in_order] by (auto simp: wordEnd_def Let_def split: option.split)

lemma globalWordMotion_le: "segmenter_ok env \<Longrightarrow> globalWordMotion env v position motion count \<le> length v"
  by (simp add: globalWordMotion_def wordForward_le wordBackward_le wordEnd_le split: word_motion.split)

end
