(* ===== verification/Vim_Engine.thy ===== *)
theory Vim_Engine
  imports Vim_Text
begin

text \<open>
  The interpreter of \<open>features/blocks/editor/vim/engine.ts\<close>: states, keys, motions, operators
  and the effects a key has. A key's name is a string; the modifiers are flags. The prefix is
  the flag \<open>g\<close>.
\<close>

subsection \<open>Data\<close>

datatype vim_mode = NormalMode | InsertMode | OperatorPending | VisualLineMode
datatype vim_operator = DeleteOp | ChangeOp | IndentOp | OutdentOp

record vim_state =
  vs_mode :: vim_mode
  vs_count :: js_string
  vs_operator :: "vim_operator option"
  vs_operatorCount :: nat
  vs_textObject :: "text_object option"
  vs_prefix_g :: bool
  vs_desiredColumn :: "nat option"

record vim_snapshot =
  sn_value :: js_string
  sn_selectionStart :: nat
  sn_selectionEnd :: nat
  sn_editable :: bool
  sn_supportsVisualLine :: bool
  sn_supportsCrossBlockWords :: bool

record vim_key =
  vk_key :: js_string
  vk_shift :: bool
  vk_alt :: bool
  vk_ctrl :: bool
  vk_meta :: bool

datatype vim_edge = FirstEdge | LastEdge
datatype vim_direction = Upward | Downward

datatype vim_surface_command =
    FocusCommand vim_direction nat nat
  | FocusEdge vim_edge
  | WordMotion word_motion nat nat "vim_operator option"
  | OpenAfter
  | OpenBefore
  | DeleteUnit nat
  | IndentCommand nat
  | OutdentCommand nat
  | HistoryCommand bool
  | VisualBegin nat nat int
  | VisualMove vim_direction nat
  | VisualEdge vim_edge
  | VisualCancel
  | VisualDelete
  | VisualIndent
  | VisualOutdent

datatype vim_effect =
    SelectionEffect nat nat
  | EditEffect nat nat js_string nat nat
  | SurfaceEffect vim_surface_command

record vim_interpretation =
  vi_handled :: bool
  vi_state :: vim_state
  vi_effects :: "vim_effect list"

definition initialVimState :: "vim_mode \<Rightarrow> vim_state" where
  "initialVimState mode =
     \<lparr>vs_mode = mode, vs_count = [], vs_operator = None, vs_operatorCount = 1, vs_textObject = None,
      vs_prefix_g = False, vs_desiredColumn = None\<rparr>"

definition normalState :: "nat option \<Rightarrow> vim_state" where
  "normalState desiredColumn = (initialVimState NormalMode)\<lparr>vs_desiredColumn := desiredColumn\<rparr>"

definition handled :: "vim_state \<Rightarrow> vim_effect list \<Rightarrow> vim_interpretation" where
  "handled state effects = \<lparr>vi_handled = True, vi_state = state, vi_effects = effects\<rparr>"

definition pass :: "vim_state \<Rightarrow> vim_interpretation" where
  "pass state = \<lparr>vi_handled = False, vi_state = state, vi_effects = []\<rparr>"

text \<open>\<open>Number.parseInt\<close> on a string of digits.\<close>

definition parse_digits :: "js_string \<Rightarrow> nat" where
  "parse_digits ds = foldl (\<lambda>n u. 10 * n + (unat u - 48)) 0 ds"

definition parsedCount :: "js_string \<Rightarrow> nat" where
  "parsedCount v = (if v = [] then 1 else max 1 (min (parse_digits v) 9999))"

definition appendCount :: "vim_state \<Rightarrow> js_string \<Rightarrow> vim_state" where
  "appendCount state digit = state\<lparr>vs_count := take 4 (vs_count state @ digit)\<rparr>"

definition count_key :: "vim_state \<Rightarrow> js_string \<Rightarrow> bool" where
  "count_key state key \<longleftrightarrow>
     key \<in> set (map js [''1'', ''2'', ''3'', ''4'', ''5'', ''6'', ''7'', ''8'', ''9''])
   \<or> key = js ''0'' \<and> vs_count state \<noteq> []"


subsection \<open>Motions\<close>

fun lineStarts_loop :: "js_string \<Rightarrow> nat \<Rightarrow> nat list" where
  "lineStarts_loop [] index = []"
| "lineStarts_loop (u # v) index = (if u = LF then [index + 1] else []) @ lineStarts_loop v (index + 1)"

definition lineStarts :: "js_string \<Rightarrow> nat list" where
  "lineStarts v = 0 # lineStarts_loop v 0"

function lineIndexAt_loop :: "nat list \<Rightarrow> nat \<Rightarrow> nat \<Rightarrow> nat" where
  "lineIndexAt_loop starts position line =
     (if line + 1 < length starts \<and> starts ! (line + 1) \<le> position
      then lineIndexAt_loop starts position (line + 1) else line)"
  by pat_completeness auto
termination
  by (relation "measure (\<lambda>(starts, position, line). length starts - line)") auto

declare lineIndexAt_loop.simps [simp del]

definition lineIndexAt :: "nat list \<Rightarrow> nat \<Rightarrow> nat" where
  "lineIndexAt starts position = lineIndexAt_loop starts position 0"

definition clampNormalColumn :: "text_env \<Rightarrow> js_string \<Rightarrow> nat \<Rightarrow> nat \<Rightarrow> nat" where
  "clampNormalColumn env v start column =
     (let stop = lineEnd v start; target = min (start + column) stop
      in if target = stop \<and> start < stop then previousBoundary env v stop else target)"

definition caretForVerticalEntry :: "text_env \<Rightarrow> js_string \<Rightarrow> vim_direction \<Rightarrow> nat \<Rightarrow> nat" where
  "caretForVerticalEntry env v direction column =
     clampNormalColumn env v (if direction = Downward then 0 else lineStart v (length v)) column"

datatype motion =
    TextMotion nat bool "nat option"
  | SurfaceMotion vim_direction nat nat nat

definition verticalMotion :: "text_env \<Rightarrow> js_string \<Rightarrow> nat \<Rightarrow> vim_direction \<Rightarrow> nat \<Rightarrow> nat option \<Rightarrow> motion" where
  "verticalMotion env v position direction count desiredColumn =
     (let starts = lineStarts v;
          currentLine = lineIndexAt starts position;
          column = (case desiredColumn of Some c \<Rightarrow> c | None \<Rightarrow> position - starts ! currentLine);
          targetLine = int currentLine + (if direction = Downward then 1 else -1) * int count
      in if 0 \<le> targetLine \<and> targetLine < int (length starts)
         then TextMotion (clampNormalColumn env v (starts ! nat targetLine) column) False (Some column)
         else let remaining = (if targetLine < 0 then targetLine else targetLine - (int (length starts) - 1))
              in SurfaceMotion direction (nat (max 1 \<bar>remaining\<bar>)) column column)"

definition mapped_key :: "js_string \<Rightarrow> js_string" where
  "mapped_key key =
     (if key = js ''ArrowLeft'' then js ''h''
      else if key = js ''ArrowDown'' \<or> key = js ''Enter'' then js ''j''
      else if key = js ''ArrowUp'' then js ''k''
      else if key = js ''ArrowRight'' then js ''l''
      else if key = js ''Home'' then js ''0''
      else if key = js ''End'' then js ''$''
      else if key = js ''Backspace'' then js ''h''
      else key)"

definition step_left :: "text_env \<Rightarrow> js_string \<Rightarrow> nat \<Rightarrow> nat" where
  "step_left env v cursor = max (lineStart v cursor) (previousBoundary env v cursor)"

definition step_right :: "text_env \<Rightarrow> js_string \<Rightarrow> nat \<Rightarrow> nat" where
  "step_right env v cursor = min (normalLineEnd env v cursor) (nextBoundary env v cursor)"

fun repeat :: "nat \<Rightarrow> ('a \<Rightarrow> 'a) \<Rightarrow> 'a \<Rightarrow> 'a" where
  "repeat 0 f x = x"
| "repeat (Suc n) f x = repeat n f (f x)"

text \<open>The loop of \<open>$\<close>: down to the last of the counted lines, or the last line there is.\<close>

fun lines_down :: "js_string \<Rightarrow> nat \<Rightarrow> nat \<Rightarrow> nat" where
  "lines_down v 0 cursor = cursor"
| "lines_down v (Suc steps) cursor =
     (let stop = lineEnd v cursor in if length v \<le> stop then cursor else lines_down v steps (stop + 1))"

definition motionFor :: "text_env \<Rightarrow> vim_snapshot \<Rightarrow> js_string \<Rightarrow> nat \<Rightarrow> nat option \<Rightarrow> motion option" where
  "motionFor env snapshot key count desiredColumn =
     (let v = sn_value snapshot;
          position = min (sn_selectionStart snapshot) (length v);
          mapped = mapped_key key
      in if mapped = js ''j'' \<or> mapped = js ''k''
         then Some (verticalMotion env v position (if mapped = js ''j'' then Downward else Upward) count desiredColumn)
         else if mapped = js ''h'' then Some (TextMotion (repeat count (step_left env v) position) False None)
         else if mapped = js ''l'' then Some (TextMotion (repeat count (step_right env v) position) False None)
         else if mapped = js ''0'' then Some (TextMotion (lineStart v position) False None)
         else if mapped = js ''^'' then Some (TextMotion (firstNonBlank env v position) False None)
         else if mapped = js ''$''
         then Some (TextMotion (normalLineEnd env v (lines_down v (count - 1) position)) True None)
         else if mapped = js ''w'' then Some (TextMotion (wordForward env v position count) False None)
         else if mapped = js ''b'' then Some (TextMotion (wordBackward env v position count) False None)
         else if mapped = js ''e'' then Some (TextMotion (wordEnd env v position count) True None)
         else None)"

definition normalCaretAfterEdit :: "text_env \<Rightarrow> js_string \<Rightarrow> nat \<Rightarrow> nat" where
  "normalCaretAfterEdit env v position =
     (if v = [] then 0 else if position < length v then position else previousBoundary env v (length v))"

definition editEffect :: "text_env \<Rightarrow> vim_snapshot \<Rightarrow> nat \<Rightarrow> nat \<Rightarrow> js_string \<Rightarrow> bool \<Rightarrow> vim_effect" where
  "editEffect env snapshot from to ins insertMode =
     (let next = take from (sn_value snapshot) @ ins @ drop to (sn_value snapshot);
          position = from + length ins;
          caret = (if insertMode then position else normalCaretAfterEdit env next position)
      in EditEffect from to ins caret caret)"

definition operatorRange :: "text_env \<Rightarrow> vim_snapshot \<Rightarrow> nat \<Rightarrow> bool \<Rightarrow> nat \<times> nat" where
  "operatorRange env snapshot position inclusive =
     (let start = sn_selectionStart snapshot
      in if start \<le> position
         then (start, if inclusive then nextBoundary env (sn_value snapshot) position else position)
         else (position, start))"

definition word_motion_key :: "js_string \<Rightarrow> word_motion option" where
  "word_motion_key key =
     (if key = js ''w'' then Some MotionW else if key = js ''b'' then Some MotionB
      else if key = js ''e'' then Some MotionE else None)"


subsection \<open>The modes\<close>

definition after_edit :: "bool \<Rightarrow> vim_state" where
  "after_edit changing = (if changing then initialVimState InsertMode else normalState None)"

definition interpretOperator :: "text_env \<Rightarrow> vim_state \<Rightarrow> vim_snapshot \<Rightarrow> vim_key \<Rightarrow> vim_interpretation" where
  "interpretOperator env state snapshot k =
     (let key = vk_key k;
          count = vs_operatorCount state * parsedCount (vs_count state);
          operator = vs_operator state;
          editsText = (operator = Some DeleteOp \<or> operator = Some ChangeOp);
          changing = (operator = Some ChangeOp);
          idle = handled (normalState None) []
      in if count_key state key then handled (appendCount state key) []
         else if editsText \<and> vs_textObject state = None \<and> (key = js ''i'' \<or> key = js ''a'')
         then handled (state\<lparr>vs_textObject := Some (if key = js ''i'' then Inner else Around)\<rparr>) []
         else case vs_textObject state of
           Some modifier \<Rightarrow>
             if \<not> editsText \<or> key \<noteq> js ''w'' \<or> \<not> sn_editable snapshot then idle
             else (case wordTextObjectRange env (sn_value snapshot) (sn_selectionStart snapshot) modifier count of
                     None \<Rightarrow> idle
                   | Some (from, to) \<Rightarrow>
                       if from = to then idle
                       else handled (after_edit changing) [editEffect env snapshot from to [] changing])
         | None \<Rightarrow>
             if operator = Some DeleteOp \<and> key = js ''d'' \<or> operator = Some ChangeOp \<and> key = js ''c'' then
               (if \<not> sn_editable snapshot then idle
                else if operator = Some DeleteOp then handled (normalState None) [SurfaceEffect (DeleteUnit count)]
                else handled (initialVimState InsertMode)
                       [editEffect env snapshot 0 (length (sn_value snapshot)) [] True])
             else if operator = Some IndentOp \<and> key = js ''>''
             then handled (normalState None) (if sn_editable snapshot then [SurfaceEffect (IndentCommand count)] else [])
             else if operator = Some OutdentOp \<and> key = js ''<''
             then handled (normalState None) (if sn_editable snapshot then [SurfaceEffect (OutdentCommand count)] else [])
             else if \<not> editsText then idle
             else if sn_supportsCrossBlockWords snapshot \<and> word_motion_key key \<noteq> None then
               (if \<not> sn_editable snapshot then idle
                else handled (after_edit changing)
                       [SurfaceEffect (WordMotion (the (word_motion_key key)) count (sn_selectionStart snapshot) operator)])
             else (case motionFor env snapshot key count (vs_desiredColumn state) of
                     Some (TextMotion position inclusive column) \<Rightarrow>
                       if \<not> sn_editable snapshot then idle
                       else (let (from, to) = operatorRange env snapshot position inclusive
                             in if from = to then idle
                                else handled (after_edit changing) [editEffect env snapshot from to [] changing])
                   | _ \<Rightarrow> idle))"

definition enterInsert :: "text_env \<Rightarrow> vim_snapshot \<Rightarrow> js_string \<Rightarrow> vim_interpretation" where
  "enterInsert env snapshot key =
     (if \<not> sn_editable snapshot then handled (normalState None) []
      else
        let v = sn_value snapshot; position = sn_selectionStart snapshot;
            caret = (if key = js ''i'' then position
                     else if key = js ''a'' then min (lineEnd v position) (nextBoundary env v position)
                     else if key = js ''I'' then firstNonBlank env v position
                     else lineEnd v position)
        in handled (initialVimState InsertMode) [SelectionEffect caret caret])"

text \<open>The loop of \<open>deleteCharacters\<close>.\<close>

fun delete_to :: "text_env \<Rightarrow> js_string \<Rightarrow> nat \<Rightarrow> nat \<Rightarrow> nat \<Rightarrow> nat" where
  "delete_to env v stop 0 to = to"
| "delete_to env v stop (Suc steps) to =
     (if to < stop then delete_to env v stop steps (nextBoundary env v to) else to)"

definition deleteCharacters :: "text_env \<Rightarrow> vim_snapshot \<Rightarrow> nat \<Rightarrow> vim_effect option" where
  "deleteCharacters env snapshot count =
     (if \<not> sn_editable snapshot then None
      else
        let from = sn_selectionStart snapshot;
            to = delete_to env (sn_value snapshot) (lineEnd (sn_value snapshot) from) count from
        in if from < to then Some (editEffect env snapshot from to [] False) else None)"

definition context_menu_key :: "vim_key \<Rightarrow> bool" where
  "context_menu_key k \<longleftrightarrow> vk_key k = js ''ContextMenu'' \<or> vk_shift k \<and> vk_key k = js ''F10''"

definition interpretVisualLine :: "vim_state \<Rightarrow> vim_key \<Rightarrow> vim_interpretation" where
  "interpretVisualLine state k =
     (let key = vk_key k;
          finish = (\<lambda>command. handled (normalState None) [SurfaceEffect command]);
          stay = (\<lambda>effects. handled (initialVimState VisualLineMode) effects);
          count = parsedCount (vs_count state)
      in if key = js ''Escape'' \<or> key = js ''V'' \<or> vk_ctrl k \<and> key = js ''['' then finish VisualCancel
         else if context_menu_key k then pass state
         else if vk_ctrl k \<or> vk_meta k \<or> vk_alt k then pass state
         else if count_key state key then handled (appendCount state key) []
         else if vs_prefix_g state then
           (if key = js ''g'' then stay [SurfaceEffect (VisualEdge FirstEdge)] else stay [])
         else if key = js ''g'' then handled (state\<lparr>vs_prefix_g := True\<rparr>) []
         else if key = js ''G'' then stay [SurfaceEffect (VisualEdge LastEdge)]
         else if key = js ''j'' \<or> key = js ''ArrowDown'' \<or> key = js ''Enter''
         then stay [SurfaceEffect (VisualMove Downward count)]
         else if key = js ''k'' \<or> key = js ''ArrowUp'' then stay [SurfaceEffect (VisualMove Upward count)]
         else if key = js ''d'' \<or> key = js ''x'' \<or> key = js ''Delete'' \<or> key = js ''Backspace'' then finish VisualDelete
         else if key = js ''>'' \<or> key = js ''Tab'' \<and> \<not> vk_shift k then finish VisualIndent
         else if key = js ''<'' \<or> key = js ''Tab'' \<and> vk_shift k then finish VisualOutdent
         else stay [])"

definition operator_key :: "js_string \<Rightarrow> vim_operator option" where
  "operator_key key =
     (if key = js ''d'' then Some DeleteOp else if key = js ''c'' then Some ChangeOp
      else if key = js ''>'' then Some IndentOp else if key = js ''<'' then Some OutdentOp else None)"

definition move_normal :: "text_env \<Rightarrow> vim_state \<Rightarrow> vim_snapshot \<Rightarrow> js_string \<Rightarrow> nat \<Rightarrow> vim_interpretation" where
  "move_normal env state snapshot key count =
     (case motionFor env snapshot key count (vs_desiredColumn state) of
        Some (SurfaceMotion direction steps column desired) \<Rightarrow>
          handled (normalState (Some desired)) [SurfaceEffect (FocusCommand direction steps column)]
      | Some (TextMotion position inclusive desired) \<Rightarrow>
          handled (normalState desired) [SelectionEffect position position]
      | None \<Rightarrow> handled (normalState None) [])"

definition interpretNormal :: "text_env \<Rightarrow> vim_state \<Rightarrow> vim_snapshot \<Rightarrow> vim_key \<Rightarrow> vim_interpretation" where
  "interpretNormal env state snapshot k =
     (let key = vk_key k;
          v = sn_value snapshot;
          position = sn_selectionStart snapshot;
          count = parsedCount (vs_count state);
          idle = handled (normalState None) [];
          structural = (\<lambda>command. handled (normalState None) (if sn_editable snapshot then [SurfaceEffect command] else []))
      in if key = js ''Escape'' then idle
         else if vs_prefix_g state then
           (if key = js ''g'' then handled (normalState None) [SurfaceEffect (FocusEdge FirstEdge)] else idle)
         else if count_key state key then handled (appendCount state key) []
         else if key = js ''V'' then
           (if \<not> sn_supportsVisualLine snapshot then idle
            else handled (initialVimState VisualLineMode)
                   [SurfaceEffect (VisualBegin count position (int position - int (lineStart v position)))])
         else if key = js ''g'' then handled (state\<lparr>vs_prefix_g := True\<rparr>) []
         else if key = js ''G'' then handled (normalState None) [SurfaceEffect (FocusEdge LastEdge)]
         else if operator_key key \<noteq> None then
           handled ((initialVimState OperatorPending)\<lparr>vs_operator := operator_key key, vs_operatorCount := count\<rparr>) []
         else if key = js ''i'' \<or> key = js ''a'' \<or> key = js ''I'' \<or> key = js ''A'' then enterInsert env snapshot key
         else if key = js ''o'' \<or> key = js ''O'' then
           (if \<not> sn_editable snapshot then idle
            else handled (initialVimState InsertMode)
                   [SurfaceEffect (if key = js ''o'' then OpenAfter else OpenBefore)])
         else if key = js ''u'' then structural (HistoryCommand False)
         else if key = js ''Tab'' then structural (if vk_shift k then OutdentCommand count else IndentCommand count)
         else if key = js ''x'' \<or> key = js ''Delete'' then
           handled (normalState None)
             (case deleteCharacters env snapshot count of None \<Rightarrow> [] | Some effect \<Rightarrow> [effect])
         else if key = js ''D'' \<or> key = js ''C'' then
           (if \<not> sn_editable snapshot then idle
            else let stop = lineEnd v position; changing = (key = js ''C'')
                 in handled (after_edit changing)
                      (if position < stop then [editEffect env snapshot position stop [] changing] else []))
         else if sn_supportsCrossBlockWords snapshot \<and> word_motion_key key \<noteq> None then
           handled (normalState None) [SurfaceEffect (WordMotion (the (word_motion_key key)) count position None)]
         else move_normal env state snapshot key count)"

definition interpretVimKey :: "text_env \<Rightarrow> vim_state \<Rightarrow> vim_snapshot \<Rightarrow> vim_key \<Rightarrow> vim_interpretation" where
  "interpretVimKey env state snapshot k =
     (let key = vk_key k;
          escape = (key = js ''Escape'' \<or> vk_ctrl k \<and> key = js ''['');
          v = sn_value snapshot;
          position = sn_selectionStart snapshot
      in if vs_mode state = InsertMode then
           (if \<not> escape then pass state
            else let start = lineStart v position;
                     caret = (if start < position then previousBoundary env v position else position)
                 in handled (normalState None) [SelectionEffect caret caret])
         else if vs_mode state = VisualLineMode then interpretVisualLine state k
         else if escape then handled (normalState None) []
         else if vk_ctrl k \<and> \<not> vk_meta k \<and> \<not> vk_alt k \<and> (key = js ''r'' \<or> key = js ''R'')
         then handled (normalState None) (if sn_editable snapshot then [SurfaceEffect (HistoryCommand True)] else [])
         else if context_menu_key k then pass state
         else if vk_ctrl k \<or> vk_meta k \<or> vk_alt k then pass state
         else if vs_mode state = OperatorPending then interpretOperator env state snapshot k
         else interpretNormal env state snapshot k)"



subsection \<open>Reasoning by outcomes\<close>

text \<open>What holds of every interpretation a mode can give, shown branch by branch.\<close>

definition outcome :: "(bool \<Rightarrow> vim_state \<Rightarrow> vim_effect list \<Rightarrow> bool) \<Rightarrow> vim_interpretation \<Rightarrow> bool" where
  "outcome P r \<longleftrightarrow> P (vi_handled r) (vi_state r) (vi_effects r)"

lemma outcome_if: "(c \<Longrightarrow> outcome P a) \<Longrightarrow> (\<not> c \<Longrightarrow> outcome P b) \<Longrightarrow> outcome P (if c then a else b)"
  by simp

lemma outcome_option:
  "(x = None \<Longrightarrow> outcome P a) \<Longrightarrow> (\<And>y. x = Some y \<Longrightarrow> outcome P (b y)) \<Longrightarrow>
   outcome P (case x of None \<Rightarrow> a | Some y \<Rightarrow> b y)"
  by (cases x) simp_all

lemma outcome_prod: "(\<And>a b. x = (a, b) \<Longrightarrow> outcome P (f a b)) \<Longrightarrow> outcome P (case x of (a, b) \<Rightarrow> f a b)"
  by (cases x) simp

lemma outcome_motion:
  "(\<And>p i c. m = TextMotion p i c \<Longrightarrow> outcome P (f p i c)) \<Longrightarrow>
   (\<And>d n c e. m = SurfaceMotion d n c e \<Longrightarrow> outcome P (g d n c e)) \<Longrightarrow>
   outcome P (case m of TextMotion p i c \<Rightarrow> f p i c | SurfaceMotion d n c e \<Rightarrow> g d n c e)"
  by (cases m) simp_all

lemma outcome_handled: "P True state effects \<Longrightarrow> outcome P (handled state effects)"
  by (simp add: outcome_def handled_def)

lemma outcome_pass: "P False state [] \<Longrightarrow> outcome P (pass state)"
  by (simp add: outcome_def pass_def)

lemmas outcome_intros = outcome_if outcome_option outcome_prod outcome_motion outcome_handled outcome_pass

lemma outcome_key:
  assumes "vs_mode state = InsertMode \<Longrightarrow> P False state []"
    and "\<And>caret. vs_mode state = InsertMode \<Longrightarrow> caret \<le> sn_selectionStart snapshot \<Longrightarrow>
       P True (normalState None) [SelectionEffect caret caret]"
    and "vs_mode state = VisualLineMode \<Longrightarrow> outcome P (interpretVisualLine state k)"
    and "P True (normalState None) []"
    and "sn_editable snapshot \<Longrightarrow> P True (normalState None) [SurfaceEffect (HistoryCommand True)]"
    and "context_menu_key k \<or> vk_ctrl k \<or> vk_meta k \<or> vk_alt k \<Longrightarrow> P False state []"
    and "vs_mode state = OperatorPending \<Longrightarrow> outcome P (interpretOperator env state snapshot k)"
    and "vs_mode state = NormalMode \<Longrightarrow> outcome P (interpretNormal env state snapshot k)"
  shows "outcome P (interpretVimKey env state snapshot k)"
proof (cases "vs_mode state")
  case InsertMode
  then show ?thesis
    using assms(1,2) previousBoundary_le(1) [of env "sn_value snapshot" "sn_selectionStart snapshot"]
    by (simp add: interpretVimKey_def Let_def outcome_def handled_def pass_def)
next
  case NormalMode
  then show ?thesis
    using assms(4-6,8) by (auto simp: interpretVimKey_def Let_def outcome_def handled_def pass_def)
next
  case OperatorPending
  then show ?thesis
    using assms(4-7) by (auto simp: interpretVimKey_def Let_def outcome_def handled_def pass_def)
next
  case VisualLineMode
  then show ?thesis using assms(3) by (simp add: interpretVimKey_def)
qed


subsection \<open>The state stays well formed\<close>

definition digit_unit :: "code_unit \<Rightarrow> bool" where
  "digit_unit u \<longleftrightarrow> 48 \<le> unat u \<and> unat u \<le> 57"

text \<open>
  An operator is pending exactly in its mode, a text object belongs to an operator that edits
  text, the count is at most four digits without a leading zero, and Insert mode remembers
  nothing.
\<close>

definition state_ok :: "vim_state \<Rightarrow> bool" where
  "state_ok state \<longleftrightarrow>
     list_all digit_unit (vs_count state) \<and> length (vs_count state) \<le> 4
   \<and> (vs_count state \<noteq> [] \<longrightarrow> hd (vs_count state) \<noteq> 48)
   \<and> 1 \<le> vs_operatorCount state \<and> vs_operatorCount state \<le> 9999
   \<and> (vs_mode state = OperatorPending \<longleftrightarrow> vs_operator state \<noteq> None)
   \<and> (vs_textObject state \<noteq> None \<longrightarrow> vs_operator state = Some DeleteOp \<or> vs_operator state = Some ChangeOp)
   \<and> (vs_prefix_g state \<longrightarrow> vs_mode state = NormalMode \<or> vs_mode state = VisualLineMode)
   \<and> (vs_mode state = InsertMode \<longrightarrow> state = initialVimState InsertMode)"

lemma parsedCount_bounds: "1 \<le> parsedCount v" "parsedCount v \<le> 9999"
  by (simp_all add: parsedCount_def)

lemma state_ok_initial [simp]:
  "state_ok (normalState column)" "mode \<noteq> OperatorPending \<Longrightarrow> state_ok (initialVimState mode)" "state_ok (after_edit changing)"
  by (auto simp: state_ok_def normalState_def initialVimState_def after_edit_def)

lemma count_key_digit:
  assumes "count_key state key"
  obtains u where "key = [u]" "digit_unit u" "u = 48 \<longrightarrow> vs_count state \<noteq> []"
proof -
  have "key = js ''0'' \<and> vs_count state \<noteq> [] \<or> (\<exists>u. key = [u] \<and> digit_unit u \<and> u \<noteq> 48)"
    using assms unfolding count_key_def by (auto simp: js_def digit_unit_def)
  moreover have "js ''0'' = [48]" "digit_unit 48" by (simp_all add: js_def digit_unit_def)
  ultimately show ?thesis using that by metis
qed

lemma state_ok_append:
  assumes "state_ok state" and "count_key state key" and "vs_mode state \<noteq> InsertMode"
  shows "state_ok (appendCount state key)"
proof -
  obtain u where u: "key = [u]" "digit_unit u" "u = 48 \<longrightarrow> vs_count state \<noteq> []"
    by (rule count_key_digit [OF assms(2)])
  have "list_all digit_unit (take 4 (vs_count state @ key))"
    using assms(1) u by (auto simp: state_ok_def list_all_iff dest: in_set_takeD)
  moreover have "hd (take 4 (vs_count state @ key)) \<noteq> 48"
    using assms(1) u by (cases "vs_count state") (auto simp: state_ok_def)
  ultimately show ?thesis
    using assms(1,3) by (auto simp: state_ok_def appendCount_def)
qed

lemma state_ok_prefix:
  "state_ok state \<Longrightarrow> vs_mode state = NormalMode \<or> vs_mode state = VisualLineMode \<Longrightarrow> state_ok (state\<lparr>vs_prefix_g := True\<rparr>)"
  by (auto simp: state_ok_def)

lemma state_ok_object:
  "state_ok state \<Longrightarrow> vs_operator state = Some DeleteOp \<or> vs_operator state = Some ChangeOp \<Longrightarrow>
   state_ok (state\<lparr>vs_textObject := Some t\<rparr>)"
  by (auto simp: state_ok_def)

lemma state_ok_pending:
  "operator \<noteq> None \<Longrightarrow>
   state_ok ((initialVimState OperatorPending)\<lparr>vs_operator := operator, vs_operatorCount := parsedCount n\<rparr>)"
  using parsedCount_bounds [of n] by (auto simp: state_ok_def initialVimState_def)

lemma state_ok_key:
  assumes ok: "state_ok state"
  shows "state_ok (vi_state (interpretVimKey env state snapshot k))"
proof -
  let ?P = "\<lambda>h s es. state_ok s"
  have visual: "outcome ?P (interpretVisualLine state k)" if "vs_mode state = VisualLineMode"
    unfolding interpretVisualLine_def Let_def
    by (intro outcome_intros) (simp_all add: ok that state_ok_append state_ok_prefix)
  have operator: "outcome ?P (interpretOperator env state snapshot k)" if "vs_mode state = OperatorPending"
    unfolding interpretOperator_def Let_def
    by (intro outcome_intros) (simp_all add: ok that state_ok_append state_ok_object)
  have normal: "outcome ?P (interpretNormal env state snapshot k)" if "vs_mode state = NormalMode"
    unfolding interpretNormal_def enterInsert_def move_normal_def Let_def
    by (intro outcome_intros) (simp_all add: ok that state_ok_append state_ok_prefix state_ok_pending)
  have "outcome ?P (interpretVimKey env state snapshot k)"
    by (rule outcome_key) (use ok visual operator normal in simp_all)
  then show ?thesis by (simp add: outcome_def)
qed

text \<open>A session: keys one after the other, each against the text it finds.\<close>

definition vim_run :: "text_env \<Rightarrow> vim_state \<Rightarrow> (vim_snapshot \<times> vim_key) list \<Rightarrow> vim_state" where
  "vim_run env state keys = foldl (\<lambda>s (snapshot, k). vi_state (interpretVimKey env s snapshot k)) state keys"

lemma state_ok_run: "state_ok state \<Longrightarrow> state_ok (vim_run env state keys)"
  unfolding vim_run_def by (induction keys arbitrary: state) (auto intro: state_ok_key)



subsection \<open>Effects stay inside the text\<close>

fun command_ok :: "vim_snapshot \<Rightarrow> vim_surface_command \<Rightarrow> bool" where
  "command_ok snapshot (FocusCommand direction count column) \<longleftrightarrow> 1 \<le> count"
| "command_ok snapshot (WordMotion motion count caret operator) \<longleftrightarrow> 1 \<le> count \<and> caret \<le> length (sn_value snapshot)"
| "command_ok snapshot (DeleteUnit count) \<longleftrightarrow> 1 \<le> count"
| "command_ok snapshot (IndentCommand count) \<longleftrightarrow> 1 \<le> count"
| "command_ok snapshot (OutdentCommand count) \<longleftrightarrow> 1 \<le> count"
| "command_ok snapshot (VisualBegin count caret column) \<longleftrightarrow> 1 \<le> count \<and> caret \<le> length (sn_value snapshot)"
| "command_ok snapshot (VisualMove direction count) \<longleftrightarrow> 1 \<le> count"
| "command_ok snapshot _ \<longleftrightarrow> True"

text \<open>A caret inside the text; an edit of a range of the text, with the caret inside what is left.\<close>

fun effect_ok :: "vim_snapshot \<Rightarrow> vim_effect \<Rightarrow> bool" where
  "effect_ok snapshot (SelectionEffect start stop) \<longleftrightarrow> start = stop \<and> stop \<le> length (sn_value snapshot)"
| "effect_ok snapshot (EditEffect from to ins start stop) \<longleftrightarrow>
     from \<le> to \<and> to \<le> length (sn_value snapshot) \<and> start = stop
   \<and> stop \<le> length (take from (sn_value snapshot) @ ins @ drop to (sn_value snapshot))"
| "effect_ok snapshot (SurfaceEffect command) \<longleftrightarrow> command_ok snapshot command"

lemma normalCaretAfterEdit_le: "normalCaretAfterEdit env v position \<le> length v"
  using previousBoundary_le(2) [of env v "length v"] by (simp add: normalCaretAfterEdit_def)

lemma editEffect_ok:
  assumes "from \<le> to" and "to \<le> length (sn_value snapshot)"
  shows "effect_ok snapshot (editEffect env snapshot from to [] insertMode)"
  using assms normalCaretAfterEdit_le [of env "take from (sn_value snapshot) @ drop to (sn_value snapshot)" "from"]
  by (auto simp: editEffect_def Let_def)

lemma clampNormalColumn_le: "clampNormalColumn env v start column \<le> length v"
  using lineEnd_le [of v start] previousBoundary_le(2) [of env v "lineEnd v start"]
  by (simp add: clampNormalColumn_def Let_def min_le_iff_disj)

lemma repeat_le: "(\<And>x. f x \<le> (n :: nat)) \<Longrightarrow> x \<le> n \<Longrightarrow> repeat k f x \<le> n"
  by (induction k arbitrary: x) auto

lemma step_left_le: "step_left env v cursor \<le> length v"
  using lineStart_le previousBoundary_le(2) by (simp add: step_left_def)

lemma step_right_le: "step_right env v cursor \<le> length v"
  using normalLineEnd_le by (simp add: step_right_def min_le_iff_disj)

definition motion_ok :: "vim_snapshot \<Rightarrow> motion \<Rightarrow> bool" where
  "motion_ok snapshot m =
     (case m of
        TextMotion position inclusive column \<Rightarrow> position \<le> length (sn_value snapshot)
      | SurfaceMotion direction count column desired \<Rightarrow> 1 \<le> count)"

lemma verticalMotion_ok:
  "motion_ok snapshot (verticalMotion env (sn_value snapshot) position direction count column)"
proof -
  have "1 \<le> nat (max 1 x)" for x by simp
  then show ?thesis
    unfolding verticalMotion_def Let_def motion_ok_def by (simp only: motion.case if_split clampNormalColumn_le simp_thms)
qed

lemma motionFor_ok:
  assumes "segmenter_ok env" and "motionFor env snapshot key count column = Some m"
  shows "motion_ok snapshot m"
proof -
  let ?v = "sn_value snapshot"
  have "repeat count (step_left env ?v) (min x (length ?v)) \<le> length ?v"
    "repeat count (step_right env ?v) (min x (length ?v)) \<le> length ?v" for x
    by (auto intro!: repeat_le step_left_le step_right_le)
  then show ?thesis
    using assms(2) lineStart_le firstNonBlank_le normalLineEnd_le verticalMotion_ok [of snapshot]
      wordForward_le [OF assms(1)] wordBackward_le [OF assms(1)] wordEnd_le [OF assms(1)]
    by (auto simp: motionFor_def Let_def motion_ok_def split: if_splits)
qed

lemma operatorRange_le:
  assumes "segmenter_ok env" and "sn_selectionStart snapshot \<le> length (sn_value snapshot)"
    and "position \<le> length (sn_value snapshot)" and "operatorRange env snapshot position inclusive = (from, to)"
  shows "from \<le> to \<and> to \<le> length (sn_value snapshot)"
  using assms nextBoundary_ge [OF assms(3), of env] nextBoundary_le [OF assms(1), of "sn_value snapshot" position]
  by (auto simp: operatorRange_def Let_def split: if_splits)

lemma delete_to_le: "segmenter_ok env \<Longrightarrow> to \<le> length v \<Longrightarrow> delete_to env v stop steps to \<le> length v"
  by (induction steps arbitrary: to) (auto simp: nextBoundary_le)

lemma deleteCharacters_ok:
  assumes "segmenter_ok env" and "sn_selectionStart snapshot \<le> length (sn_value snapshot)"
    and "deleteCharacters env snapshot count = Some effect"
  shows "effect_ok snapshot effect"
  using assms(3) delete_to_le [OF assms(1,2)]
  by (auto simp: deleteCharacters_def Let_def intro!: editEffect_ok split: if_splits)

lemma effects_in_bounds:
  assumes seg: "segmenter_ok env" and caret: "sn_selectionStart snapshot \<le> length (sn_value snapshot)"
    and ok: "state_ok state"
  shows "list_all (effect_ok snapshot) (vi_effects (interpretVimKey env state snapshot k))"
proof -
  let ?P = "\<lambda>h s. list_all (effect_ok snapshot)" and ?v = "sn_value snapshot" and ?p = "sn_selectionStart snapshot"
  have count: "Suc 0 \<le> parsedCount n" "Suc 0 \<le> vs_operatorCount state" "0 < vs_operatorCount state * parsedCount n" for n
    using parsedCount_bounds(1) [of n] ok by (auto simp: state_ok_def)
  have visual: "outcome ?P (interpretVisualLine state k)"
    unfolding interpretVisualLine_def Let_def by (intro outcome_intros) (simp_all add: count)
  have object: "effect_ok snapshot (editEffect env snapshot f t [] changing)"
    if "wordTextObjectRange env ?v ?p modifier (vs_operatorCount state * parsedCount (vs_count state)) = Some (f, t)"
    for modifier f t changing
    using wordTextObjectRange_le [OF seg count(3) that] by (auto intro: editEffect_ok)
  have range: "effect_ok snapshot (editEffect env snapshot f t [] changing)"
    if "motionFor env snapshot key n column = Some (TextMotion position inclusive c)"
      "operatorRange env snapshot position inclusive = (f, t)"
    for key n column position inclusive c f t changing
    using operatorRange_le [OF seg caret _ that(2)] motionFor_ok [OF seg that(1)]
    by (auto simp: motion_ok_def intro: editEffect_ok)
  have operator: "outcome ?P (interpretOperator env state snapshot k)"
    unfolding interpretOperator_def Let_def
    by (intro outcome_intros) (simp_all add: count caret object range editEffect_ok)
  have normal: "outcome ?P (interpretNormal env state snapshot k)"
    unfolding interpretNormal_def enterInsert_def move_normal_def Let_def
    by (intro outcome_intros)
      (auto simp: count caret motion_ok_def lineEnd_le firstNonBlank_le min_le_iff_disj
        dest!: motionFor_ok [OF seg] dest: deleteCharacters_ok [OF seg caret] intro!: editEffect_ok split: option.split)
  have "outcome ?P (interpretVimKey env state snapshot k)"
    by (rule outcome_key) (use caret visual operator normal in auto)
  then show ?thesis by (simp add: outcome_def)
qed



subsection \<open>What a key may do\<close>

text \<open>The effects that change text or structure.\<close>

fun mutating :: "vim_effect \<Rightarrow> bool" where
  "mutating (EditEffect from to ins start stop) = True"
| "mutating (SelectionEffect start stop) = False"
| "mutating (SurfaceEffect command) =
     (case command of
        WordMotion motion count caret operator \<Rightarrow> operator \<noteq> None
      | OpenAfter \<Rightarrow> True
      | OpenBefore \<Rightarrow> True
      | DeleteUnit count \<Rightarrow> True
      | IndentCommand count \<Rightarrow> True
      | OutdentCommand count \<Rightarrow> True
      | HistoryCommand redo \<Rightarrow> True
      | VisualDelete \<Rightarrow> True
      | VisualIndent \<Rightarrow> True
      | VisualOutdent \<Rightarrow> True
      | _ \<Rightarrow> False)"

lemma modes [simp]:
  "vs_mode (normalState column) = NormalMode" "vs_mode (initialVimState mode) = mode"
  "vs_mode (appendCount state digit) = vs_mode state"
  by (simp_all add: normalState_def initialVimState_def appendCount_def)

text \<open>
  C28. Keys keep the state well formed: whatever is pressed, in whatever order and on
  whatever text, an operator is pending exactly in its mode, a text object only follows an
  operator that edits text, a count is at most four digits without a leading zero, and Insert
  mode remembers nothing of the keys before it.
\<close>

theorem vim_keys_keep_state: "state_ok (vim_run env (initialVimState NormalMode) keys)"
  by (rule state_ok_run) simp

text \<open>
  C26. Every effect of a key stays inside the text: carets and edited ranges lie in it, the
  caret after an edit lies in what is left, and every count is at least one, for any keys
  before and any segmentation of the text into graphemes.
\<close>

theorem vim_effects_in_bounds:
  assumes "segmenter_ok env" and "sn_selectionStart snapshot \<le> length (sn_value snapshot)"
  shows "list_all (effect_ok snapshot)
     (vi_effects (interpretVimKey env (vim_run env (initialVimState NormalMode) keys) snapshot k))"
  using effects_in_bounds [OF assms state_ok_run] by simp


text \<open>
  Vim owns bare keys: outside Insert mode a key without Control, Meta or Alt that does
  not open a context menu is always handled, so nothing is typed into the text; and a key that
  is passed on leaves the state alone and has no effect.
\<close>

theorem vim_owns_bare_keys:
  "(vs_mode state \<noteq> InsertMode \<and> \<not> vk_ctrl k \<and> \<not> vk_meta k \<and> \<not> vk_alt k \<and> \<not> context_menu_key k
      \<longrightarrow> vi_handled (interpretVimKey env state snapshot k))
   \<and> (\<not> vi_handled (interpretVimKey env state snapshot k)
      \<longrightarrow> interpretVimKey env state snapshot k = pass state)"
proof -
  let ?P = "\<lambda>h s es. (vs_mode state \<noteq> InsertMode \<and> \<not> vk_ctrl k \<and> \<not> vk_meta k \<and> \<not> vk_alt k \<and> \<not> context_menu_key k \<longrightarrow> h)
    \<and> (\<not> h \<longrightarrow> s = state \<and> es = [])"
  have visual: "outcome ?P (interpretVisualLine state k)"
    unfolding interpretVisualLine_def Let_def by (intro outcome_intros) auto
  have operator: "outcome ?P (interpretOperator env state snapshot k)"
    unfolding interpretOperator_def Let_def by (intro outcome_intros) auto
  have normal: "outcome ?P (interpretNormal env state snapshot k)"
    unfolding interpretNormal_def enterInsert_def move_normal_def Let_def by (intro outcome_intros) auto
  have "outcome ?P (interpretVimKey env state snapshot k)"
    by (rule outcome_key) (use visual operator normal in auto)
  then show ?thesis by (auto simp: outcome_def pass_def)
qed


subsection \<open>A session\<close>

definition plain_key :: "string \<Rightarrow> vim_key" where
  "plain_key name = \<lparr>vk_key = js name, vk_shift = False, vk_alt = False, vk_ctrl = False, vk_meta = False\<rparr>"

definition sample_text :: "bool \<Rightarrow> vim_snapshot" where
  "sample_text editable = \<lparr>sn_value = js ''one two'', sn_selectionStart = 0, sn_selectionEnd = 0,
     sn_editable = editable, sn_supportsVisualLine = False, sn_supportsCrossBlockWords = False\<rparr>"

text \<open>Without a segmenter, and with ASCII letters as the only word characters.\<close>

definition sample_env :: text_env where
  "sample_env = \<lparr>te_segments = None, te_word_point = (\<lambda>p. case p of [u] \<Rightarrow> 97 \<le> unat u \<and> unat u \<le> 122 | _ \<Rightarrow> False)\<rparr>"

theorem vim_effects_in_bounds_witness:
  "vi_effects (interpretVimKey sample_env
       (vim_run sample_env (initialVimState NormalMode) [(sample_text True, plain_key ''d'')])
       (sample_text True) (plain_key ''w'')) = [EditEffect 0 4 [] 0 0]
   \<and> effect_ok (sample_text True) (EditEffect 0 4 [] 0 0)"
proof -
  have "segmenter_ok sample_env" by (simp add: segmenter_ok_def sample_env_def)
  moreover have "sn_selectionStart (sample_text True) \<le> length (sn_value (sample_text True))" by code_simp
  moreover have "vi_effects (interpretVimKey sample_env
       (vim_run sample_env (initialVimState NormalMode) [(sample_text True, plain_key ''d'')])
       (sample_text True) (plain_key ''w'')) = [EditEffect 0 4 [] 0 0]" by code_simp
  ultimately show ?thesis
    using vim_effects_in_bounds [of sample_env "sample_text True" "[(sample_text True, plain_key ''d'')]" "plain_key ''w''"]
    by simp
qed


theorem vim_owns_bare_keys_witness:
  "vi_handled (interpretVimKey sample_env (initialVimState NormalMode) (sample_text True) (plain_key ''q''))"
proof -
  have "\<not> context_menu_key (plain_key ''q'')" by code_simp
  then show ?thesis
    using vim_owns_bare_keys [of "initialVimState NormalMode" "plain_key ''q''" sample_env "sample_text True"]
    by (simp add: plain_key_def)
qed

text \<open>
  On an empty first line the start of the line is taken to be the start of the next one: the
  search for a line feed before position 0 finds the one at position 0.
\<close>

lemma empty_first_line:
  "motionFor env ((sample_text True)\<lparr>sn_value := [LF, 120]\<rparr>) (js ''0'') 1 None = Some (TextMotion 1 False None)"
proof -
  have "lineStart [LF, 120] 0 = 1" "mapped_key (js ''0'') = js ''0''" by code_simp+
  moreover have "js ''0'' \<noteq> js ''j''" "js ''0'' \<noteq> js ''k''" "js ''0'' \<noteq> js ''h''" "js ''0'' \<noteq> js ''l''" by code_simp+
  ultimately show ?thesis by (simp add: motionFor_def sample_text_def)
qed

end
