(* ===== verification/Job.thy ===== *)
theory Job
  imports Main
begin

text \<open>
  Asynchronous work that runs by itself: a \<open>job\<close> reads and writes a state and ends with a
  value or an exception. The awaits of the source are the calls it makes on the way; what
  may run between them is said where a job is used. \<open>wp\<close> is the weakest precondition of a
  job, computed by its rules, so that a statement about a job is proved by running it.
\<close>

type_synonym ('s, 'e, 'a) job = "'s \<Rightarrow> ('e + 'a) \<times> 's"

definition return_job :: "'a \<Rightarrow> ('s, 'e, 'a) job" where
  "return_job a = (\<lambda>s. (Inr a, s))"

definition throw_job :: "'e \<Rightarrow> ('s, 'e, 'a) job" where
  "throw_job e = (\<lambda>s. (Inl e, s))"

definition read_job :: "('s \<Rightarrow> 'a) \<Rightarrow> ('s, 'e, 'a) job" where
  "read_job f = (\<lambda>s. (Inr (f s), s))"

definition change_job :: "('s \<Rightarrow> 's) \<Rightarrow> ('s, 'e, unit) job" where
  "change_job f = (\<lambda>s. (Inr (), f s))"

definition then_job :: "('s, 'e, 'a) job \<Rightarrow> ('a \<Rightarrow> ('s, 'e, 'b) job) \<Rightarrow> ('s, 'e, 'b) job" where
  "then_job m f = (\<lambda>s. case m s of (Inl e, s') \<Rightarrow> (Inl e, s') | (Inr a, s') \<Rightarrow> f a s')"

definition catch_job :: "('s, 'e, 'a) job \<Rightarrow> ('e \<Rightarrow> ('s, 'e, 'a) job) \<Rightarrow> ('s, 'e, 'a) job" where
  "catch_job m h = (\<lambda>s. case m s of (Inl e, s') \<Rightarrow> h e s' | (Inr a, s') \<Rightarrow> (Inr a, s'))"

text \<open>How a job ended, as a value.\<close>

definition settle_job :: "('s, 'e, 'a) job \<Rightarrow> ('s, 'e, 'e + 'a) job" where
  "settle_job m = (\<lambda>s. (Inr (fst (m s)), snd (m s)))"

fun each_job :: "('x \<Rightarrow> ('s, 'e, unit) job) \<Rightarrow> 'x list \<Rightarrow> ('s, 'e, unit) job" where
  "each_job f [] = return_job ()"
| "each_job f (x # xs) = then_job (f x) (\<lambda>_. each_job f xs)"

fun fold_job :: "('x \<Rightarrow> 'a \<Rightarrow> ('s, 'e, 'a) job) \<Rightarrow> 'x list \<Rightarrow> 'a \<Rightarrow> ('s, 'e, 'a) job" where
  "fold_job f [] a = return_job a"
| "fold_job f (x # xs) a = then_job (f x a) (fold_job f xs)"


subsection \<open>Weakest preconditions\<close>

named_theorems wp_rules

definition wp :: "('s, 'e, 'a) job \<Rightarrow> ('e + 'a \<Rightarrow> 's \<Rightarrow> bool) \<Rightarrow> 's \<Rightarrow> bool" where
  "wp m Q s = Q (fst (m s)) (snd (m s))"

lemma wp_return [wp_rules]: "wp (return_job a) Q s = Q (Inr a) s"
  by (simp add: wp_def return_job_def)

lemma wp_throw [wp_rules]: "wp (throw_job e) Q s = Q (Inl e) s"
  by (simp add: wp_def throw_job_def)

lemma wp_read [wp_rules]: "wp (read_job f) Q s = Q (Inr (f s)) s"
  by (simp add: wp_def read_job_def)

lemma wp_change [wp_rules]: "wp (change_job f) Q s = Q (Inr ()) (f s)"
  by (simp add: wp_def change_job_def)

lemma wp_then [wp_rules]:
  "wp (then_job m f) Q s = wp m (\<lambda>r s'. case r of Inl e \<Rightarrow> Q (Inl e) s' | Inr a \<Rightarrow> wp (f a) Q s') s"
  by (auto simp: wp_def then_job_def split: prod.split sum.split)

lemma wp_catch [wp_rules]:
  "wp (catch_job m h) Q s = wp m (\<lambda>r s'. case r of Inl e \<Rightarrow> wp (h e) Q s' | Inr a \<Rightarrow> Q (Inr a) s') s"
  by (auto simp: wp_def catch_job_def split: prod.split sum.split)

lemma wp_settle [wp_rules]: "wp (settle_job m) Q s = wp m (\<lambda>r s'. Q (Inr r) s') s"
  by (simp add: wp_def settle_job_def)

lemma wp_if [wp_rules]: "wp (if c then m else n) Q s = (if c then wp m Q s else wp n Q s)"
  by simp

lemma wp_mono: "wp m P s \<Longrightarrow> (\<And>r s'. P r s' \<Longrightarrow> Q r s') \<Longrightarrow> wp m Q s"
  by (simp add: wp_def)

lemma wp_conj: "wp m (\<lambda>r s'. P r s' \<and> Q r s') s = (wp m P s \<and> wp m Q s)"
  by (simp add: wp_def)

lemma wp_step:
  assumes "wp m P s" and "\<And>e s'. P (Inl e) s' \<Longrightarrow> Q (Inl e) s'" and "\<And>a s'. P (Inr a) s' \<Longrightarrow> wp (f a) Q s'"
  shows "wp (then_job m f) Q s"
  unfolding wp_then by (rule wp_mono [OF assms(1)]) (auto intro: assms(2, 3) split: sum.split)

lemma wp_step_catch:
  assumes "wp m P s" and "\<And>e s'. P (Inl e) s' \<Longrightarrow> wp (h e) Q s'" and "\<And>a s'. P (Inr a) s' \<Longrightarrow> Q (Inr a) s'"
  shows "wp (catch_job m h) Q s"
  unfolding wp_catch by (rule wp_mono [OF assms(1)]) (auto intro: assms(2, 3) split: sum.split)

lemma wpD: "wp m Q s \<Longrightarrow> m s = (r, s') \<Longrightarrow> Q r s'"
  by (simp add: wp_def)

lemma wp_each:
  assumes "\<And>x s. x \<in> set xs \<Longrightarrow> I s \<Longrightarrow> wp (f x) (\<lambda>r s'. case r of Inl e \<Rightarrow> Q (Inl e) s' | Inr _ \<Rightarrow> I s') s"
    and "I s" and "\<And>s. I s \<Longrightarrow> Q (Inr ()) s"
  shows "wp (each_job f xs) Q s"
  using assms(1, 2)
proof (induction xs arbitrary: s)
  case Nil
  then show ?case using assms(3) by (simp add: wp_rules)
next
  case (Cons x xs)
  show ?case unfolding each_job.simps wp_then
  proof (rule wp_mono [OF Cons.prems(1)])
    show "x \<in> set (x # xs)" "I s" using Cons.prems(2) by simp_all
    show "case r of Inl e \<Rightarrow> Q (Inl e) s' | Inr _ \<Rightarrow> wp (each_job f xs) Q s'"
      if "case r of Inl e \<Rightarrow> Q (Inl e) s' | Inr _ \<Rightarrow> I s'" for r s'
      using that Cons.IH Cons.prems(1) by (auto split: sum.splits)
  qed
qed

lemma wp_fold:
  assumes "\<And>x xs' a s. I (x # xs') a s \<Longrightarrow>
      wp (f x a) (\<lambda>r s'. case r of Inl e \<Rightarrow> Q (Inl e) s' | Inr a' \<Rightarrow> I xs' a' s') s"
    and "I xs a s" and "\<And>a s. I [] a s \<Longrightarrow> Q (Inr a) s"
  shows "wp (fold_job f xs a) Q s"
  using assms(2)
proof (induction xs arbitrary: a s)
  case Nil
  then show ?case using assms(3) by (simp add: wp_rules)
next
  case (Cons x xs)
  show ?case unfolding fold_job.simps wp_then
    by (rule wp_mono [OF assms(1) [OF Cons.prems]]) (auto intro: Cons.IH split: sum.splits)
qed

end
