(* ===== verification/Graph_Session.thy ===== *)
theory Graph_Session
  imports Job Content_Session
begin

text \<open>
  \<open>core-port/session.ts\<close>: one open graph on behalf of the views. A session sends commands,
  reads and remote updates to the core, one job at a time, and keeps the snapshot the views
  show.

  A job is a function of the session's fields (\<open>graph_session\<close>), which hold the core as well:
  the core and its worker are a parameter, a record of functions (\<open>session_port\<close>) from the
  core's state and a request to its next state and its answer or failure. Between the awaits of
  a job nothing else writes the snapshot, the save state, the cursor and the other fields a job
  works on: other jobs wait in their lanes, and the sync agent, the storage estimate and the
  page's events write \<open>sync\<close>, \<open>live\<close>, \<open>presence\<close> and \<open>capabilities\<close>, which are left out, and
  \<open>unsavedKept\<close>, which no job reads. A call of \<open>close\<close> comes between two jobs, or between the
  awaits of \<open>openNow\<close>, the one job that does not wait in a lane. Timeouts, activity tracking and
  listeners are left out.
\<close>

subsection \<open>Messages\<close>

datatype history_scope = EntityScope | OutlineScope | GraphScope

datatype entity_ref = EntityPage page_id | EntityBlock outline_owner block_id

record history_effect =
  he_scope :: history_scope
  he_affected_outlines :: "outline_owner list"
  he_reveal :: "entity_ref option"

record command_result =
  cr_command_id :: js_string
  cr_created_page :: "page_id option"
  cr_created_block :: "block_id option"
  cr_created_tag :: "tag_id option"
  cr_history_effect :: "history_effect option"

text \<open>What an awaited call may throw: a \<open>CorePortFailure\<close>, with the result of a command that
  was applied all the same, or another error by its message.\<close>

datatype failure =
    PortFailure port_error "command_result option"
  | OtherFailure js_string

datatype save_status = SavedLocally nat | UnsavedStatus port_error | Unchanged

record execute_response =
  er_result :: command_result
  er_changes :: graph_changes
  er_save_status :: save_status

datatype event_source = LocalEvent | RemoteEvent

record subscribe_response =
  sr_events :: "event_source list"
  sr_next_cursor :: nat
  sr_resync_required :: bool

record recovery =
  rc_checkpoint_sequence :: nat
  rc_replayed_updates :: nat
  rc_quarantined_records :: "js_string list"

record open_response =
  or_graph_handle :: js_string
  or_summary :: graph_summary
  or_recovery :: recovery

record remote_receipt =
  rr_local_sequence :: nat
  rr_changes :: graph_changes

record 'b checkpoint =
  cp_bytes :: 'b
  cp_historyEpoch :: nat
  cp_serverVersionVector :: "nat list"

text \<open>The core, by its answers. \<open>sp_has\<close> says which of the optional methods the port has.\<close>

record ('w, 'c, 'q, 'a, 'b) session_port =
  sp_has :: "js_string \<Rightarrow> bool"
  sp_openGraph :: "'w \<Rightarrow> (failure + open_response) \<times> 'w"
  sp_releaseGraph :: "js_string \<Rightarrow> 'w \<Rightarrow> (failure + unit) \<times> 'w"
  sp_closeGraph :: "js_string \<Rightarrow> 'w \<Rightarrow> (failure + unit) \<times> 'w"
  sp_execute :: "js_string \<Rightarrow> 'c command \<Rightarrow> 'w \<Rightarrow> (failure + execute_response) \<times> 'w"
  sp_read :: "js_string \<Rightarrow> 'w \<Rightarrow> (failure + graph_summary) \<times> 'w"
  sp_readOutline :: "js_string \<Rightarrow> outline_owner \<Rightarrow> 'w \<Rightarrow> (failure + outline_snapshot) \<times> 'w"
  sp_query :: "js_string \<Rightarrow> 'q \<Rightarrow> 'w \<Rightarrow> (failure + 'a) \<times> 'w"
  sp_subscribe :: "js_string \<Rightarrow> nat \<Rightarrow> 'w \<Rightarrow> (failure + subscribe_response) \<times> 'w"
  sp_retryPending :: "js_string \<Rightarrow> 'w \<Rightarrow> (failure + nat) \<times> 'w"
  sp_configureSync :: "js_string \<Rightarrow> 'w \<Rightarrow> (failure + unit) \<times> 'w"
  sp_syncState :: "js_string \<Rightarrow> 'w \<Rightarrow> (failure + bool) \<times> 'w"
  sp_importRemote :: "js_string \<Rightarrow> 'b \<Rightarrow> 'w \<Rightarrow> (failure + remote_receipt) \<times> 'w"
  sp_replaceRemote :: "js_string \<Rightarrow> 'b checkpoint \<Rightarrow> 'w \<Rightarrow> (failure + unit) \<times> 'w"


subsection \<open>State\<close>

datatype save_state = Saved nat | Saving | Unsaved port_error
datatype lease_mode = Exclusive | Readonly
datatype readonly_reason = LeaseReason | ViewerReason | AwaitingBase
datatype session_status = Opening | Ready | Failed | Closed

text \<open>The channel that tells following tabs of a save: not made yet, open, or closed.\<close>

datatype announcer = NoAnnouncer | OpenAnnouncer | ClosedAnnouncer

datatype 'c kept_edit = KeptContent unsaved_edit | KeptCommand "'c command"

record remote_connection =
  rm_viewer :: bool
  rm_read_only :: bool

record ('w, 'c) graph_session =
  se_core :: 'w
  se_remote :: "remote_connection option"
  se_broadcast :: bool
  se_status :: session_status
  se_mode :: lease_mode
  se_readonlyReason :: "readonly_reason option"
  se_snapshot :: graph_snapshot
  se_save :: save_state
  se_recovery :: "recovery option"
  se_error :: "port_error option"
  se_revision :: nat
  se_canonicalRevision :: nat
  se_lastChange :: "(js_string option \<times> graph_changes) option"
  se_hydratedOutlines :: "js_string list"
  se_handle :: js_string
  se_cursor :: nat
  se_needsReconcile :: bool
  se_lease :: "lease_mode option"
  se_closeRequested :: bool
  se_following :: bool
  se_agent :: bool
  se_wakes :: nat
  se_announcer :: announcer
  se_announced :: nat
  se_kept :: "'c kept_edit list"
  se_unsavedKept :: bool
  se_unsavedRestored :: bool

type_synonym ('w, 'c, 'a) session_job = "(('w, 'c) graph_session, failure, 'a) job"

definition EMPTY_SNAPSHOT :: "int \<Rightarrow> graph_snapshot" where
  "EMPTY_SNAPSHOT schemaVersion =
     \<lparr>gs_schema_version = schemaVersion, gs_graph_id = [], gs_pages = [], gs_page_directory = [],
      gs_tags = [], gs_settings = [], gs_conflicts = [], gs_quarantined = []\<rparr>"

definition new_session ::
  "'w \<Rightarrow> int \<Rightarrow> remote_connection option \<Rightarrow> bool \<Rightarrow> 'c kept_edit list \<Rightarrow> ('w, 'c) graph_session" where
  "new_session core schemaVersion remote broadcast kept =
     \<lparr>se_core = core, se_remote = remote, se_broadcast = broadcast, se_status = Opening,
      se_mode = Exclusive, se_readonlyReason = None, se_snapshot = EMPTY_SNAPSHOT schemaVersion,
      se_save = Saved 0, se_recovery = None, se_error = None, se_revision = 0,
      se_canonicalRevision = 0, se_lastChange = None, se_hydratedOutlines = [], se_handle = [],
      se_cursor = 0, se_needsReconcile = False, se_lease = None, se_closeRequested = False,
      se_following = False, se_agent = False, se_wakes = 0, se_announcer = NoAnnouncer,
      se_announced = 0, se_kept = kept, se_unsavedKept = False, se_unsavedRestored = False\<rparr>"

text \<open>One awaited request to the core.\<close>

definition port_job :: "(js_string \<Rightarrow> 'w \<Rightarrow> (failure + 'a) \<times> 'w) \<Rightarrow> ('w, 'c, 'a) session_job" where
  "port_job request = (\<lambda>st. case request (se_handle st) (se_core st) of
     (answer, core) \<Rightarrow> (answer, st\<lparr>se_core := core\<rparr>))"

definition lift_job :: "failure + 'a \<Rightarrow> ('w, 'c, 'a) session_job" where
  "lift_job result = (case result of Inl e \<Rightarrow> throw_job e | Inr a \<Rightarrow> return_job a)"

definition port_error :: "string \<Rightarrow> string \<Rightarrow> bool \<Rightarrow> port_error" where
  "port_error code message retryable =
     \<lparr>pe_code = js code, pe_message = js message, pe_retryable = retryable\<rparr>"

definition not_open :: failure where
  "not_open = PortFailure (port_error ''graph_not_open'' ''graph is not open'' False) None"

definition read_only :: failure where
  "read_only = PortFailure (port_error ''read_only'' ''this graph is opened read-only in this tab'' False) None"

fun toPortError :: "failure \<Rightarrow> port_error" where
  "toPortError (PortFailure detail applied) = detail"
| "toPortError (OtherFailure message) =
     \<lparr>pe_code = js ''internal'', pe_message = message, pe_retryable = False\<rparr>"


subsection \<open>Outlines\<close>

definition COLON :: code_unit where
  "COLON = hd (js '':'')"

definition key_parts :: "js_string \<Rightarrow> js_string \<times> js_string" where
  "key_parts key =
     (if COLON \<in> set key
      then (takeWhile (\<lambda>u. u \<noteq> COLON) key, tl (dropWhile (\<lambda>u. u \<noteq> COLON) key))
      else (butlast key, key))"

definition parseOutlineKey :: "js_string \<Rightarrow> graph_snapshot \<Rightarrow> failure + outline_owner" where
  "parseOutlineKey key snapshot =
     (let (kind, ident) = key_parts key
      in if kind \<noteq> js ''document'' \<or> ident = []
         then Inl (OtherFailure (js ''invalid outline key: '' @ key))
         else Inr \<lparr>owner_kind = (if ident \<in> tg_id ` set (gs_tags snapshot) then TagOwner else PageOwner),
                   owner_id = ident\<rparr>)"

fun parse_keys :: "js_string list \<Rightarrow> graph_snapshot \<Rightarrow> failure + outline_owner list" where
  "parse_keys [] snapshot = Inr []"
| "parse_keys (key # keys) snapshot =
     (case parseOutlineKey key snapshot of
        Inl e \<Rightarrow> Inl e
      | Inr owner \<Rightarrow> map_sum (\<lambda>e. e) (\<lambda>owners. owner # owners) (parse_keys keys snapshot))"

definition outlineExists :: "graph_snapshot \<Rightarrow> outline_owner \<Rightarrow> bool" where
  "outlineExists snapshot owner \<longleftrightarrow>
     owner_id owner \<in> pg_id ` set (gs_pages snapshot) \<or> owner_id owner \<in> tg_id ` set (gs_tags snapshot)"

text \<open>\<open>Set.add\<close>: a set of JavaScript in insertion order.\<close>

definition set_add :: "'x \<Rightarrow> 'x list \<Rightarrow> 'x list" where
  "set_add x xs = (if x \<in> set xs then xs else xs @ [x])"


subsection \<open>Reconciling with the core\<close>

datatype reconcile_scope =
    SummaryScope
  | OutlinesScope "outline_owner list" bool
  | AllHydrated

definition subscribe_job :: "('w, 'c, 'q, 'a, 'b) session_port \<Rightarrow> ('w, 'c, subscribe_response) session_job" where
  "subscribe_job port = (\<lambda>st. port_job (\<lambda>handle. sp_subscribe port handle (se_cursor st)) st)"

definition poll_events :: "('w, 'c, 'q, 'a, 'b) session_port \<Rightarrow> ('w, 'c, unit) session_job" where
  "poll_events port =
     catch_job
       (then_job (subscribe_job port)
          (\<lambda>batch. change_job (\<lambda>st. st\<lparr>se_cursor := sr_next_cursor batch\<rparr>)))
       (\<lambda>_. return_job ())"

definition reconcile_summary ::
  "('w, 'c, 'q, 'a, 'b) session_port \<Rightarrow> reconcile_scope \<Rightarrow> ('w, 'c, graph_snapshot) session_job" where
  "reconcile_summary port scope =
     (case scope of
        OutlinesScope owners False \<Rightarrow> read_job se_snapshot
      | _ \<Rightarrow> then_job (port_job (sp_read port))
               (\<lambda>summary. read_job (\<lambda>st. mergeSummary summary (se_snapshot st))))"

definition owners_to_read ::
  "reconcile_scope \<Rightarrow> graph_snapshot \<Rightarrow> js_string list \<Rightarrow> failure + outline_owner list" where
  "owners_to_read scope snapshot hydrated =
     (case scope of
        AllHydrated \<Rightarrow> parse_keys hydrated snapshot
      | OutlinesScope owners summary \<Rightarrow> Inr (filter (\<lambda>owner. outlineOwnerKey owner \<in> set hydrated) owners)
      | SummaryScope \<Rightarrow> Inr [])"

definition reread ::
  "('w, 'c, 'q, 'a, 'b) session_port \<Rightarrow> outline_owner \<Rightarrow> graph_snapshot \<Rightarrow> ('w, 'c, graph_snapshot) session_job" where
  "reread port owner snapshot =
     (if \<not> outlineExists snapshot owner then return_job snapshot
      else then_job (port_job (\<lambda>handle. sp_readOutline port handle owner))
             (\<lambda>outline. return_job (mergeOutline snapshot outline)))"

definition still_hydrated ::
  "graph_snapshot \<Rightarrow> outline_owner list \<Rightarrow> js_string list \<Rightarrow> failure + js_string list" where
  "still_hydrated snapshot ownersToRead hydrated =
     map_sum (\<lambda>e. e)
       (\<lambda>owners. fold (\<lambda>owner keys. if outlineExists snapshot owner then set_add (outlineOwnerKey owner) keys else keys)
          ownersToRead
          (map fst (filter (\<lambda>(key, owner). outlineExists snapshot owner) (zip hydrated owners))))
       (parse_keys hydrated snapshot)"

definition reconcile ::
  "('w, 'c, 'q, 'a, 'b) session_port \<Rightarrow> save_state \<Rightarrow> reconcile_scope \<Rightarrow> bool \<Rightarrow>
   (js_string option \<times> graph_changes) option \<Rightarrow> ('w, 'c, unit) session_job" where
  "reconcile port save scope0 changed0 lastChange0 =
     then_job (read_job se_needsReconcile) (\<lambda>stale.
     let scope = (if stale then AllHydrated else scope0);
         canonicalChanged = (stale \<or> changed0);
         lastChange = (if stale then None else lastChange0)
     in then_job (change_job (\<lambda>st. st\<lparr>se_needsReconcile := True\<rparr>)) (\<lambda>_.
        then_job (poll_events port) (\<lambda>_.
        then_job (reconcile_summary port scope) (\<lambda>merged.
        then_job (read_job se_hydratedOutlines) (\<lambda>hydrated.
        then_job (lift_job (owners_to_read scope merged hydrated)) (\<lambda>owners.
        then_job (fold_job (reread port) owners merged) (\<lambda>snapshot.
        then_job (lift_job (still_hydrated snapshot owners hydrated)) (\<lambda>hydrated'.
        change_job (\<lambda>st. st\<lparr>
          se_needsReconcile := False,
          se_snapshot := snapshot,
          se_hydratedOutlines := hydrated',
          se_save := save,
          se_revision := se_revision st + 1,
          se_canonicalRevision := (if canonicalChanged then se_canonicalRevision st + 1 else se_canonicalRevision st),
          se_lastChange := (if canonicalChanged then lastChange else se_lastChange st)\<rparr>)))))))))"

definition ensureCurrent :: "('w, 'c, 'q, 'a, 'b) session_port \<Rightarrow> ('w, 'c, unit) session_job" where
  "ensureCurrent port =
     then_job (read_job id) (\<lambda>st.
       if se_needsReconcile st then reconcile port (se_save st) AllHydrated True None else return_job ())"

text \<open>Whether the events since the cursor are all local; only then does the cursor move.\<close>

definition consumeLocalEvents :: "('w, 'c, 'q, 'a, 'b) session_port \<Rightarrow> ('w, 'c, bool) session_job" where
  "consumeLocalEvents port =
     catch_job
       (then_job (subscribe_job port)
          (\<lambda>batch. if sr_resync_required batch \<or> RemoteEvent \<in> set (sr_events batch) then return_job False
                   else then_job (change_job (\<lambda>st. st\<lparr>se_cursor := sr_next_cursor batch\<rparr>))
                          (\<lambda>_. return_job True)))
       (\<lambda>_. return_job False)"

definition refresh_scope :: "graph_changes \<Rightarrow> reconcile_scope" where
  "refresh_scope changes =
     (case changes of
        RefreshChanges (Some owners) blocks summary \<Rightarrow> OutlinesScope owners summary
      | _ \<Rightarrow> AllHydrated)"

definition publishChanges ::
  "('w, 'c, 'q, 'a, 'b) session_port \<Rightarrow> graph_changes \<Rightarrow> save_state \<Rightarrow> js_string option \<Rightarrow> ('w, 'c, unit) session_job" where
  "publishChanges port changes save commandId =
     (case changes of
        ContentChanges blocks \<Rightarrow>
          then_job (consumeLocalEvents port) (\<lambda>local_only.
            if local_only
            then change_job (\<lambda>st. st\<lparr>
                   se_snapshot := applyContentUpdates (se_snapshot st) blocks,
                   se_save := save,
                   se_revision := se_revision st + 1,
                   se_canonicalRevision := se_canonicalRevision st + 1,
                   se_lastChange := Some (commandId, changes)\<rparr>)
            else reconcile port save (refresh_scope changes) True None)
      | RefreshChanges owners blocks summary \<Rightarrow>
          reconcile port save (refresh_scope changes) True (Some (commandId, changes)))"


subsection \<open>Commands\<close>

definition wake_agent :: "('w, 'c, unit) session_job" where
  "wake_agent = change_job (\<lambda>st. if se_agent st then st\<lparr>se_wakes := se_wakes st + 1\<rparr> else st)"

text \<open>A channel is made on first use; posting on a closed one throws.\<close>

definition announceSaved :: "('w, 'c, unit) session_job" where
  "announceSaved =
     then_job (change_job (\<lambda>st. if se_announcer st = NoAnnouncer \<and> se_broadcast st
                                then st\<lparr>se_announcer := OpenAnnouncer\<rparr> else st)) (\<lambda>_.
     then_job (read_job se_announcer) (\<lambda>channel.
       case channel of
         NoAnnouncer \<Rightarrow> return_job ()
       | OpenAnnouncer \<Rightarrow> change_job (\<lambda>st. st\<lparr>se_announced := se_announced st + 1\<rparr>)
       | ClosedAnnouncer \<Rightarrow> throw_job (OtherFailure (js ''InvalidStateError''))))"

definition execute_failed ::
  "failure \<Rightarrow> command_result option \<Rightarrow> save_state \<Rightarrow> ('w, 'c, command_result) session_job" where
  "execute_failed error applied appliedSave =
     (case error of
        PortFailure detail (Some result) \<Rightarrow> throw_job error
      | _ \<Rightarrow> then_job (change_job (\<lambda>st. st\<lparr>se_save := appliedSave\<rparr>))
               (\<lambda>_. throw_job (PortFailure (toPortError error) applied)))"

fun applied_save :: "save_status \<Rightarrow> save_state \<Rightarrow> save_state" where
  "applied_save (SavedLocally sequence) stableSave = Saved sequence"
| "applied_save (UnsavedStatus error) stableSave = Unsaved error"
| "applied_save Unchanged stableSave = stableSave"

fun saved_locally :: "save_status \<Rightarrow> bool" where
  "saved_locally (SavedLocally sequence) = True"
| "saved_locally _ = False"

definition publish_response ::
  "('w, 'c, 'q, 'a, 'b) session_port \<Rightarrow> execute_response \<Rightarrow> save_state \<Rightarrow> ('w, 'c, command_result) session_job" where
  "publish_response port response save =
     then_job (publishChanges port (er_changes response) save (Some (cr_command_id (er_result response)))) (\<lambda>_.
     then_job (if saved_locally (er_save_status response)
               then then_job wake_agent (\<lambda>_. announceSaved) else return_job ()) (\<lambda>_.
     return_job (er_result response)))"

definition execute_attempt ::
  "('w, 'c, 'q, 'a, 'b) session_port \<Rightarrow> 'c command \<Rightarrow> save_state \<Rightarrow> ('w, 'c, command_result) session_job" where
  "execute_attempt port command stableSave =
     then_job (settle_job (port_job (\<lambda>handle. sp_execute port handle command))) (\<lambda>answer.
       case answer of
         Inl error \<Rightarrow> execute_failed error None stableSave
       | Inr response \<Rightarrow>
           (if er_save_status response = Unchanged
            then then_job (change_job (\<lambda>st. st\<lparr>se_save := stableSave\<rparr>)) (\<lambda>_. return_job (er_result response))
            else let save = applied_save (er_save_status response) stableSave
                 in catch_job (publish_response port response save)
                      (\<lambda>error. execute_failed error (Some (er_result response)) save)))"

definition executeNow ::
  "('w, 'c, 'q, 'a, 'b) session_port \<Rightarrow> 'c command \<Rightarrow> ('w, 'c, command_result) session_job" where
  "executeNow port command =
     then_job (ensureCurrent port) (\<lambda>_.
     then_job (read_job id) (\<lambda>st.
       if se_status st \<noteq> Ready then throw_job not_open
       else if se_mode st = Readonly then throw_job read_only
       else then_job (change_job (\<lambda>st. st\<lparr>se_save := Saving\<rparr>)) (\<lambda>_. execute_attempt port command (se_save st))))"

text \<open>The prepare callback reads the session and may throw; it may also have nothing to do.\<close>

definition executePrepared ::
  "('w, 'c, 'q, 'a, 'b) session_port \<Rightarrow> (('w, 'c) graph_session \<Rightarrow> failure + 'c command option) \<Rightarrow>
   ('w, 'c, command_result option) session_job" where
  "executePrepared port prepare =
     then_job (ensureCurrent port) (\<lambda>_.
     then_job (read_job prepare) (\<lambda>prepared.
     then_job (lift_job prepared) (\<lambda>command.
       case command of
         None \<Rightarrow> return_job None
       | Some c \<Rightarrow> then_job (executeNow port c) (\<lambda>result. return_job (Some result)))))"

fun is_unsaved :: "save_state \<Rightarrow> bool" where
  "is_unsaved (Unsaved error) = True"
| "is_unsaved _ = False"

definition retryNow :: "('w, 'c, 'q, 'a, 'b) session_port \<Rightarrow> ('w, 'c, unit) session_job" where
  "retryNow port =
     then_job (read_job id) (\<lambda>st.
       if se_status st \<noteq> Ready \<or> \<not> is_unsaved (se_save st) then return_job ()
       else
         then_job (change_job (\<lambda>st. st\<lparr>se_save := Saving\<rparr>)) (\<lambda>_.
         then_job (settle_job (port_job (sp_retryPending port))) (\<lambda>answer.
           case answer of
             Inl error \<Rightarrow> change_job (\<lambda>st. st\<lparr>se_save := Unsaved (toPortError error)\<rparr>)
           | Inr sequence \<Rightarrow>
               catch_job
                 (then_job (reconcile port (Saved sequence) SummaryScope False None) (\<lambda>_. wake_agent))
                 (\<lambda>error. change_job (\<lambda>st. st\<lparr>se_save := Saved sequence\<rparr>)))))"


subsection \<open>Reads\<close>

text \<open>What a query runs against: the request, its result and the revision it was answered at.\<close>

definition queryFrame ::
  "('w, 'c, 'q, 'a, 'b) session_port \<Rightarrow> 'q \<Rightarrow> ('w, 'c, 'q \<times> 'a \<times> nat) session_job" where
  "queryFrame port request =
     then_job (ensureCurrent port) (\<lambda>_.
     then_job (read_job id) (\<lambda>st.
       if se_status st \<noteq> Ready then throw_job not_open
       else then_job (port_job (\<lambda>handle. sp_query port handle request))
              (\<lambda>result. return_job (request, result, se_canonicalRevision st))))"

definition hydrateOutlineNow ::
  "('w, 'c, 'q, 'a, 'b) session_port \<Rightarrow> outline_owner \<Rightarrow> ('w, 'c, unit) session_job" where
  "hydrateOutlineNow port owner =
     then_job (read_job id) (\<lambda>st.
       if se_status st \<noteq> Ready \<or> outlineOwnerKey owner \<in> set (se_hydratedOutlines st) then return_job ()
       else then_job (port_job (\<lambda>handle. sp_readOutline port handle owner)) (\<lambda>outline.
              change_job (\<lambda>st. st\<lparr>
                se_snapshot := mergeOutline (se_snapshot st) outline,
                se_hydratedOutlines := set_add (outlineOwnerKey owner) (se_hydratedOutlines st),
                se_revision := se_revision st + 1\<rparr>)))"

text \<open>\<open>Promise.all\<close> of the reads: they are sent together, and the first failure is thrown.\<close>

fun read_all ::
  "('w, 'c, 'q, 'a, 'b) session_port \<Rightarrow> outline_owner list \<Rightarrow> ('w, 'c, outline_snapshot list) session_job" where
  "read_all port [] = return_job []"
| "read_all port (owner # owners) =
     then_job (settle_job (port_job (\<lambda>handle. sp_readOutline port handle owner))) (\<lambda>answer.
     then_job (settle_job (read_all port owners)) (\<lambda>others.
       case (answer, others) of
         (Inl error, _) \<Rightarrow> throw_job error
       | (Inr outline, Inl error) \<Rightarrow> throw_job error
       | (Inr outline, Inr outlines) \<Rightarrow> return_job (outline # outlines)))"

definition hydrateOutlinesNow ::
  "('w, 'c, 'q, 'a, 'b) session_port \<Rightarrow> outline_owner list \<Rightarrow> ('w, 'c, unit) session_job" where
  "hydrateOutlinesNow port owners =
     then_job (read_job id) (\<lambda>st.
       let missing = filter (\<lambda>owner. outlineExists (se_snapshot st) owner
                       \<and> outlineOwnerKey owner \<notin> set (se_hydratedOutlines st)) owners
       in if se_status st \<noteq> Ready \<or> missing = [] then return_job ()
          else then_job (read_all port missing) (\<lambda>outlines.
                 change_job (\<lambda>st. st\<lparr>
                   se_snapshot := foldl mergeOutline (se_snapshot st) outlines,
                   se_hydratedOutlines := fold (\<lambda>owner. set_add (outlineOwnerKey owner)) missing (se_hydratedOutlines st),
                   se_revision := se_revision st + 1\<rparr>)))"

text \<open>What \<open>hydrateOutlines\<close> enqueues: the last owner of each key, in the order the keys appear.\<close>

definition missing_outlines ::
  "('w, 'c) graph_session \<Rightarrow> outline_owner list \<Rightarrow> outline_owner list" where
  "missing_outlines st owners =
     filter (\<lambda>owner. outlineOwnerKey owner \<notin> set (se_hydratedOutlines st))
       (map snd (fold (\<lambda>owner. AList.update (outlineOwnerKey owner) owner) owners []))"


subsection \<open>Input kept over a reload\<close>

text \<open>\<open>unsaved.ts\<close>: the record of this graph in local storage, which may refuse a write.\<close>

definition keepUnsaved :: "bool \<Rightarrow> 'c kept_edit list \<Rightarrow> ('w, 'c) graph_session \<Rightarrow> ('w, 'c) graph_session" where
  "keepUnsaved writable edits st = (if writable \<or> edits = [] then st\<lparr>se_kept := edits\<rparr> else st)"

definition forgetUnsaved :: "('w, 'c) graph_session \<Rightarrow> ('w, 'c) graph_session" where
  "forgetUnsaved st = keepUnsaved True [] st"

definition keepUnsavedNow ::
  "bool \<Rightarrow> 'c kept_edit list list \<Rightarrow> ('w, 'c) graph_session \<Rightarrow> ('w, 'c) graph_session" where
  "keepUnsavedNow writable sources st =
     (if se_status st \<noteq> Ready \<or> se_mode st \<noteq> Exclusive then st
      else let edits = concat sources
           in (keepUnsaved writable edits st)\<lparr>se_unsavedKept := (edits \<noteq> [])\<rparr>)"

definition visibilityChanged ::
  "bool \<Rightarrow> bool \<Rightarrow> 'c kept_edit list list \<Rightarrow> ('w, 'c) graph_session \<Rightarrow> ('w, 'c) graph_session" where
  "visibilityChanged hidden writable sources st =
     (if hidden then keepUnsavedNow writable sources st
      else if se_unsavedKept st then (forgetUnsaved st)\<lparr>se_unsavedKept := False\<rparr> else st)"

text \<open>The command that brings a block from what the core holds to the kept content, if the block
  still holds one of the contents the editor knew.\<close>

definition resumeContent ::
  "('w, 'c, 'q, 'a, 'b) session_port \<Rightarrow> unsaved_edit \<Rightarrow> ('w, 'c, 'c command option) session_job" where
  "resumeContent port edit =
     then_job (port_job (\<lambda>handle. sp_readOutline port handle (ue_owner edit))) (\<lambda>outline.
       case findBlock (os_blocks outline) (ue_block_id edit) of
         None \<Rightarrow> return_job None
       | Some block \<Rightarrow>
           (if \<exists>base \<in> set (ue_bases edit). sameContent (contentAtoms base) (contentAtoms (bl_content block))
            then (case contentEditCommand (ue_owner edit) (ue_block_id edit) (bl_content block) (ue_content edit) of
                    Inl error \<Rightarrow> throw_job (OtherFailure (js ''RangeError''))
                  | Inr command \<Rightarrow> return_job (map_option ContentCommand command))
            else return_job None))"

definition replay_edit ::
  "('w, 'c, 'q, 'a, 'b) session_port \<Rightarrow> 'c kept_edit \<Rightarrow> ('w, 'c, unit) session_job" where
  "replay_edit port edit =
     catch_job
       (then_job (case edit of KeptCommand command \<Rightarrow> return_job (Some command)
                             | KeptContent content \<Rightarrow> resumeContent port content) (\<lambda>command.
          case command of
            None \<Rightarrow> return_job ()
          | Some c \<Rightarrow> then_job (executeNow port c) (\<lambda>_. return_job ())))
       (\<lambda>_. return_job ())"

definition replay_edits ::
  "('w, 'c, 'q, 'a, 'b) session_port \<Rightarrow> 'c kept_edit list \<Rightarrow> ('w, 'c, unit) session_job" where
  "replay_edits port edits = then_job (each_job (replay_edit port) edits) (\<lambda>_. change_job forgetUnsaved)"

text \<open>The edits \<open>restoreUnsaved\<close> puts on the lane, once.\<close>

definition restoreUnsaved :: "('w, 'c, 'c kept_edit list option) session_job" where
  "restoreUnsaved = (\<lambda>st.
     if se_unsavedRestored st \<or> se_mode st \<noteq> Exclusive then (Inr None, st)
     else (Inr (if se_kept st = [] then None else Some (se_kept st)), st\<lparr>se_unsavedRestored := True\<rparr>))"


subsection \<open>Opening, following and closing\<close>

definition remoteReadonly :: "('w, 'c) graph_session \<Rightarrow> bool" where
  "remoteReadonly st = (case se_remote st of None \<Rightarrow> False | Some remote \<Rightarrow> rm_viewer remote \<or> rm_read_only remote)"

definition accessFor :: "bool \<Rightarrow> lease_mode \<Rightarrow> bool \<Rightarrow> lease_mode \<times> readonly_reason option" where
  "accessFor remote lease hasServerBase =
     (let reason = (if remote then Some ViewerReason else if lease = Readonly then Some LeaseReason
                    else if hasServerBase then None else Some AwaitingBase)
      in (if reason \<noteq> None then Readonly else Exclusive, reason))"

definition set_access :: "lease_mode \<times> readonly_reason option \<Rightarrow> ('w, 'c) graph_session \<Rightarrow> ('w, 'c) graph_session" where
  "set_access access st = st\<lparr>se_mode := fst access, se_readonlyReason := snd access\<rparr>"

definition sync_methods :: "js_string list" where
  "sync_methods = map js [''configureSync'', ''syncState'', ''nextSyncFrame'', ''acknowledgeOutbox'',
     ''importRemote'', ''replaceRemote'', ''encodeSyncMessage'', ''decodeSyncMessage'']"

definition requireSyncPort :: "('w, 'c, 'q, 'a, 'b) session_port \<Rightarrow> ('w, 'c, unit) session_job" where
  "requireSyncPort port =
     (case find (\<lambda>name. \<not> sp_has port name) sync_methods of
        None \<Rightarrow> return_job ()
      | Some name \<Rightarrow> throw_job (OtherFailure (js ''remote graph requires '' @ name)))"

definition openReplica :: "('w, 'c, 'q, 'a, 'b) session_port \<Rightarrow> ('w, 'c, open_response) session_job" where
  "openReplica port =
     then_job (port_job (\<lambda>_. sp_openGraph port)) (\<lambda>opened.
     then_job (change_job (\<lambda>st. st\<lparr>se_handle := or_graph_handle opened, se_cursor := 0\<rparr>)) (\<lambda>_.
     return_job opened))"

definition configureRemote :: "('w, 'c, 'q, 'a, 'b) session_port \<Rightarrow> ('w, 'c, bool) session_job" where
  "configureRemote port =
     then_job (read_job se_remote) (\<lambda>remote.
       if remote = None then return_job True
       else then_job (requireSyncPort port) (\<lambda>_.
            then_job (port_job (sp_configureSync port)) (\<lambda>_.
            port_job (sp_syncState port))))"

definition startWriting :: "('w, 'c, 'q, 'a, 'b) session_port \<Rightarrow> ('w, 'c, 'c kept_edit list option) session_job" where
  "startWriting port =
     then_job restoreUnsaved (\<lambda>replay.
     then_job (read_job se_remote) (\<lambda>remote.
       if remote = None then return_job replay
       else then_job (requireSyncPort port) (\<lambda>_.
            then_job (change_job (\<lambda>st. st\<lparr>se_agent := True\<rparr>)) (\<lambda>_. return_job replay))))"

definition followWriter :: "('w, 'c, unit) session_job" where
  "followWriter = change_job (\<lambda>st. st\<lparr>se_following := True\<rparr>)"

text \<open>The two halves of \<open>closeNow\<close>: at once, and when the queue has drained.\<close>

definition close_request :: "('w, 'c) graph_session \<Rightarrow> ('w, 'c) graph_session" where
  "close_request st = st\<lparr>se_closeRequested := True, se_following := False, se_agent := False,
     se_announcer := (if se_announcer st = NoAnnouncer then NoAnnouncer else ClosedAnnouncer)\<rparr>"

text \<open>\<open>close\<close> is called, or not, while an await of \<open>openNow\<close> is pending.\<close>

definition meanwhile :: "bool \<Rightarrow> ('w, 'c, unit) session_job" where
  "meanwhile closing = change_job (\<lambda>st. if closing then close_request st else st)"

text \<open>\<open>openNow\<close>, given what \<open>acquireLease\<close> answers and whether \<open>close\<close> is called while it waits for the
  lease, for the replica and for the sync state. Its value is the work \<open>restoreUnsaved\<close> puts on the lane.\<close>

definition open_ready ::
  "('w, 'c, 'q, 'a, 'b) session_port \<Rightarrow> lease_mode \<Rightarrow> open_response \<Rightarrow> bool \<Rightarrow> ('w, 'c, 'c kept_edit list option) session_job" where
  "open_ready port mode opened closing =
     then_job (meanwhile closing) (\<lambda>_.
     then_job (configureRemote port) (\<lambda>hasServerBase.
     then_job (change_job (\<lambda>st. set_access (accessFor (remoteReadonly st) mode hasServerBase)
       (st\<lparr>se_status := Ready, se_snapshot := mergeSummary (or_summary opened) (EMPTY_SNAPSHOT (gs_schema_version (se_snapshot st))),
           se_recovery := Some (or_recovery opened)\<rparr>))) (\<lambda>_.
     if mode = Exclusive then startWriting port else then_job followWriter (\<lambda>_. return_job None))))"

definition openNow ::
  "('w, 'c, 'q, 'a, 'b) session_port \<Rightarrow> failure + lease_mode \<Rightarrow> bool \<times> bool \<times> bool \<Rightarrow> ('w, 'c, 'c kept_edit list option) session_job" where
  "openNow port lease closings =
     catch_job
       (then_job (meanwhile (fst closings)) (\<lambda>_.
        then_job (lift_job lease) (\<lambda>mode.
        then_job (change_job (\<lambda>st. st\<lparr>se_lease := Some mode\<rparr>)) (\<lambda>_.
        then_job (read_job se_closeRequested) (\<lambda>closed.
          if closed then return_job None
          else then_job (meanwhile (fst (snd closings))) (\<lambda>_.
               then_job (openReplica port) (\<lambda>opened.
               then_job (read_job se_closeRequested) (\<lambda>closed.
                 if closed then return_job None else open_ready port mode opened (snd (snd closings))))))))))
       (\<lambda>error. then_job (change_job (\<lambda>st. if se_closeRequested st then st
                  else st\<lparr>se_lease := None, se_status := Failed, se_error := Some (toPortError error)\<rparr>))
                (\<lambda>_. return_job None))"

definition reloadNow :: "('w, 'c, 'q, 'a, 'b) session_port \<Rightarrow> ('w, 'c, unit) session_job" where
  "reloadNow port =
     then_job (read_job id) (\<lambda>st.
       if se_closeRequested st \<or> se_status st \<noteq> Ready then return_job ()
       else
         then_job (if sp_has port (js ''releaseGraph'') then port_job (sp_releaseGraph port) else return_job ()) (\<lambda>_.
         then_job (openReplica port) (\<lambda>opened.
         then_job (read_job se_save) (\<lambda>save.
         then_job (reconcile port save AllHydrated True None) (\<lambda>_.
         change_job (\<lambda>st. st\<lparr>se_recovery := Some (or_recovery opened)\<rparr>))))))"

definition takeOverNow ::
  "('w, 'c, 'q, 'a, 'b) session_port \<Rightarrow> lease_mode \<Rightarrow> ('w, 'c, 'c kept_edit list option) session_job" where
  "takeOverNow port mode =
     then_job (read_job se_closeRequested) (\<lambda>closing.
       if closing then return_job None
       else
         then_job (change_job (\<lambda>st. st\<lparr>se_lease := Some mode\<rparr>)) (\<lambda>_.
         then_job (reloadNow port) (\<lambda>_.
         then_job (configureRemote port) (\<lambda>hasServerBase.
         then_job (change_job (\<lambda>st. set_access (accessFor (remoteReadonly st) mode hasServerBase) st)) (\<lambda>_.
         startWriting port)))))"

definition close_finish :: "('w, 'c, 'q, 'a, 'b) session_port \<Rightarrow> ('w, 'c, unit) session_job" where
  "close_finish port =
     then_job (read_job id) (\<lambda>st.
     then_job (if se_handle st \<noteq> [] \<and> \<not> is_unsaved (se_save st) \<and> se_lease st = Some Exclusive
               then catch_job (port_job (sp_closeGraph port)) (\<lambda>_. return_job ()) else return_job ()) (\<lambda>_.
     change_job (\<lambda>st. st\<lparr>se_lease := None, se_status := Closed\<rparr>)))"


subsection \<open>Remote updates\<close>

definition applyRemote :: "('w, 'c, 'q, 'a, 'b) session_port \<Rightarrow> bool \<Rightarrow> 'b \<Rightarrow> ('w, 'c, unit) session_job" where
  "applyRemote port current bytes =
     then_job (read_job id) (\<lambda>st.
       if \<not> current \<or> se_closeRequested st then return_job ()
       else if \<not> sp_has port (js ''importRemote'') then throw_job (OtherFailure (js ''remote import is unavailable''))
       else then_job (port_job (\<lambda>handle. sp_importRemote port handle bytes)) (\<lambda>receipt.
            then_job (read_job se_save) (\<lambda>save.
            then_job (publishChanges port (rr_changes receipt) save None) (\<lambda>_.
            announceSaved))))"

definition replaceRemote ::
  "('w, 'c, 'q, 'a, 'b) session_port \<Rightarrow> bool \<Rightarrow> 'b checkpoint \<Rightarrow> ('w, 'c, 'c kept_edit list option) session_job" where
  "replaceRemote port current checkpoint =
     then_job (read_job id) (\<lambda>st.
       if \<not> current \<or> se_closeRequested st then return_job None
       else if \<not> sp_has port (js ''replaceRemote'')
       then throw_job (OtherFailure (js ''remote history replacement is unavailable''))
       else then_job (port_job (\<lambda>handle. sp_replaceRemote port handle checkpoint)) (\<lambda>_.
            then_job (read_job se_save) (\<lambda>save.
            then_job (reconcile port save AllHydrated True None) (\<lambda>_.
            then_job (change_job (\<lambda>st. set_access (accessFor (remoteReadonly st)
                        (case se_lease st of Some mode \<Rightarrow> mode | None \<Rightarrow> Readonly) True) st)) (\<lambda>_.
            then_job announceSaved (\<lambda>_. restoreUnsaved))))))"

end
