(* ===== verification/Session_Coherence.thy ===== *)
theory Session_Coherence
  imports Graph_Session
begin

text \<open>
  What a session shows is what the core holds. The core is known by its view: the summary of
  the graph and the outline of every document. \<open>port_laws\<close> says what the answers of the core
  mean (\<open>generated/core-port.ts\<close> and the comments of \<open>session.ts\<close>): reads answer with the view
  and leave it, a refused request leaves it, and the changes a command reports cover the
  difference between the view before and after it.
\<close>

subsection \<open>The core's view\<close>

record core_view =
  cv_summary :: graph_summary
  cv_outline :: "js_string \<Rightarrow> block_snapshot list"

definition listed :: "graph_summary \<Rightarrow> js_string \<Rightarrow> bool" where
  "listed summary ident \<longleftrightarrow> ident \<in> ps_id ` set (gm_pages summary) \<union> ts_id ` set (gm_tags summary)"

definition retitle :: "graph_summary \<Rightarrow> block_snapshot list \<Rightarrow> block_snapshot list" where
  "retitle summary blocks = map (rematerializeBlock (pageDirectoryIndex (gm_page_directory summary))) blocks"

text \<open>Ids are not empty, no page and tag share one, and outlines show the directory's titles.\<close>

definition view_ok :: "core_view \<Rightarrow> bool" where
  "view_ok v \<longleftrightarrow>
     ps_id ` set (gm_pages (cv_summary v)) \<inter> ts_id ` set (gm_tags (cv_summary v)) = {}
   \<and> \<not> listed (cv_summary v) []
   \<and> (\<forall>ident. retitle (cv_summary v) (cv_outline v ident) = cv_outline v ident)"

definition changes_ok :: "graph_changes \<Rightarrow> core_view \<Rightarrow> core_view \<Rightarrow> bool" where
  "changes_ok changes v v' =
     (case changes of
        ContentChanges updates \<Rightarrow>
          cv_summary v' = cv_summary v
        \<and> (\<forall>ident. listed (cv_summary v) ident \<longrightarrow>
             cv_outline v' ident = map (patch_block (latest_update updates ident)) (cv_outline v ident))
      | RefreshChanges None updates summary \<Rightarrow> True
      | RefreshChanges (Some owners) updates summary \<Rightarrow>
          (summary \<or> cv_summary v' = cv_summary v)
        \<and> (\<forall>ident. ident \<notin> owner_id ` set owners \<longrightarrow> listed (cv_summary v) ident \<longrightarrow> listed (cv_summary v') ident \<longrightarrow>
             cv_outline v' ident =
               (if summary then retitle (cv_summary v') (cv_outline v ident) else cv_outline v ident)))"

definition quiet :: "('w \<Rightarrow> core_view) \<Rightarrow> ('w \<Rightarrow> (failure + 'x) \<times> 'w) \<Rightarrow> bool" where
  "quiet view request \<longleftrightarrow> (\<forall>w. view (snd (request w)) = view w)"

definition port_laws :: "('w, 'c, 'q, 'a, 'b) session_port \<Rightarrow> ('w \<Rightarrow> core_view) \<Rightarrow> bool" where
  "port_laws port view \<longleftrightarrow>
     (\<forall>w. view_ok (view w))
   \<and> (\<forall>handle. quiet view (sp_read port handle) \<and> quiet view (sp_releaseGraph port handle)
        \<and> quiet view (sp_closeGraph port handle) \<and> quiet view (sp_retryPending port handle)
        \<and> quiet view (sp_configureSync port handle) \<and> quiet view (sp_syncState port handle))
   \<and> (\<forall>handle owner. quiet view (sp_readOutline port handle owner))
   \<and> (\<forall>handle cursor. quiet view (sp_subscribe port handle cursor))
   \<and> (\<forall>handle request. quiet view (sp_query port handle request))
   \<and> (\<forall>handle w summary. fst (sp_read port handle w) = Inr summary \<longrightarrow> summary = cv_summary (view w))
   \<and> (\<forall>handle owner w outline. fst (sp_readOutline port handle owner w) = Inr outline \<longrightarrow>
        listed (cv_summary (view w)) (owner_id owner) \<and> owner_id (os_owner outline) = owner_id owner
        \<and> os_blocks outline = cv_outline (view w) (owner_id owner))
   \<and> (\<forall>w error w'. sp_openGraph port w = (Inl error, w') \<longrightarrow> view w' = view w)
   \<and> (\<forall>w opened w'. sp_openGraph port w = (Inr opened, w') \<longrightarrow> or_summary opened = cv_summary (view w'))
   \<and> (\<forall>handle command w error w'. sp_execute port handle command w = (Inl error, w') \<longrightarrow> view w' = view w)
   \<and> (\<forall>handle command w response w'. sp_execute port handle command w = (Inr response, w') \<longrightarrow>
        (if er_save_status response = Unchanged then view w' = view w
         else changes_ok (er_changes response) (view w) (view w')))
   \<and> (\<forall>handle bytes w error w'. sp_importRemote port handle bytes w = (Inl error, w') \<longrightarrow> view w' = view w)
   \<and> (\<forall>handle bytes w receipt w'. sp_importRemote port handle bytes w = (Inr receipt, w') \<longrightarrow>
        changes_ok (rr_changes receipt) (view w) (view w'))
   \<and> (\<forall>handle checkpoint w error w'. sp_replaceRemote port handle checkpoint w = (Inl error, w') \<longrightarrow> view w' = view w)"

lemma port_lawsD:
  assumes "port_laws port view"
  shows "view_ok (view w)"
    and "view (snd (sp_read port handle w)) = view w"
    and "view (snd (sp_releaseGraph port handle w)) = view w"
    and "view (snd (sp_closeGraph port handle w)) = view w"
    and "view (snd (sp_retryPending port handle w)) = view w"
    and "view (snd (sp_configureSync port handle w)) = view w"
    and "view (snd (sp_syncState port handle w)) = view w"
    and "view (snd (sp_readOutline port handle owner w)) = view w"
    and "view (snd (sp_subscribe port handle cursor w)) = view w"
    and "view (snd (sp_query port handle request w)) = view w"
    and "fst (sp_read port handle w) = Inr summary \<Longrightarrow> summary = cv_summary (view w)"
    and "fst (sp_readOutline port handle owner w) = Inr outline \<Longrightarrow>
        listed (cv_summary (view w)) (owner_id owner) \<and> owner_id (os_owner outline) = owner_id owner
        \<and> os_blocks outline = cv_outline (view w) (owner_id owner)"
    and "sp_openGraph port w = (Inl error, w') \<Longrightarrow> view w' = view w"
    and "sp_openGraph port w = (Inr opened, w') \<Longrightarrow> or_summary opened = cv_summary (view w')"
    and "sp_execute port handle command w = (Inl error, w') \<Longrightarrow> view w' = view w"
    and "sp_execute port handle command w = (Inr response, w') \<Longrightarrow> er_save_status response = Unchanged \<Longrightarrow> view w' = view w"
    and "sp_execute port handle command w = (Inr response, w') \<Longrightarrow> er_save_status response \<noteq> Unchanged \<Longrightarrow>
        changes_ok (er_changes response) (view w) (view w')"
    and "sp_importRemote port handle bytes w = (Inl error, w') \<Longrightarrow> view w' = view w"
    and "sp_importRemote port handle bytes w = (Inr receipt, w') \<Longrightarrow> changes_ok (rr_changes receipt) (view w) (view w')"
    and "sp_replaceRemote port handle checkpoint w = (Inl error, w') \<Longrightarrow> view w' = view w"
  using assms unfolding port_laws_def quiet_def by - (blast | metis)+


subsection \<open>The snapshot as a summary and outlines\<close>

definition doc :: "js_string \<Rightarrow> outline_owner" where
  "doc ident = \<lparr>owner_kind = PageOwner, owner_id = ident\<rparr>"

definition doc_key :: "js_string \<Rightarrow> js_string" where
  "doc_key ident = js ''document:'' @ ident"

definition summary_of :: "graph_snapshot \<Rightarrow> graph_summary" where
  "summary_of snapshot = \<lparr>gm_schema_version = gs_schema_version snapshot, gm_graph_id = gs_graph_id snapshot,
     gm_pages = map (\<lambda>page. \<lparr>ps_id = pg_id page, ps_title = pg_title page,
        ps_properties = pg_properties page, ps_tags = pg_tags page\<rparr>) (gs_pages snapshot),
     gm_page_directory = gs_page_directory snapshot,
     gm_tags = map (\<lambda>tag. \<lparr>ts_id = tg_id tag, ts_name = tg_name tag,
        ts_properties = tg_properties tag, ts_defaults = tg_defaults tag\<rparr>) (gs_tags snapshot),
     gm_settings = gs_settings snapshot, gm_conflicts = gs_conflicts snapshot,
     gm_quarantined = gs_quarantined snapshot\<rparr>"

lemma doc_id [simp]: "owner_id (doc ident) = ident"
  by (simp add: doc_def)

lemma outlineOwnerKey_doc: "outlineOwnerKey owner = doc_key (owner_id owner)"
  by (simp add: outlineOwnerKey_def doc_key_def)

lemma doc_key_inject [simp]: "doc_key a = doc_key b \<longleftrightarrow> a = b"
  by (simp add: doc_key_def)

lemma findOutline_doc: "findOutline snapshot owner = findOutline snapshot (doc (owner_id owner))"
  by (simp add: findOutline_def cong: option.case_cong)

lemma summary_eta:
  "\<lparr>ps_id = ps_id page, ps_title = ps_title page, ps_properties = ps_properties page, ps_tags = ps_tags page\<rparr> = page"
  "\<lparr>ts_id = ts_id tag, ts_name = ts_name tag, ts_properties = ts_properties tag, ts_defaults = ts_defaults tag\<rparr> = tag"
  by simp_all

lemma summary_of_mergeSummary [simp]: "summary_of (mergeSummary summary current) = summary"
  by (simp only: summary_of_def mergeSummary_def Let_def graph_snapshot.simps map_map comp_def
      page_snapshot.simps tag_snapshot.simps summary_eta) simp

lemma summary_of_mergeOutline [simp]: "summary_of (mergeOutline snapshot outline) = summary_of snapshot"
  by (simp add: summary_of_def mergeOutline_eq comp_def set_page_blocks_def set_tag_blocks_def if_distrib cong: if_cong)

lemma summary_of_updates [simp]: "summary_of (applyContentUpdates snapshot updates) = summary_of snapshot"
  by (simp add: summary_of_def applyContentUpdates_eq comp_def)

lemma listed_snapshot:
  "listed (summary_of snapshot) ident \<longleftrightarrow> ident \<in> pg_id ` set (gs_pages snapshot) \<union> tg_id ` set (gs_tags snapshot)"
  by (simp add: listed_def summary_of_def image_image)

lemma listed_summary_of: "listed (summary_of snapshot) ident \<longleftrightarrow> findOutline snapshot (doc ident) \<noteq> None"
  by (auto simp: listed_snapshot findOutline_def findPage_def findTag_def byId_None simp flip: not_None_eq
      split: option.split)

lemma outlineExists_listed: "outlineExists snapshot owner \<longleftrightarrow> listed (summary_of snapshot) (owner_id owner)"
  by (auto simp: outlineExists_def listed_snapshot)

lemma key_parts_doc: "key_parts (doc_key ident) = (js ''document'', ident)"
  by (simp add: key_parts_def doc_key_def COLON_def js_def)

lemma parse_doc_key:
  "ident \<noteq> [] \<Longrightarrow> \<exists>owner. parseOutlineKey (doc_key ident) snapshot = Inr owner \<and> owner_id owner = ident"
  by (simp add: parseOutlineKey_def key_parts_doc)

lemma parse_doc_keys:
  assumes "\<forall>key \<in> set keys. \<exists>ident. ident \<noteq> [] \<and> key = doc_key ident"
  shows "\<exists>owners. parse_keys keys snapshot = Inr owners \<and> map outlineOwnerKey owners = keys"
  using assms
proof (induction keys)
  case (Cons key keys)
  then obtain ident owners where "ident \<noteq> []" "key = doc_key ident" "parse_keys keys snapshot = Inr owners"
      "map outlineOwnerKey owners = keys" by auto
  moreover obtain owner where "parseOutlineKey (doc_key ident) snapshot = Inr owner" "owner_id owner = ident"
    using parse_doc_key [OF \<open>ident \<noteq> []\<close>] by blast
  ultimately show ?case by (auto simp: outlineOwnerKey_doc [of owner])
qed simp

lemma set_set_add [simp]: "set (set_add x xs) = insert x (set xs)"
  by (auto simp: set_add_def)

lemma fold_still:
  "set (fold (\<lambda>owner keys. if outlineExists snapshot owner then set_add (outlineOwnerKey owner) keys else keys) owners keys)
     = set keys \<union> {outlineOwnerKey owner | owner. owner \<in> set owners \<and> outlineExists snapshot owner}"
  by (induction owners arbitrary: keys) auto

lemma zip_filter_keys:
  "map fst (filter (\<lambda>(key, owner). P owner) (zip (map f owners) owners)) = map f (filter P owners)"
  by (induction owners) auto


subsection \<open>A session that shows the core\<close>

definition keys_ok :: "('w, 'c) graph_session \<Rightarrow> bool" where
  "keys_ok st \<longleftrightarrow> (\<forall>key \<in> set (se_hydratedOutlines st). \<exists>ident. ident \<noteq> [] \<and> key = doc_key ident)
     \<and> pg_id ` set (gs_pages (se_snapshot st)) \<inter> tg_id ` set (gs_tags (se_snapshot st)) = {}"

definition mirrors :: "core_view \<Rightarrow> graph_snapshot \<Rightarrow> js_string list \<Rightarrow> bool" where
  "mirrors v snapshot hydrated \<longleftrightarrow> summary_of snapshot = cv_summary v
     \<and> (\<forall>ident. doc_key ident \<in> set hydrated \<longrightarrow> findOutline snapshot (doc ident) = Some (cv_outline v ident))"

text \<open>What a re-read of some scope needs to know: outside it, the snapshot shows the core.\<close>

definition scope_ok :: "core_view \<Rightarrow> reconcile_scope \<Rightarrow> graph_snapshot \<Rightarrow> js_string list \<Rightarrow> bool" where
  "scope_ok v scope snapshot hydrated =
     (case scope of
        AllHydrated \<Rightarrow> True
      | SummaryScope \<Rightarrow> mirrors v snapshot hydrated
      | OutlinesScope owners summary \<Rightarrow>
          (summary \<or> summary_of snapshot = cv_summary v)
        \<and> (\<forall>ident. doc_key ident \<in> set hydrated \<longrightarrow> ident \<notin> owner_id ` set owners \<longrightarrow> listed (cv_summary v) ident \<longrightarrow>
             (\<exists>blocks. findOutline snapshot (doc ident) = Some blocks
               \<and> cv_outline v ident = (if summary then retitle (cv_summary v) blocks else blocks))))"

lemma scope_all [simp]: "scope_ok v AllHydrated snapshot hydrated"
  by (simp add: scope_ok_def)

lemma wp_port [wp_rules]:
  "wp (port_job request) Q st =
     Q (fst (request (se_handle st) (se_core st))) (st\<lparr>se_core := snd (request (se_handle st) (se_core st))\<rparr>)"
  by (simp add: wp_def port_job_def split: prod.split)

lemma wp_lift [wp_rules]: "wp (lift_job result) Q st = Q result st"
  by (simp add: lift_job_def wp_rules split: sum.split)

lemma wp_subscribe [wp_rules]:
  "wp (subscribe_job port) Q st = wp (port_job (\<lambda>handle. sp_subscribe port handle (se_cursor st))) Q st"
  by (simp add: wp_def subscribe_job_def)

lemma poll_events_wp:
  assumes "port_laws port view"
  shows "wp (poll_events port) (\<lambda>r st'. r = Inr () \<and>
     (\<exists>w cursor. view w = view (se_core st) \<and> st' = st\<lparr>se_core := w, se_cursor := cursor\<rparr>)) st"
proof -
  let ?answer = "sp_subscribe port (se_handle st) (se_cursor st) (se_core st)"
  have same: "st\<lparr>se_core := w\<rparr> = st\<lparr>se_core := w, se_cursor := se_cursor st\<rparr>" for w
    by (cases st) simp
  have "view (snd ?answer) = view (se_core st)" by (rule port_lawsD(9) [OF assms])
  then show ?thesis
  proof (cases "fst ?answer")
    case (Inl e)
    with \<open>view (snd ?answer) = view (se_core st)\<close> show ?thesis
      by (simp add: poll_events_def wp_rules) (intro exI conjI, assumption, rule same)
  next
    case (Inr batch)
    with \<open>view (snd ?answer) = view (se_core st)\<close> show ?thesis
      by (simp add: poll_events_def wp_rules) (intro exI conjI, assumption, rule refl)
  qed
qed

lemma reconcile_summary_wp:
  assumes "port_laws port view"
  shows "wp (reconcile_summary port scope) (\<lambda>r st'. \<exists>w. view w = view (se_core st) \<and> st' = st\<lparr>se_core := w\<rparr>
     \<and> (\<forall>merged. r = Inr merged \<longrightarrow> merged =
          (if \<exists>owners. scope = OutlinesScope owners False then se_snapshot st
           else mergeSummary (cv_summary (view (se_core st))) (se_snapshot st)))) st"
proof (cases "\<exists>owners. scope = OutlinesScope owners False")
  case True
  then show ?thesis by (auto simp: reconcile_summary_def wp_rules intro!: exI [of _ "se_core st"])
next
  case False
  then have "reconcile_summary port scope = then_job (port_job (sp_read port))
       (\<lambda>summary. read_job (\<lambda>st. mergeSummary summary (se_snapshot st)))"
    by (auto simp: reconcile_summary_def split: reconcile_scope.split bool.split)
  then show ?thesis using False
    by (auto simp: wp_rules port_lawsD(2) [OF assms] split: sum.split
        dest: port_lawsD(11) [OF assms] intro!: exI [of _ "snd (sp_read port (se_handle st) (se_core st))"])
qed

text \<open>After the re-reads, the documents read show the core and the others what they did.\<close>

definition reread_result :: "core_view \<Rightarrow> js_string set \<Rightarrow> graph_snapshot \<Rightarrow> graph_snapshot \<Rightarrow> bool" where
  "reread_result v idents merged snapshot \<longleftrightarrow> summary_of snapshot = summary_of merged
     \<and> (\<forall>ident. findOutline snapshot (doc ident) =
          (if ident \<in> idents \<and> findOutline merged (doc ident) \<noteq> None then Some (cv_outline v ident)
           else findOutline merged (doc ident)))"

lemma reread_wp:
  assumes "port_laws port view"
  shows "wp (reread port owner merged) (\<lambda>r st'. \<exists>w. view w = view (se_core st) \<and> st' = st\<lparr>se_core := w\<rparr>
     \<and> (\<forall>snapshot. r = Inr snapshot \<longrightarrow> reread_result (view (se_core st)) {owner_id owner} merged snapshot)) st"
proof (cases "outlineExists merged owner")
  case False
  then have "findOutline merged (doc (owner_id owner)) = None"
    by (simp add: outlineExists_listed listed_summary_of)
  then show ?thesis using False
    by (auto simp: reread_def wp_rules reread_result_def intro!: exI [of _ "se_core st"])
next
  case True
  let ?answer = "sp_readOutline port (se_handle st) owner (se_core st)"
  have "reread_result (view (se_core st)) {owner_id owner} merged (mergeOutline merged outline)"
    if "fst ?answer = Inr outline" for outline
    using port_lawsD(12) [OF assms that] True
    by (auto simp: reread_result_def findOutline_merge)
  then show ?thesis using True
    by (auto simp: reread_def wp_rules port_lawsD(8) [OF assms] split: sum.split intro!: exI [of _ "snd ?answer"])
qed

lemma rereads_wp:
  assumes "port_laws port view"
  shows "wp (fold_job (reread port) owners merged) (\<lambda>r st'. \<exists>w. view w = view (se_core st) \<and> st' = st\<lparr>se_core := w\<rparr>
     \<and> (\<forall>snapshot. r = Inr snapshot \<longrightarrow> reread_result (view (se_core st)) (owner_id ` set owners) merged snapshot)) st"
proof (induction owners arbitrary: merged st)
  case Nil
  show ?case by (auto simp: wp_rules reread_result_def intro!: exI [of _ "se_core st"])
next
  case (Cons owner owners)
  show ?case unfolding fold_job.simps wp_then
  proof (rule wp_mono [OF reread_wp [OF assms]], clarify)
    fix r w
    assume w: "view w = view (se_core st)"
      and step: "\<forall>snapshot. r = Inr snapshot \<longrightarrow> reread_result (view (se_core st)) {owner_id owner} merged snapshot"
    show "case r of Inl e \<Rightarrow> \<exists>w'. view w' = view (se_core st) \<and> st\<lparr>se_core := w\<rparr> = st\<lparr>se_core := w'\<rparr>
            \<and> (\<forall>snapshot. Inl e = Inr snapshot \<longrightarrow> reread_result (view (se_core st)) (owner_id ` set (owner # owners)) merged snapshot)
        | Inr snapshot \<Rightarrow> wp (fold_job (reread port) owners snapshot)
            (\<lambda>r st'. \<exists>w. view w = view (se_core st) \<and> st' = st\<lparr>se_core := w\<rparr>
               \<and> (\<forall>snapshot. r = Inr snapshot \<longrightarrow> reread_result (view (se_core st)) (owner_id ` set (owner # owners)) merged snapshot))
            (st\<lparr>se_core := w\<rparr>)"
    proof (cases r)
      case (Inl e)
      then show ?thesis using w by auto
    next
      case (Inr snapshot)
      then have one: "reread_result (view (se_core st)) {owner_id owner} merged snapshot" using step by simp
      have more: "reread_result (view (se_core st)) (owner_id ` set (owner # owners)) merged s'"
        if "reread_result (view (se_core st)) (owner_id ` set owners) snapshot s'" for s'
        using one that by (auto simp: reread_result_def)
      show ?thesis unfolding Inr sum.case
        by (rule wp_mono [OF Cons.IH]) (use w more in auto)
    qed
  qed
qed

text \<open>What a job keeps of the session while it reconciles.\<close>

definition kept_fields :: "('w, 'c) graph_session \<Rightarrow> ('w, 'c) graph_session \<Rightarrow> bool" where
  "kept_fields st st' \<longleftrightarrow> se_status st' = se_status st \<and> se_mode st' = se_mode st \<and> se_lease st' = se_lease st
     \<and> se_announcer st' = se_announcer st \<and> se_broadcast st' = se_broadcast st \<and> se_handle st' = se_handle st
     \<and> se_remote st' = se_remote st \<and> se_closeRequested st' = se_closeRequested st"

lemma owners_to_read_hydrated:
  assumes "\<forall>key \<in> set hydrated. \<exists>ident. ident \<noteq> [] \<and> key = doc_key ident"
  obtains owners where "owners_to_read scope merged hydrated = Inr owners"
    and "\<forall>owner \<in> set owners. outlineOwnerKey owner \<in> set hydrated"
    and "scope = AllHydrated \<longrightarrow> (\<forall>ident. doc_key ident \<in> set hydrated \<longrightarrow> ident \<in> owner_id ` set owners)"
    and "\<forall>wanted summary ident. scope = OutlinesScope wanted summary \<longrightarrow> doc_key ident \<in> set hydrated \<longrightarrow>
           ident \<in> owner_id ` set wanted \<longrightarrow> ident \<in> owner_id ` set owners"
proof (cases scope)
  case AllHydrated
  obtain owners where "parse_keys hydrated merged = Inr owners" and keys: "map outlineOwnerKey owners = hydrated"
    using parse_doc_keys [OF assms] by blast
  moreover have "ident \<in> owner_id ` set owners" if "doc_key ident \<in> set hydrated" for ident
    using that unfolding keys [symmetric] by (auto simp: outlineOwnerKey_doc)
  ultimately show ?thesis using that [of owners] AllHydrated keys by (auto simp: owners_to_read_def)
qed (use that in \<open>auto simp: owners_to_read_def outlineOwnerKey_doc\<close>)

lemma still_hydrated_keys:
  assumes "\<forall>key \<in> set hydrated. \<exists>ident. ident \<noteq> [] \<and> key = doc_key ident"
    and "\<forall>owner \<in> set owners. outlineOwnerKey owner \<in> set hydrated"
  obtains keys where "still_hydrated snapshot owners hydrated = Inr keys"
    and "\<forall>ident. doc_key ident \<in> set keys \<longleftrightarrow> doc_key ident \<in> set hydrated \<and> listed (summary_of snapshot) ident"
    and "set keys \<subseteq> set hydrated"
proof -
  obtain parsed where parsed: "parse_keys hydrated snapshot = Inr parsed" and keys: "map outlineOwnerKey parsed = hydrated"
    using parse_doc_keys [OF assms(1)] by blast
  let ?keys = "fold (\<lambda>owner keys. if outlineExists snapshot owner then set_add (outlineOwnerKey owner) keys else keys)
      owners (map outlineOwnerKey (filter (outlineExists snapshot) parsed))"
  have still: "still_hydrated snapshot owners hydrated = Inr ?keys"
    using parsed by (simp add: still_hydrated_def zip_filter_keys flip: keys)
  have set_keys: "set ?keys = outlineOwnerKey ` {owner \<in> set parsed. outlineExists snapshot owner}
      \<union> {outlineOwnerKey owner | owner. owner \<in> set owners \<and> outlineExists snapshot owner}"
    unfolding fold_still by simp
  have hydrated: "set hydrated = outlineOwnerKey ` set parsed" unfolding keys [symmetric] by simp
  have "\<forall>ident. doc_key ident \<in> set ?keys \<longleftrightarrow> doc_key ident \<in> set hydrated \<and> listed (summary_of snapshot) ident"
    using assms(2) unfolding set_keys hydrated by (auto simp: outlineOwnerKey_doc outlineExists_listed)
  moreover have "set ?keys \<subseteq> set hydrated"
    using assms(2) unfolding set_keys hydrated by auto
  ultimately show ?thesis by (rule that [OF still])
qed

text \<open>After the re-reads of a scope that covers the difference, the snapshot shows the core.\<close>

lemma reread_mirrors:
  assumes v: "view_ok v" and scope: "scope_ok v scope snapshot hydrated"
    and disjoint: "pg_id ` set (gs_pages snapshot) \<inter> tg_id ` set (gs_tags snapshot) = {}"
    and merged: "merged = (if \<exists>owners. scope = OutlinesScope owners False then snapshot else mergeSummary (cv_summary v) snapshot)"
    and all: "scope = AllHydrated \<longrightarrow> (\<forall>ident. doc_key ident \<in> set hydrated \<longrightarrow> ident \<in> idents)"
    and some: "\<forall>wanted summary ident. scope = OutlinesScope wanted summary \<longrightarrow> doc_key ident \<in> set hydrated \<longrightarrow>
           ident \<in> owner_id ` set wanted \<longrightarrow> ident \<in> idents"
    and result: "reread_result v idents merged snapshot'"
    and keys: "\<forall>ident. doc_key ident \<in> set keys \<longleftrightarrow> doc_key ident \<in> set hydrated \<and> listed (summary_of snapshot') ident"
  shows "mirrors v snapshot' keys"
proof -
  have sum: "summary_of merged = cv_summary v"
    using scope merged by (auto simp: scope_ok_def split: reconcile_scope.splits if_splits)
  then have sum': "summary_of snapshot' = cv_summary v" using result by (simp add: reread_result_def)
  have "findOutline snapshot' (doc ident) = Some (cv_outline v ident)" if "doc_key ident \<in> set keys" for ident
  proof -
    have hyd: "doc_key ident \<in> set hydrated" and lst: "listed (cv_summary v) ident"
      using that keys sum' by auto
    then have found: "findOutline merged (doc ident) \<noteq> None" using sum listed_summary_of by metis
    show ?thesis
    proof (cases "ident \<in> idents")
      case True
      then show ?thesis using result found by (simp add: reread_result_def)
    next
      case False
      then have out: "findOutline snapshot' (doc ident) = findOutline merged (doc ident)"
        using result by (simp add: reread_result_def)
      have titles: "retitle (cv_summary v) (cv_outline v ident) = cv_outline v ident"
        using v by (simp add: view_ok_def)
      have full: "findOutline (mergeSummary (cv_summary v) snapshot) (doc ident) =
          Some (case findOutline snapshot (doc ident) of None \<Rightarrow> [] | Some blocks \<Rightarrow> retitle (cv_summary v) blocks)"
        using findOutline_summary [OF disjoint, of "cv_summary v" "doc ident"] lst
        by (cases "findOutline snapshot (doc ident)") (simp_all add: listed_def retitle_def)
      show ?thesis
      proof (cases scope)
        case SummaryScope
        then have "findOutline snapshot (doc ident) = Some (cv_outline v ident)"
          using scope hyd by (simp add: scope_ok_def mirrors_def)
        then show ?thesis using SummaryScope out merged full titles by simp
      next
        case (OutlinesScope wanted summary)
        then have "ident \<notin> owner_id ` set wanted" using some hyd False by blast
        then obtain blocks where "findOutline snapshot (doc ident) = Some blocks"
            and "cv_outline v ident = (if summary then retitle (cv_summary v) blocks else blocks)"
          using scope OutlinesScope hyd lst by (auto simp: scope_ok_def)
        then show ?thesis using OutlinesScope out merged full by (cases summary) simp_all
      next
        case AllHydrated
        then show ?thesis using all hyd False by blast
      qed
    qed
  qed
  then show ?thesis using sum' by (simp add: mirrors_def)
qed

definition reconciled ::
  "('w \<Rightarrow> core_view) \<Rightarrow> save_state \<Rightarrow> bool \<Rightarrow> ('w, 'c) graph_session \<Rightarrow> failure + unit \<Rightarrow> ('w, 'c) graph_session \<Rightarrow> bool" where
  "reconciled view save canonicalChanged st r st' \<longleftrightarrow>
     view (se_core st') = view (se_core st) \<and> keys_ok st' \<and> kept_fields st st' \<and>
     (case r of
        Inl error \<Rightarrow> se_needsReconcile st' \<and> se_snapshot st' = se_snapshot st \<and> se_save st' = se_save st
          \<and> se_canonicalRevision st' = se_canonicalRevision st
      | Inr _ \<Rightarrow> \<not> se_needsReconcile st' \<and> mirrors (view (se_core st')) (se_snapshot st') (se_hydratedOutlines st')
          \<and> se_save st' = save
          \<and> se_canonicalRevision st' = se_canonicalRevision st + (if se_needsReconcile st \<or> canonicalChanged then 1 else 0))"

lemma mirrors_disjoint:
  assumes "view_ok v" and "mirrors v snapshot keys"
  shows "pg_id ` set (gs_pages snapshot) \<inter> tg_id ` set (gs_tags snapshot) = {}"
proof -
  have "ps_id ` set (gm_pages (summary_of snapshot)) \<inter> ts_id ` set (gm_tags (summary_of snapshot)) = {}"
    using assms by (simp add: view_ok_def mirrors_def)
  then show ?thesis by (simp add: summary_of_def image_image)
qed

lemma reconcile_wp:
  assumes laws: "port_laws port view" and ok: "keys_ok st"
    and scope: "se_needsReconcile st \<or> scope_ok (view (se_core st)) scope (se_snapshot st) (se_hydratedOutlines st)"
  shows "wp (reconcile port save scope changed lastChange) (reconciled view save changed st) st"
proof -
  define sc where "sc = (if se_needsReconcile st then AllHydrated else scope)"
  let ?hyd = "se_hydratedOutlines st" and ?v = "view (se_core st)"
  let ?at = "\<lambda>st'. view (se_core st') = ?v \<and>
      st' = st\<lparr>se_needsReconcile := True, se_core := se_core st', se_cursor := se_cursor st'\<rparr>"
  have keys: "\<forall>key \<in> set ?hyd. \<exists>ident. ident \<noteq> [] \<and> key = doc_key ident"
    and disjoint: "pg_id ` set (gs_pages (se_snapshot st)) \<inter> tg_id ` set (gs_tags (se_snapshot st)) = {}"
    using ok by (simp_all add: keys_ok_def)
  have v: "view_ok ?v" by (rule port_lawsD(1) [OF laws])
  have sc_ok: "scope_ok ?v sc (se_snapshot st) ?hyd" using scope by (auto simp: sc_def scope_all)
  have failed: "reconciled view save changed st (Inl e) st'" if at: "?at st'" for st' e
  proof -
    obtain w c where "view w = ?v" "st' = st\<lparr>se_needsReconcile := True, se_core := w, se_cursor := c\<rparr>"
      using at by blast
    then show ?thesis using ok by (simp add: reconciled_def keys_ok_def kept_fields_def)
  qed
  show ?thesis unfolding reconcile_def wp_then [of "read_job se_needsReconcile"] wp_read sum.case Let_def sc_def [symmetric]
    unfolding wp_then [of "change_job f" for f] wp_change sum.case
  proof (rule wp_step [where P = "\<lambda>r st'. \<exists>u. r = Inr u \<and> ?at st'"])
    show "wp (poll_events port) (\<lambda>r st'. \<exists>u. r = Inr u \<and> ?at st') (st\<lparr>se_needsReconcile := True\<rparr>)"
      by (rule wp_mono [OF poll_events_wp [OF laws]]) auto
  next
    fix u st1
    assume "\<exists>u'. (Inr u :: failure + unit) = Inr u' \<and> ?at st1"
    then obtain w1 c1 where st1: "st1 = st\<lparr>se_needsReconcile := True, se_core := w1, se_cursor := c1\<rparr>" "view w1 = ?v" by blast
    let ?merged = "if \<exists>owners. sc = OutlinesScope owners False then se_snapshot st else mergeSummary (cv_summary ?v) (se_snapshot st)"
    show "wp (then_job (reconcile_summary port sc)
        (\<lambda>merged. then_job (read_job se_hydratedOutlines)
          (\<lambda>hydrated. then_job (lift_job (owners_to_read sc merged hydrated))
            (\<lambda>owners. then_job (fold_job (reread port) owners merged)
              (\<lambda>snapshot. then_job (lift_job (still_hydrated snapshot owners hydrated))
                (\<lambda>hydrated'. change_job (\<lambda>st'. st'\<lparr>
                  se_needsReconcile := False, se_snapshot := snapshot, se_hydratedOutlines := hydrated',
                  se_save := save, se_revision := se_revision st' + 1,
                  se_canonicalRevision := (if se_needsReconcile st \<or> changed then se_canonicalRevision st' + 1 else se_canonicalRevision st'),
                  se_lastChange := (if se_needsReconcile st \<or> changed
                    then (if se_needsReconcile st then None else lastChange) else se_lastChange st')\<rparr>)))))))
        (reconciled view save changed st) st1"
    proof (rule wp_step [where P = "\<lambda>r st'. ?at st' \<and> (\<forall>merged. r = Inr merged \<longrightarrow> merged = ?merged)"])
      show "wp (reconcile_summary port sc) (\<lambda>r st'. ?at st' \<and> (\<forall>merged. r = Inr merged \<longrightarrow> merged = ?merged)) st1"
        by (rule wp_mono [OF reconcile_summary_wp [OF laws]]) (use st1 in auto)
    next
      fix merged st2
      assume "?at st2 \<and> (\<forall>m. (Inr merged :: failure + graph_snapshot) = Inr m \<longrightarrow> m = ?merged)"
      then obtain w2 c2 where st2: "st2 = st\<lparr>se_needsReconcile := True, se_core := w2, se_cursor := c2\<rparr>" "view w2 = ?v"
        and merged: "merged = ?merged" by blast
      obtain owners where owners: "owners_to_read sc merged ?hyd = Inr owners"
        and in_hyd: "\<forall>owner \<in> set owners. outlineOwnerKey owner \<in> set ?hyd"
        and all: "sc = AllHydrated \<longrightarrow> (\<forall>ident. doc_key ident \<in> set ?hyd \<longrightarrow> ident \<in> owner_id ` set owners)"
        and some: "\<forall>wanted summary ident. sc = OutlinesScope wanted summary \<longrightarrow> doc_key ident \<in> set ?hyd \<longrightarrow>
             ident \<in> owner_id ` set wanted \<longrightarrow> ident \<in> owner_id ` set owners"
        by (rule owners_to_read_hydrated [OF keys])
      have hyd2: "se_hydratedOutlines st2 = ?hyd" using st2 by simp
      show "wp (then_job (read_job se_hydratedOutlines)
          (\<lambda>hydrated. then_job (lift_job (owners_to_read sc merged hydrated))
            (\<lambda>owners. then_job (fold_job (reread port) owners merged)
              (\<lambda>snapshot. then_job (lift_job (still_hydrated snapshot owners hydrated))
                (\<lambda>hydrated'. change_job (\<lambda>st'. st'\<lparr>
                  se_needsReconcile := False, se_snapshot := snapshot, se_hydratedOutlines := hydrated',
                  se_save := save, se_revision := se_revision st' + 1,
                  se_canonicalRevision := (if se_needsReconcile st \<or> changed then se_canonicalRevision st' + 1 else se_canonicalRevision st'),
                  se_lastChange := (if se_needsReconcile st \<or> changed
                    then (if se_needsReconcile st then None else lastChange) else se_lastChange st')\<rparr>))))))
          (reconciled view save changed st) st2"
        unfolding wp_then [of "read_job g" for g] wp_read sum.case hyd2 wp_then [of "lift_job x" for x] wp_lift owners
      proof (rule wp_step [OF rereads_wp [OF laws]], goal_cases)
        case (1 e st3)
        then show ?case using st2 failed by auto
      next
        case (2 snapshot st3)
        then obtain w3 where st3: "st3 = st\<lparr>se_needsReconcile := True, se_cursor := c2, se_core := w3\<rparr>" "view w3 = ?v"
          and result: "reread_result ?v (owner_id ` set owners) merged snapshot" using st2 by auto
        obtain hydrated' where still: "still_hydrated snapshot owners ?hyd = Inr hydrated'"
          and keys': "\<forall>ident. doc_key ident \<in> set hydrated' \<longleftrightarrow> doc_key ident \<in> set ?hyd \<and> listed (summary_of snapshot) ident"
          and sub: "set hydrated' \<subseteq> set ?hyd"
          by (rule still_hydrated_keys [OF keys in_hyd])
        have mirrors: "mirrors ?v snapshot hydrated'"
          by (rule reread_mirrors [OF v sc_ok disjoint merged all some result keys'])
        show ?case unfolding wp_then wp_lift still sum.case wp_change
          using st3 mirrors mirrors_disjoint [OF v mirrors] keys sub
          by (auto simp: reconciled_def keys_ok_def kept_fields_def)
      qed
    qed (use failed in blast)
  qed (use failed in blast)
qed


subsection \<open>Publishing changes\<close>

lemma mirrors_listed:
  "mirrors v snapshot keys \<Longrightarrow> doc_key ident \<in> set keys \<Longrightarrow> listed (cv_summary v) ident"
  using listed_summary_of [of snapshot ident] by (auto simp: mirrors_def)

lemma changes_scope:
  assumes "mirrors v0 snapshot hydrated" and "changes_ok changes v0 v"
    and "\<forall>updates. changes \<noteq> ContentChanges updates"
  shows "scope_ok v (refresh_scope changes) snapshot hydrated"
  using assms mirrors_listed [OF assms(1)]
  by (auto simp: refresh_scope_def scope_ok_def changes_ok_def mirrors_def split: graph_changes.splits option.splits)

lemma content_scope: "scope_ok v (refresh_scope (ContentChanges updates)) snapshot hydrated"
  by (simp add: refresh_scope_def)

lemma content_mirrors:
  assumes "mirrors v0 snapshot hydrated" and "changes_ok (ContentChanges updates) v0 v"
  shows "mirrors v (applyContentUpdates snapshot updates) hydrated"
  using assms mirrors_listed [OF assms(1)]
  by (simp add: mirrors_def changes_ok_def findOutline_updates)

lemma keys_ok_updates:
  "keys_ok st \<Longrightarrow> keys_ok (st\<lparr>se_snapshot := applyContentUpdates (se_snapshot st) updates, se_save := save,
     se_revision := n, se_canonicalRevision := m, se_lastChange := c\<rparr>)"
  by (simp add: keys_ok_def applyContentUpdates_eq image_image)

definition live :: "('w \<Rightarrow> core_view) \<Rightarrow> ('w, 'c) graph_session \<Rightarrow> bool" where
  "live view st \<longleftrightarrow> keys_ok st
     \<and> (se_needsReconcile st \<or> mirrors (view (se_core st)) (se_snapshot st) (se_hydratedOutlines st))"

text \<open>After a step that may have changed the view: the session knows, or the changes say what.\<close>

definition behind :: "('w \<Rightarrow> core_view) \<Rightarrow> graph_changes \<Rightarrow> ('w, 'c) graph_session \<Rightarrow> bool" where
  "behind view changes st \<longleftrightarrow> keys_ok st
     \<and> (se_needsReconcile st
        \<or> (\<exists>v0. mirrors v0 (se_snapshot st) (se_hydratedOutlines st) \<and> changes_ok changes v0 (view (se_core st))))"

definition published ::
  "('w \<Rightarrow> core_view) \<Rightarrow> save_state \<Rightarrow> ('w, 'c) graph_session \<Rightarrow> failure + unit \<Rightarrow> ('w, 'c) graph_session \<Rightarrow> bool" where
  "published view save st r st' \<longleftrightarrow>
     view (se_core st') = view (se_core st) \<and> live view st' \<and> kept_fields st st' \<and>
     (case r of
        Inl error \<Rightarrow> se_needsReconcile st' \<and> se_snapshot st' = se_snapshot st \<and> se_save st' = se_save st
          \<and> se_canonicalRevision st' = se_canonicalRevision st
      | Inr _ \<Rightarrow> (se_needsReconcile st' \<longrightarrow> se_needsReconcile st) \<and> se_save st' = save
          \<and> se_canonicalRevision st' = se_canonicalRevision st + 1)"

lemma reconciled_published: "reconciled view save True st r st' \<Longrightarrow> published view save st r st'"
  by (cases r) (auto simp: reconciled_def published_def live_def)

lemma consumeLocalEvents_wp:
  assumes "port_laws port view"
  shows "wp (consumeLocalEvents port) (\<lambda>r st'. (\<forall>e. r \<noteq> Inl e) \<and>
     (\<exists>w cursor. view w = view (se_core st) \<and> st' = st\<lparr>se_core := w, se_cursor := cursor\<rparr>)) st"
proof -
  let ?answer = "sp_subscribe port (se_handle st) (se_cursor st) (se_core st)"
  have same: "st\<lparr>se_core := w\<rparr> = st\<lparr>se_core := w, se_cursor := se_cursor st\<rparr>" for w
    by (cases st) simp
  have quiet: "view (snd ?answer) = view (se_core st)" by (rule port_lawsD(9) [OF assms])
  show ?thesis
  proof (cases "fst ?answer")
    case (Inl e)
    with quiet show ?thesis
      by (simp add: consumeLocalEvents_def wp_rules) (intro exI conjI, assumption, rule same)
  next
    case (Inr batch)
    show ?thesis
    proof (cases "sr_resync_required batch \<or> RemoteEvent \<in> set (sr_events batch)")
      case True
      with Inr quiet show ?thesis
        by (simp add: consumeLocalEvents_def wp_rules) (intro exI conjI, assumption, rule same)
    next
      case False
      with Inr quiet show ?thesis
        by (simp add: consumeLocalEvents_def wp_rules) (intro exI conjI, assumption, rule refl)
    qed
  qed
qed

lemma publishChanges_wp:
  assumes laws: "port_laws port view" and ok: "behind view changes st"
  shows "wp (publishChanges port changes save commandId) (published view save st) st"
proof -
  have keys: "keys_ok st" using ok by (simp add: behind_def)
  have covered: "se_needsReconcile st \<or> scope_ok (view (se_core st)) (refresh_scope changes) (se_snapshot st) (se_hydratedOutlines st)"
    using ok changes_scope content_scope by (cases changes) (auto simp: behind_def)
  show ?thesis
  proof (cases changes)
    case (RefreshChanges owners blocks summary)
    show ?thesis unfolding publishChanges_def RefreshChanges graph_changes.case
      by (rule wp_mono [OF reconcile_wp [OF laws keys covered [unfolded RefreshChanges]] reconciled_published])
  next
    case (ContentChanges updates)
    have moved: "published view save st r st'" if "published view save (st\<lparr>se_core := w, se_cursor := c\<rparr>) r st'"
        "view w = view (se_core st)" for w c r st'
      using that by (auto simp: published_def kept_fields_def split: sum.splits)
    show ?thesis unfolding publishChanges_def ContentChanges graph_changes.case
    proof (rule wp_step [OF consumeLocalEvents_wp [OF laws]], goal_cases)
      case (2 local_only st1)
      then obtain w c where st1: "st1 = st\<lparr>se_core := w, se_cursor := c\<rparr>" "view w = view (se_core st)" by blast
      have covered1: "se_needsReconcile st1 \<or> scope_ok (view (se_core st1)) (refresh_scope (ContentChanges updates))
          (se_snapshot st1) (se_hydratedOutlines st1)"
        by (simp add: content_scope)
      have keys1: "keys_ok st1" using keys st1 by (simp add: keys_ok_def)
      have patched: "se_needsReconcile st \<or>
          mirrors (view (se_core st)) (applyContentUpdates (se_snapshot st) updates) (se_hydratedOutlines st)"
        using ok ContentChanges content_mirrors by (auto simp: behind_def)
      show ?case
      proof (cases local_only)
        case True
        then show ?thesis
          using keys_ok_updates [OF keys1] patched st1
          by (simp add: wp_rules published_def live_def kept_fields_def)
      next
        case False
        show ?thesis unfolding if_not_P [OF False]
          by (rule wp_mono [OF reconcile_wp [OF laws keys1 covered1]]) (use moved reconciled_published st1 in blast)
      qed
    qed auto
  qed
qed

end
