(* ===== verification/Session_Safety.thy ===== *)
theory Session_Safety
  imports Session_Coherence
begin

text \<open>
  Every job of a session keeps what it shows in step with the core, or marks it stale; the
  sequences of jobs and events of an open graph (\<open>session_event\<close>); and the outcomes of a command.
\<close>

subsection \<open>Jobs of a live session\<close>

text \<open>What the steps beside the snapshot leave alone.\<close>

definition aside :: "('w, 'c) graph_session \<Rightarrow> ('w, 'c) graph_session \<Rightarrow> bool" where
  "aside st st' \<longleftrightarrow> se_core st' = se_core st \<and> se_needsReconcile st' = se_needsReconcile st
     \<and> se_snapshot st' = se_snapshot st \<and> se_hydratedOutlines st' = se_hydratedOutlines st
     \<and> se_canonicalRevision st' = se_canonicalRevision st \<and> se_status st' = se_status st
     \<and> se_agent st' = se_agent st \<and> se_following st' = se_following st"

lemma aside_live: "aside st st' \<Longrightarrow> live view st \<Longrightarrow> live view st'"
  by (simp add: aside_def live_def keys_ok_def)

lemma aside_trans: "aside st st' \<Longrightarrow> aside st' st'' \<Longrightarrow> aside st st''"
  by (simp add: aside_def)

lemma aside_save: "aside st (st\<lparr>se_save := save\<rparr>)"
  by (simp add: aside_def)

lemma wake_agent_wp: "wp wake_agent (\<lambda>r st'. r = Inr () \<and> aside st st' \<and> se_save st' = se_save st) st"
  by (simp add: wake_agent_def wp_rules aside_def)

lemma announceSaved_wp:
  "wp announceSaved (\<lambda>r st'. aside st st' \<and> se_save st' = se_save st
     \<and> (se_announcer st \<noteq> ClosedAnnouncer \<longrightarrow> r = Inr ())) st"
  by (cases "se_announcer st"; cases "se_broadcast st")
    (simp_all add: announceSaved_def wp_rules aside_def)

lemma execute_failed_wp:
  "wp (execute_failed error applied save) (\<lambda>r st'. (\<exists>e. r = Inl e) \<and> aside st st') st"
  by (auto simp: execute_failed_def wp_rules aside_def split: failure.split option.split)

lemma ensureCurrent_wp:
  assumes "port_laws port view" and "live view st"
  shows "wp (ensureCurrent port) (\<lambda>r st'. view (se_core st') = view (se_core st) \<and> live view st' \<and> kept_fields st st'
     \<and> se_save st' = se_save st \<and> (\<forall>u. r = Inr u \<longrightarrow> \<not> se_needsReconcile st')
     \<and> (\<not> se_needsReconcile st \<longrightarrow> r = Inr () \<and> st' = st)) st"
proof (cases "se_needsReconcile st")
  case True
  have "keys_ok st" using assms(2) by (simp add: live_def)
  have "wp (reconcile port (se_save st) AllHydrated True None) (reconciled view (se_save st) True st) st"
    by (rule reconcile_wp [OF assms(1) \<open>keys_ok st\<close>]) simp
  then have "wp (reconcile port (se_save st) AllHydrated True None) (\<lambda>r st'. view (se_core st') = view (se_core st)
      \<and> live view st' \<and> kept_fields st st' \<and> se_save st' = se_save st
      \<and> (\<forall>u. r = Inr u \<longrightarrow> \<not> se_needsReconcile st')) st"
    by (rule wp_mono) (auto simp: reconciled_def live_def split: sum.splits)
  then show ?thesis using True by (simp add: ensureCurrent_def wp_rules)
next
  case False
  then show ?thesis using assms(2) by (simp add: ensureCurrent_def wp_rules kept_fields_def)
qed

lemma publish_response_wp:
  assumes laws: "port_laws port view" and ok: "behind view (er_changes response) st"
  shows "wp (publish_response port response save) (\<lambda>r st'. live view st' \<and> se_status st' = se_status st
     \<and> (\<forall>result. r = Inr result \<longrightarrow> (se_needsReconcile st' \<longrightarrow> se_needsReconcile st)
          \<and> result = er_result response \<and> se_save st' = save \<and> se_canonicalRevision st' = se_canonicalRevision st + 1)
     \<and> (\<forall>e. r = Inl e \<longrightarrow> se_needsReconcile st'
          \<or> se_announcer st = ClosedAnnouncer \<and> se_canonicalRevision st' = se_canonicalRevision st + 1)) st"
  unfolding publish_response_def
proof (rule wp_step [OF publishChanges_wp [OF laws ok]], goal_cases)
  case (1 e st')
  then show ?case by (simp add: published_def kept_fields_def)
next
  case (2 u st1)
  then have st1: "live view st1" "kept_fields st st1" "se_needsReconcile st1 \<longrightarrow> se_needsReconcile st"
      "se_save st1 = save" "se_canonicalRevision st1 = se_canonicalRevision st + 1"
    by (simp_all add: published_def)
  show ?case
  proof (rule wp_step [where P = "\<lambda>r st'. aside st1 st' \<and> se_save st' = save
        \<and> (se_announcer st \<noteq> ClosedAnnouncer \<longrightarrow> r = Inr ())"])
    have "wp (then_job wake_agent (\<lambda>_. announceSaved)) (\<lambda>r st'. aside st1 st' \<and> se_save st' = save
        \<and> (se_announcer st \<noteq> ClosedAnnouncer \<longrightarrow> r = Inr ())) st1"
    proof (cases "se_agent st1")
      case True
      show ?thesis
        using announceSaved_wp [of "st1\<lparr>se_wakes := se_wakes st1 + 1\<rparr>"] True st1
        by (simp add: wp_then wake_agent_def wp_change) (auto elim!: wp_mono simp: aside_def kept_fields_def)
    next
      case False
      show ?thesis
        using announceSaved_wp [of st1] False st1
        by (simp add: wp_then wake_agent_def wp_change) (auto elim!: wp_mono simp: aside_def kept_fields_def)
    qed
    then show "wp (if saved_locally (er_save_status response) then then_job wake_agent (\<lambda>_. announceSaved) else return_job ())
        (\<lambda>r st'. aside st1 st' \<and> se_save st' = save \<and> (se_announcer st \<noteq> ClosedAnnouncer \<longrightarrow> r = Inr ())) st1"
      using st1 by (simp add: wp_return aside_def)
  next
    fix e st'
    assume "aside st1 st' \<and> se_save st' = save \<and> (se_announcer st \<noteq> ClosedAnnouncer \<longrightarrow> Inl e = Inr ())"
    then show "live view st' \<and> se_status st' = se_status st
       \<and> (\<forall>result. Inl e = Inr result \<longrightarrow> (se_needsReconcile st' \<longrightarrow> se_needsReconcile st)
            \<and> result = er_result response \<and> se_save st' = save \<and> se_canonicalRevision st' = se_canonicalRevision st + 1)
       \<and> (\<forall>e'. Inl e = Inl e' \<longrightarrow> se_needsReconcile st'
            \<or> se_announcer st = ClosedAnnouncer \<and> se_canonicalRevision st' = se_canonicalRevision st + 1)"
      using st1 aside_live [of st1 st' view] by (auto simp: aside_def kept_fields_def)
  next
    fix u st'
    assume "aside st1 st' \<and> se_save st' = save \<and> (se_announcer st \<noteq> ClosedAnnouncer \<longrightarrow> Inr u = Inr ())"
    then show "wp (return_job (er_result response)) (\<lambda>r st'. live view st' \<and> se_status st' = se_status st
       \<and> (\<forall>result. r = Inr result \<longrightarrow> (se_needsReconcile st' \<longrightarrow> se_needsReconcile st)
            \<and> result = er_result response \<and> se_save st' = save \<and> se_canonicalRevision st' = se_canonicalRevision st + 1)
       \<and> (\<forall>e'. r = Inl e' \<longrightarrow> se_needsReconcile st'
            \<or> se_announcer st = ClosedAnnouncer \<and> se_canonicalRevision st' = se_canonicalRevision st + 1)) st'"
      using st1 aside_live [of st1 st' view] by (auto simp: wp_return aside_def kept_fields_def)
  qed
qed

text \<open>The part of a command from the call of the core on, in a session that is current.\<close>

definition attempted ::
  "('w \<Rightarrow> core_view) \<Rightarrow> ('w, 'c) graph_session \<Rightarrow> failure + command_result \<Rightarrow> ('w, 'c) graph_session \<Rightarrow> bool" where
  "attempted view st r st' \<longleftrightarrow> live view st' \<and> se_status st' = se_status st
     \<and> (\<forall>result. r = Inr result \<longrightarrow> \<not> se_needsReconcile st')"

lemma execute_attempt_wp:
  assumes laws: "port_laws port view" and ok: "live view st" "\<not> se_needsReconcile st"
  shows "wp (execute_attempt port command stableSave) (attempted view st) st"
proof -
  let ?answer = "sp_execute port (se_handle st) command (se_core st)"
  let ?st1 = "st\<lparr>se_core := snd ?answer\<rparr>"
  show ?thesis
  proof (cases "fst ?answer")
    case (Inl error)
    have "live view ?st1" using port_lawsD(15) [OF laws, of "se_handle st" command "se_core st" error] Inl ok
      by (simp add: live_def keys_ok_def prod_eq_iff)
    then show ?thesis
      using Inl by (simp add: execute_attempt_def wp_then wp_settle wp_port)
        (auto intro!: wp_mono [OF execute_failed_wp] simp: attempted_def aside_live, simp add: aside_def)
  next
    case (Inr response)
    show ?thesis
    proof (cases "er_save_status response = Unchanged")
      case True
      have "live view ?st1" using port_lawsD(16) [OF laws, of "se_handle st" command "se_core st" response] Inr True ok
        by (simp add: live_def keys_ok_def prod_eq_iff)
      then show ?thesis using Inr True ok
        by (simp add: execute_attempt_def wp_then wp_settle wp_port wp_change wp_return attempted_def live_def keys_ok_def)
    next
      case False
      let ?save = "applied_save (er_save_status response) stableSave"
      have behind: "behind view (er_changes response) ?st1"
        using port_lawsD(17) [OF laws, of "se_handle st" command "se_core st" response] Inr False ok
        by (auto simp: behind_def live_def keys_ok_def prod_eq_iff)
      have "wp (catch_job (publish_response port response ?save)
          (\<lambda>error. execute_failed error (Some (er_result response)) ?save)) (attempted view st) ?st1"
      proof (rule wp_step_catch [OF publish_response_wp [OF laws behind]], goal_cases)
        case (1 e st2)
        show ?case by (rule wp_mono [OF execute_failed_wp])
            (use 1 aside_live [of st2] in \<open>auto simp: attempted_def aside_def\<close>)
      next
        case (2 result st2)
        then show ?case using ok by (simp add: attempted_def)
      qed
      then show ?thesis using Inr False
        by (simp add: execute_attempt_def wp_then wp_settle wp_port Let_def)
    qed
  qed
qed

lemma executeNow_wp:
  assumes laws: "port_laws port view" and ok: "live view st"
  shows "wp (executeNow port command) (\<lambda>r st'. live view st' \<and> se_status st' = se_status st
     \<and> (\<forall>result. r = Inr result \<longrightarrow> \<not> se_needsReconcile st')) st"
  unfolding executeNow_def
proof (rule wp_step [OF ensureCurrent_wp [OF laws ok]], goal_cases)
  case (1 e st')
  then show ?case by (simp add: kept_fields_def)
next
  case (2 u st1)
  then have st1: "live view st1" "\<not> se_needsReconcile st1" "se_status st1 = se_status st"
    by (simp_all add: kept_fields_def)
  let ?st2 = "st1\<lparr>se_save := Saving\<rparr>"
  have "live view ?st2" using aside_live [OF aside_save st1(1)] .
  then have "wp (execute_attempt port command (se_save st1)) (attempted view ?st2) ?st2"
    using st1 by (intro execute_attempt_wp [OF laws]) simp_all
  then show ?case using st1
    by (auto simp: wp_then wp_read wp_change wp_throw attempted_def elim!: wp_mono)
qed

lemma executePrepared_wp:
  assumes laws: "port_laws port view" and ok: "live view st"
  shows "wp (executePrepared port prepare) (\<lambda>r st'. live view st') st"
  unfolding executePrepared_def
proof (rule wp_step [OF ensureCurrent_wp [OF laws ok]], goal_cases)
  case (2 u st1)
  then have "live view st1" by simp
  then show ?case
    by (auto simp: wp_then wp_read wp_lift wp_return split: sum.split option.split intro!: wp_mono [OF executeNow_wp [OF laws]])
qed simp

lemma retryNow_wp:
  assumes laws: "port_laws port view" and ok: "live view st"
  shows "wp (retryNow port) (\<lambda>r st'. live view st') st"
proof (cases "se_status st \<noteq> Ready \<or> \<not> is_unsaved (se_save st)")
  case True
  then show ?thesis using ok by (simp add: retryNow_def wp_rules)
next
  case False
  let ?st1 = "st\<lparr>se_save := Saving\<rparr>"
  let ?answer = "sp_retryPending port (se_handle st) (se_core st)"
  let ?st2 = "?st1\<lparr>se_core := snd ?answer\<rparr>"
  have live2: "live view ?st2" using ok port_lawsD(5) [OF laws] by (simp add: live_def keys_ok_def)
  have keys: "keys_ok ?st2" using live2 by (simp add: live_def)
  have scope: "se_needsReconcile ?st2 \<or> scope_ok (view (se_core ?st2)) SummaryScope (se_snapshot ?st2) (se_hydratedOutlines ?st2)"
    using live2 by (auto simp: live_def scope_ok_def)
  have tail: "wp (catch_job (then_job (reconcile port (Saved n) SummaryScope False None) (\<lambda>_. wake_agent))
        (\<lambda>error. change_job (\<lambda>st. st\<lparr>se_save := Saved n\<rparr>))) (\<lambda>r st'. live view st') ?st2" for n
    unfolding wp_catch wp_then
    by (rule wp_mono [OF reconcile_wp [OF laws keys scope]])
      (auto simp: reconciled_def wp_change live_def keys_ok_def wake_agent_def split: sum.splits)
  show ?thesis
  proof (cases "fst ?answer")
    case (Inl e)
    then show ?thesis using False live2
      by (simp add: retryNow_def wp_then wp_read wp_change wp_settle wp_port live_def keys_ok_def)
  next
    case (Inr n)
    then show ?thesis using False tail [of n]
      by (simp add: retryNow_def wp_then [of "read_job f" for f] wp_then [of "change_job f" for f]
          wp_then [of "settle_job m" for m] wp_read wp_change wp_settle wp_port)
  qed
qed

lemma queryFrame_wp:
  assumes laws: "port_laws port view" and ok: "live view st"
  shows "wp (queryFrame port request) (\<lambda>r st'. live view st' \<and> (\<forall>q a revision. r = Inr (q, a, revision) \<longrightarrow>
     q = request \<and> \<not> se_needsReconcile st' \<and> revision = se_canonicalRevision st')) st"
  unfolding queryFrame_def
proof (rule wp_step [OF ensureCurrent_wp [OF laws ok]], goal_cases)
  case (2 u st1)
  then have "live view st1" "\<not> se_needsReconcile st1" by simp_all
  then show ?case
    by (simp add: wp_rules port_lawsD(10) [OF laws] live_def keys_ok_def split: sum.split)
qed simp


subsection \<open>Reads and remote updates\<close>

lemma keys_ok_hydrate:
  assumes "keys_ok st" and "view_ok v" and "listed (cv_summary v) (owner_id owner)"
  shows "\<forall>key \<in> set (set_add (outlineOwnerKey owner) (se_hydratedOutlines st)). \<exists>ident. ident \<noteq> [] \<and> key = doc_key ident"
  using assms by (auto simp: keys_ok_def view_ok_def outlineOwnerKey_doc)

lemma disjoint_mergeOutline:
  "pg_id ` set (gs_pages (mergeOutline snapshot outline)) \<inter> tg_id ` set (gs_tags (mergeOutline snapshot outline))
     = pg_id ` set (gs_pages snapshot) \<inter> tg_id ` set (gs_tags snapshot)"
  by (simp add: mergeOutline_eq image_image)

lemma mirrors_hydrate:
  assumes "mirrors v snapshot keys" and "listed (cv_summary v) (owner_id owner)"
    and "owner_id (os_owner outline) = owner_id owner" and "os_blocks outline = cv_outline v (owner_id owner)"
  shows "mirrors v (mergeOutline snapshot outline) (set_add (outlineOwnerKey owner) keys)"
proof -
  have "findOutline snapshot (doc (owner_id owner)) \<noteq> None"
    using assms(1, 2) listed_summary_of [of snapshot "owner_id owner"] by (simp add: mirrors_def)
  then show ?thesis using assms by (auto simp: mirrors_def findOutline_merge outlineOwnerKey_doc)
qed

lemma hydrateOutlineNow_wp:
  assumes laws: "port_laws port view" and ok: "live view st"
  shows "wp (hydrateOutlineNow port owner) (\<lambda>r st'. live view st') st"
proof (cases "se_status st \<noteq> Ready \<or> outlineOwnerKey owner \<in> set (se_hydratedOutlines st)")
  case True
  then show ?thesis using ok by (simp add: hydrateOutlineNow_def wp_rules)
next
  case False
  let ?answer = "sp_readOutline port (se_handle st) owner (se_core st)"
  have same: "view (snd ?answer) = view (se_core st)" by (rule port_lawsD(8) [OF laws])
  have v: "view_ok (view (se_core st))" by (rule port_lawsD(1) [OF laws])
  show ?thesis
  proof (cases "fst ?answer")
    case (Inl e)
    then show ?thesis using False ok same
      by (simp add: hydrateOutlineNow_def wp_rules live_def keys_ok_def)
  next
    case (Inr outline)
    note read = port_lawsD(12) [OF laws Inr]
    have keys: "keys_ok st" using ok by (simp add: live_def)
    have "se_needsReconcile st \<or> mirrors (view (se_core st)) (mergeOutline (se_snapshot st) outline)
        (set_add (outlineOwnerKey owner) (se_hydratedOutlines st))"
      using ok read mirrors_hydrate by (auto simp: live_def)
    then show ?thesis using False Inr same keys keys_ok_hydrate [OF keys v, of owner] read
      by (simp add: hydrateOutlineNow_def wp_rules live_def keys_ok_def disjoint_mergeOutline)
  qed
qed

text \<open>The reads of several outlines, paired with what was asked.\<close>

definition answers :: "core_view \<Rightarrow> outline_owner list \<Rightarrow> outline_snapshot list \<Rightarrow> bool" where
  "answers v owners outlines \<longleftrightarrow> list_all2 (\<lambda>owner outline. listed (cv_summary v) (owner_id owner)
     \<and> owner_id (os_owner outline) = owner_id owner \<and> os_blocks outline = cv_outline v (owner_id owner)) owners outlines"

lemma read_all_wp:
  assumes laws: "port_laws port view"
  shows "wp (read_all port owners) (\<lambda>r st'. view (se_core st') = view (se_core st) \<and> st' = st\<lparr>se_core := se_core st'\<rparr>
     \<and> (\<forall>outlines. r = Inr outlines \<longrightarrow> answers (view (se_core st)) owners outlines)) st"
proof (induction owners arbitrary: st)
  case Nil
  show ?case by (simp add: wp_rules answers_def)
next
  case (Cons owner owners)
  let ?answer = "sp_readOutline port (se_handle st) owner (se_core st)"
  let ?st1 = "st\<lparr>se_core := snd ?answer\<rparr>"
  have same: "view (snd ?answer) = view (se_core st)" by (rule port_lawsD(8) [OF laws])
  show ?case
    unfolding read_all.simps wp_then wp_settle wp_port sum.case
    by (rule wp_mono [OF Cons.IH])
      (auto simp: same wp_return wp_throw answers_def split: sum.split dest: port_lawsD(12) [OF laws])
qed

lemma fold_hydrate:
  assumes "answers v owners outlines" and "view_ok v"
    and "\<forall>key \<in> set keys. \<exists>ident. ident \<noteq> [] \<and> key = doc_key ident"
    and "pg_id ` set (gs_pages snapshot) \<inter> tg_id ` set (gs_tags snapshot) = {}"
    and "needs \<or> mirrors v snapshot keys"
  shows "(\<forall>key \<in> set (fold (\<lambda>owner. set_add (outlineOwnerKey owner)) owners keys). \<exists>ident. ident \<noteq> [] \<and> key = doc_key ident)
     \<and> pg_id ` set (gs_pages (foldl mergeOutline snapshot outlines)) \<inter> tg_id ` set (gs_tags (foldl mergeOutline snapshot outlines)) = {}
     \<and> (needs \<or> mirrors v (foldl mergeOutline snapshot outlines) (fold (\<lambda>owner. set_add (outlineOwnerKey owner)) owners keys))"
  using assms(1)[unfolded answers_def] assms(3-5)
proof (induction owners outlines arbitrary: snapshot keys rule: list_all2_induct)
  case (Cons owner owners outline outlines)
  have shown: "needs \<or> mirrors v (mergeOutline snapshot outline) (set_add (outlineOwnerKey owner) keys)"
    using Cons.prems(3) Cons.hyps(1) mirrors_hydrate by blast
  have "owner_id owner \<noteq> []" using Cons.hyps(1) assms(2) by (auto simp: view_ok_def)
  then have keys: "\<forall>key \<in> set (set_add (outlineOwnerKey owner) keys). \<exists>ident. ident \<noteq> [] \<and> key = doc_key ident"
    using Cons.prems(1) by (auto simp: outlineOwnerKey_doc)
  have disjoint: "pg_id ` set (gs_pages (mergeOutline snapshot outline)) \<inter> tg_id ` set (gs_tags (mergeOutline snapshot outline)) = {}"
    using Cons.prems(2) by (simp add: disjoint_mergeOutline)
  show ?case unfolding foldl_Cons fold_simps by (rule Cons.IH [OF keys disjoint shown])
qed simp

lemma hydrateOutlinesNow_wp:
  assumes laws: "port_laws port view" and ok: "live view st"
  shows "wp (hydrateOutlinesNow port owners) (\<lambda>r st'. live view st') st"
proof -
  let ?missing = "filter (\<lambda>owner. outlineExists (se_snapshot st) owner
      \<and> outlineOwnerKey owner \<notin> set (se_hydratedOutlines st)) owners"
  show ?thesis
  proof (cases "se_status st \<noteq> Ready \<or> ?missing = []")
    case True
    then show ?thesis using ok by (simp add: hydrateOutlinesNow_def wp_read wp_then wp_return Let_def)
  next
    case False
    have v: "view_ok (view (se_core st))" by (rule port_lawsD(1) [OF laws])
    have keys: "\<forall>key \<in> set (se_hydratedOutlines st). \<exists>ident. ident \<noteq> [] \<and> key = doc_key ident"
      and disjoint: "pg_id ` set (gs_pages (se_snapshot st)) \<inter> tg_id ` set (gs_tags (se_snapshot st)) = {}"
      and shown: "se_needsReconcile st \<or> mirrors (view (se_core st)) (se_snapshot st) (se_hydratedOutlines st)"
      using ok by (simp_all add: live_def keys_ok_def)
    have "wp (then_job (read_all port ?missing) (\<lambda>outlines.
           change_job (\<lambda>st. st\<lparr>
             se_snapshot := foldl mergeOutline (se_snapshot st) outlines,
             se_hydratedOutlines := fold (\<lambda>owner. set_add (outlineOwnerKey owner)) ?missing (se_hydratedOutlines st),
             se_revision := se_revision st + 1\<rparr>))) (\<lambda>r st'. live view st') st"
    proof (rule wp_step [OF read_all_wp [OF laws]], goal_cases)
      case (1 e st')
      then obtain w where "st' = st\<lparr>se_core := w\<rparr>" "view w = view (se_core st)" by blast
      then show ?case using ok by (simp add: live_def keys_ok_def)
    next
      case (2 outlines st')
      then obtain w where st': "st' = st\<lparr>se_core := w\<rparr>" "view w = view (se_core st)"
        and answers: "answers (view (se_core st)) ?missing outlines" by blast
      show ?case using fold_hydrate [OF answers v keys disjoint shown] st'
        by (simp add: wp_change live_def keys_ok_def)
    qed
    then show ?thesis using False by (simp add: hydrateOutlinesNow_def wp_read Let_def wp_then [of "read_job f" for f])
  qed
qed

lemma applyRemote_wp:
  assumes laws: "port_laws port view" and ok: "live view st"
  shows "wp (applyRemote port current bytes) (\<lambda>r st'. live view st') st"
proof (cases "\<not> current \<or> se_closeRequested st \<or> \<not> sp_has port (js ''importRemote'')")
  case True
  then show ?thesis using ok by (auto simp: applyRemote_def wp_rules)
next
  case False
  let ?answer = "sp_importRemote port (se_handle st) bytes (se_core st)"
  let ?st1 = "st\<lparr>se_core := snd ?answer\<rparr>"
  show ?thesis
  proof (cases "fst ?answer")
    case (Inl e)
    then have "view (snd ?answer) = view (se_core st)"
      using port_lawsD(18) [OF laws, of "se_handle st" bytes "se_core st" e] by (simp add: prod_eq_iff)
    then show ?thesis using False Inl ok by (simp add: applyRemote_def wp_rules live_def keys_ok_def)
  next
    case (Inr receipt)
    have behind: "behind view (rr_changes receipt) ?st1"
      using port_lawsD(19) [OF laws, of "se_handle st" bytes "se_core st" receipt] Inr ok
      by (auto simp: behind_def live_def keys_ok_def prod_eq_iff)
    have "wp (then_job (publishChanges port (rr_changes receipt) save None) (\<lambda>_. announceSaved)) (\<lambda>r st'. live view st') ?st1" for save
    proof (rule wp_step [OF publishChanges_wp [OF laws behind]], goal_cases)
      case (2 u st2)
      then have "live view st2" by (simp add: published_def)
      then show ?case by (auto intro!: wp_mono [OF announceSaved_wp] simp: aside_live)
    qed (simp add: published_def)
    then show ?thesis using False Inr
      by (simp add: applyRemote_def wp_then [of "read_job f" for f] wp_then [of "port_job m" for m] wp_read wp_port)
  qed
qed

lemma restoreUnsaved_wp:
  "wp restoreUnsaved (\<lambda>r st'. (\<forall>e. r \<noteq> Inl e) \<and> aside st st') st"
  by (simp add: wp_def restoreUnsaved_def aside_def)

text \<open>A re-read of everything brings any session with sound keys in step.\<close>

lemma reread_all_wp:
  assumes laws: "port_laws port view" and keys: "keys_ok st"
  shows "wp (reconcile port save AllHydrated True None) (\<lambda>r st'. live view st' \<and> kept_fields st st') st"
  by (rule wp_mono [OF reconcile_wp [OF laws keys]]) (auto simp: reconciled_def live_def split: sum.splits)

lemma replaceRemote_wp:
  assumes laws: "port_laws port view" and ok: "live view st"
  shows "wp (replaceRemote port current checkpoint) (\<lambda>r st'. live view st') st"
proof (cases "\<not> current \<or> se_closeRequested st \<or> \<not> sp_has port (js ''replaceRemote'')")
  case True
  then show ?thesis using ok by (auto simp: replaceRemote_def wp_rules)
next
  case False
  let ?answer = "sp_replaceRemote port (se_handle st) checkpoint (se_core st)"
  let ?st1 = "st\<lparr>se_core := snd ?answer\<rparr>"
  have keys: "keys_ok ?st1" using ok by (simp add: live_def keys_ok_def)
  show ?thesis
  proof (cases "fst ?answer")
    case (Inl e)
    then have "view (snd ?answer) = view (se_core st)"
      using port_lawsD(20) [OF laws, of "se_handle st" checkpoint "se_core st" e] by (simp add: prod_eq_iff)
    then show ?thesis using False Inl ok by (simp add: replaceRemote_def wp_rules live_def keys_ok_def)
  next
    case (Inr u)
    have "wp (then_job (reconcile port save AllHydrated True None) (\<lambda>_.
        then_job (change_job (\<lambda>st. set_access (accessFor (remoteReadonly st)
                        (case se_lease st of Some mode \<Rightarrow> mode | None \<Rightarrow> Readonly) True) st)) (\<lambda>_.
        then_job announceSaved (\<lambda>_. restoreUnsaved)))) (\<lambda>r st'. live view st') ?st1" for save
    proof (rule wp_step [OF reread_all_wp [OF laws keys]], goal_cases)
      case (2 u st2)
      let ?st3 = "set_access (accessFor (remoteReadonly st2)
          (case se_lease st2 of Some mode \<Rightarrow> mode | None \<Rightarrow> Readonly) True) st2"
      have live3: "live view ?st3" using 2 by (simp add: live_def keys_ok_def set_access_def)
      have "wp (then_job announceSaved (\<lambda>_. restoreUnsaved)) (\<lambda>r st'. live view st') ?st3"
      proof (rule wp_step [OF announceSaved_wp], goal_cases)
        case (2 u st4)
        then have "live view st4" using aside_live [OF _ live3] by simp
        then show ?case by (auto intro!: wp_mono [OF restoreUnsaved_wp] simp: aside_live)
      qed (simp add: aside_live [OF _ live3])
      then show ?case by (simp add: wp_then [of "change_job f" for f] wp_change)
    qed simp
    then show ?thesis using False Inr
      by (simp add: replaceRemote_def wp_then [of "read_job f" for f] wp_then [of "port_job m" for m] wp_read wp_port)
  qed
qed

lemma resumeContent_wp:
  assumes "port_laws port view" and "live view st"
  shows "wp (resumeContent port edit) (\<lambda>r st'. live view st') st"
  using assms(2)
  by (simp add: resumeContent_def wp_rules port_lawsD(8) [OF assms(1)] live_def keys_ok_def split: sum.split option.split)

lemma replay_edit_wp:
  assumes laws: "port_laws port view" and ok: "live view st"
  shows "wp (replay_edit port edit) (\<lambda>r st'. (\<forall>e. r \<noteq> Inl e) \<and> live view st') st"
proof -
  have run: "wp (case command of None \<Rightarrow> return_job () | Some c \<Rightarrow> then_job (executeNow port c) (\<lambda>_. return_job ()))
      (\<lambda>r st'. live view st') st1" if "live view st1" for command st1
    using that by (cases command)
      (auto simp: wp_then wp_return split: sum.split intro!: wp_mono [OF executeNow_wp [OF laws]])
  have find: "wp (case edit of KeptCommand command \<Rightarrow> return_job (Some command) | KeptContent content \<Rightarrow> resumeContent port content)
      (\<lambda>r st'. live view st') st"
    using ok resumeContent_wp [OF laws ok] by (cases edit) (simp_all add: wp_return)
  have "wp (then_job (case edit of KeptCommand command \<Rightarrow> return_job (Some command) | KeptContent content \<Rightarrow> resumeContent port content)
      (\<lambda>command. case command of None \<Rightarrow> return_job () | Some c \<Rightarrow> then_job (executeNow port c) (\<lambda>_. return_job ())))
      (\<lambda>r st'. live view st') st"
    by (rule wp_step [OF find]) (auto intro: run)
  then show ?thesis unfolding replay_edit_def
    by (rule wp_step_catch) (simp_all add: wp_return)
qed

lemma replay_edits_wp:
  assumes laws: "port_laws port view" and ok: "live view st"
  shows "wp (replay_edits port edits) (\<lambda>r st'. live view st') st"
  unfolding replay_edits_def
proof (rule wp_step)
  show "wp (each_job (replay_edit port) edits) (\<lambda>r st'. live view st') st"
    by (rule wp_each [where I = "live view"])
      (use ok in \<open>auto intro!: wp_mono [OF replay_edit_wp [OF laws]] split: sum.splits\<close>)
qed (auto simp: wp_change forgetUnsaved_def keepUnsaved_def live_def keys_ok_def)


subsection \<open>Opening and closing\<close>

lemma openReplica_wp:
  assumes "port_laws port view"
  shows "wp (openReplica port) (\<lambda>r st'.
     st' = st\<lparr>se_core := se_core st', se_handle := se_handle st', se_cursor := se_cursor st'\<rparr>
     \<and> (\<forall>e. r = Inl e \<longrightarrow> view (se_core st') = view (se_core st))
     \<and> (\<forall>opened. r = Inr opened \<longrightarrow> or_summary opened = cv_summary (view (se_core st')))) st"
proof (cases "sp_openGraph port (se_core st)")
  case (Pair answer w)
  show ?thesis
  proof (cases answer)
    case (Inl e)
    then show ?thesis using Pair port_lawsD(13) [OF assms, of "se_core st" e w] by (simp add: openReplica_def wp_rules)
  next
    case (Inr opened)
    then show ?thesis using Pair port_lawsD(14) [OF assms, of "se_core st" opened w] by (simp add: openReplica_def wp_rules)
  qed
qed

lemma reloadNow_wp:
  assumes laws: "port_laws port view" and ok: "live view st"
  shows "wp (reloadNow port) (\<lambda>r st'. live view st') st"
proof (cases "se_closeRequested st \<or> se_status st \<noteq> Ready")
  case True
  then show ?thesis using ok by (simp add: reloadNow_def wp_rules)
next
  case False
  have tail: "wp (then_job (openReplica port) (\<lambda>opened.
         then_job (read_job se_save) (\<lambda>save.
         then_job (reconcile port save AllHydrated True None) (\<lambda>_.
         change_job (\<lambda>st. st\<lparr>se_recovery := Some (or_recovery opened)\<rparr>))))) (\<lambda>r st'. live view st') st1"
    if live1: "live view st1" for st1
  proof (rule wp_step [OF openReplica_wp [OF laws]], goal_cases)
    case (1 e st2)
    then obtain w h c where "st2 = st1\<lparr>se_core := w, se_handle := h, se_cursor := c\<rparr>" "view w = view (se_core st1)" by blast
    then show ?case using live1 by (simp add: live_def keys_ok_def)
  next
    case (2 opened st2)
    then obtain w h c where "st2 = st1\<lparr>se_core := w, se_handle := h, se_cursor := c\<rparr>" by blast
    then have keys: "keys_ok st2" using live1 by (simp add: live_def keys_ok_def)
    have "wp (then_job (reconcile port (se_save st2) AllHydrated True None)
        (\<lambda>_. change_job (\<lambda>st. st\<lparr>se_recovery := Some (or_recovery opened)\<rparr>))) (\<lambda>r st'. live view st') st2"
      by (rule wp_step [OF reread_all_wp [OF laws keys]]) (simp_all add: wp_change live_def keys_ok_def)
    then show ?case by (simp add: wp_then [of "read_job f" for f] wp_read)
  qed
  have "live view (st\<lparr>se_core := snd (sp_releaseGraph port (se_handle st) (se_core st))\<rparr>)"
    using ok port_lawsD(3) [OF laws] by (simp add: live_def keys_ok_def)
  then show ?thesis using False tail ok
    by (simp add: reloadNow_def wp_then [of "read_job f" for f] wp_then [of "if b then m else n" for b m n]
        wp_read wp_if wp_port wp_return split: sum.split)
qed

lemma configureRemote_wp:
  assumes "port_laws port view"
  shows "wp (configureRemote port) (\<lambda>r st'. view (se_core st') = view (se_core st) \<and> st' = st\<lparr>se_core := se_core st'\<rparr>
     \<and> ((\<exists>b. r = Inr b) \<longrightarrow> se_remote st \<noteq> None \<longrightarrow> find (\<lambda>name. \<not> sp_has port name) sync_methods = None)) st"
  by (auto simp: configureRemote_def requireSyncPort_def wp_rules port_lawsD(6, 7) [OF assms]
      split: sum.split option.split)

lemma startWriting_wp:
  assumes "live view st"
  shows "wp (startWriting port) (\<lambda>r st'. live view st' \<and> se_status st' = se_status st
     \<and> se_hydratedOutlines st' = se_hydratedOutlines st \<and> se_needsReconcile st' = se_needsReconcile st
     \<and> se_following st' = se_following st \<and> (\<forall>e. r = Inl e \<longrightarrow> se_agent st' = se_agent st)) st"
  unfolding startWriting_def
proof (rule wp_step [OF restoreUnsaved_wp], goal_cases)
  case (2 replay st1)
  then have "aside st st1" "live view st1" using aside_live [OF _ assms] by simp_all
  then show ?case
    by (auto simp: requireSyncPort_def wp_rules live_def keys_ok_def aside_def split: option.split sum.split)
qed simp

lemma takeOverNow_wp:
  assumes laws: "port_laws port view" and ok: "live view st"
  shows "wp (takeOverNow port mode) (\<lambda>r st'. live view st') st"
proof (cases "se_closeRequested st")
  case True
  then show ?thesis using ok by (simp add: takeOverNow_def wp_rules)
next
  case False
  let ?st1 = "st\<lparr>se_lease := Some mode\<rparr>"
  have live1: "live view ?st1" using ok by (simp add: live_def keys_ok_def)
  have "wp (then_job (reloadNow port) (\<lambda>_.
         then_job (configureRemote port) (\<lambda>hasServerBase.
         then_job (change_job (\<lambda>st. set_access (accessFor (remoteReadonly st) mode hasServerBase) st)) (\<lambda>_.
         startWriting port)))) (\<lambda>r st'. live view st') ?st1"
  proof (rule wp_step [OF reloadNow_wp [OF laws live1]], goal_cases)
    case (2 u st2)
    show ?case
    proof (rule wp_step [OF configureRemote_wp [OF laws]], goal_cases)
      case (1 e st3)
      then obtain w where "st3 = st2\<lparr>se_core := w\<rparr>" "view w = view (se_core st2)" by blast
      then show ?case using \<open>live view st2\<close> by (simp add: live_def keys_ok_def)
    next
      case (2 base st3)
      then obtain w where "st3 = st2\<lparr>se_core := w\<rparr>" "view w = view (se_core st2)" by blast
      then have "live view (set_access (accessFor (remoteReadonly st3) mode base) st3)"
        using \<open>live view st2\<close> by (simp add: live_def keys_ok_def set_access_def)
      then show ?case by (auto simp: wp_then [of "change_job f" for f] wp_change intro!: wp_mono [OF startWriting_wp])
    qed
  qed simp
  then show ?thesis using False by (simp add: takeOverNow_def wp_then [of "read_job f" for f] wp_then [of "change_job f" for f] wp_read wp_change)
qed

lemma close_finish_wp:
  assumes laws: "port_laws port view" and ok: "live view st"
  shows "wp (close_finish port) (\<lambda>r st'. live view st') st"
  using ok by (simp add: close_finish_def wp_rules port_lawsD(4) [OF laws] live_def keys_ok_def split: sum.split)

text \<open>A session that is not open: nothing is hydrated, and no agent or writer is at work for it.\<close>

definition bare :: "('w, 'c) graph_session \<Rightarrow> bool" where
  "bare st \<longleftrightarrow> se_hydratedOutlines st = [] \<and> \<not> se_agent st \<and> \<not> se_following st \<and> \<not> se_needsReconcile st"

definition session_ok :: "('w \<Rightarrow> core_view) \<Rightarrow> ('w, 'c) graph_session \<Rightarrow> bool" where
  "session_ok view st \<longleftrightarrow> se_status st \<noteq> Ready \<and> bare st \<or> live view st"

lemma opened_live:
  assumes "view_ok v" and "bare st" and "view (se_core st) = v"
  shows "live view (set_access access (st\<lparr>se_status := Ready, se_snapshot := mergeSummary (cv_summary v) current, se_recovery := recovery\<rparr>))"
proof -
  have shown: "mirrors v (mergeSummary (cv_summary v) current) []" by (simp add: mirrors_def)
  show ?thesis using assms mirrors_disjoint [OF assms(1) shown] shown
    by (simp add: live_def keys_ok_def bare_def set_access_def)
qed

lemma open_ready_wp:
  assumes laws: "port_laws port view" and st: "se_status st \<noteq> Ready" "bare st"
    and summary: "or_summary opened = cv_summary (view (se_core st))"
  shows "wp (open_ready port mode opened closing) (\<lambda>r st'. session_ok view st' \<and> (\<forall>e. r = Inl e \<longrightarrow> bare st')) st"
proof -
  let ?st1 = "if closing then close_request st else st"
  have st1: "se_status ?st1 \<noteq> Ready" "bare ?st1" "se_core ?st1 = se_core st"
    using st by (simp_all add: close_request_def bare_def)
  have v: "view_ok (view (se_core st))" by (rule port_lawsD(1) [OF laws])
  have "wp (then_job (configureRemote port) (\<lambda>hasServerBase.
     then_job (change_job (\<lambda>st. set_access (accessFor (remoteReadonly st) mode hasServerBase)
       (st\<lparr>se_status := Ready, se_snapshot := mergeSummary (or_summary opened) (EMPTY_SNAPSHOT (gs_schema_version (se_snapshot st))),
           se_recovery := Some (or_recovery opened)\<rparr>))) (\<lambda>_.
     if mode = Exclusive then startWriting port else then_job followWriter (\<lambda>_. return_job None))))
     (\<lambda>r st'. session_ok view st' \<and> (\<forall>e. r = Inl e \<longrightarrow> bare st')) ?st1"
  proof (rule wp_step [OF configureRemote_wp [OF laws]], goal_cases)
    case (1 e st2)
    then obtain w where "st2 = ?st1\<lparr>se_core := w\<rparr>" by blast
    then show ?case using st1 by (simp add: session_ok_def bare_def)
  next
    case (2 base st2)
    then obtain w where st2: "st2 = ?st1\<lparr>se_core := w\<rparr>" "view w = view (se_core st)" using st1(3) by auto
    let ?st3 = "set_access (accessFor (remoteReadonly st2) mode base)
       (st2\<lparr>se_status := Ready, se_snapshot := mergeSummary (or_summary opened) (EMPTY_SNAPSHOT (gs_schema_version (se_snapshot st2))),
           se_recovery := Some (or_recovery opened)\<rparr>)"
    have bare2: "bare st2" using st1 st2 by (simp add: bare_def)
    have live3: "live view ?st3" unfolding summary by (rule opened_live [OF v bare2]) (simp add: st2)
    have bare3: "bare ?st3" using bare2 by (simp add: bare_def set_access_def)
    show ?case
    proof (cases "mode = Exclusive")
      case True
      have "wp (startWriting port) (\<lambda>r st'. session_ok view st' \<and> (\<forall>e. r = Inl e \<longrightarrow> bare st')) ?st3"
        by (rule wp_mono [OF startWriting_wp [OF live3]]) (use bare3 in \<open>auto simp: session_ok_def bare_def\<close>)
      then show ?thesis using True
        by (simp add: wp_then [of "change_job f" for f] wp_change)
    next
      case False
      then show ?thesis using live3
        by (simp add: wp_rules followWriter_def session_ok_def live_def keys_ok_def)
    qed
  qed
  then show ?thesis by (simp add: open_ready_def meanwhile_def wp_then [of "change_job f" for f] wp_change)
qed

lemma close_keeps:
  assumes "se_status st \<noteq> Ready" and "bare st"
  shows "se_status (if closing then close_request st else st) \<noteq> Ready \<and> bare (if closing then close_request st else st)"
  using assms by (simp add: close_request_def bare_def)

lemma session_idle: "se_status st \<noteq> Ready \<Longrightarrow> bare st \<Longrightarrow> session_ok view st"
  by (simp add: session_ok_def)

lemma openNow_wp:
  assumes laws: "port_laws port view" and st: "se_status st \<noteq> Ready" "bare st"
  shows "wp (openNow port lease closings) (\<lambda>r st'. session_ok view st') st"
  unfolding openNow_def
proof (rule wp_step_catch [where P = "\<lambda>r st'. session_ok view st' \<and> (\<forall>e. r = Inl e \<longrightarrow> bare st')"], goal_cases)
  case 1
  let ?close = "\<lambda>closing st. if closing then close_request st else st"
  let ?st1 = "?close (fst closings) st"
  show ?case
  proof (cases lease)
    case (Inl e)
    then show ?thesis using close_keeps [OF st, of "fst closings"]
      by (cases "fst closings") (simp_all add: session_ok_def meanwhile_def wp_then [of "change_job f" for f] wp_then [of "lift_job x" for x] wp_change wp_lift)
  next
    case (Inr mode)
    let ?st2 = "?st1\<lparr>se_lease := Some mode\<rparr>"
    have st2: "se_status ?st2 \<noteq> Ready" "bare ?st2" using close_keeps [OF st, of "fst closings"] by (simp_all add: bare_def)
    let ?st3 = "?close (fst (snd closings)) ?st2"
    have st3: "se_status ?st3 \<noteq> Ready" "bare ?st3" using close_keeps [OF st2] by simp_all
    have rest: "wp (then_job (openReplica port) (\<lambda>opened.
               then_job (read_job se_closeRequested) (\<lambda>closed.
                 if closed then return_job None else open_ready port mode opened (snd (snd closings)))))
          (\<lambda>r st'. session_ok view st' \<and> (\<forall>e. r = Inl e \<longrightarrow> bare st')) ?st3"
    proof (rule wp_step [OF openReplica_wp [OF laws]], goal_cases)
      case (1 e st4)
      then obtain w h c where "st4 = ?st3\<lparr>se_core := w, se_handle := h, se_cursor := c\<rparr>" by blast
      then have "se_status st4 \<noteq> Ready" "bare st4" using st3 by (simp_all add: bare_def)
      then show ?case using session_idle by simp
    next
      case (2 opened st4)
      then obtain w h c where "st4 = ?st3\<lparr>se_core := w, se_handle := h, se_cursor := c\<rparr>" by blast
      then have st4: "se_status st4 \<noteq> Ready" "bare st4" using st3 by (simp_all add: bare_def)
      have "or_summary opened = cv_summary (view (se_core st4))" using 2 by simp
      from open_ready_wp [OF laws st4 this] show ?case using session_idle [OF st4] st4
        by (simp add: wp_then [of "read_job f" for f] wp_read wp_return)
    qed
    show ?thesis using Inr rest session_idle [OF st2]
      by (simp add: meanwhile_def wp_then [of "change_job f" for f] wp_then [of "lift_job x" for x]
          wp_then [of "read_job f" for f] wp_change wp_lift wp_read wp_return)
  qed
next
  case (2 e st')
  then show ?case by (auto simp: wp_rules session_ok_def bare_def)
qed simp


subsection \<open>The life of a session\<close>

text \<open>The jobs its callers, the sync agent and a following tab put on the lane, in the order they
  run, and the calls between them. The agent and the follower only act while they exist.\<close>

datatype ('w, 'c, 'q, 'b) session_event =
    ExecuteEvent "'c command"
  | PreparedEvent "('w, 'c) graph_session \<Rightarrow> failure + 'c command option"
  | QueryEvent 'q
  | HydrateEvent outline_owner
  | HydrateAllEvent "outline_owner list"
  | RetryEvent
  | ReplayEvent "'c kept_edit list"
  | ImportEvent bool 'b
  | ReplaceEvent bool "'b checkpoint"
  | ReloadEvent
  | TakeOverEvent lease_mode
  | VisibilityEvent bool bool "'c kept_edit list list"
  | CloseEvent
  | ClosedEvent

fun run_event ::
  "('w, 'c, 'q, 'a, 'b) session_port \<Rightarrow> ('w, 'c, 'q, 'b) session_event \<Rightarrow> ('w, 'c) graph_session \<Rightarrow> ('w, 'c) graph_session" where
  "run_event port (ExecuteEvent command) st = snd (executeNow port command st)"
| "run_event port (PreparedEvent prepare) st = snd (executePrepared port prepare st)"
| "run_event port (QueryEvent request) st = snd (queryFrame port request st)"
| "run_event port (HydrateEvent owner) st = snd (hydrateOutlineNow port owner st)"
| "run_event port (HydrateAllEvent owners) st = snd (hydrateOutlinesNow port (missing_outlines st owners) st)"
| "run_event port RetryEvent st = snd (retryNow port st)"
| "run_event port (ReplayEvent edits) st = snd (replay_edits port edits st)"
| "run_event port (ImportEvent current bytes) st = (if se_agent st then snd (applyRemote port current bytes st) else st)"
| "run_event port (ReplaceEvent current checkpoint) st =
     (if se_agent st then snd (replaceRemote port current checkpoint st) else st)"
| "run_event port ReloadEvent st = (if se_following st then snd (reloadNow port st) else st)"
| "run_event port (TakeOverEvent mode) st =
     (if se_following st then snd (takeOverNow port mode (st\<lparr>se_following := False\<rparr>)) else st)"
| "run_event port (VisibilityEvent hidden writable sources) st = visibilityChanged hidden writable sources st"
| "run_event port CloseEvent st = close_request st"
| "run_event port ClosedEvent st = snd (close_finish port st)"

definition session_after ::
  "('w, 'c, 'q, 'a, 'b) session_port \<Rightarrow> failure + lease_mode \<Rightarrow> bool \<times> bool \<times> bool \<Rightarrow> ('w, 'c) graph_session \<Rightarrow>
   ('w, 'c, 'q, 'b) session_event list \<Rightarrow> ('w, 'c) graph_session" where
  "session_after port lease closings st events =
     fold (run_event port) events (snd (openNow port lease closings st))"

lemma wp_snd: "wp m (\<lambda>r st'. P st') st \<longleftrightarrow> P (snd (m st))"
  by (simp add: wp_def)

lemma ensureCurrent_current: "\<not> se_needsReconcile st \<Longrightarrow> ensureCurrent port st = (Inr (), st)"
  by (simp add: ensureCurrent_def then_job_def read_job_def return_job_def)

lemma run_event_bare:
  assumes "se_status st \<noteq> Ready" and "bare st"
  shows "se_status (run_event port event st) \<noteq> Ready \<and> bare (run_event port event st)"
proof -
  let ?Q = "\<lambda>r st'. se_status st' \<noteq> Ready \<and> bare st'"
  have execute: "executeNow port command st1 = (Inl not_open, st1)" if "se_status st1 \<noteq> Ready" "bare st1" for command st1
    using that by (simp add: executeNow_def then_job_def ensureCurrent_current read_job_def throw_job_def bare_def)
  have replay: "wp (replay_edit port edit) (\<lambda>r st'. (\<forall>e. r \<noteq> Inl e) \<and> ?Q r st') st1"
    if "se_status st1 \<noteq> Ready" "bare st1" for edit st1
  proof -
    have run: "wp (case command of None \<Rightarrow> return_job () | Some c \<Rightarrow> then_job (executeNow port c) (\<lambda>_. return_job ())) ?Q st2"
      if "se_status st2 \<noteq> Ready" "bare st2" for command st2
      using that by (cases command) (simp_all add: wp_rules, simp add: wp_def execute)
    have "wp (then_job (case edit of KeptCommand command \<Rightarrow> return_job (Some command) | KeptContent content \<Rightarrow> resumeContent port content)
        (\<lambda>command. case command of None \<Rightarrow> return_job () | Some c \<Rightarrow> then_job (executeNow port c) (\<lambda>_. return_job ()))) ?Q st1"
    proof (rule wp_step [where P = ?Q])
      show "wp (case edit of KeptCommand command \<Rightarrow> return_job (Some command) | KeptContent content \<Rightarrow> resumeContent port content) ?Q st1"
        using that by (cases edit) (simp_all add: wp_rules resumeContent_def bare_def split: sum.split option.split)
    qed (use run in blast)+
    then show ?thesis unfolding replay_edit_def
      by (rule wp_step_catch) (simp_all add: wp_return)
  qed
  have replays: "wp (replay_edits port edits) ?Q st" for edits
    unfolding replay_edits_def
  proof (rule wp_step [where P = ?Q])
    show "wp (each_job (replay_edit port) edits) ?Q st"
      by (rule wp_each [where I = "\<lambda>st'. se_status st' \<noteq> Ready \<and> bare st'"])
        (use assms in \<open>auto intro!: wp_mono [OF replay] split: sum.splits\<close>)
  qed (auto simp: wp_change forgetUnsaved_def keepUnsaved_def bare_def)
  show ?thesis
  proof (cases event)
    case (PreparedEvent prepare)
    have "wp (executePrepared port prepare) ?Q st"
      using assms by (auto simp: executePrepared_def wp_then wp_read wp_lift wp_return split: sum.split option.split)
        (auto simp: wp_def ensureCurrent_current execute bare_def split: sum.split option.split)
    then show ?thesis using PreparedEvent by (simp add: wp_def)
  next
    case ClosedEvent
    have "wp (close_finish port) ?Q st"
      using assms by (simp add: close_finish_def wp_rules bare_def split: sum.split)
    then show ?thesis using ClosedEvent by (simp add: wp_def)
  qed (use assms replays in \<open>simp_all add: execute queryFrame_def hydrateOutlineNow_def hydrateOutlinesNow_def retryNow_def
      then_job_def ensureCurrent_current read_job_def throw_job_def return_job_def bare_def visibilityChanged_def keepUnsavedNow_def
      forgetUnsaved_def keepUnsaved_def close_request_def close_finish_def change_job_def catch_job_def port_job_def wp_def
      Let_def split: sum.splits prod.splits\<close>)
qed

lemma run_event_ok:
  assumes laws: "port_laws port view" and ok: "session_ok view st"
  shows "session_ok view (run_event port event st)"
proof (cases "live view st")
  case False
  then show ?thesis using ok run_event_bare by (auto simp: session_ok_def)
next
  case True
  have upd: "live view (st\<lparr>se_following := False\<rparr>)" "live view (close_request st)"
      "live view (visibilityChanged hidden writable sources st)" for hidden writable sources
    using True by (simp_all add: live_def keys_ok_def close_request_def visibilityChanged_def keepUnsavedNow_def
        forgetUnsaved_def keepUnsaved_def Let_def)
  have "live view (run_event port event st)"
  proof (cases event)
    case (ExecuteEvent command)
    then show ?thesis using executeNow_wp [OF laws True, of command] by (simp add: wp_def)
  next
    case (QueryEvent request)
    then show ?thesis using queryFrame_wp [OF laws True, of request] by (simp add: wp_def)
  qed (use True upd executePrepared_wp [OF laws] hydrateOutlineNow_wp [OF laws] hydrateOutlinesNow_wp [OF laws]
        retryNow_wp [OF laws] replay_edits_wp [OF laws] applyRemote_wp [OF laws] replaceRemote_wp [OF laws]
        reloadNow_wp [OF laws] takeOverNow_wp [OF laws] close_finish_wp [OF laws] in \<open>simp_all add: wp_snd\<close>)
  then show ?thesis by (simp add: session_ok_def)
qed

lemma session_after_ok:
  assumes "port_laws port view" and "se_status st \<noteq> Ready" and "bare st"
  shows "session_ok view (session_after port lease closings st events)"
proof -
  have "session_ok view (snd (openNow port lease closings st))"
    using openNow_wp [OF assms] by (simp add: wp_snd)
  then have "session_ok view (fold (run_event port) events (snd (openNow port lease closings st)))"
    by (induction events rule: rev_induct) (simp_all add: run_event_ok [OF assms(1)])
  then show ?thesis by (simp add: session_after_def)
qed

end
