(* ===== verification/Session_Properties.thy ===== *)
theory Session_Properties
  imports Session_Safety
begin

text \<open>
  The properties of a session: what its views show is what the core holds, and what a command
  leaves behind however the core answers it.
\<close>

subsection \<open>Whatever the core answers\<close>

text \<open>No request fails with the result of an applied command: the worker's failures carry none
  (\<open>core-worker.ts\<close>), only the session adds one.\<close>

fun plain :: "failure \<Rightarrow> bool" where
  "plain (PortFailure detail (Some result)) = False"
| "plain _ = True"

definition port_plain :: "('w, 'c, 'q, 'a, 'b) session_port \<Rightarrow> bool" where
  "port_plain port \<longleftrightarrow>
     (\<forall>handle w e. fst (sp_read port handle w) = Inl e \<longrightarrow> plain e)
   \<and> (\<forall>handle owner w e. fst (sp_readOutline port handle owner w) = Inl e \<longrightarrow> plain e)
   \<and> (\<forall>handle command w e. fst (sp_execute port handle command w) = Inl e \<longrightarrow> plain e)"

lemma poll_events_frame:
  "wp (poll_events port) (\<lambda>r st'. r = Inr () \<and> kept_fields st st' \<and> se_canonicalRevision st' = se_canonicalRevision st
     \<and> se_needsReconcile st' = se_needsReconcile st) st"
  by (simp add: poll_events_def wp_rules kept_fields_def split: sum.split)

text \<open>A job that reads: only the core moves, and failures are plain.\<close>

definition read_only_step ::
  "('w, 'c) graph_session \<Rightarrow> failure + 'x \<Rightarrow> ('w, 'c) graph_session \<Rightarrow> bool" where
  "read_only_step st r st' \<longleftrightarrow> kept_fields st st' \<and> se_canonicalRevision st' = se_canonicalRevision st
     \<and> se_needsReconcile st' = se_needsReconcile st \<and> (\<forall>e. r = Inl e \<longrightarrow> plain e)"

lemma reconcile_summary_frame:
  assumes "port_plain port"
  shows "wp (reconcile_summary port scope) (read_only_step st) st"
  using assms
  by (cases scope) (auto simp: reconcile_summary_def wp_rules read_only_step_def kept_fields_def port_plain_def
      split: sum.split bool.split)

lemma rereads_frame:
  assumes "port_plain port"
  shows "wp (fold_job (reread port) owners snapshot) (read_only_step st) st"
proof (rule wp_fold [where I = "\<lambda>_ _. read_only_step st (Inr ())"])
  fix owner owners' snapshot' and st'
  assume "read_only_step st (Inr () :: failure + unit) st'"
  then show "wp (reread port owner snapshot') (\<lambda>r s'. case r of Inl e \<Rightarrow> read_only_step st (Inl e) s'
      | Inr a' \<Rightarrow> read_only_step st (Inr () :: failure + unit) s') st'"
    using assms by (auto simp: reread_def wp_rules read_only_step_def kept_fields_def port_plain_def split: sum.split)
qed (simp_all add: read_only_step_def kept_fields_def)

lemma parse_keys_plain: "parse_keys keys snapshot = Inl e \<Longrightarrow> plain e"
proof (induction keys arbitrary: e)
  case (Cons key keys)
  show ?case
  proof (cases "parseOutlineKey key snapshot")
    case (Inl e')
    then show ?thesis using Cons.prems by (auto simp: parseOutlineKey_def Let_def split: prod.splits if_splits)
  next
    case (Inr owner)
    then show ?thesis using Cons by (cases "parse_keys keys snapshot") auto
  qed
qed simp

lemma lift_plain:
  "owners_to_read scope snapshot hydrated = Inl e \<Longrightarrow> plain e"
  "still_hydrated snapshot owners hydrated = Inl e \<Longrightarrow> plain e"
  by (auto simp: owners_to_read_def still_hydrated_def map_sum_def split: reconcile_scope.splits sum.splits dest: parse_keys_plain)

definition settled ::
  "save_state \<Rightarrow> bool \<Rightarrow> ('w, 'c) graph_session \<Rightarrow> failure + unit \<Rightarrow> ('w, 'c) graph_session \<Rightarrow> bool" where
  "settled save counts st r st' \<longleftrightarrow> kept_fields st st' \<and>
     (case r of
        Inl e \<Rightarrow> plain e \<and> se_needsReconcile st'
      | Inr _ \<Rightarrow> (se_needsReconcile st' \<longrightarrow> se_needsReconcile st) \<and> se_save st' = save
          \<and> (counts \<longrightarrow> se_canonicalRevision st' = se_canonicalRevision st + 1))"

lemma reconcile_settles:
  assumes plain: "port_plain port"
  shows "wp (reconcile port save scope changed lastChange) (settled save changed st) st"
  unfolding reconcile_def wp_then [of "read_job f" for f] wp_read sum.case Let_def
    wp_then [of "change_job f" for f] wp_change
proof (rule wp_step [OF poll_events_frame], goal_cases)
  case (2 u st1)
  let ?ok = "\<lambda>st'. kept_fields st st' \<and> se_canonicalRevision st' = se_canonicalRevision st \<and> se_needsReconcile st'"
  have step: "?ok st'" if "?ok s" "read_only_step s r st'" for s and r :: "failure + 'x" and st'
    using that by (auto simp: read_only_step_def kept_fields_def)
  have fail: "settled save changed st (Inl e) s" if "?ok s" "plain e" for e s
    using that by (simp add: settled_def)
  have st1: "?ok st1" using 2 by (simp add: kept_fields_def)
  show ?case
  proof (rule wp_step [OF reconcile_summary_frame [OF plain]], goal_cases)
    case (1 e st2)
    then show ?case using st1 by (auto simp: settled_def read_only_step_def kept_fields_def)
  next
    case (2 merged st2)
    then have st2: "?ok st2" using st1 by (auto simp: read_only_step_def kept_fields_def)
    show ?case unfolding wp_then [of "read_job f" for f] wp_read sum.case
    proof (rule wp_step [where P = "\<lambda>r st'. st' = st2 \<and> (\<forall>e. r = Inl e \<longrightarrow> plain e)"], goal_cases)
      case 1
      then show ?case by (auto simp: wp_lift lift_plain)
    next
      case (2 e st3)
      then show ?case using st2 fail by blast
    next
      case (3 owners st3)
      then have st3: "?ok st3" using st2 by simp
      show ?case
      proof (rule wp_step [OF rereads_frame [OF plain]], goal_cases)
        case (1 e st4)
        then show ?case using st3 by (auto simp: settled_def read_only_step_def kept_fields_def)
      next
        case (2 snapshot st4)
        then have st4: "?ok st4" using st3 by (auto simp: read_only_step_def kept_fields_def)
        then show ?case
          by (auto simp: wp_then wp_lift wp_change settled_def kept_fields_def split: sum.split dest: lift_plain)
      qed
    qed
  qed
qed simp

lemma publishChanges_settles:
  assumes plain: "port_plain port"
  shows "wp (publishChanges port changes save commandId) (settled save True st) st"
proof (cases changes)
  case (RefreshChanges owners blocks summary)
  then show ?thesis by (simp add: publishChanges_def reconcile_settles [OF plain])
next
  case (ContentChanges updates)
  have poll: "wp (consumeLocalEvents port) (\<lambda>r st'. (\<forall>e. r \<noteq> Inl e) \<and> kept_fields st st'
      \<and> se_canonicalRevision st' = se_canonicalRevision st \<and> se_needsReconcile st' = se_needsReconcile st) st"
    by (simp add: consumeLocalEvents_def wp_rules kept_fields_def split: sum.split)
  show ?thesis unfolding publishChanges_def ContentChanges graph_changes.case
  proof (rule wp_step [OF poll], goal_cases)
    case (2 local_only st1)
    show ?case
    proof (cases local_only)
      case True
      then show ?thesis using 2 by (simp add: wp_change settled_def kept_fields_def)
    next
      case False
      then show ?thesis using 2
        by (auto intro!: wp_mono [OF reconcile_settles [OF plain]] simp: settled_def kept_fields_def split: sum.splits)
    qed
  qed auto
qed



subsection \<open>What the views show\<close>

lemma session_after_live:
  assumes "port_laws port view"
    and "st = session_after port lease closings (new_session core schemaVersion remote broadcast kept) events"
    and "se_status st = Ready"
  shows "live view st"
proof -
  have "session_ok view st" unfolding assms(2)
    by (rule session_after_ok [OF assms(1)]) (simp_all add: new_session_def bare_def)
  then show ?thesis using assms(3) by (simp add: session_ok_def)
qed

text \<open>
  C34. The views show what the core holds: in every state a session can reach, by any sequence
  of commands, reads, remote updates, reloads, take-overs and closings, failed ones included,
  the snapshot has the core's summary and, for every hydrated document, the core's outline, or
  the session knows that it is stale. A command that answers and a query that answers leave it
  in step, and a query is answered at the revision the views show.
\<close>

theorem session_shows_core:
  assumes "port_laws port view"
    and "st = session_after port lease closings (new_session core schemaVersion remote broadcast kept) events"
    and "se_status st = Ready"
  shows "(se_needsReconcile st \<or> mirrors (view (se_core st)) (se_snapshot st) (se_hydratedOutlines st))
    \<and> (case executeNow port command st of
        (Inl error, st') \<Rightarrow> se_needsReconcile st' \<or> mirrors (view (se_core st')) (se_snapshot st') (se_hydratedOutlines st')
      | (Inr result, st') \<Rightarrow> mirrors (view (se_core st')) (se_snapshot st') (se_hydratedOutlines st'))
    \<and> (case queryFrame port request st of
        (Inl error, st') \<Rightarrow> se_needsReconcile st' \<or> mirrors (view (se_core st')) (se_snapshot st') (se_hydratedOutlines st')
      | (Inr (asked, answer, revision), st') \<Rightarrow> asked = request \<and> revision = se_canonicalRevision st'
          \<and> mirrors (view (se_core st')) (se_snapshot st') (se_hydratedOutlines st'))"
proof -
  have live: "live view st" by (rule session_after_live [OF assms])
  obtain r1 s1 where execute: "executeNow port command st = (r1, s1)" by (cases "executeNow port command st")
  obtain r2 s2 where query: "queryFrame port request st = (r2, s2)" by (cases "queryFrame port request st")
  show ?thesis
    using live wpD [OF executeNow_wp [OF assms(1) live] execute] wpD [OF queryFrame_wp [OF assms(1) live] query]
    unfolding execute query by (auto simp: live_def split: sum.split)
qed


subsection \<open>A core in memory\<close>

text \<open>A graph of one page whose outline every command replaces by another.\<close>

definition edited_outline :: "block_snapshot list" where
  "edited_outline = [Block (js ''a'') [Markdown (js ''new'')] (js ''new'') [] [] [] []]"

definition memory_view :: "bool \<Rightarrow> core_view" where
  "memory_view edited = \<lparr>cv_summary = sample_summary,
     cv_outline = (\<lambda>_. if edited then edited_outline else sample_outline)\<rparr>"

definition memory_result :: command_result where
  "memory_result = \<lparr>cr_command_id = js ''id'', cr_created_page = None, cr_created_block = None,
     cr_created_tag = None, cr_history_effect = None\<rparr>"

definition memory_owner :: outline_owner where
  "memory_owner = \<lparr>owner_kind = PageOwner, owner_id = js ''p''\<rparr>"

definition memory_changes :: graph_changes where
  "memory_changes = RefreshChanges (Some [memory_owner]) [] False"

definition memory_port :: "(bool, unit, unit, unit, unit) session_port" where
  "memory_port = \<lparr>sp_has = (\<lambda>_. True),
     sp_openGraph = (\<lambda>w. (Inr \<lparr>or_graph_handle = js ''h'', or_summary = sample_summary,
        or_recovery = \<lparr>rc_checkpoint_sequence = 0, rc_replayed_updates = 0, rc_quarantined_records = []\<rparr>\<rparr>, w)),
     sp_releaseGraph = (\<lambda>_ w. (Inr (), w)), sp_closeGraph = (\<lambda>_ w. (Inr (), w)),
     sp_execute = (\<lambda>_ _ w. (Inr \<lparr>er_result = memory_result, er_changes = memory_changes,
        er_save_status = SavedLocally 1\<rparr>, True)),
     sp_read = (\<lambda>_ w. (Inr sample_summary, w)),
     sp_readOutline = (\<lambda>_ owner w. (if owner_id owner = js ''p''
        then Inr \<lparr>os_owner = owner, os_blocks = cv_outline (memory_view w) (js ''p'')\<rparr>
        else Inl (OtherFailure (js ''unknown'')), w)),
     sp_query = (\<lambda>_ _ w. (Inr (), w)),
     sp_subscribe = (\<lambda>_ n w. (Inr \<lparr>sr_events = [LocalEvent], sr_next_cursor = n + 1, sr_resync_required = False\<rparr>, w)),
     sp_retryPending = (\<lambda>_ w. (Inr 1, w)), sp_configureSync = (\<lambda>_ w. (Inr (), w)), sp_syncState = (\<lambda>_ w. (Inr True, w)),
     sp_importRemote = (\<lambda>_ _ w. (Inr \<lparr>rr_local_sequence = 1, rr_changes = memory_changes\<rparr>, True)),
     sp_replaceRemote = (\<lambda>_ _ w. (Inr (), True))\<rparr>"

lemma memory_view_sel:
  "cv_summary (memory_view w) = sample_summary"
  "cv_outline (memory_view w) ident = (if w then edited_outline else sample_outline)"
  by (simp_all add: memory_view_def)

lemma memory_laws: "port_laws memory_port memory_view"
proof -
  have titles: "retitle sample_summary sample_outline = sample_outline" "retitle sample_summary edited_outline = edited_outline"
    by code_simp+
  have p: "listed sample_summary ident \<longleftrightarrow> ident = js ''p''" for ident
    by (auto simp: listed_def sample_summary_def)
  have "js ''p'' \<noteq> []" by code_simp
  then have view: "view_ok (memory_view w)" for w
    by (auto simp: view_ok_def memory_view_def titles p) (simp add: sample_summary_def)
  have changed: "changes_ok memory_changes (memory_view w) (memory_view True)" for w
    by (auto simp: changes_ok_def memory_changes_def memory_owner_def memory_view_def p)
  show ?thesis unfolding port_laws_def quiet_def
    by (auto simp: view changed memory_port_def p memory_view_sel split: if_splits)
qed

definition memory_session :: "(bool, unit) graph_session" where
  "memory_session = new_session False 1 None True []"

definition memory_events :: "(bool, unit, unit, unit) session_event list" where
  "memory_events = [HydrateEvent memory_owner, ExecuteEvent (OtherCommand ())]"

theorem session_shows_core_witness:
  "findOutline (se_snapshot (session_after memory_port (Inr Exclusive) (False, False, False) memory_session memory_events))
     memory_owner = Some edited_outline"
proof -
  let ?st = "session_after memory_port (Inr Exclusive) (False, False, False) memory_session memory_events"
  have "se_status ?st = Ready" by code_simp
  moreover have "\<not> se_needsReconcile ?st" by code_simp
  moreover have core: "se_core ?st = True" by code_simp
  moreover have "doc_key (js ''p'') \<in> set (se_hydratedOutlines ?st)" by code_simp
  ultimately have "findOutline (se_snapshot ?st) (doc (js ''p'')) = Some (cv_outline (memory_view True) (js ''p''))"
    using session_shows_core [OF memory_laws, of ?st "Inr Exclusive" "(False, False, False)" False 1 None True "[]" memory_events]
    by (simp add: memory_session_def mirrors_def)
  then show ?thesis by (simp add: memory_view_def memory_owner_def doc_def)
qed

definition memory_ready :: "(bool, unit) graph_session" where
  "memory_ready = session_after memory_port (Inr Exclusive) (False, False, False) memory_session []"


text \<open>
  Closing while the sync state of a remote graph is read: \<open>closeNow\<close> finds no agent to stop,
  and \<open>openNow\<close> then starts one, so a closed session keeps an agent running.
\<close>

lemma late_close_leaves_agent:
  "let st = snd (close_finish memory_port (snd (openNow memory_port (Inr Exclusive) (False, False, True)
       (memory_session\<lparr>se_remote := Some \<lparr>rm_viewer = False, rm_read_only = False\<rparr>\<rparr>))))
   in se_status st = Closed \<and> se_closeRequested st \<and> se_agent st"
  by code_simp

text \<open>
  A command still in its lane when the session closes is applied and saved, but announcing it on
  the closed channel throws, so its caller is told it failed.
\<close>

lemma closing_reports_failure:
  "case executeNow memory_port (OtherCommand ()) (close_request (snd (executeNow memory_port (OtherCommand ()) memory_ready))) of
      (Inl (PortFailure detail (Some result)), st) \<Rightarrow> result = memory_result \<and> se_save st = Saved 1
    | _ \<Rightarrow> False"
  by code_simp

end
