(* ===== verification/Auto_Pair.thy ===== *)
theory Auto_Pair
  imports Js_String
begin

text \<open>
  Paired delimiters (\<open>features/blocks/editor/auto-pair.ts\<close>): what a typed opener, closer or
  backspace becomes (\<open>planAutoPair\<close>), the provenance of the closers the editor put in
  (\<open>transformAutoClosers\<close>), and the repair of a closer an input method typed in front of such a
  closer (\<open>planAutoPairInputRepair\<close>). Offsets are UTF-16, as the textarea counts. The Unicode
  class \<open>[\p{L}\p{N}]\<close> of \<open>WORD_CHARACTER\<close> is the parameter \<open>word\<close>, a test of one code point.

  The lemmas show that every plan lies inside the text, that the edit between two texts is a
  real one (common text before and behind it), and that provenance follows its closer.
\<close>

subsection \<open>Data\<close>

datatype pair_direction = Forward | Backward | NoDirection

record auto_pair_input =
  ap_value :: js_string
  ap_start :: int
  ap_end :: int
  ap_direction :: pair_direction
  ap_inputType :: js_string
  ap_data :: "js_string option"
  ap_isComposing :: bool
  ap_code :: bool

record auto_closer =
  ac_opener :: js_string
  ac_closer :: js_string
  ac_offset :: int

record text_edit_plan =
  te_from :: int
  te_to :: int
  te_insert :: js_string
  te_selectionStart :: int
  te_selectionEnd :: int
  te_direction :: pair_direction
  te_autoCloser :: "auto_closer option"

definition PAIRS :: "js_string \<rightharpoonup> js_string" where
  "PAIRS = map_of
     [([0x28], [0x29]), ([0x5B], [0x5D]), ([0x7B], [0x7D]), ([0x22], [0x22]), ([0x27], [0x27]), ([0x60], [0x60])]"

definition CLOSERS :: "js_string list" where
  "CLOSERS = [[0x29], [0x5D], [0x7D], [0x22], [0x27], [0x60]]"

definition SYMMETRIC :: "js_string list" where
  "SYMMETRIC = [[0x22], [0x27], [0x60]]"

subsection \<open>Around the caret\<close>

definition previousPoint :: "js_string \<Rightarrow> int \<Rightarrow> js_string" where
  "previousPoint v offset =
     (case last_opt (code_points (js_slice v 0 offset)) of None \<Rightarrow> [] | Some p \<Rightarrow> p)"

definition nextPoint :: "js_string \<Rightarrow> int \<Rightarrow> js_string" where
  "nextPoint v offset = (case code_points (js_slice_from v offset) of [] \<Rightarrow> [] | p # ps \<Rightarrow> p)"

text \<open>The backslashes before \<open>offset\<close>, counted backwards, are odd in number.\<close>

definition isEscaped :: "js_string \<Rightarrow> int \<Rightarrow> bool" where
  "isEscaped v offset \<longleftrightarrow> odd (length (takeWhile (\<lambda>u. u = 0x5C) (rev (js_slice v 0 offset))))"

definition canOpenSymmetric :: "(js_string \<Rightarrow> bool) \<Rightarrow> js_string \<Rightarrow> int \<Rightarrow> int \<Rightarrow> bool" where
  "canOpenSymmetric word v s e \<longleftrightarrow> \<not> word (previousPoint v s) \<and> \<not> word (nextPoint v e)"

subsection \<open>The edit between two texts\<close>

record contiguous_edit =
  ce_start :: int
  ce_oldEnd :: int
  ce_newEnd :: int

text \<open>
  The range the caller saw replaced, when the two texts agree around it; the smallest range
  otherwise. \<open>preferredEnd\<close> is by default \<open>preferredStart ?? 0\<close>.
\<close>

definition preferred_edit :: "js_string \<Rightarrow> js_string \<Rightarrow> int option \<Rightarrow> int option \<Rightarrow> contiguous_edit option" where
  "preferred_edit before after preferredStart preferredEnd0 =
     (case preferredStart of
        None \<Rightarrow> None
      | Some s \<Rightarrow>
          let preferredEnd = (case preferredEnd0 of None \<Rightarrow> s | Some e \<Rightarrow> e);
              insertedLength = int (length after) - int (length before) + preferredEnd - s;
              newEnd = s + insertedLength
          in if 0 \<le> s \<and> s \<le> preferredEnd \<and> preferredEnd \<le> int (length before)
                \<and> 0 \<le> insertedLength
                \<and> js_slice after 0 s = js_slice before 0 s
                \<and> js_slice_from after newEnd = js_slice_from before preferredEnd
             then Some \<lparr>ce_start = s, ce_oldEnd = preferredEnd, ce_newEnd = newEnd\<rparr>
             else None)"

definition contiguousEdit :: "js_string \<Rightarrow> js_string \<Rightarrow> int option \<Rightarrow> int option \<Rightarrow> contiguous_edit" where
  "contiguousEdit before after preferredStart preferredEnd =
     (case preferred_edit before after preferredStart preferredEnd of
        Some edit \<Rightarrow> edit
      | None \<Rightarrow>
          let s = common_prefix (=) before after;
              k = common_suffix (=) s before after
          in \<lparr>ce_start = int s, ce_oldEnd = int (length before) - int k,
              ce_newEnd = int (length after) - int k\<rparr>)"

subsection \<open>Provenance of closers\<close>

definition at_closer :: "js_string \<Rightarrow> auto_closer \<Rightarrow> bool" where
  "at_closer v marker \<longleftrightarrow>
     js_slice v (ac_offset marker) (ac_offset marker + int (length (ac_closer marker))) = ac_closer marker"

text \<open>Where a marker is after the edit: shifted behind it, gone inside it.\<close>

definition shift_marker :: "contiguous_edit \<Rightarrow> auto_closer \<Rightarrow> auto_closer option" where
  "shift_marker edit marker =
     (if ce_oldEnd edit \<le> ac_offset marker
      then Some (marker\<lparr>ac_offset := ac_offset marker + (ce_newEnd edit - ce_oldEnd edit)\<rparr>)
      else if ce_start edit \<le> ac_offset marker then None
      else Some marker)"

definition transformAutoClosers ::
  "js_string \<Rightarrow> js_string \<Rightarrow> auto_closer list \<Rightarrow> int option \<Rightarrow> int option \<Rightarrow> auto_closer list" where
  "transformAutoClosers before after markers preferredStart preferredEnd =
     (if before = after then filter (at_closer after) markers
      else filter (at_closer after)
             (List.map_filter (shift_marker (contiguousEdit before after preferredStart preferredEnd)) markers))"

subsection \<open>Repairing an input method's closer\<close>

definition ends_with :: "'a list \<Rightarrow> 'a list \<Rightarrow> bool" where
  "ends_with xs ys \<longleftrightarrow> length ys \<le> length xs \<and> drop (length xs - length ys) xs = ys"

definition repairs :: "contiguous_edit \<Rightarrow> js_string \<Rightarrow> auto_closer \<Rightarrow> bool" where
  "repairs edit after marker \<longleftrightarrow>
     (let closer = ac_closer marker;
          insertedCloserStart = ce_newEnd edit - int (length closer)
      in ac_offset marker = ce_newEnd edit
         \<and> ce_start edit \<le> insertedCloserStart
         \<and> ends_with (js_slice after (ce_start edit) (ce_newEnd edit)) closer
         \<and> js_slice after insertedCloserStart (ce_newEnd edit) = closer
         \<and> at_closer after marker)"

definition planAutoPairInputRepair ::
  "js_string \<Rightarrow> js_string \<Rightarrow> auto_closer list \<Rightarrow> int option \<Rightarrow> int option \<Rightarrow> text_edit_plan option" where
  "planAutoPairInputRepair before after markers preferredStart preferredEnd =
     (if before = after \<or> markers = [] then None
      else let edit = contiguousEdit before after preferredStart preferredEnd
           in if js_slice after (ce_start edit) (ce_newEnd edit) = [] then None
              else case find (repairs edit after)
                          (transformAutoClosers before after markers preferredStart preferredEnd) of
                     None \<Rightarrow> None
                   | Some marker \<Rightarrow>
                       let n = int (length (ac_closer marker))
                       in Some \<lparr>te_from = ce_newEnd edit - n, te_to = ce_newEnd edit, te_insert = [],
                                te_selectionStart = ac_offset marker, te_selectionEnd = ac_offset marker,
                                te_direction = NoDirection,
                                te_autoCloser = Some (marker\<lparr>ac_offset := ac_offset marker - n\<rparr>)\<rparr>)"

subsection \<open>Planning one input\<close>

definition caret_plan :: "int \<Rightarrow> int \<Rightarrow> js_string \<Rightarrow> int \<Rightarrow> text_edit_plan" where
  "caret_plan f t ins caret =
     \<lparr>te_from = f, te_to = t, te_insert = ins, te_selectionStart = caret, te_selectionEnd = caret,
      te_direction = NoDirection, te_autoCloser = None\<rparr>"

text \<open>\<open>deleteContentBackward\<close> between an opener and its closer removes both.\<close>

definition plan_backspace :: "js_string \<Rightarrow> int \<Rightarrow> int \<Rightarrow> text_edit_plan option" where
  "plan_backspace v s e =
     (if s \<noteq> e \<or> s = 0 \<or> e = int (length v) then None
      else if PAIRS (js_slice v (s - 1) s) \<noteq> Some (js_slice v e (e + 1)) then None
      else Some (caret_plan (s - 1) (e + 1) [] (s - 1)))"

text \<open>A typed opener: it wraps a selection, or opens a pair where one may open.\<close>

definition plan_opener ::
  "(js_string \<Rightarrow> bool) \<Rightarrow> bool \<Rightarrow> js_string \<Rightarrow> int \<Rightarrow> int \<Rightarrow> pair_direction \<Rightarrow> js_string \<Rightarrow> js_string \<Rightarrow>
   text_edit_plan option" where
  "plan_opener word code v s e direction typed closer =
     (let selected = js_slice v s e; n = int (length typed)
      in if s \<noteq> e then
           Some \<lparr>te_from = s, te_to = e, te_insert = typed @ selected @ closer,
                 te_selectionStart = s + n, te_selectionEnd = e + n, te_direction = direction,
                 te_autoCloser = Some \<lparr>ac_opener = typed, ac_closer = closer,
                                       ac_offset = s + n + int (length selected)\<rparr>\<rparr>
         else if isEscaped v s then None
         else if typed \<in> set SYMMETRIC \<and> \<not> canOpenSymmetric word v s e then None
         else if (code \<or> typed = [0x60]) \<and> typed \<in> set SYMMETRIC \<and> previousPoint v s = typed then None
         else Some \<lparr>te_from = s, te_to = e, te_insert = typed @ closer,
                    te_selectionStart = s + n, te_selectionEnd = s + n, te_direction = NoDirection,
                    te_autoCloser = Some \<lparr>ac_opener = typed, ac_closer = closer, ac_offset = s + n\<rparr>\<rparr>)"

definition planAutoPair :: "(js_string \<Rightarrow> bool) \<Rightarrow> auto_pair_input \<Rightarrow> text_edit_plan option" where
  "planAutoPair word input =
     (let v = ap_value input; s = ap_start input; e = ap_end input
      in if ap_isComposing input then None
         else if s < 0 \<or> e < s \<or> int (length v) < e then None
         else if ap_inputType input = js ''deleteContentBackward'' then plan_backspace v s e
         else if ap_inputType input \<noteq> js ''insertText'' then None
         else case ap_data input of
                None \<Rightarrow> None
              | Some typed \<Rightarrow>
                  if length typed \<noteq> 1 then None
                  else if s = e \<and> typed \<in> set CLOSERS \<and> js_slice v s (s + 1) = typed
                  then Some (caret_plan s s [] (s + 1))
                  else case PAIRS typed of
                         None \<Rightarrow> None
                       | Some closer \<Rightarrow> plan_opener word (ap_code input) v s e (ap_direction input) typed closer)"

text \<open>\<open>applyTextEdit\<close> of \<open>BlockTextArea.tsx\<close>: the text after a plan.\<close>

definition applyTextEdit :: "js_string \<Rightarrow> text_edit_plan \<Rightarrow> js_string" where
  "applyTextEdit v plan = take (nat (te_from plan)) v @ te_insert plan @ drop (nat (te_to plan)) v"

text \<open>\<open>onInput\<close> of the outline: the markers of a block after an edit that may have put in a closer.\<close>

definition next_closers ::
  "js_string \<Rightarrow> js_string \<Rightarrow> auto_closer list \<Rightarrow> text_edit_plan option \<Rightarrow> auto_closer list" where
  "next_closers previous v markers edit =
     (let moved = transformAutoClosers previous v markers (map_option te_from edit) (map_option te_to edit)
      in case Option.bind edit te_autoCloser of
           None \<Rightarrow> moved
         | Some generated \<Rightarrow>
             filter (\<lambda>marker. ac_offset marker \<noteq> ac_offset generated \<or> ac_closer marker \<noteq> ac_closer generated) moved
             @ [generated])"

subsection \<open>Lemmas on edits\<close>

definition edit_between :: "js_string \<Rightarrow> js_string \<Rightarrow> contiguous_edit \<Rightarrow> bool" where
  "edit_between before after edit \<longleftrightarrow>
     0 \<le> ce_start edit \<and> ce_start edit \<le> ce_oldEnd edit \<and> ce_start edit \<le> ce_newEnd edit
     \<and> ce_oldEnd edit \<le> int (length before) \<and> ce_newEnd edit \<le> int (length after)
     \<and> take (nat (ce_start edit)) before = take (nat (ce_start edit)) after
     \<and> drop (nat (ce_oldEnd edit)) before = drop (nat (ce_newEnd edit)) after"

lemma preferred_edit_between:
  "preferred_edit before after s e = Some edit \<Longrightarrow> edit_between before after edit"
  by (auto simp: preferred_edit_def edit_between_def Let_def js_slice_nonneg js_slice_from_nonneg
      algebra_simps split: option.splits if_splits)

lemma contiguousEdit_between: "edit_between before after (contiguousEdit before after s e)"
proof (cases "preferred_edit before after s e")
  case None
  let ?s = "common_prefix (=) before after"
  let ?k = "common_suffix (=) ?s before after"
  have "?s \<le> length before" "?s \<le> length after" "?k \<le> length before - ?s" "?k \<le> length after - ?s"
    by (rule common_prefix_le common_suffix_le)+
  with None show ?thesis
    using common_prefix_take [of before after] common_suffix_drop [of before ?s after]
    by (auto simp: contiguousEdit_def edit_between_def Let_def nat_diff_distrib)
next
  case (Some edit)
  then show ?thesis
    by (simp add: contiguousEdit_def preferred_edit_between)
qed

lemma at_closer_drop:
  "0 \<le> ac_offset m \<Longrightarrow>
   at_closer v m \<longleftrightarrow> take (length (ac_closer m)) (drop (nat (ac_offset m)) v) = ac_closer m"
  by (simp add: at_closer_def js_slice_nonneg nat_add_distrib)

lemma shift_marker_cases:
  assumes "shift_marker edit m = Some m'"
  obtains (before_edit) "ac_offset m < ce_start edit" "m' = m"
  | (behind_edit) "ce_oldEnd edit \<le> ac_offset m"
      "m' = m\<lparr>ac_offset := ac_offset m + (ce_newEnd edit - ce_oldEnd edit)\<rparr>"
  using assms by (auto simp: shift_marker_def split: if_splits)

lemma drop_behind_edit:
  assumes "edit_between before after edit" "ce_oldEnd edit \<le> i"
  shows "drop (nat (i + (ce_newEnd edit - ce_oldEnd edit))) after = drop (nat i) before"
proof -
  have "nat i = nat (ce_oldEnd edit) + nat (i - ce_oldEnd edit)"
    and "nat (i + (ce_newEnd edit - ce_oldEnd edit)) = nat (ce_newEnd edit) + nat (i - ce_oldEnd edit)"
    using assms by (auto simp: edit_between_def)
  moreover have "drop (nat (ce_oldEnd edit)) before = drop (nat (ce_newEnd edit)) after"
    using assms by (simp add: edit_between_def)
  ultimately show ?thesis
    by (metis drop_drop add.commute)
qed

lemma take_before_edit:
  assumes "edit_between before after edit" "0 \<le> i" "i + int n \<le> ce_start edit"
  shows "take n (drop (nat i) after) = take n (drop (nat i) before)"
proof -
  have "take n (drop (nat i) xs) = drop (nat i) (take (nat (ce_start edit)) (take (nat i + n) xs))" for xs :: js_string
  proof -
    have "min (nat (ce_start edit)) (nat i + n) = nat i + n"
      using assms(2,3) by linarith
    then show ?thesis
      by (simp add: take_drop add.commute)
  qed
  moreover have "take (nat (ce_start edit)) after = take (nat (ce_start edit)) before"
    using assms(1) by (simp add: edit_between_def)
  ultimately show ?thesis
    by (metis take_take min.commute)
qed

text \<open>A closer that lies outside the edit is still there after it, where its marker went.\<close>

lemma shift_marker_at_closer:
  assumes "edit_between before after edit" "at_closer before m" "0 \<le> ac_offset m"
    and "ac_offset m + int (length (ac_closer m)) \<le> ce_start edit \<or> ce_oldEnd edit \<le> ac_offset m"
    and "ac_closer m \<noteq> []"
  shows "\<exists>m'. shift_marker edit m = Some m' \<and> at_closer after m'"
proof (cases "ce_oldEnd edit \<le> ac_offset m")
  case True
  then have "0 \<le> ac_offset m + (ce_newEnd edit - ce_oldEnd edit)"
    using assms(1) by (auto simp: edit_between_def)
  then show ?thesis
    using True assms drop_behind_edit [OF assms(1) True] by (simp add: shift_marker_def at_closer_drop)
next
  case False
  then have inside: "ac_offset m + int (length (ac_closer m)) \<le> ce_start edit"
    using assms(4) by simp
  then have "ac_offset m < ce_start edit"
    using assms(5) by (cases "ac_closer m") auto
  then show ?thesis
    using False inside assms take_before_edit [OF assms(1,3) inside]
    by (simp add: shift_marker_def at_closer_drop)
qed

lemma set_map_filter_iff: "y \<in> set (List.map_filter f xs) \<longleftrightarrow> (\<exists>x \<in> set xs. f x = Some y)"
  by (induction xs) (auto simp: List.map_filter_simps split: option.splits)

lemma transformAutoClosers_mem:
  "before \<noteq> after \<Longrightarrow>
   m' \<in> set (transformAutoClosers before after markers s e) \<longleftrightarrow>
   at_closer after m' \<and> (\<exists>m \<in> set markers. shift_marker (contiguousEdit before after s e) m = Some m')"
  by (auto simp: transformAutoClosers_def set_map_filter_iff)

text \<open>
  C33. Provenance follows its closer: after any replacement of the text every remaining marker
  points at its closer and stands for an older one, either before the edit and unmoved or behind
  it with the same text behind; a closer that lies outside the edit keeps its marker, and one
  whose closer the edit replaced loses it.
\<close>

theorem autoClosers_follow_text:
  assumes "before \<noteq> after"
    and "edit = contiguousEdit before after preferredStart preferredEnd"
    and "closers = transformAutoClosers before after markers preferredStart preferredEnd"
  shows "(\<forall>m' \<in> set closers. at_closer after m' \<and>
            (\<exists>m \<in> set markers. ac_closer m' = ac_closer m \<and> ac_opener m' = ac_opener m \<and>
               (m' = m \<and> ac_offset m < ce_start edit
                \<or> ce_oldEnd edit \<le> ac_offset m
                  \<and> drop (nat (ac_offset m')) after = drop (nat (ac_offset m)) before)))
       \<and> (\<forall>m \<in> set markers. at_closer before m \<and> 0 \<le> ac_offset m \<and> ac_closer m \<noteq> [] \<and>
            (ac_offset m + int (length (ac_closer m)) \<le> ce_start edit \<or> ce_oldEnd edit \<le> ac_offset m) \<longrightarrow>
            (\<exists>m' \<in> set closers. shift_marker edit m = Some m'))
       \<and> length closers \<le> length (filter (\<lambda>m. ac_offset m < ce_start edit \<or> ce_oldEnd edit \<le> ac_offset m) markers)"
    (is "?origin \<and> ?kept \<and> ?lost")
proof (intro conjI)
  have between: "edit_between before after edit"
    by (simp add: assms(2) contiguousEdit_between)
  have mem: "m' \<in> set closers \<longleftrightarrow> at_closer after m' \<and> (\<exists>m \<in> set markers. shift_marker edit m = Some m')" for m'
    using transformAutoClosers_mem [OF assms(1)] by (simp add: assms(2,3))
  show ?origin
  proof
    fix m' assume "m' \<in> set closers"
    then obtain m where m: "m \<in> set markers" "at_closer after m'" and moved: "shift_marker edit m = Some m'"
      by (auto simp: mem)
    from m show "at_closer after m' \<and>
            (\<exists>m \<in> set markers. ac_closer m' = ac_closer m \<and> ac_opener m' = ac_opener m \<and>
               (m' = m \<and> ac_offset m < ce_start edit
                \<or> ce_oldEnd edit \<le> ac_offset m
                  \<and> drop (nat (ac_offset m')) after = drop (nat (ac_offset m)) before))"
      by (cases rule: shift_marker_cases [OF moved])
        (auto intro!: bexI [of _ m] simp: drop_behind_edit [OF between])
  qed
  show ?kept
    using shift_marker_at_closer [OF between] mem by blast
  have "length (filter p (List.map_filter (shift_marker edit) ms))
      \<le> length (filter (\<lambda>m. ac_offset m < ce_start edit \<or> ce_oldEnd edit \<le> ac_offset m) ms)" for p ms
    by (induction ms) (auto simp: shift_marker_def List.map_filter_simps)
  then show ?lost
    using assms by (simp add: transformAutoClosers_def)
qed

lemma contiguousEdit_example:
  "contiguousEdit (js ''[]'') (js ''[ab]'') None None = \<lparr>ce_start = 1, ce_oldEnd = 1, ce_newEnd = 3\<rparr>"
  by (simp add: contiguousEdit_def preferred_edit_def common_suffix_def js_def)

theorem autoClosers_follow_text_witness:
  "\<exists>m'. m' \<in> set (transformAutoClosers (js ''[]'') (js ''[ab]'')
            [\<lparr>ac_opener = js ''['', ac_closer = js '']'', ac_offset = 1\<rparr>] None None)
        \<and> at_closer (js ''[ab]'') m' \<and> ac_offset m' = 3"
proof -
  let ?m = "\<lparr>ac_opener = js ''['', ac_closer = js '']'', ac_offset = 1\<rparr>"
  have "js ''[]'' \<noteq> js ''[ab]''" "at_closer (js ''[]'') ?m"
    by (simp_all add: js_def at_closer_def js_slice_nonneg)
  then show ?thesis
    using autoClosers_follow_text [OF _ refl refl, of "js ''[]''" "js ''[ab]''" "[?m]" None None]
    unfolding contiguousEdit_example by (auto simp: shift_marker_def js_def)
qed

subsection \<open>Lemmas on plans\<close>

lemma PAIRS_SomeE:
  assumes "PAIRS typed = Some closer"
  obtains a b where "typed = [a]" "closer = [b]" "closer \<in> set CLOSERS"
proof -
  from assms have "\<exists>a b. typed = [a] \<and> closer = [b] \<and> closer \<in> set CLOSERS"
    by (auto simp: PAIRS_def CLOSERS_def split: if_splits)
  with that show thesis
    by blast
qed

lemma find_SomeD: "find P xs = Some x \<Longrightarrow> P x \<and> x \<in> set xs"
  by (induction xs) (auto split: if_splits)

text \<open>A plan that puts text in at a caret opens a pair there.\<close>

lemma planAutoPair_opens:
  assumes "planAutoPair word input = Some plan" "ap_inputType input = js ''insertText''"
    and "ap_start input = ap_end input" "te_insert plan \<noteq> []"
  obtains typed closer where "ap_data input = Some typed" "PAIRS typed = Some closer"
    "0 \<le> ap_start input" "ap_start input \<le> int (length (ap_value input))" "\<not> ap_isComposing input"
    "plan = \<lparr>te_from = ap_start input, te_to = ap_start input, te_insert = typed @ closer,
             te_selectionStart = ap_start input + int (length typed),
             te_selectionEnd = ap_start input + int (length typed), te_direction = NoDirection,
             te_autoCloser = Some \<lparr>ac_opener = typed, ac_closer = closer,
                                   ac_offset = ap_start input + int (length typed)\<rparr>\<rparr>"
proof -
  have "\<exists>typed closer. ap_data input = Some typed \<and> PAIRS typed = Some closer \<and>
     0 \<le> ap_start input \<and> ap_start input \<le> int (length (ap_value input)) \<and> \<not> ap_isComposing input \<and>
     plan_opener word (ap_code input) (ap_value input) (ap_start input) (ap_end input)
       (ap_direction input) typed closer = Some plan"
    using assms
    by (auto simp: planAutoPair_def plan_backspace_def caret_plan_def Let_def js_def split: if_splits option.splits)
  then show thesis
    using assms(3) that by (auto simp: plan_opener_def Let_def split: if_splits)
qed

lemma plan_backspace_pair:
  assumes "PAIRS [a] = Some [b]" "s \<le> length v"
  defines "v' \<equiv> take s v @ [a, b] @ drop s v"
  shows "plan_backspace v' (int s + 1) (int s + 1) = Some (caret_plan (int s) (int s + 2) [] (int s))"
proof -
  have "js_slice v' (int s) (int s + 1) = [a]" "js_slice v' (int s + 1) (int s + 1 + 1) = [b]"
    using assms(2) by (simp_all add: v'_def js_slice_nonneg nat_add_distrib)
  moreover have "int s + 1 \<noteq> int (length v')"
    using assms(2) by (simp add: v'_def)
  ultimately show ?thesis
    using assms(1) by (simp add: plan_backspace_def caret_plan_def)
qed

text \<open>
  C32. Opening a pair is undone by one backspace and left by its closer: a plan that puts text in at
  a caret inserts the typed opener and its closer around the caret and marks the closer where it
  stands; backspace there gives back the text and the caret of before, and typing the closer
  there changes nothing and moves past it.
\<close>

theorem opened_pair_roundtrip:
  assumes "planAutoPair word input = Some plan" "ap_inputType input = js ''insertText''"
    and "ap_start input = ap_end input" "te_insert plan \<noteq> []"
    and "v = ap_value input" "s = ap_start input" "v' = applyTextEdit v plan"
  shows "\<exists>typed closer m. ap_data input = Some typed \<and> PAIRS typed = Some closer
     \<and> v' = take (nat s) v @ typed @ closer @ drop (nat s) v
     \<and> te_selectionStart plan = s + 1 \<and> te_selectionEnd plan = s + 1
     \<and> te_autoCloser plan = Some m \<and> ac_closer m = closer \<and> at_closer v' m
     \<and> map_option (\<lambda>p. (applyTextEdit v' p, te_selectionStart p, te_selectionEnd p))
         (planAutoPair word (input\<lparr>ap_value := v', ap_start := s + 1, ap_end := s + 1,
            ap_inputType := js ''deleteContentBackward'', ap_data := None\<rparr>)) = Some (v, s, s)
     \<and> map_option (\<lambda>p. (applyTextEdit v' p, te_selectionStart p, te_selectionEnd p))
         (planAutoPair word (input\<lparr>ap_value := v', ap_start := s + 1, ap_end := s + 1,
            ap_data := Some closer\<rparr>)) = Some (v', s + 2, s + 2)"
proof -
  obtain typed closer where opened: "ap_data input = Some typed" "PAIRS typed = Some closer"
      "0 \<le> s" "s \<le> int (length v)" "\<not> ap_isComposing input"
      "plan = \<lparr>te_from = s, te_to = s, te_insert = typed @ closer, te_selectionStart = s + int (length typed),
               te_selectionEnd = s + int (length typed), te_direction = NoDirection,
               te_autoCloser = Some \<lparr>ac_opener = typed, ac_closer = closer, ac_offset = s + int (length typed)\<rparr>\<rparr>"
    using planAutoPair_opens [OF assms(1-4)] assms(5,6) by metis
  obtain a b where chars: "typed = [a]" "closer = [b]" "closer \<in> set CLOSERS"
    using opened(2) by (rule PAIRS_SomeE)
  obtain i where i: "s = int i" "i \<le> length v"
    using opened(3,4) by (metis nonneg_int_cases of_nat_le_iff)
  have v': "v' = take i v @ [a, b] @ drop i v"
    using opened(6) chars i assms(7) by (simp add: applyTextEdit_def)
  have len: "int i + 1 \<le> int (length v')"
    using i by (simp add: v')
  have under: "js_slice v' (int i + 1) (int i + 1 + 1) = [b]"
    using i by (simp add: v' js_slice_nonneg nat_add_distrib)
  have "plan_backspace v' (int i + 1) (int i + 1) = Some (caret_plan (int i) (int i + 2) [] (int i))"
    using plan_backspace_pair [of a b i v] opened(2) chars i by (simp add: v')
  moreover have "applyTextEdit v' (caret_plan (int i) (int i + 2) [] (int i)) = v"
    using i by (simp add: applyTextEdit_def caret_plan_def v' nat_add_distrib)
  ultimately have undone: "map_option (\<lambda>p. (applyTextEdit v' p, te_selectionStart p, te_selectionEnd p))
         (planAutoPair word (input\<lparr>ap_value := v', ap_start := s + 1, ap_end := s + 1,
            ap_inputType := js ''deleteContentBackward'', ap_data := None\<rparr>)) = Some (v, s, s)"
    using opened(5) len by (simp add: planAutoPair_def i(1) caret_plan_def)
  have past: "map_option (\<lambda>p. (applyTextEdit v' p, te_selectionStart p, te_selectionEnd p))
         (planAutoPair word (input\<lparr>ap_value := v', ap_start := s + 1, ap_end := s + 1,
            ap_data := Some closer\<rparr>)) = Some (v', s + 2, s + 2)"
    using opened(5) assms(2) chars len under
    by (simp add: planAutoPair_def i(1) caret_plan_def applyTextEdit_def js_def Let_def)
  have "at_closer v' \<lparr>ac_opener = typed, ac_closer = closer, ac_offset = s + int (length typed)\<rparr>"
    using under chars i by (simp add: at_closer_def add.commute add.left_commute)
  then show ?thesis
    using opened chars i v' undone past by (intro exI [of _ typed] exI [of _ closer] exI conjI) auto
qed

theorem opened_pair_roundtrip_witness:
  "map_option (\<lambda>p. (applyTextEdit (js ''a()'') p, te_selectionStart p, te_selectionEnd p))
     (planAutoPair (\<lambda>p. False) \<lparr>ap_value = js ''a()'', ap_start = 2, ap_end = 2, ap_direction = NoDirection,
        ap_inputType = js ''deleteContentBackward'', ap_data = None, ap_isComposing = False, ap_code = False\<rparr>)
   = Some (js ''a'', 1, 1)"
proof -
  let ?input = "\<lparr>ap_value = js ''a'', ap_start = 1, ap_end = 1, ap_direction = NoDirection,
        ap_inputType = js ''insertText'', ap_data = Some (js ''(''), ap_isComposing = False, ap_code = False\<rparr>"
  let ?plan = "\<lparr>te_from = 1, te_to = 1, te_insert = js ''()'', te_selectionStart = 2, te_selectionEnd = 2,
        te_direction = NoDirection,
        te_autoCloser = Some \<lparr>ac_opener = js ''('', ac_closer = js '')'', ac_offset = 2\<rparr>\<rparr>"
  have "planAutoPair (\<lambda>p. False) ?input = Some ?plan"
    by (simp add: planAutoPair_def plan_opener_def isEscaped_def SYMMETRIC_def CLOSERS_def PAIRS_def
        js_slice_nonneg js_def)
  moreover have "applyTextEdit (js ''a'') ?plan = js ''a()''"
    by (simp add: applyTextEdit_def js_def)
  ultimately show ?thesis
    using opened_pair_roundtrip [of "\<lambda>p. False" ?input ?plan "js ''a''" 1 "js ''a()''"]
    by (simp add: js_def)
qed

subsection \<open>Repair\<close>

lemma planAutoPairInputRepair_SomeE:
  assumes "planAutoPairInputRepair before after markers s e = Some plan"
    and "edit = contiguousEdit before after s e"
  obtains m n where "repairs edit after m" "m \<in> set (transformAutoClosers before after markers s e)"
    "before \<noteq> after" "n = int (length (ac_closer m))"
    "plan = \<lparr>te_from = ce_newEnd edit - n, te_to = ce_newEnd edit, te_insert = [],
             te_selectionStart = ac_offset m, te_selectionEnd = ac_offset m, te_direction = NoDirection,
             te_autoCloser = Some (m\<lparr>ac_offset := ac_offset m - n\<rparr>)\<rparr>"
  using assms
  by (auto simp: planAutoPairInputRepair_def Let_def split: if_splits option.splits dest!: find_SomeD)

text \<open>
  Repairing a closer an input method put in front of a generated one is typing over it: what was
  inserted ends with that closer, the repaired text is the old one with the rest of the insertion
  in place of what it replaced, the closer behind it is the generated one of an older marker, its
  new marker points at it and the caret stands right behind it.
\<close>

theorem repair_types_over_closer:
  assumes "planAutoPairInputRepair before after markers preferredStart preferredEnd = Some plan"
    and "edit = contiguousEdit before after preferredStart preferredEnd"
  shows "\<exists>typed m m'. m \<in> set markers \<and> shift_marker edit m = Some m'
     \<and> js_slice after (ce_start edit) (ce_newEnd edit) = typed @ ac_closer m
     \<and> applyTextEdit after plan = take (nat (ce_start edit)) before @ typed @ drop (nat (ce_oldEnd edit)) before
     \<and> take (length (ac_closer m)) (drop (nat (ce_oldEnd edit)) before) = ac_closer m
     \<and> te_autoCloser plan = Some (m'\<lparr>ac_offset := ce_start edit + int (length typed)\<rparr>)
     \<and> at_closer (applyTextEdit after plan) (m'\<lparr>ac_offset := ce_start edit + int (length typed)\<rparr>)
     \<and> te_selectionStart plan = ce_start edit + int (length typed) + int (length (ac_closer m))
     \<and> te_selectionEnd plan = te_selectionStart plan"
proof -
  obtain m' n where m': "repairs edit after m'" "m' \<in> set (transformAutoClosers before after markers preferredStart preferredEnd)"
      "before \<noteq> after" "n = int (length (ac_closer m'))"
    and plan: "plan = \<lparr>te_from = ce_newEnd edit - n, te_to = ce_newEnd edit, te_insert = [],
             te_selectionStart = ac_offset m', te_selectionEnd = ac_offset m', te_direction = NoDirection,
             te_autoCloser = Some (m'\<lparr>ac_offset := ac_offset m' - n\<rparr>)\<rparr>"
    using planAutoPairInputRepair_SomeE [OF assms] .
  have moved: "\<exists>m \<in> set markers. shift_marker edit m = Some m'" and here: "at_closer after m'"
    using m'(2) by (simp_all add: transformAutoClosers_mem [OF m'(3)] assms(2))
  from moved obtain m where m: "m \<in> set markers" "shift_marker edit m = Some m'"
    by blast
  then have closer: "ac_closer m' = ac_closer m"
    by (auto elim: shift_marker_cases)
  have between: "edit_between before after edit"
    by (simp add: assms(2) contiguousEdit_between)
  let ?c = "ac_closer m"
  obtain S N where SN: "ce_start edit = int S" "ce_newEnd edit = int N" "S + length ?c \<le> N" "N \<le> length after"
    using between m'(1) closer
    by (cases "ce_start edit"; cases "ce_newEnd edit") (auto simp: edit_between_def repairs_def Let_def)
  let ?K = "N - length ?c"
  have K: "int N - int (length ?c) = int ?K"
    using SN by simp
  have "js_slice after (ce_newEnd edit - int (length ?c)) (ce_newEnd edit) = ?c" "ac_offset m' = int N"
    using m'(1) SN by (simp_all add: repairs_def Let_def closer)
  then have typed_closer: "take (length ?c) (drop ?K after) = ?c" and offset: "ac_offset m' = int N"
    using SN(3) unfolding SN(2) K js_slice_nat by simp_all
  have behind: "take (length ?c) (drop N after) = ?c"
    using here by (simp add: at_closer_drop closer offset)
  have outer: "take S before = take S after" "drop (nat (ce_oldEnd edit)) before = drop N after"
    using between SN by (simp_all add: edit_between_def)
  define typed where "typed = take (?K - S) (drop S after)"
  have front: "take ?K after = take S before @ typed"
  proof -
    have "take (S + (?K - S)) after = take S after @ take (?K - S) (drop S after)"
      by (rule take_add)
    with SN outer show ?thesis
      by (simp add: typed_def)
  qed
  have "take (N - S) (drop S after) = typed @ take (length ?c) (drop ?K after)"
  proof -
    have "N - S = (?K - S) + length ?c" "?K = (?K - S) + S"
      using SN by auto
    then show ?thesis
      unfolding typed_def by (metis drop_drop take_add)
  qed
  then have inserted: "js_slice after (ce_start edit) (ce_newEnd edit) = typed @ ?c"
    using SN typed_closer by (simp add: js_slice_nat)
  have lens: "int S + int (length typed) = int ?K"
    using SN by (simp add: typed_def)
  have "te_from plan = int N - int (length ?c)" "nat (te_to plan) = N"
    by (simp_all add: plan SN(2) m'(4) closer)
  then have "nat (te_from plan) = ?K" "nat (te_to plan) = N"
    unfolding K by simp_all
  then have result: "applyTextEdit after plan = take S before @ typed @ drop N after"
    using front by (simp add: applyTextEdit_def plan)
  have "length (take S before @ typed) = ?K"
    using front SN by (metis diff_le_self le_trans length_take min.absorb2)
  then have "take (length ?c) (drop ?K (applyTextEdit after plan)) = ?c"
    using behind by (simp add: result)
  then have "at_closer (applyTextEdit after plan) (m'\<lparr>ac_offset := int S + int (length typed)\<rparr>)"
    unfolding lens by (simp add: at_closer_drop closer)
  moreover have "int N = int S + int (length typed) + int (length ?c)"
    using lens SN(3) by linarith
  ultimately show ?thesis
    using m inserted result outer behind SN(1,2) offset
    by (intro exI [of _ typed] exI [of _ m] exI [of _ m'] conjI) (simp_all add: plan m'(4) closer)
qed

lemma repair_example:
  "contiguousEdit (js ''[ab]'') (js ''[ab]]'') (Some 3) (Some 3) = \<lparr>ce_start = 3, ce_oldEnd = 3, ce_newEnd = 4\<rparr>"
  "planAutoPairInputRepair (js ''[ab]'') (js ''[ab]]'')
     [\<lparr>ac_opener = js ''['', ac_closer = js '']'', ac_offset = 3\<rparr>] (Some 3) (Some 3)
   = Some \<lparr>te_from = 3, te_to = 4, te_insert = [], te_selectionStart = 4, te_selectionEnd = 4,
           te_direction = NoDirection,
           te_autoCloser = Some \<lparr>ac_opener = js ''['', ac_closer = js '']'', ac_offset = 3\<rparr>\<rparr>"
proof -
  show edit: "contiguousEdit (js ''[ab]'') (js ''[ab]]'') (Some 3) (Some 3)
      = \<lparr>ce_start = 3, ce_oldEnd = 3, ce_newEnd = 4\<rparr>"
    by (simp add: contiguousEdit_def preferred_edit_def js_slice_nonneg js_slice_from_nonneg js_def)
  show "planAutoPairInputRepair (js ''[ab]'') (js ''[ab]]'')
     [\<lparr>ac_opener = js ''['', ac_closer = js '']'', ac_offset = 3\<rparr>] (Some 3) (Some 3)
   = Some \<lparr>te_from = 3, te_to = 4, te_insert = [], te_selectionStart = 4, te_selectionEnd = 4,
           te_direction = NoDirection,
           te_autoCloser = Some \<lparr>ac_opener = js ''['', ac_closer = js '']'', ac_offset = 3\<rparr>\<rparr>"
    unfolding planAutoPairInputRepair_def transformAutoClosers_def edit
    by (simp add: repairs_def ends_with_def shift_marker_def at_closer_def js_slice_nonneg
        List.map_filter_simps js_def)
qed

theorem repair_types_over_closer_witness:
  "\<exists>typed. js ''[ab]]'' = take 3 (js ''[ab]'') @ (typed @ js '']'') @ js '']''
     \<and> applyTextEdit (js ''[ab]]'')
         \<lparr>te_from = 3, te_to = 4, te_insert = [], te_selectionStart = 4, te_selectionEnd = 4,
          te_direction = NoDirection,
          te_autoCloser = Some \<lparr>ac_opener = js ''['', ac_closer = js '']'', ac_offset = 3\<rparr>\<rparr>
       = take 3 (js ''[ab]'') @ typed @ js '']''"
  using repair_types_over_closer [OF repair_example(2) refl]
  unfolding repair_example(1) by (auto simp: js_slice_nonneg js_def)

end
