(* ===== verification/Outline_Draft.thy ===== *)
theory Outline_Draft
  imports Content_Session_Inv Auto_Pair Inline_Split
begin

text \<open>
  The structural edits an outline shows before the core has acknowledged them
  (\<open>features/outline/draft-state.ts\<close> and the queue of \<open>features/outline/Outliner.tsx\<close>): new rows
  with temporary ids, splits and merges wait in one queue, the oldest is sent to the core, and
  its acknowledgement gives the row its real id, with everything typed meanwhile.

  The reducer \<open>applyOutlineDraftAction\<close> changes the interaction state and the content sessions of
  the outline's owner; the result is the sessions and either what was thrown or the new state.
  An \<open>outline_world\<close> adds the sequence number of temporary ids and the dispatcher's state. An
  event works on the rows the surface shows, which are those of the current state. Focus,
  overlays, notices, the flush timers and the completions of a pending row are left out.
\<close>

subsection \<open>Pending operations\<close>

datatype deferred_key = IndentKey | OutdentKey | UpKey | DownKey | UndoKey | RedoKey

datatype creation_mode = BeforeMode | ChildMode | SiblingMode

datatype creation_kind = InsertKind | SplitKind nat inline_content_projection

record pending_creation =
  cr_id :: js_string
  cr_dispatched :: bool
  cr_tempId :: block_id
  cr_anchorId :: block_id
  cr_mode :: creation_mode
  cr_created :: inline_content_projection
  cr_deferred :: "deferred_key list"
  cr_kind :: creation_kind

record pending_merge =
  mg_id :: js_string
  mg_dispatched :: bool
  mg_sourceId :: block_id
  mg_targetId :: block_id
  mg_merged :: inline_content_projection
  mg_joinCaret :: nat

datatype pending_operation = Creation pending_creation | Merge pending_merge

fun op_id :: "pending_operation \<Rightarrow> js_string" where
  "op_id (Creation c) = cr_id c"
| "op_id (Merge m) = mg_id m"

fun op_dispatched :: "pending_operation \<Rightarrow> bool" where
  "op_dispatched (Creation c) = cr_dispatched c"
| "op_dispatched (Merge m) = mg_dispatched m"

text \<open>The block an operation's optimistic content belongs to.\<close>

fun op_target :: "pending_operation \<Rightarrow> block_id" where
  "op_target (Creation c) = cr_tempId c"
| "op_target (Merge m) = mg_targetId m"

fun op_projection :: "pending_operation \<Rightarrow> inline_content_projection" where
  "op_projection (Creation c) = cr_created c"
| "op_projection (Merge m) = mg_merged m"

record outline_interaction =
  oi_autoClosers :: "block_id \<rightharpoonup> auto_closer list"
  oi_pending :: "pending_operation list"

definition initialOutlineDraftState :: outline_interaction where
  "initialOutlineDraftState = \<lparr>oi_autoClosers = Map.empty, oi_pending = []\<rparr>"

datatype draft_action =
    EditAction block_id js_string "nat option" "js_string option" "inline_content list option"
      "auto_closer list option" "page_reference_span list option"
  | SpliceAction block_id "inline_content list" int int "inline_content list"
  | SettleAction block_id
  | ClearAction "block_id list"
  | ClearClosersAction "block_id list"
  | EnqueueAction pending_operation
  | MarkDispatchedAction js_string
  | AdoptAction block_id block_id js_string
  | DiscardHeadAction block_id
  | CompleteMergeAction js_string
  | FailMergeAction js_string
  | DeferKeyAction block_id deferred_key
  | AbandonPendingAction

subsection \<open>The reducer\<close>

definition without :: "('k \<rightharpoonup> 'v) \<Rightarrow> 'k list \<Rightarrow> ('k \<rightharpoonup> 'v)" where
  "without m keys = foldl (\<lambda>m k. m(k := None)) m keys"

definition withAutoClosers ::
  "(block_id \<rightharpoonup> auto_closer list) \<Rightarrow> block_id \<Rightarrow> auto_closer list \<Rightarrow> (block_id \<rightharpoonup> auto_closer list)" where
  "withAutoClosers m ident markers = (if markers = [] then m(ident := None) else m(ident \<mapsto> markers))"

definition reset_drafts ::
  "graph_snapshot \<Rightarrow> outline_owner \<Rightarrow> 'c content_sessions \<Rightarrow> block_id list \<Rightarrow> 'c content_sessions" where
  "reset_drafts snapshot owner st ids =
     foldl (\<lambda>st ident. let (target, st') = target_of st owner ident in reset_session snapshot st' target) st ids"

definition replace_draft ::
  "outline_owner \<Rightarrow> 'c content_sessions \<Rightarrow> block_id \<Rightarrow> content_buffer \<Rightarrow> 'c content_sessions" where
  "replace_draft owner st ident buffer =
     (let (target, st') = target_of st owner ident in set_buffer st' target (Some buffer))"

fun mark_dispatched :: "js_string \<Rightarrow> pending_operation \<Rightarrow> pending_operation" where
  "mark_dispatched ident (Creation c) = (if cr_id c = ident then Creation (c\<lparr>cr_dispatched := True\<rparr>) else Creation c)"
| "mark_dispatched ident (Merge m) = (if mg_id m = ident then Merge (m\<lparr>mg_dispatched := True\<rparr>) else Merge m)"

text \<open>Every later reference to the temporary id becomes the real one.\<close>

fun rename_pending :: "block_id \<Rightarrow> block_id \<Rightarrow> pending_operation \<Rightarrow> pending_operation" where
  "rename_pending tempId blockId (Merge m) =
     Merge (m\<lparr>mg_sourceId := (if mg_sourceId m = tempId then blockId else mg_sourceId m),
              mg_targetId := (if mg_targetId m = tempId then blockId else mg_targetId m)\<rparr>)"
| "rename_pending tempId blockId (Creation c) =
     (if cr_anchorId c = tempId then Creation (c\<lparr>cr_anchorId := blockId\<rparr>) else Creation c)"

fun defer_key :: "block_id \<Rightarrow> deferred_key \<Rightarrow> pending_operation \<Rightarrow> pending_operation" where
  "defer_key tempId key (Creation c) =
     (if cr_tempId c = tempId then Creation (c\<lparr>cr_deferred := cr_deferred c @ [key]\<rparr>) else Creation c)"
| "defer_key tempId key (Merge m) = Merge m"

fun creation_head :: "pending_operation list \<Rightarrow> block_id \<Rightarrow> bool" where
  "creation_head (Creation c # ops) tempId = (cr_tempId c = tempId)"
| "creation_head _ tempId = False"

fun merge_head :: "pending_operation list \<Rightarrow> js_string \<Rightarrow> pending_merge option" where
  "merge_head (Merge m # ops) ident = (if mg_id m = ident then Some m else None)"
| "merge_head _ ident = None"

type_synonym 'c reduced = "'c content_sessions \<times> (session_error + outline_interaction)"

definition reduce_edit ::
  "graph_snapshot \<Rightarrow> outline_owner \<Rightarrow> page_directory_entry list \<Rightarrow> outline_interaction \<Rightarrow> 'c content_sessions \<Rightarrow>
   block_id \<Rightarrow> js_string \<Rightarrow> nat option \<Rightarrow> js_string option \<Rightarrow> inline_content list option \<Rightarrow>
   auto_closer list option \<Rightarrow> page_reference_span list option \<Rightarrow> 'c reduced" where
  "reduce_edit snapshot owner directory state st ident v caret baseline content closers references =
     (let absent = (case content of
            Some content \<Rightarrow> content
          | None \<Rightarrow> contentFromProjection (case baseline of None \<Rightarrow> [] | Some b \<Rightarrow> b)
                      (case references of None \<Rightarrow> [] | Some r \<Rightarrow> r));
          (target, st') = open_session st owner ident absent
      in case edit_session snapshot st' target v directory caret of
           Inl e \<Rightarrow> (st', Inl e)
         | Inr st'' \<Rightarrow>
             (st'', Inr (case closers of
                None \<Rightarrow> state
              | Some markers \<Rightarrow> state\<lparr>oi_autoClosers := withAutoClosers (oi_autoClosers state) ident markers\<rparr>)))"

definition reduce_adopt ::
  "graph_snapshot \<Rightarrow> outline_owner \<Rightarrow> outline_interaction \<Rightarrow> 'c content_sessions \<Rightarrow> block_id \<Rightarrow> block_id \<Rightarrow> 'c reduced" where
  "reduce_adopt snapshot owner state st tempId blockId =
     (if \<not> creation_head (oi_pending state) tempId then (st, Inr state)
      else let (target, st') = target_of st owner tempId;
               autoClosers = without (oi_autoClosers state) [tempId]
           in (adopt_session snapshot st' target blockId,
               Inr \<lparr>oi_autoClosers = (case oi_autoClosers state tempId of
                        None \<Rightarrow> autoClosers
                      | Some markers \<Rightarrow> autoClosers(blockId \<mapsto> markers)),
                    oi_pending = map (rename_pending tempId blockId) (tl (oi_pending state))\<rparr>))"

text \<open>\<open>complete-merge\<close> and \<open>fail-merge\<close> of the oldest operation: the drafts that go with it.\<close>

definition leave_head ::
  "graph_snapshot \<Rightarrow> outline_owner \<Rightarrow> outline_interaction \<Rightarrow> 'c content_sessions \<Rightarrow> block_id list \<Rightarrow> 'c reduced" where
  "leave_head snapshot owner state st ids =
     (reset_drafts snapshot owner st ids,
      Inr \<lparr>oi_autoClosers = without (oi_autoClosers state) ids, oi_pending = tl (oi_pending state)\<rparr>)"

fun applyOutlineDraftAction ::
  "graph_snapshot \<Rightarrow> outline_owner \<Rightarrow> page_directory_entry list \<Rightarrow> outline_interaction \<Rightarrow> 'c content_sessions \<Rightarrow>
   draft_action \<Rightarrow> 'c reduced" where
  "applyOutlineDraftAction snapshot owner directory state st
     (EditAction ident v caret baseline content closers references) =
     reduce_edit snapshot owner directory state st ident v caret baseline content closers references"
| "applyOutlineDraftAction snapshot owner directory state st (SpliceAction ident content index remove ins) =
     (let (target, st') = open_session st owner ident content
      in case splice_session snapshot st' target index remove ins of
           Inl e \<Rightarrow> (st', Inl e)
         | Inr st'' \<Rightarrow> (st'', Inr state))"
| "applyOutlineDraftAction snapshot owner directory state st (SettleAction ident) =
     (case map_of (buffers st owner) ident of
        None \<Rightarrow> (st, Inr state)
      | Some buffer \<Rightarrow> (replace_draft owner st ident (settleBuffer buffer), Inr state))"
| "applyOutlineDraftAction snapshot owner directory state st (ClearAction ids) =
     (reset_drafts snapshot owner st ids,
      Inr (state\<lparr>oi_autoClosers := without (oi_autoClosers state) ids\<rparr>))"
| "applyOutlineDraftAction snapshot owner directory state st (ClearClosersAction ids) =
     (st, Inr (state\<lparr>oi_autoClosers := without (oi_autoClosers state) ids\<rparr>))"
| "applyOutlineDraftAction snapshot owner directory state st (EnqueueAction operation) =
     (replace_draft owner st (op_target operation)
        (createContentBuffer (contentFromProjection (markdown (op_projection operation))
           (pageReferences (op_projection operation)))),
      Inr (state\<lparr>oi_pending := oi_pending state @ [operation]\<rparr>))"
| "applyOutlineDraftAction snapshot owner directory state st (MarkDispatchedAction ident) =
     (st, Inr (state\<lparr>oi_pending := map (mark_dispatched ident) (oi_pending state)\<rparr>))"
| "applyOutlineDraftAction snapshot owner directory state st (AdoptAction tempId blockId typed) =
     reduce_adopt snapshot owner state st tempId blockId"
| "applyOutlineDraftAction snapshot owner directory state st (DiscardHeadAction tempId) =
     (if creation_head (oi_pending state) tempId then leave_head snapshot owner state st [tempId]
      else (st, Inr state))"
| "applyOutlineDraftAction snapshot owner directory state st (CompleteMergeAction ident) =
     (case merge_head (oi_pending state) ident of
        None \<Rightarrow> (st, Inr state)
      | Some m \<Rightarrow>
          let unchanged = (case map_of (buffers st owner) (mg_targetId m) of
                None \<Rightarrow> True | Some buffer \<Rightarrow> bufferIsClean buffer)
          in leave_head snapshot owner state st (if unchanged then [mg_targetId m] else []))"
| "applyOutlineDraftAction snapshot owner directory state st (FailMergeAction ident) =
     (case merge_head (oi_pending state) ident of
        None \<Rightarrow> (st, Inr state)
      | Some m \<Rightarrow> leave_head snapshot owner state st [mg_targetId m])"
| "applyOutlineDraftAction snapshot owner directory state st (DeferKeyAction tempId key) =
     (st, Inr (state\<lparr>oi_pending := map (defer_key tempId key) (oi_pending state)\<rparr>))"
| "applyOutlineDraftAction snapshot owner directory state st AbandonPendingAction =
     (let ids = map op_target (oi_pending state)
      in (reset_drafts snapshot owner st ids,
          Inr \<lparr>oi_autoClosers = without (oi_autoClosers state) ids, oi_pending = []\<rparr>))"

subsection \<open>What the surface shows meanwhile\<close>

record pending_projection =
  pp_rows :: "outline_row list"
  pp_content :: "block_id \<rightharpoonup> inline_content_projection"

definition subtree_end :: "outline_row list \<Rightarrow> nat \<Rightarrow> nat" where
  "subtree_end rows i = i + 1 + length (takeWhile (\<lambda>row. row_depth (rows ! i) < row_depth row) (drop (i + 1) rows))"

definition row_position :: "outline_row list \<Rightarrow> block_id \<Rightarrow> nat option" where
  "row_position rows ident = (let i = rowIndexOf rows ident in if i < 0 then None else Some (nat i))"

definition merge_row :: "outline_row \<Rightarrow> block_id \<Rightarrow> block_id \<Rightarrow> nat \<Rightarrow> nat \<Rightarrow> outline_row \<Rightarrow> outline_row" where
  "merge_row src sourceId targetId targetChildCount mergedChildCount row =
     (if row_id row = targetId then row\<lparr>row_hasChildren := row_hasChildren row \<or> row_hasChildren src\<rparr>
      else if row_parentId row = Some targetId then row\<lparr>row_siblingCount := mergedChildCount\<rparr>
      else if row_parentId row = Some sourceId
      then row\<lparr>row_parentId := Some targetId, row_index := targetChildCount + row_index row,
               row_siblingCount := mergedChildCount\<rparr>
      else row)"

definition project_merge ::
  "(block_id \<rightharpoonup> inline_content_projection) \<Rightarrow> pending_merge \<Rightarrow> pending_projection \<Rightarrow> pending_projection" where
  "project_merge drafts entry shown =
     (let rows = pp_rows shown
      in case (row_position rows (mg_sourceId entry), row_position rows (mg_targetId entry)) of
           (Some sourceIndex, Some targetIndex) \<Rightarrow>
             let src = rows ! sourceIndex; target = rows ! targetIndex;
                 targetChildCount = length (filter (\<lambda>row. row_parentId row = Some (mg_targetId entry)) rows);
                 sourceChildCount = length (filter (\<lambda>row. row_parentId row = Some (mg_sourceId entry)) rows);
                 mergedChildCount = targetChildCount + sourceChildCount;
                 hidden = (if row_collapsed target
                   then map row_id (take (subtree_end rows sourceIndex - sourceIndex) (drop sourceIndex rows))
                   else [mg_sourceId entry])
             in \<lparr>pp_rows = map (merge_row src (mg_sourceId entry) (mg_targetId entry) targetChildCount mergedChildCount)
                   (filter (\<lambda>row. row_id row \<notin> set hidden) rows),
                 pp_content = (pp_content shown)(mg_targetId entry \<mapsto>
                   (case drafts (mg_targetId entry) of None \<Rightarrow> mg_merged entry | Some d \<Rightarrow> d))\<rparr>
         | _ \<Rightarrow> shown)"

definition pending_row :: "pending_creation \<Rightarrow> outline_row \<Rightarrow> outline_row" where
  "pending_row entry src =
     \<lparr>row_block = Block (cr_tempId entry)
        (contentFromProjection (markdown (cr_created entry)) (pageReferences (cr_created entry)))
        (markdown (cr_created entry)) (pageReferences (cr_created entry)) [] [] [],
      row_depth = (if cr_mode entry = ChildMode then row_depth src + 1 else row_depth src),
      row_parentId = (if cr_mode entry = ChildMode then Some (row_id src) else row_parentId src),
      row_index = (if cr_mode entry = ChildMode then 0
                   else row_index src + (if cr_mode entry = BeforeMode then 0 else 1)),
      row_siblingCount = (if cr_mode entry = ChildMode then 1 else row_siblingCount src + 1),
      row_hasChildren = False, row_collapsed = False\<rparr>"

definition project_creation ::
  "(block_id \<rightharpoonup> inline_content_projection) \<Rightarrow> pending_creation \<Rightarrow> pending_projection \<Rightarrow> pending_projection" where
  "project_creation drafts entry shown =
     (let rows = pp_rows shown
      in case row_position rows (cr_anchorId entry) of
           None \<Rightarrow> shown
         | Some sourceIndex \<Rightarrow>
             let src = rows ! sourceIndex;
                 content = (case cr_kind entry of
                     InsertKind \<Rightarrow> pp_content shown
                   | SplitKind index whole \<Rightarrow> (pp_content shown)(cr_anchorId entry \<mapsto>
                       (case (cr_mode entry, drafts (cr_anchorId entry)) of
                          (BeforeMode, Some d) \<Rightarrow> d
                        | _ \<Rightarrow> whole)));
                 insertAt = (case cr_mode entry of
                     BeforeMode \<Rightarrow> sourceIndex
                   | ChildMode \<Rightarrow> sourceIndex + 1
                   | SiblingMode \<Rightarrow> subtree_end rows sourceIndex)
             in \<lparr>pp_rows = take insertAt rows @ [pending_row entry src] @ drop insertAt rows,
                 pp_content = content(cr_tempId entry \<mapsto>
                   (case drafts (cr_tempId entry) of None \<Rightarrow> cr_created entry | Some d \<Rightarrow> d))\<rparr>)"

fun project_operation ::
  "(block_id \<rightharpoonup> inline_content_projection) \<Rightarrow> pending_operation \<Rightarrow> pending_projection \<Rightarrow> pending_projection" where
  "project_operation drafts (Merge entry) shown = project_merge drafts entry shown"
| "project_operation drafts (Creation entry) shown = project_creation drafts entry shown"

definition projectPendingOperations ::
  "outline_row list \<Rightarrow> pending_operation list \<Rightarrow> (block_id \<rightharpoonup> inline_content_projection) \<Rightarrow> pending_projection" where
  "projectPendingOperations rows pending drafts =
     fold (project_operation drafts) pending \<lparr>pp_rows = rows, pp_content = Map.empty\<rparr>"

text \<open>A collapsed block whose content merges into an open one is shown open.\<close>

definition projectedCollapsed :: "(block_id \<Rightarrow> bool) \<Rightarrow> pending_operation list \<Rightarrow> (block_id \<Rightarrow> bool)" where
  "projectedCollapsed collapsed pending =
     fold (\<lambda>operation shut. case operation of
             Merge m \<Rightarrow> if \<not> collapsed (mg_targetId m) then shut(mg_sourceId m := False) else shut
           | Creation c \<Rightarrow> shut) pending collapsed"

subsection \<open>The queue and its dispatcher\<close>

datatype structural_command =
    InsertBlockCommand "block_id option" nat js_string
  | SplitBlockCommand block_id nat creation_mode
  | MergeBackwardCommand block_id block_id
  | IndentCommand block_id
  | OutdentCommand block_id
  | MoveBlocksCommand "block_id list" "block_id option" "block_id option"

text \<open>
  \<open>pendingDispatching\<close> with what it waits for: the command of the oldest operation, waiting for
  the session's lane or running, or the keys that replay on the new block.
\<close>

datatype dispatching =
    Idle
  | Queued pending_operation
  | Running pending_operation
  | Replaying block_id "deferred_key list"

record 'c outline_world =
  ow_interaction :: outline_interaction
  ow_sessions :: "'c content_sessions"
  ow_seq :: nat
  ow_dispatching :: dispatching
  ow_sent :: "structural_command list"

text \<open>What an event reads of its surroundings: the session's snapshot and the surface's props.\<close>

record outline_surface =
  sf_snapshot :: graph_snapshot
  sf_owner :: outline_owner
  sf_blocks :: "block_snapshot list"
  sf_collapsed :: "block_id \<Rightarrow> bool"
  sf_directory :: "page_directory_entry list"

definition PENDING_PREFIX :: js_string where
  "PENDING_PREFIX = js ''pending-''"

definition isPendingId :: "block_id \<Rightarrow> bool" where
  "isPendingId ident \<longleftrightarrow> prefix PENDING_PREFIX ident"

text \<open>A number in a template string.\<close>

fun decimal :: "nat \<Rightarrow> js_string" where
  "decimal n = (if n < 10 then [0x30 + of_nat n] else decimal (n div 10) @ [0x30 + of_nat (n mod 10)])"

declare decimal.simps [simp del]

definition current_outline :: "outline_surface \<Rightarrow> block_snapshot list" where
  "current_outline surface =
     (case findOutline (sf_snapshot surface) (sf_owner surface) of None \<Rightarrow> sf_blocks surface | Some bs \<Rightarrow> bs)"

definition draft_projections ::
  "outline_surface \<Rightarrow> 'c content_sessions \<Rightarrow> (block_id \<rightharpoonup> inline_content_projection)" where
  "draft_projections surface st ident =
     map_option (\<lambda>buffer. projectBuffer buffer (sf_directory surface)) (map_of (buffers st (sf_owner surface)) ident)"

definition surface_projection :: "outline_surface \<Rightarrow> 'c outline_world \<Rightarrow> pending_projection" where
  "surface_projection surface w =
     (let pending = oi_pending (ow_interaction w)
      in projectPendingOperations
           (flattenOutline (current_outline surface) (projectedCollapsed (sf_collapsed surface) pending))
           pending (draft_projections surface (ow_sessions w)))"

definition surface_rows :: "outline_surface \<Rightarrow> 'c outline_world \<Rightarrow> outline_row list" where
  "surface_rows surface w = pp_rows (surface_projection surface w)"

definition dispatch_draft :: "outline_surface \<Rightarrow> draft_action \<Rightarrow> 'c outline_world \<Rightarrow> 'c outline_world" where
  "dispatch_draft surface action w =
     (let (st, reduced) = applyOutlineDraftAction (sf_snapshot surface) (sf_owner surface) (sf_directory surface)
            (ow_interaction w) (ow_sessions w) action
      in w\<lparr>ow_sessions := st,
           ow_interaction := (case reduced of Inl e \<Rightarrow> ow_interaction w | Inr state \<Rightarrow> state)\<rparr>)"

definition commandFor :: "outline_surface \<Rightarrow> pending_creation \<Rightarrow> structural_command option" where
  "commandFor surface head =
     (case find (\<lambda>row. row_id row = cr_anchorId head)
             (flattenOutline (current_outline surface) (sf_collapsed surface)) of
        None \<Rightarrow> None
      | Some src \<Rightarrow>
          (case cr_kind head of
             InsertKind \<Rightarrow> Some (InsertBlockCommand
               (if cr_mode head = ChildMode then Some (cr_anchorId head) else row_parentId src)
               (case cr_mode head of BeforeMode \<Rightarrow> row_index src | ChildMode \<Rightarrow> 0 | SiblingMode \<Rightarrow> row_index src + 1)
               (markdown (cr_created head)))
           | SplitKind index whole \<Rightarrow> Some (SplitBlockCommand (cr_anchorId head) index (cr_mode head))))"

definition abandonPending :: "outline_surface \<Rightarrow> 'c outline_world \<Rightarrow> 'c outline_world" where
  "abandonPending surface w = dispatch_draft surface AbandonPendingAction w"

definition dispatchPending :: "outline_surface \<Rightarrow> 'c outline_world \<Rightarrow> 'c outline_world" where
  "dispatchPending surface w =
     (if ow_dispatching w \<noteq> Idle then w
      else case oi_pending (ow_interaction w) of
             [] \<Rightarrow> w
           | head # rest \<Rightarrow>
               if op_dispatched head then w
               else case head of
                      Merge m \<Rightarrow>
                        if isPendingId (mg_sourceId m) \<or> isPendingId (mg_targetId m) then w
                        else (dispatch_draft surface (MarkDispatchedAction (mg_id m)) w)\<lparr>ow_dispatching := Queued head\<rparr>
                    | Creation c \<Rightarrow>
                        if isPendingId (cr_anchorId c) then w
                        else if commandFor surface c = None then abandonPending surface w
                        else (dispatch_draft surface (MarkDispatchedAction (cr_id c)) w)\<lparr>ow_dispatching := Queued head\<rparr>)"

definition enqueue_operation :: "outline_surface \<Rightarrow> pending_operation \<Rightarrow> 'c outline_world \<Rightarrow> 'c outline_world" where
  "enqueue_operation surface operation w = dispatch_draft surface (EnqueueAction operation) w"

definition enqueuePendingInsert ::
  "outline_surface \<Rightarrow> outline_row \<Rightarrow> inline_content_projection \<Rightarrow> creation_mode \<Rightarrow> 'c outline_world \<Rightarrow> 'c outline_world" where
  "enqueuePendingInsert surface row content mode w =
     (let seq = ow_seq w + 1;
          tempId = PENDING_PREFIX @ decimal seq;
          enqueued = enqueue_operation surface (Creation
            \<lparr>cr_id = tempId, cr_dispatched = False, cr_tempId = tempId, cr_anchorId = row_id row, cr_mode = mode,
             cr_created = \<lparr>markdown = [], pageReferences = []\<rparr>, cr_deferred = [], cr_kind = InsertKind\<rparr>)
            (w\<lparr>ow_seq := seq\<rparr>);
          typed = (if markdown content = [] then enqueued
            else dispatch_draft surface (SpliceAction tempId [] 0 0
                   (contentFromProjection (markdown content) (pageReferences content))) enqueued)
      in dispatchPending surface typed)"

definition enqueuePendingSplit ::
  "outline_surface \<Rightarrow> outline_row \<Rightarrow> nat \<Rightarrow> inline_content_projection \<Rightarrow> inline_content_projection \<Rightarrow> bool \<Rightarrow>
   'c outline_world \<Rightarrow> 'c outline_world" where
  "enqueuePendingSplit surface row index head tail asChild w =
     (let seq = ow_seq w + 1;
          tempId = PENDING_PREFIX @ decimal seq;
          leading = (index = 0)
      in dispatchPending surface (enqueue_operation surface (Creation
            \<lparr>cr_id = tempId, cr_dispatched = False, cr_tempId = tempId, cr_anchorId = row_id row,
             cr_mode = (if leading then BeforeMode else if asChild then ChildMode else SiblingMode),
             cr_created = (if leading then head else tail), cr_deferred = [],
             cr_kind = SplitKind index (if leading then tail else head)\<rparr>)
            (w\<lparr>ow_seq := seq\<rparr>)))"

text \<open>What \<open>draftOf\<close> and \<open>pageReferencesOf\<close> show of a row.\<close>

definition shown_content :: "outline_surface \<Rightarrow> 'c outline_world \<Rightarrow> outline_row \<Rightarrow> inline_content_projection" where
  "shown_content surface w row =
     (case pp_content (surface_projection surface w) (row_id row) of
        Some p \<Rightarrow> p
      | None \<Rightarrow> (case draft_projections surface (ow_sessions w) (row_id row) of
          Some p \<Rightarrow> p
        | None \<Rightarrow> \<lparr>markdown = bl_markdown (row_block row), pageReferences = bl_page_references (row_block row)\<rparr>))"

definition unsettled :: "outline_surface \<Rightarrow> 'c outline_world \<Rightarrow> block_id \<Rightarrow> bool" where
  "unsettled surface w ident \<longleftrightarrow>
     \<not> isPendingId ident \<and>
     (case map_of (buffers (ow_sessions w) (sf_owner surface)) ident of
        None \<Rightarrow> False | Some buffer \<Rightarrow> \<not> bufferIsClean buffer)"

text \<open>
  \<open>mergeBackward\<close> with the text the textarea holds. Blocks with unsubmitted input are submitted
  first, and the merge is tried again afterwards, which is another event.
\<close>

definition mergeBackward :: "outline_surface \<Rightarrow> outline_row \<Rightarrow> js_string \<Rightarrow> 'c outline_world \<Rightarrow> 'c outline_world" where
  "mergeBackward surface row live w =
     (let rows = surface_rows surface w
      in if oi_pending (ow_interaction w) \<noteq> [] \<and> \<not> isPendingId (row_id row) then w
         else case (if 0 < row_index row \<and> 0 < rowIndexOf rows (row_id row)
                    then Some (rows ! nat (rowIndexOf rows (row_id row) - 1)) else None) of
                None \<Rightarrow> w
              | Some target \<Rightarrow>
                  if \<not> isPendingId (row_id row) \<and> isPendingId (row_id target) then w
                  else if unsettled surface w (row_id target) \<or> unsettled surface w (row_id row) then w
                  else
                    let targetContent = shown_content surface w target;
                        projected = shown_content surface w row;
                        references = (if live = markdown projected then pageReferences projected
                          else case planInlineEdit (row_id row) (markdown projected) (pageReferences projected) live None of
                                 None \<Rightarrow> pageReferences projected
                               | Some plan \<Rightarrow> pl_references plan);
                        seq = ow_seq w + 1
                    in dispatchPending surface (enqueue_operation surface (Merge
                         \<lparr>mg_id = js ''merge-'' @ decimal seq, mg_dispatched = False,
                          mg_sourceId = row_id row, mg_targetId = row_id target,
                          mg_merged = joinInlineContentProjections targetContent
                            \<lparr>markdown = live, pageReferences = references\<rparr>,
                          mg_joinCaret = length (markdown targetContent)\<rparr>)
                         (w\<lparr>ow_seq := seq\<rparr>)))"

subsection \<open>Acknowledgement\<close>

text \<open>The session's lane reaches the command: a creation is placed against the snapshot of then.\<close>

definition lane_reached :: "outline_surface \<Rightarrow> 'c outline_world \<Rightarrow> 'c outline_world" where
  "lane_reached surface w =
     (case ow_dispatching w of
        Queued (Merge m) \<Rightarrow>
          w\<lparr>ow_dispatching := Running (Merge m),
            ow_sent := ow_sent w @ [MergeBackwardCommand (mg_sourceId m) (mg_targetId m)]\<rparr>
      | Queued (Creation c) \<Rightarrow>
          (case commandFor surface c of
             None \<Rightarrow> abandonPending surface (w\<lparr>ow_dispatching := Idle\<rparr>)
           | Some command \<Rightarrow> w\<lparr>ow_dispatching := Running (Creation c), ow_sent := ow_sent w @ [command]\<rparr>)
      | _ \<Rightarrow> w)"

text \<open>The answer to the running command: \<open>None\<close> when it failed, the created block when it has one.\<close>

fun merge_settled :: "outline_surface \<Rightarrow> pending_merge \<Rightarrow> bool \<Rightarrow> 'c outline_world \<Rightarrow> 'c outline_world" where
  "merge_settled surface m True w =
     dispatchPending surface ((dispatch_draft surface (CompleteMergeAction (mg_id m)) w)\<lparr>ow_dispatching := Idle\<rparr>)"
| "merge_settled surface m False w =
     dispatchPending surface ((dispatch_draft surface (FailMergeAction (mg_id m)) w)\<lparr>ow_dispatching := Idle\<rparr>)"

fun find_creation :: "pending_operation list \<Rightarrow> block_id \<Rightarrow> pending_creation option" where
  "find_creation [] tempId = None"
| "find_creation (Creation c # ops) tempId = (if cr_tempId c = tempId then Some c else find_creation ops tempId)"
| "find_creation (Merge m # ops) tempId = find_creation ops tempId"

definition creation_applied ::
  "outline_surface \<Rightarrow> pending_creation \<Rightarrow> block_id \<Rightarrow> 'c outline_world \<Rightarrow> 'c outline_world" where
  "creation_applied surface head realId w =
     (let deferred = (case find_creation (oi_pending (ow_interaction w)) (cr_tempId head) of
            Some pending \<Rightarrow> cr_deferred pending | None \<Rightarrow> cr_deferred head);
          typed = (case draft_projections surface (ow_sessions w) (cr_tempId head) of
            Some p \<Rightarrow> markdown p | None \<Rightarrow> markdown (cr_created head))
      in (dispatch_draft surface (AdoptAction (cr_tempId head) realId typed) w)
           \<lparr>ow_dispatching := Replaying realId deferred\<rparr>)"

fun creation_settled ::
  "outline_surface \<Rightarrow> pending_creation \<Rightarrow> block_id option option \<Rightarrow> 'c outline_world \<Rightarrow> 'c outline_world" where
  "creation_settled surface head None w = abandonPending surface (w\<lparr>ow_dispatching := Idle\<rparr>)"
| "creation_settled surface head (Some None) w =
     dispatchPending surface
       ((abandonPending surface (dispatch_draft surface (DiscardHeadAction (cr_tempId head)) w))\<lparr>ow_dispatching := Idle\<rparr>)"
| "creation_settled surface head (Some (Some realId)) w = creation_applied surface head realId w"

definition command_settled :: "outline_surface \<Rightarrow> block_id option option \<Rightarrow> 'c outline_world \<Rightarrow> 'c outline_world" where
  "command_settled surface answer w =
     (case ow_dispatching w of
        Running (Merge m) \<Rightarrow> merge_settled surface m (answer \<noteq> None) w
      | Running (Creation c) \<Rightarrow> creation_settled surface c answer w
      | _ \<Rightarrow> w)"

text \<open>\<open>siblingMove\<close>: one place up or down among the siblings.\<close>

definition siblingMove :: "outline_row list \<Rightarrow> outline_row \<Rightarrow> int \<Rightarrow> structural_command option" where
  "siblingMove rows row delta =
     (let target = int (row_index row) + delta;
          stationary = filter (\<lambda>candidate. row_parentId candidate = row_parentId row \<and> row_id candidate \<noteq> row_id row) rows
      in if target < 0 \<or> int (row_siblingCount row) \<le> target then None
         else if target = 0 then Some (MoveBlocksCommand [row_id row] (row_parentId row) None)
         else if nat (target - 1) < length stationary
         then Some (MoveBlocksCommand [row_id row] (row_parentId row) (Some (row_id (stationary ! nat (target - 1)))))
         else None)"

definition replay_command :: "outline_surface \<Rightarrow> block_id \<Rightarrow> deferred_key \<Rightarrow> structural_command option" where
  "replay_command surface realId key =
     (let rows = flattenOutline (current_outline surface) (sf_collapsed surface)
      in case key of
           IndentKey \<Rightarrow> Some (IndentCommand realId)
         | OutdentKey \<Rightarrow> Some (OutdentCommand realId)
         | UndoKey \<Rightarrow> None
         | RedoKey \<Rightarrow> None
         | _ \<Rightarrow> (case find (\<lambda>row. row_id row = realId) rows of
                  None \<Rightarrow> None
                | Some row \<Rightarrow> siblingMove rows row (if key = UpKey then -1 else 1)))"

text \<open>
  One turn of the replay: the next key's command is sent, an undo or redo whose flush failed ends
  the replay, and when no key is left the next operation is dispatched.
\<close>

definition replay_turn :: "outline_surface \<Rightarrow> bool \<Rightarrow> 'c outline_world \<Rightarrow> 'c outline_world" where
  "replay_turn surface flushed w =
     (case ow_dispatching w of
        Replaying realId (key # keys) \<Rightarrow>
          if (key = UndoKey \<or> key = RedoKey) \<and> \<not> flushed then w\<lparr>ow_dispatching := Replaying realId []\<rparr>
          else w\<lparr>ow_dispatching := Replaying realId keys,
                 ow_sent := ow_sent w @ (case replay_command surface realId key of None \<Rightarrow> [] | Some c \<Rightarrow> [c])\<rparr>
      | Replaying realId [] \<Rightarrow> dispatchPending surface (w\<lparr>ow_dispatching := Idle\<rparr>)
      | _ \<Rightarrow> w)"

subsection \<open>Runs\<close>

text \<open>The ids of the core's outline, and those it creates, are never temporary ones.\<close>

definition surface_ok :: "outline_surface \<Rightarrow> bool" where
  "surface_ok surface \<longleftrightarrow>
     (\<forall>row \<in> set (map snd (outlineIndex (current_outline surface))).
        \<not> isPendingId (row_id row)
        \<and> (case row_parentId row of None \<Rightarrow> True | Some p \<Rightarrow> \<not> isPendingId p))"

fun typing_action :: "draft_action \<Rightarrow> bool" where
  "typing_action (EditAction ident v caret baseline content closers references) = True"
| "typing_action (SpliceAction ident content index remove ins) = True"
| "typing_action (SettleAction ident) = True"
| "typing_action (ClearAction ids) = True"
| "typing_action (ClearClosersAction ids) = True"
| "typing_action (DeferKeyAction tempId key) = True"
| "typing_action _ = False"

definition initial_world :: "'c content_sessions \<Rightarrow> 'c outline_world" where
  "initial_world st =
     \<lparr>ow_interaction = initialOutlineDraftState, ow_sessions = st, ow_seq = 0, ow_dispatching = Idle, ow_sent = []\<rparr>"

inductive outline_reachable :: "'c outline_world \<Rightarrow> bool" where
  opened: "outline_reachable (initial_world st)"
| insert_row: "outline_reachable w \<Longrightarrow> surface_ok surface \<Longrightarrow> row \<in> set (surface_rows surface w) \<Longrightarrow>
    outline_reachable (enqueuePendingInsert surface row content mode w)"
| split_row: "outline_reachable w \<Longrightarrow> surface_ok surface \<Longrightarrow> row \<in> set (surface_rows surface w) \<Longrightarrow>
    outline_reachable (enqueuePendingSplit surface row index head tail asChild w)"
| merge_row: "outline_reachable w \<Longrightarrow> surface_ok surface \<Longrightarrow> row \<in> set (surface_rows surface w) \<Longrightarrow>
    outline_reachable (mergeBackward surface row live w)"
| typing: "outline_reachable w \<Longrightarrow> typing_action action \<Longrightarrow> outline_reachable (dispatch_draft surface action w)"
| sessions_change: "outline_reachable w \<Longrightarrow> outline_reachable (w\<lparr>ow_sessions := st\<rparr>)"
| lane: "outline_reachable w \<Longrightarrow> surface_ok surface \<Longrightarrow> outline_reachable (lane_reached surface w)"
| settled: "outline_reachable w \<Longrightarrow> surface_ok surface \<Longrightarrow> (\<And>b. answer = Some (Some b) \<Longrightarrow> \<not> isPendingId b) \<Longrightarrow>
    outline_reachable (command_settled surface answer w)"
| replay: "outline_reachable w \<Longrightarrow> surface_ok surface \<Longrightarrow> outline_reachable (replay_turn surface flushed w)"

end
