(* ===== verification/Outline_Queue.thy ===== *)
theory Outline_Queue
  imports Outline_Draft
begin

text \<open>
  What holds of the pending queue of an outline in every run: a reference to a temporary id stands
  behind the creation of that id (\<open>scoped\<close>), ids are numbered and distinct, only the operation in
  flight is marked, an idle dispatcher has nothing to do, and no command names a temporary id.
  The second half is about the draft of an adopted row.
\<close>

subsection \<open>Numbers\<close>

definition read_decimal :: "js_string \<Rightarrow> nat" where
  "read_decimal s = foldl (\<lambda>n u. n * 10 + (unat u - 0x30)) 0 s"

lemma digit_unat: "n < 10 \<Longrightarrow> unat (0x30 + of_nat n :: code_unit) = 0x30 + n"
  by (simp add: unat_word_ariths unat_of_nat)

lemma read_decimal [simp]: "read_decimal (decimal n) = n"
proof (induction n rule: decimal.induct)
  case (1 n)
  then show ?case
    using digit_unat [of n] digit_unat [of "n mod 10"]
    by (subst decimal.simps) (auto simp: read_decimal_def)
qed

lemma decimal_eq [simp]: "decimal m = decimal n \<longleftrightarrow> m = n"
  by (metis read_decimal)

subsection \<open>The invariant of the queue\<close>

fun temps :: "pending_operation \<Rightarrow> block_id set" where
  "temps (Creation c) = {cr_tempId c}"
| "temps (Merge m) = {}"

fun refs :: "pending_operation \<Rightarrow> block_id set" where
  "refs (Creation c) = {cr_anchorId c}"
| "refs (Merge m) = {mg_sourceId m, mg_targetId m}"

definition queue_temps :: "pending_operation list \<Rightarrow> block_id set" where
  "queue_temps ops = (\<Union>op \<in> set ops. temps op)"

definition known :: "block_id set \<Rightarrow> block_id \<Rightarrow> bool" where
  "known T ident \<longleftrightarrow> \<not> isPendingId ident \<or> ident \<in> T"

fun scoped :: "block_id set \<Rightarrow> pending_operation list \<Rightarrow> bool" where
  "scoped T [] = True"
| "scoped T (op # ops) = ((\<forall>r \<in> refs op. known T r) \<and> scoped (T \<union> temps op) ops)"

fun numbered_op :: "nat \<Rightarrow> pending_operation \<Rightarrow> bool" where
  "numbered_op k (Creation c) =
     (cr_id c = cr_tempId c \<and> (\<exists>n. n \<le> k \<and> cr_tempId c = PENDING_PREFIX @ decimal n))"
| "numbered_op k (Merge m) = (\<exists>n. n \<le> k \<and> mg_id m = js ''merge-'' @ decimal n)"

fun same_op :: "pending_operation \<Rightarrow> pending_operation \<Rightarrow> bool" where
  "same_op (Creation c) (Creation c') =
     (cr_id c' = cr_id c \<and> cr_tempId c' = cr_tempId c \<and> cr_anchorId c' = cr_anchorId c)"
| "same_op (Merge m) (Merge m') =
     (mg_id m' = mg_id m \<and> mg_sourceId m' = mg_sourceId m \<and> mg_targetId m' = mg_targetId m)"
| "same_op _ _ = False"

definition queue_ok :: "nat \<Rightarrow> pending_operation list \<Rightarrow> bool" where
  "queue_ok k ops \<longleftrightarrow> scoped {} ops \<and> (\<forall>op \<in> set ops. numbered_op k op) \<and> distinct (map op_id ops)"

definition op_in_flight :: "pending_operation \<Rightarrow> pending_operation list \<Rightarrow> bool" where
  "op_in_flight op ops \<longleftrightarrow>
     (\<exists>head rest. ops = head # rest \<and> same_op op head \<and> op_dispatched head
        \<and> (\<forall>r \<in> refs head. \<not> isPendingId r) \<and> (\<forall>later \<in> set rest. \<not> op_dispatched later))"

fun dispatching_ok :: "dispatching \<Rightarrow> pending_operation list \<Rightarrow> bool" where
  "dispatching_ok Idle ops = (ops = [])"
| "dispatching_ok (Queued op) ops = op_in_flight op ops"
| "dispatching_ok (Running op) ops = op_in_flight op ops"
| "dispatching_ok (Replaying realId keys) ops = (\<not> isPendingId realId \<and> (\<forall>op \<in> set ops. \<not> op_dispatched op))"

fun command_ids :: "structural_command \<Rightarrow> block_id list" where
  "command_ids (InsertBlockCommand parent index text) = (case parent of None \<Rightarrow> [] | Some p \<Rightarrow> [p])"
| "command_ids (SplitBlockCommand ident index mode) = [ident]"
| "command_ids (MergeBackwardCommand ident target) = [ident, target]"
| "command_ids (IndentCommand ident) = [ident]"
| "command_ids (OutdentCommand ident) = [ident]"
| "command_ids (MoveBlocksCommand ids parent after) =
     ids @ (case parent of None \<Rightarrow> [] | Some p \<Rightarrow> [p]) @ (case after of None \<Rightarrow> [] | Some a \<Rightarrow> [a])"

definition command_real :: "structural_command \<Rightarrow> bool" where
  "command_real command \<longleftrightarrow> (\<forall>ident \<in> set (command_ids command). \<not> isPendingId ident)"

definition outline_ok :: "'c outline_world \<Rightarrow> bool" where
  "outline_ok w \<longleftrightarrow>
     queue_ok (ow_seq w) (oi_pending (ow_interaction w))
     \<and> dispatching_ok (ow_dispatching w) (oi_pending (ow_interaction w))
     \<and> list_all command_real (ow_sent w)"

text \<open>Between two operations: nothing is in flight or marked.\<close>

definition outline_idle :: "'c outline_world \<Rightarrow> bool" where
  "outline_idle w \<longleftrightarrow>
     queue_ok (ow_seq w) (oi_pending (ow_interaction w)) \<and> ow_dispatching w = Idle
     \<and> (\<forall>op \<in> set (oi_pending (ow_interaction w)). \<not> op_dispatched op)
     \<and> list_all command_real (ow_sent w)"

subsection \<open>Scopes\<close>

lemma known_mono: "known T r \<Longrightarrow> T \<subseteq> T' \<Longrightarrow> known T' r"
  by (auto simp: known_def)

lemma scoped_mono: "scoped T ops \<Longrightarrow> T \<subseteq> T' \<Longrightarrow> scoped T' ops"
proof (induction ops arbitrary: T T')
  case (Cons op ops)
  then show ?case
    by (auto intro: known_mono Cons.IH [of "T \<union> temps op"])
qed simp

lemma scoped_append:
  "scoped T (ops @ ops') \<longleftrightarrow> scoped T ops \<and> scoped (T \<union> queue_temps ops) ops'"
  by (induction ops arbitrary: T) (auto simp: queue_temps_def Un_assoc)

lemma temps_maps [simp]:
  "temps (mark_dispatched i op) = temps op" "temps (defer_key t k op) = temps op" "temps (rename_pending a b op) = temps op"
  by (cases op; simp)+

lemma refs_maps [simp]: "refs (mark_dispatched i op) = refs op" "refs (defer_key t k op) = refs op"
  by (cases op; simp)+

lemma id_maps [simp]:
  "op_id (mark_dispatched i op) = op_id op" "op_id (defer_key t k op) = op_id op" "op_id (rename_pending a b op) = op_id op"
  by (cases op; simp)+

lemma numbered_maps [simp]:
  "numbered_op n (mark_dispatched i op) = numbered_op n op" "numbered_op n (defer_key t k op) = numbered_op n op"
  "numbered_op n (rename_pending a b op) = numbered_op n op"
  by (cases op; simp)+

lemma dispatched_maps [simp]:
  "op_dispatched (mark_dispatched i op) \<longleftrightarrow> op_dispatched op \<or> op_id op = i"
  "op_dispatched (defer_key t k op) = op_dispatched op" "op_dispatched (rename_pending a b op) = op_dispatched op"
  by (cases op; simp)+

lemma same_op_maps [simp]:
  "same_op op (mark_dispatched i op') = same_op op op'" "same_op op (defer_key t k op') = same_op op op'"
  by (cases op; cases op'; simp)+

lemma scoped_maps [simp]:
  "scoped T (map (mark_dispatched i) ops) = scoped T ops" "scoped T (map (defer_key t k) ops) = scoped T ops"
  by (induction ops arbitrary: T) auto

lemma refs_rename: "refs (rename_pending a b op) = (\<lambda>r. if r = a then b else r) ` refs op"
  by (cases op) auto

text \<open>The adopted id leaves the scope once every reference to it is renamed.\<close>

lemma scoped_rename:
  "scoped (insert a T) ops \<Longrightarrow> \<not> isPendingId b \<Longrightarrow> scoped T (map (rename_pending a b) ops)"
proof (induction ops arbitrary: T)
  case (Cons op ops)
  have "scoped (insert a (T \<union> temps op)) ops"
    using Cons.prems(1) by simp
  then show ?case
    using Cons by (auto simp: refs_rename known_def)
qed simp

lemma op_ids_map [simp]:
  "map op_id (map (mark_dispatched i) ops) = map op_id ops" "map op_id (map (defer_key t k) ops) = map op_id ops"
  "map op_id (map (rename_pending a b) ops) = map op_id ops"
  by (induction ops) auto

lemma queue_ok_maps [simp]:
  "queue_ok n (map (mark_dispatched i) ops) = queue_ok n ops" "queue_ok n (map (defer_key t k) ops) = queue_ok n ops"
  unfolding queue_ok_def op_ids_map by simp_all

lemma queue_ok_Nil [simp]: "queue_ok n []"
  by (simp add: queue_ok_def)

lemma numbered_mono: "numbered_op n op \<Longrightarrow> n \<le> n' \<Longrightarrow> numbered_op n' op"
  by (cases op) (auto intro: order_trans)

lemma prefixes_differ: "PENDING_PREFIX @ s \<noteq> js ''merge-'' @ t"
  by (simp add: PENDING_PREFIX_def js_def)

text \<open>A new operation whose references are known takes the next number.\<close>

lemma queue_ok_snoc:
  assumes "queue_ok k ops" "\<forall>r \<in> refs op. known (queue_temps ops) r"
    and "(\<exists>c. op = Creation c \<and> cr_id c = cr_tempId c \<and> cr_tempId c = PENDING_PREFIX @ decimal (Suc k))
       \<or> (\<exists>m. op = Merge m \<and> mg_id m = js ''merge-'' @ decimal (Suc k))"
  shows "queue_ok (Suc k) (ops @ [op])"
proof -
  have "op_id op \<noteq> op_id old" if "numbered_op k old" for old
    using that assms(3) prefixes_differ by (cases old) (auto, metis)
  moreover have "numbered_op (Suc k) op"
    using assms(3) by auto
  ultimately show ?thesis
    using assms(1,2) by (force simp: queue_ok_def scoped_append intro: numbered_mono)
qed

lemma queue_ok_tl: "queue_ok k (Merge m # ops) \<Longrightarrow> queue_ok k ops"
  by (simp add: queue_ok_def)

lemma queue_ok_adopt:
  "queue_ok k (Creation c # ops) \<Longrightarrow> \<not> isPendingId b \<Longrightarrow> queue_ok k (map (rename_pending (cr_tempId c) b) ops)"
  unfolding queue_ok_def op_ids_map by (auto intro: scoped_rename)

lemma queue_head_real: "queue_ok k (op # ops) \<Longrightarrow> r \<in> refs op \<Longrightarrow> \<not> isPendingId r"
  by (auto simp: queue_ok_def known_def)

subsection \<open>What each dispatch does to the queue\<close>

abbreviation queue :: "'c outline_world \<Rightarrow> pending_operation list" where
  "queue w \<equiv> oi_pending (ow_interaction w)"

lemma dispatch_draft_fields [simp]:
  "ow_seq (dispatch_draft surface action w) = ow_seq w"
  "ow_dispatching (dispatch_draft surface action w) = ow_dispatching w"
  "ow_sent (dispatch_draft surface action w) = ow_sent w"
  by (simp_all add: dispatch_draft_def Let_def split_beta)

lemma abandonPending_fields [simp]:
  "ow_seq (abandonPending surface w) = ow_seq w"
  "ow_dispatching (abandonPending surface w) = ow_dispatching w"
  "ow_sent (abandonPending surface w) = ow_sent w"
  "queue (abandonPending surface w) = []"
  by (simp_all add: abandonPending_def) (simp add: dispatch_draft_def Let_def)

fun queue_after :: "draft_action \<Rightarrow> pending_operation list \<Rightarrow> pending_operation list" where
  "queue_after (EnqueueAction operation) ops = ops @ [operation]"
| "queue_after (MarkDispatchedAction ident) ops = map (mark_dispatched ident) ops"
| "queue_after (AdoptAction tempId blockId typed) ops =
     (if creation_head ops tempId then map (rename_pending tempId blockId) (tl ops) else ops)"
| "queue_after (DiscardHeadAction tempId) ops = (if creation_head ops tempId then tl ops else ops)"
| "queue_after (CompleteMergeAction ident) ops = (if merge_head ops ident = None then ops else tl ops)"
| "queue_after (FailMergeAction ident) ops = (if merge_head ops ident = None then ops else tl ops)"
| "queue_after (DeferKeyAction tempId key) ops = map (defer_key tempId key) ops"
| "queue_after AbandonPendingAction ops = []"
| "queue_after _ ops = ops"

lemma queue_dispatch_draft [simp]: "queue (dispatch_draft surface action w) = queue_after action (queue w)"
  by (cases action)
    (auto simp: dispatch_draft_def Let_def reduce_edit_def reduce_adopt_def leave_head_def split_beta
      split: sum.splits option.splits)

text \<open>From an idle world with any sound queue, one dispatch leaves no head waiting.\<close>

lemma mark_head:
  assumes "queue_ok k (op # ops)" "\<forall>later \<in> set ops. \<not> op_dispatched later"
  shows "op_in_flight op (map (mark_dispatched (op_id op)) (op # ops))"
proof -
  have "op_id later \<noteq> op_id op" if "later \<in> set ops" for later
    using assms(1) that unfolding queue_ok_def by (metis distinct.simps(2) imageI list.simps(9) set_map)
  moreover have "same_op op op"
    by (cases op) simp_all
  ultimately show ?thesis
    using assms queue_head_real [OF assms(1)] by (auto simp: op_in_flight_def)
qed

lemma dispatchPending_ok:
  assumes "outline_idle w"
  shows "outline_ok (dispatchPending surface w)"
proof (cases "queue w")
  case Nil
  then show ?thesis
    using assms by (simp add: dispatchPending_def outline_idle_def outline_ok_def)
next
  case (Cons head rest)
  have real: "\<not> isPendingId r" if "r \<in> refs head" for r
    using assms Cons that queue_head_real by (force simp: outline_idle_def)
  have marked: "op_in_flight head (map (mark_dispatched (op_id head)) (head # rest))"
    using assms Cons by (intro mark_head) (auto simp: outline_idle_def)
  show ?thesis
  proof (cases head)
    case (Creation c)
    show ?thesis
    proof (cases "commandFor surface c = None")
      case True
      then show ?thesis
        using assms Cons Creation real by (simp add: dispatchPending_def outline_idle_def outline_ok_def)
    next
      case False
      then show ?thesis
        using assms Cons Creation real marked
        by (simp add: dispatchPending_def outline_idle_def outline_ok_def del: list.map(2))
    qed
  next
    case (Merge m)
    then show ?thesis
      using assms Cons real marked
      by (simp add: dispatchPending_def outline_idle_def outline_ok_def del: list.map(2))
  qed
qed

text \<open>While an operation is in flight, an enqueue only adds behind it.\<close>

lemma flight_snoc:
  "dispatching_ok d ops \<Longrightarrow> d \<noteq> Idle \<Longrightarrow> \<not> op_dispatched op \<Longrightarrow> dispatching_ok d (ops @ [op])"
  by (cases d) (auto simp: op_in_flight_def)

lemma dispatchPending_busy: "ow_dispatching w \<noteq> Idle \<Longrightarrow> dispatchPending surface w = w"
  by (simp add: dispatchPending_def)

lemma enqueue_then_dispatch:
  assumes "outline_ok w" "queue w' = queue w @ [op]" "ow_dispatching w' = ow_dispatching w"
    "ow_sent w' = ow_sent w" "queue_ok (ow_seq w') (queue w @ [op])" "\<not> op_dispatched op"
  shows "outline_ok (dispatchPending surface w')"
proof (cases "ow_dispatching w = Idle")
  case True
  then have "outline_idle w'"
    using assms by (simp add: outline_ok_def outline_idle_def)
  then show ?thesis
    by (rule dispatchPending_ok)
next
  case False
  then show ?thesis
    using assms flight_snoc [of "ow_dispatching w" "queue w" op]
    by (simp add: dispatchPending_busy outline_ok_def)
qed

lemma op_in_flight_defer: "op_in_flight op ops \<Longrightarrow> op_in_flight op (map (defer_key t k) ops)"
  by (auto simp: op_in_flight_def)

lemma flight_defer: "dispatching_ok d ops \<Longrightarrow> dispatching_ok d (map (defer_key t k) ops)"
  by (cases d) (auto intro: op_in_flight_defer)

lemma typing_ok: "outline_ok w \<Longrightarrow> typing_action action \<Longrightarrow> outline_ok (dispatch_draft surface action w)"
  by (cases action) (auto simp: outline_ok_def flight_defer)

subsection \<open>The rows of the surface\<close>

lemma row_id_simps [simp]: "row_id (pending_row entry src) = cr_tempId entry"
  "row_id (merge_row src a b m n row) = row_id row"
  by (simp_all add: row_id_def pending_row_def merge_row_def)

lemma project_operation_ids:
  "set (map row_id (pp_rows (project_operation drafts op shown))) \<subseteq> set (map row_id (pp_rows shown)) \<union> temps op"
proof (cases op)
  case (Creation c)
  then show ?thesis
    by (auto simp: project_creation_def Let_def split: option.splits creation_mode.splits
        dest: in_set_takeD in_set_dropD)
next
  case (Merge m)
  then show ?thesis
    by (auto simp: project_merge_def Let_def split: option.splits)
qed

lemma projectPendingOperations_ids:
  "set (map row_id (pp_rows (projectPendingOperations rows ops drafts))) \<subseteq> set (map row_id rows) \<union> queue_temps ops"
proof -
  have "set (map row_id (pp_rows (fold (project_operation drafts) ops shown)))
      \<subseteq> set (map row_id (pp_rows shown)) \<union> queue_temps ops" for shown
  proof (induction ops arbitrary: shown)
    case (Cons op ops)
    have "set (map row_id (pp_rows (fold (project_operation drafts) (op # ops) shown)))
        \<subseteq> set (map row_id (pp_rows (project_operation drafts op shown))) \<union> queue_temps ops"
      using Cons.IH [of "project_operation drafts op shown"] by simp
    also have "\<dots> \<subseteq> set (map row_id (pp_rows shown)) \<union> temps op \<union> queue_temps ops"
      using project_operation_ids [of drafts op shown] by blast
    finally show ?case
      by (simp add: queue_temps_def Un_assoc)
  qed (simp add: queue_temps_def)
  from this [of "\<lparr>pp_rows = rows, pp_content = Map.empty\<rparr>"] show ?thesis
    by (simp add: projectPendingOperations_def)
qed

lemma flattenOutline_loop_mem:
  "row \<in> set (flattenOutline_loop c rows h) \<Longrightarrow>
   \<exists>r \<in> set rows. row_id row = row_id r \<and> row_parentId row = row_parentId r"
  by (induction c rows h rule: flattenOutline_loop.induct) (auto simp: row_id_def split: if_splits)

lemma flattenOutline_real:
  assumes "surface_ok surface" "row \<in> set (flattenOutline (current_outline surface) c)"
  shows "\<not> isPendingId (row_id row)" "row_parentId row = Some p \<Longrightarrow> \<not> isPendingId p"
proof -
  obtain r where "r \<in> set (map snd (outlineIndex (current_outline surface)))"
      "row_id row = row_id r" "row_parentId row = row_parentId r"
    using flattenOutline_loop_mem assms(2) unfolding flattenOutline_def by blast
  then show "\<not> isPendingId (row_id row)" "row_parentId row = Some p \<Longrightarrow> \<not> isPendingId p"
    using assms(1) unfolding surface_ok_def by auto
qed

lemma surface_rows_known:
  assumes "surface_ok surface" "row \<in> set (surface_rows surface w)"
  shows "known (queue_temps (queue w)) (row_id row)"
proof -
  have "row_id row \<in> set (map row_id (surface_rows surface w))"
    using assms(2) by simp
  then have "row_id row \<in> set (map row_id (flattenOutline (current_outline surface)
      (projectedCollapsed (sf_collapsed surface) (queue w)))) \<union> queue_temps (queue w)"
    using projectPendingOperations_ids unfolding surface_rows_def surface_projection_def Let_def by blast
  then show ?thesis
    using flattenOutline_real(1) [OF assms(1)] by (auto simp: known_def)
qed

subsection \<open>Every event keeps the invariant\<close>

lemma commandFor_real:
  assumes "surface_ok surface" "commandFor surface c = Some command" "\<not> isPendingId (cr_anchorId c)"
  shows "command_real command"
proof -
  obtain src where src: "find (\<lambda>row. row_id row = cr_anchorId c)
        (flattenOutline (current_outline surface) (sf_collapsed surface)) = Some src"
    using assms(2) by (auto simp: commandFor_def split: option.splits)
  then have "src \<in> set (flattenOutline (current_outline surface) (sf_collapsed surface))"
    by (auto dest: find_SomeD)
  then show ?thesis
    using assms src flattenOutline_real(2) [OF assms(1)]
    by (auto simp: commandFor_def command_real_def split: creation_kind.splits option.splits if_splits)
qed

lemma siblingMove_real:
  assumes "siblingMove rows row d = Some command" "row \<in> set rows"
    and "\<And>r. r \<in> set rows \<Longrightarrow> \<not> isPendingId (row_id r)"
    and "\<And>p. row_parentId row = Some p \<Longrightarrow> \<not> isPendingId p"
  shows "command_real command"
proof -
  let ?stationary = "filter (\<lambda>candidate. row_parentId candidate = row_parentId row \<and> row_id candidate \<noteq> row_id row) rows"
  have "\<not> isPendingId (row_id (?stationary ! i))" if "i < length ?stationary" for i
    using assms(3) nth_mem [OF that] by auto
  then show ?thesis
    using assms by (auto simp: siblingMove_def Let_def command_real_def split: if_splits option.splits)
qed

lemma replay_command_real:
  assumes "surface_ok surface" "replay_command surface realId key = Some command" "\<not> isPendingId realId"
  shows "command_real command"
proof (cases "key = IndentKey \<or> key = OutdentKey")
  case True
  then show ?thesis
    using assms by (auto simp: replay_command_def command_real_def)
next
  case False
  let ?rows = "flattenOutline (current_outline surface) (sf_collapsed surface)"
  obtain row d where "find (\<lambda>row. row_id row = realId) ?rows = Some row" "siblingMove ?rows row d = Some command"
    using False assms(2)
    by (cases key) (auto simp: replay_command_def Let_def split: option.splits)
  then show ?thesis
    using flattenOutline_real [OF assms(1)] by (intro siblingMove_real [of ?rows row d]) (auto dest: find_SomeD)
qed

lemma insert_ok:
  assumes "outline_ok w" "surface_ok surface" "row \<in> set (surface_rows surface w)"
  shows "outline_ok (enqueuePendingInsert surface row content mode w)"
  unfolding enqueuePendingInsert_def Let_def
  using assms(1) surface_rows_known [OF assms(2,3)]
  by (intro enqueue_then_dispatch [OF assms(1)])
    (auto simp: enqueue_operation_def outline_ok_def intro!: queue_ok_snoc)

lemma split_ok:
  assumes "outline_ok w" "surface_ok surface" "row \<in> set (surface_rows surface w)"
  shows "outline_ok (enqueuePendingSplit surface row index head tail asChild w)"
  unfolding enqueuePendingSplit_def Let_def
  using assms(1) surface_rows_known [OF assms(2,3)]
  by (intro enqueue_then_dispatch [OF assms(1)])
    (auto simp: enqueue_operation_def outline_ok_def intro!: queue_ok_snoc)

lemma row_above_mem: "0 < rowIndexOf rows i \<Longrightarrow> rows ! nat (rowIndexOf rows i - 1) \<in> set rows"
proof -
  have "find_index P xs < int (length xs)" for P :: "outline_row \<Rightarrow> bool" and xs
    by (induction P xs rule: find_index.induct) (auto simp: Let_def)
  then show "0 < rowIndexOf rows i \<Longrightarrow> rows ! nat (rowIndexOf rows i - 1) \<in> set rows"
    unfolding rowIndexOf_def by (intro nth_mem) (smt (verit) nat_less_iff)
qed

lemma merge_ok:
  assumes "outline_ok w" "surface_ok surface" "row \<in> set (surface_rows surface w)"
  shows "outline_ok (mergeBackward surface row live w)"
proof -
  let ?target = "surface_rows surface w ! nat (rowIndexOf (surface_rows surface w) (row_id row) - 1)"
  have target: "known (queue_temps (queue w)) (row_id ?target)" if "0 < rowIndexOf (surface_rows surface w) (row_id row)"
    using surface_rows_known [OF assms(2) row_above_mem [OF that]] .
  have go: "outline_ok (dispatchPending surface (enqueue_operation surface (Merge m) (w\<lparr>ow_seq := Suc (ow_seq w)\<rparr>)))"
    if "mg_id m = js ''merge-'' @ decimal (Suc (ow_seq w))" "\<not> mg_dispatched m" "mg_sourceId m = row_id row"
      "known (queue_temps (queue w)) (mg_targetId m)" for m
    using assms(1) surface_rows_known [OF assms(2,3)] that
    by (intro enqueue_then_dispatch [OF assms(1)])
      (auto simp: enqueue_operation_def outline_ok_def intro!: queue_ok_snoc)
  show ?thesis
    using assms(1) target
    by (auto simp: mergeBackward_def Let_def split: option.splits intro!: go)
qed

lemma lane_ok:
  assumes "outline_ok w" "surface_ok surface"
  shows "outline_ok (lane_reached surface w)"
proof (cases "ow_dispatching w")
  case (Queued op)
  obtain head rest where flight: "queue w = head # rest" "same_op op head" "\<forall>r \<in> refs head. \<not> isPendingId r"
    using assms(1) Queued by (auto simp: outline_ok_def op_in_flight_def)
  have "command_real command" if "commandFor surface c = Some command" "op = Creation c" for c command
    using commandFor_real [OF assms(2) that(1)] flight that(2) by (cases head) auto
  moreover have "command_real (MergeBackwardCommand (mg_sourceId m) (mg_targetId m))" if "op = Merge m" for m
    using flight that by (cases head) (auto simp: command_real_def)
  ultimately show ?thesis
    using assms(1) Queued
    by (cases op) (auto simp: lane_reached_def outline_ok_def split: option.splits)
qed (use assms in \<open>simp_all add: lane_reached_def\<close>)

lemma settled_ok:
  assumes "outline_ok w" "\<And>b. answer = Some (Some b) \<Longrightarrow> \<not> isPendingId b"
  shows "outline_ok (command_settled surface answer w)"
proof (cases "ow_dispatching w")
  case (Running op)
  obtain head rest where flight: "queue w = head # rest" "same_op op head" "\<forall>later \<in> set rest. \<not> op_dispatched later"
    using assms(1) Running by (auto simp: outline_ok_def op_in_flight_def)
  have sound: "queue_ok (ow_seq w) (head # rest)" "list_all command_real (ow_sent w)"
    using assms(1) flight by (simp_all add: outline_ok_def)
  show ?thesis
  proof (cases op)
    case (Merge m)
    then obtain m' where m': "head = Merge m'" "mg_id m' = mg_id m"
      using flight(2) by (cases head) auto
    have idle: "outline_idle ((dispatch_draft surface action w)\<lparr>ow_dispatching := Idle\<rparr>)"
      if "queue_after action (queue w) = rest" for action
      using that flight sound m' queue_ok_tl by (auto simp: outline_idle_def)
    have "merge_settled surface m ok w = dispatchPending surface ((dispatch_draft surface
        (if ok then CompleteMergeAction (mg_id m) else FailMergeAction (mg_id m)) w)\<lparr>ow_dispatching := Idle\<rparr>)" for ok
      by (cases ok) simp_all
    then show ?thesis
      using flight m' Running Merge
      by (cases answer) (auto simp: command_settled_def intro!: dispatchPending_ok idle)
  next
    case (Creation c)
    then obtain c' where c': "head = Creation c'" "cr_tempId c' = cr_tempId c"
      using flight(2) by (cases head) auto
    show ?thesis
    proof (cases answer)
      case None
      then show ?thesis
        using Running Creation sound by (simp add: command_settled_def outline_ok_def)
    next
      case (Some created)
      show ?thesis
      proof (cases created)
        case None
        have "outline_idle ((abandonPending surface (dispatch_draft surface (DiscardHeadAction (cr_tempId c)) w))
            \<lparr>ow_dispatching := Idle\<rparr>)"
          using sound by (simp add: outline_idle_def)
        then show ?thesis
          using Running Creation None \<open>answer = Some created\<close> dispatchPending_ok by (simp add: command_settled_def)
      next
        case (Some b)
        then have b: "\<not> isPendingId b"
          using assms(2) \<open>answer = Some created\<close> by simp
        then show ?thesis
          using Running Creation Some \<open>answer = Some created\<close> flight c' sound queue_ok_adopt [of "ow_seq w" c' rest b]
          by (auto simp: command_settled_def creation_applied_def Let_def outline_ok_def)
      qed
    qed
  qed
qed (use assms in \<open>simp_all add: command_settled_def\<close>)

lemma replay_ok:
  assumes "outline_ok w" "surface_ok surface"
  shows "outline_ok (replay_turn surface flushed w)"
proof (cases "ow_dispatching w")
  case (Replaying realId keys)
  show ?thesis
  proof (cases keys)
    case Nil
    have "outline_idle (w\<lparr>ow_dispatching := Idle\<rparr>)"
      using assms(1) Replaying by (simp add: outline_ok_def outline_idle_def)
    then show ?thesis
      using Replaying Nil dispatchPending_ok by (simp add: replay_turn_def)
  next
    case (Cons key rest)
    have "\<not> isPendingId realId"
      using assms(1) Replaying by (simp add: outline_ok_def)
    then show ?thesis
      using assms(1) Replaying Cons replay_command_real [OF assms(2)]
      by (auto simp: replay_turn_def outline_ok_def split: option.splits)
  qed
qed (use assms in \<open>simp_all add: replay_turn_def\<close>)

lemma outline_reachable_ok: "outline_reachable w \<Longrightarrow> outline_ok w"
proof (induction rule: outline_reachable.induct)
  case (opened st)
  then show ?case
    by (simp add: outline_ok_def initial_world_def initialOutlineDraftState_def)
next
  case (sessions_change w st)
  then show ?case
    by (simp add: outline_ok_def)
qed (simp_all add: insert_ok split_ok merge_ok typing_ok lane_ok settled_ok replay_ok)

text \<open>
  C29. The queue of structural edits never gets stuck and never leaks a temporary id: in every
  reachable state of an outline an idle dispatcher has an empty queue, only the oldest operation
  is marked as sent, every reference to a temporary id stands behind the operation that creates
  it, no command that reached the core names a temporary id, and the answer to the running
  command always shortens the queue.
\<close>

theorem outline_queue_progress:
  assumes "outline_reachable w"
  shows "(ow_dispatching w = Idle \<longrightarrow> oi_pending (ow_interaction w) = [])
     \<and> list_all (\<lambda>op. \<not> op_dispatched op) (tl (oi_pending (ow_interaction w)))
     \<and> (\<forall>before op behind r. oi_pending (ow_interaction w) = before @ op # behind \<longrightarrow> r \<in> refs op \<longrightarrow>
          isPendingId r \<longrightarrow> (\<exists>c. Creation c \<in> set before \<and> cr_tempId c = r))
     \<and> list_all command_real (ow_sent w)
     \<and> (\<forall>op surface answer. ow_dispatching w = Running op \<longrightarrow>
          length (oi_pending (ow_interaction (command_settled surface answer w)))
          < length (oi_pending (ow_interaction w)))"
    (is "?idle \<and> ?marks \<and> ?scope \<and> ?sent \<and> ?shorter")
proof (intro conjI)
  have ok: "outline_ok w"
    by (rule outline_reachable_ok [OF assms])
  show ?idle ?sent
    using ok by (auto simp: outline_ok_def)
  show ?marks
    using ok by (cases "ow_dispatching w"; cases "queue w") (auto simp: outline_ok_def op_in_flight_def list_all_iff)
  show ?scope
  proof (intro allI impI)
    fix before op behind r
    assume at: "queue w = before @ op # behind" and r: "r \<in> refs op" "isPendingId r"
    have "scoped {} (before @ op # behind)"
      using ok at by (simp add: outline_ok_def queue_ok_def)
    then have "r \<in> queue_temps before"
      using r by (auto simp: scoped_append known_def)
    then obtain earlier where earlier: "earlier \<in> set before" "r \<in> temps earlier"
      by (auto simp: queue_temps_def)
    then obtain c where "earlier = Creation c" "cr_tempId c = r"
      by (cases earlier rule: pending_operation.exhaust) auto
    with earlier show "\<exists>c. Creation c \<in> set before \<and> cr_tempId c = r"
      by blast
  qed
  show ?shorter
  proof (intro allI impI)
    fix op surface answer
    assume running: "ow_dispatching w = Running op"
    obtain head rest where flight: "queue w = head # rest" "same_op op head"
      using ok running by (auto simp: outline_ok_def op_in_flight_def)
    have shrink: "length (queue (dispatchPending surface w')) \<le> length (queue w')" for w' :: "'a outline_world"
      by (simp add: dispatchPending_def split: list.splits pending_operation.splits)
    show "length (queue (command_settled surface answer w)) < length (queue w)"
    proof (cases op)
      case (Merge m)
      then obtain m' where "head = Merge m'" "mg_id m' = mg_id m"
        using flight(2) by (cases head) auto
      then show ?thesis
        using running Merge flight(1)
        by (cases answer) (auto simp: command_settled_def intro!: le_imp_less_Suc order_trans [OF shrink])
    next
      case (Creation c)
      then obtain c' where "head = Creation c'" "cr_tempId c' = cr_tempId c"
        using flight(2) by (cases head) auto
      then show ?thesis
        using running Creation flight(1)
        by (cases answer; cases "the answer")
          (auto simp: command_settled_def creation_applied_def Let_def intro!: le_imp_less_Suc order_trans [OF shrink])
    qed
  qed
qed

subsection \<open>Adoption\<close>

lemma without_apply: "without m ks k = (if k \<in> set ks then None else m k)"
  by (induction ks arbitrary: m) (auto simp: without_def)

lemma draft_at_reset:
  "draft_at (reset_session snapshot st target) =
   (draft_at st)(target_key target :=
      if 0 < cs_observers st (target_key target) then canonical snapshot (ct_owner target) (ct_block target) else None)"
  by (simp add: reset_session_def Let_def)

lemma canonical_owner:
  assumes "outlineOwnerKey o1 = outlineOwnerKey o2"
  shows "canonical snapshot o1 = canonical snapshot o2"
proof -
  have "owner_id o1 = owner_id o2"
    using assms by (simp add: outlineOwnerKey_def)
  then show ?thesis
    unfolding canonical_def findOutline_def by (simp only:)
qed

lemma store_ok_reset:
  "store_ok st \<Longrightarrow> snapshot_ok snapshot \<Longrightarrow> store_ok (reset_session snapshot st target)"
  unfolding reset_session_def Let_def
  by (rule store_ok_set) (auto dest: canonical_inv(1) split: if_splits)

text \<open>
  C30. Adopting a row loses nothing typed into it: the draft of the temporary row becomes the draft
  of the real block, the closers the editor put in keep their provenance under the new id, every
  other draft and marker stays, and the temporary id is forgotten by the queue.
\<close>

theorem adopt_keeps_input:
  assumes "store_ok st" "snapshot_ok snapshot" "oi_pending state = Creation c # ops" "cr_tempId c = tempId"
    and "realId \<noteq> tempId"
    and "applyOutlineDraftAction snapshot owner directory state st (AdoptAction tempId realId typed) = (st', Inr state')"
  shows "store_ok st'
     \<and> (\<forall>b. draft_at st (outlineOwnerKey owner, tempId) = Some b \<longrightarrow> \<not> bufferIsClean b \<longrightarrow>
          draft_at st' (outlineOwnerKey owner, realId) = Some b)
     \<and> (canonical snapshot owner tempId = None \<longrightarrow> draft_at st' (outlineOwnerKey owner, tempId) = None)
     \<and> (\<forall>key. key \<noteq> (outlineOwnerKey owner, tempId) \<longrightarrow> key \<noteq> (outlineOwnerKey owner, realId) \<longrightarrow>
          draft_at st' key = draft_at st key)
     \<and> oi_autoClosers state' = (oi_autoClosers state)
         (tempId := None,
          realId := (case oi_autoClosers state tempId of Some markers \<Rightarrow> Some markers
                     | None \<Rightarrow> oi_autoClosers state realId))
     \<and> (\<forall>op \<in> set (oi_pending state'). tempId \<notin> refs op)"
proof -
  let ?temp = "(outlineOwnerKey owner, tempId)" and ?real = "(outlineOwnerKey owner, realId)"
  obtain target st1 where target: "target_of st owner tempId = (target, st1)"
    by force
  have first: "store_ok st1" "same_drafts st st1" "target_key target = ?temp"
    using store_ok_target [OF assms(1) target] by simp_all
  have owner: "outlineOwnerKey (ct_owner target) = outlineOwnerKey owner" "ct_block target = tempId"
    using first(3) by (simp_all add: target_key_def)
  obtain adopter st2 where adopter: "target_of st1 (ct_owner target) realId = (adopter, st2)"
    by force
  have second: "store_ok st2" "same_drafts st1 st2" "target_key adopter = ?real"
    using store_ok_target [OF first(1) adopter] by (simp_all add: owner)
  have drafts: "draft_at st1 = draft_at st" "draft_at st2 = draft_at st"
    using same_draftsD(1) first(2) second(2) by metis+
  have result: "st' = adopt_session snapshot st1 target realId"
      "oi_autoClosers state' = (case oi_autoClosers state tempId of
          None \<Rightarrow> without (oi_autoClosers state) [tempId]
        | Some markers \<Rightarrow> (without (oi_autoClosers state) [tempId])(realId \<mapsto> markers))"
      "oi_pending state' = map (rename_pending tempId realId) ops"
    using assms(3,4,6) target by (auto simp: reduce_adopt_def Let_def)
  let ?moved = "case draft_at st ?temp of None \<Rightarrow> st1
      | Some b \<Rightarrow> if bufferIsClean b then st1 else set_buffer st2 adopter (Some b)"
  have st': "st' = reset_session snapshot ?moved target"
    using adopter by (auto simp: result(1) adopt_session_def first(3) drafts split: option.split)
  have "store_ok ?moved"
    using first(1) second(1) store_ok_inv [OF assms(1)] by (auto intro!: store_ok_set split: option.split)
  then have "store_ok st'"
    unfolding st' using assms(2) by (rule store_ok_reset)
  define moved where "moved = ?moved"
  have moved: "draft_at moved key = (if key = ?real \<and> (\<exists>b. draft_at st ?temp = Some b \<and> \<not> bufferIsClean b)
      then draft_at st ?temp else draft_at st key)" for key
    by (cases "draft_at st ?temp") (simp_all add: moved_def drafts second(3))
  have after: "draft_at st' key = (if key = ?temp
      then (if 0 < cs_observers moved ?temp then canonical snapshot owner tempId else None)
      else draft_at moved key)" for key
    unfolding st' draft_at_reset moved_def [symmetric] using owner(2) canonical_owner [OF owner(1)] first(3) by simp
  show ?thesis
  proof (intro conjI allI impI ballI)
    show "store_ok st'" by fact
    show "tempId \<notin> refs op" if "op \<in> set (oi_pending state')" for op
      using that assms(5) by (auto simp: result(3) refs_rename)
    show "oi_autoClosers state' = (oi_autoClosers state)
         (tempId := None,
          realId := (case oi_autoClosers state tempId of Some markers \<Rightarrow> Some markers
                     | None \<Rightarrow> oi_autoClosers state realId))"
      using assms(5) by (auto simp: result(2) without_apply fun_eq_iff split: option.split)
  qed (use assms(5) in \<open>simp_all add: after moved\<close>)
qed

subsection \<open>Witnesses\<close>

definition sample_surface :: outline_surface where
  "sample_surface =
     \<lparr>sf_snapshot = \<lparr>gs_schema_version = 1, gs_graph_id = [],
        gs_pages = [\<lparr>pg_id = js ''p'', pg_title = [], pg_properties = [], pg_tags = [],
           pg_blocks = [Block (js ''a'') [] [] [] [] [] []]\<rparr>],
        gs_page_directory = [], gs_tags = [], gs_settings = [], gs_conflicts = [], gs_quarantined = []\<rparr>,
      sf_owner = \<lparr>owner_kind = PageOwner, owner_id = js ''p''\<rparr>,
      sf_blocks = [], sf_collapsed = (\<lambda>_. False), sf_directory = []\<rparr>"

definition sample_row :: outline_row where
  "sample_row =
     \<lparr>row_block = Block (js ''a'') [] [] [] [] [] [], row_depth = 0, row_parentId = None, row_index = 0,
      row_siblingCount = 1, row_hasChildren = False, row_collapsed = False\<rparr>"

definition sample_queue_world :: "unit outline_world" where
  "sample_queue_world =
     lane_reached sample_surface
       (enqueuePendingInsert sample_surface sample_row \<lparr>markdown = js ''hi'', pageReferences = []\<rparr> SiblingMode
          (initial_world empty_sessions))"

lemma sample_surface_ok: "surface_ok sample_surface"
  by code_simp

lemma sample_rows: "surface_rows sample_surface (initial_world (empty_sessions :: unit content_sessions)) = [sample_row]"
  by code_simp

lemma sample_queue_world_reachable: "outline_reachable sample_queue_world"
  unfolding sample_queue_world_def
  by (intro outline_reachable.lane outline_reachable.insert_row outline_reachable.opened sample_surface_ok)
    (simp add: sample_rows)

lemma sample_queue_world_state:
  "ow_sent sample_queue_world = [InsertBlockCommand None 1 []]"
  "map op_target (queue sample_queue_world) = [js ''pending-1'']"
  "(case ow_dispatching sample_queue_world of Running op \<Rightarrow> op_id op = js ''pending-1'' | _ \<Rightarrow> False)"
  by code_simp+

theorem outline_queue_progress_witness:
  "oi_pending (ow_interaction (command_settled sample_surface None sample_queue_world)) = []
   \<and> list_all command_real (ow_sent sample_queue_world)"
proof -
  obtain op where "ow_dispatching sample_queue_world = Running op"
    using sample_queue_world_state(3) by (cases "ow_dispatching sample_queue_world") auto
  moreover have "length (queue sample_queue_world) = 1"
    using sample_queue_world_state(2) by (metis length_map length_Cons list.size(3) One_nat_def)
  ultimately show ?thesis
    using outline_queue_progress [OF sample_queue_world_reachable] by fastforce
qed

lemma store_ok_empty: "store_ok empty_sessions"
  by (auto simp: store_ok_def drafts_ok_def targets_ok_def unclean_def draft_at_def empty_sessions_def)

definition sample_typed_row :: content_buffer where
  "sample_typed_row = \<lparr>source = [], pieces = [InsertPiece [Txt (js ''h''), Txt (js ''i'')]]\<rparr>"

definition sample_sessions :: "unit content_sessions" where
  "sample_sessions = set_buffer empty_sessions
     \<lparr>ct_owner = sf_owner sample_surface, ct_block = js ''pending-1''\<rparr> (Some sample_typed_row)"

lemma sample_sessions_ok: "store_ok sample_sessions"
proof -
  have "buffer_inv sample_typed_row"
    by (simp add: sample_typed_row_def buffer_inv_def scalar_point_def is_high_surrogate_def is_low_surrogate_def js_def)
  then show ?thesis
    unfolding sample_sessions_def by (intro store_ok_set store_ok_empty) auto
qed

lemma sample_surface_snapshot_ok: "snapshot_ok (sf_snapshot sample_surface)"
proof -
  have "blocks = [Block (js ''a'') [] [] [] [] [] []]"
    if "findOutline (sf_snapshot sample_surface) owner = Some blocks" for owner blocks
    using that by (auto simp: findOutline_def findPage_def findTag_def byId_def sample_surface_def split: if_splits)
  moreover have "distinct (forest_ids [Block (js ''a'') [] [] [] [] [] []])"
    by code_simp
  then have "findBlock [Block (js ''a'') [] [] [] [] [] []] blockId = Some block \<Longrightarrow> bl_content block = []"
    for blockId block
    using findBlock_Some [of "[Block (js ''a'') [] [] [] [] [] []]" blockId block] by auto
  ultimately show ?thesis
    by (fastforce simp: snapshot_ok_def content_ok_def well_formed_content_def contentAtoms_def)
qed

theorem adopt_keeps_input_witness:
  "draft_at (fst (applyOutlineDraftAction (sf_snapshot sample_surface) (sf_owner sample_surface) []
         (ow_interaction sample_queue_world) sample_sessions
         (AdoptAction (js ''pending-1'') (js ''b'') (js ''hi'')))) (js ''document:p'', js ''b'') = Some sample_typed_row"
proof -
  let ?state = "ow_interaction sample_queue_world" and ?surface = "sample_surface"
  obtain c where c: "oi_pending ?state = [Creation c]" "cr_tempId c = js ''pending-1''"
  proof -
    have "list_all (\<lambda>op. case op of Creation c \<Rightarrow> True | Merge m \<Rightarrow> False) (queue sample_queue_world)"
      by code_simp
    then show thesis
      using that sample_queue_world_state(2) by (cases "queue sample_queue_world") (auto split: pending_operation.splits)
  qed
  let ?reduced = "applyOutlineDraftAction (sf_snapshot ?surface) (sf_owner ?surface) [] ?state sample_sessions
      (AdoptAction (js ''pending-1'') (js ''b'') (js ''hi''))"
  obtain state' where reduced: "?reduced = (fst ?reduced, Inr state')"
    using c by (simp add: reduce_adopt_def Let_def split_beta)
  have "draft_at sample_sessions (js ''document:p'', js ''pending-1'') = Some sample_typed_row"
    "outlineOwnerKey (sf_owner ?surface) = js ''document:p''" "\<not> bufferIsClean sample_typed_row" "js ''b'' \<noteq> js ''pending-1''"
    by code_simp+
  then show ?thesis
    using adopt_keeps_input [OF sample_sessions_ok sample_surface_snapshot_ok c _ reduced] by simp
qed

end
