(* ===== verification/Outline_Projection.thy ===== *)
theory Outline_Projection
  imports Outline_Queue
begin

text \<open>
  The rows an outline shows while creations are pending (\<open>projectPendingOperations\<close>): each one
  adds its row in document order and changes no other.
\<close>

lemma find_index_Some:
  "find_index P xs = int i \<Longrightarrow> i < length xs \<and> P (xs ! i)"
proof (induction P xs arbitrary: i rule: find_index.induct)
  case (2 P x xs)
  show ?case
  proof (cases "P x")
    case False
    then obtain j where "find_index P xs = int j" "i = j + 1"
      using 2(2) by (cases i) (auto simp: Let_def split: if_splits)
    then show ?thesis
      using 2(1) [OF False] by simp
  qed (use 2 in simp)
qed simp

lemma find_index_neg: "find_index P xs < 0 \<longleftrightarrow> (\<forall>x \<in> set xs. \<not> P x)"
  by (induction P xs rule: find_index.induct) (auto simp: Let_def)

lemma row_position_Some: "row_position rows ident = Some i \<Longrightarrow> i < length rows \<and> row_id (rows ! i) = ident"
  using find_index_Some [of "\<lambda>row. bl_id (row_block row) = ident" rows i]
  by (auto simp: row_position_def rowIndexOf_def row_id_def Let_def split: if_splits)

lemma row_position_None: "row_position rows ident = None \<longleftrightarrow> ident \<notin> set (map row_id rows)"
  using find_index_neg [of "\<lambda>row. bl_id (row_block row) = ident" rows]
  by (auto simp: row_position_def rowIndexOf_def row_id_def Let_def)

lemma subtree_end_split:
  assumes "i < length rows"
  defines "below \<equiv> takeWhile (\<lambda>row. row_depth (rows ! i) < row_depth row) (drop (i + 1) rows)"
  shows "take (subtree_end rows i) rows = take (i + 1) rows @ below"
    and "drop (subtree_end rows i) rows = dropWhile (\<lambda>row. row_depth (rows ! i) < row_depth row) (drop (i + 1) rows)"
proof -
  have "take (length below) (drop (i + 1) rows) = below"
    unfolding below_def by (metis takeWhile_eq_take takeWhile_takeWhile)
  moreover have "take (i + 1 + length below) rows = take (i + 1) rows @ take (length below) (drop (i + 1) rows)"
    by (rule take_add)
  ultimately show "take (subtree_end rows i) rows = take (i + 1) rows @ below"
    unfolding subtree_end_def below_def by (simp only:)
  show "drop (subtree_end rows i) rows = dropWhile (\<lambda>row. row_depth (rows ! i) < row_depth row) (drop (i + 1) rows)"
    unfolding subtree_end_def by (simp add: dropWhile_eq_drop add.commute)
qed

lemma ordered_insert:
  assumes "ordered_rows (xs @ ys)" "xs = [] \<Longrightarrow> row_depth r = 0" "xs \<noteq> [] \<Longrightarrow> row_follows (last xs) r"
    and "ys \<noteq> [] \<Longrightarrow> row_follows r (hd ys)"
  shows "ordered_rows (xs @ [r] @ ys)"
proof -
  have parts: "successively row_follows xs" "successively row_follows ys"
    using assms(1) by (auto simp: ordered_rows_def successively_append_iff)
  have "successively row_follows ([r] @ ys)"
    using parts(2) assms(4) by (cases ys) auto
  then have "successively row_follows (xs @ ([r] @ ys))"
    unfolding successively_append_iff using parts(1) assms(3) by (cases "xs = []") simp_all
  moreover have "row_depth (hd (xs @ [r] @ ys)) = 0"
    using assms(1,2) by (cases xs) (auto simp: ordered_rows_def)
  ultimately show ?thesis
    by (simp add: ordered_rows_def)
qed

definition insert_at :: "pending_creation \<Rightarrow> outline_row list \<Rightarrow> nat \<Rightarrow> nat" where
  "insert_at c rows i = (case cr_mode c of BeforeMode \<Rightarrow> i | ChildMode \<Rightarrow> i + 1 | SiblingMode \<Rightarrow> subtree_end rows i)"

lemma ordered_pending_row:
  assumes rows: "ordered_rows rows" "i < length rows" and open_row: "cr_mode c = ChildMode \<Longrightarrow> \<not> row_collapsed (rows ! i)"
  shows "ordered_rows (take (insert_at c rows i) rows @ [pending_row c (rows ! i)] @ drop (insert_at c rows i) rows)"
proof -
  let ?src = "rows ! i" and ?n = "insert_at c rows i"
  have whole: "ordered_rows (take ?n rows @ drop ?n rows)"
    using rows by simp
  have follows: "row_follows (rows ! j) (rows ! Suc j)" if "Suc j < length rows" for j
    using rows(1) that by (rule ordered_rows_step)
  show ?thesis
  proof (cases "cr_mode c")
    case BeforeMode
    then have n: "?n = i" and depth: "row_depth (pending_row c ?src) = row_depth ?src" "\<not> row_collapsed (pending_row c ?src)"
      by (simp_all add: insert_at_def pending_row_def)
    show ?thesis
      using whole unfolding n
    proof (rule ordered_insert)
      show "row_depth (pending_row c ?src) = 0" if "take i rows = []"
        using that rows ordered_rows_first [OF rows(1)] depth by (cases i) auto
      show "row_follows (last (take i rows)) (pending_row c ?src)" if "take i rows \<noteq> []"
      proof -
        have "0 < i" using that by (cases i) auto
        then have "last (take i rows) = rows ! (i - 1)"
          using rows(2) last_conv_nth [OF that] by simp
        then show ?thesis
          using follows [of "i - 1"] \<open>0 < i\<close> rows(2) depth(1) by (simp add: row_follows_def)
      qed
      show "row_follows (pending_row c ?src) (hd (drop i rows))" if "drop i rows \<noteq> []"
        using rows(2) depth by (simp add: row_follows_def hd_drop_conv_nth)
    qed
  next
    case ChildMode
    then have n: "?n = Suc i" and depth: "row_depth (pending_row c ?src) = row_depth ?src + 1" "\<not> row_collapsed (pending_row c ?src)"
      by (simp_all add: insert_at_def pending_row_def)
    have "last (take (Suc i) rows) = ?src"
      using rows(2) by (simp add: take_Suc_conv_app_nth)
    moreover have "row_follows ?src (hd (drop (Suc i) rows))" if "drop (Suc i) rows \<noteq> []"
      using that follows [of i] by (simp add: hd_drop_conv_nth)
    ultimately show ?thesis
      using whole rows(2) open_row [OF ChildMode] depth unfolding n
      by (intro ordered_insert) (auto simp: row_follows_def)
  next
    case SiblingMode
    then have n: "?n = subtree_end rows i" and depth: "row_depth (pending_row c ?src) = row_depth ?src" "\<not> row_collapsed (pending_row c ?src)"
      by (simp_all add: insert_at_def pending_row_def)
    let ?P = "\<lambda>row. row_depth ?src < row_depth row"
    note parts = subtree_end_split [OF rows(2)]
    have "row_depth ?src \<le> row_depth (last (take ?n rows))"
    proof (cases "takeWhile ?P (drop (i + 1) rows) = []")
      case True
      then show ?thesis
        using rows(2) by (simp add: n parts(1) take_Suc_conv_app_nth)
    next
      case False
      then have "?P (last (takeWhile ?P (drop (i + 1) rows)))"
        by (metis last_in_set set_takeWhileD)
      with False show ?thesis
        by (simp add: n parts(1) del: take_Suc)
    qed
    moreover have "row_depth (hd (drop ?n rows)) \<le> row_depth ?src" if "drop ?n rows \<noteq> []"
      using that hd_dropWhile [of ?P "drop (i + 1) rows"] by (simp add: n parts(2))
    ultimately show ?thesis
      using whole rows(2) depth by (intro ordered_insert) (auto simp: row_follows_def n subtree_end_def)
  qed
qed

lemma project_creation_rows:
  "row_position (pp_rows shown) (cr_anchorId c) = Some i \<Longrightarrow>
   pp_rows (project_creation drafts c shown) =
     take (insert_at c (pp_rows shown) i) (pp_rows shown) @ [pending_row c (pp_rows shown ! i)]
     @ drop (insert_at c (pp_rows shown) i) (pp_rows shown)"
  by (simp add: project_creation_def insert_at_def Let_def split: creation_mode.splits)

lemma project_creation_none:
  "row_position (pp_rows shown) (cr_anchorId c) = None \<Longrightarrow> project_creation drafts c shown = shown"
  by (simp add: project_creation_def Let_def)

definition open_anchor :: "outline_row list \<Rightarrow> pending_creation \<Rightarrow> bool" where
  "open_anchor rows c \<longleftrightarrow>
     (cr_mode c = ChildMode \<longrightarrow> (\<forall>row \<in> set rows. row_id row = cr_anchorId c \<longrightarrow> \<not> row_collapsed row))"

lemma project_creation_step:
  fixes drafts :: "block_id \<rightharpoonup> inline_content_projection"
  assumes "ordered_rows (pp_rows shown)" "distinct (map row_id (pp_rows shown))"
    and "cr_tempId c \<notin> set (map row_id (pp_rows shown))" "open_anchor (pp_rows shown) c"
  defines "rows' \<equiv> pp_rows (project_creation drafts c shown)"
  shows "ordered_rows rows'" "distinct (map row_id rows')"
    and "filter (\<lambda>row. row_id row \<noteq> cr_tempId c) rows' = pp_rows shown"
    and "set rows' \<subseteq> set (pp_rows shown) \<union> {row. row_id row = cr_tempId c \<and> \<not> row_collapsed row}"
    and "cr_anchorId c \<in> set (map row_id (pp_rows shown)) \<Longrightarrow>
      \<exists>row \<in> set rows'. row_id row = cr_tempId c"
proof -
  let ?rows = "pp_rows shown"
  have other: "filter (\<lambda>row. row_id row \<noteq> cr_tempId c) ?rows = ?rows"
    using assms(3) by (intro filter_True ballI) (metis image_eqI set_map)
  have all: "ordered_rows rows' \<and> distinct (map row_id rows')
     \<and> filter (\<lambda>row. row_id row \<noteq> cr_tempId c) rows' = ?rows
     \<and> set rows' \<subseteq> set ?rows \<union> {row. row_id row = cr_tempId c \<and> \<not> row_collapsed row}
     \<and> (cr_anchorId c \<in> set (map row_id ?rows) \<longrightarrow> (\<exists>row \<in> set rows'. row_id row = cr_tempId c))"
  proof (cases "row_position ?rows (cr_anchorId c)")
    case None
    then show ?thesis
      using assms(1,2) other by (simp add: rows'_def project_creation_none row_position_None)
  next
    case (Some i)
    have i: "i < length ?rows" "row_id (?rows ! i) = cr_anchorId c"
      using row_position_Some [OF Some] by simp_all
    have open_row: "\<not> row_collapsed (?rows ! i)" if "cr_mode c = ChildMode"
      using assms(4) i that by (simp add: open_anchor_def)
    let ?n = "insert_at c ?rows i"
    have rows': "rows' = take ?n ?rows @ [pending_row c (?rows ! i)] @ drop ?n ?rows"
      unfolding rows'_def by (rule project_creation_rows [OF Some])
    have "distinct (map row_id (take ?n ?rows) @ map row_id (drop ?n ?rows))"
      using assms(2) by (simp only: map_append [symmetric] append_take_drop_id)
    moreover have "cr_tempId c \<notin> set (map row_id (take ?n ?rows)) \<union> set (map row_id (drop ?n ?rows))"
      using assms(3) by (auto dest: in_set_takeD in_set_dropD)
    ultimately have "distinct (map row_id rows')"
      by (auto simp: rows')
    moreover have "filter (\<lambda>row. row_id row \<noteq> cr_tempId c) rows' = ?rows"
    proof -
      have "filter (\<lambda>row. row_id row \<noteq> cr_tempId c) rows'
          = filter (\<lambda>row. row_id row \<noteq> cr_tempId c) (take ?n ?rows @ drop ?n ?rows)"
        unfolding rows' filter_append by simp
      then show ?thesis
        using other by (simp only: append_take_drop_id)
    qed
    moreover have "set rows' \<subseteq> set ?rows \<union> {row. row_id row = cr_tempId c \<and> \<not> row_collapsed row}"
      by (auto simp: rows' pending_row_def row_id_def dest: in_set_takeD in_set_dropD)
    ultimately show ?thesis
      using ordered_pending_row [OF assms(1) i(1) open_row] by (simp add: rows')
  qed
  then show "ordered_rows rows'" "distinct (map row_id rows')"
    "filter (\<lambda>row. row_id row \<noteq> cr_tempId c) rows' = ?rows"
    "set rows' \<subseteq> set ?rows \<union> {row. row_id row = cr_tempId c \<and> \<not> row_collapsed row}"
    "cr_anchorId c \<in> set (map row_id ?rows) \<Longrightarrow> \<exists>row \<in> set rows'. row_id row = cr_tempId c"
    by blast+
qed

fun anchored :: "block_id set \<Rightarrow> pending_creation list \<Rightarrow> bool" where
  "anchored T [] = True"
| "anchored T (c # cs) = (cr_anchorId c \<in> T \<and> anchored (insert (cr_tempId c) T) cs)"

lemma projection_fold:
  fixes drafts :: "block_id \<rightharpoonup> inline_content_projection"
  assumes "ordered_rows (pp_rows shown)" "distinct (map row_id (pp_rows shown))"
    and "distinct (map cr_tempId cs)" "set (map cr_tempId cs) \<inter> set (map row_id (pp_rows shown)) = {}"
    and "list_all (open_anchor (pp_rows shown)) cs"
    and "anchored (set (map row_id (pp_rows shown))) cs"
  defines "rows' \<equiv> pp_rows (fold (project_creation drafts) cs shown)"
  shows "ordered_rows rows' \<and> distinct (map row_id rows')
     \<and> filter (\<lambda>row. row_id row \<notin> set (map cr_tempId cs)) rows' = pp_rows shown
     \<and> set (map row_id rows') = set (map row_id (pp_rows shown)) \<union> set (map cr_tempId cs)"
  using assms(1-6) unfolding rows'_def
proof (induction cs arbitrary: shown)
  case Nil
  then show ?case by simp
next
  case (Cons c cs)
  let ?next = "project_creation drafts c shown"
  have open_c: "open_anchor (pp_rows shown) c"
    using Cons.prems(5) by simp
  have fresh: "cr_tempId c \<notin> set (map row_id (pp_rows shown))"
    using Cons.prems(4) by auto
  note step = project_creation_step [OF Cons.prems(1,2) fresh open_c, of drafts]
  obtain added where added: "added \<in> set (pp_rows ?next)" "row_id added = cr_tempId c"
    using step(5) Cons.prems(6) by auto
  have kept: "set (pp_rows shown) \<subseteq> set (pp_rows ?next)"
    using step(3) by (metis filter_is_subset)
  have ids: "set (map row_id (pp_rows ?next)) = insert (cr_tempId c) (set (map row_id (pp_rows shown)))"
    using step(4) kept added by (auto simp: image_iff) (metis)+
  have "list_all (open_anchor (pp_rows ?next)) cs"
    using Cons.prems(5) step(4) by (fastforce simp: list_all_iff open_anchor_def)
  then have rest: "ordered_rows (pp_rows (fold (project_creation drafts) cs ?next))
     \<and> distinct (map row_id (pp_rows (fold (project_creation drafts) cs ?next)))
     \<and> filter (\<lambda>row. row_id row \<notin> set (map cr_tempId cs)) (pp_rows (fold (project_creation drafts) cs ?next)) = pp_rows ?next
     \<and> set (map row_id (pp_rows (fold (project_creation drafts) cs ?next)))
        = set (map row_id (pp_rows ?next)) \<union> set (map cr_tempId cs)"
    using step(1,2) Cons.prems(3,4,6) ids by (intro Cons.IH) auto
  have "filter (\<lambda>row. row_id row \<notin> set (map cr_tempId (c # cs))) xs
      = filter (\<lambda>row. row_id row \<noteq> cr_tempId c) (filter (\<lambda>row. row_id row \<notin> set (map cr_tempId cs)) xs)" for xs
    by (auto intro!: filter_cong)
  then have "filter (\<lambda>row. row_id row \<notin> set (map cr_tempId (c # cs)))
      (pp_rows (fold (project_creation drafts) cs ?next)) = pp_rows shown"
    using rest step(3) by (simp only:)
  then show ?case
    using rest ids by auto
qed

lemma subseq_flattenOutline_loop: "subseq (map row_id (flattenOutline_loop c rows h)) (map row_id rows)"
  by (induction c rows h rule: flattenOutline_loop.induct) (auto simp: row_id_def)

lemma distinct_flattenOutline:
  assumes "distinct (forest_ids blocks)"
  shows "distinct (map row_id (flattenOutline blocks collapsed))"
proof -
  have "map row_id (map snd (outlineIndex blocks)) = forest_ids blocks"
    using outlineIndex_rows [OF assms] map_row_id_forest by (simp add: keyed_rows_def comp_def)
  then have "subseq (map row_id (flattenOutline blocks collapsed)) (forest_ids blocks)"
    unfolding flattenOutline_def by (metis subseq_flattenOutline_loop)
  moreover have "subseq xs ys \<Longrightarrow> distinct ys \<Longrightarrow> distinct xs" for xs ys :: "block_id list"
    using distinct_nthsI by (auto simp: subseq_conv_nths)
  ultimately show ?thesis
    using assms by blast
qed



end
