(* ===== verification/Session_Lanes.thy ===== *)
theory Session_Lanes
  imports Prelude
begin

text \<open>
  The two lanes of \<open>core-port/session.ts\<close>: \<open>enqueue\<close> and \<open>drain\<close>. A job waits in its lane until
  the loop of \<open>drain\<close> shifts it, graph work before queries; the loop awaits it and goes on. A job
  is known here by the number of its creation, its closure in the code. \<open>drain\<close> marks itself
  before it starts a job, so what a job enqueues before its first await only waits.

  The lists of jobs enqueued, started, settled and dropped are kept for the statements.
\<close>

datatype lane = GraphLane | QueryLane

record lanes =
  ln_waiting :: "lane \<Rightarrow> nat list"
  ln_draining :: bool
  ln_running :: "nat option"
  ln_next :: nat
  ln_enqueued :: "(nat \<times> lane) list"
  ln_started :: "nat list"
  ln_settled :: "nat list"
  ln_dropped :: "nat list"
  ln_refused :: nat

definition no_lanes :: lanes where
  "no_lanes = \<lparr>ln_waiting = (\<lambda>_. []), ln_draining = False, ln_running = None, ln_next = 0, ln_enqueued = [],
     ln_started = [], ln_settled = [], ln_dropped = [], ln_refused = 0\<rparr>"

text \<open>One turn of the loop: shift the next job and start it, or stop draining.\<close>

definition start_job :: "lane \<Rightarrow> nat \<Rightarrow> nat list \<Rightarrow> lanes \<Rightarrow> lanes" where
  "start_job lane job rest st = st\<lparr>ln_waiting := (ln_waiting st)(lane := rest), ln_running := Some job,
     ln_started := ln_started st @ [job]\<rparr>"

definition drain_turn :: "lanes \<Rightarrow> lanes" where
  "drain_turn st =
     (case ln_waiting st GraphLane of
        job # rest \<Rightarrow> start_job GraphLane job rest st
      | [] \<Rightarrow> (case ln_waiting st QueryLane of
                job # rest \<Rightarrow> start_job QueryLane job rest st
              | [] \<Rightarrow> st\<lparr>ln_draining := False\<rparr>))"

definition drain :: "lanes \<Rightarrow> lanes" where
  "drain st = (if ln_draining st then st else drain_turn (st\<lparr>ln_draining := True\<rparr>))"

definition enqueue :: "lane \<Rightarrow> bool \<Rightarrow> lanes \<Rightarrow> lanes" where
  "enqueue lane aborted st =
     (if aborted then st\<lparr>ln_refused := ln_refused st + 1\<rparr>
      else drain (st\<lparr>
        ln_waiting := (ln_waiting st)(lane := ln_waiting st lane @ [ln_next st]),
        ln_next := ln_next st + 1,
        ln_enqueued := ln_enqueued st @ [(ln_next st, lane)]\<rparr>))"

text \<open>The abort listener: a job that still waits leaves its lane, one that started does not.\<close>

definition drop_job :: "lane \<Rightarrow> nat \<Rightarrow> lanes \<Rightarrow> lanes" where
  "drop_job lane job st =
     (if job \<in> set (ln_waiting st lane)
      then st\<lparr>ln_waiting := (ln_waiting st)(lane := remove1 job (ln_waiting st lane)),
              ln_dropped := ln_dropped st @ [job]\<rparr>
      else st)"

text \<open>The running job settles, by a value or an error alike.\<close>

definition job_settled :: "lanes \<Rightarrow> lanes" where
  "job_settled st =
     (case ln_running st of
        None \<Rightarrow> st
      | Some job \<Rightarrow> drain_turn (st\<lparr>ln_running := None, ln_settled := ln_settled st @ [job]\<rparr>))"

datatype lane_event = Enqueued lane bool | Aborted lane nat | Settled

fun lane_step :: "lane_event \<Rightarrow> lanes \<Rightarrow> lanes" where
  "lane_step (Enqueued lane aborted) st = enqueue lane aborted st"
| "lane_step (Aborted lane job) st = drop_job lane job st"
| "lane_step Settled st = job_settled st"

definition lane_run :: "lane_event list \<Rightarrow> lanes \<Rightarrow> lanes" where
  "lane_run events st = fold lane_step events st"


subsection \<open>The invariant of the lanes\<close>

definition enqueued_in :: "lanes \<Rightarrow> lane \<Rightarrow> nat list" where
  "enqueued_in st lane = map fst (filter (\<lambda>(job, l). l = lane) (ln_enqueued st))"

definition busy :: "lanes \<Rightarrow> nat list" where
  "busy st = (case ln_running st of None \<Rightarrow> [] | Some job \<Rightarrow> [job])"

text \<open>Each lane is first in, first out: its jobs that were not dropped have started in order, or wait.\<close>

definition fifo :: "lanes \<Rightarrow> lane \<Rightarrow> bool" where
  "fifo st lane \<longleftrightarrow> filter (\<lambda>job. job \<notin> set (ln_dropped st)) (enqueued_in st lane)
     = filter (\<lambda>job. job \<in> set (enqueued_in st lane)) (ln_started st) @ ln_waiting st lane"

definition numbered :: "lanes \<Rightarrow> bool" where
  "numbered st \<longleftrightarrow> distinct (map fst (ln_enqueued st)) \<and> (\<forall>job \<in> fst ` set (ln_enqueued st). job < ln_next st)
     \<and> set (ln_started st) \<union> set (ln_dropped st) \<subseteq> fst ` set (ln_enqueued st)
     \<and> ln_started st = ln_settled st @ busy st"

definition lanes_ok :: "lanes \<Rightarrow> bool" where
  "lanes_ok st \<longleftrightarrow> numbered st \<and> (\<forall>lane. fifo st lane)
     \<and> (ln_draining st \<longleftrightarrow> ln_running st \<noteq> None) \<and> (\<not> ln_draining st \<longrightarrow> (\<forall>lane. ln_waiting st lane = []))"

lemma all_lanes: "(\<forall>lane. P lane) \<longleftrightarrow> P GraphLane \<and> P QueryLane"
  by (metis lane.exhaust)

lemma lane_enqueued: "job \<in> set (enqueued_in st lane) \<longleftrightarrow> (job, lane) \<in> set (ln_enqueued st)"
  by (force simp: enqueued_in_def)

lemma one_lane:
  assumes "numbered st" and "(job, lane) \<in> set (ln_enqueued st)" and "(job, lane') \<in> set (ln_enqueued st)"
  shows "lane = lane'"
  using assms by (auto simp: numbered_def dest: eq_key_imp_eq_value)

text \<open>A turn of the loop from a state that waits for one.\<close>

definition between :: "lanes \<Rightarrow> bool" where
  "between st \<longleftrightarrow> numbered st \<and> (\<forall>lane. fifo st lane) \<and> ln_draining st \<and> ln_running st = None"

lemma waiting_enqueued:
  assumes "fifo st lane" and "job \<in> set (ln_waiting st lane)"
  shows "(job, lane) \<in> set (ln_enqueued st)"
proof -
  have "job \<in> set (filter (\<lambda>job. job \<notin> set (ln_dropped st)) (enqueued_in st lane))"
    using assms by (simp add: fifo_def)
  then show ?thesis by (simp add: lane_enqueued)
qed

lemma start_job_ok:
  assumes ok: "between st" and waiting: "ln_waiting st lane = job # rest"
  shows "lanes_ok (start_job lane job rest st)"
proof -
  let ?st = "start_job lane job rest st"
  have numbered: "numbered st" and fifo: "fifo st l" for l using ok by (simp_all add: between_def)
  have job: "(job, lane) \<in> set (ln_enqueued st)"
    by (rule waiting_enqueued [OF fifo]) (simp add: waiting)
  have same: "enqueued_in ?st l = enqueued_in st l" for l by (simp add: enqueued_in_def start_job_def)
  have "fifo ?st l" for l
  proof (cases "l = lane")
    case True
    then show ?thesis using fifo [of lane] waiting job
      unfolding fifo_def same by (simp add: start_job_def lane_enqueued)
  next
    case False
    then have "(job, l) \<notin> set (ln_enqueued st)" using one_lane [OF numbered job] by blast
    then show ?thesis using False fifo [of l]
      unfolding fifo_def same by (simp add: start_job_def lane_enqueued)
  qed
  moreover have "numbered ?st" using numbered job ok
    by (auto simp: numbered_def start_job_def busy_def between_def intro: rev_image_eqI)
  moreover have "ln_draining ?st" "ln_running ?st = Some job" using ok by (simp_all add: start_job_def between_def)
  ultimately show ?thesis by (simp add: lanes_ok_def)
qed

lemma drain_turn_ok:
  assumes "between st"
  shows "lanes_ok (drain_turn st)"
proof (cases "ln_waiting st GraphLane")
  case (Cons job rest)
  then show ?thesis using start_job_ok [OF assms] by (simp add: drain_turn_def)
next
  case Nil
  note graph = Nil
  show ?thesis
  proof (cases "ln_waiting st QueryLane")
    case (Cons job rest)
    then show ?thesis using start_job_ok [OF assms] graph by (simp add: drain_turn_def)
  next
    case Nil
    then show ?thesis using assms graph
      by (auto simp: drain_turn_def lanes_ok_def between_def all_lanes numbered_def fifo_def enqueued_in_def busy_def)
  qed
qed

lemma filter_remove1: "distinct xs \<Longrightarrow> filter (\<lambda>x. x \<noteq> y) xs = remove1 y xs"
  by (induction xs) (auto simp: filter_id_conv)

lemma remove1_waiting:
  "y \<notin> set xs \<Longrightarrow> filter (\<lambda>x. x \<noteq> y) (xs @ ys) = xs @ filter (\<lambda>x. x \<noteq> y) ys"
  by (simp add: filter_id_conv) metis

lemma distinct_enqueued: "numbered st \<Longrightarrow> distinct (enqueued_in st lane)"
  unfolding numbered_def enqueued_in_def by (simp add: distinct_map inj_on_def)

lemma distinct_waiting:
  assumes "numbered st" and "fifo st lane"
  shows "distinct (ln_waiting st lane)"
    and "set (ln_waiting st lane) \<inter> set (ln_started st) = {}"
proof -
  have all: "distinct (filter (\<lambda>job. job \<notin> set (ln_dropped st)) (enqueued_in st lane))"
    using distinct_enqueued [OF assms(1)] by simp
  then show "distinct (ln_waiting st lane)" using assms(2) by (simp add: fifo_def)
  have "(job, lane) \<in> set (ln_enqueued st)" if "job \<in> set (ln_waiting st lane)" for job
    by (rule waiting_enqueued [OF assms(2) that])
  then show "set (ln_waiting st lane) \<inter> set (ln_started st) = {}"
    using all assms(2) by (auto simp: fifo_def lane_enqueued)
qed

lemma drop_job_ok:
  assumes ok: "lanes_ok st"
  shows "lanes_ok (drop_job lane job st)"
proof (cases "job \<in> set (ln_waiting st lane)")
  case True
  let ?st = "drop_job lane job st"
  have numbered: "numbered st" and fifo: "fifo st l" for l using ok by (simp_all add: lanes_ok_def)
  note waiting = distinct_waiting [OF numbered fifo, of lane]
  have job: "(job, lane) \<in> set (ln_enqueued st)" by (rule waiting_enqueued [OF fifo True])
  have same: "enqueued_in ?st l = enqueued_in st l" for l by (simp add: enqueued_in_def drop_job_def)
  have split: "filter (\<lambda>j. j \<notin> set (ln_dropped st @ [job])) xs = filter (\<lambda>j. j \<noteq> job) (filter (\<lambda>j. j \<notin> set (ln_dropped st)) xs)" for xs
    by (auto intro: filter_cong)
  have "fifo ?st l" for l
  proof (cases "l = lane")
    case True
    have "filter (\<lambda>j. j \<notin> set (ln_dropped st @ [job])) (enqueued_in st lane)
        = filter (\<lambda>j. j \<in> set (enqueued_in st lane)) (ln_started st) @ remove1 job (ln_waiting st lane)"
      unfolding split using fifo [of lane] waiting \<open>job \<in> set (ln_waiting st lane)\<close>
      by (subst filter_remove1 [OF waiting(1), symmetric], subst remove1_waiting [symmetric]) (auto simp: fifo_def)
    then show ?thesis using True \<open>job \<in> set (ln_waiting st lane)\<close>
      unfolding fifo_def same by (simp add: drop_job_def)
  next
    case False
    then have "(job, l) \<notin> set (ln_enqueued st)" using one_lane [OF numbered job] by blast
    then have "filter (\<lambda>j. j \<notin> set (ln_dropped st @ [job])) (enqueued_in st l)
        = filter (\<lambda>j. j \<notin> set (ln_dropped st)) (enqueued_in st l)"
      by (auto intro!: filter_cong simp: lane_enqueued)
    then show ?thesis using False fifo [of l] True
      unfolding fifo_def same by (simp add: drop_job_def)
  qed
  moreover have "numbered ?st" using numbered job True
    by (auto simp: numbered_def drop_job_def busy_def intro: rev_image_eqI)
  moreover have "ln_draining st" using ok True by (auto simp: lanes_ok_def)
  ultimately show ?thesis using ok True by (simp add: lanes_ok_def drop_job_def)
qed (use ok in \<open>simp add: drop_job_def\<close>)

lemma push_ok:
  fixes lane :: lane
  assumes "numbered st" and "\<forall>lane. fifo st lane"
  defines "pushed \<equiv> st\<lparr>ln_waiting := (ln_waiting st)(lane := ln_waiting st lane @ [ln_next st]),
        ln_next := ln_next st + 1, ln_enqueued := ln_enqueued st @ [(ln_next st, lane)]\<rparr>"
  shows "numbered pushed \<and> (\<forall>l. fifo pushed l)"
proof -
  have new: "ln_next st \<notin> fst ` set (ln_enqueued st)" using assms(1) by (auto simp: numbered_def)
  then have fresh: "ln_next st \<notin> set (ln_started st)" "ln_next st \<notin> set (ln_dropped st)"
    using assms(1) by (auto simp: numbered_def)
  have member: "j \<in> set (enqueued_in pushed l) \<longleftrightarrow> j \<in> set (enqueued_in st l) \<or> j = ln_next st \<and> l = lane" for j l
    by (auto simp: lane_enqueued pushed_def)
  have started: "filter (\<lambda>j. j \<in> set (enqueued_in pushed l)) (ln_started st)
      = filter (\<lambda>j. j \<in> set (enqueued_in st l)) (ln_started st)" for l
    unfolding member using fresh by (auto intro!: filter_cong)
  have "fifo pushed l" for l
  proof -
    have "ln_started pushed = ln_started st" "ln_dropped pushed = ln_dropped st" by (simp_all add: pushed_def)
    moreover have "enqueued_in pushed l = enqueued_in st l @ (if l = lane then [ln_next st] else [])"
      by (simp add: enqueued_in_def pushed_def)
    moreover have "ln_waiting pushed l = ln_waiting st l @ (if l = lane then [ln_next st] else [])"
      by (simp add: pushed_def)
    moreover have "fifo st l" using assms(2) by blast
    ultimately show ?thesis using started [of l] fresh unfolding fifo_def by simp
  qed
  moreover have "numbered pushed"
    using assms(1) new by (auto simp: numbered_def pushed_def busy_def less_Suc_eq)
  ultimately show ?thesis by blast
qed

lemma draining_mark [simp]:
  "numbered (st\<lparr>ln_draining := b\<rparr>) = numbered st" "fifo (st\<lparr>ln_draining := b\<rparr>) lane = fifo st lane"
  by (simp_all add: numbered_def busy_def fifo_def enqueued_in_def)

lemma refused_mark [simp]:
  "numbered (st\<lparr>ln_refused := n\<rparr>) = numbered st" "fifo (st\<lparr>ln_refused := n\<rparr>) lane = fifo st lane"
  by (simp_all add: numbered_def busy_def fifo_def enqueued_in_def)

text \<open>Every step takes at most one turn of the loop.\<close>

lemma enqueue_turn:
  assumes ok: "lanes_ok st"
  shows "lanes_ok (enqueue lane aborted st) \<and>
    (busy (enqueue lane aborted st) = busy st \<or> (\<exists>s. between s \<and> enqueue lane aborted st = drain_turn s))"
proof (cases aborted)
  case True
  then show ?thesis using ok by (simp add: enqueue_def lanes_ok_def busy_def)
next
  case False
  let ?pushed = "st\<lparr>ln_waiting := (ln_waiting st)(lane := ln_waiting st lane @ [ln_next st]),
        ln_next := ln_next st + 1, ln_enqueued := ln_enqueued st @ [(ln_next st, lane)]\<rparr>"
  have pushed: "numbered ?pushed \<and> (\<forall>l. fifo ?pushed l)"
    using ok by (intro push_ok) (simp_all add: lanes_ok_def)
  show ?thesis
  proof (cases "ln_draining st")
    case True
    then have "enqueue lane aborted st = ?pushed" using \<open>\<not> aborted\<close> by (simp add: enqueue_def drain_def)
    then show ?thesis using pushed ok True by (simp add: lanes_ok_def busy_def)
  next
    case False
    let ?s = "?pushed\<lparr>ln_draining := True\<rparr>"
    have "between ?s" using pushed ok False unfolding between_def draining_mark by (simp add: lanes_ok_def)
    moreover have "enqueue lane aborted st = drain_turn ?s"
      using \<open>\<not> aborted\<close> False by (simp add: enqueue_def drain_def)
    ultimately show ?thesis using drain_turn_ok by metis
  qed
qed

lemma settled_turn:
  assumes ok: "lanes_ok st"
  shows "lanes_ok (job_settled st) \<and>
    (busy (job_settled st) = busy st \<or> (\<exists>s. between s \<and> job_settled st = drain_turn s))"
proof (cases "ln_running st")
  case (Some job)
  let ?s = "st\<lparr>ln_running := None, ln_settled := ln_settled st @ [job]\<rparr>"
  have "between ?s"
    using ok Some by (auto simp: between_def lanes_ok_def numbered_def fifo_def enqueued_in_def busy_def)
  moreover have "job_settled st = drain_turn ?s" using Some by (simp add: job_settled_def)
  ultimately show ?thesis using drain_turn_ok by metis
qed (use ok in \<open>simp add: job_settled_def\<close>)

lemmas enqueue_ok = enqueue_turn [THEN conjunct1] and job_settled_ok = settled_turn [THEN conjunct1]

lemma lane_step_turn:
  assumes "lanes_ok st"
  shows "busy (lane_step event st) = busy st \<or> (\<exists>s. between s \<and> lane_step event st = drain_turn s)"
  using enqueue_turn [OF assms] settled_turn [OF assms]
  by (cases event) (auto simp: drop_job_def busy_def)

lemma lane_step_ok: "lanes_ok st \<Longrightarrow> lanes_ok (lane_step event st)"
  by (cases event) (simp_all add: enqueue_ok drop_job_ok job_settled_ok)

lemma lane_run_ok: "lanes_ok st \<Longrightarrow> lanes_ok (lane_run events st)"
  by (induction events arbitrary: st) (simp_all add: lane_run_def lane_step_ok)

lemma no_lanes_ok: "lanes_ok no_lanes"
  by (simp add: lanes_ok_def no_lanes_def numbered_def fifo_def enqueued_in_def busy_def)


subsection \<open>Order\<close>

lemma drain_turn_query:
  assumes "between st" and "ln_running (drain_turn st) = Some job"
    and "(job, QueryLane) \<in> set (ln_enqueued st)"
  shows "ln_waiting (drain_turn st) GraphLane = []"
proof (cases "ln_waiting st GraphLane")
  case Nil
  then show ?thesis by (auto simp: drain_turn_def start_job_def split: list.split)
next
  case (Cons j rest)
  then have "(j, GraphLane) \<in> set (ln_enqueued st)" using assms(1) waiting_enqueued by (fastforce simp: between_def)
  moreover have "j = job" using assms(2) Cons by (simp add: drain_turn_def start_job_def)
  ultimately show ?thesis using assms(1, 3) one_lane by (fastforce simp: between_def)
qed

text \<open>
  C36. The lanes keep order. Whatever is enqueued, aborted and settled, and in whatever order:
  at most one job runs; a lane's jobs start in the order they were enqueued, those dropped
  while waiting left out, and a job is dropped only if it never started; the started jobs are
  those settled, in order, and the running one; when nothing runs, nothing waits; and a query
  starts only when no graph work waits.
\<close>

theorem lanes_keep_order:
  "let st = lane_run events no_lanes; st' = lane_step event st in
     (\<forall>lane. filter (\<lambda>job. job \<notin> set (ln_dropped st)) (enqueued_in st lane)
        = filter (\<lambda>job. job \<in> set (enqueued_in st lane)) (ln_started st) @ ln_waiting st lane)
   \<and> ln_started st = ln_settled st @ busy st
   \<and> set (ln_started st) \<inter> set (ln_dropped st) = {}
   \<and> (busy st = [] \<longrightarrow> (\<forall>lane. ln_waiting st lane = []))
   \<and> (\<forall>job. busy st' = [job] \<longrightarrow> busy st \<noteq> [job] \<longrightarrow> (job, QueryLane) \<in> set (ln_enqueued st') \<longrightarrow>
        ln_waiting st' GraphLane = [])"
proof -
  define st where "st = lane_run events no_lanes"
  have ok: "lanes_ok st" unfolding st_def by (rule lane_run_ok [OF no_lanes_ok])
  then have numbered: "numbered st" and fifo: "\<forall>lane. fifo st lane" by (simp_all add: lanes_ok_def)
  have never: "job \<notin> set (ln_dropped st)" if "job \<in> set (ln_started st)" for job
  proof -
    have "job \<in> fst ` set (ln_enqueued st)" using numbered that unfolding numbered_def by blast
    then obtain lane where "(job, lane) \<in> set (ln_enqueued st)" by force
    then have "job \<in> set (filter (\<lambda>job. job \<in> set (enqueued_in st lane)) (ln_started st) @ ln_waiting st lane)"
      using that by (simp add: lane_enqueued)
    then have "job \<in> set (filter (\<lambda>job. job \<notin> set (ln_dropped st)) (enqueued_in st lane))"
      using fifo by (simp only: fifo_def)
    then show ?thesis by simp
  qed
  have "ln_waiting (lane_step event st) GraphLane = []"
    if new: "busy (lane_step event st) = [job]" "busy st \<noteq> [job]" "(job, QueryLane) \<in> set (ln_enqueued (lane_step event st))" for job
  proof -
    obtain s where s: "between s" "lane_step event st = drain_turn s"
      using lane_step_turn [OF ok, of event] new(1, 2) by metis
    have "ln_enqueued (drain_turn s) = ln_enqueued s"
      by (simp add: drain_turn_def start_job_def split: list.split)
    then show ?thesis using drain_turn_query [OF s(1), of job] new s(2)
      by (auto simp: busy_def split: option.splits)
  qed
  then show ?thesis
    unfolding Let_def st_def [symmetric] using ok never numbered fifo
    by (auto simp: lanes_ok_def fifo_def numbered_def busy_def split: option.splits)
qed


theorem lanes_keep_order_witness:
  "let st = lane_run [Enqueued QueryLane False, Enqueued QueryLane False, Enqueued GraphLane False, Settled] no_lanes in
     ln_started st = ln_settled st @ [2] \<and> ln_waiting (lane_step Settled st) GraphLane = []"
proof -
  let ?events = "[Enqueued QueryLane False, Enqueued QueryLane False, Enqueued GraphLane False, Settled]"
  have "busy (lane_run ?events no_lanes) = [2]" "busy (lane_step Settled (lane_run ?events no_lanes)) = [1]"
    "(1, QueryLane) \<in> set (ln_enqueued (lane_step Settled (lane_run ?events no_lanes)))" by code_simp+
  then show ?thesis using lanes_keep_order [of ?events Settled] unfolding Let_def by simp
qed

subsection \<open>Progress\<close>

text \<open>As many jobs as run or wait settle: then the lanes are idle again.\<close>

definition outstanding :: "lanes \<Rightarrow> nat list" where
  "outstanding st = busy st @ ln_waiting st GraphLane @ ln_waiting st QueryLane"

lemma settle_outstanding:
  assumes "lanes_ok st" and "outstanding st = job # rest"
  shows "ln_settled (job_settled st) = ln_settled st @ [job] \<and> outstanding (job_settled st) = rest"
proof -
  have "ln_running st = Some job"
    using assms by (auto simp: lanes_ok_def outstanding_def busy_def split: option.splits)
  then show ?thesis using assms(2)
    by (auto simp: job_settled_def drain_turn_def start_job_def outstanding_def busy_def split: list.split)
qed

lemma settle_all:
  assumes "lanes_ok st"
  shows "ln_settled ((job_settled ^^ length (outstanding st)) st) = ln_settled st @ outstanding st
     \<and> outstanding ((job_settled ^^ length (outstanding st)) st) = []"
  using assms
proof (induction "outstanding st" arbitrary: st)
  case Nil
  then show ?case by simp
next
  case (Cons job rest)
  note step = settle_outstanding [OF Cons.prems Cons.hyps(2) [symmetric]]
  have "lanes_ok (job_settled st)" by (rule job_settled_ok [OF Cons.prems])
  then show ?case using Cons.hyps(1) [of "job_settled st"] step
    by (simp flip: Cons.hyps(2) add: funpow_swap1 [symmetric] del: funpow.simps) (simp add: funpow_Suc_right)
qed

text \<open>How many turns of the loop a graph job waits for.\<close>

fun settles :: "lane_event list \<Rightarrow> nat" where
  "settles [] = 0"
| "settles (Settled # events) = Suc (settles events)"
| "settles (event # events) = settles events"

lemma drain_turn_started: "set (ln_started st) \<subseteq> set (ln_started (drain_turn st))"
    "ln_dropped (drain_turn st) = ln_dropped st"
  by (auto simp: drain_turn_def start_job_def split: list.split)

lemma history_grows:
  "set (ln_started st) \<subseteq> set (ln_started (lane_step event st))"
  "set (ln_dropped st) \<subseteq> set (ln_dropped (lane_step event st))"
proof -
  show "set (ln_started st) \<subseteq> set (ln_started (lane_step event st))"
    using drain_turn_started(1)
    by (cases event) (fastforce simp: enqueue_def drain_def drop_job_def job_settled_def split: option.split)+
  show "set (ln_dropped st) \<subseteq> set (ln_dropped (lane_step event st))"
    by (cases event) (auto simp: enqueue_def drain_def drop_job_def job_settled_def drain_turn_started split: option.split)
qed

lemma remove1_position:
  "x \<noteq> y \<Longrightarrow> \<exists>pre' post'. remove1 y (pre @ x # post) = pre' @ x # post' \<and> length pre' \<le> length pre"
proof (induction pre)
  case (Cons z pre)
  show ?case
  proof (cases "z = y")
    case True
    have "remove1 y ((z # pre) @ x # post) = pre @ x # post" using True by simp
    then show ?thesis using le_SucI by fastforce
  next
    case False
    obtain pre' post' where "remove1 y (pre @ x # post) = pre' @ x # post'" "length pre' \<le> length pre"
      using Cons by blast
    then have "remove1 y ((z # pre) @ x # post) = (z # pre') @ x # post'" "length (z # pre') \<le> length (z # pre)"
      using False by simp_all
    then show ?thesis by blast
  qed
next
  case Nil
  then show ?case by (intro exI [of _ "[]"] exI [of _ "remove1 y post"]) simp
qed

lemma graph_job_advances:
  assumes ok: "lanes_ok st" and waiting: "ln_waiting st GraphLane = pre @ job # post"
  shows "job \<in> set (ln_started (lane_step event st)) \<union> set (ln_dropped (lane_step event st))
    \<or> (\<exists>pre' post'. ln_waiting (lane_step event st) GraphLane = pre' @ job # post'
         \<and> length pre' + settles [event] \<le> length pre)"
proof -
  have "ln_waiting st GraphLane \<noteq> []" using waiting by simp
  then have draining: "ln_draining st" and running: "ln_running st \<noteq> None" using ok by (auto simp: lanes_ok_def)
  show ?thesis
  proof (cases event)
    case (Enqueued lane aborted)
    then show ?thesis using draining waiting by (auto simp: enqueue_def drain_def)
  next
    case (Aborted lane dropped)
    then show ?thesis using waiting remove1_position [of job dropped pre post]
      by (cases "dropped = job") (auto simp: drop_job_def)
  next
    case Settled
    obtain current where "ln_running st = Some current" using running by blast
    then show ?thesis using Settled waiting
      by (cases pre) (auto simp: job_settled_def drain_turn_def start_job_def)
  qed
qed

lemma graph_job_waits:
  assumes "lanes_ok st" and "ln_waiting st GraphLane = pre @ job # post" and "length pre < settles events"
  shows "job \<in> set (ln_started (lane_run events st)) \<union> set (ln_dropped (lane_run events st))"
  using assms
proof (induction events arbitrary: st pre post)
  case (Cons event events)
  let ?st = "lane_step event st"
  have run: "lane_run (event # events) st = lane_run events ?st" by (simp add: lane_run_def)
  have kept: "job \<in> set (ln_started (lane_run evs s)) \<union> set (ln_dropped (lane_run evs s))"
    if "job \<in> set (ln_started s) \<union> set (ln_dropped s)" for evs s
    using that
  proof (induction evs arbitrary: s)
    case (Cons e evs)
    then have "job \<in> set (ln_started (lane_step e s)) \<union> set (ln_dropped (lane_step e s))"
      using history_grows [of s e] by blast
    from Cons.IH [OF this] show ?case by (simp add: lane_run_def)
  qed (simp add: lane_run_def)
  have settles: "settles (event # events) = settles [event] + settles events" by (cases event) simp_all
  consider "job \<in> set (ln_started ?st) \<union> set (ln_dropped ?st)"
    | pre' post' where "ln_waiting ?st GraphLane = pre' @ job # post'" "length pre' + settles [event] \<le> length pre"
    using graph_job_advances [OF Cons.prems(1, 2), of event] by blast
  then show ?case
  proof cases
    case 1
    then show ?thesis using kept run by simp
  next
    case 2
    then have "length pre' < settles events" using Cons.prems(3) settles by simp
    from Cons.IH [OF lane_step_ok [OF Cons.prems(1)] 2(1) this] show ?thesis using run by simp
  qed
qed simp

text \<open>
  C37. The lanes make progress. From any reachable state: a waiting graph job with \<open>n\<close> jobs
  before it in its lane has started, or was dropped, by the time \<open>n + 1\<close> more jobs have
  settled, whatever else is enqueued or aborted in between; and when as many jobs settle as run
  and wait, all have settled in order, graph work before queries, and the lanes are idle.
\<close>

theorem lanes_progress:
  assumes "st = lane_run history no_lanes"
  shows "(\<forall>pre job post events. ln_waiting st GraphLane = pre @ job # post \<longrightarrow> length pre < settles events \<longrightarrow>
        job \<in> set (ln_started (lane_run events st)) \<union> set (ln_dropped (lane_run events st)))
    \<and> ln_settled ((job_settled ^^ length (outstanding st)) st) = ln_settled st @ outstanding st
    \<and> outstanding ((job_settled ^^ length (outstanding st)) st) = []"
proof -
  have "lanes_ok st" unfolding assms by (rule lane_run_ok [OF no_lanes_ok])
  then show ?thesis using graph_job_waits settle_all by blast
qed

theorem lanes_progress_witness:
  "ln_settled ((job_settled ^^ 3) (lane_run [Enqueued QueryLane False, Enqueued QueryLane False, Enqueued GraphLane False] no_lanes))
     = [0, 2, 1]"
proof -
  let ?st = "lane_run [Enqueued QueryLane False, Enqueued QueryLane False, Enqueued GraphLane False] no_lanes"
  have "outstanding ?st = [0, 2, 1]" "ln_settled ?st = []" by code_simp+
  then show ?thesis using lanes_progress [OF refl, of "[Enqueued QueryLane False, Enqueued QueryLane False, Enqueued GraphLane False]"]
    by (simp add: numeral_3_eq_3)
qed

end
