(* ===== verification/Lease_Election.thy ===== *)
theory Lease_Election
  imports Prelude
begin

text \<open>
  \<open>core-port/lease.ts\<close>: the election of the writable lease of a graph between tabs that have no
  Web Locks.

  An attempt of \<open>electionAttempt\<close> is known by its claim, the random id it draws, which no other
  attempt draws; an attempt of \<open>electedMode\<close> that retries is a new one. \<open>postMessage\<close> puts the
  message in the mailbox of every other channel that is open; a message to a channel that has
  closed since is lost. Messages arrive in any order. Time is not modelled: the comment on
  \<open>CLAIM_WINDOW_MS\<close> says the window covers the delivery of the claim and of the answers to it,
  and that is the guard of \<open>Expire\<close>.
\<close>

datatype lease_message = Claim nat | Held nat

datatype attempt = NotStarted | Claiming | Holding | Gone

record election =
  el_attempt :: "nat \<Rightarrow> attempt"
  el_order :: "nat list"
  el_mail :: "(nat \<times> lease_message) list"

definition no_election :: election where
  "no_election = \<lparr>el_attempt = (\<lambda>_. NotStarted), el_order = [], el_mail = []\<rparr>"

definition open_channel :: "election \<Rightarrow> nat \<Rightarrow> bool" where
  "open_channel st claim \<longleftrightarrow> el_attempt st claim \<in> {Claiming, Holding}"

definition post :: "nat \<Rightarrow> lease_message \<Rightarrow> election \<Rightarrow> election" where
  "post from_claim message st = st\<lparr>el_mail := el_mail st @
     map (\<lambda>claim. (claim, message)) (filter (\<lambda>claim. claim \<noteq> from_claim \<and> open_channel st claim) (el_order st))\<rparr>"

definition become :: "nat \<Rightarrow> attempt \<Rightarrow> election \<Rightarrow> election" where
  "become claim status st = st\<lparr>el_attempt := (el_attempt st)(claim := status)\<rparr>"

text \<open>The two handlers of a channel: while it claims, and once it holds.\<close>

definition on_message :: "nat \<Rightarrow> lease_message \<Rightarrow> election \<Rightarrow> election" where
  "on_message claim message st =
     (case el_attempt st claim of
        Claiming \<Rightarrow>
          (case message of
             Claim theirs \<Rightarrow> if theirs > claim then post claim (Held theirs) st else become claim Gone st
           | Held theirs \<Rightarrow> if theirs = claim then become claim Gone st else st)
      | Holding \<Rightarrow>
          (case message of Claim theirs \<Rightarrow> post claim (Held theirs) st | Held theirs \<Rightarrow> st)
      | _ \<Rightarrow> st)"

datatype election_event = Start nat | Deliver nat | Expire nat | Close nat

text \<open>A step, or \<open>None\<close> when the event cannot happen.\<close>

fun election_step :: "election_event \<Rightarrow> election \<Rightarrow> election option" where
  "election_step (Start claim) st =
     (if el_attempt st claim \<noteq> NotStarted then None
      else Some (post claim (Claim claim)
             (st\<lparr>el_attempt := (el_attempt st)(claim := Claiming), el_order := el_order st @ [claim]\<rparr>)))"
| "election_step (Deliver i) st =
     (if i \<ge> length (el_mail st) then None
      else let (claim, message) = el_mail st ! i
           in Some (on_message claim message
                (st\<lparr>el_mail := take i (el_mail st) @ drop (Suc i) (el_mail st)\<rparr>)))"
| "election_step (Expire claim) st =
     (if el_attempt st claim \<noteq> Claiming
         \<or> Claim claim \<in> snd ` set (el_mail st) \<or> (claim, Held claim) \<in> set (el_mail st) then None
      else Some (become claim Holding st))"
| "election_step (Close claim) st =
     (if open_channel st claim then Some (become claim Gone st) else None)"

inductive elected :: "election \<Rightarrow> bool" where
  initial: "elected no_election"
| step: "elected st \<Longrightarrow> election_step event st = Some st' \<Longrightarrow> elected st'"


subsection \<open>Mutual exclusion\<close>

text \<open>Which of two attempts started first.\<close>

fun precedes :: "nat list \<Rightarrow> nat \<Rightarrow> nat \<Rightarrow> bool" where
  "precedes [] first second = False"
| "precedes (x # xs) first second = (x = first \<and> second \<in> set xs \<or> precedes xs first second)"

lemma precedes_snoc:
  "precedes (xs @ [x]) first second \<longleftrightarrow> precedes xs first second \<or> second = x \<and> first \<in> set xs"
  by (induction xs) auto

lemma precedes_in: "precedes xs first second \<Longrightarrow> first \<in> set xs \<and> second \<in> set xs"
  by (induction xs) auto

lemma precedes_total: "a \<in> set xs \<Longrightarrow> b \<in> set xs \<Longrightarrow> a \<noteq> b \<Longrightarrow> precedes xs a b \<or> precedes xs b a"
  by (induction xs) auto

lemma precedes_irrefl: "distinct xs \<Longrightarrow> \<not> precedes xs a a"
  by (induction xs) auto

text \<open>
  While an attempt claims, every earlier open channel still has its claim to read, or the answer
  to it is on the way; so a holder is the earliest open channel.
\<close>

definition warned :: "election \<Rightarrow> nat \<Rightarrow> nat \<Rightarrow> bool" where
  "warned st first second \<longleftrightarrow>
     (el_attempt st second = Claiming \<longrightarrow>
        (first, Claim second) \<in> set (el_mail st) \<or> (second, Held second) \<in> set (el_mail st))
   \<and> el_attempt st second \<noteq> Holding"

definition election_ok :: "election \<Rightarrow> bool" where
  "election_ok st \<longleftrightarrow>
     distinct (el_order st) \<and> (\<forall>claim. el_attempt st claim \<noteq> NotStarted \<longleftrightarrow> claim \<in> set (el_order st))
   \<and> (\<forall>first second. precedes (el_order st) first second \<longrightarrow> open_channel st first \<longrightarrow> warned st first second)"

lemma mail_post:
  "m \<in> set (el_mail (post sender message st)) \<longleftrightarrow> m \<in> set (el_mail st)
     \<or> (\<exists>claim. m = (claim, message) \<and> claim \<noteq> sender \<and> open_channel st claim \<and> claim \<in> set (el_order st))"
  by (auto simp: post_def)

lemma post_fields [simp]:
  "el_attempt (post sender message st) = el_attempt st" "el_order (post sender message st) = el_order st"
  "open_channel (post sender message st) claim = open_channel st claim"
  by (simp_all add: post_def open_channel_def)

lemma become_fields [simp]:
  "el_attempt (become claim status st) = (el_attempt st)(claim := status)"
  "el_order (become claim status st) = el_order st" "el_mail (become claim status st) = el_mail st"
  by (simp_all add: become_def)

lemma start_ok:
  assumes ok: "election_ok st" and step: "election_step (Start claim) st = Some st'"
  shows "election_ok st'"
proof -
  let ?st = "st\<lparr>el_attempt := (el_attempt st)(claim := Claiming), el_order := el_order st @ [claim]\<rparr>"
  have fresh: "el_attempt st claim = NotStarted" using step by (auto split: if_splits)
  then have new: "claim \<notin> set (el_order st)" using ok by (auto simp: election_ok_def)
  have st': "st' = post claim (Claim claim) ?st" using step fresh by simp
  have "warned st' first second"
    if order: "precedes (el_order st') first second" and opened: "open_channel st' first" for first second
  proof (cases "second = claim")
    case True
    then have "first \<in> set (el_order st)" using order new precedes_in [of "el_order st" first second]
      by (auto simp: st' precedes_snoc)
    then have "first \<noteq> claim" using new by blast
    then show ?thesis using True opened \<open>first \<in> set (el_order st)\<close>
      by (auto simp: warned_def st' mail_post)
  next
    case False
    then have "precedes (el_order st) first second" using order by (simp add: st' precedes_snoc)
    moreover from this have "first \<noteq> claim" using precedes_in new by blast
    ultimately show ?thesis using ok opened False
      by (auto simp: election_ok_def warned_def st' mail_post open_channel_def)
  qed
  then show ?thesis using ok new by (auto simp: election_ok_def st')
qed

lemma gone_ok:
  assumes "election_ok st" and "el_attempt st claim \<noteq> NotStarted"
    and "\<forall>m. m \<in> set (el_mail st) \<longrightarrow> m \<in> set mail \<or> (\<exists>message. m = (claim, message))"
  shows "election_ok (become claim Gone (st\<lparr>el_mail := mail\<rparr>))"
proof -
  let ?st' = "become claim Gone (st\<lparr>el_mail := mail\<rparr>)"
  have "warned ?st' first second" if "precedes (el_order st) first second" "open_channel ?st' first" for first second
  proof -
    have "first \<noteq> claim" using that(2) by (auto simp: open_channel_def)
    then have "warned st first second" using that assms(1) by (auto simp: election_ok_def open_channel_def)
    then show ?thesis using \<open>first \<noteq> claim\<close> assms(3) by (auto simp: warned_def)
  qed
  then show ?thesis using assms(1, 2) by (auto simp: election_ok_def)
qed

lemma deliver_ok:
  assumes ok: "election_ok st" and step: "election_step (Deliver i) st = Some st'"
  shows "election_ok st'"
proof -
  have i: "i < length (el_mail st)" using step by (auto split: if_splits)
  obtain claim message where mail: "el_mail st ! i = (claim, message)" by fastforce
  let ?mail = "take i (el_mail st) @ drop (Suc i) (el_mail st)"
  let ?st = "st\<lparr>el_mail := ?mail\<rparr>"
  have st': "st' = on_message claim message ?st" using step i mail by simp
  have split: "el_mail st = take i (el_mail st) @ (claim, message) # drop (Suc i) (el_mail st)"
    using id_take_nth_drop [OF i] mail by simp
  have kept: "m \<in> set ?mail" if "m \<in> set (el_mail st)" "m \<noteq> (claim, message)" for m
    using that by (subst (asm) split) auto
  have less: "m \<in> set (el_mail st)" if "m \<in> set ?mail" for m
    using that by (subst split) auto
  have opened: "open_channel ?st c = open_channel st c" for c by (simp add: open_channel_def)
  have unread: "election_ok ?st" if irrelevant: "\<forall>theirs. message = Claim theirs \<longrightarrow> \<not> open_channel st claim"
      "message = Held claim \<longrightarrow> el_attempt st claim \<noteq> Claiming"
  proof -
    have "warned ?st first second" if "precedes (el_order st) first second" "open_channel st first" for first second
    proof -
      have "warned st first second" using that ok by (simp add: election_ok_def)
      then show ?thesis using irrelevant that(2) kept by (auto simp: warned_def)
    qed
    then show ?thesis using ok by (simp add: election_ok_def opened)
  qed
  have answered: "election_ok (post claim (Held theirs) ?st)"
    if "message = Claim theirs" "open_channel st claim" for theirs
  proof -
    have "warned (post claim (Held theirs) ?st) first second"
      if order: "precedes (el_order st) first second" and first: "open_channel st first" for first second
    proof -
      have known: "warned st first second" using order first ok by (simp add: election_ok_def)
      have second: "second \<in> set (el_order st)" "second \<noteq> first"
        using precedes_in [OF order] precedes_irrefl order ok by (auto simp: election_ok_def)
      show ?thesis
      proof (cases "(first, Claim second) = (claim, message)")
        case True
        then show ?thesis using known second \<open>message = Claim theirs\<close>
          by (auto simp: warned_def mail_post open_channel_def)
      next
        case False
        then show ?thesis using known kept \<open>message = Claim theirs\<close>
          by (auto simp: warned_def mail_post)
      qed
    qed
    then show ?thesis using ok by (simp add: election_ok_def opened)
  qed
  have gone: "election_ok (become claim Gone ?st)" if "el_attempt st claim = Claiming"
  proof (rule gone_ok [OF ok])
    show "el_attempt st claim \<noteq> NotStarted" using that by simp
    show "\<forall>m. m \<in> set (el_mail st) \<longrightarrow> m \<in> set ?mail \<or> (\<exists>message. m = (claim, message))" using kept by blast
  qed
  show ?thesis
    unfolding st' on_message_def
    using unread answered gone
    by (auto simp: open_channel_def split: attempt.split lease_message.split)
qed

lemma expire_ok:
  assumes ok: "election_ok st" and step: "election_step (Expire claim) st = Some st'"
  shows "election_ok st'"
proof -
  have guard: "el_attempt st claim = Claiming" "Claim claim \<notin> snd ` set (el_mail st)"
      "(claim, Held claim) \<notin> set (el_mail st)" and st': "st' = become claim Holding st"
    using step by (auto split: if_splits)
  have "warned st' first second"
    if order: "precedes (el_order st) first second" and opened: "open_channel st' first" for first second
  proof -
    have "open_channel st first" using opened guard by (auto simp: st' open_channel_def split: if_splits)
    then have known: "warned st first second" using order ok by (simp add: election_ok_def)
    have "second \<noteq> claim" using known guard by (force simp: warned_def)
    then show ?thesis using known by (simp add: warned_def st')
  qed
  then show ?thesis using ok guard by (auto simp: election_ok_def st')
qed

lemma close_ok:
  assumes ok: "election_ok st" and step: "election_step (Close claim) st = Some st'"
  shows "election_ok st'"
proof -
  have "el_attempt st claim \<noteq> NotStarted" and st': "st' = become claim Gone (st\<lparr>el_mail := el_mail st\<rparr>)"
    using step by (auto simp: open_channel_def become_def split: if_splits)
  then show ?thesis unfolding st' by (intro gone_ok [OF ok]) auto
qed

lemma elected_ok: "elected st \<Longrightarrow> election_ok st"
proof (induction rule: elected.induct)
  case initial
  show ?case by (simp add: election_ok_def no_election_def)
next
  case (step st event st')
  then show ?case
    using start_ok deliver_ok expire_ok close_ok by (cases event) blast+
qed


text \<open>Two tabs claim at once, and the smaller claim wins.\<close>

definition sample_election :: election where
  "sample_election = the (fold (\<lambda>event st. Option.bind st (election_step event))
     [Start 5, Start 3, Deliver 0, Start 9, Expire 3] (Some no_election))"


end
