(* ===== verification/Sync_Agent.thy ===== *)
theory Sync_Agent
  imports Js_String Complex_Main "HOL-Library.AList"
begin

text \<open>
  \<open>features/sync/SyncAgent.ts\<close>: the live connection of a remote graph. One agent owns at most one
  WebSocket at a time; it says hello, applies what the server sends, sends the durable outbox of
  the Worker one frame at a time and reconnects with growing delays.

  An \<open>agent\<close> holds the fields of the class, a socket being the number of its transport. Every
  \<open>await\<close> is a task that a later event resumes: the frames of a transport are worked off in order
  (\<open>sg_frames\<close>, \<open>sg_receiving\<close>), the runs of \<open>updateOutbox\<close> too (\<open>sg_runs\<close>, \<open>sg_run\<close>), and hello,
  heartbeat, presence, start, resume and the recheck of a revoked member are lists of tasks. The
  answers of the Worker, the server and the delegate are parts of the events. What leaves the agent
  is recorded: frames sent (\<open>sg_wire\<close>), acknowledgements passed to the outbox among them, and the
  states reported to the delegate (\<open>sg_changed\<close>). Encoding, JSON, the URL and the token are left
  out; \<open>sg_ids\<close> gives the random id of each transport and \<open>sg_now\<close> is the clock.
\<close>

subsection \<open>Data\<close>

datatype pause_reason = PausedAuth | PausedRevoked | PausedIncompatible | PausedHistory

datatype remote_sync_state =
    SyncLocal
  | SyncPending nat
  | SyncSynced
  | SyncPaused pause_reason
  | SyncError js_string

datatype live_state = LiveLocal | LiveConnecting | LiveLive | LiveOffline | LivePaused

datatype ready_state = Connecting | Open | Closing | Closed

record presence_value =
  pv_owner :: js_string
  pv_block_id :: js_string
  pv_anchor :: nat
  pv_head :: nat

record peer_presence =
  pr_session_id :: js_string
  pr_principal :: js_string
  pr_value :: "presence_value option"
  pr_expires_at :: rat

datatype welcome_payload = Delta nat | MergeDownload | ReplaceInline nat | ReplaceDownload

record server_welcome =
  wl_history_epoch :: int
  wl_payload :: welcome_payload

text \<open>
  What a frame of the server decodes to. Of byte strings only the length matters; a presence
  payload is the peer it parses to, or \<open>None\<close> when it does not parse.
\<close>

datatype server_message =
    WelcomeMessage server_welcome
  | AckMessage int js_string
  | UpdateMessage int
  | HeartbeatMessage
  | PresenceMessage "rat option" "peer_presence option"
  | ResyncMessage
  | ErrorMessage js_string bool js_string

datatype client_frame =
    HelloFrame js_string int
  | OutboxFrame js_string
  | HeartbeatFrame
  | PresenceFrame js_string "presence_value option"

text \<open>What the agent does to the world: sends a frame on a transport, acknowledges an outbox
  entry, hands a remote update or a replacement to the session.\<close>

datatype wire_action =
    Sent nat client_frame
  | Acknowledged nat js_string
  | ImportedUpdate nat
  | ImportedReplacement nat int

text \<open>Where a frame's handling waits.\<close>

datatype receiving =
    Decoding "server_message option"
  | Downloading server_welcome
  | ApplyingWelcome server_welcome
  | ApplyingUpdate
  | Acknowledging js_string
  | AwaitingRun

text \<open>A run of \<open>updateOutbox\<close> belongs to a wake or to the frame of a transport.\<close>

datatype run_owner = WakeRun | FrameRun nat

datatype run_phase = Refreshing | Reading nat

datatype task =
    StartRefresh
  | StartValidate
  | ResumeRefresh
  | HelloState nat js_string
  | HelloEncode nat js_string int
  | HeartbeatEncode nat
  | PresenceEncode nat js_string "presence_value option"
  | WithdrawalEncode nat js_string
  | RecheckAccess

record agent =
  sg_socket :: "nat option"
  sg_next :: nat
  sg_ready :: "nat \<Rightarrow> ready_state"
  sg_stopped :: bool
  sg_welcomed :: bool
  sg_retry :: nat
  sg_retryTimer :: bool
  sg_inFlight :: "js_string option"
  sg_transportSessionId :: js_string
  sg_historyEpoch :: "int option"
  sg_lastReceived :: int
  sg_lastHeartbeat :: int
  sg_inFlightSince :: int
  sg_presence :: "(js_string \<times> peer_presence) list"
  sg_ownPresence :: "presence_value option"
  sg_ownPresenceSentAt :: int
  sg_withdrawal :: "(nat \<times> js_string) option"
  sg_revokedCheckedAt :: int
  sg_ticking :: bool
  sg_sync :: remote_sync_state
  sg_live :: live_state
  sg_online :: bool
  sg_auth :: bool
  sg_frames :: "nat \<Rightarrow> server_message option list"
  sg_receiving :: "nat \<Rightarrow> receiving option"
  sg_draining :: "nat list"
  sg_runs :: "run_owner list"
  sg_run :: "(run_owner \<times> run_phase) option"
  sg_tasks :: "task list"
  sg_wire :: "wire_action list"
  sg_changed :: "(remote_sync_state \<times> live_state) list"
  sg_now :: int
  sg_ids :: "nat \<Rightarrow> js_string"

definition MAX_RECONNECT_MS :: nat where "MAX_RECONNECT_MS = 30000"
definition PRESENCE_TTL_MS :: rat where "PRESENCE_TTL_MS = 10000"
definition PRESENCE_REFRESH_MS :: int where "PRESENCE_REFRESH_MS = 2000"
definition HEARTBEAT_MS :: int where "HEARTBEAT_MS = 10000"
definition TRANSPORT_TIMEOUT_MS :: int where "TRANSPORT_TIMEOUT_MS = 60000"
definition REVOKED_RECHECK_MS :: int where "REVOKED_RECHECK_MS = 10000"

definition new_agent :: "bool \<Rightarrow> bool \<Rightarrow> (nat \<Rightarrow> js_string) \<Rightarrow> agent" where
  "new_agent online auth ids =
     \<lparr>sg_socket = None, sg_next = 0, sg_ready = (\<lambda>_. Closed), sg_stopped = False, sg_welcomed = False,
      sg_retry = 0, sg_retryTimer = False, sg_inFlight = None, sg_transportSessionId = [],
      sg_historyEpoch = None, sg_lastReceived = 0, sg_lastHeartbeat = 0, sg_inFlightSince = 0,
      sg_presence = [], sg_ownPresence = None, sg_ownPresenceSentAt = 0, sg_withdrawal = None,
      sg_revokedCheckedAt = 0, sg_ticking = False, sg_sync = SyncPending 0, sg_live = LiveConnecting,
      sg_online = online, sg_auth = auth, sg_frames = (\<lambda>_. []), sg_receiving = (\<lambda>_. None),
      sg_draining = [], sg_runs = [], sg_run = None, sg_tasks = [], sg_wire = [], sg_changed = [],
      sg_now = 0, sg_ids = ids\<rparr>"

subsection \<open>State and transport\<close>

text \<open>\<open>patch\<close>: the delegate hears of every change.\<close>

definition report :: "agent \<Rightarrow> agent" where
  "report w = w\<lparr>sg_changed := sg_changed w @ [(sg_sync w, sg_live w)]\<rparr>"

definition patch_sync :: "remote_sync_state \<Rightarrow> agent \<Rightarrow> agent" where
  "patch_sync sync w = report (w\<lparr>sg_sync := sync\<rparr>)"

definition patch_live :: "live_state \<Rightarrow> agent \<Rightarrow> agent" where
  "patch_live live w = report (w\<lparr>sg_live := live\<rparr>)"

definition patch_both :: "remote_sync_state \<Rightarrow> live_state \<Rightarrow> agent \<Rightarrow> agent" where
  "patch_both sync live w = report (w\<lparr>sg_sync := sync, sg_live := live\<rparr>)"

definition is_paused :: "remote_sync_state \<Rightarrow> bool" where
  "is_paused sync \<longleftrightarrow> (case sync of SyncPaused _ \<Rightarrow> True | _ \<Rightarrow> False)"

definition isCurrent :: "agent \<Rightarrow> nat \<Rightarrow> bool" where
  "isCurrent w s \<longleftrightarrow> \<not> sg_stopped w \<and> sg_socket w = Some s"

definition send_frame :: "nat \<Rightarrow> client_frame \<Rightarrow> agent \<Rightarrow> agent" where
  "send_frame s frame w = w\<lparr>sg_wire := sg_wire w @ [Sent s frame]\<rparr>"

text \<open>A frame whose encoding was awaited is sent on its own transport or not at all.\<close>

definition send_if_open :: "nat \<Rightarrow> client_frame \<Rightarrow> agent \<Rightarrow> agent" where
  "send_if_open s frame w = (if isCurrent w s \<and> sg_ready w s = Open then send_frame s frame w else w)"

definition close_socket :: "nat \<Rightarrow> agent \<Rightarrow> agent" where
  "close_socket s w =
     (if sg_ready w s = Connecting \<or> sg_ready w s = Open
      then w\<lparr>sg_ready := (sg_ready w)(s := Closing)\<rparr> else w)"

definition abandonSocket :: "agent \<Rightarrow> agent" where
  "abandonSocket w =
     (let stale = sg_socket w; w' = w\<lparr>sg_socket := None, sg_welcomed := False, sg_inFlight := None\<rparr>
      in case stale of None \<Rightarrow> w' | Some s \<Rightarrow> close_socket s w')"

definition reconnect_ceiling :: "nat \<Rightarrow> nat" where
  "reconnect_ceiling retry = min MAX_RECONNECT_MS (500 * 2 ^ retry)"

definition scheduleReconnect :: "agent \<Rightarrow> agent" where
  "scheduleReconnect w =
     (if sg_stopped w \<or> sg_live w = LivePaused then w
      else let w' = patch_live LiveOffline w
           in if sg_retryTimer w' then w'
              else w'\<lparr>sg_retry := sg_retry w' + 1, sg_retryTimer := True\<rparr>)"

definition connect :: "agent \<Rightarrow> agent" where
  "connect w =
     (if sg_stopped w \<or> sg_socket w \<noteq> None then w
      else if \<not> sg_online w then scheduleReconnect w
      else if \<not> sg_auth w then patch_both (SyncPaused PausedAuth) LivePaused w
      else let s = sg_next w; w' = patch_live LiveConnecting w
           in w'\<lparr>sg_next := s + 1, sg_socket := Some s, sg_ready := (sg_ready w')(s := Connecting),
                 sg_transportSessionId := sg_ids w' s, sg_frames := (sg_frames w')(s := []),
                 sg_receiving := (sg_receiving w')(s := None), sg_historyEpoch := None,
                 sg_lastReceived := sg_now w'\<rparr>)"

text \<open>A failure: what it says, and whether the Worker's code for it is \<open>resync_required\<close>.\<close>

record failure_info =
  fi_resync :: bool
  fi_message :: js_string

definition transportFailed :: "nat \<Rightarrow> failure_info \<Rightarrow> agent \<Rightarrow> agent" where
  "transportFailed s failure w =
     (if \<not> isCurrent w s then w
      else let w' = abandonSocket w
           in if fi_resync failure then patch_both (SyncPaused PausedHistory) LivePaused w'
              else scheduleReconnect (patch_sync (SyncError (fi_message failure)) w'))"

definition failToStart :: "failure_info \<Rightarrow> agent \<Rightarrow> agent" where
  "failToStart failure w =
     (if sg_stopped w then w
      else scheduleReconnect (patch_both (SyncError (fi_message failure)) LiveOffline w))"

text \<open>\<open>refreshPending\<close> once the Worker has answered with the number of outbox entries.\<close>

definition refreshed :: "nat \<Rightarrow> agent \<Rightarrow> agent" where
  "refreshed pending w =
     (if sg_stopped w \<or> is_paused (sg_sync w) then w
      else patch_sync (if 0 < pending then SyncPending pending else SyncSynced) w)"

definition add_task :: "task \<Rightarrow> agent \<Rightarrow> agent" where
  "add_task t w = w\<lparr>sg_tasks := sg_tasks w @ [t]\<rparr>"

definition resume :: "agent \<Rightarrow> agent" where
  "resume w = add_task ResumeRefresh (patch_both (SyncPending 0) LiveConnecting (abandonSocket w))"

subsection \<open>Presence\<close>

definition sendPresence :: "agent \<Rightarrow> agent" where
  "sendPresence w =
     (case sg_socket w of
        None \<Rightarrow> w
      | Some s \<Rightarrow>
          if sg_ready w s \<noteq> Open \<or> \<not> sg_welcomed w \<or> \<not> sg_auth w then w
          else add_task (PresenceEncode s (sg_transportSessionId w) (sg_ownPresence w))
                 (w\<lparr>sg_ownPresenceSentAt := sg_now w\<rparr>))"

definition publishPresence :: "presence_value option \<Rightarrow> agent \<Rightarrow> agent" where
  "publishPresence v w =
     (if v = None \<and> sg_ownPresence w = None then w else sendPresence (w\<lparr>sg_ownPresence := v\<rparr>))"

text \<open>A closing page sends the withdrawal that was encoded ahead.\<close>

definition onPageHide :: "agent \<Rightarrow> agent" where
  "onPageHide w =
     (case (sg_ownPresence w, sg_withdrawal w) of
        (Some _, Some (s, ident)) \<Rightarrow>
          if sg_socket w = Some s \<and> sg_ready w s = Open then send_frame s (PresenceFrame ident None) w else w
      | _ \<Rightarrow> w)"

text \<open>A lifetime a peer names, clamped; what is not a finite number (\<open>None\<close>) lives no time.\<close>

definition presenceTtl :: "rat option \<Rightarrow> rat" where
  "presenceTtl requested = (case requested of None \<Rightarrow> 0 | Some r \<Rightarrow> max 0 (min r PRESENCE_TTL_MS))"

definition receivePresence :: "rat option \<Rightarrow> peer_presence option \<Rightarrow> agent \<Rightarrow> agent" where
  "receivePresence expires decoded w =
     (case decoded of
        None \<Rightarrow> w
      | Some peer \<Rightarrow>
          if pr_session_id peer = [] \<or> pr_session_id peer = sg_transportSessionId w then w
          else let ttl = presenceTtl expires
               in report (w\<lparr>sg_presence := 
                    (if ttl = 0 then AList.delete (pr_session_id peer) (sg_presence w)
                     else AList.update (pr_session_id peer) (peer\<lparr>pr_expires_at := of_int (sg_now w) + ttl\<rparr>)
                            (sg_presence w))\<rparr>))"

definition expirePresence :: "agent \<Rightarrow> agent" where
  "expirePresence w =
     (let live = filter (\<lambda>(_, peer). \<not> pr_expires_at peer \<le> of_int (sg_now w)) (sg_presence w)
      in if length live = length (sg_presence w) then w else report (w\<lparr>sg_presence := live\<rparr>))"

subsection \<open>The Welcome\<close>

text \<open>\<open>applyWelcomePayload\<close>: what to do at once, and what to do with a downloaded checkpoint.\<close>

datatype welcome_step =
    NothingToApply
  | ApplyRemote
  | ReplaceRemote int
  | DownloadCheckpoint
  | WelcomeFailed js_string

definition applyWelcomePayload :: "server_welcome \<Rightarrow> welcome_step" where
  "applyWelcomePayload welcome =
     (case wl_payload welcome of
        ReplaceDownload \<Rightarrow> DownloadCheckpoint
      | MergeDownload \<Rightarrow> DownloadCheckpoint
      | Delta n \<Rightarrow> if 0 < n then ApplyRemote else NothingToApply
      | ReplaceInline n \<Rightarrow>
          if n = 0 then WelcomeFailed (js ''replacement checkpoint is missing'')
          else ReplaceRemote (wl_history_epoch welcome))"

definition applyDownloaded :: "server_welcome \<Rightarrow> int \<Rightarrow> nat \<Rightarrow> welcome_step" where
  "applyDownloaded welcome epoch bytes =
     (if epoch \<noteq> wl_history_epoch welcome then WelcomeFailed (js ''checkpoint history changed during download'')
      else if bytes = 0 then WelcomeFailed (js ''replacement checkpoint is missing'')
      else if wl_payload welcome = MergeDownload then ApplyRemote
      else ReplaceRemote epoch)"

subsection \<open>The outbox\<close>

definition updateOutbox :: "run_owner \<Rightarrow> agent \<Rightarrow> agent" where
  "updateOutbox owner w = w\<lparr>sg_runs := sg_runs w @ [owner]\<rparr>"

definition set_receiving :: "nat \<Rightarrow> receiving option \<Rightarrow> agent \<Rightarrow> agent" where
  "set_receiving s phase w = w\<lparr>sg_receiving := (sg_receiving w)(s := phase)\<rparr>"

text \<open>A run resolves: the frame that waits for it is done.\<close>

fun run_done :: "run_owner \<Rightarrow> agent \<Rightarrow> agent" where
  "run_done WakeRun w = w\<lparr>sg_run := None\<rparr>"
| "run_done (FrameRun s) w = set_receiving s None (w\<lparr>sg_run := None\<rparr>)"

text \<open>A run rejects: the \<open>catch\<close> of \<open>wake\<close>, or of the frame's handler.\<close>

fun run_failed :: "run_owner \<Rightarrow> failure_info \<Rightarrow> agent \<Rightarrow> agent" where
  "run_failed WakeRun failure w =
     (let w' = w\<lparr>sg_run := None\<rparr>
      in if sg_stopped w' \<or> is_paused (sg_sync w') then w'
         else scheduleReconnect (patch_sync (SyncError (fi_message failure)) (abandonSocket w')))"
| "run_failed (FrameRun s) failure w =
     transportFailed s failure (set_receiving s None (w\<lparr>sg_run := None\<rparr>))"

definition start_run :: "agent \<Rightarrow> agent" where
  "start_run w =
     (case (sg_run w, sg_runs w) of
        (None, owner # owners) \<Rightarrow>
          let w' = w\<lparr>sg_runs := owners\<rparr>
          in if sg_stopped w' then run_done owner w' else w'\<lparr>sg_run := Some (owner, Refreshing)\<rparr>
      | _ \<Rightarrow> w)"

definition may_flush :: "nat \<Rightarrow> agent \<Rightarrow> bool" where
  "may_flush s w \<longleftrightarrow> sg_socket w = Some s \<and> sg_ready w s = Open \<and> sg_welcomed w \<and> sg_inFlight w = None"

text \<open>\<open>refreshPending\<close> has its answer; \<open>flush\<close> reads the next outbox entry for this transport.\<close>

definition run_refreshed :: "failure_info + nat \<Rightarrow> agent \<Rightarrow> agent" where
  "run_refreshed answer w =
     (case sg_run w of
        Some (owner, Refreshing) \<Rightarrow>
          (case answer of
             Inl failure \<Rightarrow> run_failed owner failure w
           | Inr pending \<Rightarrow>
               let w' = refreshed pending w
               in case sg_socket w' of
                    Some s \<Rightarrow> if may_flush s w' then w'\<lparr>sg_run := Some (owner, Reading s)\<rparr> else run_done owner w'
                  | None \<Rightarrow> run_done owner w')
      | _ \<Rightarrow> w)"

definition run_read :: "failure_info + js_string option \<Rightarrow> agent \<Rightarrow> agent" where
  "run_read answer w =
     (case sg_run w of
        Some (owner, Reading s) \<Rightarrow>
          (case answer of
             Inl failure \<Rightarrow> run_failed owner failure w
           | Inr entry \<Rightarrow>
               if sg_stopped w \<or> \<not> may_flush s w then run_done owner w
               else case entry of
                      None \<Rightarrow> run_done owner (patch_sync SyncSynced w)
                    | Some ident \<Rightarrow>
                        run_done owner (send_frame s (OutboxFrame ident)
                          (w\<lparr>sg_inFlight := Some ident, sg_inFlightSince := sg_now w\<rparr>)))
      | _ \<Rightarrow> w)"

definition wake :: "agent \<Rightarrow> agent" where
  "wake w = (if sg_stopped w then w else updateOutbox WakeRun w)"

subsection \<open>Receiving\<close>

definition record_action :: "wire_action \<Rightarrow> agent \<Rightarrow> agent" where
  "record_action action w = w\<lparr>sg_wire := sg_wire w @ [action]\<rparr>"

text \<open>After the payload of a Welcome is applied.\<close>

definition welcomed :: "nat \<Rightarrow> server_welcome \<Rightarrow> agent \<Rightarrow> agent" where
  "welcomed s welcome w =
     (if \<not> isCurrent w s then set_receiving s None w
      else let w1 = patch_live LiveLive
                 (w\<lparr>sg_historyEpoch := Some (wl_history_epoch welcome), sg_welcomed := True, sg_retry := 0\<rparr>);
               w2 = (if sg_ownPresence w1 = None then w1 else sendPresence w1)
           in set_receiving s (Some AwaitingRun) (updateOutbox (FrameRun s) w2))"

definition welcome_failure :: "js_string \<Rightarrow> failure_info" where
  "welcome_failure text = \<lparr>fi_resync = False, fi_message = text\<rparr>"

definition take_step :: "nat \<Rightarrow> server_welcome \<Rightarrow> welcome_step \<Rightarrow> agent \<Rightarrow> agent" where
  "take_step s welcome step w =
     (case step of
        NothingToApply \<Rightarrow> welcomed s welcome w
      | ApplyRemote \<Rightarrow> set_receiving s (Some (ApplyingWelcome welcome)) (record_action (ImportedUpdate s) w)
      | ReplaceRemote epoch \<Rightarrow>
          set_receiving s (Some (ApplyingWelcome welcome)) (record_action (ImportedReplacement s epoch) w)
      | DownloadCheckpoint \<Rightarrow>
          if sg_auth w then set_receiving s (Some (Downloading welcome)) w
          else transportFailed s (welcome_failure (js ''checkpoint download requires authentication''))
                 (set_receiving s None w)
      | WelcomeFailed text \<Rightarrow> transportFailed s (welcome_failure text) (set_receiving s None w))"

definition receive_error :: "js_string \<Rightarrow> bool \<Rightarrow> js_string \<Rightarrow> agent \<Rightarrow> agent" where
  "receive_error code recoverable diagnostic w =
     (let close = (\<lambda>w. case sg_socket w of None \<Rightarrow> w | Some s \<Rightarrow> close_socket s w)
      in if code = js ''access_denied'' \<or> code = js ''membership_revoked''
         then close (patch_both
                (SyncPaused (if code = js ''membership_revoked'' then PausedRevoked else PausedAuth)) LivePaused w)
         else if code = js ''unsupported_protocol'' \<or> code = js ''unsupported_schema''
         then close (patch_both (SyncPaused PausedIncompatible) LivePaused w)
         else if recoverable then scheduleReconnect (abandonSocket w)
         else patch_sync (SyncError diagnostic) w)"

text \<open>\<open>receive\<close> once the frame is decoded, or failed to decode.\<close>

definition receive_decoded :: "nat \<Rightarrow> server_message option \<Rightarrow> agent \<Rightarrow> agent" where
  "receive_decoded s decoded w0 =
     (let w = set_receiving s None w0
      in case decoded of
           None \<Rightarrow> transportFailed s (welcome_failure (js ''malformed frame'')) w
         | Some message \<Rightarrow>
             if \<not> isCurrent w s then w
             else case message of
                    WelcomeMessage welcome \<Rightarrow> take_step s welcome (applyWelcomePayload welcome) w
                  | AckMessage epoch ident \<Rightarrow>
                      if Some epoch \<noteq> sg_historyEpoch w \<or> Some ident \<noteq> sg_inFlight w then w
                      else set_receiving s (Some (Acknowledging ident)) (record_action (Acknowledged s ident) w)
                  | UpdateMessage epoch \<Rightarrow>
                      if Some epoch \<noteq> sg_historyEpoch w
                      then transportFailed s (welcome_failure (js ''remote history changed'')) w
                      else set_receiving s (Some ApplyingUpdate) (record_action (ImportedUpdate s) w)
                  | HeartbeatMessage \<Rightarrow> w
                  | PresenceMessage expires peer \<Rightarrow> receivePresence expires peer w
                  | ResyncMessage \<Rightarrow> scheduleReconnect (abandonSocket w)
                  | ErrorMessage code recoverable diagnostic \<Rightarrow> receive_error code recoverable diagnostic w)"

text \<open>What the awaited call answered: it is done, a checkpoint came down, or it failed.\<close>

datatype receive_answer = Done | Downloaded int nat | Failed failure_info

definition receive_resumed :: "nat \<Rightarrow> receive_answer \<Rightarrow> agent \<Rightarrow> agent" where
  "receive_resumed s answer w =
     (case (sg_receiving w s, answer) of
        (None, _) \<Rightarrow> w
      | (Some AwaitingRun, _) \<Rightarrow> w
      | (Some (Decoding decoded), _) \<Rightarrow> receive_decoded s decoded w
      | (Some _, Failed failure) \<Rightarrow> transportFailed s failure (set_receiving s None w)
      | (Some (Downloading welcome), Downloaded epoch bytes) \<Rightarrow>
          if \<not> isCurrent w s then set_receiving s None w
          else take_step s welcome (applyDownloaded welcome epoch bytes) w
      | (Some (ApplyingWelcome welcome), Done) \<Rightarrow> welcomed s welcome w
      | (Some ApplyingUpdate, Done) \<Rightarrow> set_receiving s None w
      | (Some (Acknowledging ident), Done) \<Rightarrow>
          if \<not> isCurrent w s then set_receiving s None w
          else set_receiving s (Some AwaitingRun) (updateOutbox (FrameRun s)
                 (if sg_inFlight w = Some ident then w\<lparr>sg_inFlight := None\<rparr> else w))
      | _ \<Rightarrow> w)"

subsection \<open>Start, resume, connectivity\<close>

definition start_agent :: "agent \<Rightarrow> agent" where
  "start_agent w = add_task StartRefresh (w\<lparr>sg_ticking := True\<rparr>)"

definition stop_agent :: "agent \<Rightarrow> agent" where
  "stop_agent w = abandonSocket (w\<lparr>sg_stopped := True, sg_retryTimer := False, sg_ticking := False\<rparr>)"

definition recheckAccess :: "agent \<Rightarrow> agent" where
  "recheckAccess w =
     (if sg_stopped w \<or> sg_sync w \<noteq> SyncPaused PausedRevoked then w
      else let w' = w\<lparr>sg_revokedCheckedAt := sg_now w\<rparr>
           in if sg_auth w' then add_task RecheckAccess w' else w')"

definition timed_out :: "agent \<Rightarrow> bool" where
  "timed_out w \<longleftrightarrow>
     TRANSPORT_TIMEOUT_MS \<le> sg_now w - sg_lastReceived w
     \<or> sg_inFlight w \<noteq> None \<and> TRANSPORT_TIMEOUT_MS \<le> sg_now w - sg_inFlightSince w"

definition heartbeat :: "agent \<Rightarrow> agent" where
  "heartbeat w =
     (case sg_socket w of
        Some s \<Rightarrow>
          if sg_welcomed w \<and> HEARTBEAT_MS \<le> sg_now w - sg_lastHeartbeat w
          then add_task (HeartbeatEncode s) (w\<lparr>sg_lastHeartbeat := sg_now w\<rparr>) else w
      | None \<Rightarrow> w)"

definition maintainConnectivity :: "agent \<Rightarrow> agent" where
  "maintainConnectivity w =
     (if sg_stopped w then w
      else if sg_live w = LivePaused
      then (if REVOKED_RECHECK_MS \<le> sg_now w - sg_revokedCheckedAt w then recheckAccess w else w)
      else case sg_socket w of
             Some s \<Rightarrow>
               if timed_out w then transportFailed s (welcome_failure (js ''sync response timeout'')) w
               else let w' = heartbeat w
                    in if \<not> sg_online w' then scheduleReconnect (abandonSocket w') else w'
           | None \<Rightarrow>
               if \<not> sg_online w
               then (if sg_live w \<noteq> LiveOffline then scheduleReconnect (abandonSocket w) else w)
               else if \<not> sg_retryTimer w \<and> sg_live w = LiveOffline then connect w else w)"

definition tick :: "agent \<Rightarrow> agent" where
  "tick w =
     (let w1 = expirePresence w;
          w2 = (if sg_ownPresence w1 \<noteq> None \<and> PRESENCE_REFRESH_MS \<le> sg_now w1 - sg_ownPresenceSentAt w1
                then sendPresence w1 else w1)
      in maintainConnectivity w2)"

definition retry_fires :: "agent \<Rightarrow> agent" where
  "retry_fires w =
     (if \<not> sg_retryTimer w then w
      else let w' = w\<lparr>sg_retryTimer := False\<rparr>
           in if sg_stopped w' then w' else if sg_online w' then connect w' else scheduleReconnect w')"

definition onOnline :: "agent \<Rightarrow> agent" where
  "onOnline w =
     (if sg_stopped w \<or> sg_live w = LivePaused then w
      else connect (abandonSocket (w\<lparr>sg_retryTimer := False\<rparr>)))"

definition onOffline :: "agent \<Rightarrow> agent" where
  "onOffline w = (if sg_stopped w \<or> sg_live w = LivePaused then w else scheduleReconnect (abandonSocket w))"

subsection \<open>The events of a transport\<close>

definition socket_opened :: "nat \<Rightarrow> agent \<Rightarrow> agent" where
  "socket_opened s w =
     (if sg_socket w = Some s \<and> sg_ready w s = Connecting
      then add_task (HelloState s (sg_transportSessionId w)) (w\<lparr>sg_ready := (sg_ready w)(s := Open)\<rparr>) else w)"

definition socket_message :: "nat \<Rightarrow> server_message option \<Rightarrow> agent \<Rightarrow> agent" where
  "socket_message s frame w =
     (if isCurrent w s
      then w\<lparr>sg_lastReceived := sg_now w, sg_frames := (sg_frames w)(s := sg_frames w s @ [frame])\<rparr> else w)"

text \<open>The next frame of a transport, once the one before it is handled.\<close>

definition next_frame :: "nat \<Rightarrow> agent \<Rightarrow> agent" where
  "next_frame s w =
     (case (sg_receiving w s, sg_frames w s) of
        (None, frame # frames) \<Rightarrow>
          let w' = w\<lparr>sg_frames := (sg_frames w)(s := frames)\<rparr>
          in if isCurrent w' s then set_receiving s (Some (Decoding frame)) w' else w'
      | _ \<Rightarrow> w)"

text \<open>A close event waits for the frames that arrived before it.\<close>

definition socket_closed :: "nat \<Rightarrow> agent \<Rightarrow> agent" where
  "socket_closed s w =
     (let w' = w\<lparr>sg_ready := (sg_ready w)(s := Closed)\<rparr>
      in if isCurrent w' s then w'\<lparr>sg_draining := sg_draining w' @ [s]\<rparr> else w')"

definition drained :: "nat \<Rightarrow> agent \<Rightarrow> agent" where
  "drained s w =
     (if s \<in> set (sg_draining w) \<and> sg_frames w s = [] \<and> sg_receiving w s = None
      then let w' = w\<lparr>sg_draining := remove1 s (sg_draining w)\<rparr>
           in if isCurrent w' s
              then (let w'' = abandonSocket w' in if sg_live w'' \<noteq> LivePaused then scheduleReconnect w'' else w'')
              else w'
      else w)"

subsection \<open>Tasks\<close>

datatype task_answer =
    SyncStateAnswer nat int
  | AuthAnswer bool
  | CatalogAnswer bool
  | Encoded
  | TaskFailed failure_info

fun task_resumed :: "task \<Rightarrow> task_answer \<Rightarrow> agent \<Rightarrow> agent" where
  "task_resumed StartRefresh (SyncStateAnswer pending epoch) w = add_task StartValidate (refreshed pending w)"
| "task_resumed StartRefresh (TaskFailed failure) w = failToStart failure w"
| "task_resumed StartValidate (AuthAnswer ok) w =
     (if sg_stopped w then w
      else if \<not> ok then patch_both (SyncPaused PausedAuth) LivePaused w
      else connect w)"
| "task_resumed StartValidate (TaskFailed failure) w = failToStart failure w"
| "task_resumed ResumeRefresh (SyncStateAnswer pending epoch) w = connect (refreshed pending w)"
| "task_resumed ResumeRefresh (TaskFailed failure) w = failToStart failure w"
| "task_resumed (HelloState s ident) (SyncStateAnswer pending epoch) w =
     (if isCurrent w s then add_task (HelloEncode s ident epoch) (w\<lparr>sg_historyEpoch := Some epoch\<rparr>) else w)"
| "task_resumed (HelloState s ident) (TaskFailed failure) w = transportFailed s failure w"
| "task_resumed (HelloEncode s ident epoch) Encoded w = send_if_open s (HelloFrame ident epoch) w"
| "task_resumed (HelloEncode s ident epoch) (TaskFailed failure) w = transportFailed s failure w"
| "task_resumed (HeartbeatEncode s) Encoded w = send_if_open s HeartbeatFrame w"
| "task_resumed (HeartbeatEncode s) (TaskFailed failure) w = transportFailed s failure w"
| "task_resumed (PresenceEncode s ident v) Encoded w =
     (let w' = send_if_open s (PresenceFrame ident v) w
      in if sg_ownPresence w' \<noteq> None \<and> map_option fst (sg_withdrawal w') \<noteq> Some s
         then add_task (WithdrawalEncode s (sg_transportSessionId w')) w' else w')"
| "task_resumed (WithdrawalEncode s ident) Encoded w =
     (if isCurrent w s then w\<lparr>sg_withdrawal := Some (s, ident)\<rparr> else w)"
| "task_resumed RecheckAccess (CatalogAnswer listed) w =
     (if sg_sync w \<noteq> SyncPaused PausedRevoked then w else if listed then resume w else w)"
| "task_resumed t answer w = w"

text \<open>The answers a task can have; \<open>await\<close> never gives another kind.\<close>

fun answers :: "task \<Rightarrow> task_answer \<Rightarrow> bool" where
  "answers t (TaskFailed failure) = True"
| "answers StartRefresh (SyncStateAnswer pending epoch) = True"
| "answers ResumeRefresh (SyncStateAnswer pending epoch) = True"
| "answers (HelloState s ident) (SyncStateAnswer pending epoch) = True"
| "answers StartValidate (AuthAnswer ok) = True"
| "answers RecheckAccess (CatalogAnswer listed) = True"
| "answers (HelloEncode s ident epoch) Encoded = True"
| "answers (HeartbeatEncode s) Encoded = True"
| "answers (PresenceEncode s ident v) Encoded = True"
| "answers (WithdrawalEncode s ident) Encoded = True"
| "answers t answer = False"

definition resume_task :: "nat \<Rightarrow> task_answer \<Rightarrow> agent \<Rightarrow> agent" where
  "resume_task i answer w =
     (if i < length (sg_tasks w) \<and> answers (sg_tasks w ! i) answer
      then task_resumed (sg_tasks w ! i) answer
             (w\<lparr>sg_tasks := take i (sg_tasks w) @ drop (i + 1) (sg_tasks w)\<rparr>)
      else w)"

subsection \<open>Runs\<close>

datatype agent_event =
    StopEvent
  | WakeEvent
  | PresenceEvent "presence_value option"
  | PageHideEvent
  | OnlineEvent
  | OfflineEvent
  | AuthChangedEvent bool
  | VisibleEvent
  | ClockEvent nat
  | TickEvent
  | RetryEvent
  | OpenedEvent nat
  | MessageEvent nat "server_message option"
  | ClosedEvent nat
  | NextFrameEvent nat
  | ResumedEvent nat receive_answer
  | DrainedEvent nat
  | StartRunEvent
  | RefreshedEvent "failure_info + nat"
  | ReadEvent "failure_info + js_string option"
  | TaskEvent nat task_answer

text \<open>The listeners of the window and the interval are there between start and stop.\<close>

fun agent_step :: "agent_event \<Rightarrow> agent \<Rightarrow> agent" where
  "agent_step StopEvent w = stop_agent w"
| "agent_step WakeEvent w = wake w"
| "agent_step (PresenceEvent v) w = publishPresence v w"
| "agent_step PageHideEvent w = (if sg_ticking w then onPageHide w else w)"
| "agent_step OnlineEvent w =
     (let w' = w\<lparr>sg_online := True\<rparr> in if sg_ticking w' then onOnline w' else w')"
| "agent_step OfflineEvent w =
     (let w' = w\<lparr>sg_online := False\<rparr> in if sg_ticking w' then onOffline w' else w')"
| "agent_step (AuthChangedEvent auth) w =
     (let w' = w\<lparr>sg_auth := auth\<rparr> in if sg_ticking w' then resume w' else w')"
| "agent_step VisibleEvent w = (if sg_ticking w then recheckAccess w else w)"
| "agent_step (ClockEvent d) w = w\<lparr>sg_now := sg_now w + int d\<rparr>"
| "agent_step TickEvent w = (if sg_ticking w then tick w else w)"
| "agent_step RetryEvent w = retry_fires w"
| "agent_step (OpenedEvent s) w = socket_opened s w"
| "agent_step (MessageEvent s frame) w = socket_message s frame w"
| "agent_step (ClosedEvent s) w = socket_closed s w"
| "agent_step (NextFrameEvent s) w = next_frame s w"
| "agent_step (ResumedEvent s answer) w = receive_resumed s answer w"
| "agent_step (DrainedEvent s) w = drained s w"
| "agent_step StartRunEvent w = start_run w"
| "agent_step (RefreshedEvent answer) w = run_refreshed answer w"
| "agent_step (ReadEvent answer) w = run_read answer w"
| "agent_step (TaskEvent i answer) w = resume_task i answer w"

text \<open>A run of an agent that has been started.\<close>

definition agent_run :: "bool \<Rightarrow> bool \<Rightarrow> (nat \<Rightarrow> js_string) \<Rightarrow> agent_event list \<Rightarrow> agent" where
  "agent_run online auth ids events = fold agent_step events (start_agent (new_agent online auth ids))"

end
