(* ===== verification/Sync_Safety.thy ===== *)
theory Sync_Safety
  imports Sync_Agent
begin

text \<open>
  Every run of a sync agent keeps \<open>sync_ok\<close>: a stopped agent has no transport, the outbox is sent
  stop-and-wait on each transport, and every run of \<open>updateOutbox\<close> that a frame started is the one
  that frame waits for. From it follow the safety of what is sent and the recovery of the agent.
\<close>

subsection \<open>Fields\<close>

lemma report_fields [simp]:
  "sg_socket (report w) = sg_socket w"
  "sg_next (report w) = sg_next w"
  "sg_ready (report w) = sg_ready w"
  "sg_stopped (report w) = sg_stopped w"
  "sg_welcomed (report w) = sg_welcomed w"
  "sg_retry (report w) = sg_retry w"
  "sg_retryTimer (report w) = sg_retryTimer w"
  "sg_inFlight (report w) = sg_inFlight w"
  "sg_transportSessionId (report w) = sg_transportSessionId w"
  "sg_historyEpoch (report w) = sg_historyEpoch w"
  "sg_receiving (report w) = sg_receiving w"
  "sg_frames (report w) = sg_frames w"
  "sg_runs (report w) = sg_runs w"
  "sg_run (report w) = sg_run w"
  "sg_tasks (report w) = sg_tasks w"
  "sg_wire (report w) = sg_wire w"
  "sg_online (report w) = sg_online w"
  "sg_auth (report w) = sg_auth w"
  "sg_ids (report w) = sg_ids w"
  "sg_now (report w) = sg_now w"
  "sg_ticking (report w) = sg_ticking w"
  "sg_ownPresence (report w) = sg_ownPresence w"
  "sg_draining (report w) = sg_draining w"
  by (simp_all add: report_def)

lemma patch_sync_fields [simp]:
  "sg_socket (patch_sync sync w) = sg_socket w"
  "sg_next (patch_sync sync w) = sg_next w"
  "sg_ready (patch_sync sync w) = sg_ready w"
  "sg_stopped (patch_sync sync w) = sg_stopped w"
  "sg_welcomed (patch_sync sync w) = sg_welcomed w"
  "sg_retry (patch_sync sync w) = sg_retry w"
  "sg_retryTimer (patch_sync sync w) = sg_retryTimer w"
  "sg_inFlight (patch_sync sync w) = sg_inFlight w"
  "sg_transportSessionId (patch_sync sync w) = sg_transportSessionId w"
  "sg_historyEpoch (patch_sync sync w) = sg_historyEpoch w"
  "sg_receiving (patch_sync sync w) = sg_receiving w"
  "sg_frames (patch_sync sync w) = sg_frames w"
  "sg_runs (patch_sync sync w) = sg_runs w"
  "sg_run (patch_sync sync w) = sg_run w"
  "sg_tasks (patch_sync sync w) = sg_tasks w"
  "sg_wire (patch_sync sync w) = sg_wire w"
  "sg_online (patch_sync sync w) = sg_online w"
  "sg_auth (patch_sync sync w) = sg_auth w"
  "sg_ids (patch_sync sync w) = sg_ids w"
  "sg_now (patch_sync sync w) = sg_now w"
  "sg_ticking (patch_sync sync w) = sg_ticking w"
  "sg_ownPresence (patch_sync sync w) = sg_ownPresence w"
  "sg_draining (patch_sync sync w) = sg_draining w"
  by (simp_all add: patch_sync_def)

lemma patch_live_fields [simp]:
  "sg_socket (patch_live live w) = sg_socket w"
  "sg_next (patch_live live w) = sg_next w"
  "sg_ready (patch_live live w) = sg_ready w"
  "sg_stopped (patch_live live w) = sg_stopped w"
  "sg_welcomed (patch_live live w) = sg_welcomed w"
  "sg_retry (patch_live live w) = sg_retry w"
  "sg_retryTimer (patch_live live w) = sg_retryTimer w"
  "sg_inFlight (patch_live live w) = sg_inFlight w"
  "sg_transportSessionId (patch_live live w) = sg_transportSessionId w"
  "sg_historyEpoch (patch_live live w) = sg_historyEpoch w"
  "sg_receiving (patch_live live w) = sg_receiving w"
  "sg_frames (patch_live live w) = sg_frames w"
  "sg_runs (patch_live live w) = sg_runs w"
  "sg_run (patch_live live w) = sg_run w"
  "sg_tasks (patch_live live w) = sg_tasks w"
  "sg_wire (patch_live live w) = sg_wire w"
  "sg_online (patch_live live w) = sg_online w"
  "sg_auth (patch_live live w) = sg_auth w"
  "sg_ids (patch_live live w) = sg_ids w"
  "sg_now (patch_live live w) = sg_now w"
  "sg_ticking (patch_live live w) = sg_ticking w"
  "sg_ownPresence (patch_live live w) = sg_ownPresence w"
  "sg_draining (patch_live live w) = sg_draining w"
  by (simp_all add: patch_live_def)

lemma patch_both_fields [simp]:
  "sg_socket (patch_both sync live w) = sg_socket w"
  "sg_next (patch_both sync live w) = sg_next w"
  "sg_ready (patch_both sync live w) = sg_ready w"
  "sg_stopped (patch_both sync live w) = sg_stopped w"
  "sg_welcomed (patch_both sync live w) = sg_welcomed w"
  "sg_retry (patch_both sync live w) = sg_retry w"
  "sg_retryTimer (patch_both sync live w) = sg_retryTimer w"
  "sg_inFlight (patch_both sync live w) = sg_inFlight w"
  "sg_transportSessionId (patch_both sync live w) = sg_transportSessionId w"
  "sg_historyEpoch (patch_both sync live w) = sg_historyEpoch w"
  "sg_receiving (patch_both sync live w) = sg_receiving w"
  "sg_frames (patch_both sync live w) = sg_frames w"
  "sg_runs (patch_both sync live w) = sg_runs w"
  "sg_run (patch_both sync live w) = sg_run w"
  "sg_tasks (patch_both sync live w) = sg_tasks w"
  "sg_wire (patch_both sync live w) = sg_wire w"
  "sg_online (patch_both sync live w) = sg_online w"
  "sg_auth (patch_both sync live w) = sg_auth w"
  "sg_ids (patch_both sync live w) = sg_ids w"
  "sg_now (patch_both sync live w) = sg_now w"
  "sg_ticking (patch_both sync live w) = sg_ticking w"
  "sg_ownPresence (patch_both sync live w) = sg_ownPresence w"
  "sg_draining (patch_both sync live w) = sg_draining w"
  by (simp_all add: patch_both_def)

lemma patch_states [simp]:
  "sg_live (report w) = sg_live w" "sg_sync (report w) = sg_sync w"
  "sg_live (patch_sync sync w) = sg_live w" "sg_sync (patch_sync sync w) = sync"
  "sg_live (patch_live live w) = live" "sg_sync (patch_live live w) = sg_sync w"
  "sg_live (patch_both sync live w) = live" "sg_sync (patch_both sync live w) = sync"
  by (simp_all add: report_def patch_sync_def patch_live_def patch_both_def)

subsection \<open>Stop and wait\<close>

text \<open>
  What a transport has outstanding after a sequence of actions: an outbox frame may only be sent
  when nothing is outstanding, and only the outstanding one may be acknowledged. \<open>None\<close>: a breach.
\<close>

fun wait_step :: "nat \<Rightarrow> js_string option option \<Rightarrow> wire_action \<Rightarrow> js_string option option" where
  "wait_step s st (Sent s' (OutboxFrame m)) =
     (if s' \<noteq> s then st else if st = Some None then Some (Some m) else None)"
| "wait_step s st (Acknowledged s' m) =
     (if s' \<noteq> s then st else if st = Some (Some m) then Some None else None)"
| "wait_step s st _ = st"

definition outstanding :: "nat \<Rightarrow> wire_action list \<Rightarrow> js_string option option" where
  "outstanding s actions = foldl (wait_step s) (Some None) actions"

lemma outstanding_Nil [simp]: "outstanding s [] = Some None"
  by (simp add: outstanding_def)

lemma outstanding_snoc [simp]: "outstanding s (actions @ [a]) = wait_step s (outstanding s actions) a"
  by (simp add: outstanding_def)

fun acking :: "receiving option \<Rightarrow> js_string option" where
  "acking (Some (Acknowledging m)) = Some m"
| "acking _ = None"

text \<open>A frame in flight is outstanding, until its acknowledgement has been passed on.\<close>

fun in_step :: "js_string option \<Rightarrow> js_string option \<Rightarrow> js_string option option \<Rightarrow> bool" where
  "in_step (Some m) inFlight out = (inFlight = Some m \<and> out = Some None)"
| "in_step None inFlight out = (out = Some inFlight)"

fun owners :: "(run_owner \<times> run_phase) option \<Rightarrow> run_owner list \<Rightarrow> run_owner list" where
  "owners None runs = runs"
| "owners (Some (owner, phase)) runs = owner # runs"

definition transport_ok :: "agent \<Rightarrow> bool" where
  "transport_ok w \<longleftrightarrow>
     (sg_stopped w \<longrightarrow> sg_socket w = None)
     \<and> (\<forall>s. sg_socket w = Some s \<longrightarrow> s < sg_next w)
     \<and> (sg_welcomed w \<longrightarrow> sg_socket w \<noteq> None)"

definition outbox_ok :: "agent \<Rightarrow> bool" where
  "outbox_ok w \<longleftrightarrow>
     (\<forall>s. outstanding s (sg_wire w) \<noteq> None)
     \<and> (\<forall>s \<ge> sg_next w. outstanding s (sg_wire w) = Some None)
     \<and> (sg_socket w = None \<longrightarrow> sg_inFlight w = None)
     \<and> (\<forall>s. sg_socket w = Some s \<longrightarrow>
          in_step (acking (sg_receiving w s)) (sg_inFlight w) (outstanding s (sg_wire w)))"

definition runs_ok :: "agent \<Rightarrow> bool" where
  "runs_ok w \<longleftrightarrow>
     (\<forall>s. FrameRun s \<in> set (owners (sg_run w) (sg_runs w)) \<longrightarrow> s < sg_next w \<and> sg_receiving w s = Some AwaitingRun)
     \<and> distinct (filter (\<lambda>owner. owner \<noteq> WakeRun) (owners (sg_run w) (sg_runs w)))
     \<and> (\<forall>s. sg_receiving w s \<noteq> None \<longrightarrow> s < sg_next w)"

definition sync_ok :: "agent \<Rightarrow> bool" where
  "sync_ok w \<longleftrightarrow> transport_ok w \<and> outbox_ok w \<and> runs_ok w"

lemmas sync_defs = sync_ok_def transport_ok_def outbox_ok_def runs_ok_def

lemma sync_ok_simps [simp]:
  "sync_ok (report w) = sync_ok w"
  "sync_ok (patch_sync sync w) = sync_ok w"
  "sync_ok (patch_live live w) = sync_ok w"
  "sync_ok (patch_both sync live w) = sync_ok w"
  "sync_ok (add_task t w) = sync_ok w"
  "sync_ok (w\<lparr>sg_retryTimer := b\<rparr>) = sync_ok w"
  "sync_ok (w\<lparr>sg_retry := n\<rparr>) = sync_ok w"
  "sync_ok (w\<lparr>sg_retry := n, sg_retryTimer := b\<rparr>) = sync_ok w"
  "sync_ok (w\<lparr>sg_ready := r\<rparr>) = sync_ok w"
  "sync_ok (w\<lparr>sg_historyEpoch := e\<rparr>) = sync_ok w"
  "sync_ok (w\<lparr>sg_ownPresence := p\<rparr>) = sync_ok w"
  "sync_ok (w\<lparr>sg_ownPresenceSentAt := t'\<rparr>) = sync_ok w"
  "sync_ok (w\<lparr>sg_withdrawal := x\<rparr>) = sync_ok w"
  "sync_ok (w\<lparr>sg_revokedCheckedAt := t'\<rparr>) = sync_ok w"
  "sync_ok (w\<lparr>sg_lastHeartbeat := t'\<rparr>) = sync_ok w"
  "sync_ok (w\<lparr>sg_presence := ps\<rparr>) = sync_ok w"
  "sync_ok (w\<lparr>sg_tasks := ts\<rparr>) = sync_ok w"
  "sync_ok (w\<lparr>sg_frames := fs\<rparr>) = sync_ok w"
  "sync_ok (w\<lparr>sg_lastReceived := t', sg_frames := fs\<rparr>) = sync_ok w"
  "sync_ok (w\<lparr>sg_lastReceived := t'\<rparr>) = sync_ok w"
  "sync_ok (w\<lparr>sg_draining := ds\<rparr>) = sync_ok w"
  "sync_ok (w\<lparr>sg_online := b\<rparr>) = sync_ok w"
  "sync_ok (w\<lparr>sg_auth := b\<rparr>) = sync_ok w"
  "sync_ok (w\<lparr>sg_now := t'\<rparr>) = sync_ok w"
  "sync_ok (w\<lparr>sg_ticking := b\<rparr>) = sync_ok w"
  "sync_ok (w\<lparr>sg_inFlightSince := t'\<rparr>) = sync_ok w"
  by (simp_all add: sync_defs report_def patch_sync_def patch_live_def patch_both_def add_task_def)

lemma sync_ok_close [simp]: "sync_ok (close_socket s w) = sync_ok w"
  by (simp add: close_socket_def)

lemma sync_ok_schedule [simp]: "sync_ok (scheduleReconnect w) = sync_ok w"
  by (simp add: scheduleReconnect_def Let_def)

lemma sync_ok_refreshed [simp]: "sync_ok (refreshed n w) = sync_ok w"
  by (simp add: refreshed_def)

lemma sync_ok_presence [simp]:
  "sync_ok (sendPresence w) = sync_ok w" "sync_ok (publishPresence v w) = sync_ok w"
  "sync_ok (receivePresence e p w) = sync_ok w" "sync_ok (expirePresence w) = sync_ok w"
  by (simp_all add: sendPresence_def publishPresence_def receivePresence_def expirePresence_def Let_def
      split: option.split)

lemma sync_ok_no_socket:
  "sync_ok w \<Longrightarrow> sync_ok (w\<lparr>sg_socket := None, sg_welcomed := False, sg_inFlight := None\<rparr>)"
  by (simp add: sync_defs)

lemma sync_ok_abandon: "sync_ok w \<Longrightarrow> sync_ok (abandonSocket w)"
  by (auto simp: abandonSocket_def Let_def sync_ok_no_socket split: option.split)

lemma new_socket_ok:
  assumes ok: "sync_ok w" and none: "sg_socket w = None" "\<not> sg_stopped w"
  shows "sync_ok (w\<lparr>sg_next := sg_next w + 1, sg_socket := Some (sg_next w), sg_ready := r,
     sg_transportSessionId := ident, sg_frames := fs, sg_receiving := (sg_receiving w)(sg_next w := None),
     sg_historyEpoch := e, sg_lastReceived := t\<rparr>)" (is "sync_ok ?w")
proof -
  have "transport_ok ?w"
    using none by (simp add: transport_ok_def)
  moreover have "outbox_ok ?w"
    using ok none by (auto simp: sync_ok_def outbox_ok_def)
  moreover have "runs_ok ?w"
    using ok unfolding sync_ok_def runs_ok_def by (auto simp: less_Suc_eq)
  ultimately show ?thesis
    by (simp add: sync_ok_def)
qed

lemma connect_ok: "sync_ok w \<Longrightarrow> sync_ok (connect w)"
  using new_socket_ok [of "patch_live LiveConnecting w"] by (simp add: connect_def Let_def)

lemma transportFailed_ok: "sync_ok w \<Longrightarrow> sync_ok (transportFailed s failure w)"
  by (simp add: transportFailed_def Let_def sync_ok_abandon)

text \<open>A frame's handler that ends or goes on does not matter once its transport is given up.\<close>

lemma abandon_after_set:
  assumes "sync_ok w" "s \<notin> FrameRun -` set (owners (sg_run w) (sg_runs w))" "p \<noteq> None \<longrightarrow> s < sg_next w"
  shows "sync_ok (abandonSocket (set_receiving s p w))"
proof -
  let ?w = "(set_receiving s p w)\<lparr>sg_socket := None, sg_welcomed := False, sg_inFlight := None\<rparr>"
  have "sync_ok ?w"
    using assms by (auto simp: sync_defs set_receiving_def)
  then show ?thesis
    by (auto simp: abandonSocket_def Let_def split: option.split)
qed

lemma set_receiving_fields [simp]:
  "sg_socket (set_receiving s p w) = sg_socket w" "sg_stopped (set_receiving s p w) = sg_stopped w"
  "sg_next (set_receiving s p w) = sg_next w" "sg_inFlight (set_receiving s p w) = sg_inFlight w"
  "sg_welcomed (set_receiving s p w) = sg_welcomed w" "sg_wire (set_receiving s p w) = sg_wire w"
  "sg_run (set_receiving s p w) = sg_run w" "sg_runs (set_receiving s p w) = sg_runs w"
  "sg_receiving (set_receiving s p w) = (sg_receiving w)(s := p)" "sg_ready (set_receiving s p w) = sg_ready w"
  "sg_live (set_receiving s p w) = sg_live w" "sg_tasks (set_receiving s p w) = sg_tasks w"
  "sg_sync (set_receiving s p w) = sg_sync w" "sg_auth (set_receiving s p w) = sg_auth w"
  "sg_ticking (set_receiving s p w) = sg_ticking w" "sg_retryTimer (set_receiving s p w) = sg_retryTimer w"
  by (simp_all add: set_receiving_def)

text \<open>Changing the phase of a frame that no run belongs to, without touching an acknowledgement.\<close>

lemma set_receiving_ok:
  assumes "sync_ok w" "sg_receiving w s \<noteq> Some AwaitingRun" "p \<noteq> Some AwaitingRun"
    and "sg_socket w = Some s \<Longrightarrow> acking p = acking (sg_receiving w s)" "p \<noteq> None \<Longrightarrow> s < sg_next w"
  shows "sync_ok (set_receiving s p w)"
  using assms unfolding sync_ok_def transport_ok_def outbox_ok_def runs_ok_def by (auto split: if_splits)

lemma fail_after_set:
  assumes "sync_ok w" "sg_receiving w s \<noteq> Some AwaitingRun"
  shows "sync_ok (transportFailed s failure (set_receiving s None w))"
proof (cases "isCurrent w s")
  case True
  have "s \<notin> FrameRun -` set (owners (sg_run w) (sg_runs w))"
    using assms by (auto simp: sync_ok_def runs_ok_def)
  then show ?thesis
    using abandon_after_set [OF assms(1), of s None] True
    by (simp add: transportFailed_def Let_def isCurrent_def)
next
  case False
  then have "sg_socket w \<noteq> Some s"
    using assms(1) by (auto simp: isCurrent_def sync_ok_def transport_ok_def)
  then have "sync_ok (set_receiving s None w)"
    by (intro set_receiving_ok assms) auto
  then show ?thesis
    using False by (simp add: transportFailed_def isCurrent_def)
qed

subsection \<open>The outbox\<close>

lemma owners_snoc [simp]: "owners run (runs @ [owner]) = owners run runs @ [owner]"
  by (cases run) auto

lemma in_step_None: "in_step a None out \<longleftrightarrow> a = None \<and> out = Some None"
  by (cases a) auto

lemma wake_run_ok: "sync_ok w \<Longrightarrow> sync_ok (updateOutbox WakeRun w)"
  by (auto simp: sync_defs updateOutbox_def)

lemma await_run_ok:
  assumes "sync_ok w" "sg_receiving w s \<noteq> Some AwaitingRun" "s < sg_next w"
    and "sg_socket w = Some s \<Longrightarrow> acking (sg_receiving w s) = None"
  shows "sync_ok (set_receiving s (Some AwaitingRun) (updateOutbox (FrameRun s) w))"
  using assms unfolding sync_ok_def transport_ok_def outbox_ok_def runs_ok_def
  by (auto simp: updateOutbox_def)

lemma acked_ok:
  assumes "sync_ok w" "sg_receiving w s = Some (Acknowledging m)" "isCurrent w s"
  shows "sg_inFlight w = Some m"
    and "sync_ok (set_receiving s (Some AwaitingRun) (updateOutbox (FrameRun s) (w\<lparr>sg_inFlight := None\<rparr>)))"
proof -
  have current: "sg_socket w = Some s"
    using assms(3) by (simp add: isCurrent_def)
  then have flight: "sg_inFlight w = Some m" "outstanding s (sg_wire w) = Some None"
    using assms(1,2) by (auto simp: sync_ok_def outbox_ok_def)
  then show "sg_inFlight w = Some m"
    by simp
  show "sync_ok (set_receiving s (Some AwaitingRun) (updateOutbox (FrameRun s) (w\<lparr>sg_inFlight := None\<rparr>)))"
    using assms flight current unfolding sync_ok_def transport_ok_def outbox_ok_def runs_ok_def
    by (auto simp: updateOutbox_def)
qed

lemma run_done_fields [simp]:
  "sg_socket (run_done owner w) = sg_socket w" "sg_stopped (run_done owner w) = sg_stopped w"
  "sg_next (run_done owner w) = sg_next w" "sg_inFlight (run_done owner w) = sg_inFlight w"
  "sg_wire (run_done owner w) = sg_wire w" "sg_ready (run_done owner w) = sg_ready w"
  "sg_live (run_done owner w) = sg_live w" "sg_tasks (run_done owner w) = sg_tasks w"
  "sg_welcomed (run_done owner w) = sg_welcomed w" "sg_sync (run_done owner w) = sg_sync w"
  "sg_ticking (run_done owner w) = sg_ticking w"
  by (cases owner; simp)+

lemma run_done_ok:
  assumes "sync_ok w" "sg_run w = Some (owner, phase)"
  shows "sync_ok (run_done owner w)"
proof (cases owner)
  case (FrameRun s)
  have waiting: "sg_receiving w s = Some AwaitingRun" "FrameRun s \<notin> set (sg_runs w)"
    using assms FrameRun by (auto simp: sync_ok_def runs_ok_def)
  have runs: "distinct (filter (\<lambda>owner. owner \<noteq> WakeRun) (sg_runs w))"
    using assms FrameRun by (simp add: sync_ok_def runs_ok_def)
  have "transport_ok (run_done owner w)" "outbox_ok (run_done owner w)"
    using assms(1) waiting(1) FrameRun by (auto simp: sync_ok_def transport_ok_def outbox_ok_def)
  moreover have "runs_ok (run_done owner w)"
    using assms waiting(2) runs FrameRun by (auto simp: sync_ok_def runs_ok_def)
  ultimately show ?thesis
    by (simp add: sync_ok_def)
qed (use assms in \<open>simp add: sync_defs\<close>)

lemma run_failed_ok:
  assumes "sync_ok w" "sg_run w = Some (owner, phase)"
  shows "sync_ok (run_failed owner failure w)"
proof (cases owner)
  case WakeRun
  have "sync_ok (w\<lparr>sg_run := None\<rparr>)"
    using run_done_ok [OF assms] WakeRun by simp
  then show ?thesis
    using WakeRun sync_ok_abandon by (simp add: Let_def)
next
  case (FrameRun s)
  then show ?thesis
    using transportFailed_ok [OF run_done_ok [OF assms]] by simp
qed

lemma start_run_ok: "sync_ok w \<Longrightarrow> sync_ok (start_run w)"
proof (cases "sg_run w"; cases "sg_runs w")
  fix owner runs
  assume ok: "sync_ok w" and w: "sg_run w = None" "sg_runs w = owner # runs"
  let ?w = "w\<lparr>sg_runs := runs, sg_run := Some (owner, Refreshing)\<rparr>"
  have "sync_ok ?w"
    using ok w by (simp add: sync_defs)
  moreover have "run_done owner ?w = run_done owner (w\<lparr>sg_runs := runs\<rparr>)"
    by (cases owner) (simp_all add: set_receiving_def)
  ultimately show ?thesis
    using w run_done_ok [of ?w owner Refreshing] by (simp add: start_run_def Let_def)
qed (simp_all add: start_run_def)

lemma send_outbox_ok:
  assumes "sync_ok w" "may_flush s w"
  shows "sync_ok (send_frame s (OutboxFrame m) (w\<lparr>sg_inFlight := Some m, sg_inFlightSince := t\<rparr>))"
proof -
  have s: "sg_socket w = Some s" "acking (sg_receiving w s) = None" "outstanding s (sg_wire w) = Some None"
    "s < sg_next w"
    using assms by (auto simp: may_flush_def sync_ok_def outbox_ok_def transport_ok_def in_step_None)
  then show ?thesis
    using assms(1) unfolding sync_ok_def transport_ok_def outbox_ok_def runs_ok_def
    by (auto simp: send_frame_def)
qed

lemma run_refreshed_ok: "sync_ok w \<Longrightarrow> sync_ok (run_refreshed answer w)"
proof (cases "sg_run w")
  case (Some run)
  assume ok: "sync_ok w"
  obtain owner phase where run: "sg_run w = Some (owner, phase)"
    using Some by (cases run) auto
  have same: "sync_ok (refreshed n w)" "sg_run (refreshed n w) = Some (owner, phase)" for n
    using ok run by (simp_all add: refreshed_def)
  have reading: "sync_ok (w'\<lparr>sg_run := Some (owner, Reading s)\<rparr>)"
    if "sync_ok w'" "sg_run w' = Some (owner, phase)" for w' s
    using that by (simp add: sync_defs)
  show ?thesis
    using ok run same run_done_ok [OF same] run_failed_ok [OF ok run] reading [OF same]
    by (auto simp: run_refreshed_def Let_def split: run_phase.split sum.split option.split)
qed (simp add: run_refreshed_def)

lemma run_read_ok: "sync_ok w \<Longrightarrow> sync_ok (run_read answer w)"
proof (cases "sg_run w")
  case (Some run)
  assume ok: "sync_ok w"
  obtain owner phase where run: "sg_run w = Some (owner, phase)"
    using Some by (cases run) auto
  have sent: "sync_ok (run_done owner (send_frame s (OutboxFrame m) (w\<lparr>sg_inFlight := Some m, sg_inFlightSince := t\<rparr>)))"
    if "may_flush s w" for s m t
    using send_outbox_ok [OF ok that] run by (intro run_done_ok [of _ owner phase]) (simp_all add: send_frame_def)
  have synced: "sync_ok (run_done owner (patch_sync SyncSynced w))"
    using ok run by (intro run_done_ok [of _ owner phase]) simp_all
  show ?thesis
    using ok run run_done_ok [OF ok run] run_failed_ok [OF ok run] sent synced
    by (auto simp: run_read_def split: run_phase.split sum.split option.split)
qed (simp add: run_read_def)

subsection \<open>Frames\<close>

lemma record_import_ok:
  "sync_ok w \<Longrightarrow> sync_ok (record_action (ImportedUpdate s) w)"
  "sync_ok w \<Longrightarrow> sync_ok (record_action (ImportedReplacement s e) w)"
  by (simp_all add: sync_defs record_action_def)

fun plain_frame :: "client_frame \<Rightarrow> bool" where
  "plain_frame (OutboxFrame m) = False"
| "plain_frame _ = True"

lemma send_other_ok:
  "sync_ok w \<Longrightarrow> plain_frame frame \<Longrightarrow> sync_ok (send_frame s frame w)"
  by (cases frame) (simp_all add: sync_defs send_frame_def)

lemma send_if_open_ok:
  "sync_ok w \<Longrightarrow> plain_frame frame \<Longrightarrow> sync_ok (send_if_open s frame w)"
  by (simp add: send_if_open_def send_other_ok)

lemma record_fields [simp]:
  "sg_socket (record_action a w) = sg_socket w" "sg_next (record_action a w) = sg_next w"
  "sg_receiving (record_action a w) = sg_receiving w" "sg_stopped (record_action a w) = sg_stopped w"
  "sg_auth (record_action a w) = sg_auth w" "sg_run (record_action a w) = sg_run w"
  "sg_runs (record_action a w) = sg_runs w" "sg_ready (record_action a w) = sg_ready w"
  "sg_wire (record_action a w) = sg_wire w @ [a]" "sg_live (record_action a w) = sg_live w"
  "sg_tasks (record_action a w) = sg_tasks w" "sg_welcomed (record_action a w) = sg_welcomed w"
  by (simp_all add: record_action_def)

lemma below_next: "sync_ok w \<Longrightarrow> isCurrent w s \<Longrightarrow> s < sg_next w"
  by (auto simp: isCurrent_def sync_ok_def transport_ok_def)

lemma receiving_below: "sync_ok w \<Longrightarrow> sg_receiving w s \<noteq> None \<Longrightarrow> s < sg_next w"
  by (auto simp: sync_ok_def runs_ok_def)

lemma welcomed_ok:
  assumes "sync_ok w" "sg_receiving w s \<noteq> Some AwaitingRun" "acking (sg_receiving w s) = None"
  shows "sync_ok (welcomed s welcome w)"
proof (cases "isCurrent w s")
  case False
  then show ?thesis
    using assms by (auto simp: welcomed_def intro!: set_receiving_ok)
next
  case True
  let ?w1 = "patch_live LiveLive (w\<lparr>sg_historyEpoch := Some (wl_history_epoch welcome), sg_welcomed := True, sg_retry := 0\<rparr>)"
  let ?w2 = "if sg_ownPresence ?w1 = None then ?w1 else sendPresence ?w1"
  have "sync_ok (w\<lparr>sg_historyEpoch := Some (wl_history_epoch welcome), sg_welcomed := True, sg_retry := 0\<rparr>)"
    using assms(1) True by (auto simp: sync_defs isCurrent_def)
  then have "sync_ok ?w2"
    by simp
  moreover have "sg_receiving ?w2 = sg_receiving w" "sg_next ?w2 = sg_next w"
    by (simp_all add: sendPresence_def add_task_def split: option.split)
  ultimately have "sync_ok (set_receiving s (Some AwaitingRun) (updateOutbox (FrameRun s) ?w2))"
    using assms below_next [OF assms(1) True] by (intro await_run_ok) simp_all
  then show ?thesis
    using True by (simp add: welcomed_def Let_def)
qed

lemma take_step_ok:
  assumes "sync_ok w" "isCurrent w s" "sg_receiving w s \<noteq> Some AwaitingRun" "acking (sg_receiving w s) = None"
  shows "sync_ok (take_step s welcome step w)"
proof (cases step)
  case NothingToApply
  then show ?thesis
    using assms by (simp add: take_step_def welcomed_ok)
next
  case ApplyRemote
  have "sync_ok (set_receiving s (Some (ApplyingWelcome welcome)) (record_action (ImportedUpdate s) w))"
    using assms record_import_ok below_next by (intro set_receiving_ok) auto
  then show ?thesis
    using ApplyRemote by (simp add: take_step_def)
next
  case (ReplaceRemote e)
  have "sync_ok (set_receiving s (Some (ApplyingWelcome welcome)) (record_action (ImportedReplacement s e) w))"
    using assms record_import_ok below_next by (intro set_receiving_ok) auto
  then show ?thesis
    using ReplaceRemote by (simp add: take_step_def)
next
  case DownloadCheckpoint
  have "sync_ok (set_receiving s (Some (Downloading welcome)) w)"
    using assms below_next by (intro set_receiving_ok) auto
  then show ?thesis
    using DownloadCheckpoint assms(1,3) by (simp add: take_step_def fail_after_set)
next
  case (WelcomeFailed why)
  then show ?thesis
    using assms(1,3) by (simp add: take_step_def fail_after_set)
qed

lemma receive_error_ok: "sync_ok w \<Longrightarrow> sync_ok (receive_error code recoverable diagnostic w)"
  by (simp add: receive_error_def Let_def sync_ok_abandon split: option.split)

lemma ack_sent_ok:
  assumes "sync_ok w" "isCurrent w s" "sg_receiving w s = None" "sg_inFlight w = Some m"
  shows "sync_ok (set_receiving s (Some (Acknowledging m)) (record_action (Acknowledged s m) w))"
proof -
  have s: "sg_socket w = Some s" "outstanding s (sg_wire w) = Some (Some m)" "s < sg_next w"
    using assms by (auto simp: isCurrent_def sync_ok_def outbox_ok_def transport_ok_def)
  then show ?thesis
    using assms unfolding sync_ok_def transport_ok_def outbox_ok_def runs_ok_def
    by (auto simp: record_action_def)
qed

lemma update_received_ok:
  assumes "sync_ok w" "isCurrent w s" "sg_receiving w s = None"
  shows "sync_ok (set_receiving s (Some ApplyingUpdate) (record_action (ImportedUpdate s) w))"
  using assms below_next [OF assms(1,2)] by (intro set_receiving_ok record_import_ok) auto

lemma receive_decoded_ok:
  assumes "sync_ok w0" "sg_receiving w0 s = Some (Decoding decoded)"
  shows "sync_ok (receive_decoded s decoded w0)"
proof -
  let ?w = "set_receiving s None w0"
  have ok: "sync_ok ?w"
    using assms by (intro set_receiving_ok) auto
  have none: "sg_receiving ?w s = None"
    by simp
  have abandon: "sync_ok (abandonSocket ?w)"
    using ok by (rule sync_ok_abandon)
  show ?thesis
  proof (cases decoded)
    case None
    then show ?thesis
      using transportFailed_ok [OF ok] by (simp add: receive_decoded_def Let_def)
  next
    case (Some message)
    show ?thesis
    proof (cases "isCurrent ?w s")
      case False
      then show ?thesis
        using Some ok by (simp add: receive_decoded_def Let_def)
    next
      case True
      note step = take_step_ok [OF ok True] ack_sent_ok [OF ok True none]
        update_received_ok [OF ok True none] transportFailed_ok [OF ok] abandon receive_error_ok [OF ok] ok
      show ?thesis
        using Some True step none
        by (cases message) (auto simp: receive_decoded_def Let_def simp del: set_receiving_fields(9))
    qed
  qed
qed

lemma receive_resumed_ok:
  assumes ok: "sync_ok w"
  shows "sync_ok (receive_resumed s answer w)"
proof (cases "sg_receiving w s")
  case None
  then show ?thesis
    using ok by (simp add: receive_resumed_def)
next
  case (Some phase)
  have ended: "sync_ok (set_receiving s None w)" if "\<not> isCurrent w s" "phase \<noteq> AwaitingRun"
    using that Some ok by (intro set_receiving_ok) (auto simp: isCurrent_def sync_ok_def transport_ok_def)
  have failed: "sync_ok (transportFailed s failure (set_receiving s None w))" if "phase \<noteq> AwaitingRun" for failure
    using ok Some that by (intro fail_after_set) auto
  show ?thesis
  proof (cases phase)
    case (Decoding decoded)
    then show ?thesis
      using receive_decoded_ok [OF ok] Some by (simp add: receive_resumed_def)
  next
    case (Downloading wl)
    then show ?thesis
      using Some ended failed take_step_ok [OF ok, of s wl]
      by (cases answer) (auto simp: receive_resumed_def ok)
  next
    case (ApplyingWelcome wl)
    then show ?thesis
      using Some failed welcomed_ok [OF ok, of s wl]
      by (cases answer) (auto simp: receive_resumed_def ok)
  next
    case ApplyingUpdate
    have "sync_ok (set_receiving s None w)"
      using ok Some ApplyingUpdate by (intro set_receiving_ok) auto
    then show ?thesis
      using Some ApplyingUpdate failed by (cases answer) (auto simp: receive_resumed_def ok)
  next
    case (Acknowledging m)
    then show ?thesis
      using Some ended failed acked_ok [OF ok, of s m]
      by (cases answer) (auto simp: receive_resumed_def ok)
  next
    case AwaitingRun
    then show ?thesis
      using Some ok by (simp add: receive_resumed_def)
  qed
qed

subsection \<open>Every event\<close>

lemma resume_ok: "sync_ok w \<Longrightarrow> sync_ok (resume w)"
  by (simp add: resume_def sync_ok_abandon)

lemma failToStart_ok: "sync_ok w \<Longrightarrow> sync_ok (failToStart failure w)"
  by (simp add: failToStart_def)

lemma stop_ok: "sync_ok w \<Longrightarrow> sync_ok (stop_agent w)"
proof -
  assume ok: "sync_ok w"
  let ?w = "w\<lparr>sg_stopped := True, sg_retryTimer := False, sg_ticking := False,
     sg_socket := None, sg_welcomed := False, sg_inFlight := None\<rparr>"
  have "sync_ok ?w"
    using ok by (auto simp: sync_defs)
  then show "sync_ok (stop_agent w)"
    by (auto simp: stop_agent_def abandonSocket_def Let_def split: option.split)
qed

lemma task_resumed_ok: "sync_ok w \<Longrightarrow> sync_ok (task_resumed t answer w)"
  by (induction t answer w rule: task_resumed.induct)
    (simp_all add: Let_def failToStart_ok connect_ok transportFailed_ok send_if_open_ok resume_ok)

lemma maintain_ok: "sync_ok w \<Longrightarrow> sync_ok (maintainConnectivity w)"
  by (auto simp: maintainConnectivity_def Let_def recheckAccess_def heartbeat_def
      transportFailed_ok sync_ok_abandon connect_ok split: option.split)

lemma tick_ok: "sync_ok w \<Longrightarrow> sync_ok (tick w)"
  by (simp add: tick_def Let_def maintain_ok)

lemma next_frame_ok: "sync_ok w \<Longrightarrow> sync_ok (next_frame s w)"
proof (cases "sg_receiving w s"; cases "sg_frames w s")
  fix frame frames
  assume ok: "sync_ok w" and w: "sg_receiving w s = None" "sg_frames w s = frame # frames"
  let ?w = "w\<lparr>sg_frames := (sg_frames w)(s := frames)\<rparr>"
  have "sync_ok (set_receiving s (Some (Decoding frame)) ?w)" if "isCurrent ?w s"
    using ok w below_next [of ?w s] that by (intro set_receiving_ok) auto
  then show "sync_ok (next_frame s w)"
    using ok w by (simp add: next_frame_def Let_def)
qed (simp_all add: next_frame_def)

lemma drained_ok: "sync_ok w \<Longrightarrow> sync_ok (drained s w)"
  by (simp add: drained_def Let_def sync_ok_abandon)

lemma agent_step_ok: "sync_ok w \<Longrightarrow> sync_ok (agent_step event w)"
  by (cases event)
    (simp_all add: stop_ok wake_def wake_run_ok onPageHide_def send_other_ok onOnline_def onOffline_def
      sync_ok_abandon connect_ok resume_ok recheckAccess_def tick_ok retry_fires_def socket_opened_def
      socket_message_def socket_closed_def next_frame_ok receive_resumed_ok drained_ok start_run_ok
      run_refreshed_ok run_read_ok resume_task_def task_resumed_ok Let_def split: option.split)

lemma sync_ok_start: "sync_ok (start_agent (new_agent online auth ids))"
  by (simp add: start_agent_def new_agent_def add_task_def sync_defs)

lemma agent_run_ok: "sync_ok (agent_run online auth ids events)"
proof -
  have "sync_ok w \<Longrightarrow> sync_ok (fold agent_step events w)" for w
    by (induction events arbitrary: w) (simp_all add: agent_step_ok)
  then show ?thesis
    by (simp add: agent_run_def sync_ok_start)
qed

subsection \<open>What is sent, and where\<close>

fun action_socket :: "wire_action \<Rightarrow> nat" where
  "action_socket (Sent s frame) = s"
| "action_socket (Acknowledged s m) = s"
| "action_socket (ImportedUpdate s) = s"
| "action_socket (ImportedReplacement s e) = s"

fun is_sent :: "wire_action \<Rightarrow> bool" where
  "is_sent (Sent s frame) = True"
| "is_sent _ = False"

fun is_outbox :: "wire_action \<Rightarrow> bool" where
  "is_outbox (Sent s (OutboxFrame m)) = True"
| "is_outbox _ = False"

text \<open>An action of the current transport of a running agent.\<close>

definition proper_action :: "agent \<Rightarrow> wire_action \<Rightarrow> bool" where
  "proper_action w action \<longleftrightarrow>
     isCurrent w (action_socket action)
     \<and> (is_sent action \<longrightarrow> sg_ready w (action_socket action) = Open)
     \<and> (is_outbox action \<longrightarrow> sg_welcomed w \<and> sg_inFlight w \<noteq> None)"

text \<open>What a step adds to the record.\<close>

definition adds :: "agent \<Rightarrow> agent \<Rightarrow> bool" where
  "adds w w' \<longleftrightarrow> (\<exists>new. sg_wire w' = sg_wire w @ new \<and> list_all (proper_action w') new)"

lemma adds_same: "sg_wire w' = sg_wire w \<Longrightarrow> adds w w'"
  by (simp add: adds_def)

lemma adds_one: "sg_wire w' = sg_wire w @ [a] \<Longrightarrow> proper_action w' a \<Longrightarrow> adds w w'"
  by (simp add: adds_def)

lemma wire_fields [simp]:
  "sg_wire (add_task t w) = sg_wire w" "sg_wire (close_socket s w) = sg_wire w"
  "sg_wire (abandonSocket w) = sg_wire w" "sg_wire (scheduleReconnect w) = sg_wire w"
  "sg_wire (connect w) = sg_wire w" "sg_wire (transportFailed s f w) = sg_wire w"
  "sg_wire (failToStart f w) = sg_wire w" "sg_wire (refreshed n w) = sg_wire w"
  "sg_wire (resume w) = sg_wire w" "sg_wire (sendPresence w) = sg_wire w"
  "sg_wire (publishPresence v w) = sg_wire w" "sg_wire (receivePresence e p w) = sg_wire w"
  "sg_wire (expirePresence w) = sg_wire w" "sg_wire (updateOutbox owner w) = sg_wire w"
  "sg_wire (run_failed owner f w) = sg_wire w" "sg_wire (welcomed s wl w) = sg_wire w"
  "sg_wire (receive_error c r d w) = sg_wire w" "sg_wire (maintainConnectivity w) = sg_wire w"
  "sg_wire (tick w) = sg_wire w" "sg_wire (start_run w) = sg_wire w"
proof -
  show [simp]: "sg_wire (add_task t w) = sg_wire w" for t w by (simp add: add_task_def)
  show [simp]: "sg_wire (close_socket s w) = sg_wire w" for s w by (simp add: close_socket_def)
  show [simp]: "sg_wire (abandonSocket w) = sg_wire w" for w
    by (simp add: abandonSocket_def Let_def split: option.split)
  show [simp]: "sg_wire (scheduleReconnect w) = sg_wire w" for w by (simp add: scheduleReconnect_def Let_def)
  show [simp]: "sg_wire (connect w) = sg_wire w" for w by (simp add: connect_def Let_def)
  show [simp]: "sg_wire (transportFailed s f w) = sg_wire w" for s f w by (simp add: transportFailed_def Let_def)
  show "sg_wire (failToStart f w) = sg_wire w" by (simp add: failToStart_def)
  show "sg_wire (refreshed n w) = sg_wire w" by (simp add: refreshed_def)
  show "sg_wire (resume w) = sg_wire w" by (simp add: resume_def)
  show [simp]: "sg_wire (sendPresence w) = sg_wire w" for w by (simp add: sendPresence_def split: option.split)
  show "sg_wire (publishPresence v w) = sg_wire w" by (simp add: publishPresence_def)
  show "sg_wire (receivePresence e p w) = sg_wire w"
    by (simp add: receivePresence_def Let_def split: option.split)
  show [simp]: "sg_wire (expirePresence w) = sg_wire w" for w by (simp add: expirePresence_def Let_def)
  show [simp]: "sg_wire (updateOutbox owner w) = sg_wire w" for owner w by (simp add: updateOutbox_def)
  show "sg_wire (run_failed owner f w) = sg_wire w" by (cases owner) (simp_all add: Let_def)
  show "sg_wire (welcomed s wl w) = sg_wire w" by (simp add: welcomed_def Let_def)
  show "sg_wire (receive_error c r d w) = sg_wire w"
    by (simp add: receive_error_def Let_def split: option.split)
  show [simp]: "sg_wire (maintainConnectivity w) = sg_wire w" for w
    by (simp add: maintainConnectivity_def recheckAccess_def heartbeat_def Let_def split: option.split)
  show "sg_wire (tick w) = sg_wire w" by (simp add: tick_def Let_def)
  show "sg_wire (start_run w) = sg_wire w" by (simp add: start_run_def Let_def split: option.split list.split)
qed

lemma isCurrent_set [simp]: "isCurrent (set_receiving s p w) s' = isCurrent w s'"
  "isCurrent (record_action a w) s' = isCurrent w s'"
  by (simp_all add: isCurrent_def)

lemma adds_add_task [simp]: "adds w0 (add_task t w) = adds w0 w"
  by (simp add: adds_def proper_action_def [abs_def] isCurrent_def add_task_def)

lemma import_adds:
  "isCurrent w s \<Longrightarrow> adds w (set_receiving s p (record_action (ImportedUpdate s) w))"
  "isCurrent w s \<Longrightarrow> adds w (set_receiving s p (record_action (ImportedReplacement s e) w))"
  by (simp_all add: adds_def proper_action_def)

lemma take_step_adds: "isCurrent w s \<Longrightarrow> adds w (take_step s wl step w)"
  by (cases step) (simp_all add: take_step_def adds_same import_adds)

lemma adds_trans_same: "adds w w' \<Longrightarrow> sg_wire w = sg_wire w0 \<Longrightarrow> adds w0 w'"
  by (simp add: adds_def)

lemma receive_decoded_adds: "adds w (receive_decoded s decoded w)"
proof -
  let ?w = "set_receiving s None w"
  have step: "adds w (take_step s wl step ?w)" if "isCurrent w s" for wl step
    using take_step_adds [of ?w s wl step] that by (auto intro: adds_trans_same)
  have ack: "adds w (set_receiving s (Some (Acknowledging m)) (record_action (Acknowledged s m) ?w))"
    if "isCurrent w s" for m
    using that by (intro adds_one [of _ _ "Acknowledged s m"]) (simp_all add: proper_action_def)
  have update: "adds w (set_receiving s (Some ApplyingUpdate) (record_action (ImportedUpdate s) ?w))"
    if "isCurrent w s"
    using that by (intro adds_one [of _ _ "ImportedUpdate s"]) (simp_all add: proper_action_def)
  show ?thesis
  proof (cases decoded)
    case None
    then show ?thesis
      by (simp add: receive_decoded_def Let_def adds_same)
  next
    case (Some message)
    show ?thesis
    proof (cases "isCurrent w s")
      case False
      then show ?thesis
        using Some by (simp add: receive_decoded_def Let_def adds_same)
    next
      case True
      then show ?thesis
        using Some step [OF True] ack [OF True] update [OF True]
        by (cases message) (simp_all add: receive_decoded_def Let_def adds_same)
    qed
  qed
qed

lemma receive_resumed_adds: "adds w (receive_resumed s answer w)"
  using receive_decoded_adds [of w s] take_step_adds [of w s]
  by (cases "sg_receiving w s"; cases "the (sg_receiving w s)"; cases answer)
    (auto simp: receive_resumed_def adds_same)

lemma send_if_open_adds: "plain_frame frame \<Longrightarrow> adds w (send_if_open s frame w)"
  by (cases frame) (auto simp: send_if_open_def send_frame_def adds_def proper_action_def isCurrent_def)

lemma run_read_adds: "adds w (run_read answer w)"
proof -
  have "adds w (run_done owner (send_frame s (OutboxFrame m) (w\<lparr>sg_inFlight := Some m, sg_inFlightSince := t\<rparr>)))"
    if "may_flush s w" "\<not> sg_stopped w" for owner s m t
    using that by (intro adds_one [of _ _ "Sent s (OutboxFrame m)"])
      (auto simp: send_frame_def proper_action_def isCurrent_def may_flush_def)
  then show ?thesis
    by (auto simp: run_read_def adds_same split: option.split run_phase.split sum.split)
qed

lemma run_refreshed_adds: "adds w (run_refreshed answer w)"
  by (auto simp: run_refreshed_def Let_def adds_same split: option.split run_phase.split sum.split)

lemma task_resumed_adds: "adds w (task_resumed t answer w)"
proof (induction t answer w rule: task_resumed.induct)
  case (13 s ident v w)
  then show ?case
    using send_if_open_adds [of "PresenceFrame ident v" w s] by (simp add: Let_def)
qed (simp_all add: adds_same send_if_open_adds)

lemma page_hide_adds: "sync_ok w \<Longrightarrow> adds w (onPageHide w)"
proof -
  assume ok: "sync_ok w"
  have "adds w (send_frame s (PresenceFrame ident None) w)" if "sg_socket w = Some s" "sg_ready w s = Open" for s ident
    using that ok by (intro adds_one [of _ _ "Sent s (PresenceFrame ident None)"])
      (auto simp: send_frame_def proper_action_def isCurrent_def sync_ok_def transport_ok_def)
  then show ?thesis
    by (auto simp: onPageHide_def adds_same split: option.split)
qed

lemma agent_step_adds: "sync_ok w \<Longrightarrow> adds w (agent_step event w)"
proof (cases event)
  case (TaskEvent i answer)
  let ?w = "w\<lparr>sg_tasks := take i (sg_tasks w) @ drop (i + 1) (sg_tasks w)\<rparr>"
  have "adds ?w (task_resumed (sg_tasks w ! i) answer ?w)"
    by (rule task_resumed_adds)
  then show ?thesis
    using TaskEvent by (auto simp: resume_task_def adds_same intro: adds_trans_same)
qed (simp_all add: adds_same stop_agent_def wake_def page_hide_adds onOnline_def onOffline_def recheckAccess_def
    retry_fires_def socket_opened_def socket_message_def socket_closed_def next_frame_def receive_resumed_adds
    drained_def run_refreshed_adds run_read_adds Let_def split: option.split list.split)

text \<open>
  C39. The outbox is sent stop-and-wait and only on the live transport: in every run, on each transport
  every outbox frame follows the acknowledgement of the one before it and only the frame
  outstanding there is acknowledged to the outbox; whatever an event adds belongs to the current
  transport of an agent that is not stopped, frames go out only while it is open, and outbox
  frames only after its Welcome. A stopped agent has no transport.
\<close>

theorem outbox_stop_and_wait:
  assumes "w = agent_run online auth ids events"
  shows "(\<forall>s. outstanding s (sg_wire w) \<noteq> None)
     \<and> (sg_stopped w \<longrightarrow> sg_socket w = None)
     \<and> (\<exists>new. sg_wire (agent_step event w) = sg_wire w @ new
            \<and> list_all (proper_action (agent_step event w)) new)"
proof -
  have ok: "sync_ok w"
    by (simp add: assms agent_run_ok)
  then have "adds w (agent_step event w)"
    by (rule agent_step_adds)
  then show ?thesis
    using ok by (simp add: adds_def sync_ok_def outbox_ok_def transport_ok_def)
qed

subsection \<open>Recovery\<close>

definition bootstrapping :: "agent \<Rightarrow> bool" where
  "bootstrapping w \<longleftrightarrow> {StartRefresh, StartValidate, ResumeRefresh} \<inter> set (sg_tasks w) \<noteq> {}"

definition not_stranded :: "agent \<Rightarrow> bool" where
  "not_stranded w \<longleftrightarrow>
     sg_stopped w \<or> sg_socket w \<noteq> None \<or> sg_live w = LivePaused \<or> sg_live w = LiveOffline \<or> bootstrapping w"

text \<open>A step that leaves the connection as it is and only adds tasks.\<close>

definition keeps :: "agent \<Rightarrow> agent \<Rightarrow> bool" where
  "keeps w w' \<longleftrightarrow>
     sg_stopped w' = sg_stopped w \<and> sg_socket w' = sg_socket w \<and> sg_live w' = sg_live w
     \<and> sg_ticking w' = sg_ticking w \<and> set (sg_tasks w) \<subseteq> set (sg_tasks w')"

lemma not_stranded_keeps: "keeps w w' \<Longrightarrow> not_stranded w \<Longrightarrow> not_stranded w'"
  by (auto simp: keeps_def not_stranded_def bootstrapping_def)

lemma keeps_refl [simp]: "keeps w w"
  by (simp add: keeps_def)

lemma keeps_trans: "keeps w w' \<Longrightarrow> keeps w' w'' \<Longrightarrow> keeps w w''"
  by (auto simp: keeps_def)

lemma not_stranded_socket: "sg_socket w \<noteq> None \<Longrightarrow> not_stranded w"
  by (simp add: not_stranded_def)

lemma not_stranded_paused: "sg_live w = LivePaused \<Longrightarrow> not_stranded w"
  by (simp add: not_stranded_def)

lemma close_socket_fields [simp]:
  "sg_stopped (close_socket s w) = sg_stopped w" "sg_socket (close_socket s w) = sg_socket w"
  "sg_live (close_socket s w) = sg_live w" "sg_tasks (close_socket s w) = sg_tasks w"
  "sg_ticking (close_socket s w) = sg_ticking w"
  by (simp_all add: close_socket_def)

lemma abandonSocket_fields [simp]:
  "sg_stopped (abandonSocket w) = sg_stopped w" "sg_socket (abandonSocket w) = None"
  "sg_live (abandonSocket w) = sg_live w" "sg_tasks (abandonSocket w) = sg_tasks w"
  "sg_ticking (abandonSocket w) = sg_ticking w"
  by (simp_all add: abandonSocket_def Let_def split: option.split)

lemma schedule_recovers [simp]: "not_stranded (scheduleReconnect w)"
  by (simp add: scheduleReconnect_def not_stranded_def Let_def)

lemma connect_recovers [simp]: "not_stranded (connect w)"
  by (simp add: connect_def Let_def) (simp add: not_stranded_def)

lemma resume_recovers [simp]: "not_stranded (resume w)"
  by (simp add: resume_def add_task_def not_stranded_def bootstrapping_def)

lemma failToStart_recovers [simp]: "not_stranded (failToStart failure w)"
  by (simp add: failToStart_def) (simp add: not_stranded_def)

lemma stop_recovers [simp]: "not_stranded (stop_agent w)"
  by (simp add: stop_agent_def not_stranded_def)

lemma transportFailed_recovers: "not_stranded w \<Longrightarrow> not_stranded (transportFailed s failure w)"
  by (simp add: transportFailed_def Let_def not_stranded_paused)

lemma not_stranded_simps [simp]:
  "not_stranded (set_receiving s p w) = not_stranded w" "not_stranded (record_action a w) = not_stranded w"
  "not_stranded (report w) = not_stranded w" "not_stranded (patch_sync sync w) = not_stranded w"
  "not_stranded (updateOutbox owner w) = not_stranded w" "not_stranded (close_socket s w) = not_stranded w"
  "not_stranded (run_done owner w) = not_stranded w" "not_stranded (send_frame s frame w) = not_stranded w"
  "not_stranded (refreshed n w) = not_stranded w" "not_stranded (receivePresence e peer w) = not_stranded w"
  "not_stranded (expirePresence w) = not_stranded w" "not_stranded (send_if_open s frame w) = not_stranded w"
proof -
  show [simp]: "not_stranded (report w) = not_stranded w" for w
    by (simp add: not_stranded_def bootstrapping_def)
  show [simp]: "not_stranded (patch_sync sync w) = not_stranded w" for w
    by (simp add: not_stranded_def bootstrapping_def)
  show [simp]: "not_stranded (send_frame s frame w) = not_stranded w" for w
    by (simp add: not_stranded_def bootstrapping_def send_frame_def)
  show "not_stranded (send_if_open s frame w) = not_stranded w"
    by (simp add: send_if_open_def)
  show "not_stranded (refreshed n w) = not_stranded w"
    by (simp add: refreshed_def) (simp add: not_stranded_def bootstrapping_def)
  show "not_stranded (expirePresence w) = not_stranded w" "not_stranded (receivePresence e peer w) = not_stranded w"
    by (auto simp: expirePresence_def receivePresence_def Let_def not_stranded_def bootstrapping_def split: option.split)
qed (simp_all add: not_stranded_def bootstrapping_def record_action_def updateOutbox_def)

lemma sendPresence_keeps: "keeps w (sendPresence w)"
  by (auto simp: keeps_def sendPresence_def add_task_def split: option.split)

lemma add_task_keeps: "keeps w (add_task t w)"
  by (auto simp: keeps_def add_task_def)

lemma welcomed_recovers: "not_stranded w \<Longrightarrow> not_stranded (welcomed s wl w)"
proof (cases "isCurrent w s")
  case True
  let ?w1 = "patch_live LiveLive (w\<lparr>sg_historyEpoch := Some (wl_history_epoch wl), sg_welcomed := True, sg_retry := 0\<rparr>)"
  have "not_stranded ?w1"
    using True by (simp add: isCurrent_def not_stranded_socket)
  then show ?thesis
    using True not_stranded_keeps [OF sendPresence_keeps] by (simp add: welcomed_def Let_def)
qed (simp add: welcomed_def)

lemma take_step_recovers: "not_stranded w \<Longrightarrow> not_stranded (take_step s wl step w)"
  by (cases step) (simp_all add: take_step_def welcomed_recovers transportFailed_recovers)

lemma receive_error_recovers: "not_stranded w \<Longrightarrow> not_stranded (receive_error c r d w)"
  by (auto simp: receive_error_def Let_def not_stranded_paused split: option.split)

lemma receive_decoded_recovers: "not_stranded w \<Longrightarrow> not_stranded (receive_decoded s decoded w)"
  by (auto simp: receive_decoded_def Let_def transportFailed_recovers take_step_recovers receive_error_recovers
      split: option.split server_message.split)

lemma receive_resumed_recovers: "not_stranded w \<Longrightarrow> not_stranded (receive_resumed s answer w)"
  by (cases "sg_receiving w s"; cases "the (sg_receiving w s)"; cases answer)
    (auto simp: receive_resumed_def receive_decoded_recovers transportFailed_recovers take_step_recovers
      welcomed_recovers, auto simp: not_stranded_def bootstrapping_def)

lemma run_failed_recovers: "not_stranded w \<Longrightarrow> not_stranded (run_failed owner failure w)"
proof (cases owner)
  case WakeRun
  assume "not_stranded w"
  then have "not_stranded (w\<lparr>sg_run := None\<rparr>)"
    by (simp add: not_stranded_def bootstrapping_def)
  then show ?thesis
    using WakeRun by (simp add: Let_def)
next
  case (FrameRun s)
  assume "not_stranded w"
  then have "not_stranded (w\<lparr>sg_run := None\<rparr>)"
    by (simp add: not_stranded_def bootstrapping_def)
  then show ?thesis
    using FrameRun by (simp add: transportFailed_recovers)
qed

lemma keeps_updates [simp]:
  "keeps w (w\<lparr>sg_run := r\<rparr>)" "keeps w (w\<lparr>sg_runs := rs\<rparr>)" "keeps w (w\<lparr>sg_inFlight := m, sg_inFlightSince := t\<rparr>)"
  "keeps w (w\<lparr>sg_retryTimer := b\<rparr>)" "keeps w (w\<lparr>sg_ready := rd\<rparr>)" "keeps w (w\<lparr>sg_draining := ds\<rparr>)"
  "keeps w (w\<lparr>sg_online := b\<rparr>)" "keeps w (w\<lparr>sg_auth := b\<rparr>)" "keeps w (w\<lparr>sg_now := t\<rparr>)"
  "keeps w (w\<lparr>sg_frames := fs\<rparr>)" "keeps w (w\<lparr>sg_lastReceived := t, sg_frames := fs\<rparr>)"
  "keeps w (w\<lparr>sg_lastHeartbeat := t\<rparr>)" "keeps w (w\<lparr>sg_revokedCheckedAt := t\<rparr>)" "keeps w (w\<lparr>sg_ownPresence := p\<rparr>)"
  "keeps w (w\<lparr>sg_withdrawal := x\<rparr>)" "keeps w (w\<lparr>sg_historyEpoch := e\<rparr>)" "keeps w (w\<lparr>sg_lastReceived := t\<rparr>)"
  "keeps w (w\<lparr>sg_inFlight := m\<rparr>)"
  by (simp_all add: keeps_def)

lemma run_refreshed_recovers: "not_stranded w \<Longrightarrow> not_stranded (run_refreshed answer w)"
proof -
  assume ok: "not_stranded w"
  have "not_stranded ((refreshed n w)\<lparr>sg_run := r\<rparr>)" for n r
    using ok by (intro not_stranded_keeps [OF keeps_updates(1)]) simp
  then show ?thesis
    using ok by (auto simp: run_refreshed_def Let_def run_failed_recovers
        split: option.split run_phase.split sum.split)
qed

lemma run_read_recovers: "not_stranded w \<Longrightarrow> not_stranded (run_read answer w)"
proof -
  assume ok: "not_stranded w"
  have "not_stranded (w\<lparr>sg_inFlight := m, sg_inFlightSince := t\<rparr>)" for m t
    using ok by (rule not_stranded_keeps [OF keeps_updates(3)])
  then show ?thesis
    using ok by (auto simp: run_read_def run_failed_recovers split: option.split run_phase.split sum.split)
qed

lemma start_run_recovers: "not_stranded w \<Longrightarrow> not_stranded (start_run w)"
proof -
  assume ok: "not_stranded w"
  have "not_stranded (w\<lparr>sg_runs := rs\<rparr>)" "not_stranded (w\<lparr>sg_runs := rs, sg_run := r\<rparr>)" for rs r
    using ok by (auto simp: not_stranded_def bootstrapping_def)
  then show ?thesis
    using ok by (auto simp: start_run_def Let_def split: option.split list.split)
qed

lemma recheck_keeps: "keeps w (recheckAccess w)"
  by (auto simp: recheckAccess_def Let_def intro: keeps_trans [OF keeps_updates(13) add_task_keeps])

lemma heartbeat_keeps: "keeps w (heartbeat w)"
  by (auto simp: heartbeat_def intro: keeps_trans [OF keeps_updates(12) add_task_keeps] split: option.split)

lemma maintain_recovers: "not_stranded w \<Longrightarrow> not_stranded (maintainConnectivity w)"
  using not_stranded_keeps [OF recheck_keeps] not_stranded_keeps [OF heartbeat_keeps]
  by (auto simp: maintainConnectivity_def Let_def transportFailed_recovers split: option.split)

lemma tick_recovers: "not_stranded w \<Longrightarrow> not_stranded (tick w)"
  using not_stranded_keeps [OF sendPresence_keeps, of "expirePresence w"]
  by (simp add: tick_def Let_def maintain_recovers)

lemma publish_recovers: "not_stranded w \<Longrightarrow> not_stranded (publishPresence v w)"
  using not_stranded_keeps [OF keeps_trans [OF keeps_updates(14) sendPresence_keeps]]
  by (simp add: publishPresence_def)

text \<open>The tasks that lead to a connection end in one of the states that recover.\<close>

lemma boot_task_recovers:
  "t \<in> {StartRefresh, StartValidate, ResumeRefresh} \<Longrightarrow> answers t answer \<Longrightarrow> not_stranded (task_resumed t answer w)"
  by (cases answer)
    (auto simp: not_stranded_paused,
      auto simp: not_stranded_def bootstrapping_def add_task_def)

lemma other_task_recovers:
  "t \<notin> {StartRefresh, StartValidate, ResumeRefresh} \<Longrightarrow> not_stranded w \<Longrightarrow> not_stranded (task_resumed t answer w)"
proof (induction t answer w rule: task_resumed.induct)
  case (7 s ident pending epoch w)
  then show ?case
    using not_stranded_keeps [OF keeps_trans [OF keeps_updates(16) add_task_keeps]] by simp
next
  case (13 s ident v w)
  then show ?case
    using not_stranded_keeps [OF add_task_keeps] by (simp add: Let_def)
next
  case (14 s ident w)
  then show ?case
    using not_stranded_keeps [OF keeps_updates(15)] by simp
qed (simp_all add: transportFailed_recovers)

lemma resume_task_recovers:
  assumes "not_stranded w"
  shows "not_stranded (resume_task i answer w)"
proof (cases "i < length (sg_tasks w) \<and> answers (sg_tasks w ! i) answer")
  case True
  let ?t = "sg_tasks w ! i"
  let ?w = "w\<lparr>sg_tasks := take i (sg_tasks w) @ drop (i + 1) (sg_tasks w)\<rparr>"
  show ?thesis
  proof (cases "?t \<in> {StartRefresh, StartValidate, ResumeRefresh}")
    case True
    then show ?thesis
      using \<open>i < length (sg_tasks w) \<and> answers ?t answer\<close> boot_task_recovers by (simp add: resume_task_def)
  next
    case False
    have "sg_tasks w = take i (sg_tasks w) @ ?t # drop (i + 1) (sg_tasks w)"
      using True id_take_nth_drop by fastforce
    then have "set (sg_tasks w) = insert ?t (set (take i (sg_tasks w) @ drop (i + 1) (sg_tasks w)))"
      by (metis list.simps(15) set_append Un_insert_right)
    then have "not_stranded ?w"
      using assms False by (auto simp: not_stranded_def bootstrapping_def)
    then show ?thesis
      using True False other_task_recovers by (simp add: resume_task_def)
  qed
qed (use assms in \<open>auto simp: resume_task_def\<close>)

lemma page_hide_recovers: "not_stranded w \<Longrightarrow> not_stranded (onPageHide w)"
  by (simp add: onPageHide_def split: option.split)

lemma next_frame_recovers: "not_stranded w \<Longrightarrow> not_stranded (next_frame s w)"
  using not_stranded_keeps [OF keeps_updates(10)]
  by (auto simp: next_frame_def Let_def split: option.split list.split)

lemma drained_recovers: "not_stranded w \<Longrightarrow> not_stranded (drained s w)"
  using not_stranded_keeps [OF keeps_updates(6)]
  by (auto simp: drained_def Let_def not_stranded_paused)

lemma socket_events_recover:
  "not_stranded w \<Longrightarrow> not_stranded (socket_opened s w)"
  "not_stranded w \<Longrightarrow> not_stranded (socket_message s frame w)"
  "not_stranded w \<Longrightarrow> not_stranded (socket_closed s w)"
  using not_stranded_keeps [OF keeps_trans [OF keeps_updates(5) add_task_keeps]]
    not_stranded_keeps [OF keeps_updates(11)] not_stranded_keeps [OF keeps_updates(5)]
    not_stranded_keeps [OF keeps_trans [OF keeps_updates(5) keeps_updates(6)]]
  by (auto simp: socket_opened_def socket_message_def socket_closed_def Let_def)

lemma retry_recovers: "not_stranded w \<Longrightarrow> not_stranded (retry_fires w)"
  using not_stranded_keeps [OF keeps_updates(4)] by (auto simp: retry_fires_def Let_def)

lemma agent_step_recovers: "not_stranded w \<Longrightarrow> not_stranded (agent_step event w)"
proof (cases event)
  case OnlineEvent
  assume "not_stranded w"
  then have "not_stranded (w\<lparr>sg_online := True\<rparr>)" by (rule not_stranded_keeps [OF keeps_updates(7)])
  then show ?thesis using OnlineEvent by (simp add: onOnline_def Let_def)
next
  case OfflineEvent
  assume "not_stranded w"
  then have "not_stranded (w\<lparr>sg_online := False\<rparr>)" by (rule not_stranded_keeps [OF keeps_updates(7)])
  then show ?thesis using OfflineEvent by (simp add: onOffline_def Let_def)
qed (use not_stranded_keeps [OF recheck_keeps, of w] not_stranded_keeps [OF keeps_updates(8), of w]
    not_stranded_keeps [OF keeps_updates(9), of w] in
  \<open>simp_all add: wake_def publish_recovers page_hide_recovers tick_recovers retry_recovers socket_events_recover
    next_frame_recovers receive_resumed_recovers drained_recovers start_run_recovers run_refreshed_recovers
    run_read_recovers resume_task_recovers Let_def\<close>)

text \<open>The interval and the listeners are there until the agent is stopped.\<close>

definition ticks :: "agent \<Rightarrow> bool" where
  "ticks w \<longleftrightarrow> sg_ticking w = (\<not> sg_stopped w)"

lemma ticks_fields:
  "sg_ticking w' = sg_ticking w \<Longrightarrow> sg_stopped w' = sg_stopped w \<Longrightarrow> ticks w' = ticks w"
  by (simp add: ticks_def)

lemma ticks_stop [simp]: "ticks (stop_agent w)"
  by (simp add: ticks_def stop_agent_def)

lemma ticks_simps [simp]:
  "ticks (report w) = ticks w" "ticks (patch_sync sync w) = ticks w" "ticks (patch_live live w) = ticks w"
  "ticks (patch_both sync live w) = ticks w" "ticks (add_task t w) = ticks w" "ticks (close_socket s w) = ticks w"
  "ticks (abandonSocket w) = ticks w" "ticks (scheduleReconnect w) = ticks w" "ticks (connect w) = ticks w"
  "ticks (transportFailed s f w) = ticks w" "ticks (failToStart f w) = ticks w" "ticks (refreshed n w) = ticks w"
  "ticks (resume w) = ticks w" "ticks (sendPresence w) = ticks w" "ticks (publishPresence v w) = ticks w"
  "ticks (receivePresence e p w) = ticks w" "ticks (expirePresence w) = ticks w" "ticks (updateOutbox owner w) = ticks w"
  "ticks (set_receiving s ph w) = ticks w" "ticks (run_done owner w) = ticks w" "ticks (send_frame s fr w) = ticks w"
  "ticks (send_if_open s fr w) = ticks w" "ticks (record_action a w) = ticks w"
proof -
  have same: "ticks w' = ticks w" if "sg_ticking w' = sg_ticking w" "sg_stopped w' = sg_stopped w" for w w'
    using that by (simp add: ticks_def)
  show [simp]: "ticks (report w) = ticks w" "ticks (patch_sync sync w) = ticks w" "ticks (patch_live live w) = ticks w"
    "ticks (patch_both sync live w) = ticks w" "ticks (add_task t w) = ticks w" "ticks (close_socket s w) = ticks w"
    "ticks (abandonSocket w) = ticks w" "ticks (set_receiving s ph w) = ticks w" "ticks (run_done owner w) = ticks w"
    "ticks (send_frame s fr w) = ticks w" "ticks (record_action a w) = ticks w" "ticks (updateOutbox owner w) = ticks w"
    for w t s fr a owner ph live sync
    by (rule same; simp add: add_task_def send_frame_def record_action_def updateOutbox_def)+
  show [simp]: "ticks (scheduleReconnect w) = ticks w" for w
    by (simp add: scheduleReconnect_def Let_def) (simp add: ticks_def)
  show [simp]: "ticks (connect w) = ticks w" for w
    by (simp add: connect_def Let_def) (simp add: ticks_def)
  show "ticks (transportFailed s f w) = ticks w" by (simp add: transportFailed_def Let_def)
  show "ticks (failToStart f w) = ticks w" by (simp add: failToStart_def)
  show "ticks (refreshed n w) = ticks w" by (simp add: refreshed_def)
  show "ticks (resume w) = ticks w" by (simp add: resume_def)
  show [simp]: "ticks (sendPresence w) = ticks w" for w
    by (auto simp: sendPresence_def add_task_def ticks_def split: option.split)
  show "ticks (publishPresence v w) = ticks w"
    by (simp add: publishPresence_def) (simp add: ticks_def)
  show "ticks (receivePresence e p w) = ticks w" "ticks (expirePresence w) = ticks w"
    by (auto simp: receivePresence_def expirePresence_def Let_def ticks_def split: option.split)
  show "ticks (send_if_open s fr w) = ticks w" by (simp add: send_if_open_def)
qed

lemma ticks_updates [simp]:
  "ticks (w\<lparr>sg_run := r\<rparr>) = ticks w" "ticks (w\<lparr>sg_runs := rs\<rparr>) = ticks w" "ticks (w\<lparr>sg_runs := rs, sg_run := r\<rparr>) = ticks w"
  "ticks (w\<lparr>sg_inFlight := m, sg_inFlightSince := t\<rparr>) = ticks w" "ticks (w\<lparr>sg_inFlight := m\<rparr>) = ticks w"
  "ticks (w\<lparr>sg_retryTimer := b\<rparr>) = ticks w" "ticks (w\<lparr>sg_ready := rd\<rparr>) = ticks w" "ticks (w\<lparr>sg_draining := ds\<rparr>) = ticks w"
  "ticks (w\<lparr>sg_ready := rd, sg_draining := ds\<rparr>) = ticks w" "ticks (w\<lparr>sg_online := b\<rparr>) = ticks w"
  "ticks (w\<lparr>sg_online := b, sg_retryTimer := b'\<rparr>) = ticks w" "ticks (w\<lparr>sg_auth := b\<rparr>) = ticks w"
  "ticks (w\<lparr>sg_now := t\<rparr>) = ticks w" "ticks (w\<lparr>sg_frames := fs\<rparr>) = ticks w"
  "ticks (w\<lparr>sg_lastReceived := t, sg_frames := fs\<rparr>) = ticks w" "ticks (w\<lparr>sg_lastReceived := t\<rparr>) = ticks w"
  "ticks (w\<lparr>sg_lastHeartbeat := t\<rparr>) = ticks w" "ticks (w\<lparr>sg_revokedCheckedAt := t\<rparr>) = ticks w"
  "ticks (w\<lparr>sg_withdrawal := x\<rparr>) = ticks w" "ticks (w\<lparr>sg_historyEpoch := e\<rparr>) = ticks w"
  "ticks (w\<lparr>sg_historyEpoch := e, sg_welcomed := b, sg_retry := n\<rparr>) = ticks w" "ticks (w\<lparr>sg_tasks := ts\<rparr>) = ticks w"
  by (simp_all add: ticks_def)

lemma ticks_frames [simp]:
  "ticks (welcomed s wl w) = ticks w" "ticks (take_step s wl step w) = ticks w"
  "ticks (receive_error c r d w) = ticks w" "ticks (receive_decoded s decoded w) = ticks w"
  "ticks (receive_resumed s answer w) = ticks w"
proof -
  show [simp]: "ticks (welcomed s wl w) = ticks w" for w wl
    by (simp add: welcomed_def Let_def)
  show [simp]: "ticks (take_step s wl step w) = ticks w" for w wl step
    by (cases step) (simp_all add: take_step_def)
  show [simp]: "ticks (receive_error c r d w) = ticks w" for c r d w
    by (simp add: receive_error_def Let_def split: option.split)
  show [simp]: "ticks (receive_decoded s decoded w) = ticks w" for decoded
    by (simp add: receive_decoded_def Let_def split: option.split server_message.split)
  show "ticks (receive_resumed s answer w) = ticks w"
    by (cases "sg_receiving w s"; cases "the (sg_receiving w s)"; cases answer)
      (simp_all add: receive_resumed_def)
qed

lemma ticks_runs [simp]:
  "ticks (run_failed owner failure w) = ticks w" "ticks (start_run w) = ticks w"
  "ticks (run_refreshed answer1 w) = ticks w" "ticks (run_read answer2 w) = ticks w"
proof -
  show [simp]: "ticks (run_failed owner failure w) = ticks w" for owner failure w
    by (cases owner) (simp_all add: Let_def)
  show "ticks (start_run w) = ticks w"
    by (simp add: start_run_def Let_def split: option.split list.split)
  show "ticks (run_refreshed answer1 w) = ticks w"
    by (simp add: run_refreshed_def Let_def split: option.split run_phase.split sum.split prod.split)
  show "ticks (run_read answer2 w) = ticks w"
    by (simp add: run_read_def split: option.split run_phase.split sum.split prod.split)
qed

lemma ticks_task [simp]: "ticks (task_resumed t answer w) = ticks w"
  by (induction t answer w rule: task_resumed.induct) (simp_all add: Let_def)

lemma ticks_tick [simp]: "ticks (recheckAccess w) = ticks w" "ticks (tick w) = ticks w"
proof -
  show [simp]: "ticks (recheckAccess w) = ticks w" for w
    by (simp add: recheckAccess_def Let_def)
  have [simp]: "ticks (heartbeat w) = ticks w" for w
    by (simp add: heartbeat_def split: option.split)
  show "ticks (tick w) = ticks w"
    by (simp add: tick_def maintainConnectivity_def Let_def split: option.split)
qed

lemma agent_step_ticks: "ticks w \<Longrightarrow> ticks (agent_step event w)"
  by (cases event)
    (simp_all add: wake_def onPageHide_def onOnline_def onOffline_def retry_fires_def socket_opened_def
      socket_message_def socket_closed_def next_frame_def drained_def resume_task_def Let_def
      split: option.split list.split)

lemma agent_run_recovers: "not_stranded (agent_run online auth ids events) \<and> ticks (agent_run online auth ids events)"
proof -
  have "not_stranded w \<and> ticks w \<Longrightarrow> not_stranded (fold agent_step events w) \<and> ticks (fold agent_step events w)" for w
    by (induction events arbitrary: w) (simp_all add: agent_step_recovers agent_step_ticks)
  moreover have "not_stranded (start_agent (new_agent online auth ids)) \<and> ticks (start_agent (new_agent online auth ids))"
    by (simp add: start_agent_def not_stranded_def bootstrapping_def ticks_def add_task_def new_agent_def)
  ultimately show ?thesis
    by (simp add: agent_run_def)
qed

lemma connect_makes_socket:
  "\<not> sg_stopped w \<Longrightarrow> sg_online w \<Longrightarrow> sg_auth w \<Longrightarrow> sg_socket (connect w) \<noteq> None"
  by (simp add: connect_def Let_def)

text \<open>
  C40. A running agent is never stranded: without a transport it is paused, waits offline or has a
  start or a resumption under way; and offline, once the network and the credentials are there,
  the next event of its own clock (the retry when one is set, the next tick otherwise) opens a
  transport.
\<close>

theorem agent_never_stranded:
  assumes "w = agent_run online auth ids events" "\<not> sg_stopped w" "sg_socket w = None"
  shows "(sg_live w = LivePaused \<or> sg_live w = LiveOffline \<or> bootstrapping w)
     \<and> (sg_live w = LiveOffline \<and> sg_online w \<and> sg_auth w \<longrightarrow>
          sg_socket (agent_step (if sg_retryTimer w then RetryEvent else TickEvent) w) \<noteq> None)"
proof (intro conjI impI)
  have w: "not_stranded w" "ticks w"
    using agent_run_recovers by (auto simp: assms(1))
  then show "sg_live w = LivePaused \<or> sg_live w = LiveOffline \<or> bootstrapping w"
    using assms(2,3) by (simp add: not_stranded_def)
  assume ready: "sg_live w = LiveOffline \<and> sg_online w \<and> sg_auth w"
  show "sg_socket (agent_step (if sg_retryTimer w then RetryEvent else TickEvent) w) \<noteq> None"
  proof (cases "sg_retryTimer w")
    case True
    then show ?thesis
      using ready assms(2) connect_makes_socket [of "w\<lparr>sg_retryTimer := False\<rparr>"]
      by (simp add: retry_fires_def Let_def)
  next
    case False
    let ?w = "expirePresence w"
    have same: "sg_socket ?w = None" "sg_stopped ?w = sg_stopped w" "sg_live ?w = sg_live w"
      "sg_online ?w = sg_online w" "sg_auth ?w = sg_auth w" "sg_retryTimer ?w = sg_retryTimer w"
      using assms(3) by (simp_all add: expirePresence_def Let_def)
    have "sendPresence ?w = ?w"
      using same(1) by (simp add: sendPresence_def)
    then have "tick w = maintainConnectivity ?w"
      by (simp add: tick_def Let_def)
    also have "\<dots> = connect ?w"
      using same ready assms(2) False by (simp add: maintainConnectivity_def)
    finally show ?thesis
      using False w(2) assms(2) ready same connect_makes_socket [of ?w] by (simp add: ticks_def)
  qed
qed

end
