(* ===== verification/Sync_Runs.thy ===== *)
theory Sync_Runs
  imports Sync_Safety
begin

text \<open>
  Concrete runs of a sync agent: a connection that sends two entries of the outbox, and runs that
  show where the agent leaves a pause it was told to keep.
\<close>

definition sample_ids :: "nat \<Rightarrow> js_string" where "sample_ids s = js ''session'' @ replicate s 45"

definition boot_events :: "nat \<Rightarrow> agent_event list" where
  "boot_events s =
     [TaskEvent 0 (SyncStateAnswer 1 7), TaskEvent 0 (AuthAnswer True), OpenedEvent s,
      TaskEvent 0 (SyncStateAnswer 1 7), TaskEvent 0 Encoded]"

definition frame_events :: "nat \<Rightarrow> server_message option \<Rightarrow> receive_answer list \<Rightarrow> agent_event list" where
  "frame_events s frame rest =
     MessageEvent s frame # NextFrameEvent s # ResumedEvent s Done # map (ResumedEvent s) rest"

definition send_events :: "agent_event list" where
  "send_events =
     boot_events 0
     @ frame_events 0 (Some (WelcomeMessage \<lparr>wl_history_epoch = 7, wl_payload = Delta 0\<rparr>)) []
     @ [StartRunEvent, RefreshedEvent (Inr 2), ReadEvent (Inr (Some (js ''m1'')))]
     @ frame_events 0 (Some (AckMessage 7 (js ''m1''))) [Done]
     @ [StartRunEvent, RefreshedEvent (Inr 1)]"

lemma send_run:
  "sg_wire (agent_run True True sample_ids send_events) =
     [Sent 0 (HelloFrame (sample_ids 0) 7), Sent 0 (OutboxFrame (js ''m1'')), Acknowledged 0 (js ''m1'')]
   \<and> sg_live (agent_run True True sample_ids send_events) = LiveLive
   \<and> sg_wire (agent_step (ReadEvent (Inr (Some (js ''m2'')))) (agent_run True True sample_ids send_events)) =
       sg_wire (agent_run True True sample_ids send_events) @ [Sent 0 (OutboxFrame (js ''m2''))]"
  by code_simp

theorem outbox_stop_and_wait_witness:
  "outstanding 0 (sg_wire (agent_run True True sample_ids send_events)) \<noteq> None
   \<and> (\<exists>new. sg_wire (agent_step (ReadEvent (Inr (Some (js ''m2'')))) (agent_run True True sample_ids send_events)) =
        sg_wire (agent_run True True sample_ids send_events) @ new
      \<and> list_all (proper_action
          (agent_step (ReadEvent (Inr (Some (js ''m2'')))) (agent_run True True sample_ids send_events))) new)"
  using outbox_stop_and_wait [OF refl, of True True sample_ids send_events "ReadEvent (Inr (Some (js ''m2'')))"]
  by blast

definition offline_events :: "agent_event list" where
  "offline_events = boot_events 0 @ [OfflineEvent, OnlineEvent, ClosedEvent 1, DrainedEvent 1, ClockEvent 5]"

lemma offline_run:
  "\<not> sg_stopped (agent_run True True sample_ids offline_events)
   \<and> sg_socket (agent_run True True sample_ids offline_events) = None
   \<and> sg_live (agent_run True True sample_ids offline_events) = LiveOffline
   \<and> sg_online (agent_run True True sample_ids offline_events)
   \<and> sg_auth (agent_run True True sample_ids offline_events)
   \<and> sg_retryTimer (agent_run True True sample_ids offline_events)"
  by code_simp

theorem agent_never_stranded_witness:
  "sg_socket (agent_step RetryEvent (agent_run True True sample_ids offline_events)) \<noteq> None"
  using agent_never_stranded [OF refl, of True True sample_ids offline_events] offline_run by simp

subsection \<open>Pauses that do not hold\<close>

text \<open>
  \<open>resume\<close> and \<open>connect\<close> leave a pending retry timer alone. When the server refuses the connection
  they make, the pause is reported and then undone by the old timer, which opens a transport and
  reports \<open>connecting\<close>.
\<close>

definition stale_timer_events :: "agent_event list" where
  "stale_timer_events =
     boot_events 0
     @ [ClosedEvent 0, DrainedEvent 0, AuthChangedEvent True, TaskEvent 0 (SyncStateAnswer 1 7),
        OpenedEvent 1, TaskEvent 0 (SyncStateAnswer 1 7), TaskEvent 0 Encoded]
     @ frame_events 1 (Some (ErrorMessage (js ''access_denied'') False [])) []
     @ [ClosedEvent 1, DrainedEvent 1]"

lemma stale_timer_reconnects:
  "sg_live (agent_run True True sample_ids stale_timer_events) = LivePaused
   \<and> sg_socket (agent_run True True sample_ids stale_timer_events) = None
   \<and> sg_live (agent_step RetryEvent (agent_run True True sample_ids stale_timer_events)) = LiveConnecting
   \<and> sg_sync (agent_step RetryEvent (agent_run True True sample_ids stale_timer_events)) = SyncPaused PausedAuth
   \<and> sg_socket (agent_step RetryEvent (agent_run True True sample_ids stale_timer_events)) = Some 2"
  by code_simp

text \<open>
  A frame that fails after the one that revoked the membership replaces the reason of the pause by
  an error. The connection stays paused, and since the reason is gone the catalog is never asked
  again: access that comes back is not noticed.
\<close>

definition overwritten_events :: "agent_event list" where
  "overwritten_events =
     boot_events 0
     @ [MessageEvent 0 (Some (ErrorMessage (js ''membership_revoked'') False [])), MessageEvent 0 None,
        NextFrameEvent 0, ResumedEvent 0 Done, NextFrameEvent 0, ResumedEvent 0 Done]"

lemma pause_reason_overwritten:
  "sg_live (agent_run True True sample_ids overwritten_events) = LivePaused
   \<and> \<not> is_paused (sg_sync (agent_run True True sample_ids overwritten_events))
   \<and> sg_socket (agent_run True True sample_ids overwritten_events) = None
   \<and> sg_tasks (fold agent_step [ClockEvent 20000, TickEvent, VisibleEvent]
         (agent_run True True sample_ids overwritten_events)) =
       sg_tasks (agent_run True True sample_ids overwritten_events)"
  by code_simp

text \<open>\<open>recheckAccess\<close> does not look at \<open>stopped\<close> after the catalog has answered: the delegate of a
  stopped agent still hears that it connects.\<close>

definition late_catalog_events :: "agent_event list" where
  "late_catalog_events =
     boot_events 0
     @ frame_events 0 (Some (ErrorMessage (js ''membership_revoked'') False [])) []
     @ [ClockEvent 20000, VisibleEvent, StopEvent]"

lemma recheck_after_stop_reports:
  "sg_stopped (agent_run True True sample_ids late_catalog_events)
   \<and> sg_changed (agent_step (TaskEvent 0 (CatalogAnswer True)) (agent_run True True sample_ids late_catalog_events)) =
       sg_changed (agent_run True True sample_ids late_catalog_events) @ [(SyncPending 0, LiveConnecting)]"
  by code_simp

end
