(* ===== verification/Storage.thy ===== *)
theory Storage
  imports Js_String "HOL-Library.List_Lexorder"
begin

text \<open>
  \<open>persistence.ts\<close>: the durable store of a graph in IndexedDB. Every row of every object store is
  keyed by the storage key of its graph first, and every operation but the listing works on one
  graph, so the rows of one graph are a \<open>partition\<close> and the database maps storage keys to
  partitions. An object store is the list of its rows in the order of the rest of their key.

  Each operation is one transaction: it reads the partition, and either commits all its writes or
  none. A \<open>fault\<close> tells how the browser ends it: it may fail before the commit (aborted, quota) or,
  as the hook of the tests does, after it. The digest is a parameter (SHA-256 of the platform).
\<close>

subsection \<open>Rows\<close>

type_synonym bytes = "8 word list"

abbreviation byteLength :: "bytes \<Rightarrow> int" where "byteLength b \<equiv> int (length b)"

record locator =
  lo_repository_id :: js_string
  lo_graph_id :: js_string

record metadata_record =
  md_locator :: locator
  md_replica_id :: int
  md_history_epoch :: int
  md_schema_version :: int
  md_next_sequence :: int
  md_compacted_through :: int
  md_checkpoint_bytes :: int
  md_tail_bytes :: int
  md_tail_count :: int
  md_created_at :: js_string
  md_updated_at :: js_string

record update_record =
  up_sequence :: int
  up_checksum :: js_string
  up_payload :: bytes
  up_created_at :: js_string

record checkpoint_record = update_record +
  cp_schema_version :: int

datatype record_kind = UpdateKind | CheckpointKind

record quarantine_record = update_record +
  qr_export_handle :: js_string
  qr_record_kind :: record_kind
  qr_reason :: js_string

record outbox_record =
  ob_message_id :: js_string
  ob_sequence :: int
  ob_base_version_vector :: bytes
  ob_payload :: "bytes option"
  ob_created_at :: js_string

text \<open>\<open>InspectedOutboxRecord\<close>: the row, the payload it resolves to, the digest of that payload.\<close>

record inspected_record =
  in_persisted :: outbox_record
  in_resolved :: bytes
  in_content_id :: js_string

record partition =
  pt_metadata :: "metadata_record option"
  pt_updates :: "update_record list"
  pt_checkpoints :: "checkpoint_record list"
  pt_quarantine :: "quarantine_record list"
  pt_outbox :: "outbox_record list"
  pt_server_base :: bool

definition no_rows :: partition where
  "no_rows = \<lparr>pt_metadata = None, pt_updates = [], pt_checkpoints = [], pt_quarantine = [], pt_outbox = [],
     pt_server_base = False\<rparr>"

datatype storage_code = GraphNotOpen | StorageCorrupt | StorageFull | DirtyUnsaved | GraphAlreadyExists

record storage_error =
  se_code :: storage_code
  se_retryable :: bool

definition storage_error :: "storage_code \<Rightarrow> bool \<Rightarrow> storage_error" where
  "storage_error code retryable = \<lparr>se_code = code, se_retryable = retryable\<rparr>"

datatype dom_error = QuotaExceededError | AbortError | OtherDomError

definition mapDomError :: "dom_error \<Rightarrow> storage_error" where
  "mapDomError e =
     (case e of
        QuotaExceededError \<Rightarrow> storage_error StorageFull True
      | AbortError \<Rightarrow> storage_error DirtyUnsaved True
      | OtherDomError \<Rightarrow> storage_error StorageCorrupt False)"

datatype fault = NotCommitted dom_error | CommittedThenFailed storage_error

text \<open>The end of a transaction.\<close>

definition complete :: "fault option \<Rightarrow> 'a \<Rightarrow> partition \<Rightarrow> partition \<Rightarrow> (storage_error + 'a) \<times> partition" where
  "complete fault result after before =
     (case fault of
        None \<Rightarrow> (Inr result, after)
      | Some (NotCommitted e) \<Rightarrow> (Inl (mapDomError e), before)
      | Some (CommittedThenFailed e) \<Rightarrow> (Inl e, after))"

subsection \<open>Object stores\<close>

fun put_row :: "('r \<Rightarrow> 'k::linorder) \<Rightarrow> 'r \<Rightarrow> 'r list \<Rightarrow> 'r list" where
  "put_row key r [] = [r]"
| "put_row key r (x # xs) =
     (if key r < key x then r # x # xs else if key r = key x then r # xs else x # put_row key r xs)"

definition get_row :: "('r \<Rightarrow> 'k) \<Rightarrow> 'k \<Rightarrow> 'r list \<Rightarrow> 'r option" where
  "get_row key k rows = find (\<lambda>r. key r = k) rows"

definition delete_row :: "('r \<Rightarrow> 'k) \<Rightarrow> 'k \<Rightarrow> 'r list \<Rightarrow> 'r list" where
  "delete_row key k rows = filter (\<lambda>r. key r \<noteq> k) rows"

definition total_bytes :: "('a update_record_scheme) list \<Rightarrow> int" where
  "total_bytes rows = sum_list (map (byteLength \<circ> up_payload) rows)"

subsection \<open>Opening\<close>

definition normalizeLocator :: "locator \<Rightarrow> locator" where
  "normalizeLocator l =
     (if lo_repository_id l = [] then l\<lparr>lo_repository_id := js ''local''\<rparr> else l)"

definition SCHEMA_VERSION :: int where "SCHEMA_VERSION = 9"

definition supportsDocumentSchema :: "int \<Rightarrow> bool" where
  "supportsDocumentSchema version \<longleftrightarrow> version \<in> set [7, 8, 9]"

text \<open>\<open>JSON.stringify\<close> of a string and of a pair of strings.\<close>

definition hex_digit :: "nat \<Rightarrow> code_unit" where
  "hex_digit d = (if d < 10 then 48 + of_nat d else 87 + of_nat d)"

definition unicode_escape :: "code_unit \<Rightarrow> js_string" where
  "unicode_escape u =
     (let n = unat u
      in [0x5C, 0x75, hex_digit (n div 4096 mod 16), hex_digit (n div 256 mod 16), hex_digit (n div 16 mod 16),
          hex_digit (n mod 16)])"

definition json_unit :: "code_unit \<Rightarrow> js_string" where
  "json_unit u =
     (if u = 0x22 \<or> u = 0x5C then [0x5C, u]
      else if u = 8 then [0x5C, 0x62]
      else if u = 9 then [0x5C, 0x74]
      else if u = 10 then [0x5C, 0x6E]
      else if u = 12 then [0x5C, 0x66]
      else if u = 13 then [0x5C, 0x72]
      else if u < 32 \<or> is_high_surrogate u \<or> is_low_surrogate u then unicode_escape u
      else [u])"

definition json_point :: "js_string \<Rightarrow> js_string" where
  "json_point p = (case p of [u] \<Rightarrow> json_unit u | _ \<Rightarrow> p)"

definition json_string :: "js_string \<Rightarrow> js_string" where
  "json_string s = [0x22] @ concat (map json_point (code_points s)) @ [0x22]"

definition graphStorageKey :: "locator \<Rightarrow> js_string" where
  "graphStorageKey l =
     (let repositoryId = (if lo_repository_id l = [] then js ''local'' else lo_repository_id l)
      in if repositoryId = js ''local'' then lo_graph_id l
         else js ''repository:['' @ json_string repositoryId @ js '','' @ json_string (lo_graph_id l) @ js '']'')"

definition openGraph :: "locator \<Rightarrow> js_string \<Rightarrow> int \<Rightarrow> fault option \<Rightarrow> partition \<Rightarrow> (storage_error + metadata_record) \<times> partition" where
  "openGraph l now suggestedReplicaId fault p =
     (case pt_metadata p of
        Some existing \<Rightarrow>
          complete fault (existing\<lparr>md_locator := normalizeLocator (md_locator existing)\<rparr>) p p
      | None \<Rightarrow>
          let metadata =
            \<lparr>md_locator = normalizeLocator l, md_replica_id = suggestedReplicaId, md_history_epoch = 0,
             md_schema_version = SCHEMA_VERSION, md_next_sequence = 1, md_compacted_through = 0,
             md_checkpoint_bytes = 0, md_tail_bytes = 0, md_tail_count = 0, md_created_at = now,
             md_updated_at = now\<rparr>
          in complete fault metadata (p\<lparr>pt_metadata := Some metadata\<rparr>) p)"

definition metadata_of :: "partition \<Rightarrow> storage_error + metadata_record" where
  "metadata_of p =
     (case pt_metadata p of None \<Rightarrow> Inl (storage_error GraphNotOpen False) | Some m \<Rightarrow> Inr m)"

subsection \<open>Updates and the outbox\<close>

text \<open>What an append answers.\<close>

record receipt =
  rc_sequence :: int
  rc_checksum :: js_string

definition outbox_row :: "js_string \<Rightarrow> int \<Rightarrow> bytes \<Rightarrow> js_string \<Rightarrow> outbox_record" where
  "outbox_row digest sequence base now =
     \<lparr>ob_message_id = digest, ob_sequence = sequence, ob_base_version_vector = base, ob_payload = None,
      ob_created_at = now\<rparr>"

definition put_outbox :: "js_string \<Rightarrow> int \<Rightarrow> bytes option \<Rightarrow> js_string \<Rightarrow> partition \<Rightarrow> partition" where
  "put_outbox digest sequence outbox now p =
     (case outbox of
        None \<Rightarrow> p
      | Some base \<Rightarrow> p\<lparr>pt_outbox := put_row ob_message_id (outbox_row digest sequence base now) (pt_outbox p)\<rparr>)"

definition appendUpdate ::
  "(bytes \<Rightarrow> js_string) \<Rightarrow> bytes \<Rightarrow> js_string \<Rightarrow> bytes option \<Rightarrow> fault option \<Rightarrow> partition \<Rightarrow> (storage_error + receipt) \<times> partition"
where
  "appendUpdate checksum payload now outbox fault p =
     (let digest = checksum payload
      in case get_row up_checksum digest (pt_updates p) of
           Some existing \<Rightarrow>
             complete fault \<lparr>rc_sequence = up_sequence existing, rc_checksum = digest\<rparr>
               (put_outbox digest (up_sequence existing) outbox now p) p
         | None \<Rightarrow>
             (case pt_metadata p of
                None \<Rightarrow> (Inl (storage_error GraphNotOpen False), p)
              | Some metadata \<Rightarrow>
                  let sequence = md_next_sequence metadata;
                      p1 = p\<lparr>pt_updates := put_row up_sequence
                        \<lparr>up_sequence = sequence, up_checksum = digest, up_payload = payload, up_created_at = now\<rparr>
                        (pt_updates p)\<rparr>;
                      p2 = put_outbox digest sequence outbox now p1
                  in complete fault \<lparr>rc_sequence = sequence, rc_checksum = digest\<rparr>
                       (p2\<lparr>pt_metadata := Some (metadata\<lparr>md_next_sequence := sequence + 1,
                          md_tail_bytes := md_tail_bytes metadata + byteLength payload,
                          md_tail_count := md_tail_count metadata + 1, md_updated_at := now\<rparr>)\<rparr>) p))"

text \<open>The rows of the outbox in local order, an older one of equal order by its key.\<close>

definition outbox_rows :: "nat option \<Rightarrow> partition \<Rightarrow> outbox_record list" where
  "outbox_rows limit p =
     (let rows = sort_key ob_sequence (pt_outbox p) in case limit of None \<Rightarrow> rows | Some n \<Rightarrow> take n rows)"

text \<open>A row resolves to its own payload or to that of the update it names.\<close>

definition inspect_row :: "(bytes \<Rightarrow> js_string) \<Rightarrow> partition \<Rightarrow> outbox_record \<Rightarrow> inspected_record option" where
  "inspect_row checksum p record =
     (case ob_payload record of
        Some payload \<Rightarrow>
          Some \<lparr>in_persisted = record, in_resolved = payload, in_content_id = checksum payload\<rparr>
      | None \<Rightarrow>
          (case get_row up_sequence (ob_sequence record) (pt_updates p) of
             None \<Rightarrow> None
           | Some update \<Rightarrow>
               if up_checksum update \<noteq> checksum (up_payload update) then None
               else Some \<lparr>in_persisted = record, in_resolved = up_payload update,
                          in_content_id = checksum (up_payload update)\<rparr>))"

definition inspectOutbox ::
  "(bytes \<Rightarrow> js_string) \<Rightarrow> nat option \<Rightarrow> partition \<Rightarrow> storage_error + inspected_record list"
where
  "inspectOutbox checksum limit p =
     (let rows = map (inspect_row checksum p) (outbox_rows limit p)
      in if None \<in> set rows then Inl (storage_error StorageCorrupt False) else Inr (map the rows))"

definition named_by_content :: "inspected_record \<Rightarrow> bool" where
  "named_by_content r \<longleftrightarrow> ob_message_id (in_persisted r) = in_content_id r"

definition outbox ::
  "(bytes \<Rightarrow> js_string) \<Rightarrow> nat option \<Rightarrow> partition \<Rightarrow> storage_error + inspected_record list"
where
  "outbox checksum limit p =
     (case inspectOutbox checksum limit p of
        Inl e \<Rightarrow> Inl e
      | Inr inspected \<Rightarrow>
          if list_all named_by_content inspected then Inr inspected
          else Inl (storage_error StorageCorrupt False))"

definition peekNext :: "(bytes \<Rightarrow> js_string) \<Rightarrow> partition \<Rightarrow> storage_error + inspected_record option" where
  "peekNext checksum p =
     (case outbox checksum (Some 1) p of
        Inl e \<Rightarrow> Inl e
      | Inr [] \<Rightarrow> Inr None
      | Inr (r # _) \<Rightarrow> Inr (Some r))"

definition countPending :: "partition \<Rightarrow> nat" where
  "countPending p = length (pt_outbox p)"

text \<open>The write transaction of \<open>normalizeOutbox\<close> rechecks what an earlier one inspected.\<close>

definition still_there :: "partition \<Rightarrow> inspected_record \<Rightarrow> bool" where
  "still_there p candidate =
     (case get_row ob_message_id (ob_message_id (in_persisted candidate)) (pt_outbox p) of
        None \<Rightarrow> False
      | Some current \<Rightarrow>
          current = in_persisted candidate
          \<and> (case ob_payload current of
               Some payload \<Rightarrow> payload = in_resolved candidate
             | None \<Rightarrow>
                 (case get_row up_sequence (ob_sequence current) (pt_updates p) of
                    None \<Rightarrow> False
                  | Some update \<Rightarrow>
                      up_checksum update = in_content_id candidate \<and> up_payload update = in_resolved candidate)))"

definition drop_old_name :: "inspected_record \<Rightarrow> outbox_record list \<Rightarrow> outbox_record list" where
  "drop_old_name candidate rows =
     (if named_by_content candidate then rows
      else delete_row ob_message_id (ob_message_id (in_persisted candidate)) rows)"

definition put_new_name :: "inspected_record \<Rightarrow> outbox_record list \<Rightarrow> outbox_record list" where
  "put_new_name candidate rows =
     (case get_row ob_message_id (in_content_id candidate) rows of
        Some _ \<Rightarrow> rows
      | None \<Rightarrow> put_row ob_message_id ((in_persisted candidate)\<lparr>ob_message_id := in_content_id candidate\<rparr>) rows)"

definition normalize_write :: "inspected_record list \<Rightarrow> fault option \<Rightarrow> partition \<Rightarrow> (storage_error + unit) \<times> partition" where
  "normalize_write inspected fault p =
     (let live = filter (still_there p) inspected
      in complete fault () (p\<lparr>pt_outbox := fold put_new_name live (fold drop_old_name live (pt_outbox p))\<rparr>) p)"

definition normalizeOutbox ::
  "(bytes \<Rightarrow> js_string) \<Rightarrow> fault option \<Rightarrow> partition \<Rightarrow> (storage_error + unit) \<times> partition"
where
  "normalizeOutbox checksum fault p =
     (case inspectOutbox checksum None p of
        Inl e \<Rightarrow> (Inl e, p)
      | Inr inspected \<Rightarrow>
          if list_all named_by_content inspected then (Inr (), p)
          else (case normalize_write inspected fault p of
                  (Inl e, p') \<Rightarrow> (Inl e, p')
                | (Inr _, p') \<Rightarrow>
                    (case inspectOutbox checksum None p' of
                       Inl e \<Rightarrow> (Inl e, p')
                     | Inr normalized \<Rightarrow>
                         if list_all named_by_content normalized then (Inr (), p')
                         else (Inl (storage_error StorageCorrupt False), p'))))"

subsection \<open>Acknowledgement\<close>

text \<open>The oldest sequence a retained checkpoint may have to replay from.\<close>

definition fallback_through :: "int \<Rightarrow> checkpoint_record list \<Rightarrow> int" where
  "fallback_through start checkpoints = fold (\<lambda>c m. min m (up_sequence c)) checkpoints start"

definition acknowledge_one :: "int \<Rightarrow> js_string \<Rightarrow> partition \<Rightarrow> partition" where
  "acknowledge_one fallbackThrough messageId p =
     (let record = get_row ob_message_id messageId (pt_outbox p);
          p1 = p\<lparr>pt_outbox := delete_row ob_message_id messageId (pt_outbox p)\<rparr>
      in case (pt_metadata p, record) of
           (Some metadata, Some r) \<Rightarrow>
             if ob_sequence r \<le> 0 \<or> fallbackThrough < ob_sequence r then p1
             else (case get_row up_sequence (ob_sequence r) (pt_updates p) of
                     None \<Rightarrow> p1
                   | Some update \<Rightarrow>
                       p1\<lparr>pt_updates := delete_row up_sequence (ob_sequence r) (pt_updates p),
                          pt_metadata := Some (metadata\<lparr>
                            md_tail_bytes := max 0 (md_tail_bytes metadata - byteLength (up_payload update)),
                            md_tail_count := max 0 (md_tail_count metadata - 1)\<rparr>)\<rparr>)
         | _ \<Rightarrow> p1)"

definition acknowledge :: "js_string list \<Rightarrow> fault option \<Rightarrow> partition \<Rightarrow> (storage_error + unit) \<times> partition" where
  "acknowledge messageIds fault p =
     (let start = (case pt_metadata p of None \<Rightarrow> 0 | Some m \<Rightarrow> md_compacted_through m);
          through = fallback_through start (pt_checkpoints p)
      in complete fault () (fold (acknowledge_one through) messageIds p) p)"

subsection \<open>Reading for recovery\<close>

definition updatesAfter :: "int \<Rightarrow> partition \<Rightarrow> update_record list" where
  "updatesAfter sequence p = sort_key up_sequence (filter (\<lambda>u. sequence + 1 \<le> up_sequence u) (pt_updates p))"

definition checkpointsDescending :: "partition \<Rightarrow> checkpoint_record list" where
  "checkpointsDescending p = sort_key (\<lambda>c. - up_sequence c) (pt_checkpoints p)"
subsection \<open>Checkpoints\<close>

definition checkpoint_row :: "int \<Rightarrow> int \<Rightarrow> js_string \<Rightarrow> bytes \<Rightarrow> js_string \<Rightarrow> checkpoint_record" where
  "checkpoint_row sequence schemaVersion digest payload now =
     \<lparr>up_sequence = sequence, up_checksum = digest, up_payload = payload, up_created_at = now,
      cp_schema_version = schemaVersion\<rparr>"

text \<open>A checkpoint is put, then only the two newest of the store are kept.\<close>

definition newest_two :: "checkpoint_record list \<Rightarrow> checkpoint_record list" where
  "newest_two checkpoints = take 2 (sort_key (\<lambda>c. - up_sequence c) checkpoints)"

definition delete_stale :: "checkpoint_record list \<Rightarrow> checkpoint_record list" where
  "delete_stale checkpoints =
     fold (\<lambda>stale rows. delete_row up_sequence (up_sequence stale) rows)
       (drop 2 (sort_key (\<lambda>c. - up_sequence c) checkpoints)) checkpoints"

definition installImportedGraph ::
  "(bytes \<Rightarrow> js_string) \<Rightarrow> locator \<Rightarrow> int \<Rightarrow> int \<Rightarrow> bytes \<Rightarrow> js_string \<Rightarrow> int \<Rightarrow> bool \<Rightarrow> fault option \<Rightarrow> partition
     \<Rightarrow> (storage_error + metadata_record) \<times> partition"
where
  "installImportedGraph checksum l replicaId schemaVersion checkpoint now historyEpoch serverBase fault p =
     (if pt_metadata p \<noteq> None then (Inl (storage_error GraphAlreadyExists False), p)
      else let metadata =
             \<lparr>md_locator = normalizeLocator l, md_replica_id = replicaId, md_history_epoch = historyEpoch,
              md_schema_version = schemaVersion, md_next_sequence = 1, md_compacted_through = 0,
              md_checkpoint_bytes = byteLength checkpoint, md_tail_bytes = 0, md_tail_count = 0,
              md_created_at = now, md_updated_at = now\<rparr>
           in complete fault metadata
                (p\<lparr>pt_metadata := Some metadata,
                   pt_checkpoints := put_row up_sequence (checkpoint_row 0 schemaVersion (checksum checkpoint) checkpoint now)
                     (pt_checkpoints p),
                   pt_server_base := pt_server_base p \<or> serverBase\<rparr>) p)"

definition pinned :: "partition \<Rightarrow> int set" where
  "pinned p = set (filter (\<lambda>s. 0 < s) (map ob_sequence (pt_outbox p)))"

definition installCheckpoint ::
  "(bytes \<Rightarrow> js_string) \<Rightarrow> bytes \<Rightarrow> int \<Rightarrow> int \<Rightarrow> js_string \<Rightarrow> fault option \<Rightarrow> partition \<Rightarrow> (storage_error + js_string) \<times> partition"
where
  "installCheckpoint checksum payload sequence schemaVersion now fault p =
     (case pt_metadata p of
        None \<Rightarrow> (Inl (storage_error GraphNotOpen False), p)
      | Some metadata \<Rightarrow>
          if sequence < md_compacted_through metadata \<or> md_next_sequence metadata \<le> sequence
          then (Inl (storage_error StorageCorrupt False), p)
          else
            let digest = checksum payload;
                checkpoints = put_row up_sequence (checkpoint_row sequence schemaVersion digest payload now) (pt_checkpoints p);
                fallbackThrough = fallback_through sequence (newest_two checkpoints);
                kept = filter (\<lambda>u. \<not> (up_sequence u \<le> fallbackThrough \<and> up_sequence u \<notin> pinned p)) (pt_updates p)
            in complete fault digest
                 (p\<lparr>pt_checkpoints := delete_stale checkpoints, pt_updates := kept,
                    pt_metadata := Some (metadata\<lparr>md_schema_version := schemaVersion,
                      md_compacted_through := max (md_compacted_through metadata) sequence,
                      md_checkpoint_bytes := total_bytes (newest_two checkpoints),
                      md_tail_bytes := total_bytes kept, md_tail_count := int (length kept),
                      md_updated_at := now\<rparr>)\<rparr>) p)"

definition put_quarantine :: "quarantine_record \<Rightarrow> partition \<Rightarrow> partition" where
  "put_quarantine record p = p\<lparr>pt_quarantine := put_row qr_export_handle record (pt_quarantine p)\<rparr>"

definition repairCorruptTail ::
  "(bytes \<Rightarrow> js_string) \<Rightarrow> bytes \<Rightarrow> int \<Rightarrow> int \<Rightarrow> quarantine_record list \<Rightarrow> js_string \<Rightarrow> fault option \<Rightarrow> partition
     \<Rightarrow> (storage_error + js_string) \<times> partition"
where
  "repairCorruptTail checksum checkpoint validThrough schemaVersion records now fault p =
     (case pt_metadata p of
        None \<Rightarrow> (Inl (storage_error GraphNotOpen False), p)
      | Some metadata \<Rightarrow>
          let digest = checksum checkpoint;
              p1 = fold put_quarantine records p;
              checkpoints = put_row up_sequence (checkpoint_row validThrough schemaVersion digest checkpoint now) (pt_checkpoints p1);
              retained = filter (\<lambda>u. up_sequence u \<le> validThrough) (pt_updates p1)
          in complete fault digest
               (p1\<lparr>pt_checkpoints := delete_stale checkpoints, pt_updates := retained,
                   pt_metadata := Some (metadata\<lparr>md_schema_version := schemaVersion,
                     md_compacted_through := validThrough,
                     md_checkpoint_bytes := total_bytes (newest_two checkpoints),
                     md_tail_bytes := total_bytes retained, md_tail_count := int (length retained),
                     md_updated_at := now\<rparr>)\<rparr>) p)"

definition replaceHistory ::
  "(bytes \<Rightarrow> js_string) \<Rightarrow> bytes \<Rightarrow> int \<Rightarrow> bytes \<Rightarrow> bytes \<Rightarrow> int \<Rightarrow> js_string \<Rightarrow> fault option \<Rightarrow> partition
     \<Rightarrow> (storage_error + int) \<times> partition"
where
  "replaceHistory checksum checkpoint historyEpoch baseVersionVector rebasedTail schemaVersion now fault p =
     (case pt_metadata p of
        None \<Rightarrow> (Inl (storage_error GraphNotOpen False), p)
      | Some metadata \<Rightarrow>
          let sequence = md_next_sequence metadata - 1;
              next = md_next_sequence metadata;
              tail = (rebasedTail \<noteq> []);
              p1 = p\<lparr>pt_checkpoints := [checkpoint_row sequence schemaVersion (checksum checkpoint) checkpoint now],
                     pt_updates := [], pt_outbox := [], pt_server_base := True\<rparr>;
              p2 = (if tail
                    then p1\<lparr>pt_updates := [\<lparr>up_sequence = next, up_checksum = checksum rebasedTail,
                                            up_payload = rebasedTail, up_created_at = now\<rparr>],
                            pt_outbox := [outbox_row (checksum rebasedTail) next baseVersionVector now]\<rparr>
                    else p1)
          in complete fault sequence
               (p2\<lparr>pt_metadata := Some (metadata\<lparr>md_history_epoch := historyEpoch, md_schema_version := schemaVersion,
                    md_next_sequence := (if tail then next + 1 else next), md_compacted_through := sequence,
                    md_checkpoint_bytes := byteLength checkpoint, md_tail_bytes := byteLength rebasedTail,
                    md_tail_count := (if tail then 1 else 0), md_updated_at := now\<rparr>)\<rparr>) p)"

definition quarantine :: "quarantine_record \<Rightarrow> fault option \<Rightarrow> partition \<Rightarrow> (storage_error + unit) \<times> partition" where
  "quarantine record fault p = complete fault () (put_quarantine record p) p"

definition deleteLocal :: "fault option \<Rightarrow> partition \<Rightarrow> (storage_error + unit) \<times> partition" where
  "deleteLocal fault p = complete fault () no_rows p"

subsection \<open>What is stored\<close>

definition standalone_bytes :: "outbox_record list \<Rightarrow> int" where
  "standalone_bytes rows =
     sum_list (map (\<lambda>r. case ob_payload r of None \<Rightarrow> 0 | Some payload \<Rightarrow> byteLength payload) rows)"

definition usage_bytes :: "partition \<Rightarrow> storage_error + int" where
  "usage_bytes p =
     (case metadata_of p of
        Inl e \<Rightarrow> Inl e
      | Inr m \<Rightarrow> Inr (md_checkpoint_bytes m + md_tail_bytes m + standalone_bytes (pt_outbox p) + total_bytes (pt_quarantine p)))"

record storage_stats =
  st_checkpoint_bytes :: int
  st_checkpoint_count :: nat
  st_update_bytes :: int
  st_update_count :: nat
  st_outbox_bytes :: int
  st_outbox_count :: nat
  st_compacted_through :: int

definition storageStats :: "partition \<Rightarrow> storage_error + storage_stats" where
  "storageStats p =
     (case metadata_of p of
        Inl e \<Rightarrow> Inl e
      | Inr m \<Rightarrow> Inr
          \<lparr>st_checkpoint_bytes = total_bytes (pt_checkpoints p), st_checkpoint_count = length (pt_checkpoints p),
           st_update_bytes = total_bytes (pt_updates p), st_update_count = length (pt_updates p),
           st_outbox_bytes = standalone_bytes (pt_outbox p), st_outbox_count = length (pt_outbox p),
           st_compacted_through = md_compacted_through m\<rparr>)"

subsection \<open>Histories of transactions\<close>

text \<open>The write transactions, with what their callers give them.\<close>

datatype storage_op =
    OpenGraphOp locator js_string int
  | AppendOp bytes js_string "bytes option"
  | NormalizeOp "inspected_record list"
  | AcknowledgeOp "js_string list"
  | ImportOp locator int int bytes js_string int bool
  | CheckpointOp bytes int int js_string
  | RepairOp bytes int int "quarantine_record list" js_string
  | ReplaceOp bytes int bytes bytes int js_string
  | QuarantineOp quarantine_record
  | DeleteOp

fun storage_step :: "(bytes \<Rightarrow> js_string) \<Rightarrow> storage_op \<times> fault option \<Rightarrow> partition \<Rightarrow> partition" where
  "storage_step checksum (OpenGraphOp l now replica, fault) p = snd (openGraph l now replica fault p)"
| "storage_step checksum (AppendOp payload now base, fault) p = snd (appendUpdate checksum payload now base fault p)"
| "storage_step checksum (NormalizeOp inspected, fault) p = snd (normalize_write inspected fault p)"
| "storage_step checksum (AcknowledgeOp ids, fault) p = snd (acknowledge ids fault p)"
| "storage_step checksum (ImportOp l replica schema checkpoint now epoch serverBase, fault) p =
     snd (installImportedGraph checksum l replica schema checkpoint now epoch serverBase fault p)"
| "storage_step checksum (CheckpointOp payload sequence schema now, fault) p =
     snd (installCheckpoint checksum payload sequence schema now fault p)"
| "storage_step checksum (RepairOp checkpoint validThrough schema records now, fault) p =
     snd (repairCorruptTail checksum checkpoint validThrough schema records now fault p)"
| "storage_step checksum (ReplaceOp checkpoint epoch vv tail schema now, fault) p =
     snd (replaceHistory checksum checkpoint epoch vv tail schema now fault p)"
| "storage_step checksum (QuarantineOp record, fault) p = snd (quarantine record fault p)"
| "storage_step checksum (DeleteOp, fault) p = snd (deleteLocal fault p)"

definition storage_run :: "(bytes \<Rightarrow> js_string) \<Rightarrow> (storage_op \<times> fault option) list \<Rightarrow> partition" where
  "storage_run checksum ops = fold (storage_step checksum) ops no_rows"

end
