(* ===== verification/Graph_Worker.thy ===== *)
theory Graph_Worker
  imports Storage
begin

text \<open>
  \<open>graph-worker.ts\<close>: the Worker that owns a graph's core and its durable store. The core is a
  WebAssembly module that the build generates; it is the parameter \<open>api\<close>, one field per method the
  Worker calls, for one graph and one replica. A method that may throw answers an option.

  Opening recovers the graph from the store. It is written as a computation over the partition and
  the faults its write transactions meet. The requests of an open graph that change it (execute,
  retry, remote import, replacement, close) come one at a time from the session's lane, so the world
  has one job, which waits for one transaction after the other: a transaction commits in one
  event and its continuation runs in a later one, and a crash may come between. Frames
  of the outbox and their acknowledgements run beside it.
\<close>

subsection \<open>The core\<close>

datatype load_mode = Validated | RecoveryBase | Unvalidated

record 'c core_api =
  ca_new :: "js_string \<Rightarrow> 'c"
  ca_load :: "load_mode \<Rightarrow> bytes \<Rightarrow> 'c option"
  ca_stage :: "bytes \<Rightarrow> 'c \<Rightarrow> 'c option"
  ca_importRecovery :: "bytes \<Rightarrow> 'c \<Rightarrow> 'c option"
  ca_finish :: "'c \<Rightarrow> 'c option"
  ca_reset :: "'c \<Rightarrow> 'c"
  ca_validate :: "bytes \<Rightarrow> 'c \<Rightarrow> bool"
  ca_import :: "bytes \<Rightarrow> 'c \<Rightarrow> 'c option"
  ca_execute :: "js_string \<Rightarrow> 'c \<Rightarrow> ('c \<times> js_string \<times> bytes) option"
  ca_export :: "'c \<Rightarrow> bytes"
  ca_exportGc :: "'c \<Rightarrow> bytes"
  ca_version :: "'c \<Rightarrow> bytes"
  ca_merge :: "bytes list \<Rightarrow> 'c \<Rightarrow> bytes option"

datatype refusal =
    UnsupportedContract | AlreadyOpen | UnsupportedSchema | CheckpointsInvalid | CommandTimeout
  | Unsaved | NotOpen | ResyncRequired | InvalidRequest | CoreThrew

datatype worker_error = StorageFailure storage_error | Refused refusal

subsection \<open>Computations over the store\<close>

type_synonym 'a run = "partition \<times> fault option list \<Rightarrow> (worker_error + 'a) \<times> partition \<times> fault option list"

definition ret :: "'a \<Rightarrow> 'a run" where "ret x s = (Inr x, s)"

definition fail :: "worker_error \<Rightarrow> 'a run" where "fail e s = (Inl e, s)"

definition bnd :: "'a run \<Rightarrow> ('a \<Rightarrow> 'b run) \<Rightarrow> 'b run" where
  "bnd m k s = (case m s of (Inl e, s') \<Rightarrow> (Inl e, s') | (Inr x, s') \<Rightarrow> k x s')"

definition reads :: "(partition \<Rightarrow> 'a) \<Rightarrow> 'a run" where "reads f s = (Inr (f (fst s)), s)"

text \<open>A write transaction meets the next fault, or none when no more are given.\<close>

definition transact :: "(fault option \<Rightarrow> partition \<Rightarrow> (storage_error + 'a) \<times> partition) \<Rightarrow> 'a run" where
  "transact op s =
     (let (fault, faults) = (case snd s of [] \<Rightarrow> (None, []) | f # fs \<Rightarrow> (f, fs));
          (answer, p) = op fault (fst s)
      in (map_sum StorageFailure id answer, p, faults))"

definition orThrow :: "'a option \<Rightarrow> 'a run" where
  "orThrow x = (case x of None \<Rightarrow> fail (Refused CoreThrew) | Some v \<Rightarrow> ret v)"

subsection \<open>Recovery\<close>

fun decimal :: "nat \<Rightarrow> js_string" where
  "decimal n = (if n < 10 then [48 + of_nat n] else decimal (n div 10) @ [48 + of_nat (n mod 10)])"

definition decimal_int :: "int \<Rightarrow> js_string" where
  "decimal_int n = (if n < 0 then js ''-'' @ decimal (nat (- n)) else decimal (nat n))"

definition checkpoint_handle :: "int \<Rightarrow> js_string" where
  "checkpoint_handle sequence = js ''checkpoint-'' @ decimal_int sequence"

definition update_handle :: "int \<Rightarrow> js_string" where
  "update_handle sequence = js ''update-'' @ decimal_int sequence"

definition validChecksum :: "(bytes \<Rightarrow> js_string) \<Rightarrow> 'r update_record_scheme \<Rightarrow> bool" where
  "validChecksum checksum row \<longleftrightarrow> checksum (up_payload row) = up_checksum row"

definition quarantine_row :: "record_kind \<Rightarrow> js_string \<Rightarrow> js_string \<Rightarrow> 'r update_record_scheme \<Rightarrow> quarantine_record" where
  "quarantine_row kind handle reason row =
     \<lparr>up_sequence = up_sequence row, up_checksum = up_checksum row, up_payload = up_payload row,
      up_created_at = up_created_at row, qr_export_handle = handle, qr_record_kind = kind, qr_reason = reason\<rparr>"

record recovery_report =
  rr_checkpoint_sequence :: int
  rr_replayed_updates :: nat
  rr_quarantined_records :: "js_string list"

record 'c recovered =
  rv_core :: 'c
  rv_appliedThrough :: int
  rv_report :: recovery_report

text \<open>The newest sequence of a tail, or the checkpoint's.\<close>

definition last_sequence :: "int \<Rightarrow> update_record list \<Rightarrow> int" where
  "last_sequence start updates = (if updates = [] then start else up_sequence (last updates))"

fun stage_all :: "'c core_api \<Rightarrow> update_record list \<Rightarrow> 'c \<Rightarrow> 'c option" where
  "stage_all api [] core = Some core"
| "stage_all api (u # us) core =
     (case ca_stage api (up_payload u) core of None \<Rightarrow> None | Some core' \<Rightarrow> stage_all api us core')"

definition stage_and_finish :: "'c core_api \<Rightarrow> update_record list \<Rightarrow> 'c \<Rightarrow> 'c option" where
  "stage_and_finish api updates core =
     (case stage_all api updates core of None \<Rightarrow> None | Some core' \<Rightarrow> ca_finish api core')"

definition upgradeCheckpoint ::
  "'c core_api \<Rightarrow> (bytes \<Rightarrow> js_string) \<Rightarrow> metadata_record \<Rightarrow> 'c \<Rightarrow> int \<Rightarrow> js_string \<Rightarrow> unit run"
where
  "upgradeCheckpoint api checksum metadata core validThrough now =
     (if SCHEMA_VERSION \<le> md_schema_version metadata then ret ()
      else bnd (transact (installCheckpoint checksum (ca_export api core) validThrough SCHEMA_VERSION now))
             (\<lambda>_. ret ()))"

definition recoverIntact ::
  "'c core_api \<Rightarrow> (bytes \<Rightarrow> js_string) \<Rightarrow> metadata_record \<Rightarrow> checkpoint_record list \<Rightarrow> js_string \<Rightarrow> 'c recovered option run"
where
  "recoverIntact api checksum metadata checkpoints now =
     (case checkpoints of
        [] \<Rightarrow> ret None
      | checkpoint # _ \<Rightarrow>
          if \<not> supportsDocumentSchema (cp_schema_version checkpoint) \<or> \<not> validChecksum checksum checkpoint then ret None
          else bnd (reads (updatesAfter (up_sequence checkpoint))) (\<lambda>updates.
            if \<not> list_all (validChecksum checksum) updates then ret None
            else case ca_load api Unvalidated (up_payload checkpoint) of
                   None \<Rightarrow> ret None
                 | Some base \<Rightarrow>
                     (case stage_and_finish api updates base of
                        None \<Rightarrow> ret None
                      | Some core \<Rightarrow>
                          let validThrough = last_sequence (up_sequence checkpoint) updates
                          in bnd (upgradeCheckpoint api checksum metadata core validThrough now) (\<lambda>_.
                               ret (Some \<lparr>rv_core = ca_reset api core, rv_appliedThrough = validThrough,
                                 rv_report = \<lparr>rr_checkpoint_sequence = up_sequence checkpoint,
                                   rr_replayed_updates = length updates, rr_quarantined_records = []\<rparr>\<rparr>)))))"

text \<open>What makes a checkpoint unusable, if anything; the message of the core's error is not modelled.\<close>

definition checkpoint_core ::
  "'c core_api \<Rightarrow> (bytes \<Rightarrow> js_string) \<Rightarrow> checkpoint_record \<Rightarrow> js_string + 'c"
where
  "checkpoint_core api checksum checkpoint =
     (if \<not> supportsDocumentSchema (cp_schema_version checkpoint)
      then Inl (js ''unsupported-checkpoint-schema:'' @ decimal_int (cp_schema_version checkpoint))
      else if \<not> validChecksum checksum checkpoint then Inl (js ''checkpoint-checksum-mismatch'')
      else case ca_load api RecoveryBase (up_payload checkpoint) of
             None \<Rightarrow> Inl (js ''invalid-checkpoint'')
           | Some core \<Rightarrow> Inr core)"

fun select_base ::
  "'c core_api \<Rightarrow> (bytes \<Rightarrow> js_string) \<Rightarrow> checkpoint_record list \<Rightarrow> (('c \<times> bytes \<times> int) option \<times> js_string list) run"
where
  "select_base api checksum [] = ret (None, [])"
| "select_base api checksum (checkpoint # rest) =
     (case checkpoint_core api checksum checkpoint of
        Inr core \<Rightarrow> ret (Some (core, up_payload checkpoint, up_sequence checkpoint), [])
      | Inl reason \<Rightarrow>
          let handle = checkpoint_handle (up_sequence checkpoint)
          in bnd (transact (quarantine (quarantine_row CheckpointKind handle reason checkpoint))) (\<lambda>_.
               bnd (select_base api checksum rest) (\<lambda>(selected, handles). ret (selected, handle # handles))))"

text \<open>The validating replay: updates one by one, everything after the first bad one set aside.\<close>

fun replay ::
  "'c core_api \<Rightarrow> (bytes \<Rightarrow> js_string) \<Rightarrow> bool \<Rightarrow> update_record list \<Rightarrow> 'c \<Rightarrow> int \<Rightarrow> 'c \<times> nat \<times> int \<times> quarantine_record list"
where
  "replay api checksum tailCorrupt [] core validThrough = (core, 0, validThrough, [])"
| "replay api checksum tailCorrupt (u # us) core validThrough =
     (let bad = (\<lambda>reason.
            let (core', n, through, corrupt) = replay api checksum True us core validThrough
            in (core', n, through, quarantine_row UpdateKind (update_handle (up_sequence u)) reason u # corrupt))
      in if tailCorrupt then bad (js ''after-corrupt-tail'')
         else if \<not> validChecksum checksum u then bad (js ''update-checksum-mismatch'')
         else case ca_importRecovery api (up_payload u) core of
                None \<Rightarrow> bad (js ''invalid-update'')
              | Some core' \<Rightarrow>
                  (let (core'', n, through, corrupt) = replay api checksum False us core' (up_sequence u)
                   in (core'', n + 1, through, corrupt)))"

text \<open>The tail over a selected base: staged at once when it is sound, else replayed.\<close>

definition replay_tail ::
  "'c core_api \<Rightarrow> (bytes \<Rightarrow> js_string) \<Rightarrow> 'c \<Rightarrow> bytes \<Rightarrow> int \<Rightarrow> update_record list \<Rightarrow> ('c \<times> nat \<times> int \<times> quarantine_record list) option"
where
  "replay_tail api checksum base payload sequence updates =
     (let slow = (\<lambda>core.
            let (core', n, through, corrupt) = replay api checksum False updates core sequence
            in map_option (\<lambda>finished. (finished, n, through, corrupt)) (ca_finish api core'))
      in if list_all (validChecksum checksum) updates
         then (case stage_and_finish api updates base of
                 Some core \<Rightarrow> Some (core, length updates, last_sequence sequence updates, [])
               | None \<Rightarrow> Option.bind (ca_load api RecoveryBase payload) slow)
         else slow base)"

definition fresh_base ::
  "'c core_api \<Rightarrow> (bytes \<Rightarrow> js_string) \<Rightarrow> js_string \<Rightarrow> ('c \<times> bytes \<times> int) run"
where
  "fresh_base api checksum now =
     (let core = ca_new api now; snapshot = ca_exportGc api core
      in bnd (transact (installCheckpoint checksum snapshot 0 SCHEMA_VERSION now)) (\<lambda>_. ret (core, snapshot, 0)))"

text \<open>What follows a replay: the corrupt rest is moved aside, or an old checkpoint rewritten.\<close>

definition publish_tail ::
  "'c core_api \<Rightarrow> (bytes \<Rightarrow> js_string) \<Rightarrow> metadata_record \<Rightarrow> js_string \<Rightarrow> 'c \<Rightarrow> int \<Rightarrow> quarantine_record list \<Rightarrow> unit run"
where
  "publish_tail api checksum metadata now core validThrough corruptTail =
     (if corruptTail \<noteq> []
      then bnd (transact (repairCorruptTail checksum (ca_exportGc api core) validThrough SCHEMA_VERSION corruptTail now))
             (\<lambda>_. ret ())
      else upgradeCheckpoint api checksum metadata core validThrough now)"

definition recover_from ::
  "'c core_api \<Rightarrow> (bytes \<Rightarrow> js_string) \<Rightarrow> metadata_record \<Rightarrow> js_string \<Rightarrow> js_string list \<Rightarrow> 'c \<times> bytes \<times> int \<Rightarrow> 'c recovered run"
where
  "recover_from api checksum metadata now handles = (\<lambda>(base, payload, sequence).
     bnd (reads (updatesAfter sequence)) (\<lambda>updates.
     bnd (orThrow (replay_tail api checksum base payload sequence updates)) (\<lambda>(core, n, validThrough, corruptTail).
     bnd (publish_tail api checksum metadata now core validThrough corruptTail) (\<lambda>_.
     ret \<lparr>rv_core = ca_reset api core, rv_appliedThrough = validThrough,
          rv_report = \<lparr>rr_checkpoint_sequence = sequence, rr_replayed_updates = n,
            rr_quarantined_records = handles @ map qr_export_handle corruptTail\<rparr>\<rparr>))))"

definition recoverGraph ::
  "'c core_api \<Rightarrow> (bytes \<Rightarrow> js_string) \<Rightarrow> metadata_record \<Rightarrow> js_string \<Rightarrow> 'c recovered run"
where
  "recoverGraph api checksum metadata now =
     bnd (reads checkpointsDescending) (\<lambda>checkpoints.
     bnd (recoverIntact api checksum metadata checkpoints now) (\<lambda>intact.
     case intact of
       Some r \<Rightarrow> ret r
     | None \<Rightarrow>
         bnd (select_base api checksum checkpoints) (\<lambda>(selected, handles).
         if selected = None \<and> checkpoints \<noteq> [] then fail (Refused CheckpointsInvalid)
         else bnd (case selected of Some base \<Rightarrow> ret base | None \<Rightarrow> fresh_base api checksum now)
                (recover_from api checksum metadata now handles))))"

subsection \<open>The open graph\<close>

datatype event_kind =
    SemanticKind js_string
  | SavedKind receipt
  | RemoteImportedKind

record graph_event =
  ge_cursor :: nat
  ge_remote :: bool
  ge_kind :: event_kind

record pending_write =
  pw_payload :: bytes
  pw_semantic :: js_string
  pw_createdAt :: js_string
  pw_base :: bytes

record outbox_frame =
  fr_message_id :: js_string
  fr_covers :: "js_string list"

record 'c open_state =
  os_core :: 'c
  os_events :: "graph_event list"
  os_nextCursor :: nat
  os_pending :: "pending_write option"
  os_remote :: bool
  os_appliedThrough :: int
  os_frame :: "outbox_frame option"

definition COMPACT_TAIL_UPDATES :: nat where "COMPACT_TAIL_UPDATES = 128"
definition COMPACT_TAIL_BYTES :: int where "COMPACT_TAIL_BYTES = 524288"
definition FRAME_UPDATE_BYTES :: int where "FRAME_UPDATE_BYTES = 262144"
definition FRAME_UPDATES :: nat where "FRAME_UPDATES = 256"
definition CORE_PORT_VERSION :: int where "CORE_PORT_VERSION = 5"

text \<open>\<open>push\<close>: the last 64 events are kept.\<close>

definition push :: "bool \<Rightarrow> event_kind \<Rightarrow> 'c open_state \<Rightarrow> 'c open_state" where
  "push remote kind st =
     (let events = os_events st @ [\<lparr>ge_cursor = os_nextCursor st, ge_remote = remote, ge_kind = kind\<rparr>]
      in st\<lparr>os_events := drop (length events - 64) events, os_nextCursor := os_nextCursor st + 1\<rparr>)"

record subscription =
  sb_events :: "graph_event list"
  sb_next_cursor :: nat
  sb_resync :: bool

definition subscribe :: "nat \<Rightarrow> 'c open_state \<Rightarrow> subscription" where
  "subscribe after_cursor st =
     (let latest = os_nextCursor st - 1;
          oldest = (case os_events st of [] \<Rightarrow> os_nextCursor st | e # _ \<Rightarrow> ge_cursor e)
      in if after_cursor + 1 < oldest
         then \<lparr>sb_events = [], sb_next_cursor = latest, sb_resync = True\<rparr>
         else \<lparr>sb_events = filter (\<lambda>e. after_cursor < ge_cursor e) (os_events st), sb_next_cursor = latest,
               sb_resync = False\<rparr>)"

definition opened :: "'c recovered \<Rightarrow> 'c open_state" where
  "opened r = \<lparr>os_core = rv_core r, os_events = [], os_nextCursor = 1, os_pending = None, os_remote = False,
     os_appliedThrough = rv_appliedThrough r, os_frame = None\<rparr>"

text \<open>\<open>openGraph\<close>: metadata, recovery, the names of the outbox.\<close>

definition openGraphRun ::
  "'c core_api \<Rightarrow> (bytes \<Rightarrow> js_string) \<Rightarrow> int \<Rightarrow> locator \<Rightarrow> js_string \<Rightarrow> int \<Rightarrow> 'c recovered run"
where
  "openGraphRun api checksum contract l now peer =
     (if contract \<noteq> CORE_PORT_VERSION then fail (Refused UnsupportedContract)
      else bnd (transact (openGraph l now peer)) (\<lambda>metadata.
          if \<not> supportsDocumentSchema (md_schema_version metadata) then fail (Refused UnsupportedSchema)
          else bnd (recoverGraph api checksum metadata now) (\<lambda>r.
               bnd (transact (normalizeOutbox checksum)) (\<lambda>_. ret r))))"

subsection \<open>Frames of the outbox\<close>

text \<open>How many of the waiting entries travel together.\<close>

fun carried_count :: "int \<Rightarrow> nat \<Rightarrow> bytes list \<Rightarrow> nat" where
  "carried_count bytes records [] = records"
| "carried_count bytes records (payload # rest) =
     (let bytes' = bytes + byteLength payload
      in if FRAME_UPDATE_BYTES < bytes' then records else carried_count bytes' (records + 1) rest)"

record sync_frame =
  sf_message_id :: js_string
  sf_base :: bytes
  sf_update :: bytes
  sf_history_epoch :: int

text \<open>The frame in flight is remembered before the metadata is read, so even when that fails.\<close>

definition syncNextFrame ::
  "'c core_api \<Rightarrow> (bytes \<Rightarrow> js_string) \<Rightarrow> storage_error + metadata_record \<Rightarrow> inspected_record list \<Rightarrow> 'c open_state
     \<Rightarrow> (storage_error + sync_frame option) \<times> 'c open_state"
where
  "syncNextFrame api checksum metadata pending st =
     (case pending of
        [] \<Rightarrow> (Inr None, st)
      | first # rest \<Rightarrow>
          let records = carried_count (byteLength (in_resolved first)) 1 (map in_resolved rest);
              carried = take records pending;
              merged = (if 1 < records then ca_merge api (map in_resolved carried) (os_core st) else None);
              update = (case merged of Some m \<Rightarrow> m | None \<Rightarrow> in_resolved first);
              covered = (if merged \<noteq> None then carried else [first]);
              message_id = (if merged \<noteq> None then checksum update else in_content_id first)
          in (map_sum id (\<lambda>m. Some \<lparr>sf_message_id = message_id,
                sf_base = ob_base_version_vector (in_persisted first), sf_update = update,
                sf_history_epoch = md_history_epoch m\<rparr>) metadata,
              st\<lparr>os_frame := Some \<lparr>fr_message_id = message_id, fr_covers = map in_content_id covered\<rparr>\<rparr>))"

text \<open>What an acknowledgement retires: all that the frame in flight carries, or the named entry.\<close>

definition ack_covers :: "js_string \<Rightarrow> 'c open_state \<Rightarrow> js_string list" where
  "ack_covers ident st =
     (case os_frame st of
        Some frame \<Rightarrow> if fr_message_id frame = ident then fr_covers frame else [ident]
      | None \<Rightarrow> [ident])"

subsection \<open>What the sync agent reads\<close>

record sync_summary =
  ss_version_vector :: bytes
  ss_pending :: nat
  ss_replica_id :: int
  ss_history_epoch :: int
  ss_has_server_base :: bool

definition syncState :: "'c core_api \<Rightarrow> 'c open_state \<Rightarrow> partition \<Rightarrow> storage_error + sync_summary" where
  "syncState api st p =
     map_sum id (\<lambda>m. \<lparr>ss_version_vector = ca_version api (os_core st), ss_pending = countPending p,
       ss_replica_id = md_replica_id m, ss_history_epoch = md_history_epoch m, ss_has_server_base = pt_server_base p\<rparr>)
       (metadata_of p)"

record sync_entry =
  se_message_id :: js_string
  se_local_sequence :: int
  se_base :: bytes
  se_bytes :: bytes
  se_history_epoch :: int

definition syncNext :: "(bytes \<Rightarrow> js_string) \<Rightarrow> partition \<Rightarrow> storage_error + sync_entry option" where
  "syncNext checksum p =
     (case peekNext checksum p of
        Inl e \<Rightarrow> Inl e
      | Inr None \<Rightarrow> Inr None
      | Inr (Some r) \<Rightarrow>
          map_sum id (\<lambda>m. Some \<lparr>se_message_id = in_content_id r, se_local_sequence = ob_sequence (in_persisted r),
            se_base = ob_base_version_vector (in_persisted r), se_bytes = in_resolved r,
            se_history_epoch = md_history_epoch m\<rparr>) (metadata_of p))"

subsection \<open>Requests and their jobs\<close>

text \<open>What a request to an open graph waits for; a cause says what it was asked to do.\<close>

datatype cause = ExecuteCause | RetryCause | ImportCause bytes | CloseCause

datatype save_status = Unchanged | SavedLocally receipt | UnsavedStatus storage_error

datatype 'c job =
    Appending cause
  | ReadingMetadata cause receipt
  | ReadingTail cause receipt int
  | Installing cause receipt bytes int js_string
  | ReadingSync bytes int bytes js_string
  | CountingPending bytes int bytes js_string
  | Replacing 'c bytes int bytes js_string

datatype db_answer =
    AppendAnswer "storage_error + receipt"
  | MetadataAnswer "storage_error + metadata_record"
  | TailAnswer "storage_error + update_record list"
  | InstallAnswer "storage_error + js_string"
  | SyncAnswer "storage_error + bool"
  | CountAnswer "storage_error + nat"
  | ReplaceAnswer "storage_error + int"

datatype outcome =
    OpenOutcome "worker_error + recovery_report"
  | ExecuteOutcome "worker_error + save_status"
  | RetryOutcome "worker_error + receipt"
  | ImportOutcome "worker_error + receipt"
  | ReplaceOutcome "worker_error + unit"
  | CloseOutcome "worker_error + unit"
  | DeleteOutcome "worker_error + unit"
  | InstallOutcome "worker_error + unit"

text \<open>
  \<open>ww_saved\<close> records what was reported as saved, since the history was last replaced: the sequence
  of the receipt and the update.
\<close>

record 'c worker_world =
  ww_db :: partition
  ww_state :: "'c open_state option"
  ww_job :: "('c job \<times> db_answer option) option"
  ww_outcomes :: "outcome list"
  ww_saved :: "(int \<times> bytes) list"

definition new_world :: "'c worker_world" where
  "new_world = \<lparr>ww_db = no_rows, ww_state = None, ww_job = None, ww_outcomes = [], ww_saved = []\<rparr>"

definition answer :: "outcome \<Rightarrow> 'c worker_world \<Rightarrow> 'c worker_world" where
  "answer out w = w\<lparr>ww_job := None, ww_outcomes := ww_outcomes w @ [out]\<rparr>"

definition await_job :: "'c job \<Rightarrow> 'c worker_world \<Rightarrow> 'c worker_world" where
  "await_job j w = w\<lparr>ww_job := Some (j, None)\<rparr>"

definition set_state :: "'c open_state \<Rightarrow> 'c worker_world \<Rightarrow> 'c worker_world" where
  "set_state st w = w\<lparr>ww_state := Some st\<rparr>"

definition no_receipt :: receipt where "no_receipt = \<lparr>rc_sequence = 0, rc_checksum = []\<rparr>"

text \<open>The failure of a save as the command reports it.\<close>

definition unsaved_error :: "storage_error \<Rightarrow> storage_error" where
  "unsaved_error e = e\<lparr>se_code := (if se_code e = StorageFull then StorageFull else DirtyUnsaved)\<rparr>"

definition execute :: "'c core_api \<Rightarrow> js_string \<Rightarrow> bool \<Rightarrow> js_string \<Rightarrow> 'c worker_world \<Rightarrow> 'c worker_world" where
  "execute api command timeout now w =
     (if timeout then answer (ExecuteOutcome (Inl (Refused CommandTimeout))) w
      else case ww_state w of
             None \<Rightarrow> answer (ExecuteOutcome (Inl (Refused NotOpen))) w
           | Some st \<Rightarrow>
               if os_pending st \<noteq> None then answer (ExecuteOutcome (Inl (Refused Unsaved))) w
               else case ca_execute api command (os_core st) of
                      None \<Rightarrow> answer (ExecuteOutcome (Inl (Refused CoreThrew))) w
                    | Some (core, semantic, update) \<Rightarrow>
                        if update = [] then answer (ExecuteOutcome (Inr Unchanged)) (set_state (st\<lparr>os_core := core\<rparr>) w)
                        else await_job (Appending ExecuteCause)
                          (set_state (st\<lparr>os_core := core, os_pending := Some
                             \<lparr>pw_payload = update, pw_semantic = semantic, pw_createdAt = now,
                              pw_base = ca_version api (os_core st)\<rparr>\<rparr>) w))"

definition retryPending :: "'c worker_world \<Rightarrow> 'c worker_world" where
  "retryPending w =
     (case ww_state w of
        None \<Rightarrow> answer (RetryOutcome (Inl (Refused NotOpen))) w
      | Some st \<Rightarrow>
          if os_pending st = None then answer (RetryOutcome (Inr no_receipt)) w
          else await_job (Appending RetryCause) w)"

definition syncImport :: "'c core_api \<Rightarrow> bytes \<Rightarrow> 'c worker_world \<Rightarrow> 'c worker_world" where
  "syncImport api update w =
     (case ww_state w of
        None \<Rightarrow> answer (ImportOutcome (Inl (Refused NotOpen))) w
      | Some st \<Rightarrow>
          if os_pending st \<noteq> None then answer (ImportOutcome (Inl (Refused Unsaved))) w
          else if \<not> ca_validate api update (os_core st) then answer (ImportOutcome (Inl (Refused CoreThrew))) w
          else await_job (Appending (ImportCause update)) w)"

definition closeGraph :: "'c worker_world \<Rightarrow> 'c worker_world" where
  "closeGraph w =
     (case ww_state w of
        None \<Rightarrow> answer (CloseOutcome (Inl (Refused NotOpen))) w
      | Some st \<Rightarrow>
          if os_pending st \<noteq> None then answer (CloseOutcome (Inl (Refused Unsaved))) w
          else await_job (ReadingMetadata CloseCause no_receipt) w)"

definition syncReplace :: "bytes \<Rightarrow> int \<Rightarrow> bytes \<Rightarrow> js_string \<Rightarrow> 'c worker_world \<Rightarrow> 'c worker_world" where
  "syncReplace checkpoint epoch vector now w =
     (case ww_state w of
        None \<Rightarrow> answer (ReplaceOutcome (Inl (Refused NotOpen))) w
      | Some st \<Rightarrow>
          if os_pending st \<noteq> None then answer (ReplaceOutcome (Inl (Refused Unsaved))) w
          else await_job (ReadingSync checkpoint epoch vector now) w)"

subsection \<open>The transactions of a job\<close>

text \<open>A transaction that only reads may fail too.\<close>

definition read_answer :: "fault option \<Rightarrow> 'a \<Rightarrow> storage_error + 'a" where
  "read_answer fault x = (case fault of Some (NotCommitted e) \<Rightarrow> Inl (mapDomError e) | _ \<Rightarrow> Inr x)"

definition append_request :: "cause \<Rightarrow> js_string \<Rightarrow> 'c open_state \<Rightarrow> bytes \<times> js_string \<times> bytes option" where
  "append_request c now st =
     (case (c, os_pending st) of
        (ImportCause update, _) \<Rightarrow> (update, now, None)
      | (_, Some pending) \<Rightarrow>
          (pw_payload pending, pw_createdAt pending, if os_remote st then Some (pw_base pending) else None)
      | (_, None) \<Rightarrow> ([], now, None))"

fun job_transaction ::
  "(bytes \<Rightarrow> js_string) \<Rightarrow> js_string \<Rightarrow> 'c job \<Rightarrow> 'c open_state \<Rightarrow> fault option \<Rightarrow> partition \<Rightarrow> db_answer \<times> partition"
where
  "job_transaction checksum now (Appending c) st fault p =
     (let (payload, created, base) = append_request c now st
      in map_prod AppendAnswer id (appendUpdate checksum payload created base fault p))"
| "job_transaction checksum now (ReadingMetadata c r) st fault p =
     (MetadataAnswer (case metadata_of p of Inl e \<Rightarrow> Inl e | Inr m \<Rightarrow> read_answer fault m), p)"
| "job_transaction checksum now (ReadingTail c r compactedThrough) st fault p =
     (TailAnswer (read_answer fault (updatesAfter compactedThrough p)), p)"
| "job_transaction checksum now (Installing c r checkpoint through created) st fault p =
     map_prod InstallAnswer id (installCheckpoint checksum checkpoint through SCHEMA_VERSION created fault p)"
| "job_transaction checksum now (ReadingSync checkpoint epoch vector created) st fault p =
     (SyncAnswer (read_answer fault (pt_server_base p)), p)"
| "job_transaction checksum now (CountingPending checkpoint epoch vector created) st fault p =
     (CountAnswer (read_answer fault (countPending p)), p)"
| "job_transaction checksum now (Replacing candidate checkpoint epoch vector created) st fault p =
     map_prod ReplaceAnswer id (replaceHistory checksum checkpoint epoch vector [] SCHEMA_VERSION created fault p)"

subsection \<open>Continuations\<close>

text \<open>Maintenance is over: the request it followed is answered. Closing alone hears of its failure.\<close>

definition maintained :: "cause \<Rightarrow> receipt \<Rightarrow> worker_error option \<Rightarrow> 'c worker_world \<Rightarrow> 'c worker_world" where
  "maintained c r failed w =
     (case c of
        ExecuteCause \<Rightarrow> answer (ExecuteOutcome (Inr (SavedLocally r))) w
      | RetryCause \<Rightarrow> answer (RetryOutcome (Inr r)) w
      | ImportCause _ \<Rightarrow> answer (ImportOutcome (Inr r)) w
      | CloseCause \<Rightarrow>
          (case failed of
             Some e \<Rightarrow> answer (CloseOutcome (Inl e)) w
           | None \<Rightarrow> answer (CloseOutcome (Inr ())) (w\<lparr>ww_state := None\<rparr>)))"

definition record_saved :: "receipt \<Rightarrow> bytes \<Rightarrow> 'c worker_world \<Rightarrow> 'c worker_world" where
  "record_saved r payload w = w\<lparr>ww_saved := ww_saved w @ [(rc_sequence r, payload)]\<rparr>"

text \<open>The rest of \<open>persistPending\<close>, and of \<open>syncImport\<close>, once the append has answered.\<close>

definition persisted :: "cause \<Rightarrow> receipt \<Rightarrow> 'c open_state \<Rightarrow> pending_write \<Rightarrow> 'c worker_world \<Rightarrow> 'c worker_world" where
  "persisted c r st pending w =
     (let st' = push False (SavedKind r) (push False (SemanticKind (pw_semantic pending)) st)
      in await_job (ReadingMetadata c r) (record_saved r (pw_payload pending)
           (set_state (st'\<lparr>os_pending := None, os_appliedThrough := max (os_appliedThrough st) (rc_sequence r)\<rparr>) w)))"

definition imported :: "'c core_api \<Rightarrow> bytes \<Rightarrow> receipt \<Rightarrow> 'c open_state \<Rightarrow> 'c worker_world \<Rightarrow> 'c worker_world" where
  "imported api update r st w =
     (case ca_import api update (os_core st) of
        None \<Rightarrow> answer (ImportOutcome (Inl (Refused CoreThrew))) w
      | Some core \<Rightarrow>
          let st' = push True (SavedKind r) (push True RemoteImportedKind st)
          in await_job (ReadingMetadata (ImportCause update) r) (record_saved r update
               (set_state (st'\<lparr>os_core := core, os_appliedThrough := max (os_appliedThrough st) (rc_sequence r)\<rparr>) w)))"

definition append_answered :: "'c core_api \<Rightarrow> cause \<Rightarrow> storage_error + receipt \<Rightarrow> 'c open_state \<Rightarrow> 'c worker_world \<Rightarrow> 'c worker_world" where
  "append_answered api c result st w =
     (case (c, result, os_pending st) of
        (ImportCause update, Inl e, _) \<Rightarrow> answer (ImportOutcome (Inl (StorageFailure e))) w
      | (ImportCause update, Inr r, _) \<Rightarrow> imported api update r st w
      | (ExecuteCause, Inl e, _) \<Rightarrow> answer (ExecuteOutcome (Inr (UnsavedStatus (unsaved_error e)))) w
      | (_, Inl e, _) \<Rightarrow> answer (RetryOutcome (Inl (StorageFailure e))) w
      | (_, Inr r, Some pending) \<Rightarrow> persisted c r st pending w
      | (_, Inr r, None) \<Rightarrow> w)"

text \<open>\<open>maybeCompact\<close> with the tail behind the last checkpoint.\<close>

definition compact_now ::
  "'c core_api \<Rightarrow> cause \<Rightarrow> receipt \<Rightarrow> int \<Rightarrow> update_record list \<Rightarrow> js_string \<Rightarrow> 'c open_state \<Rightarrow> 'c worker_world \<Rightarrow> 'c worker_world"
where
  "compact_now api c r compactedThrough uncompacted now st w =
     (if c \<noteq> CloseCause \<and> length uncompacted < COMPACT_TAIL_UPDATES \<and> total_bytes uncompacted < COMPACT_TAIL_BYTES
      then maintained c r None w
      else if os_appliedThrough st \<le> compactedThrough then maintained c r None w
      else let checkpoint = (if os_remote st then ca_export api (os_core st) else ca_exportGc api (os_core st))
           in case ca_load api Validated checkpoint of
                None \<Rightarrow> maintained c r (Some (Refused CoreThrew)) w
              | Some _ \<Rightarrow> await_job (Installing c r checkpoint (os_appliedThrough st) now) w)"

definition replaced :: "'c \<Rightarrow> int \<Rightarrow> 'c open_state \<Rightarrow> 'c worker_world \<Rightarrow> 'c worker_world" where
  "replaced candidate sequence st w =
     answer (ReplaceOutcome (Inr ()))
       (set_state (push True RemoteImportedKind (st\<lparr>os_appliedThrough := sequence, os_core := candidate\<rparr>)) w)"

definition tail_read ::
  "'c core_api \<Rightarrow> js_string \<Rightarrow> cause \<Rightarrow> receipt \<Rightarrow> int \<Rightarrow> storage_error + update_record list \<Rightarrow> 'c open_state
     \<Rightarrow> 'c worker_world \<Rightarrow> 'c worker_world"
where
  "tail_read api now c r through result st w =
     (case result of
        Inl e \<Rightarrow> maintained c r (Some (StorageFailure e)) w
      | Inr updates \<Rightarrow> compact_now api c r through updates now st w)"

definition sync_read :: "'c job \<Rightarrow> storage_error + bool \<Rightarrow> 'c worker_world \<Rightarrow> 'c worker_world" where
  "sync_read counting result w =
     (case result of
        Inl e \<Rightarrow> answer (ReplaceOutcome (Inl (StorageFailure e))) w
      | Inr base \<Rightarrow>
          if base then answer (ReplaceOutcome (Inl (Refused ResyncRequired))) w else await_job counting w)"

definition pending_counted ::
  "'c core_api \<Rightarrow> bytes \<Rightarrow> int \<Rightarrow> bytes \<Rightarrow> js_string \<Rightarrow> storage_error + nat \<Rightarrow> 'c worker_world \<Rightarrow> 'c worker_world"
where
  "pending_counted api checkpoint epoch vector created result w =
     (case result of
        Inl e \<Rightarrow> answer (ReplaceOutcome (Inl (StorageFailure e))) w
      | Inr n \<Rightarrow>
          if 0 < n then answer (ReplaceOutcome (Inl (Refused ResyncRequired))) w
          else case ca_load api Validated checkpoint of
                 None \<Rightarrow> answer (ReplaceOutcome (Inl (Refused CoreThrew))) w
               | Some candidate \<Rightarrow> await_job (Replacing (ca_reset api candidate) checkpoint epoch vector created) w)"

text \<open>Replacing the history forgets what was saved before it.\<close>

definition replace_answered :: "'c \<Rightarrow> storage_error + int \<Rightarrow> 'c open_state \<Rightarrow> 'c worker_world \<Rightarrow> 'c worker_world" where
  "replace_answered candidate result st w =
     (case result of
        Inl e \<Rightarrow> answer (ReplaceOutcome (Inl (StorageFailure e))) w
      | Inr s \<Rightarrow> replaced candidate s st w)"

definition job_continues ::
  "'c core_api \<Rightarrow> js_string \<Rightarrow> 'c job \<Rightarrow> db_answer \<Rightarrow> 'c open_state \<Rightarrow> 'c worker_world \<Rightarrow> 'c worker_world"
where
  "job_continues api now j a st w =
     (case j of
        Appending c \<Rightarrow> (case a of AppendAnswer result \<Rightarrow> append_answered api c result st w | _ \<Rightarrow> w)
      | ReadingMetadata c r \<Rightarrow>
          (case a of
             MetadataAnswer (Inl e) \<Rightarrow> maintained c r (Some (StorageFailure e)) w
           | MetadataAnswer (Inr m) \<Rightarrow> await_job (ReadingTail c r (md_compacted_through m)) w
           | _ \<Rightarrow> w)
      | ReadingTail c r through \<Rightarrow> (case a of TailAnswer result \<Rightarrow> tail_read api now c r through result st w | _ \<Rightarrow> w)
      | Installing c r checkpoint through created \<Rightarrow>
          (case a of
             InstallAnswer (Inl e) \<Rightarrow> maintained c r (Some (StorageFailure e)) w
           | InstallAnswer (Inr _) \<Rightarrow> maintained c r None w
           | _ \<Rightarrow> w)
      | ReadingSync checkpoint epoch vector created \<Rightarrow>
          (case a of SyncAnswer result \<Rightarrow> sync_read (CountingPending checkpoint epoch vector created) result w | _ \<Rightarrow> w)
      | CountingPending checkpoint epoch vector created \<Rightarrow>
          (case a of CountAnswer result \<Rightarrow> pending_counted api checkpoint epoch vector created result w | _ \<Rightarrow> w)
      | Replacing candidate checkpoint epoch vector created \<Rightarrow>
          (case a of ReplaceAnswer result \<Rightarrow> replace_answered candidate result st w | _ \<Rightarrow> w))"

subsection \<open>Events\<close>

datatype worker_event =
    OpenEvent int locator js_string int "dom_error option list"
  | ExecuteEvent js_string bool js_string
  | RetryEvent
  | ImportEvent bytes
  | ReplaceEvent bytes int bytes js_string
  | CloseEvent
  | ReleaseEvent
  | ConfigureSyncEvent
  | CommitEvent js_string "dom_error option"
  | DeliverEvent js_string
  | FrameEvent
  | AckEvent js_string "dom_error option"
  | DeleteEvent "dom_error option"
  | InstallEvent locator int bytes js_string js_string int bool "dom_error option"
  | CrashEvent

definition open_graph ::
  "'c core_api \<Rightarrow> (bytes \<Rightarrow> js_string) \<Rightarrow> int \<Rightarrow> locator \<Rightarrow> js_string \<Rightarrow> int \<Rightarrow> fault option list \<Rightarrow> 'c worker_world \<Rightarrow> 'c worker_world"
where
  "open_graph api checksum contract l now peer faults w =
     (if contract \<noteq> CORE_PORT_VERSION then answer (OpenOutcome (Inl (Refused UnsupportedContract))) w
      else if ww_state w \<noteq> None then answer (OpenOutcome (Inl (Refused AlreadyOpen))) w
      else case openGraphRun api checksum contract l now peer (ww_db w, faults) of
             (Inl e, p, _) \<Rightarrow> answer (OpenOutcome (Inl e)) (w\<lparr>ww_db := p\<rparr>)
           | (Inr r, p, _) \<Rightarrow> answer (OpenOutcome (Inr (rv_report r))) (w\<lparr>ww_db := p, ww_state := Some (opened r)\<rparr>))"

definition releaseGraph :: "'c worker_world \<Rightarrow> 'c worker_world" where
  "releaseGraph w = w\<lparr>ww_state := None\<rparr>"

definition commit_job :: "(bytes \<Rightarrow> js_string) \<Rightarrow> js_string \<Rightarrow> fault option \<Rightarrow> 'c worker_world \<Rightarrow> 'c worker_world" where
  "commit_job checksum now fault w =
     (case (ww_job w, ww_state w) of
        (Some (j, None), Some st) \<Rightarrow>
          (case job_transaction checksum now j st fault (ww_db w) of
             (a, p) \<Rightarrow> (case (j, a) of
                 (Replacing _ _ _ _ _, ReplaceAnswer (Inr _)) \<Rightarrow> w\<lparr>ww_db := p, ww_job := Some (j, Some a), ww_saved := []\<rparr>
               | _ \<Rightarrow> w\<lparr>ww_db := p, ww_job := Some (j, Some a)\<rparr>))
      | _ \<Rightarrow> w)"

definition deliver_job :: "'c core_api \<Rightarrow> js_string \<Rightarrow> 'c worker_world \<Rightarrow> 'c worker_world" where
  "deliver_job api now w =
     (case (ww_job w, ww_state w) of
        (Some (j, Some a), Some st) \<Rightarrow> job_continues api now j a st w
      | _ \<Rightarrow> w)"

definition worker_frame :: "'c core_api \<Rightarrow> (bytes \<Rightarrow> js_string) \<Rightarrow> 'c worker_world \<Rightarrow> 'c worker_world" where
  "worker_frame api checksum w =
     (case (ww_state w, outbox checksum (Some FRAME_UPDATES) (ww_db w)) of
        (Some st, Inr pending) \<Rightarrow> set_state (snd (syncNextFrame api checksum (metadata_of (ww_db w)) pending st)) w
      | _ \<Rightarrow> w)"

definition syncAck :: "js_string \<Rightarrow> fault option \<Rightarrow> 'c worker_world \<Rightarrow> 'c worker_world" where
  "syncAck ident fault w =
     (case ww_state w of
        None \<Rightarrow> w
      | Some st \<Rightarrow>
          (case acknowledge (ack_covers ident st) fault (ww_db w) of
             (Inl _, p) \<Rightarrow> w\<lparr>ww_db := p\<rparr>
           | (Inr _, p) \<Rightarrow>
               set_state (case os_frame st of
                   Some frame \<Rightarrow> if fr_message_id frame = ident then st\<lparr>os_frame := None\<rparr> else st
                 | None \<Rightarrow> st) (w\<lparr>ww_db := p\<rparr>)))"

definition deleteGraph :: "fault option \<Rightarrow> 'c worker_world \<Rightarrow> 'c worker_world" where
  "deleteGraph fault w =
     (if ww_state w \<noteq> None then answer (DeleteOutcome (Inl (Refused InvalidRequest))) w
      else case deleteLocal fault (ww_db w) of
             (Inl e, p) \<Rightarrow> answer (DeleteOutcome (Inl (StorageFailure e))) (w\<lparr>ww_db := p\<rparr>)
           | (Inr _, p) \<Rightarrow> answer (DeleteOutcome (Inr ())) (w\<lparr>ww_db := p, ww_saved := []\<rparr>))"

definition installArchive ::
  "'c core_api \<Rightarrow> (bytes \<Rightarrow> js_string) \<Rightarrow> locator \<Rightarrow> int \<Rightarrow> bytes \<Rightarrow> js_string \<Rightarrow> js_string \<Rightarrow> int \<Rightarrow> bool \<Rightarrow> fault option
     \<Rightarrow> 'c worker_world \<Rightarrow> 'c worker_world"
where
  "installArchive api checksum l replica checkpoint expected created epoch base fault w =
     (if checksum checkpoint \<noteq> expected then answer (InstallOutcome (Inl (Refused InvalidRequest))) w
      else if ca_load api Validated checkpoint = None then answer (InstallOutcome (Inl (Refused CoreThrew))) w
      else case installImportedGraph checksum l replica SCHEMA_VERSION checkpoint created epoch base fault (ww_db w) of
             (Inl e, p) \<Rightarrow> answer (InstallOutcome (Inl (StorageFailure e))) (w\<lparr>ww_db := p\<rparr>)
           | (Inr _, p) \<Rightarrow> answer (InstallOutcome (Inr ())) (w\<lparr>ww_db := p\<rparr>))"

definition crash :: "'c worker_world \<Rightarrow> 'c worker_world" where
  "crash w = w\<lparr>ww_state := None, ww_job := None\<rparr>"

text \<open>A transaction of the browser either commits or reports why not.\<close>

definition browser_fault :: "dom_error option \<Rightarrow> fault option" where
  "browser_fault e = map_option NotCommitted e"

text \<open>A request of the lane starts when the one before it has been answered.\<close>

definition in_lane :: "('c worker_world \<Rightarrow> 'c worker_world) \<Rightarrow> 'c worker_world \<Rightarrow> 'c worker_world" where
  "in_lane request w = (if ww_job w = None then request w else w)"

fun worker_step :: "'c core_api \<Rightarrow> (bytes \<Rightarrow> js_string) \<Rightarrow> worker_event \<Rightarrow> 'c worker_world \<Rightarrow> 'c worker_world" where
  "worker_step api checksum (OpenEvent contract l now peer faults) w =
     in_lane (open_graph api checksum contract l now peer (map browser_fault faults)) w"
| "worker_step api checksum (ExecuteEvent command timeout now) w = in_lane (execute api command timeout now) w"
| "worker_step api checksum RetryEvent w = in_lane retryPending w"
| "worker_step api checksum (ImportEvent update) w = in_lane (syncImport api update) w"
| "worker_step api checksum (ReplaceEvent checkpoint epoch vector now) w = in_lane (syncReplace checkpoint epoch vector now) w"
| "worker_step api checksum CloseEvent w = in_lane closeGraph w"
| "worker_step api checksum ReleaseEvent w = in_lane releaseGraph w"
| "worker_step api checksum ConfigureSyncEvent w =
     (case ww_state w of None \<Rightarrow> w | Some st \<Rightarrow> set_state (st\<lparr>os_remote := True\<rparr>) w)"
| "worker_step api checksum (CommitEvent now fault) w = commit_job checksum now (browser_fault fault) w"
| "worker_step api checksum (DeliverEvent now) w = deliver_job api now w"
| "worker_step api checksum FrameEvent w = worker_frame api checksum w"
| "worker_step api checksum (AckEvent ident fault) w = syncAck ident (browser_fault fault) w"
| "worker_step api checksum (DeleteEvent fault) w = in_lane (deleteGraph (browser_fault fault)) w"
| "worker_step api checksum (InstallEvent l replica checkpoint expected created epoch base fault) w =
     in_lane (installArchive api checksum l replica checkpoint expected created epoch base (browser_fault fault)) w"
| "worker_step api checksum CrashEvent w = crash w"

definition worker_run :: "'c core_api \<Rightarrow> (bytes \<Rightarrow> js_string) \<Rightarrow> worker_event list \<Rightarrow> 'c worker_world" where
  "worker_run api checksum events = fold (worker_step api checksum) events new_world"

end
