(* ===== verification/Recovery_Safety.thy ===== *)
theory Recovery_Safety
  imports Graph_Worker
begin

text \<open>
  Recovery from a store that anything may have happened to: whatever the checkpoints and updates
  hold and whatever the core makes of them, an update is replayed or set aside, in order, and the
  first one set aside is one that is really bad.
\<close>

subsection \<open>Names of records that are set aside\<close>

declare decimal.simps [simp del]

lemma decimal_digit:
  assumes "48 + of_nat d = (48 + of_nat e :: 16 word)" "d < 10" "e < 10"
  shows "d = e"
proof -
  have "of_nat d = (of_nat e :: 16 word)"
    using assms(1) by simp
  then have "unat (of_nat d :: 16 word) = unat (of_nat e :: 16 word)"
    by simp
  then show ?thesis
    using assms(2,3) by (simp add: unat_of_nat)
qed

lemma decimal_nonempty: "decimal n \<noteq> []"
  by (subst decimal.simps) simp

lemma decimal_inject: "decimal m = decimal n \<Longrightarrow> m = n"
proof (induction m arbitrary: n rule: decimal.induct)
  case (1 m)
  consider "m < 10" "n < 10" | "m < 10" "\<not> n < 10" | "\<not> m < 10" "n < 10" | "\<not> m < 10" "\<not> n < 10"
    by blast
  then show ?case
  proof cases
    case 1
    then show ?thesis
      using "1.prems" decimal_digit by (simp add: decimal.simps [of m] decimal.simps [of n])
  next
    case 4
    then have "decimal (m div 10) = decimal (n div 10)" "m mod 10 = n mod 10"
      using "1.prems" decimal_digit [of "m mod 10" "n mod 10"] by (simp_all add: decimal.simps [of m] decimal.simps [of n])
    then have "m div 10 = n div 10" "m mod 10 = n mod 10"
      using "1.IH" 4 by simp_all
    then show ?thesis
      by (metis div_mult_mod_eq)
  qed (use "1.prems" in \<open>simp_all add: decimal.simps [of m] decimal.simps [of n] decimal_nonempty decimal_nonempty [symmetric]\<close>)
qed

lemma decimal_digits: "c \<in> set (decimal n) \<Longrightarrow> c \<noteq> 45"
proof (induction n rule: decimal.induct)
  case (1 n)
  have "48 + of_nat d \<noteq> (45 :: 16 word)" if "d < 10" for d
  proof -
    have "d \<in> {0, 1, 2, 3, 4, 5, 6, 7, 8, 9}"
      using that by auto
    then show ?thesis
      by auto
  qed
  then show ?case
    using 1 by (subst (asm) decimal.simps) (auto split: if_splits)
qed

lemma decimal_int_inject: "decimal_int m = decimal_int n \<longleftrightarrow> m = n"
proof -
  have no: "js ''-'' @ decimal a \<noteq> decimal b" for a b
  proof
    assume "js ''-'' @ decimal a = decimal b"
    then have "hd (js ''-'') \<in> set (decimal b)"
      by (metis append_is_Nil_conv decimal_nonempty hd_append hd_in_set js_def list.map_disc_iff not_Cons_self2)
    then show False
      using decimal_digits by (auto simp: js_def)
  qed
  show ?thesis
    using decimal_inject no no [symmetric] by (force simp: decimal_int_def split: if_splits)
qed

lemma handles:
  "update_handle m = update_handle n \<longleftrightarrow> m = n" "checkpoint_handle m = checkpoint_handle n \<longleftrightarrow> m = n"
  "update_handle m \<noteq> checkpoint_handle n" "checkpoint_handle n \<noteq> update_handle m"
  by (simp_all add: update_handle_def checkpoint_handle_def decimal_int_inject js_def)

subsection \<open>Rows that are set aside\<close>

definition set_aside :: "record_kind \<Rightarrow> js_string \<Rightarrow> 'r update_record_scheme \<Rightarrow> partition \<Rightarrow> bool" where
  "set_aside kind handle row p \<longleftrightarrow>
     (\<exists>q \<in> set (pt_quarantine p). qr_record_kind q = kind \<and> qr_export_handle q = handle
        \<and> up_sequence q = up_sequence row \<and> up_checksum q = up_checksum row \<and> up_payload q = up_payload row)"

lemma put_row_member: "r \<in> set (put_row key r rows)"
  by (induction rows) auto

lemma put_row_keeps: "x \<in> set rows \<Longrightarrow> key x \<noteq> key r \<Longrightarrow> x \<in> set (put_row key r rows)"
  by (induction rows) auto

lemma put_quarantine_rows:
  "q \<in> set (pt_quarantine (put_quarantine q p))"
  "x \<in> set (pt_quarantine p) \<Longrightarrow> qr_export_handle x \<noteq> qr_export_handle q \<Longrightarrow> x \<in> set (pt_quarantine (put_quarantine q p))"
  by (simp_all add: put_quarantine_def put_row_member put_row_keeps)

lemma put_all_keeps:
  assumes "x \<in> set (pt_quarantine p)" "qr_export_handle x \<notin> qr_export_handle ` set qs"
  shows "x \<in> set (pt_quarantine (fold put_quarantine qs p))"
  using assms by (induction qs arbitrary: p) (simp_all add: put_quarantine_rows)

lemma put_all_members:
  assumes "distinct (map qr_export_handle qs)" "q \<in> set qs"
  shows "q \<in> set (pt_quarantine (fold put_quarantine qs p))"
  using assms by (induction qs arbitrary: p) (auto intro: put_all_keeps put_quarantine_rows(1))

lemma put_all_fields [simp]:
  "pt_updates (fold put_quarantine qs p) = pt_updates p" "pt_checkpoints (fold put_quarantine qs p) = pt_checkpoints p"
  by (induction qs arbitrary: p) (simp_all add: put_quarantine_def)

subsection \<open>Computations that succeed\<close>

lemma bnd_Inr: "bnd m k s = (Inr x, s') \<longleftrightarrow> (\<exists>y s1. m s = (Inr y, s1) \<and> k y s1 = (Inr x, s'))"
  by (auto simp: bnd_def split: prod.splits sum.splits)

lemma ret_Inr: "ret y s = (Inr x, s') \<longleftrightarrow> x = y \<and> s' = s"
  by (auto simp: ret_def)

lemma fail_Inr: "fail e s = (Inr x, s') \<longleftrightarrow> False"
  by (simp add: fail_def)

lemma reads_Inr: "reads f s = (Inr x, s') \<longleftrightarrow> x = f (fst s) \<and> s' = s"
  by (auto simp: reads_def)

lemma orThrow_Inr: "orThrow y s = (Inr x, s') \<longleftrightarrow> y = Some x \<and> s' = s"
  by (auto simp: orThrow_def ret_def fail_def split: option.split)

lemma transact_Inr:
  assumes "transact f s = (Inr x, s')"
  shows "\<exists>fault. f fault (fst s) = (Inr x, fst s')"
proof -
  obtain fault faults where next_fault: "(case snd s of [] \<Rightarrow> (None, []) | f # fs \<Rightarrow> (f, fs)) = (fault, faults)"
    by (metis surj_pair)
  obtain answer p where "f fault (fst s) = (answer, p)"
    by (metis surj_pair)
  then show ?thesis
    using assms next_fault by (cases answer) (auto simp: transact_def)
qed

lemma complete_Inr: "complete fault y after before = (Inr x, p) \<longleftrightarrow> x = y \<and> p = after \<and> fault = None"
  by (auto simp: complete_def split: option.splits fault.splits)

lemmas run_Inr = bnd_Inr ret_Inr fail_Inr reads_Inr orThrow_Inr

subsection \<open>The validating replay\<close>

fun import_all :: "'c core_api \<Rightarrow> update_record list \<Rightarrow> 'c \<Rightarrow> 'c option" where
  "import_all api [] core = Some core"
| "import_all api (u # us) core =
     (case ca_importRecovery api (up_payload u) core of None \<Rightarrow> None | Some core' \<Rightarrow> import_all api us core')"

text \<open>The rows of the updates \<open>us\<close> as they are set aside.\<close>

definition rows_of :: "update_record list \<Rightarrow> quarantine_record list \<Rightarrow> bool" where
  "rows_of us qs \<longleftrightarrow>
     list_all2 (\<lambda>u q. \<exists>reason. q = quarantine_row UpdateKind (update_handle (up_sequence u)) reason u) us qs"

definition bad_after :: "'c core_api \<Rightarrow> (bytes \<Rightarrow> js_string) \<Rightarrow> update_record \<Rightarrow> 'c \<Rightarrow> bool" where
  "bad_after api checksum u core \<longleftrightarrow> \<not> validChecksum checksum u \<or> ca_importRecovery api (up_payload u) core = None"

lemma replay_corrupt:
  "replay api checksum True us core start = (core', n, through, corrupt) \<Longrightarrow>
     core' = core \<and> n = 0 \<and> through = start \<and> rows_of us corrupt"
  by (induction us arbitrary: corrupt n core' through) (auto simp: rows_of_def split: prod.splits)

lemma last_sequence_Cons: "last_sequence start (u # us) = last_sequence (up_sequence u) us"
  by (simp add: last_sequence_def)

lemma replay_prefix:
  "replay api checksum False us core start = (core', n, through, corrupt) \<Longrightarrow>
     n \<le> length us \<and> import_all api (take n us) core = Some core' \<and> through = last_sequence start (take n us)
     \<and> rows_of (drop n us) corrupt \<and> (n < length us \<longrightarrow> bad_after api checksum (us ! n) core')"
proof (induction us arbitrary: core start core' n through corrupt)
  case Nil
  then show ?case
    by (simp add: last_sequence_def rows_of_def)
next
  case (Cons u us)
  show ?case
  proof (cases "bad_after api checksum u core")
    case True
    then obtain core2 n2 through2 corrupt2 reason where
        r: "replay api checksum True us core start = (core2, n2, through2, corrupt2)"
        "(core', n, through, corrupt) =
          (core2, n2, through2, quarantine_row UpdateKind (update_handle (up_sequence u)) reason u # corrupt2)"
      using Cons.prems by (auto simp: bad_after_def Let_def split: if_splits option.splits prod.splits)
    then show ?thesis
      using replay_corrupt [OF r(1)] True by (auto simp: last_sequence_def rows_of_def)
  next
    case False
    then obtain c where c: "ca_importRecovery api (up_payload u) core = Some c" "validChecksum checksum u"
      by (auto simp: bad_after_def)
    then obtain m where m: "replay api checksum False us c (up_sequence u) = (core', m, through, corrupt)" "n = m + 1"
      using Cons.prems by (auto split: prod.splits)
    show ?thesis
      using Cons.IH [OF m(1)] m(2) c(1) by (simp add: last_sequence_Cons)
  qed
qed

text \<open>
  A core recovered from a base \<open>b\<close> with the first \<open>n\<close> updates: all of them at once, or one by one up
  to one that is bad.
\<close>

definition recovered_with ::
  "'c core_api \<Rightarrow> (bytes \<Rightarrow> js_string) \<Rightarrow> 'c \<Rightarrow> update_record list \<Rightarrow> nat \<Rightarrow> 'c \<Rightarrow> bool"
where
  "recovered_with api checksum b updates n core \<longleftrightarrow>
     n \<le> length updates
     \<and> (n = length updates \<and> stage_and_finish api updates b = Some core
        \<or> (\<exists>c. import_all api (take n updates) b = Some c \<and> ca_finish api c = Some core
             \<and> (n < length updates \<longrightarrow> bad_after api checksum (updates ! n) c)))"

lemma replay_tail_prefix:
  assumes "replay_tail api checksum base payload sequence updates = Some (core, n, through, corrupt)"
  shows "\<exists>b. (b = base \<or> ca_load api RecoveryBase payload = Some b) \<and> recovered_with api checksum b updates n core
     \<and> through = last_sequence sequence (take n updates) \<and> rows_of (drop n updates) corrupt"
proof -
  define slow where "slow = (\<lambda>b. let (core', n, through, corrupt) = replay api checksum False updates b sequence
      in map_option (\<lambda>finished. (finished, n, through, corrupt)) (ca_finish api core'))"
  have slow: "recovered_with api checksum b updates n core \<and> through = last_sequence sequence (take n updates)
      \<and> rows_of (drop n updates) corrupt" if result: "slow b = Some (core, n, through, corrupt)" for b
  proof -
    obtain c where r: "replay api checksum False updates b sequence = (c, n, through, corrupt)" "ca_finish api c = Some core"
      using result by (auto simp: slow_def split: prod.splits)
    show ?thesis
      using replay_prefix [OF r(1)] r(2) by (auto simp: recovered_with_def)
  qed
  have tail: "(if list_all (validChecksum checksum) updates
        then (case stage_and_finish api updates base of
                Some core \<Rightarrow> Some (core, length updates, last_sequence sequence updates, [])
              | None \<Rightarrow> Option.bind (ca_load api RecoveryBase payload) slow)
        else slow base) = Some (core, n, through, corrupt)"
    using assms unfolding replay_tail_def slow_def Let_def .
  consider (fast) "stage_and_finish api updates base = Some core" "n = length updates"
      "through = last_sequence sequence updates" "corrupt = []"
    | (slow) b where "b = base \<or> ca_load api RecoveryBase payload = Some b" "slow b = Some (core, n, through, corrupt)"
    using tail by (auto split: if_splits option.splits bind_splits)
  then show ?thesis
  proof cases
    case fast
    then show ?thesis
      by (intro exI [of _ base]) (simp add: recovered_with_def rows_of_def)
  qed (use slow in blast)
qed

subsection \<open>Checkpoints that are passed over\<close>

definition passed_over :: "checkpoint_record \<Rightarrow> js_string list \<Rightarrow> partition \<Rightarrow> bool" where
  "passed_over cp names p \<longleftrightarrow>
     checkpoint_handle (up_sequence cp) \<in> set names
     \<and> set_aside CheckpointKind (checkpoint_handle (up_sequence cp)) cp p"

lemma set_aside_put: "set_aside kind handle row (put_quarantine (quarantine_row kind handle reason row) p)"
  unfolding set_aside_def by (rule bexI [OF _ put_quarantine_rows(1)]) (simp add: quarantine_row_def)

lemma set_aside_keeps:
  assumes "set_aside kind handle row p"
    and "\<And>q. q \<in> set (pt_quarantine p) \<Longrightarrow> qr_export_handle q = handle \<Longrightarrow> q \<in> set (pt_quarantine p')"
  shows "set_aside kind handle row p'"
  using assms unfolding set_aside_def by blast

lemma select_base_passes:
  assumes "select_base api checksum cps s = (Inr (selected, names), s')" "distinct (map up_sequence cps)"
  shows "pt_updates (fst s') = pt_updates (fst s) \<and> pt_checkpoints (fst s') = pt_checkpoints (fst s)
     \<and> (\<forall>q \<in> set (pt_quarantine (fst s)). qr_export_handle q \<notin> (\<lambda>cp. checkpoint_handle (up_sequence cp)) ` set cps \<longrightarrow>
          q \<in> set (pt_quarantine (fst s')))
     \<and> (case selected of
          None \<Rightarrow> \<forall>cp \<in> set cps. passed_over cp names (fst s')
        | Some (core, payload, sequence) \<Rightarrow> \<exists>pre cp post. cps = pre @ cp # post \<and> up_sequence cp = sequence
            \<and> up_payload cp = payload \<and> validChecksum checksum cp \<and> ca_load api RecoveryBase payload = Some core
            \<and> (\<forall>cp \<in> set pre. passed_over cp names (fst s')))"
  using assms
proof (induction api checksum cps arbitrary: s selected names rule: select_base.induct)
  case (1 api checksum)
  then show ?case
    by (auto simp: run_Inr)
next
  case (2 api checksum cp rest)
  show ?case
  proof (cases "checkpoint_core api checksum cp")
    case (Inr core)
    then have r: "selected = Some (core, up_payload cp, up_sequence cp)" "names = []" "s' = s"
      using "2.prems"(1) by (simp_all add: run_Inr)
    have "validChecksum checksum cp" "ca_load api RecoveryBase (up_payload cp) = Some core"
      using Inr by (auto simp: checkpoint_core_def split: if_splits option.splits)
    then show ?thesis
      using r by (auto intro!: exI [of _ "[]"])
  next
    case (Inl reason)
    let ?row = "quarantine_row CheckpointKind (checkpoint_handle (up_sequence cp)) reason cp"
    obtain s1 names1 fault where step: "quarantine ?row fault (fst s) = (Inr (), fst s1)" "names = checkpoint_handle (up_sequence cp) # names1"
        and rest: "select_base api checksum rest s1 = (Inr (selected, names1), s')"
      using "2.prems"(1) Inl by (auto simp: run_Inr Let_def dest!: transact_Inr)
    have s1: "fst s1 = put_quarantine ?row (fst s)"
      using step(1) by (simp add: quarantine_def complete_Inr)
    have fresh: "checkpoint_handle (up_sequence cp) \<notin> (\<lambda>cp. checkpoint_handle (up_sequence cp)) ` set rest"
      using "2.prems"(2) by (auto simp: handles)
    note IH = "2.IH" [OF Inl refl rest]
    have "passed_over cp names (fst s')"
      unfolding passed_over_def step(2)
      using set_aside_keeps [OF set_aside_put [of _ _ cp reason "fst s"], where p' = "fst s'"] IH "2.prems"(2) fresh s1 by simp
    note this_one = this
    have others: "passed_over c names1 (fst s') \<Longrightarrow> passed_over c names (fst s')" for c
      by (simp add: passed_over_def step(2))
    have fields: "pt_updates (fst s1) = pt_updates (fst s)" "pt_checkpoints (fst s1) = pt_checkpoints (fst s)"
      by (simp_all add: s1 put_quarantine_def)
    have "q \<in> set (pt_quarantine (fst s'))" if q: "q \<in> set (pt_quarantine (fst s))"
        "qr_export_handle q \<notin> (\<lambda>cp. checkpoint_handle (up_sequence cp)) ` set (cp # rest)" for q
    proof -
      have "q \<in> set (pt_quarantine (fst s1))"
        unfolding s1 by (rule put_quarantine_rows(2)) (use q in \<open>simp_all add: quarantine_row_def\<close>)
      then show ?thesis
        using IH "2.prems"(2) q(2) by simp
    qed
    moreover have "case selected of
          None \<Rightarrow> \<forall>c \<in> set (cp # rest). passed_over c names (fst s')
        | Some (core, payload, sequence) \<Rightarrow> \<exists>pre c post. cp # rest = pre @ c # post \<and> up_sequence c = sequence
            \<and> up_payload c = payload \<and> validChecksum checksum c \<and> ca_load api RecoveryBase payload = Some core
            \<and> (\<forall>c \<in> set pre. passed_over c names (fst s'))"
    proof (cases selected)
      case None
      then show ?thesis
        using IH "2.prems"(2) this_one others by simp
    next
      case (Some x)
      obtain core payload sequence where x: "x = (core, payload, sequence)"
        by (cases x)
      from IH "2.prems"(2) Some x obtain pre c post where "rest = pre @ c # post" "up_sequence c = sequence"
          "up_payload c = payload" "validChecksum checksum c" "ca_load api RecoveryBase payload = Some core"
          "\<forall>c \<in> set pre. passed_over c names1 (fst s')"
        by auto
      then show ?thesis
        using Some x this_one others by (auto intro!: exI [of _ "cp # pre"])
    qed
    ultimately show ?thesis
      using IH "2.prems"(2) fields by simp
  qed
qed

subsection \<open>Recovery\<close>

text \<open>A core to recover from: one loaded from an intact checkpoint of the store, or a new one where there is none.\<close>

definition starts_from :: "'c core_api \<Rightarrow> (bytes \<Rightarrow> js_string) \<Rightarrow> js_string \<Rightarrow> partition \<Rightarrow> 'c \<Rightarrow> int \<Rightarrow> bool" where
  "starts_from api checksum now p b sequence \<longleftrightarrow>
     (\<exists>cp \<in> set (pt_checkpoints p). up_sequence cp = sequence \<and> validChecksum checksum cp
        \<and> (\<exists>mode. ca_load api mode (up_payload cp) = Some b))
     \<or> (pt_checkpoints p = [] \<and> sequence = 0
        \<and> (b = ca_new api now \<or> ca_load api RecoveryBase (ca_exportGc api (ca_new api now)) = Some b))"

lemma upgrade_quarantine:
  assumes "upgradeCheckpoint api checksum m core through now s = (Inr x, s')"
  shows "pt_quarantine (fst s') = pt_quarantine (fst s)"
  using assms
  by (auto simp: upgradeCheckpoint_def run_Inr installCheckpoint_def complete_Inr Let_def
      split: if_splits option.splits dest!: transact_Inr)

lemma fresh_base_result:
  assumes "fresh_base api checksum now s = (Inr (b, payload, sequence), s')" "pt_checkpoints (fst s) = []"
  shows "b = ca_new api now \<and> payload = ca_exportGc api b \<and> sequence = 0
     \<and> updatesAfter 0 (fst s') = updatesAfter 0 (fst s) \<and> pt_quarantine (fst s') = pt_quarantine (fst s)"
proof -
  have "newest_two [row] = [row]" "fallback_through 0 [row] = min 0 (up_sequence row)" for row
    by (simp_all add: newest_two_def fallback_through_def)
  moreover have "filter (\<lambda>u. (up_sequence u \<le> 0 \<longrightarrow> P u) \<and> 1 \<le> up_sequence u) us = filter (\<lambda>u. 1 \<le> up_sequence u) us"
    for us :: "update_record list" and P
    by (rule filter_cong) auto
  ultimately show ?thesis
    using assms
    by (auto simp: fresh_base_def run_Inr installCheckpoint_def complete_Inr Let_def updatesAfter_def checkpoint_row_def
        split: if_splits option.splits dest!: transact_Inr)
qed

lemma rows_of_handles:
  "rows_of us qs \<Longrightarrow> map qr_export_handle qs = map (\<lambda>u. update_handle (up_sequence u)) us"
  unfolding rows_of_def by (induction us qs rule: list_all2_induct) (auto simp: quarantine_row_def)

lemma rows_of_member:
  assumes "rows_of us qs" "u \<in> set us"
  obtains reason where "quarantine_row UpdateKind (update_handle (up_sequence u)) reason u \<in> set qs"
proof -
  obtain i where i: "i < length us" "us ! i = u"
    using assms(2) by (auto simp: in_set_conv_nth)
  then obtain reason where "qs ! i = quarantine_row UpdateKind (update_handle (up_sequence u)) reason u" "i < length qs"
    using assms(1) by (auto simp: rows_of_def list_all2_conv_all_nth)
  then show thesis
    using that by (metis nth_mem)
qed

lemma repaired_tail:
  assumes repaired: "repairCorruptTail checksum checkpoint through schema qs now fault p = (Inr x, p')"
    and rows: "rows_of us qs" and distinct: "distinct (map up_sequence us)"
  shows "(\<forall>u \<in> set us. set_aside UpdateKind (update_handle (up_sequence u)) u p')
     \<and> (\<forall>q \<in> set (pt_quarantine p). qr_export_handle q \<notin> update_handle ` UNIV \<longrightarrow> q \<in> set (pt_quarantine p'))"
proof -
  have q: "pt_quarantine p' = pt_quarantine (fold put_quarantine qs p)"
    using repaired by (auto simp: repairCorruptTail_def complete_Inr Let_def split: option.splits)
  have names: "map qr_export_handle qs = map (\<lambda>u. update_handle (up_sequence u)) us"
    by (rule rows_of_handles [OF rows])
  have once: "distinct (map qr_export_handle qs)"
    using distinct unfolding names by (auto simp: distinct_map inj_on_def handles)
  have "set_aside UpdateKind (update_handle (up_sequence u)) u p'" if u: "u \<in> set us" for u
  proof (rule rows_of_member [OF rows u])
    fix reason
    let ?q = "quarantine_row UpdateKind (update_handle (up_sequence u)) reason u"
    assume "?q \<in> set qs"
    then show ?thesis
      unfolding set_aside_def q by (intro bexI [OF _ put_all_members [OF once, of ?q]]) (simp_all add: quarantine_row_def)
  qed
  moreover have "qr_export_handle ` set qs \<subseteq> update_handle ` UNIV"
    using arg_cong [OF names, of set] by auto
  then have "q \<in> set (pt_quarantine (fold put_quarantine qs p))"
    if "q \<in> set (pt_quarantine p)" "qr_export_handle q \<notin> update_handle ` UNIV" for q
    using put_all_keeps [OF that(1), of qs] that(2) by blast
  ultimately show ?thesis
    unfolding q by simp
qed

lemma updatesAfter_distinct: "distinct (map up_sequence (pt_updates p)) \<Longrightarrow> distinct (map up_sequence (updatesAfter s p))"
  by (simp add: updatesAfter_def distinct_map) (auto intro: inj_on_subset)

lemma descending_rows:
  "set (checkpointsDescending p) = set (pt_checkpoints p)"
  "distinct (map up_sequence (pt_checkpoints p)) \<Longrightarrow> distinct (map up_sequence (checkpointsDescending p))"
  "sorted_wrt (\<lambda>x y. up_sequence y \<le> up_sequence x) (checkpointsDescending p)"
proof -
  show rows: "set (checkpointsDescending p) = set (pt_checkpoints p)"
    by (simp add: checkpointsDescending_def)
  show "distinct (map up_sequence (checkpointsDescending p))" if "distinct (map up_sequence (pt_checkpoints p))"
    using that rows by (simp add: distinct_map checkpointsDescending_def)
  have "sorted (map (\<lambda>c. - up_sequence c) (checkpointsDescending p))"
    by (simp add: checkpointsDescending_def)
  then show "sorted_wrt (\<lambda>x y. up_sequence y \<le> up_sequence x) (checkpointsDescending p)"
    by (simp add: sorted_wrt_map)
qed

text \<open>What a recovery has to account for: its base, the updates it replays and those it sets aside.\<close>

definition accounted ::
  "'c core_api \<Rightarrow> (bytes \<Rightarrow> js_string) \<Rightarrow> js_string \<Rightarrow> partition \<Rightarrow> 'c recovered \<Rightarrow> partition \<Rightarrow> bool"
where
  "accounted api checksum now p r p' \<longleftrightarrow>
     (let sequence = rr_checkpoint_sequence (rv_report r); n = rr_replayed_updates (rv_report r);
          names = rr_quarantined_records (rv_report r); tail = updatesAfter sequence p
      in (\<exists>b core. starts_from api checksum now p b sequence \<and> recovered_with api checksum b tail n core
            \<and> rv_core r = ca_reset api core)
         \<and> rv_appliedThrough r = last_sequence sequence (take n tail)
         \<and> (\<forall>u \<in> set (drop n tail). update_handle (up_sequence u) \<in> set names
              \<and> set_aside UpdateKind (update_handle (up_sequence u)) u p')
         \<and> (\<forall>cp \<in> set (pt_checkpoints p). sequence < up_sequence cp \<longrightarrow> passed_over cp names p'))"

lemma intact_accounted:
  assumes "recoverIntact api checksum m (checkpointsDescending (fst s)) now s = (Inr (Some r), s')"
  shows "accounted api checksum now (fst s) r (fst s')"
proof -
  obtain cp rest where cps: "checkpointsDescending (fst s) = cp # rest"
    using assms by (auto simp: recoverIntact_def ret_Inr split: list.splits)
  have newest: "\<not> up_sequence cp < up_sequence c" if "c \<in> set (pt_checkpoints (fst s))" for c
    using that descending_rows(1,3) [of "fst s"] unfolding cps by fastforce
  have cp: "cp \<in> set (pt_checkpoints (fst s))"
    using descending_rows(1) [of "fst s"] unfolding cps by auto
  let ?tail = "updatesAfter (up_sequence cp) (fst s)"
  obtain base core where "validChecksum checksum cp" "ca_load api Unvalidated (up_payload cp) = Some base"
      "stage_and_finish api ?tail base = Some core"
      "r = \<lparr>rv_core = ca_reset api core, rv_appliedThrough = last_sequence (up_sequence cp) ?tail,
         rv_report = \<lparr>rr_checkpoint_sequence = up_sequence cp, rr_replayed_updates = length ?tail, rr_quarantined_records = []\<rparr>\<rparr>"
    using assms unfolding recoverIntact_def cps
    by (auto simp: run_Inr Let_def split: if_splits option.splits)
  then show ?thesis
    using cp newest by (auto simp: accounted_def Let_def starts_from_def recovered_with_def)
qed

lemma intact_None:
  "recoverIntact api checksum m cps now s = (Inr None, s') \<Longrightarrow> s' = s"
  by (auto simp: recoverIntact_def run_Inr Let_def split: list.splits if_splits option.splits)

text \<open>The tail of a chosen base.\<close>

lemma recover_from_accounts:
  assumes result: "recover_from api checksum m now names (base, payload, sequence) s = (Inr r, s')"
    and distinct: "distinct (map up_sequence (updatesAfter sequence (fst s)))"
  shows "\<exists>n core b through. (b = base \<or> ca_load api RecoveryBase payload = Some b)
     \<and> recovered_with api checksum b (updatesAfter sequence (fst s)) n core
     \<and> r = \<lparr>rv_core = ca_reset api core, rv_appliedThrough = last_sequence sequence (take n (updatesAfter sequence (fst s))),
          rv_report = \<lparr>rr_checkpoint_sequence = sequence, rr_replayed_updates = n,
            rr_quarantined_records = names @ map (\<lambda>u. update_handle (up_sequence u)) (drop n (updatesAfter sequence (fst s)))\<rparr>\<rparr>
     \<and> (\<forall>u \<in> set (drop n (updatesAfter sequence (fst s))). set_aside UpdateKind (update_handle (up_sequence u)) u (fst s'))
     \<and> (\<forall>q \<in> set (pt_quarantine (fst s)). qr_export_handle q \<notin> update_handle ` UNIV \<longrightarrow> q \<in> set (pt_quarantine (fst s')))"
proof -
  let ?tail = "updatesAfter sequence (fst s)"
  obtain core n through corrupt where tail: "replay_tail api checksum base payload sequence ?tail = Some (core, n, through, corrupt)"
      and publish: "publish_tail api checksum m now core through corrupt s = (Inr (), s')"
      and r: "r = \<lparr>rv_core = ca_reset api core, rv_appliedThrough = through,
        rv_report = \<lparr>rr_checkpoint_sequence = sequence, rr_replayed_updates = n,
          rr_quarantined_records = names @ map qr_export_handle corrupt\<rparr>\<rparr>"
    using result by (auto simp: recover_from_def run_Inr)
  from replay_tail_prefix [OF tail] obtain b where b: "b = base \<or> ca_load api RecoveryBase payload = Some b"
      "recovered_with api checksum b ?tail n core" "through = last_sequence sequence (take n ?tail)" "rows_of (drop n ?tail) corrupt"
    by blast
  have "(\<forall>u \<in> set (drop n ?tail). set_aside UpdateKind (update_handle (up_sequence u)) u (fst s'))
     \<and> (\<forall>q \<in> set (pt_quarantine (fst s)). qr_export_handle q \<notin> update_handle ` UNIV \<longrightarrow> q \<in> set (pt_quarantine (fst s')))"
  proof (cases "corrupt = []")
    case True
    then have "upgradeCheckpoint api checksum m core through now s = (Inr (), s')"
      using publish by (simp add: publish_tail_def)
    from upgrade_quarantine [OF this] True b(4) show ?thesis
      by (simp add: rows_of_def)
  next
    case False
    then obtain x fault where "repairCorruptTail checksum (ca_exportGc api core) through SCHEMA_VERSION corrupt now fault (fst s) = (Inr x, fst s')"
      using publish by (auto simp: publish_tail_def run_Inr dest!: transact_Inr)
    then show ?thesis
      using repaired_tail [OF _ b(4)] distinct by (simp add: distinct_drop flip: drop_map)
  qed
  then show ?thesis
    using b r rows_of_handles [OF b(4)] by blast
qed

text \<open>A base is chosen, or a new graph begun.\<close>

lemma chosen_base:
  assumes select: "select_base api checksum (checkpointsDescending (fst s)) s = (Inr (selected, names), s2)"
    and some: "selected = None \<Longrightarrow> pt_checkpoints (fst s) = []"
    and base: "(case selected of Some base \<Rightarrow> ret base | None \<Rightarrow> fresh_base api checksum now) s2 = (Inr (core, payload, sequence), s3)"
    and distinct: "distinct (map up_sequence (pt_checkpoints (fst s)))"
  shows "updatesAfter sequence (fst s3) = updatesAfter sequence (fst s) \<and> pt_quarantine (fst s3) = pt_quarantine (fst s2)
     \<and> (\<forall>x. x = core \<or> ca_load api RecoveryBase payload = Some x \<longrightarrow> starts_from api checksum now (fst s) x sequence)
     \<and> (\<forall>cp \<in> set (pt_checkpoints (fst s)). sequence < up_sequence cp \<longrightarrow> passed_over cp names (fst s2))"
proof -
  note passes = select_base_passes [OF select descending_rows(2) [OF distinct]]
  have same: "updatesAfter q (fst s2) = updatesAfter q (fst s)" "pt_checkpoints (fst s2) = pt_checkpoints (fst s)" for q
    using passes by (simp_all add: updatesAfter_def)
  show ?thesis
  proof (cases selected)
    case None
    then have "fresh_base api checksum now s2 = (Inr (core, payload, sequence), s3)" "pt_checkpoints (fst s) = []"
      using base some by simp_all
    then show ?thesis
      using fresh_base_result [of api checksum now s2] same by (auto simp: starts_from_def)
  next
    case (Some x)
    then have x: "x = (core, payload, sequence)" "s3 = s2"
      using base by (simp_all add: ret_Inr)
    from passes obtain pre cp post where cp: "checkpointsDescending (fst s) = pre @ cp # post" "up_sequence cp = sequence"
        "up_payload cp = payload" "validChecksum checksum cp" "ca_load api RecoveryBase payload = Some core"
        "\<forall>c \<in> set pre. passed_over c names (fst s2)"
      unfolding Some x by auto
    have rows: "set (pt_checkpoints (fst s)) = set (pre @ cp # post)"
      using descending_rows(1) [of "fst s"] unfolding cp(1) by simp
    have "starts_from api checksum now (fst s) y sequence" if "y = core \<or> ca_load api RecoveryBase payload = Some y" for y
      unfolding starts_from_def using that cp rows by (intro disjI1 bexI [of _ cp]) auto
    moreover have "passed_over c names (fst s2)" if c: "c \<in> set (pt_checkpoints (fst s))" "sequence < up_sequence c" for c
    proof -
      have "c \<notin> set (cp # post)"
        using descending_rows(3) [of "fst s"] c(2) cp(2) unfolding cp(1) by (auto simp: sorted_wrt_append)
      then show ?thesis
        using c(1) cp(6) rows by auto
    qed
    ultimately show ?thesis
      using x(2) same by blast
  qed
qed

lemma slow_accounted:
  assumes select: "select_base api checksum (checkpointsDescending (fst s)) s = (Inr (selected, names), s2)"
    and some: "selected = None \<Longrightarrow> pt_checkpoints (fst s) = []"
    and base: "(case selected of Some base \<Rightarrow> ret base | None \<Rightarrow> fresh_base api checksum now) s2 = (Inr base, s3)"
    and rest: "recover_from api checksum m now names base s3 = (Inr r, s')"
    and distinct: "distinct (map up_sequence (pt_checkpoints (fst s)))" "distinct (map up_sequence (pt_updates (fst s)))"
  shows "accounted api checksum now (fst s) r (fst s')"
proof -
  obtain core payload sequence where b: "base = (core, payload, sequence)"
    by (cases base)
  let ?tail = "updatesAfter sequence (fst s)"
  note chosen = chosen_base [OF select some base [unfolded b] distinct(1)]
  have "distinct (map up_sequence (updatesAfter sequence (fst s3)))"
    using chosen updatesAfter_distinct [OF distinct(2)] by simp
  from recover_from_accounts [OF rest [unfolded b] this] chosen obtain n finished x where
      x: "x = core \<or> ca_load api RecoveryBase payload = Some x" "recovered_with api checksum x ?tail n finished"
      and r: "r = \<lparr>rv_core = ca_reset api finished, rv_appliedThrough = last_sequence sequence (take n ?tail),
          rv_report = \<lparr>rr_checkpoint_sequence = sequence, rr_replayed_updates = n,
            rr_quarantined_records = names @ map (\<lambda>u. update_handle (up_sequence u)) (drop n ?tail)\<rparr>\<rparr>"
      and aside: "\<forall>u \<in> set (drop n ?tail). set_aside UpdateKind (update_handle (up_sequence u)) u (fst s')"
      and keeps: "\<forall>q \<in> set (pt_quarantine (fst s2)). qr_export_handle q \<notin> update_handle ` UNIV \<longrightarrow> q \<in> set (pt_quarantine (fst s'))"
    by auto
  have "checkpoint_handle k \<notin> update_handle ` UNIV" for k
    by (auto simp: handles)
  then have "set_aside kind (checkpoint_handle k) cp (fst s')" if "set_aside kind (checkpoint_handle k) cp (fst s2)"
    for kind k and cp :: checkpoint_record
    using set_aside_keeps [OF that] keeps by metis
  then have "passed_over cp (names @ more) (fst s')" if "passed_over cp names (fst s2)" for cp more
    using that by (simp add: passed_over_def)
  then show ?thesis
    using chosen x aside by (auto simp: accounted_def Let_def r)
qed

text \<open>
  C5. Recovery loses nothing silently, whatever happened to the store and whatever the core makes of it. When it
  succeeds, it starts from a checkpoint whose checksum holds (or from nothing, when there never was one); it replays
  the updates behind it in order, all of them or those before the first one that is really bad: its checksum
  is wrong or the core refuses it there. Every update it does not replay, and every newer checkpoint it
  passes over, is reported by name and lies in the quarantine with its content.
\<close>

theorem recovery_loses_nothing:
  assumes result: "recoverGraph api checksum m now (p, faults) = (Inr r, p', faults')"
    and keys: "distinct (map up_sequence (pt_checkpoints p))" "distinct (map up_sequence (pt_updates p))"
  shows "accounted api checksum now p r p'"
proof -
  obtain found s1 where intact: "recoverIntact api checksum m (checkpointsDescending p) now (p, faults) = (Inr found, s1)"
    using result by (auto simp: recoverGraph_def run_Inr)
  show ?thesis
  proof (cases found)
    case (Some r')
    then have "r' = r" "s1 = (p', faults')"
      using result intact by (auto simp: recoverGraph_def run_Inr)
    then show ?thesis
      using intact_accounted [of api checksum m "(p, faults)" now r "(p', faults')"] intact Some by simp
  next
    case None
    then have s1: "s1 = (p, faults)"
      using intact_None intact by blast
    let ?k = "\<lambda>(selected, handles). if selected = None \<and> checkpointsDescending p \<noteq> [] then fail (Refused CheckpointsInvalid)
         else bnd (case selected of Some base \<Rightarrow> ret base | None \<Rightarrow> fresh_base api checksum now)
                (recover_from api checksum m now handles)"
    have "bnd (select_base api checksum (checkpointsDescending p)) ?k (p, faults) = (Inr r, p', faults')"
      using result intact unfolding None s1 by (simp add: recoverGraph_def bnd_def reads_def)
    then obtain y s2 where y: "select_base api checksum (checkpointsDescending p) (p, faults) = (Inr y, s2)"
        "?k y s2 = (Inr r, p', faults')"
      unfolding bnd_Inr by blast
    obtain selected names where "y = (selected, names)"
      by (cases y)
    with y have select: "select_base api checksum (checkpointsDescending p) (p, faults) = (Inr (selected, names), s2)"
        and rest: "?k (selected, names) s2 = (Inr r, p', faults')"
      by simp_all
    have some: "selected = None \<Longrightarrow> pt_checkpoints p = []"
      using rest descending_rows(1) [of p] by (auto simp: fail_Inr split: if_splits)
    obtain base s3 where
        "(case selected of Some base \<Rightarrow> ret base | None \<Rightarrow> fresh_base api checksum now) s2 = (Inr base, s3)"
        "recover_from api checksum m now names base s3 = (Inr r, p', faults')"
      using rest unfolding case_prod_conv bnd_Inr [of "case selected of None \<Rightarrow> _ | Some b \<Rightarrow> _ b"] by (auto simp: bnd_Inr fail_Inr split: if_splits)
    then show ?thesis
      using slow_accounted [of api checksum "(p, faults)" selected names s2 now base s3 m r "(p', faults')"] keys select some
      by simp
  qed
qed

end
