(* ===== verification/Storage_Safety.thy ===== *)
theory Storage_Safety
  imports Storage "HOL-Library.Multiset"
begin

text \<open>
  What the durable store promises. Its abstract content is a log: the updates appended since the
  history began, each with its sequence. Every legal transaction, committed or not, keeps the
  accounts of the metadata exact and every retained checkpoint followed by all of the log behind it;
  and unless a corrupt tail is repaired, every row of the outbox resolves to its update.
\<close>

subsection \<open>Object stores\<close>

abbreviation by_key :: "('r \<Rightarrow> 'k::linorder) \<Rightarrow> 'r list \<Rightarrow> bool" where
  "by_key key rows \<equiv> sorted_wrt (\<lambda>x y. key x < key y) rows"

lemma by_key_distinct: "by_key key rows \<Longrightarrow> distinct (map key rows)"
proof (induction rows)
  case (Cons x xs)
  then have "key x \<notin> key ` set xs"
    by (metis imageE order_less_irrefl sorted_wrt.simps(2))
  then show ?case
    using Cons by simp
qed simp

lemma by_key_inj: "by_key key rows \<Longrightarrow> x \<in> set rows \<Longrightarrow> y \<in> set rows \<Longrightarrow> key x = key y \<Longrightarrow> x = y"
  by (metis by_key_distinct distinct_map inj_onD)

lemma by_key_filter [simp]: "by_key key rows \<Longrightarrow> by_key key (filter P rows)"
  by (rule sorted_wrt_filter)

lemma set_put_row: "by_key key rows \<Longrightarrow> set (put_row key r rows) = insert r {x \<in> set rows. key x \<noteq> key r}"
proof (induction rows)
  case (Cons x xs)
  then show ?case
    by (auto simp: not_less_iff_gr_or_eq dest: order.strict_trans)
qed simp

lemma by_key_put_row [simp]: "by_key key rows \<Longrightarrow> by_key key (put_row key r rows)"
proof (induction rows)
  case (Cons x xs)
  then show ?case
    by (auto simp: set_put_row not_less_iff_gr_or_eq dest: order.strict_trans)
qed simp

lemma put_row_last: "(\<And>x. x \<in> set rows \<Longrightarrow> key x < key r) \<Longrightarrow> put_row key r rows = rows @ [r]"
proof (induction rows)
  case (Cons x xs)
  then have less: "key x < key r"
    by simp
  then have "\<not> key r < key x" "key r \<noteq> key x"
    by auto
  then show ?case
    using Cons by simp
qed simp

lemma by_key_delete_row [simp]: "by_key key rows \<Longrightarrow> by_key key (delete_row f k rows)"
  by (simp add: delete_row_def)

lemma set_delete_row [simp]: "set (delete_row f k rows) = {x \<in> set rows. f x \<noteq> k}"
  by (simp add: delete_row_def)

lemma get_row_Some: "get_row key k rows = Some r \<Longrightarrow> r \<in> set rows \<and> key r = k"
  by (auto simp: get_row_def find_Some_iff)

lemma get_row_None: "get_row key k rows = None \<longleftrightarrow> (\<forall>r \<in> set rows. key r \<noteq> k)"
  by (auto simp: get_row_def find_None_iff)

lemma get_row_member: "by_key key rows \<Longrightarrow> r \<in> set rows \<Longrightarrow> get_row key (key r) rows = Some r"
  by (cases "get_row key (key r) rows") (auto simp: get_row_None dest: get_row_Some by_key_inj)

lemma total_bytes_simps [simp]:
  "total_bytes [] = 0" "total_bytes (u # us) = byteLength (up_payload u) + total_bytes us"
  "total_bytes (us @ vs) = total_bytes us + total_bytes vs"
  by (simp_all add: total_bytes_def)

lemma total_bytes_nonneg [simp]: "0 \<le> total_bytes us"
  by (induction us) auto

lemma total_bytes_mset: "mset us = mset vs \<Longrightarrow> total_bytes us = total_bytes vs"
  unfolding total_bytes_def by (metis mset_map sum_mset_sum_list)

lemma delete_row_absent: "k \<notin> key ` set rows \<Longrightarrow> delete_row key k rows = rows"
  by (induction rows) (auto simp: delete_row_def)

lemma delete_row_counts:
  assumes "by_key up_sequence rows" "u \<in> set rows"
  shows "total_bytes (delete_row up_sequence (up_sequence u) rows) = total_bytes rows - byteLength (up_payload u)"
    and "int (length (delete_row up_sequence (up_sequence u) rows)) = int (length rows) - 1"
proof -
  obtain xs ys where rows: "rows = xs @ u # ys"
    using assms(2) by (auto simp: in_set_conv_decomp)
  have "delete_row up_sequence (up_sequence u) rows = xs @ ys"
    using assms(1) delete_row_absent [of "up_sequence u" up_sequence xs]
      delete_row_absent [of "up_sequence u" up_sequence ys]
    by (force simp: rows delete_row_def sorted_wrt_append)
  then show "total_bytes (delete_row up_sequence (up_sequence u) rows) = total_bytes rows - byteLength (up_payload u)"
    and "int (length (delete_row up_sequence (up_sequence u) rows)) = int (length rows) - 1"
    by (simp_all add: rows)
qed

subsection \<open>The two newest checkpoints\<close>

lemma fold_delete_rows: "fold (\<lambda>s rows. delete_row key (key s) rows) stale rows = filter (\<lambda>r. key r \<notin> key ` set stale) rows"
  by (induction stale arbitrary: rows) (auto simp: delete_row_def conj_commute intro!: filter_cong)

lemma mset_partition_filter:
  assumes "distinct (map key (xs @ ys))" "mset rows = mset (xs @ ys)"
  shows "mset (filter (\<lambda>r. key r \<notin> key ` set ys) rows) = mset xs"
proof -
  have "mset (filter (\<lambda>r. key r \<notin> key ` set ys) rows) = mset (filter (\<lambda>r. key r \<notin> key ` set ys) (xs @ ys))"
    using assms(2) by (metis mset_filter)
  also have "filter (\<lambda>r. key r \<notin> key ` set ys) (xs @ ys) = xs"
    using assms(1) by (auto simp: filter_id_conv filter_empty_conv)
  finally show ?thesis .
qed

lemma delete_stale_mset:
  assumes "by_key up_sequence cs"
  shows "mset (delete_stale cs) = mset (newest_two cs)"
proof -
  let ?s = "sort_key (\<lambda>c. - up_sequence c) cs"
  have split: "?s = take 2 ?s @ drop 2 ?s" by simp
  have "distinct (map up_sequence ?s)"
  proof -
    have "mset (map up_sequence ?s) = mset (map up_sequence cs)"
      by simp
    then show ?thesis
      using by_key_distinct [OF assms] by (metis mset_eq_imp_distinct_iff)
  qed
  then have d: "distinct (map up_sequence (take 2 ?s @ drop 2 ?s))" by simp
  have "mset cs = mset (take 2 ?s @ drop 2 ?s)" by simp
  from mset_partition_filter [OF d this] show ?thesis
    by (simp add: delete_stale_def newest_two_def fold_delete_rows)
qed

lemma set_delete_stale:
  "by_key up_sequence cs \<Longrightarrow> set (delete_stale cs) = set (newest_two cs)"
  by (metis delete_stale_mset set_mset_mset)

lemma newest_two_subset: "set (newest_two cs) \<subseteq> set cs"
  unfolding newest_two_def using set_take_subset [of 2 "sort_key (\<lambda>c. - up_sequence c) cs"] by auto

lemma newest_two_nonempty: "newest_two cs = [] \<longleftrightarrow> cs = []"
  by (metis length_0_conv length_sort newest_two_def take_eq_Nil zero_neq_numeral)

lemma newest_two_length: "length (newest_two cs) \<le> 2"
  by (simp add: newest_two_def)

lemma delete_stale_props:
  assumes "by_key up_sequence cs"
  shows "by_key up_sequence (delete_stale cs)" "total_bytes (newest_two cs) = total_bytes (delete_stale cs)"
    "length (delete_stale cs) \<le> 2" "delete_stale cs = [] \<longleftrightarrow> cs = []" "set (delete_stale cs) \<subseteq> set cs"
proof -
  show "by_key up_sequence (delete_stale cs)"
    using assms by (simp add: delete_stale_def fold_delete_rows)
  show "total_bytes (newest_two cs) = total_bytes (delete_stale cs)"
    by (rule total_bytes_mset) (simp add: delete_stale_mset assms)
  show "length (delete_stale cs) \<le> 2"
    using newest_two_length [of cs] delete_stale_mset [OF assms] by (metis mset_eq_length)
  show "delete_stale cs = [] \<longleftrightarrow> cs = []"
    using newest_two_nonempty [of cs] delete_stale_mset [OF assms] by (metis mset_zero_iff)
  show "set (delete_stale cs) \<subseteq> set cs"
    using newest_two_subset [of cs] by (simp add: set_delete_stale assms)
qed

lemma fallback_through_le:
  "fallback_through start cs \<le> start" "c \<in> set cs \<Longrightarrow> fallback_through start cs \<le> up_sequence c"
proof -
  have "fold (\<lambda>c m. min m (up_sequence c)) cs start \<le> start
      \<and> (\<forall>c \<in> set cs. fold (\<lambda>c m. min m (up_sequence c)) cs start \<le> up_sequence c)" for start cs
  proof (induction cs arbitrary: start)
    case (Cons a cs)
    from Cons [of "min start (up_sequence a)"] show ?case
      by auto
  qed simp
  from this [of cs start]
  show "fallback_through start cs \<le> start" "c \<in> set cs \<Longrightarrow> fallback_through start cs \<le> up_sequence c"
    by (simp_all add: fallback_through_def)
qed
subsection \<open>The invariant\<close>

text \<open>What the metadata of a graph says of its rows.\<close>

definition accounts_ok :: "metadata_record \<Rightarrow> partition \<Rightarrow> bool" where
  "accounts_ok m p \<longleftrightarrow>
     md_checkpoint_bytes m = total_bytes (pt_checkpoints p)
     \<and> md_tail_bytes m = total_bytes (pt_updates p)
     \<and> md_tail_count m = int (length (pt_updates p))"

definition ranges_ok :: "metadata_record \<Rightarrow> partition \<Rightarrow> bool" where
  "ranges_ok m p \<longleftrightarrow>
     0 \<le> md_compacted_through m \<and> md_compacted_through m < md_next_sequence m
     \<and> (\<forall>u \<in> set (pt_updates p). 1 \<le> up_sequence u \<and> up_sequence u < md_next_sequence m)
     \<and> (\<forall>c \<in> set (pt_checkpoints p). 0 \<le> up_sequence c \<and> up_sequence c < md_next_sequence m)
     \<and> length (pt_checkpoints p) \<le> 2
     \<and> (pt_checkpoints p = [] \<longrightarrow> md_compacted_through m = 0)"

definition rows_ok :: "(bytes \<Rightarrow> js_string) \<Rightarrow> partition \<Rightarrow> bool" where
  "rows_ok checksum p \<longleftrightarrow>
     by_key up_sequence (pt_updates p) \<and> by_key up_sequence (pt_checkpoints p) \<and> by_key ob_message_id (pt_outbox p)
     \<and> distinct (map up_checksum (pt_updates p))
     \<and> (\<forall>u \<in> set (pt_updates p). up_checksum u = checksum (up_payload u))
     \<and> (\<forall>c \<in> set (pt_checkpoints p). up_checksum c = checksum (up_payload c))"

definition partition_ok :: "(bytes \<Rightarrow> js_string) \<Rightarrow> partition \<Rightarrow> bool" where
  "partition_ok checksum p \<longleftrightarrow>
     rows_ok checksum p
     \<and> (case pt_metadata p of
          None \<Rightarrow> pt_updates p = [] \<and> pt_checkpoints p = [] \<and> pt_outbox p = []
        | Some m \<Rightarrow> accounts_ok m p \<and> ranges_ok m p)"

text \<open>
  What the worker gives: the frontier a repair keeps is a sequence of the graph.
\<close>

fun legal :: "storage_op \<Rightarrow> partition \<Rightarrow> bool" where
  "legal (RepairOp checkpoint validThrough schema records now) p =
     (case pt_metadata p of None \<Rightarrow> True | Some m \<Rightarrow> 0 \<le> validThrough \<and> validThrough < md_next_sequence m)"
| "legal op p = True"

lemma committed_cases:
  assumes "P before" "P after"
  shows "P (snd (complete fault result after before))"
  using assms by (auto simp: complete_def split: option.split fault.split)

lemma committed_ok:
  "partition_ok checksum before \<Longrightarrow> partition_ok checksum after \<Longrightarrow>
   partition_ok checksum (snd (complete fault result after before))"
  by (rule committed_cases)

lemma rows_ok_update:
  "rows_ok checksum p \<Longrightarrow> rows_ok checksum (p\<lparr>pt_metadata := m\<rparr>)"
  "rows_ok checksum p \<Longrightarrow> rows_ok checksum (p\<lparr>pt_server_base := b\<rparr>)"
  "rows_ok checksum p \<Longrightarrow> rows_ok checksum (p\<lparr>pt_quarantine := qs\<rparr>)"
  "rows_ok checksum p \<Longrightarrow> by_key ob_message_id rows \<Longrightarrow> rows_ok checksum (p\<lparr>pt_outbox := rows\<rparr>)"
  by (simp_all add: rows_ok_def)

lemma put_outbox_fields [simp]:
  "pt_metadata (put_outbox d s base now p) = pt_metadata p" "pt_updates (put_outbox d s base now p) = pt_updates p"
  "pt_checkpoints (put_outbox d s base now p) = pt_checkpoints p"
  "pt_server_base (put_outbox d s base now p) = pt_server_base p"
  by (simp_all add: put_outbox_def split: option.split)

lemma rows_ok_put_outbox [simp]: "rows_ok checksum p \<Longrightarrow> rows_ok checksum (put_outbox d s base now p)"
  by (auto simp: put_outbox_def rows_ok_def split: option.split)

lemma append_row:
  assumes ok: "partition_ok checksum p" "pt_metadata p = Some m"
  shows "put_row up_sequence \<lparr>up_sequence = md_next_sequence m, up_checksum = d, up_payload = b, up_created_at = t\<rparr> (pt_updates p)
     = pt_updates p @ [\<lparr>up_sequence = md_next_sequence m, up_checksum = d, up_payload = b, up_created_at = t\<rparr>]"
  by (rule put_row_last) (use ok in \<open>auto simp: partition_ok_def ranges_ok_def\<close>)

lemma append_ok:
  assumes ok: "partition_ok checksum p"
  shows "partition_ok checksum (snd (appendUpdate checksum payload now base fault p))"
proof (cases "get_row up_checksum (checksum payload) (pt_updates p)")
  case (Some existing)
  then have m: "pt_metadata p \<noteq> None"
    using ok get_row_Some [OF Some] by (cases "pt_metadata p") (auto simp: partition_ok_def)
  have "partition_ok checksum (put_outbox (checksum payload) s base now p)" for s
    using ok m by (auto simp: partition_ok_def accounts_ok_def ranges_ok_def)
  then show ?thesis
    using ok by (simp add: appendUpdate_def Let_def Some committed_cases)
next
  case None
  show ?thesis
  proof (cases "pt_metadata p")
    case None
    then show ?thesis
      using ok \<open>get_row _ _ _ = None\<close> by (simp add: appendUpdate_def)
  next
    case (Some m)
    have "up_sequence u < md_next_sequence m" "up_sequence u \<le> md_next_sequence m" if "u \<in> set (pt_updates p)" for u
      using ok that Some by (auto simp: partition_ok_def ranges_ok_def intro: less_imp_le)
    moreover have "checksum payload \<notin> up_checksum ` set (pt_updates p)"
      using None by (auto simp: get_row_None)
    moreover have "1 \<le> md_next_sequence m"
      using ok Some by (simp add: partition_ok_def ranges_ok_def)
    ultimately show ?thesis
      using ok None Some append_row [OF ok Some]
      by (auto simp: appendUpdate_def Let_def partition_ok_def rows_ok_def accounts_ok_def ranges_ok_def put_outbox_def
          sorted_wrt_append complete_def split: option.split fault.split)
  qed
qed

lemma acknowledge_one_ok:
  assumes ok: "partition_ok checksum p"
  shows "partition_ok checksum (acknowledge_one through ident p)"
proof (cases "pt_metadata p")
  case None
  then show ?thesis
    using ok by (simp add: acknowledge_one_def Let_def partition_ok_def rows_ok_def delete_row_def)
next
  case (Some m)
  have out: "partition_ok checksum (p\<lparr>pt_outbox := delete_row ob_message_id ident (pt_outbox p)\<rparr>)"
    using ok Some by (simp add: partition_ok_def rows_ok_def accounts_ok_def ranges_ok_def)
  have "partition_ok checksum
      (p\<lparr>pt_outbox := delete_row ob_message_id ident (pt_outbox p),
         pt_updates := delete_row up_sequence s (pt_updates p),
         pt_metadata := Some (m\<lparr>md_tail_bytes := max 0 (md_tail_bytes m - byteLength (up_payload u)),
             md_tail_count := max 0 (md_tail_count m - 1)\<rparr>)\<rparr>)"
    if row: "get_row up_sequence s (pt_updates p) = Some u" for u s
  proof -
    have u: "u \<in> set (pt_updates p)" "up_sequence u = s"
      using get_row_Some [OF row] by simp_all
    have counts: "total_bytes (delete_row up_sequence (up_sequence u) (pt_updates p))
          = total_bytes (pt_updates p) - byteLength (up_payload u)"
        "int (length (delete_row up_sequence (up_sequence u) (pt_updates p))) = int (length (pt_updates p)) - 1"
      using delete_row_counts [OF _ u(1)] ok by (simp_all add: partition_ok_def rows_ok_def)
    have "0 \<le> total_bytes (pt_updates p) - byteLength (up_payload u)" "0 \<le> int (length (pt_updates p)) - 1"
      using total_bytes_nonneg of_nat_0_le_iff unfolding counts [symmetric] by blast+
    moreover have "distinct (map up_checksum (delete_row up_sequence (up_sequence u) (pt_updates p)))"
      using ok by (simp add: partition_ok_def rows_ok_def delete_row_def distinct_map_filter)
    ultimately show ?thesis
      using ok Some counts u(2) by (simp add: partition_ok_def rows_ok_def accounts_ok_def ranges_ok_def)
  qed
  then show ?thesis
    using Some out
    by (simp add: acknowledge_one_def Let_def split: option.split)
qed

lemma acknowledge_ok:
  assumes "partition_ok checksum p"
  shows "partition_ok checksum (snd (acknowledge ids fault p))"
proof -
  have "partition_ok checksum (fold (acknowledge_one through) ids q)" if "partition_ok checksum q" for through q
    using that by (induction ids arbitrary: q) (simp_all add: acknowledge_one_ok)
  then show ?thesis
    using assms by (simp add: acknowledge_def Let_def committed_cases)
qed
lemma empty_ok: "partition_ok checksum no_rows"
  by (simp add: partition_ok_def rows_ok_def no_rows_def)

lemma open_ok: "partition_ok checksum p \<Longrightarrow> partition_ok checksum (snd (openGraph l now replica fault p))"
  by (cases "pt_metadata p")
    (auto simp: openGraph_def Let_def intro!: committed_ok,
      auto simp: partition_ok_def rows_ok_def accounts_ok_def ranges_ok_def)

lemma import_ok:
  "partition_ok checksum p \<Longrightarrow>
   partition_ok checksum (snd (installImportedGraph checksum l replica schema checkpoint now epoch base fault p))"
  by (auto simp: installImportedGraph_def Let_def intro!: committed_ok)
    (auto simp: partition_ok_def rows_ok_def accounts_ok_def ranges_ok_def checkpoint_row_def)

lemma by_key_fold_put: "by_key ob_message_id rows \<Longrightarrow> by_key ob_message_id (fold put_new_name live rows)"
  by (induction live arbitrary: rows) (simp_all add: put_new_name_def split: option.split)

lemma by_key_fold_drop: "by_key ob_message_id rows \<Longrightarrow> by_key ob_message_id (fold drop_old_name live rows)"
  by (induction live arbitrary: rows) (simp_all add: drop_old_name_def)

lemma fold_put_nothing: "live = [] \<Longrightarrow> fold put_new_name live (fold drop_old_name live rows) = rows"
  by simp

lemma normalize_ok:
  assumes ok: "partition_ok checksum p"
  shows "partition_ok checksum (snd (normalize_write inspected fault p))"
proof (cases "pt_metadata p")
  case None
  then have "filter (still_there p) inspected = []"
    using ok by (simp add: partition_ok_def still_there_def get_row_def filter_empty_conv)
  then show ?thesis
    using ok by (simp add: normalize_write_def committed_cases)
next
  case (Some m)
  then show ?thesis
    using ok by (auto simp: normalize_write_def Let_def intro!: committed_ok)
      (simp add: partition_ok_def rows_ok_def accounts_ok_def ranges_ok_def by_key_fold_put by_key_fold_drop)
qed

lemma checkpoints_put:
  assumes "partition_ok checksum p" "pt_metadata p = Some m" "0 \<le> s" "s < md_next_sequence m"
  shows "by_key up_sequence (put_row up_sequence (checkpoint_row s schema (checksum b) b now) (pt_checkpoints p))"
    and "\<And>c. c \<in> set (delete_stale (put_row up_sequence (checkpoint_row s schema (checksum b) b now) (pt_checkpoints p)))
      \<Longrightarrow> 0 \<le> up_sequence c \<and> up_sequence c < md_next_sequence m \<and> up_checksum c = checksum (up_payload c)"
    and "put_row up_sequence (checkpoint_row s schema (checksum b) b now) (pt_checkpoints p) \<noteq> []"
proof -
  let ?cs = "put_row up_sequence (checkpoint_row s schema (checksum b) b now) (pt_checkpoints p)"
  show cs: "by_key up_sequence ?cs"
    using assms by (simp add: partition_ok_def rows_ok_def)
  have "c \<in> set ?cs \<Longrightarrow> 0 \<le> up_sequence c \<and> up_sequence c < md_next_sequence m \<and> up_checksum c = checksum (up_payload c)" for c
    using assms by (auto simp: set_put_row partition_ok_def rows_ok_def ranges_ok_def checkpoint_row_def)
  then show "\<And>c. c \<in> set (delete_stale ?cs)
      \<Longrightarrow> 0 \<le> up_sequence c \<and> up_sequence c < md_next_sequence m \<and> up_checksum c = checksum (up_payload c)"
    using delete_stale_props(5) [OF cs] by blast
  show "?cs \<noteq> []"
    using set_put_row [of up_sequence "pt_checkpoints p" "checkpoint_row s schema (checksum b) b now"] assms
    by (auto simp: partition_ok_def rows_ok_def simp del: set_empty2 simp flip: set_empty)
qed

text \<open>The partition after a checkpoint: the kept updates, the kept checkpoints, exact accounts.\<close>

lemma checkpointed_ok:
  assumes ok: "partition_ok checksum p" "pt_metadata p = Some m" and s: "0 \<le> s" "s < md_next_sequence m"
    and cs: "cs = put_row up_sequence (checkpoint_row s schema (checksum b) b now) (pt_checkpoints p)"
    and m': "md_next_sequence m' = md_next_sequence m" "0 \<le> md_compacted_through m'"
      "md_compacted_through m' < md_next_sequence m" "md_checkpoint_bytes m' = total_bytes (newest_two cs)"
      "md_tail_bytes m' = total_bytes (filter P (pt_updates p))"
      "md_tail_count m' = int (length (filter P (pt_updates p)))"
  shows "partition_ok checksum (p\<lparr>pt_quarantine := qs, pt_checkpoints := delete_stale cs,
     pt_updates := filter P (pt_updates p), pt_metadata := Some m'\<rparr>)"
proof -
  note put = checkpoints_put [OF ok s, where schema = schema and b = b and now = now, folded cs]
  note kept = delete_stale_props [OF put(1)]
  have "rows_ok checksum p" "ranges_ok m p"
    using ok by (simp_all add: partition_ok_def)
  then show ?thesis
    using put(2,3) kept m' by (auto simp: partition_ok_def rows_ok_def accounts_ok_def ranges_ok_def distinct_map_filter)
qed

lemma checkpoint_ok:
  assumes ok: "partition_ok checksum p"
  shows "partition_ok checksum (snd (installCheckpoint checksum b s schema now fault p))"
proof (cases "pt_metadata p")
  case None
  then show ?thesis
    using ok by (simp add: installCheckpoint_def)
next
  case (Some m)
  show ?thesis
  proof (cases "s < md_compacted_through m \<or> md_next_sequence m \<le> s")
    case True
    then show ?thesis
      using ok Some by (auto simp: installCheckpoint_def)
  next
    case False
    have m: "0 \<le> md_compacted_through m" "md_compacted_through m < md_next_sequence m"
      using ok Some by (simp_all add: partition_ok_def ranges_ok_def)
    define cs where "cs = put_row up_sequence (checkpoint_row s schema (checksum b) b now) (pt_checkpoints p)"
    note after = checkpointed_ok [OF ok Some _ _ cs_def, of _ _ "pt_quarantine p"]
    show ?thesis
      using ok m False Some after
      by (auto simp: installCheckpoint_def Let_def cs_def [symmetric] intro!: committed_ok)
  qed
qed

lemma fold_put_quarantine: "fold put_quarantine records p = p\<lparr>pt_quarantine := fold (put_row qr_export_handle) records (pt_quarantine p)\<rparr>"
  by (induction records arbitrary: p) (simp_all add: put_quarantine_def)

lemma repair_ok:
  assumes ok: "partition_ok checksum p" and legal: "legal (RepairOp b s schema records now) p"
  shows "partition_ok checksum (snd (repairCorruptTail checksum b s schema records now fault p))"
proof (cases "pt_metadata p")
  case None
  then show ?thesis
    using ok by (simp add: repairCorruptTail_def)
next
  case (Some m)
  define cs where "cs = put_row up_sequence (checkpoint_row s schema (checksum b) b now) (pt_checkpoints p)"
  note after = checkpointed_ok [OF ok Some _ _ cs_def, of _ "\<lambda>u. up_sequence u \<le> s" "fold (put_row qr_export_handle) records (pt_quarantine p)"]
  show ?thesis
    using ok legal Some after
    by (auto simp: repairCorruptTail_def Let_def fold_put_quarantine cs_def [symmetric] intro!: committed_ok)
qed

lemma replace_ok:
  assumes ok: "partition_ok checksum p"
  shows "partition_ok checksum (snd (replaceHistory checksum b epoch vv tail schema now fault p))"
proof (cases "pt_metadata p")
  case None
  then show ?thesis
    using ok by (simp add: replaceHistory_def)
next
  case (Some m)
  then have "0 \<le> md_compacted_through m" "md_compacted_through m < md_next_sequence m"
    using ok by (simp_all add: partition_ok_def ranges_ok_def)
  then show ?thesis
    using ok Some
    by (simp only: replaceHistory_def Let_def option.case)
      (rule committed_ok, simp, auto simp: partition_ok_def rows_ok_def accounts_ok_def ranges_ok_def checkpoint_row_def)
qed

lemma quarantine_ok: "partition_ok checksum p \<Longrightarrow> partition_ok checksum (snd (quarantine record fault p))"
  by (auto simp: quarantine_def intro!: committed_ok)
    (auto simp: put_quarantine_def partition_ok_def rows_ok_def accounts_ok_def ranges_ok_def split: option.split)

lemma storage_step_ok:
  assumes "partition_ok checksum p" "legal op p"
  shows "partition_ok checksum (storage_step checksum (op, fault) p)"
  using assms
  by (cases op) (simp_all del: legal.simps add: open_ok append_ok normalize_ok acknowledge_ok import_ok checkpoint_ok
      repair_ok replace_ok quarantine_ok deleteLocal_def committed_cases empty_ok)
subsection \<open>The log\<close>

definition committed :: "fault option \<Rightarrow> bool" where
  "committed fault \<longleftrightarrow> (case fault of Some (NotCommitted _) \<Rightarrow> False | _ \<Rightarrow> True)"

lemma snd_complete: "snd (complete fault result after before) = (if committed fault then after else before)"
  by (simp add: complete_def committed_def split: option.split fault.split)

text \<open>What a committed transaction means for the updates of the graph.\<close>

fun log_step :: "(bytes \<Rightarrow> js_string) \<Rightarrow> storage_op \<Rightarrow> partition \<Rightarrow> (int \<times> bytes) list \<Rightarrow> (int \<times> bytes) list" where
  "log_step checksum (AppendOp payload now base) p log =
     (case pt_metadata p of
        Some m \<Rightarrow> if checksum payload \<in> up_checksum ` set (pt_updates p) then log else log @ [(md_next_sequence m, payload)]
      | None \<Rightarrow> log)"
| "log_step checksum (RepairOp checkpoint validThrough schema records now) p log =
     filter (\<lambda>(s, _). s \<le> validThrough) log"
| "log_step checksum (ReplaceOp checkpoint epoch vv tail schema now) p log =
     (case pt_metadata p of Some m \<Rightarrow> if tail = [] then [] else [(md_next_sequence m, tail)] | None \<Rightarrow> log)"
| "log_step checksum DeleteOp p log = []"
| "log_step checksum op p log = log"

inductive stored :: "(bytes \<Rightarrow> js_string) \<Rightarrow> partition \<Rightarrow> (int \<times> bytes) list \<Rightarrow> bool" for checksum where
  stored_empty: "stored checksum no_rows []"
| stored_step: "stored checksum p log \<Longrightarrow> legal op p \<Longrightarrow>
     stored checksum (storage_step checksum (op, fault) p) (if committed fault then log_step checksum op p log else log)"

definition entry :: "update_record \<Rightarrow> int \<times> bytes" where "entry u = (up_sequence u, up_payload u)"

lemma entry_sel [simp]: "fst (entry u) = up_sequence u" "snd (entry u) = up_payload u"
  by (simp_all add: entry_def)

text \<open>An entry of the log is stored, or every retained checkpoint is behind it.\<close>

definition compacted :: "partition \<Rightarrow> int" where
  "compacted p = (case pt_metadata p of None \<Rightarrow> 0 | Some m \<Rightarrow> md_compacted_through m)"

definition kept :: "partition \<Rightarrow> int \<times> bytes \<Rightarrow> bool" where
  "kept p e \<longleftrightarrow>
     e \<in> entry ` set (pt_updates p)
     \<or> pt_checkpoints p \<noteq> [] \<and> (\<forall>c \<in> set (pt_checkpoints p). fst e \<le> up_sequence c) \<and> fst e \<le> compacted p"

definition log_ok :: "partition \<Rightarrow> (int \<times> bytes) list \<Rightarrow> bool" where
  "log_ok p log \<longleftrightarrow>
     by_key fst log
     \<and> (case pt_metadata p of None \<Rightarrow> log = [] | Some m \<Rightarrow> \<forall>e \<in> set log. 1 \<le> fst e \<and> fst e < md_next_sequence m)
     \<and> (\<forall>e \<in> set log. kept p e)
     \<and> entry ` set (pt_updates p) \<subseteq> set log"

lemma log_ok_same:
  assumes "log_ok p log" "pt_updates p' = pt_updates p" "pt_checkpoints p' = pt_checkpoints p"
    and "pt_metadata p' = pt_metadata p"
  shows "log_ok p' log"
  using assms by (simp add: log_ok_def kept_def compacted_def)

lemma append_log:
  assumes ok: "partition_ok checksum p" and log: "log_ok p log" and c: "committed fault"
  shows "log_ok (snd (appendUpdate checksum payload now base fault p)) (log_step checksum (AppendOp payload now base) p log)"
proof (cases "get_row up_checksum (checksum payload) (pt_updates p)")
  case (Some u)
  then have "checksum payload \<in> up_checksum ` set (pt_updates p)"
    using get_row_Some [OF Some] by force
  then show ?thesis
    using log c by (auto simp: appendUpdate_def Some snd_complete Let_def split: option.split
        intro: log_ok_same [OF log])
next
  case None
  show ?thesis
  proof (cases "pt_metadata p")
    case None
    then show ?thesis
      using log \<open>get_row _ _ _ = None\<close> by (simp add: appendUpdate_def)
  next
    case (Some m)
    have fresh: "checksum payload \<notin> up_checksum ` set (pt_updates p)"
      using None by (auto simp: get_row_None)
    have next1: "1 \<le> md_next_sequence m"
      using ok Some by (simp add: partition_ok_def ranges_ok_def)
    have old: "\<forall>e \<in> set log. 1 \<le> fst e \<and> fst e < md_next_sequence m"
      using log Some by (simp add: log_ok_def)
    let ?p = "snd (appendUpdate checksum payload now base fault p)"
    have p: "pt_updates ?p = pt_updates p @ [\<lparr>up_sequence = md_next_sequence m, up_checksum = checksum payload,
          up_payload = payload, up_created_at = now\<rparr>]"
        "pt_checkpoints ?p = pt_checkpoints p" "compacted ?p = compacted p" "map_option md_next_sequence (pt_metadata ?p) = Some (md_next_sequence m + 1)"
      using None Some c append_row [OF ok Some] by (simp_all add: appendUpdate_def Let_def snd_complete compacted_def)
    have "kept ?p e" if "kept p e" for e
      using that p by (auto simp: kept_def)
    moreover have "kept ?p (md_next_sequence m, payload)"
      using p by (simp add: kept_def entry_def)
    moreover have "by_key fst (log @ [(md_next_sequence m, payload)])"
      using log old by (simp add: log_ok_def sorted_wrt_append)
    ultimately show ?thesis
      using log old Some fresh p next1 by (cases "pt_metadata ?p") (auto simp: log_ok_def entry_def intro: order.strict_trans2)
  qed
qed

lemma acknowledge_one_kept:
  assumes ok: "partition_ok checksum p" and log: "log_ok p log"
    and through: "\<And>m. pt_metadata p = Some m \<Longrightarrow> through \<le> md_compacted_through m"
      "\<And>c. c \<in> set (pt_checkpoints p) \<Longrightarrow> through \<le> up_sequence c"
  shows "log_ok (acknowledge_one through ident p) log"
proof -
  have out: "log_ok (p\<lparr>pt_outbox := rows\<rparr>) log" for rows
    by (rule log_ok_same [OF log]) simp_all
  have "log_ok (p\<lparr>pt_outbox := rows, pt_updates := delete_row up_sequence s (pt_updates p), pt_metadata := Some m'\<rparr>) log"
    if m: "pt_metadata p = Some m" "md_next_sequence m' = md_next_sequence m"
      "md_compacted_through m' = md_compacted_through m" and s: "s \<le> through" "0 < s" for rows s m m'
  proof -
    have "pt_checkpoints p \<noteq> []"
      using ok m s through(1) by (force simp: partition_ok_def ranges_ok_def)
    then have "kept (p\<lparr>pt_outbox := rows, pt_updates := delete_row up_sequence s (pt_updates p), pt_metadata := Some m'\<rparr>) e"
      if "kept p e" for e
      using that s through(2) through(1) [OF m(1)] m by (force simp: kept_def compacted_def)
    then show ?thesis
      using log m by (auto simp: log_ok_def)
  qed
  then show ?thesis
    using out by (simp add: acknowledge_one_def Let_def split: option.split)
qed

lemma acknowledge_one_fields [simp]:
  "pt_checkpoints (acknowledge_one through ident p) = pt_checkpoints p"
  "map_option md_compacted_through (pt_metadata (acknowledge_one through ident p)) = map_option md_compacted_through (pt_metadata p)"
  by (simp_all add: acknowledge_one_def Let_def split: option.split)

lemma acknowledge_log:
  assumes ok: "partition_ok checksum p" and log: "log_ok p log"
  shows "log_ok (snd (acknowledge ids fault p)) log"
proof -
  define through where "through = fallback_through (case pt_metadata p of None \<Rightarrow> 0 | Some m \<Rightarrow> md_compacted_through m) (pt_checkpoints p)"
  have "log_ok (fold (acknowledge_one through) ids q) log"
    if "partition_ok checksum q" "log_ok q log" "pt_checkpoints q = pt_checkpoints p"
      "map_option md_compacted_through (pt_metadata q) = map_option md_compacted_through (pt_metadata p)" for q
    using that
  proof (induction ids arbitrary: q)
    case (Cons ident ids)
    have "log_ok (acknowledge_one through ident q) log"
    proof (rule acknowledge_one_kept [OF Cons.prems(1,2)])
      show "through \<le> md_compacted_through m" if "pt_metadata q = Some m" for m
        using Cons.prems(4) that fallback_through_le(1) [of "md_compacted_through m" "pt_checkpoints p"]
        by (cases "pt_metadata p") (auto simp: through_def)
      show "through \<le> up_sequence c" if "c \<in> set (pt_checkpoints q)" for c
        using Cons.prems(3) that by (simp add: through_def fallback_through_le)
    qed
    then show ?case
      using Cons by (simp add: acknowledge_one_ok)
  qed simp
  then show ?thesis
    using ok log by (simp add: acknowledge_def Let_def snd_complete through_def)
qed
lemma put_row_covers: "by_key key rows \<Longrightarrow> r \<in> set (put_row key r rows)"
  by (simp add: set_put_row)
text \<open>After a checkpoint under a new frontier: what is behind it need not be stored.\<close>

lemma checkpointed_log:
  assumes ok: "partition_ok checksum p" "pt_metadata p = Some m" and log: "log_ok p log"
    and cs: "cs = put_row up_sequence (checkpoint_row s schema (checksum b) b now) (pt_checkpoints p)"
    and m': "md_next_sequence m' = md_next_sequence m" "\<And>e. e \<in> set log' \<Longrightarrow> fst e \<le> compacted p \<Longrightarrow> fst e \<le> s"
      "s \<le> md_compacted_through m'"
    and P: "\<And>u. u \<in> set (pt_updates p) \<Longrightarrow> entry u \<in> set log' \<Longrightarrow> \<not> P u \<Longrightarrow>
        up_sequence u \<le> s \<and> (\<forall>c \<in> set (newest_two cs). up_sequence u \<le> up_sequence c)"
    and log': "log' = filter Q log" "\<And>u. P u \<Longrightarrow> Q (entry u)"
  shows "log_ok (p\<lparr>pt_quarantine := qs, pt_checkpoints := delete_stale cs, pt_updates := filter P (pt_updates p),
     pt_metadata := Some m'\<rparr>) log'" (is "log_ok ?p log'")
proof -
  have bk: "by_key up_sequence cs" "cs \<noteq> []"
    using ok set_put_row [of up_sequence "pt_checkpoints p" "checkpoint_row s schema (checksum b) b now"]
    by (auto simp: cs partition_ok_def rows_ok_def simp flip: set_empty)
  note stale = set_delete_stale [OF bk(1)] delete_stale_props(4) [OF bk(1)]
  have "kept ?p e" if e: "e \<in> set log'" "kept p e" for e
  proof (cases "e \<in> entry ` set (pt_updates p)")
    case True
    then obtain u where u: "u \<in> set (pt_updates p)" "e = entry u"
      by blast
    show ?thesis
    proof (cases "P u")
      case True
      then show ?thesis
        using u by (auto simp: kept_def)
    next
      case False
      then show ?thesis
        using P [OF u(1)] u(2) e(1) stale bk(2) m'(3) by (auto simp: kept_def compacted_def)
    qed
  next
    case False
    then have old: "\<forall>c \<in> set (pt_checkpoints p). fst e \<le> up_sequence c" "fst e \<le> s"
      using e m'(2) by (auto simp: kept_def)
    then have "fst e \<le> up_sequence c" if "c \<in> set cs" for c
      using that ok by (auto simp: cs set_put_row checkpoint_row_def partition_ok_def rows_ok_def)
    then show ?thesis
      using stale bk(2) newest_two_subset [of cs] old(2) m'(3) by (force simp: kept_def compacted_def)
  qed
  then show ?thesis
    using log ok(2) m'(1) log' by (auto simp: log_ok_def)
qed

lemma checkpoint_log:
  assumes ok: "partition_ok checksum p" and log: "log_ok p log"
  shows "log_ok (snd (installCheckpoint checksum b s schema now fault p)) log"
proof (cases "pt_metadata p")
  case None
  then show ?thesis
    using log by (simp add: installCheckpoint_def)
next
  case (Some m)
  define cs where "cs = put_row up_sequence (checkpoint_row s schema (checksum b) b now) (pt_checkpoints p)"
  let ?P = "\<lambda>u. \<not> (up_sequence u \<le> fallback_through s (newest_two cs) \<and> up_sequence u \<notin> pinned p)"
  have "up_sequence u \<le> s \<and> (\<forall>c \<in> set (newest_two cs). up_sequence u \<le> up_sequence c)" if "\<not> ?P u" for u
    using that fallback_through_le(1) [of s "newest_two cs"] fallback_through_le(2) [of _ "newest_two cs" s] by (force intro: order.trans)
  then have "log_ok (p\<lparr>pt_quarantine := pt_quarantine p, pt_checkpoints := delete_stale cs,
      pt_updates := filter ?P (pt_updates p), pt_metadata := Some m'\<rparr>) log"
    if "md_next_sequence m' = md_next_sequence m" "md_compacted_through m \<le> s" "s \<le> md_compacted_through m'" for m'
    using that Some
    by (intro checkpointed_log [OF ok Some log cs_def, where Q = "\<lambda>_. True"]) (auto simp: compacted_def)
  then show ?thesis
    using log Some by (auto simp: installCheckpoint_def Let_def snd_complete cs_def [symmetric])
qed

lemma repair_log:
  assumes ok: "partition_ok checksum p" and log: "log_ok p log" and c: "committed fault"
  shows "log_ok (snd (repairCorruptTail checksum b s schema records now fault p))
    (log_step checksum (RepairOp b s schema records now) p log)"
proof (cases "pt_metadata p")
  case None
  then show ?thesis
    using ok log by (simp add: repairCorruptTail_def log_ok_def partition_ok_def)
next
  case (Some m)
  define cs where "cs = put_row up_sequence (checkpoint_row s schema (checksum b) b now) (pt_checkpoints p)"
  have "log_ok (p\<lparr>pt_quarantine := qs, pt_checkpoints := delete_stale cs,
      pt_updates := filter (\<lambda>u. up_sequence u \<le> s) (pt_updates p), pt_metadata := Some m'\<rparr>)
      (filter (\<lambda>(s', _). s' \<le> s) log)"
    if "md_next_sequence m' = md_next_sequence m" "md_compacted_through m' = s" for m' qs
    using that by (intro checkpointed_log [OF ok Some log cs_def _ _ _ _ refl]) (auto simp: entry_def)
  then show ?thesis
    using log Some c
    by (simp add: repairCorruptTail_def Let_def snd_complete cs_def [symmetric] fold_put_quarantine)
qed

lemma replace_log:
  assumes ok: "partition_ok checksum p" and log: "log_ok p log" and c: "committed fault"
  shows "log_ok (snd (replaceHistory checksum b epoch vv tail schema now fault p))
    (log_step checksum (ReplaceOp b epoch vv tail schema now) p log)"
proof (cases "pt_metadata p")
  case None
  then show ?thesis
    using log by (simp add: replaceHistory_def)
next
  case (Some m)
  then have "0 \<le> md_compacted_through m" "md_compacted_through m < md_next_sequence m"
    using ok by (simp_all add: partition_ok_def ranges_ok_def)
  then show ?thesis
    using Some c by (simp add: replaceHistory_def Let_def snd_complete log_ok_def kept_def entry_def)
qed

lemma storage_step_uncommitted: "\<not> committed fault \<Longrightarrow> storage_step checksum (op, fault) p = p"
  by (cases op) (simp_all add: openGraph_def appendUpdate_def normalize_write_def acknowledge_def
      installImportedGraph_def installCheckpoint_def repairCorruptTail_def replaceHistory_def quarantine_def
      deleteLocal_def Let_def snd_complete split: option.split)

lemma storage_step_log:
  assumes ok: "partition_ok checksum p" and log: "log_ok p log"
  shows "log_ok (storage_step checksum (op, fault) p) (if committed fault then log_step checksum op p log else log)"
proof (cases "committed fault")
  case False
  then show ?thesis
    using log storage_step_uncommitted [OF False, of checksum op p] by simp
next
  case c: True
  have empty: "log = []" if "pt_metadata p = None"
    using log that by (simp add: log_ok_def)
  show ?thesis
  proof (cases op)
    case (OpenGraphOp l now replica)
    then show ?thesis
      using ok log c by (cases "pt_metadata p")
        (auto simp: openGraph_def Let_def snd_complete log_ok_def partition_ok_def)
  next
    case (ImportOp l replica schema checkpoint now epoch base)
    then show ?thesis
      using ok log c empty
      by (auto simp: installImportedGraph_def Let_def snd_complete log_ok_def partition_ok_def)
  next
    case DeleteOp
    then show ?thesis
      using c by (simp add: deleteLocal_def snd_complete log_ok_def no_rows_def)
  qed (use ok log c in \<open>simp_all del: log_step.simps(1-3) add: append_log acknowledge_log checkpoint_log repair_log replace_log
      normalize_write_def quarantine_def put_quarantine_def Let_def snd_complete log_ok_same [of p log]\<close>)
qed

lemma stored_ok: "stored checksum p log \<Longrightarrow> partition_ok checksum p \<and> log_ok p log"
proof (induction rule: stored.induct)
  case stored_empty
  then show ?case
    using empty_ok [of checksum] by (simp add: log_ok_def no_rows_def)
next
  case (stored_step p log op fault)
  then show ?case
    using storage_step_ok storage_step_log by blast
qed
subsection \<open>The log is what recovery reads\<close>

lemma by_key_sorted: "by_key f rows \<Longrightarrow> sorted (map f rows)"
  by (induction rows) (auto intro: less_imp_le)

lemma by_key_map_eq:
  assumes "by_key f xs" "by_key f ys" "set xs = set ys"
  shows "xs = ys"
proof (rule map_inj_on)
  show "map f xs = map f ys"
    by (rule sorted_distinct_set_unique) (use assms in \<open>simp_all add: by_key_distinct by_key_sorted\<close>)
  show "inj_on f (set xs \<union> set ys)"
    using by_key_distinct [OF assms(1)] assms(3) by (simp add: distinct_map)
qed

lemma sort_key_by_key: "by_key f rows \<Longrightarrow> sort_key f rows = rows"
  by (rule sort_key_id_if_sorted) (rule by_key_sorted)

lemma updatesAfter_filter:
  assumes "partition_ok checksum p"
  shows "updatesAfter s p = filter (\<lambda>u. s < up_sequence u) (pt_updates p)"
proof -
  have "by_key up_sequence (filter (\<lambda>u. s + 1 \<le> up_sequence u) (pt_updates p))"
    using assms by (simp add: partition_ok_def rows_ok_def)
  then show ?thesis
    by (simp add: updatesAfter_def sort_key_by_key zless_iff_Suc_zadd add1_zle_eq)
qed

lemma updatesAfter_log:
  assumes ok: "partition_ok checksum p" "log_ok p log"
    and "\<And>e. e \<in> set log \<Longrightarrow> s < fst e \<Longrightarrow> e \<in> entry ` set (pt_updates p)"
  shows "map entry (updatesAfter s p) = filter (\<lambda>e. s < fst e) log"
proof (rule by_key_map_eq [where f = fst])
  show "by_key fst (map entry (updatesAfter s p))"
    using ok(1) by (simp add: updatesAfter_filter [OF ok(1)] sorted_wrt_map partition_ok_def rows_ok_def)
  show "by_key fst (filter (\<lambda>e. s < fst e) log)"
    using ok(2) by (simp add: log_ok_def)
  show "set (map entry (updatesAfter s p)) = set (filter (\<lambda>e. s < fst e) log)"
    using ok assms(3) by (force simp: updatesAfter_filter [OF ok(1)] log_ok_def)
qed

lemma checkpoint_tail:
  assumes "partition_ok checksum p" "log_ok p log" "c \<in> set (pt_checkpoints p)"
  shows "map entry (updatesAfter (up_sequence c) p) = filter (\<lambda>e. up_sequence c < fst e) log"
  by (rule updatesAfter_log [OF assms(1,2)]) (use assms in \<open>force simp: log_ok_def kept_def\<close>)

lemma whole_tail:
  assumes "partition_ok checksum p" "log_ok p log" "pt_checkpoints p = []"
  shows "map entry (updatesAfter 0 p) = log"
proof -
  have "filter (\<lambda>e. 0 < fst e) log = log"
    using assms(2) by (force simp: log_ok_def filter_id_conv split: option.splits)
  then show ?thesis
    using updatesAfter_log [OF assms(1,2), of 0] assms by (auto simp: log_ok_def kept_def)
qed

lemma append_logged:
  assumes ok: "partition_ok checksum p" "log_ok p log" and inj: "inj checksum"
    and r: "fst (appendUpdate checksum payload now base fault p) = Inr r"
  shows "committed fault \<and> (rc_sequence r, payload) \<in> set (log_step checksum (AppendOp payload now base) p log)"
proof -
  have c: "fault = None"
    using r by (auto simp: appendUpdate_def complete_def Let_def split: option.splits fault.splits)
  show ?thesis
  proof (cases "get_row up_checksum (checksum payload) (pt_updates p)")
    case (Some u)
    then have u: "u \<in> set (pt_updates p)" "up_checksum u = checksum payload"
      using get_row_Some [OF Some] by simp_all
    then have "up_payload u = payload"
      using ok(1) inj by (auto simp: partition_ok_def rows_ok_def dest: injD)
    then have "(up_sequence u, payload) \<in> set log"
      using ok(2) u(1) by (force simp: log_ok_def entry_def)
    then show ?thesis
      using r c Some by (auto simp: appendUpdate_def complete_def committed_def Let_def split: option.split)
  next
    case None
    then have "checksum payload \<notin> up_checksum ` set (pt_updates p)"
      by (auto simp: get_row_None)
    then show ?thesis
      using r c None by (auto simp: appendUpdate_def complete_def committed_def Let_def split: option.splits)
  qed
qed

lemma acknowledge_next:
  "map_option md_next_sequence (pt_metadata (fold (acknowledge_one through) ids p)) = map_option md_next_sequence (pt_metadata p)"
proof (induction ids arbitrary: p)
  case (Cons ident ids)
  have "map_option md_next_sequence (pt_metadata (acknowledge_one through ident p)) = map_option md_next_sequence (pt_metadata p)"
    by (simp add: acknowledge_one_def Let_def split: option.split)
  then show ?case
    using Cons by simp
qed simp

lemma storage_step_next:
  assumes "pt_metadata p = Some m" "op \<noteq> DeleteOp"
  shows "\<exists>m'. pt_metadata (storage_step checksum (op, fault) p) = Some m' \<and> md_next_sequence m \<le> md_next_sequence m'"
proof (cases op)
  case (AcknowledgeOp ids)
  have "map_option md_next_sequence (pt_metadata (storage_step checksum (op, fault) p)) = Some (md_next_sequence m)"
    using assms(1) by (simp del: map_option_eq_Some add: AcknowledgeOp acknowledge_def Let_def snd_complete acknowledge_next)
  then show ?thesis
    by auto
next
  case (AppendOp payload now base)
  then show ?thesis
    using assms(1) by (auto simp: appendUpdate_def Let_def snd_complete split: option.split)
qed (use assms in \<open>auto simp: openGraph_def normalize_write_def installImportedGraph_def installCheckpoint_def
      repairCorruptTail_def replaceHistory_def quarantine_def put_quarantine_def Let_def snd_complete\<close>)

text \<open>
  C6. The durable store refines a log of updates: in every history of legal transactions, whatever
  fails or aborts, each retained checkpoint is followed in the store by exactly the logged updates
  behind it, in order (and all of them are stored while there is no checkpoint), so recovery
  may start from either checkpoint; and an append that answers with a receipt is in the log under
  the sequence of the receipt, also when it was stored before.
\<close>

theorem storage_keeps_log:
  assumes "stored checksum p log" "inj checksum"
  shows "(\<forall>c \<in> set (pt_checkpoints p). map entry (updatesAfter (up_sequence c) p) = filter (\<lambda>e. up_sequence c < fst e) log)
     \<and> (pt_checkpoints p = [] \<longrightarrow> map entry (updatesAfter 0 p) = log)
     \<and> (fst (appendUpdate checksum payload now base fault p) = Inr r \<longrightarrow>
          stored checksum (snd (appendUpdate checksum payload now base fault p))
            (log_step checksum (AppendOp payload now base) p log)
          \<and> (rc_sequence r, payload) \<in> set (log_step checksum (AppendOp payload now base) p log))"
proof -
  have ok: "partition_ok checksum p" "log_ok p log"
    using stored_ok [OF assms(1)] by simp_all
  have "stored checksum (snd (appendUpdate checksum payload now base fault p))
      (if committed fault then log_step checksum (AppendOp payload now base) p log else log)"
    using stored_step [OF assms(1), of "AppendOp payload now base" fault] by simp
  then show ?thesis
    using append_logged [OF ok assms(2)] checkpoint_tail [OF ok] whole_tail [OF ok] by auto
qed

text \<open>
  C7. The accounts of the metadata are exact in every history: the usage shown is the bytes of the
  stored rows, at most two checkpoints are retained, every sequence is one the graph gave out, no
  update is stored twice and every row carries the digest of its bytes; and until the graph is
  deleted a sequence is never given out again.
\<close>

theorem storage_accounts_exact:
  assumes "stored checksum p log" "pt_metadata p = Some m" "legal op p"
  shows "usage_bytes p = Inr (total_bytes (pt_checkpoints p) + total_bytes (pt_updates p)
            + standalone_bytes (pt_outbox p) + total_bytes (pt_quarantine p))
     \<and> md_tail_count m = int (length (pt_updates p)) \<and> length (pt_checkpoints p) \<le> 2
     \<and> (\<forall>u \<in> set (pt_updates p). 1 \<le> up_sequence u \<and> up_sequence u < md_next_sequence m
          \<and> up_checksum u = checksum (up_payload u))
     \<and> distinct (map up_sequence (pt_updates p)) \<and> distinct (map up_checksum (pt_updates p))
     \<and> (op \<noteq> DeleteOp \<longrightarrow> (\<exists>m'. pt_metadata (storage_step checksum (op, fault) p) = Some m'
          \<and> md_next_sequence m \<le> md_next_sequence m'))"
proof -
  have ok: "partition_ok checksum p"
    using stored_ok [OF assms(1)] by simp
  then have "rows_ok checksum p" "accounts_ok m p" "ranges_ok m p"
    using assms(2) by (simp_all add: partition_ok_def)
  then show ?thesis
    using assms(2) storage_step_next [OF assms(2)]
    by (auto simp: usage_bytes_def metadata_of_def accounts_ok_def ranges_ok_def rows_ok_def by_key_distinct)
qed

end
