(* ===== verification/Storage_Outbox.thy ===== *)
theory Storage_Outbox
  imports Storage_Safety
begin

text \<open>
  The outbox of a graph: every row names its update by content and resolves to it, in the order of
  the updates, until the entry is acknowledged. A repair of a corrupt tail is the exception: it
  deletes updates and leaves the rows of the outbox that name them.
\<close>

definition resolves :: "partition \<Rightarrow> outbox_record \<Rightarrow> bool" where
  "resolves p r \<longleftrightarrow>
     ob_payload r = None
     \<and> (\<exists>u \<in> set (pt_updates p). up_sequence u = ob_sequence r \<and> up_checksum u = ob_message_id r)"

definition outbox_ok :: "partition \<Rightarrow> bool" where
  "outbox_ok p \<longleftrightarrow> (\<forall>r \<in> set (pt_outbox p). resolves p r)"

abbreviation pending_ids :: "partition \<Rightarrow> js_string set" where
  "pending_ids p \<equiv> ob_message_id ` set (pt_outbox p)"

text \<open>What a committed transaction means for the entries that wait for the server.\<close>

fun pending_step :: "(bytes \<Rightarrow> js_string) \<Rightarrow> storage_op \<Rightarrow> partition \<Rightarrow> js_string set \<Rightarrow> js_string set" where
  "pending_step checksum (AppendOp payload now base) p ids =
     (if pt_metadata p = None \<or> base = None then ids else insert (checksum payload) ids)"
| "pending_step checksum (AcknowledgeOp acknowledged) p ids = ids - set acknowledged"
| "pending_step checksum (ReplaceOp checkpoint epoch vv tail schema now) p ids =
     (if pt_metadata p = None then ids else if tail = [] then {} else {checksum tail})"
| "pending_step checksum DeleteOp p ids = {}"
| "pending_step checksum op p ids = ids"

lemma outbox_ok_same:
  "outbox_ok p \<Longrightarrow> pt_updates p' = pt_updates p \<Longrightarrow> pt_outbox p' = pt_outbox p \<Longrightarrow> outbox_ok p'"
  by (simp add: outbox_ok_def resolves_def)

lemma put_outbox_set:
  "rows_ok checksum p \<Longrightarrow> set (pt_outbox (put_outbox d s base now p)) =
     (case base of None \<Rightarrow> set (pt_outbox p)
      | Some b \<Rightarrow> insert (outbox_row d s b now) {r \<in> set (pt_outbox p). ob_message_id r \<noteq> d})"
  by (simp add: put_outbox_def set_put_row rows_ok_def outbox_row_def split: option.split)

lemma append_outbox:
  assumes ok: "partition_ok checksum p" and out: "outbox_ok p"
  shows "outbox_ok (snd (appendUpdate checksum payload now base fault p))
     \<and> (committed fault \<longrightarrow> pending_ids (snd (appendUpdate checksum payload now base fault p)) =
          pending_step checksum (AppendOp payload now base) p (pending_ids p))"
proof (cases "get_row up_checksum (checksum payload) (pt_updates p)")
  case (Some u)
  then have u: "u \<in> set (pt_updates p)" "up_checksum u = checksum payload"
    using get_row_Some [OF Some] by simp_all
  then have m: "pt_metadata p \<noteq> None"
    using ok by (auto simp: partition_ok_def split: option.splits)
  have rows: "rows_ok checksum p"
    using ok by (simp add: partition_ok_def)
  have "outbox_ok (put_outbox (checksum payload) (up_sequence u) base now p)"
    using out u by (auto simp: outbox_ok_def resolves_def put_outbox_set [OF rows] outbox_row_def split: option.split)
  then show ?thesis
    using out m by (auto simp: appendUpdate_def Let_def Some snd_complete put_outbox_set [OF rows] outbox_row_def
        split: option.split)
next
  case None
  show ?thesis
  proof (cases "pt_metadata p")
    case None
    then show ?thesis
      using out \<open>get_row _ _ _ = None\<close> by (simp add: appendUpdate_def)
  next
    case (Some m)
    let ?p = "p\<lparr>pt_updates := pt_updates p @ [\<lparr>up_sequence = md_next_sequence m, up_checksum = checksum payload,
      up_payload = payload, up_created_at = now\<rparr>]\<rparr>"
    have rows: "set (pt_outbox (put_outbox d s base now ?p)) = set (pt_outbox (put_outbox d s base now p))" for d s base
      by (simp add: put_outbox_def split: option.split)
    have rows': "rows_ok checksum p"
      using ok by (simp add: partition_ok_def)
    show ?thesis
      using out None Some append_row [OF ok Some]
      by (auto simp: appendUpdate_def Let_def snd_complete outbox_ok_def resolves_def rows put_outbox_set [OF rows']
          outbox_row_def split: option.split)
  qed
qed

lemma acknowledge_one_outbox:
  assumes ok: "partition_ok checksum p" and out: "outbox_ok p"
  shows "outbox_ok (acknowledge_one through ident p) \<and> pending_ids (acknowledge_one through ident p) = pending_ids p - {ident}"
proof -
  have ids: "pt_outbox (acknowledge_one through ident p) = delete_row ob_message_id ident (pt_outbox p)"
    by (simp add: acknowledge_one_def Let_def split: option.split)
  have "resolves (acknowledge_one through ident p) r"
    if r: "r \<in> set (pt_outbox p)" "ob_message_id r \<noteq> ident" for r
  proof -
    from out r(1) obtain u where u: "ob_payload r = None" "u \<in> set (pt_updates p)" "up_sequence u = ob_sequence r"
      "up_checksum u = ob_message_id r"
      by (auto simp: outbox_ok_def resolves_def)
    have "ob_sequence r \<noteq> ob_sequence r'" if "get_row ob_message_id ident (pt_outbox p) = Some r'" for r'
    proof
      assume same: "ob_sequence r = ob_sequence r'"
      from get_row_Some [OF that] have r': "r' \<in> set (pt_outbox p)" "ob_message_id r' = ident"
        by simp_all
      then obtain u' where u': "u' \<in> set (pt_updates p)" "up_sequence u' = ob_sequence r'" "up_checksum u' = ident"
        using out by (auto simp: outbox_ok_def resolves_def)
      then have "u = u'"
        using ok u(2,3) same by (intro by_key_inj [of up_sequence "pt_updates p"]) (auto simp: partition_ok_def rows_ok_def)
      then show False
        using u(4) u'(3) r(2) by simp
    qed
    then show ?thesis
      using u by (auto simp: resolves_def acknowledge_one_def Let_def split: option.split)
  qed
  then show ?thesis
    by (auto simp: outbox_ok_def ids)
qed

lemma acknowledge_outbox:
  assumes "partition_ok checksum p" "outbox_ok p"
  shows "outbox_ok (fold (acknowledge_one through) ids p)
     \<and> pending_ids (fold (acknowledge_one through) ids p) = pending_ids p - set ids"
  using assms
proof (induction ids arbitrary: p)
  case (Cons ident ids)
  from acknowledge_one_outbox [OF Cons.prems, of through ident] acknowledge_one_ok [OF Cons.prems(1)] show ?case
    using Cons.IH [of "acknowledge_one through ident p"] by auto
qed simp

text \<open>A row that resolves is named by its content, so there is nothing to rename.\<close>

lemma resolved_row:
  assumes ok: "partition_ok checksum p" and r: "resolves p r"
  obtains u where "u \<in> set (pt_updates p)" "up_sequence u = ob_sequence r" "up_checksum u = ob_message_id r"
    "get_row up_sequence (ob_sequence r) (pt_updates p) = Some u" "up_checksum u = checksum (up_payload u)"
proof -
  from r obtain u where u: "u \<in> set (pt_updates p)" "up_sequence u = ob_sequence r" "up_checksum u = ob_message_id r"
    by (auto simp: resolves_def)
  moreover have "get_row up_sequence (ob_sequence r) (pt_updates p) = Some u"
    using get_row_member [of up_sequence "pt_updates p" u] ok u by (simp add: partition_ok_def rows_ok_def)
  moreover have "up_checksum u = checksum (up_payload u)"
    using ok u(1) by (simp add: partition_ok_def rows_ok_def)
  ultimately show ?thesis
    using that by blast
qed

lemma still_there_named:
  assumes ok: "partition_ok checksum p" "outbox_ok p" and live: "still_there p candidate"
  shows "named_by_content candidate \<and> in_persisted candidate \<in> set (pt_outbox p)"
proof -
  from live obtain r where r: "get_row ob_message_id (ob_message_id (in_persisted candidate)) (pt_outbox p) = Some r"
      "r = in_persisted candidate"
    by (auto simp: still_there_def split: option.splits)
  from get_row_Some [OF r(1)] have "r \<in> set (pt_outbox p)"
    by simp
  then have res: "resolves p r"
    using ok(2) by (simp add: outbox_ok_def)
  then obtain u where "get_row up_sequence (ob_sequence r) (pt_updates p) = Some u" "up_checksum u = ob_message_id r"
    using resolved_row [OF ok(1) res] by metis
  then show ?thesis
    using live r res \<open>r \<in> set (pt_outbox p)\<close> by (auto simp: still_there_def resolves_def named_by_content_def)
qed

lemma put_new_name_present:
  "named_by_content c \<Longrightarrow> in_persisted c \<in> set rows \<Longrightarrow> put_new_name c rows = rows"
  by (auto simp: put_new_name_def named_by_content_def get_row_None split: option.split)

lemma normalize_outbox:
  assumes ok: "partition_ok checksum p" "outbox_ok p"
  shows "snd (normalize_write inspected fault p) = p"
proof -
  have "fold put_new_name live (fold drop_old_name live (pt_outbox p)) = pt_outbox p"
    if "\<forall>c \<in> set live. named_by_content c \<and> in_persisted c \<in> set (pt_outbox p)" for live
  proof -
    have "fold drop_old_name live rows = rows" for rows
      using that by (induction live) (simp_all add: drop_old_name_def)
    moreover have "fold put_new_name live (pt_outbox p) = pt_outbox p"
      using that by (induction live) (simp_all add: put_new_name_present)
    ultimately show ?thesis
      by simp
  qed
  from this [of "filter (still_there p) inspected"] show ?thesis
    using still_there_named [OF ok] by (simp add: normalize_write_def Let_def snd_complete)
qed

fun is_repair :: "storage_op \<Rightarrow> bool" where
  "is_repair (RepairOp checkpoint validThrough schema records now) = True"
| "is_repair op = False"

lemma storage_step_outbox:
  assumes ok: "partition_ok checksum p" and out: "outbox_ok p" and "\<not> is_repair op"
  shows "outbox_ok (storage_step checksum (op, fault) p)
     \<and> pending_ids (storage_step checksum (op, fault) p) =
          (if committed fault then pending_step checksum op p (pending_ids p) else pending_ids p)"
proof (cases op)
  case (AppendOp payload now base)
  have "\<not> committed fault \<Longrightarrow> snd (appendUpdate checksum payload now base fault p) = p"
    by (simp add: appendUpdate_def Let_def snd_complete split: option.split)
  then show ?thesis
    using append_outbox [OF ok out, of payload now base fault] out by (auto simp: AppendOp)
next
  case (AcknowledgeOp ids)
  then show ?thesis
    using acknowledge_outbox [OF ok out] out by (simp add: acknowledge_def Let_def snd_complete)
next
  case (CheckpointOp payload sequence schema now)
  have "0 < ob_sequence r" if "r \<in> set (pt_outbox p)" for r
    using out ok that by (force simp: outbox_ok_def resolves_def partition_ok_def ranges_ok_def split: option.splits)
  then have "outbox_ok (snd (installCheckpoint checksum payload sequence schema now fault p))"
    using out by (fastforce simp: installCheckpoint_def Let_def snd_complete outbox_ok_def resolves_def pinned_def
        split: option.split)
  then show ?thesis
    by (simp add: CheckpointOp installCheckpoint_def Let_def snd_complete split: option.split)
next
  case (ReplaceOp checkpoint epoch vv tail schema now)
  then show ?thesis
    using out by (auto simp: replaceHistory_def Let_def snd_complete outbox_ok_def resolves_def outbox_row_def split: option.split)
next
  case DeleteOp
  then show ?thesis
    using out by (auto simp: deleteLocal_def snd_complete outbox_ok_def no_rows_def)
next
  case (RepairOp checkpoint validThrough schema records now)
  then show ?thesis
    using assms(3) by simp
qed (use out normalize_outbox [OF ok out] in \<open>auto simp: openGraph_def installImportedGraph_def quarantine_def put_quarantine_def
      Let_def snd_complete intro: outbox_ok_same split: option.split\<close>)
subsection \<open>What the server is sent\<close>

lemma run_snoc: "storage_run checksum (ops @ [step]) = storage_step checksum step (storage_run checksum ops)"
  by (simp add: storage_run_def)

lemma run_outbox_ok:
  "list_all (\<lambda>(op, _). \<not> is_repair op) ops \<Longrightarrow>
   partition_ok checksum (storage_run checksum ops) \<and> outbox_ok (storage_run checksum ops)"
proof (induction ops rule: rev_induct)
  case Nil
  then show ?case
    using empty_ok [of checksum] by (simp add: storage_run_def outbox_ok_def no_rows_def)
next
  case (snoc step ops)
  then have ok: "partition_ok checksum (storage_run checksum ops)" "outbox_ok (storage_run checksum ops)" by simp_all
  obtain op fault where step: "step = (op, fault)" by (cases step)
  have "\<not> is_repair op" using snoc.prems by (simp add: step)
  moreover from this have "legal op (storage_run checksum ops)"
    by (cases op) simp_all
  ultimately show ?case
    using storage_step_ok [OF ok(1)] storage_step_outbox [OF ok] by (simp add: run_snoc step)
qed

lemma inspect_resolved:
  assumes "partition_ok checksum p" "resolves p r"
  shows "\<exists>i. inspect_row checksum p r = Some i \<and> in_persisted i = r \<and> named_by_content i
     \<and> checksum (in_resolved i) = ob_message_id r
     \<and> (ob_sequence r, in_resolved i) \<in> entry ` set (pt_updates p)"
  by (rule resolved_row [OF assms]) (use assms in \<open>force simp: inspect_row_def resolves_def named_by_content_def entry_def\<close>)

lemma outbox_inspected:
  assumes ok: "partition_ok checksum p" "outbox_ok p"
  shows "\<exists>is. inspectOutbox checksum limit p = Inr is \<and> map in_persisted is = outbox_rows limit p
     \<and> list_all named_by_content is
     \<and> (\<forall>i \<in> set is. checksum (in_resolved i) = ob_message_id (in_persisted i))
     \<and> (\<forall>i \<in> set is. (ob_sequence (in_persisted i), in_resolved i) \<in> entry ` set (pt_updates p))"
proof -
  have rows: "set (outbox_rows limit p) \<subseteq> set (pt_outbox p)"
    by (auto simp: outbox_rows_def Let_def dest: in_set_takeD split: option.splits)
  have each: "\<exists>i. inspect_row checksum p r = Some i \<and> in_persisted i = r \<and> named_by_content i
      \<and> checksum (in_resolved i) = ob_message_id r
      \<and> (ob_sequence r, in_resolved i) \<in> entry ` set (pt_updates p)" if "r \<in> set (outbox_rows limit p)" for r
    using inspect_resolved [OF ok(1)] ok(2) rows that by (auto simp: outbox_ok_def)
  then have "None \<notin> set (map (inspect_row checksum p) (outbox_rows limit p))"
    by (metis (no_types, lifting) imageE list.set_map option.distinct(1))
  then show ?thesis
    using each by (force simp: inspectOutbox_def Let_def list_all_iff intro!: map_idI)
qed

text \<open>Entries of one sequence would be one entry.\<close>

lemma outbox_strict:
  assumes ok: "partition_ok checksum p" "outbox_ok p"
  shows "sorted_wrt (\<lambda>x y. ob_sequence x < ob_sequence y) (outbox_rows None p)"
proof -
  have "inj_on ob_sequence (set (pt_outbox p))"
  proof
    fix r r' assume r: "r \<in> set (pt_outbox p)" "r' \<in> set (pt_outbox p)" "ob_sequence r = ob_sequence r'"
    then obtain u u' where u: "u \<in> set (pt_updates p)" "up_sequence u = ob_sequence r" "up_checksum u = ob_message_id r"
      "u' \<in> set (pt_updates p)" "up_sequence u' = ob_sequence r'" "up_checksum u' = ob_message_id r'"
      using ok(2) unfolding outbox_ok_def resolves_def by metis
    then have "u = u'"
      using ok(1) r(3) by (intro by_key_inj [of up_sequence "pt_updates p"]) (auto simp: partition_ok_def rows_ok_def)
    then show "r = r'"
      using ok(1) r u by (intro by_key_inj [of ob_message_id "pt_outbox p"]) (auto simp: partition_ok_def rows_ok_def)
  qed
  moreover have "distinct (pt_outbox p)"
    using ok(1) by_key_distinct [of ob_message_id "pt_outbox p"] by (auto simp: partition_ok_def rows_ok_def distinct_map)
  ultimately have "distinct (map ob_sequence (outbox_rows None p))"
    by (simp add: outbox_rows_def distinct_map)
  moreover have "sorted (map ob_sequence (outbox_rows None p))"
    by (simp add: outbox_rows_def)
  ultimately have "sorted_wrt (<) (map ob_sequence (outbox_rows None p))"
    by (simp add: strict_sorted_iff)
  then show ?thesis
    by (simp add: sorted_wrt_map)
qed

text \<open>
  C8. The outbox never fails and forgets nothing while no tail is repaired: it is read in the strict
  order of its updates, every entry is the content its id names, nothing has to be renamed,
  and the waiting entries are exactly the updates appended for the server that were not
  acknowledged, whichever transactions fail.
\<close>

theorem outbox_complete:
  assumes "list_all (\<lambda>(op, _). \<not> is_repair op) (ops @ [(op, fault)])" "p = storage_run checksum ops"
  shows "(\<exists>is. outbox checksum None p = Inr is \<and> map in_persisted is = outbox_rows None p
            \<and> sorted_wrt (\<lambda>i j. ob_sequence (in_persisted i) < ob_sequence (in_persisted j)) is
            \<and> (\<forall>i \<in> set is. checksum (in_resolved i) = ob_message_id (in_persisted i)))
     \<and> normalizeOutbox checksum fault p = (Inr (), p)
     \<and> pending_ids (storage_run checksum (ops @ [(op, fault)])) =
          (if committed fault then pending_step checksum op p (pending_ids p) else pending_ids p)"
proof -
  have ok: "partition_ok checksum p" "outbox_ok p"
    using run_outbox_ok [of ops checksum] assms by simp_all
  from outbox_inspected [OF ok, of None] obtain ins where ins: "inspectOutbox checksum None p = Inr ins"
      "map in_persisted ins = outbox_rows None p" "list_all named_by_content ins"
      "\<forall>i \<in> set ins. checksum (in_resolved i) = ob_message_id (in_persisted i)"
      "\<forall>i \<in> set ins. (ob_sequence (in_persisted i), in_resolved i) \<in> entry ` set (pt_updates p)"
    by blast
  have "sorted_wrt (\<lambda>i j. ob_sequence (in_persisted i) < ob_sequence (in_persisted j)) ins"
    using outbox_strict [OF ok] unfolding ins(2) [symmetric] by (simp add: sorted_wrt_map)
  moreover have "outbox checksum None p = Inr ins" "normalizeOutbox checksum fault p = (Inr (), p)"
    using ins by (simp_all add: outbox_def normalizeOutbox_def)
  moreover have "pending_ids (storage_run checksum (ops @ [(op, fault)])) =
      (if committed fault then pending_step checksum op p (pending_ids p) else pending_ids p)"
    using storage_step_outbox [OF ok] assms by (simp add: run_snoc)
  ultimately show ?thesis
    using ins(2,4) by blast
qed
subsection \<open>A history\<close>

definition sample_digest :: "bytes \<Rightarrow> js_string" where "sample_digest b = map ucast b"

lemma inj_sample_digest: "inj sample_digest"
proof -
  have "u = v" if "(ucast u :: 16 word) = ucast v" for u v :: "8 word"
  proof -
    have "unat (ucast u :: 16 word) = unat (ucast v :: 16 word)"
      using that by simp
    then have "unat u = unat v"
      using unsigned_less [of u, where ?'a = nat] unsigned_less [of v, where ?'a = nat]
      by (simp add: unsigned_ucast_eq take_bit_eq_mod)
    then show ?thesis
      by (rule unsigned_word_eqI)
  qed
  then have "inj (ucast :: 8 word \<Rightarrow> 16 word)"
    by (rule injI)
  then show ?thesis
    by (simp add: sample_digest_def [abs_def] inj_mapI)
qed

definition sample_locator :: locator where
  "sample_locator = \<lparr>lo_repository_id = js ''r'', lo_graph_id = js ''g''\<rparr>"

definition sample_ops :: "(storage_op \<times> fault option) list" where
  "sample_ops =
     [(OpenGraphOp sample_locator (js ''t0'') 7, None), (CheckpointOp [1] 0 9 (js ''t0''), None),
      (AppendOp [2] (js ''t1'') (Some [0]), None), (AppendOp [3, 4] (js ''t2'') (Some [0]), None),
      (AppendOp [5] (js ''t3'') None, Some (NotCommitted QuotaExceededError)),
      (AppendOp [5] (js ''t4'') (Some [0]), Some (CommittedThenFailed (storage_error DirtyUnsaved True))),
      (CheckpointOp [1, 2, 3] 2 9 (js ''t5''), None), (AcknowledgeOp [[2]], None)]"

text \<open>The partition and the log of a history.\<close>

definition history_step ::
  "(bytes \<Rightarrow> js_string) \<Rightarrow> storage_op \<times> fault option \<Rightarrow> partition \<times> (int \<times> bytes) list \<Rightarrow> partition \<times> (int \<times> bytes) list"
where
  "history_step checksum step s =
     (storage_step checksum step (fst s),
      if committed (snd step) then log_step checksum (fst step) (fst s) (snd s) else snd s)"

definition history :: "(bytes \<Rightarrow> js_string) \<Rightarrow> (storage_op \<times> fault option) list \<Rightarrow> partition \<times> (int \<times> bytes) list" where
  "history checksum ops = fold (history_step checksum) ops (no_rows, [])"

lemma stored_history:
  assumes "list_all (\<lambda>(op, _). \<not> is_repair op) ops"
  shows "stored checksum (fst (history checksum ops)) (snd (history checksum ops))"
proof -
  have "stored checksum (fst (fold (history_step checksum) ops s)) (snd (fold (history_step checksum) ops s))"
    if "stored checksum (fst s) (snd s)" for s
    using that assms
  proof (induction ops arbitrary: s)
    case (Cons step ops)
    obtain op fault where step: "step = (op, fault)" by (cases step)
    then have "legal op (fst s)" using Cons.prems(2) by (cases op) simp_all
    then have "stored checksum (fst (history_step checksum step s)) (snd (history_step checksum step s))"
      using stored_step [OF Cons.prems(1), of op fault] by (cases "committed fault") (simp_all add: step history_step_def)
    then show ?case
      using Cons by simp
  qed simp
  from this [of "(no_rows, [])"] show ?thesis
    by (simp add: history_def stored_empty)
qed

definition sample_history :: "partition \<times> (int \<times> bytes) list" where
  "sample_history = history sample_digest sample_ops"

lemma sample_stored: "stored sample_digest (fst sample_history) (snd sample_history)"
  unfolding sample_history_def by (rule stored_history) (simp add: sample_ops_def)

lemma sample_values:
  "snd sample_history = [(1, [2]), (2, [3, 4]), (3, [5])]
   \<and> map up_sequence (pt_checkpoints (fst sample_history)) = [0, 2]
   \<and> map up_sequence (pt_updates (fst sample_history)) = [1, 2, 3]
   \<and> map ob_sequence (pt_outbox (fst sample_history)) = [2, 3]
   \<and> map_option md_next_sequence (pt_metadata (fst sample_history)) = Some 4
   \<and> fst (appendUpdate sample_digest [5] [] None None (fst sample_history)) = Inr \<lparr>rc_sequence = 3, rc_checksum = sample_digest [5]\<rparr>"
  by code_simp

theorem storage_keeps_log_witness:
  "(3, [5]) \<in> set (log_step sample_digest (AppendOp [5] [] None) (fst sample_history) (snd sample_history))"
  using storage_keeps_log [OF sample_stored inj_sample_digest, of "[5]" "[]" None None] sample_values by auto

theorem storage_accounts_exact_witness:
  "md_tail_count (the (pt_metadata (fst sample_history))) = 3"
proof -
  obtain m where m: "pt_metadata (fst sample_history) = Some m"
    using sample_values by auto
  have "length (pt_updates (fst sample_history)) = 3"
    using sample_values by (metis length_map list.size(3,4) numeral_3_eq_3 One_nat_def add.commute plus_1_eq_Suc)
  then show ?thesis
    using storage_accounts_exact [OF sample_stored m, of "AppendOp [6] [] None" None] m by simp
qed

theorem outbox_complete_witness:
  "pending_ids (storage_run sample_digest (sample_ops @ [(AcknowledgeOp [[3, 4]], None)])) =
     pending_ids (storage_run sample_digest sample_ops) - {[3, 4]}"
  using outbox_complete [OF _ refl, of sample_ops "AcknowledgeOp [[3, 4]]" None sample_digest]
  by (simp add: sample_ops_def committed_def)

text \<open>
  The repair of a corrupt tail deletes the updates behind the frontier but not the rows of the
  outbox that name them. Opening the graph repairs and then normalizes the outbox, which
  fails on the missing update; and since the rows stay, it fails at every later opening too.
\<close>

lemma repair_strands_outbox:
  "inspectOutbox sample_digest None (fst sample_history) \<noteq> Inl (storage_error StorageCorrupt False)
   \<and> (let p = snd (repairCorruptTail sample_digest [9] 2 9 [] (js ''t6'') None (fst sample_history))
      in normalizeOutbox sample_digest None p = (Inl (storage_error StorageCorrupt False), p)
         \<and> outbox sample_digest (Some 256) p = Inl (storage_error StorageCorrupt False))"
  by code_simp

end
