(* ===== verification/Worker_Durability.thy ===== *)
theory Worker_Durability
  imports Graph_Worker Storage_Outbox
begin

text \<open>
  A save that the Worker reported survives: whatever requests, failing transactions and crashes came
  before, opening the graph again recovers a core that knows every saved update. The core is
  described by what it knows: an update carries operations and needs those it builds on.
\<close>

subsection \<open>The laws of the core\<close>

text \<open>
  \<open>ops\<close> are the operations of an update, \<open>deps\<close> those it builds on, \<open>known\<close> those a core holds;
  \<open>good\<close> updates are those a core made or validated, and \<open>sound\<close> documents those that pass
  validation. A snapshot loads in every mode to what was exported; a good update enters every sound
  core that knows what it builds on, and validation then passes.
\<close>

definition snapshot_laws :: "'c core_api \<Rightarrow> ('c \<Rightarrow> 'k set) \<Rightarrow> ('c \<Rightarrow> bool) \<Rightarrow> bool" where
  "snapshot_laws api known sound \<longleftrightarrow>
     (\<forall>now. sound (ca_new api now))
     \<and> (\<forall>b c m. ca_load api Validated b = Some c \<longrightarrow>
          sound c \<and> (\<exists>c'. ca_load api m b = Some c' \<and> sound c' \<and> known c' = known c))
     \<and> (\<forall>c. sound c \<longrightarrow>
          (\<exists>c'. ca_load api Validated (ca_export api c) = Some c' \<and> known c' = known c)
          \<and> (\<exists>c'. ca_load api Validated (ca_exportGc api c) = Some c' \<and> known c' = known c)
          \<and> (\<exists>c'. ca_finish api c = Some c' \<and> sound c' \<and> known c' = known c)
          \<and> sound (ca_reset api c) \<and> known (ca_reset api c) = known c)"

definition update_laws ::
  "'c core_api \<Rightarrow> (bytes \<Rightarrow> 'k set) \<Rightarrow> (bytes \<Rightarrow> 'k set) \<Rightarrow> (bytes \<Rightarrow> bool) \<Rightarrow> ('c \<Rightarrow> 'k set) \<Rightarrow> ('c \<Rightarrow> bool) \<Rightarrow> bool"
where
  "update_laws api ops deps good known sound \<longleftrightarrow>
     ops [] = {}
     \<and> (\<forall>c u. sound c \<and> good u \<and> deps u \<subseteq> known c \<longrightarrow>
        (\<exists>c'. ca_stage api u c = Some c' \<and> sound c' \<and> known c' = known c \<union> ops u)
        \<and> (\<exists>c'. ca_import api u c = Some c' \<and> sound c' \<and> known c' = known c \<union> ops u))
     \<and> (\<forall>c u. sound c \<and> ca_validate api u c \<longrightarrow> good u \<and> deps u \<subseteq> known c)
     \<and> (\<forall>c command c' semantic u. sound c \<and> ca_execute api command c = Some (c', semantic, u) \<longrightarrow>
          sound c' \<and> known c' = known c \<union> ops u \<and> good u \<and> deps u \<subseteq> known c)"

definition core_laws ::
  "'c core_api \<Rightarrow> (bytes \<Rightarrow> 'k set) \<Rightarrow> (bytes \<Rightarrow> 'k set) \<Rightarrow> (bytes \<Rightarrow> bool) \<Rightarrow> ('c \<Rightarrow> 'k set) \<Rightarrow> ('c \<Rightarrow> bool) \<Rightarrow> bool"
where
  "core_laws api ops deps good known sound \<longleftrightarrow>
     snapshot_laws api known sound \<and> update_laws api ops deps good known sound"

subsection \<open>What the store holds\<close>

definition covered :: "(bytes \<Rightarrow> 'k set) \<Rightarrow> 'k set \<Rightarrow> (int \<times> bytes) list \<Rightarrow> 'k set" where
  "covered ops base log = base \<union> (\<Union>e \<in> set log. ops (snd e))"

lemma covered_simps [simp]:
  "covered ops base [] = base" "covered ops base (log @ [e]) = covered ops base log \<union> ops (snd e)"
  "covered ops base (e # log) = covered ops (base \<union> ops (snd e)) log"
  by (auto simp: covered_def)

lemma covered_mono: "set log \<subseteq> set log' \<Longrightarrow> covered ops base log \<subseteq> covered ops base log'"
  by (auto simp: covered_def)

text \<open>Every update of the log builds on the base and the updates before it.\<close>

fun causal :: "(bytes \<Rightarrow> 'k set) \<Rightarrow> (bytes \<Rightarrow> 'k set) \<Rightarrow> (bytes \<Rightarrow> bool) \<Rightarrow> 'k set \<Rightarrow> (int \<times> bytes) list \<Rightarrow> bool" where
  "causal ops deps good base [] = True"
| "causal ops deps good base (e # log) =
     (good (snd e) \<and> deps (snd e) \<subseteq> base \<and> causal ops deps good (base \<union> ops (snd e)) log)"

lemma causal_snoc:
  "causal ops deps good base (log @ [e]) \<longleftrightarrow>
     causal ops deps good base log \<and> good (snd e) \<and> deps (snd e) \<subseteq> covered ops base log"
  by (induction log arbitrary: base) auto

definition snapshot_ok ::
  "'c core_api \<Rightarrow> (bytes \<Rightarrow> 'k set) \<Rightarrow> ('c \<Rightarrow> 'k set) \<Rightarrow> 'k set \<Rightarrow> (int \<times> bytes) list \<Rightarrow> checkpoint_record \<Rightarrow> bool"
where
  "snapshot_ok api ops known base log cp \<longleftrightarrow>
     cp_schema_version cp = SCHEMA_VERSION
     \<and> (\<exists>c. ca_load api Validated (up_payload cp) = Some c
          \<and> covered ops base (filter (\<lambda>e. fst e \<le> up_sequence cp) log) \<subseteq> known c \<and> known c \<subseteq> covered ops base log)"

definition db_inv ::
  "'c core_api \<Rightarrow> (bytes \<Rightarrow> js_string) \<Rightarrow> (bytes \<Rightarrow> 'k set) \<Rightarrow> (bytes \<Rightarrow> 'k set) \<Rightarrow> (bytes \<Rightarrow> bool) \<Rightarrow> ('c \<Rightarrow> 'k set)
     \<Rightarrow> partition \<Rightarrow> 'k set \<Rightarrow> (int \<times> bytes) list \<Rightarrow> bool"
where
  "db_inv api checksum ops deps good known p base log \<longleftrightarrow>
     partition_ok checksum p \<and> log_ok p log \<and> outbox_ok p
     \<and> causal ops deps good base log
     \<and> (\<forall>cp \<in> set (pt_checkpoints p). snapshot_ok api ops known base log cp)
     \<and> (pt_checkpoints p = [] \<longrightarrow> log = [])
     \<and> (\<forall>m. pt_metadata p = Some m \<longrightarrow> md_schema_version m = SCHEMA_VERSION)"

lemma db_inv_step:
  assumes inv: "db_inv api checksum ops deps good known p base log" and op: "\<not> is_repair op"
    and causal: "committed fault \<Longrightarrow> causal ops deps good base' (log_step checksum op p log)"
    and cps: "\<And>cp. committed fault \<Longrightarrow> cp \<in> set (pt_checkpoints (storage_step checksum (op, fault) p)) \<Longrightarrow>
        snapshot_ok api ops known base' (log_step checksum op p log) cp"
    and none: "committed fault \<Longrightarrow> pt_checkpoints (storage_step checksum (op, fault) p) = [] \<Longrightarrow>
        log_step checksum op p log = []"
    and schema: "\<And>m. committed fault \<Longrightarrow> pt_metadata (storage_step checksum (op, fault) p) = Some m \<Longrightarrow>
        md_schema_version m = SCHEMA_VERSION"
  shows "if committed fault then db_inv api checksum ops deps good known (storage_step checksum (op, fault) p) base' (log_step checksum op p log)
     else storage_step checksum (op, fault) p = p"
proof (cases "committed fault")
  case True
  have ok: "partition_ok checksum p" "log_ok p log" "outbox_ok p"
    using inv by (simp_all add: db_inv_def)
  have "legal op p"
    using op by (cases op) simp_all
  then show ?thesis
    using True storage_step_ok [OF ok(1)] storage_step_log [OF ok(1,2), of op fault] storage_step_outbox [OF ok(1,3) op]
      causal cps none schema
    by (simp add: db_inv_def)
next
  case False
  then show ?thesis
    using storage_step_uncommitted [OF False] by simp
qed

lemma snapshot_ok_append:
  assumes "snapshot_ok api ops known base log cp" "up_sequence cp < n"
  shows "snapshot_ok api ops known base (log @ [(n, u)]) cp"
proof -
  have "filter (\<lambda>e. fst e \<le> up_sequence cp) (log @ [(n, u)]) = filter (\<lambda>e. fst e \<le> up_sequence cp) log"
    using assms(2) by simp
  then show ?thesis
    using assms(1) by (auto simp: snapshot_ok_def)
qed

lemma db_inv_fields:
  assumes "db_inv api checksum ops deps good known p base log"
  shows "partition_ok checksum p" "log_ok p log" "outbox_ok p" "causal ops deps good base log"
    "\<And>cp. cp \<in> set (pt_checkpoints p) \<Longrightarrow> snapshot_ok api ops known base log cp"
    "pt_checkpoints p = [] \<Longrightarrow> log = []"
    "\<And>m. pt_metadata p = Some m \<Longrightarrow> md_schema_version m = SCHEMA_VERSION"
  using assms by (simp_all add: db_inv_def)

lemma append_inv:
  assumes inv: "db_inv api checksum ops deps good known p base log" and inj: "inj checksum"
    and u: "good u" "deps u \<subseteq> covered ops base log" and cps: "pt_checkpoints p \<noteq> []"
    and result: "appendUpdate checksum u now b (browser_fault e) p = (res, p')"
  shows "(\<forall>r. res = Inr r \<longrightarrow> (\<exists>log'. db_inv api checksum ops deps good known p' base log' \<and> set log \<subseteq> set log'
        \<and> (rc_sequence r, u) \<in> set log' \<and> covered ops base log' = covered ops base log \<union> ops u))
     \<and> (\<forall>err. res = Inl err \<longrightarrow> p' = p) \<and> pt_checkpoints p' \<noteq> []"
proof -
  note f = db_inv_fields [OF inv]
  let ?op = "AppendOp u now b"
  let ?log = "log_step checksum ?op p log"
  have p': "p' = storage_step checksum (?op, browser_fault e) p"
    using result by simp
  have same: "pt_checkpoints p' = pt_checkpoints p"
    using p' by (simp add: appendUpdate_def Let_def snd_complete split: option.split)
  obtain m where m: "pt_metadata p = Some m"
    using f(1) cps by (auto simp: partition_ok_def split: option.splits)
  have below: "up_sequence cp < md_next_sequence m" if "cp \<in> set (pt_checkpoints p)" for cp
    using f(1) m that by (simp add: partition_ok_def ranges_ok_def)
  have step: "if committed (browser_fault e) then db_inv api checksum ops deps good known p' base ?log else p' = p"
    unfolding p'
  proof (rule db_inv_step [OF inv])
    show "causal ops deps good base ?log"
      using f(4) u m by (simp add: causal_snoc)
    show "snapshot_ok api ops known base ?log cp"
      if "cp \<in> set (pt_checkpoints (storage_step checksum (?op, browser_fault e) p))" for cp
    proof -
      have "cp \<in> set (pt_checkpoints p)"
        using that same p' by simp
      then show ?thesis
        using f(5) below m snapshot_ok_append by (fastforce split: if_splits)
    qed
    show "md_schema_version m' = SCHEMA_VERSION"
      if "pt_metadata (storage_step checksum (?op, browser_fault e) p) = Some m'" for m'
      using that f(7) m by (auto simp: appendUpdate_def Let_def snd_complete split: option.splits if_splits)
    show "?log = []" if "pt_checkpoints (storage_step checksum (?op, browser_fault e) p) = []"
      using that same p' cps by simp
  qed simp
  have "\<exists>log'. db_inv api checksum ops deps good known p' base log' \<and> set log \<subseteq> set log' \<and> (rc_sequence r, u) \<in> set log'
      \<and> covered ops base log' = covered ops base log \<union> ops u" if r: "res = Inr r" for r
  proof -
    have mem: "committed (browser_fault e)" "(rc_sequence r, u) \<in> set ?log"
      using append_logged [OF f(1,2) inj, of u now b "browser_fault e" r] result r by simp_all
    then have "db_inv api checksum ops deps good known p' base ?log" "set log \<subseteq> set ?log"
      using step m by auto
    moreover have "covered ops base ?log = covered ops base log \<union> ops u"
      using mem(2) m by (auto simp: covered_def split: if_splits)
    ultimately show ?thesis
      using mem by blast
  qed
  moreover have "p' = p" if "res = Inl err" for err
    using that result m by (auto simp: appendUpdate_def complete_def browser_fault_def Let_def split: option.splits fault.splits)
  ultimately show ?thesis
    using same cps by auto
qed
lemma checkpoint_inv:
  assumes inv: "db_inv api checksum ops deps good known p base log"
    and snap: "ca_load api Validated b = Some c" "covered ops base log \<subseteq> known c" "known c \<subseteq> covered ops base log"
    and result: "installCheckpoint checksum b s SCHEMA_VERSION now fault p = (res, p')"
  shows "db_inv api checksum ops deps good known p' base log \<and> (pt_checkpoints p \<noteq> [] \<longrightarrow> pt_checkpoints p' \<noteq> [])
     \<and> (\<forall>x. res = Inr x \<longrightarrow> pt_checkpoints p' \<noteq> [])"
proof -
  note f = db_inv_fields [OF inv]
  let ?op = "CheckpointOp b s SCHEMA_VERSION now"
  let ?cs = "put_row up_sequence (checkpoint_row s SCHEMA_VERSION (checksum b) b now) (pt_checkpoints p)"
  have p': "p' = storage_step checksum (?op, fault) p"
    using result by simp
  have sorted: "by_key up_sequence (pt_checkpoints p)"
    using f(1) by (simp add: partition_ok_def rows_ok_def)
  have cs: "by_key up_sequence ?cs" "?cs \<noteq> []"
    using sorted put_row_covers [OF sorted, of "checkpoint_row s SCHEMA_VERSION (checksum b) b now"] by auto
  have cps: "pt_checkpoints p' = pt_checkpoints p \<or> pt_checkpoints p' = delete_stale ?cs"
    using p' by (simp add: installCheckpoint_def Let_def snd_complete split: option.split)
  have new: "snapshot_ok api ops known base log (checkpoint_row s SCHEMA_VERSION (checksum b) b now)"
    using snap covered_mono [of "filter (\<lambda>e. fst e \<le> s) log" log ops base]
    by (auto simp: snapshot_ok_def checkpoint_row_def)
  have rows: "snapshot_ok api ops known base log cp" if "cp \<in> set (pt_checkpoints p')" for cp
    using that cps delete_stale_props(5) [OF cs(1)] f(5) new sorted by (auto simp: set_put_row)
  have stale: "delete_stale ?cs \<noteq> []"
    using delete_stale_props(4) [OF cs(1)] cs(2) by simp
  have "if committed fault then db_inv api checksum ops deps good known p' base (log_step checksum ?op p log) else p' = p"
    unfolding p'
  proof (rule db_inv_step [OF inv])
    show "md_schema_version m = SCHEMA_VERSION"
      if "pt_metadata (storage_step checksum (?op, fault) p) = Some m" for m
      using that f(7) by (auto simp: installCheckpoint_def Let_def snd_complete split: option.splits if_splits)
    show "log_step checksum ?op p log = []" if "pt_checkpoints (storage_step checksum (?op, fault) p) = []"
      using that cps stale f(6) p' by auto
  qed (use f(4) rows p' in simp_all)
  moreover have "pt_checkpoints p' \<noteq> []" if "res = Inr x" for x
    using that result stale by (auto simp: installCheckpoint_def complete_def Let_def split: option.splits if_splits fault.splits)
  ultimately show ?thesis
    using inv cps stale by (auto split: if_splits)
qed

lemma acknowledge_inv:
  assumes inv: "db_inv api checksum ops deps good known p base log"
    and result: "acknowledge ids fault p = (res, p')"
  shows "db_inv api checksum ops deps good known p' base log \<and> pt_checkpoints p' = pt_checkpoints p"
proof -
  note f = db_inv_fields [OF inv]
  have p': "p' = storage_step checksum (AcknowledgeOp ids, fault) p"
    using result by simp
  have fold: "pt_checkpoints (fold (acknowledge_one t) ids p) = pt_checkpoints p
      \<and> map_option md_schema_version (pt_metadata (fold (acknowledge_one t) ids p)) = map_option md_schema_version (pt_metadata p)" for t
  proof (induction ids arbitrary: p)
    case (Cons ident ids)
    have "map_option md_schema_version (pt_metadata (acknowledge_one t ident p)) = map_option md_schema_version (pt_metadata p)"
      by (simp add: acknowledge_one_def Let_def split: option.split)
    then show ?case
      using Cons by simp
  qed simp
  have same: "pt_checkpoints p' = pt_checkpoints p"
    "map_option md_schema_version (pt_metadata p') = map_option md_schema_version (pt_metadata p)"
    using p' fold by (simp_all add: acknowledge_def Let_def snd_complete)
  have "if committed fault then db_inv api checksum ops deps good known p' base (log_step checksum (AcknowledgeOp ids) p log) else p' = p"
    unfolding p'
  proof (rule db_inv_step [OF inv])
    show "md_schema_version m = SCHEMA_VERSION"
      if "pt_metadata (storage_step checksum (AcknowledgeOp ids, fault) p) = Some m" for m
      using that f(7) same(2) p' by (cases "pt_metadata p") auto
  qed (use f same(1) p' in simp_all)
  then show ?thesis
    using inv same(1) by (auto split: if_splits)
qed

lemma replace_inv:
  assumes inv: "db_inv api checksum ops deps good known p base log"
    and snap: "ca_load api Validated b = Some c" and cps: "pt_checkpoints p \<noteq> []"
    and result: "replaceHistory checksum b epoch vv [] SCHEMA_VERSION now (browser_fault e) p = (res, p')"
  shows "(\<forall>s. res = Inr s \<longrightarrow> db_inv api checksum ops deps good known p' (known c) [])
     \<and> (\<forall>err. res = Inl err \<longrightarrow> p' = p) \<and> pt_checkpoints p' \<noteq> []"
proof -
  note f = db_inv_fields [OF inv]
  let ?op = "ReplaceOp b epoch vv [] SCHEMA_VERSION now"
  obtain m where m: "pt_metadata p = Some m"
    using f(1) cps by (auto simp: partition_ok_def split: option.splits)
  have p': "p' = storage_step checksum (?op, browser_fault e) p"
    using result by simp
  have rows: "pt_checkpoints p' = (if committed (browser_fault e)
      then [checkpoint_row (md_next_sequence m - 1) SCHEMA_VERSION (checksum b) b now] else pt_checkpoints p)"
    using p' m by (simp add: replaceHistory_def Let_def snd_complete)
  have "if committed (browser_fault e) then db_inv api checksum ops deps good known p' (known c) (log_step checksum ?op p log) else p' = p"
    unfolding p'
  proof (rule db_inv_step [OF inv])
    show "snapshot_ok api ops known (known c) (log_step checksum ?op p log) cp"
      if "committed (browser_fault e)" "cp \<in> set (pt_checkpoints (storage_step checksum (?op, browser_fault e) p))" for cp
      using that rows p' snap m by (simp add: snapshot_ok_def checkpoint_row_def)
    show "md_schema_version m' = SCHEMA_VERSION"
      if "pt_metadata (storage_step checksum (?op, browser_fault e) p) = Some m'" for m'
      using that f(7) m by (auto simp: replaceHistory_def Let_def snd_complete split: if_splits)
  qed (use m in simp_all)
  moreover have "committed (browser_fault e) \<longleftrightarrow> (\<exists>s. res = Inr s)"
    using result m by (cases e) (auto simp: replaceHistory_def Let_def complete_def browser_fault_def committed_def)
  ultimately show ?thesis
    using rows cps m by (auto split: if_splits sum.splits)
qed

lemma no_rows_inv: "db_inv api checksum ops deps good known no_rows base []"
  using empty_ok [of checksum] by (simp add: db_inv_def log_ok_def outbox_ok_def) (simp add: no_rows_def)

lemma open_metadata_inv:
  assumes inv: "db_inv api checksum ops deps good known p base log"
    and result: "openGraph l now peer fault p = (res, p')"
  shows "db_inv api checksum ops deps good known p' base log \<and> pt_checkpoints p' = pt_checkpoints p
     \<and> (\<forall>m. res = Inr m \<longrightarrow> md_schema_version m = SCHEMA_VERSION \<and> pt_metadata p' \<noteq> None)"
proof -
  note f = db_inv_fields [OF inv]
  let ?op = "OpenGraphOp l now peer"
  have p': "p' = storage_step checksum (?op, fault) p"
    using result by simp
  have same: "pt_checkpoints p' = pt_checkpoints p"
    using p' by (simp add: openGraph_def Let_def snd_complete split: option.split)
  have "if committed fault then db_inv api checksum ops deps good known p' base (log_step checksum ?op p log) else p' = p"
    unfolding p'
  proof (rule db_inv_step [OF inv])
    show "md_schema_version m = SCHEMA_VERSION"
      if "pt_metadata (storage_step checksum (?op, fault) p) = Some m" for m
      using that f(7) by (auto simp: openGraph_def Let_def snd_complete split: option.splits if_splits)
  qed (use f same p' in simp_all)
  moreover have "md_schema_version m = SCHEMA_VERSION \<and> pt_metadata p' \<noteq> None" if "res = Inr m" for m
    using that result f(7) by (auto simp: openGraph_def complete_def Let_def split: option.splits fault.splits)
  ultimately show ?thesis
    using inv same by (auto split: if_splits)
qed

lemma import_archive_inv:
  assumes inv: "db_inv api checksum ops deps good known p base log"
    and snap: "ca_load api Validated b = Some c"
    and result: "installImportedGraph checksum l replica SCHEMA_VERSION b now epoch serverBase fault p = (res, p')"
  shows "\<exists>base' log'. db_inv api checksum ops deps good known p' base' log' \<and> set log \<subseteq> set log'"
proof (cases "pt_metadata p = None \<and> committed fault")
  case False
  then have "p' = p"
    using result by (auto simp: installImportedGraph_def complete_def committed_def Let_def split: if_splits option.splits fault.splits)
  then show ?thesis
    using inv by blast
next
  case True
  note f = db_inv_fields [OF inv]
  let ?op = "ImportOp l replica SCHEMA_VERSION b now epoch serverBase"
  have p': "p' = storage_step checksum (?op, fault) p"
    using result by simp
  have empty: "log = []" "pt_checkpoints p = []"
    using f(1,2) True by (simp_all add: log_ok_def partition_ok_def)
  have "if committed fault then db_inv api checksum ops deps good known p' (known c) (log_step checksum ?op p log) else p' = p"
    unfolding p'
    by (rule db_inv_step [OF inv])
      (use True empty snap in \<open>auto simp: installImportedGraph_def Let_def snd_complete snapshot_ok_def checkpoint_row_def\<close>)
  then show ?thesis
    using True empty by auto
qed
subsection \<open>Recovery\<close>

lemma causal_append:
  "causal ops deps good base (pre @ suf) \<longleftrightarrow> causal ops deps good base pre \<and> causal ops deps good (covered ops base pre) suf"
  by (induction pre arbitrary: base) auto

lemma split_by_key:
  "by_key fst log \<Longrightarrow> log = filter (\<lambda>e. fst e \<le> s) log @ filter (\<lambda>e. s < fst e) log" for log :: "(int \<times> bytes) list"
proof (induction log)
  case (Cons e log)
  show ?case
  proof (cases "fst e \<le> s")
    case False
    then have "filter (\<lambda>e. fst e \<le> s) log = []" "filter (\<lambda>e. s < fst e) log = log"
      using Cons.prems by (auto simp: filter_empty_conv filter_id_conv)
    then show ?thesis
      using False by simp
  qed (use Cons in auto)
qed simp

lemma stage_all_good:
  assumes laws: "update_laws api ops deps good known sound"
  shows "sound c \<Longrightarrow> causal ops deps good base (map entry us) \<Longrightarrow> base \<subseteq> known c \<Longrightarrow>
    \<exists>c'. stage_all api us c = Some c' \<and> sound c' \<and> known c' = known c \<union> (\<Union>u \<in> set us. ops (up_payload u))"
proof (induction us arbitrary: c base)
  case (Cons u us)
  then obtain c' where c': "ca_stage api (up_payload u) c = Some c'" "sound c'" "known c' = known c \<union> ops (up_payload u)"
    using laws unfolding update_laws_def by (metis causal.simps(2) entry_sel(2) list.simps(9) subset_trans)
  have "causal ops deps good (base \<union> ops (up_payload u)) (map entry us)" "base \<union> ops (up_payload u) \<subseteq> known c'"
    using Cons.prems c'(3) by auto
  from Cons.IH [OF c'(2) this] show ?case
    using c' by auto
qed simp

lemma staged_tail:
  assumes laws: "core_laws api ops deps good known sound"
    and inv: "db_inv api checksum ops deps good known p base log" and cp: "cp \<in> set (pt_checkpoints p)"
  shows "\<exists>b core. ca_load api Unvalidated (up_payload cp) = Some b
     \<and> stage_and_finish api (updatesAfter (up_sequence cp) p) b = Some core \<and> sound core \<and> known core = covered ops base log"
proof -
  note f = db_inv_fields [OF inv]
  obtain c where c: "ca_load api Validated (up_payload cp) = Some c"
      "covered ops base (filter (\<lambda>e. fst e \<le> up_sequence cp) log) \<subseteq> known c" "known c \<subseteq> covered ops base log"
    using f(5) [OF cp] by (auto simp: snapshot_ok_def)
  then obtain b where b: "ca_load api Unvalidated (up_payload cp) = Some b" "sound b" "known b = known c"
    using laws unfolding core_laws_def snapshot_laws_def by metis
  have tail: "map entry (updatesAfter (up_sequence cp) p) = filter (\<lambda>e. up_sequence cp < fst e) log"
    by (rule checkpoint_tail [OF f(1,2) cp])
  have split: "log = filter (\<lambda>e. fst e \<le> up_sequence cp) log @ filter (\<lambda>e. up_sequence cp < fst e) log"
    using f(2) by (intro split_by_key) (simp add: log_ok_def)
  then have "causal ops deps good (covered ops base (filter (\<lambda>e. fst e \<le> up_sequence cp) log)) (map entry (updatesAfter (up_sequence cp) p))"
    using f(4) causal_append unfolding tail by metis
  then obtain c' where c': "stage_all api (updatesAfter (up_sequence cp) p) b = Some c'" "sound c'"
      "known c' = known b \<union> (\<Union>u \<in> set (updatesAfter (up_sequence cp) p). ops (up_payload u))"
    using stage_all_good [of api ops deps good known sound b] laws b c(2) unfolding core_laws_def by metis
  have "(\<Union>u \<in> set (updatesAfter (up_sequence cp) p). ops (up_payload u)) = (\<Union>e \<in> set (filter (\<lambda>e. up_sequence cp < fst e) log). ops (snd e))"
    unfolding tail [symmetric] by simp
  then have "known c' = covered ops base log"
    using c'(3) b(3) c(2,3) by (force simp: covered_def)
  moreover obtain core where "ca_finish api c' = Some core" "sound core" "known core = known c'"
    using laws c'(2) unfolding core_laws_def snapshot_laws_def by metis
  ultimately show ?thesis
    using b(1) c'(1) by (auto simp: stage_and_finish_def)
qed

lemma checkpointsDescending_rows: "set (checkpointsDescending p) = set (pt_checkpoints p)"
  by (simp add: checkpointsDescending_def)

lemma checkpointsDescending_Nil: "checkpointsDescending p = [] \<longleftrightarrow> pt_checkpoints p = []"
  by (metis checkpointsDescending_rows set_empty)

lemma supported: "supportsDocumentSchema SCHEMA_VERSION"
  by (simp add: supportsDocumentSchema_def SCHEMA_VERSION_def)

lemma valid_tail: "partition_ok checksum p \<Longrightarrow> list_all (validChecksum checksum) (updatesAfter s p)"
  by (auto simp: updatesAfter_def list_all_iff validChecksum_def partition_ok_def rows_ok_def)

text \<open>With a checkpoint the graph recovers from the newest one and writes nothing.\<close>

lemma recover_intact:
  assumes laws: "core_laws api ops deps good known sound"
    and inv: "db_inv api checksum ops deps good known p base log" and cps: "pt_checkpoints p \<noteq> []"
    and m: "md_schema_version m = SCHEMA_VERSION"
  shows "\<exists>r. recoverGraph api checksum m now (p, faults) = (Inr r, p, faults) \<and> sound (rv_core r)
     \<and> known (rv_core r) = covered ops base log \<and> rr_quarantined_records (rv_report r) = []"
proof -
  note f = db_inv_fields [OF inv]
  obtain cp rest where cp: "checkpointsDescending p = cp # rest"
    using cps checkpointsDescending_Nil [of p] by (cases "checkpointsDescending p") auto
  then have mem: "cp \<in> set (pt_checkpoints p)"
    using checkpointsDescending_rows [of p] by (metis list.set_intros(1))
  obtain b core where core: "ca_load api Unvalidated (up_payload cp) = Some b"
      "stage_and_finish api (updatesAfter (up_sequence cp) p) b = Some core" "sound core" "known core = covered ops base log"
    using staged_tail [OF laws inv mem] by blast
  have "cp_schema_version cp = SCHEMA_VERSION" "validChecksum checksum cp"
    using f(1) f(5) [OF mem] mem by (auto simp: snapshot_ok_def validChecksum_def partition_ok_def rows_ok_def)
  moreover have "sound (ca_reset api core)" "known (ca_reset api core) = known core"
    using laws core(3) unfolding core_laws_def snapshot_laws_def by metis+
  ultimately show ?thesis
    using core m valid_tail [OF f(1), of "up_sequence cp"]
    by (auto simp: recoverGraph_def recover_from_def publish_tail_def bnd_def reads_def cp recoverIntact_def supported ret_def upgradeCheckpoint_def Let_def)
qed

text \<open>A graph that has none yet gets its first checkpoint.\<close>

lemma recover_fresh:
  assumes laws: "core_laws api ops deps good known sound"
    and inv: "db_inv api checksum ops deps good known p base log" and cps: "pt_checkpoints p = []"
    and m: "pt_metadata p \<noteq> None" "md_schema_version m = SCHEMA_VERSION"
    and result: "recoverGraph api checksum m now (p, faults) = (res, p', faults')"
  shows "(\<exists>base'. db_inv api checksum ops deps good known p' base' log
        \<and> (\<forall>r. res = Inr r \<longrightarrow> pt_checkpoints p' \<noteq> [] \<and> sound (rv_core r) \<and> known (rv_core r) = covered ops base' log
             \<and> rr_quarantined_records (rv_report r) = []))
     \<and> (faults = [] \<longrightarrow> (\<exists>r. res = Inr r) \<and> faults' = [])"
proof -
  note f = db_inv_fields [OF inv]
  have log: "log = []"
    using f(6) cps by simp
  let ?core = "ca_new api now"
  let ?b = "ca_exportGc api ?core"
  have sound: "sound ?core"
    using laws by (simp add: core_laws_def snapshot_laws_def)
  then obtain c where c: "ca_load api Validated ?b = Some c" "known c = known ?core"
    using laws unfolding core_laws_def snapshot_laws_def by metis
  have inv': "db_inv api checksum ops deps good known p (known ?core) []"
    using inv cps log by (simp add: db_inv_def)
  obtain fault rest where fault: "(case faults of [] \<Rightarrow> (None, []) | f # fs \<Rightarrow> (f, fs)) = (fault, rest)"
    by (cases "case faults of [] \<Rightarrow> (None, []) | f # fs \<Rightarrow> (f, fs)")
  obtain ires q where q: "installCheckpoint checksum ?b 0 SCHEMA_VERSION now fault p = (ires, q)"
    by (cases "installCheckpoint checksum ?b 0 SCHEMA_VERSION now fault p")
  have q_inv: "db_inv api checksum ops deps good known q (known ?core) []"
      "\<And>x. ires = Inr x \<Longrightarrow> pt_checkpoints q \<noteq> []"
    using checkpoint_inv [OF inv' c(1) _ _ q] c(2) by auto
  have "set (updatesAfter 0 q) \<subseteq> set (pt_updates q)" "pt_updates q = []"
    using db_inv_fields(2) [OF q_inv(1)] by (auto simp: log_ok_def updatesAfter_def)
  then have tail: "updatesAfter 0 q = []"
    by simp
  obtain fin where fin: "ca_finish api ?core = Some fin" "sound fin" "known fin = known ?core"
    using laws sound unfolding core_laws_def snapshot_laws_def by metis
  then have reset: "sound (ca_reset api fin)" "known (ca_reset api fin) = known ?core"
    using laws unfolding core_laws_def snapshot_laws_def by metis+
  have run: "recoverGraph api checksum m now (p, faults) =
      (case ires of
         Inl e \<Rightarrow> (Inl (StorageFailure e), q, rest)
       | Inr _ \<Rightarrow> (Inr \<lparr>rv_core = ca_reset api fin, rv_appliedThrough = 0,
           rv_report = \<lparr>rr_checkpoint_sequence = 0, rr_replayed_updates = 0, rr_quarantined_records = []\<rparr>\<rparr>, q, rest))"
    using cps m fin(1) tail
    by (simp add: recoverGraph_def recover_from_def publish_tail_def bnd_def reads_def checkpointsDescending_Nil [THEN iffD2] recoverIntact_def ret_def fresh_base_def
        transact_def fault q Let_def replay_tail_def stage_and_finish_def orThrow_def upgradeCheckpoint_def last_sequence_def
        split: sum.split)
  moreover have "ires = Inr (checksum ?b)" if "faults = []"
  proof -
    have "fault = None"
      using fault that by simp
    then show ?thesis
      using q m f(1) cps by (auto simp: installCheckpoint_def complete_def Let_def partition_ok_def ranges_ok_def
          split: option.splits if_splits)
  qed
  moreover have "faults = [] \<Longrightarrow> rest = []"
    using fault by simp
  ultimately show ?thesis
    using result q_inv reset log by (auto split: sum.splits)
qed
subsection \<open>The world\<close>

type_synonym 'c waiting = "('c job \<times> db_answer option) option"

text \<open>An update that is stored and answered but has not entered the core yet.\<close>

fun ahead :: "(bytes \<Rightarrow> 'k set) \<Rightarrow> 'c waiting \<Rightarrow> 'k set" where
  "ahead ops (Some (Appending (ImportCause u), Some (AppendAnswer (Inr r)))) = ops u"
| "ahead ops _ = {}"

text \<open>A stored replacement that has not been installed yet.\<close>

fun current_core :: "'c waiting \<Rightarrow> 'c open_state \<Rightarrow> 'c" where
  "current_core (Some (Replacing candidate checkpoint epoch vector created, Some (ReplaceAnswer (Inr s)))) st = candidate"
| "current_core _ st = os_core st"

definition pending_ops :: "(bytes \<Rightarrow> 'k set) \<Rightarrow> 'c open_state \<Rightarrow> 'k set" where
  "pending_ops ops st = (case os_pending st of None \<Rightarrow> {} | Some pw \<Rightarrow> ops (pw_payload pw))"

definition core_inv ::
  "(bytes \<Rightarrow> 'k set) \<Rightarrow> (bytes \<Rightarrow> 'k set) \<Rightarrow> (bytes \<Rightarrow> bool) \<Rightarrow> ('c \<Rightarrow> 'k set) \<Rightarrow> ('c \<Rightarrow> bool) \<Rightarrow> 'k set \<Rightarrow> (int \<times> bytes) list
     \<Rightarrow> 'c waiting \<Rightarrow> 'c open_state \<Rightarrow> bool"
where
  "core_inv ops deps good known sound base log job st \<longleftrightarrow>
     sound (current_core job st)
     \<and> covered ops base log \<subseteq> known (current_core job st) \<union> ahead ops job
     \<and> known (current_core job st) \<subseteq> covered ops base log \<union> pending_ops ops st
     \<and> (\<forall>pw. os_pending st = Some pw \<longrightarrow>
          ops (pw_payload pw) \<subseteq> known (os_core st) \<and> good (pw_payload pw) \<and> deps (pw_payload pw) \<subseteq> covered ops base log)"

text \<open>What a job that waits for its transaction relies on.\<close>

fun job_inv ::
  "'c core_api \<Rightarrow> (bytes \<Rightarrow> 'k set) \<Rightarrow> (bytes \<Rightarrow> 'k set) \<Rightarrow> (bytes \<Rightarrow> bool) \<Rightarrow> ('c \<Rightarrow> 'k set) \<Rightarrow> 'k set \<Rightarrow> (int \<times> bytes) list
     \<Rightarrow> 'c waiting \<Rightarrow> 'c open_state \<Rightarrow> bool"
where
  "job_inv api ops deps good known base log None st = True"
| "job_inv api ops deps good known base log (Some (Appending (ImportCause u), a)) st =
     (os_pending st = None \<and> good u \<and> deps u \<subseteq> known (os_core st)
      \<and> (\<forall>r. a = Some (AppendAnswer (Inr r)) \<longrightarrow> (rc_sequence r, u) \<in> set log))"
| "job_inv api ops deps good known base log (Some (Appending c, a)) st =
     (\<exists>pw. os_pending st = Some pw \<and> (\<forall>r. a = Some (AppendAnswer (Inr r)) \<longrightarrow> (rc_sequence r, pw_payload pw) \<in> set log))"
| "job_inv api ops deps good known base log (Some (Installing c r checkpoint through created, None)) st =
     (os_pending st = None \<and> (\<exists>core. ca_load api Validated checkpoint = Some core \<and> known core = covered ops base log))"
| "job_inv api ops deps good known base log (Some (Replacing candidate checkpoint epoch vector created, None)) st =
     (os_pending st = None \<and> (\<exists>core. ca_load api Validated checkpoint = Some core \<and> candidate = ca_reset api core))"
| "job_inv api ops deps good known base log (Some (j, a)) st = (os_pending st = None)"

definition state_inv ::
  "'c core_api \<Rightarrow> (bytes \<Rightarrow> 'k set) \<Rightarrow> (bytes \<Rightarrow> 'k set) \<Rightarrow> (bytes \<Rightarrow> bool) \<Rightarrow> ('c \<Rightarrow> 'k set) \<Rightarrow> ('c \<Rightarrow> bool) \<Rightarrow> 'k set
     \<Rightarrow> (int \<times> bytes) list \<Rightarrow> 'c waiting \<Rightarrow> partition \<Rightarrow> 'c open_state \<Rightarrow> bool"
where
  "state_inv api ops deps good known sound base log job p st \<longleftrightarrow>
     pt_checkpoints p \<noteq> [] \<and> core_inv ops deps good known sound base log job st
     \<and> job_inv api ops deps good known base log job st"

definition world_inv ::
  "'c core_api \<Rightarrow> (bytes \<Rightarrow> js_string) \<Rightarrow> (bytes \<Rightarrow> 'k set) \<Rightarrow> (bytes \<Rightarrow> 'k set) \<Rightarrow> (bytes \<Rightarrow> bool) \<Rightarrow> ('c \<Rightarrow> 'k set)
     \<Rightarrow> ('c \<Rightarrow> bool) \<Rightarrow> 'c worker_world \<Rightarrow> bool"
where
  "world_inv api checksum ops deps good known sound w \<longleftrightarrow>
     (\<exists>base log. db_inv api checksum ops deps good known (ww_db w) base log \<and> set (ww_saved w) \<subseteq> set log
        \<and> (\<forall>st. ww_state w = Some st \<longrightarrow> state_inv api ops deps good known sound base log (ww_job w) (ww_db w) st))"

lemma world_invI:
  assumes "db_inv api checksum ops deps good known (ww_db w) base log" "set (ww_saved w) \<subseteq> set log"
    and "\<And>st. ww_state w = Some st \<Longrightarrow> state_inv api ops deps good known sound base log (ww_job w) (ww_db w) st"
  shows "world_inv api checksum ops deps good known sound w"
  using assms by (auto simp: world_inv_def)

lemma world_invE:
  assumes "world_inv api checksum ops deps good known sound w"
  obtains base log where "db_inv api checksum ops deps good known (ww_db w) base log" "set (ww_saved w) \<subseteq> set log"
    "\<And>st. ww_state w = Some st \<Longrightarrow> state_inv api ops deps good known sound base log (ww_job w) (ww_db w) st"
  using assms by (auto simp: world_inv_def)

lemma world_fields [simp]:
  "ww_db (answer out w) = ww_db w" "ww_state (answer out w) = ww_state w" "ww_job (answer out w) = None"
  "ww_saved (answer out w) = ww_saved w"
  "ww_db (await_job j w) = ww_db w" "ww_state (await_job j w) = ww_state w" "ww_job (await_job j w) = Some (j, None)"
  "ww_saved (await_job j w) = ww_saved w"
  "ww_db (set_state st w) = ww_db w" "ww_state (set_state st w) = Some st" "ww_job (set_state st w) = ww_job w"
  "ww_saved (set_state st w) = ww_saved w"
  "ww_db (record_saved r u w) = ww_db w" "ww_state (record_saved r u w) = ww_state w" "ww_job (record_saved r u w) = ww_job w"
  "ww_saved (record_saved r u w) = ww_saved w @ [(rc_sequence r, u)]"
  by (simp_all add: answer_def await_job_def set_state_def record_saved_def)

lemma push_fields [simp]:
  "os_core (push b k st) = os_core st" "os_pending (push b k st) = os_pending st" "os_remote (push b k st) = os_remote st"
  "os_frame (push b k st) = os_frame st" "os_appliedThrough (push b k st) = os_appliedThrough st"
  by (simp_all add: push_def Let_def)

text \<open>Between requests the core holds what is stored, and the save that failed.\<close>

definition idle_inv ::
  "(bytes \<Rightarrow> 'k set) \<Rightarrow> (bytes \<Rightarrow> 'k set) \<Rightarrow> (bytes \<Rightarrow> bool) \<Rightarrow> ('c \<Rightarrow> 'k set) \<Rightarrow> ('c \<Rightarrow> bool) \<Rightarrow> 'k set \<Rightarrow> (int \<times> bytes) list
     \<Rightarrow> 'c open_state \<Rightarrow> bool"
where
  "idle_inv ops deps good known sound base log st = core_inv ops deps good known sound base log None st"

lemma answered_inv:
  assumes "db_inv api checksum ops deps good known (ww_db w) base log" "set (ww_saved w) \<subseteq> set log"
    and "\<And>st. ww_state w = Some st \<Longrightarrow> pt_checkpoints (ww_db w) \<noteq> [] \<and> core_inv ops deps good known sound base log None st"
  shows "world_inv api checksum ops deps good known sound (answer out w)"
  by (rule world_invI [of _ _ _ _ _ _ _ base log]) (use assms in \<open>simp_all add: state_inv_def\<close>)

lemma awaiting_inv:
  assumes "db_inv api checksum ops deps good known (ww_db w) base log" "set (ww_saved w) \<subseteq> set log"
    and "ww_state w = Some st" "pt_checkpoints (ww_db w) \<noteq> []" "core_inv ops deps good known sound base log None st"
    and "job_inv api ops deps good known base log (Some (j, None)) st"
  shows "world_inv api checksum ops deps good known sound (await_job j w)"
proof (rule world_invI [of _ _ _ _ _ _ _ base log])
  have same: "current_core (Some (j, None)) st = os_core st" "ahead ops (Some (j, None)) = {}"
    by (cases j; simp)+
  show "state_inv api ops deps good known sound base log (ww_job (await_job j w)) (ww_db (await_job j w)) st'"
    if "ww_state (await_job j w) = Some st'" for st'
    using that assms same by (auto simp: state_inv_def core_inv_def)
qed (use assms in simp_all)

subsection \<open>Requests\<close>

text \<open>What an open graph with nothing under way satisfies.\<close>

lemma idle_state:
  assumes "world_inv api checksum ops deps good known sound w" "ww_job w = None"
  obtains base log where "db_inv api checksum ops deps good known (ww_db w) base log" "set (ww_saved w) \<subseteq> set log"
    "\<And>st. ww_state w = Some st \<Longrightarrow> pt_checkpoints (ww_db w) \<noteq> [] \<and> core_inv ops deps good known sound base log None st"
  using assms by (auto simp: world_inv_def state_inv_def)

lemma execute_inv:
  assumes laws: "core_laws api ops deps good known sound"
    and inv: "world_inv api checksum ops deps good known sound w" "ww_job w = None"
  shows "world_inv api checksum ops deps good known sound (execute api command timeout now w)"
proof -
  from idle_state [OF inv] obtain base log where i: "db_inv api checksum ops deps good known (ww_db w) base log"
      "set (ww_saved w) \<subseteq> set log"
      "\<And>st. ww_state w = Some st \<Longrightarrow> pt_checkpoints (ww_db w) \<noteq> [] \<and> core_inv ops deps good known sound base log None st"
    by blast
  note refused = answered_inv [OF i]
  show ?thesis
  proof (cases "ww_state w")
    case None
    then show ?thesis
      using refused by (simp add: execute_def)
  next
    case (Some st)
    note st = i(3) [OF Some]
    show ?thesis
    proof (cases "timeout \<or> os_pending st \<noteq> None \<or> ca_execute api command (os_core st) = None")
      case True
      then show ?thesis
        using refused Some by (auto simp: execute_def)
    next
      case False
      then obtain core semantic u where run: "ca_execute api command (os_core st) = Some (core, semantic, u)"
        by auto
      have before: "sound (os_core st)" "known (os_core st) = covered ops base log"
        using st False by (auto simp: core_inv_def pending_ops_def)
      then have after: "sound core" "known core = covered ops base log \<union> ops u" "good u" "deps u \<subseteq> covered ops base log"
        using laws run unfolding core_laws_def update_laws_def by metis+
      show ?thesis
      proof (cases "u = []")
        case True
        moreover have "ops [] = {}"
          using laws by (simp add: core_laws_def update_laws_def)
        ultimately have "core_inv ops deps good known sound base log None (st\<lparr>os_core := core\<rparr>)"
          using after False by (simp add: core_inv_def pending_ops_def)
        then show ?thesis
          using True run False Some st i by (auto simp: execute_def intro!: answered_inv)
      next
        case u: False
        have "core_inv ops deps good known sound base log None
            (st\<lparr>os_core := core, os_pending := Some \<lparr>pw_payload = u, pw_semantic = semantic, pw_createdAt = now,
              pw_base = ca_version api (os_core st)\<rparr>\<rparr>)"
          using after by (auto simp: core_inv_def pending_ops_def)
        then show ?thesis
          using u run False Some st i by (auto simp: execute_def intro!: awaiting_inv)
      qed
    qed
  qed
qed
lemma retry_inv:
  assumes inv: "world_inv api checksum ops deps good known sound w" "ww_job w = None"
  shows "world_inv api checksum ops deps good known sound (retryPending w)"
proof -
  from idle_state [OF inv] obtain base log where i: "db_inv api checksum ops deps good known (ww_db w) base log"
      "set (ww_saved w) \<subseteq> set log"
      "\<And>st. ww_state w = Some st \<Longrightarrow> pt_checkpoints (ww_db w) \<noteq> [] \<and> core_inv ops deps good known sound base log None st"
    by blast
  show ?thesis
    using i(3) by (auto simp: retryPending_def intro!: answered_inv [OF i] awaiting_inv [OF i(1,2)] split: option.split)
qed

lemma import_inv:
  assumes laws: "core_laws api ops deps good known sound"
    and inv: "world_inv api checksum ops deps good known sound w" "ww_job w = None"
  shows "world_inv api checksum ops deps good known sound (syncImport api update w)"
proof -
  from idle_state [OF inv] obtain base log where i: "db_inv api checksum ops deps good known (ww_db w) base log"
      "set (ww_saved w) \<subseteq> set log"
      "\<And>st. ww_state w = Some st \<Longrightarrow> pt_checkpoints (ww_db w) \<noteq> [] \<and> core_inv ops deps good known sound base log None st"
    by blast
  have "good update \<and> deps update \<subseteq> known (os_core st)"
    if "ww_state w = Some st" "ca_validate api update (os_core st)" for st
  proof -
    have "sound (os_core st)"
      using i(3) [OF that(1)] by (simp add: core_inv_def)
    then show ?thesis
      using laws that(2) unfolding core_laws_def update_laws_def by blast
  qed
  then show ?thesis
    using i(3) by (auto simp: syncImport_def intro!: answered_inv [OF i] awaiting_inv [OF i(1,2)] split: option.split)
qed

lemma close_inv:
  assumes inv: "world_inv api checksum ops deps good known sound w" "ww_job w = None"
  shows "world_inv api checksum ops deps good known sound (closeGraph w)"
proof -
  from idle_state [OF inv] obtain base log where i: "db_inv api checksum ops deps good known (ww_db w) base log"
      "set (ww_saved w) \<subseteq> set log"
      "\<And>st. ww_state w = Some st \<Longrightarrow> pt_checkpoints (ww_db w) \<noteq> [] \<and> core_inv ops deps good known sound base log None st"
    by blast
  show ?thesis
    using i(3) by (auto simp: closeGraph_def intro!: answered_inv [OF i] awaiting_inv [OF i(1,2)] split: option.split)
qed

lemma syncReplace_inv:
  assumes inv: "world_inv api checksum ops deps good known sound w" "ww_job w = None"
  shows "world_inv api checksum ops deps good known sound (syncReplace checkpoint epoch vector now w)"
proof -
  from idle_state [OF inv] obtain base log where i: "db_inv api checksum ops deps good known (ww_db w) base log"
      "set (ww_saved w) \<subseteq> set log"
      "\<And>st. ww_state w = Some st \<Longrightarrow> pt_checkpoints (ww_db w) \<noteq> [] \<and> core_inv ops deps good known sound base log None st"
    by blast
  show ?thesis
    using i(3) by (auto simp: syncReplace_def intro!: answered_inv [OF i] awaiting_inv [OF i(1,2)] split: option.split)
qed

lemma crash_inv:
  assumes "world_inv api checksum ops deps good known sound w"
  shows "world_inv api checksum ops deps good known sound (w\<lparr>ww_state := None, ww_job := j\<rparr>)"
  using assms by (auto simp: world_inv_def)

lemma released_inv:
  assumes "world_inv api checksum ops deps good known sound w"
  shows "world_inv api checksum ops deps good known sound (w\<lparr>ww_state := None\<rparr>)"
  using crash_inv [OF assms, of "ww_job w"] by simp

lemma delete_inv:
  assumes inv: "world_inv api checksum ops deps good known sound w" "ww_job w = None"
  shows "world_inv api checksum ops deps good known sound (deleteGraph (browser_fault e) w)"
proof -
  from idle_state [OF inv] obtain base log where i: "db_inv api checksum ops deps good known (ww_db w) base log"
      "set (ww_saved w) \<subseteq> set log"
      "\<And>st. ww_state w = Some st \<Longrightarrow> pt_checkpoints (ww_db w) \<noteq> [] \<and> core_inv ops deps good known sound base log None st"
    by blast
  have deleted: "world_inv api checksum ops deps good known sound (answer out (w\<lparr>ww_db := no_rows, ww_saved := []\<rparr>))"
    if "ww_state w = None" for out
    by (rule answered_inv [of _ _ _ _ _ _ _ base "[]"]) (use that no_rows_inv in simp_all)
  show ?thesis
    using answered_inv [OF i] deleted
    by (cases e) (auto simp: deleteGraph_def deleteLocal_def complete_def browser_fault_def)
qed

lemma installArchive_inv:
  assumes inv: "world_inv api checksum ops deps good known sound w" "ww_job w = None"
  shows "world_inv api checksum ops deps good known sound
    (installArchive api checksum l replica checkpoint expected created epoch serverBase fault w)"
proof -
  from idle_state [OF inv] obtain base log where i: "db_inv api checksum ops deps good known (ww_db w) base log"
      "set (ww_saved w) \<subseteq> set log"
      "\<And>st. ww_state w = Some st \<Longrightarrow> pt_checkpoints (ww_db w) \<noteq> [] \<and> core_inv ops deps good known sound base log None st"
    by blast
  obtain res p where run: "installImportedGraph checksum l replica SCHEMA_VERSION checkpoint created epoch serverBase fault (ww_db w) = (res, p)"
    by (cases "installImportedGraph checksum l replica SCHEMA_VERSION checkpoint created epoch serverBase fault (ww_db w)")
  have installed: "world_inv api checksum ops deps good known sound (answer out (w\<lparr>ww_db := p\<rparr>))"
    if "ca_load api Validated checkpoint \<noteq> None" for out
  proof (cases "ww_state w")
    case None
    from that obtain c where "ca_load api Validated checkpoint = Some c" by auto
    from import_archive_inv [OF i(1) this run] obtain base' log' where
      "db_inv api checksum ops deps good known p base' log'" "set log \<subseteq> set log'"
      by blast
    then show ?thesis
      using i(2) None by (auto intro!: answered_inv [of _ _ _ _ _ _ _ base' log'])
  next
    case (Some st)
    then have "pt_metadata (ww_db w) \<noteq> None"
      using i(3) db_inv_fields(1) [OF i(1)] by (auto simp: partition_ok_def split: option.splits)
    then have "p = ww_db w"
      using run by (auto simp: installImportedGraph_def)
    then show ?thesis
      using answered_inv [OF i] by simp
  qed
  show ?thesis
    using answered_inv [OF i] installed
    by (auto simp: installArchive_def run split: sum.split)
qed

lemma opened_core_inv:
  "sound (rv_core r) \<Longrightarrow> known (rv_core r) = covered ops base log \<Longrightarrow> core_inv ops deps good known sound base log None (opened r)"
  by (simp add: core_inv_def opened_def pending_ops_def)

text \<open>Opening in any state of the store: what it does, and that without faults it succeeds.\<close>

lemma openGraphRun_inv:
  assumes laws: "core_laws api ops deps good known sound"
    and inv: "db_inv api checksum ops deps good known p base log"
    and result: "openGraphRun api checksum CORE_PORT_VERSION l now peer (p, faults) = (res, p', faults')"
  shows "(\<exists>base'. db_inv api checksum ops deps good known p' base' log
        \<and> (\<forall>r. res = Inr r \<longrightarrow> pt_checkpoints p' \<noteq> [] \<and> sound (rv_core r) \<and> known (rv_core r) = covered ops base' log
             \<and> rr_quarantined_records (rv_report r) = []))
     \<and> (faults = [] \<longrightarrow> (\<exists>r. res = Inr r))"
proof -
  obtain fault rest where fault: "(case faults of [] \<Rightarrow> (None, []) | f # fs \<Rightarrow> (f, fs)) = (fault, rest)"
    by (cases "case faults of [] \<Rightarrow> (None, []) | f # fs \<Rightarrow> (f, fs)")
  obtain mres q where q: "openGraph l now peer fault p = (mres, q)"
    by (cases "openGraph l now peer fault p")
  note opened = open_metadata_inv [OF inv q]
  show ?thesis
  proof (cases mres)
    case (Inl e)
    then have "res = Inl (StorageFailure e)" "p' = q"
      using result by (simp_all add: openGraphRun_def bnd_def transact_def fault q)
    moreover have "faults \<noteq> []"
      using fault q Inl by (auto simp: openGraph_def complete_def Let_def split: option.splits)
    ultimately show ?thesis
      using opened by auto
  next
    case (Inr m)
    then have m: "md_schema_version m = SCHEMA_VERSION" "pt_metadata q \<noteq> None"
      using opened by simp_all
    obtain rres q' rest' where rec: "recoverGraph api checksum m now (q, rest) = (rres, q', rest')"
      by (cases "recoverGraph api checksum m now (q, rest)")
    have "(\<exists>base'. db_inv api checksum ops deps good known q' base' log
        \<and> (\<forall>r. rres = Inr r \<longrightarrow> pt_checkpoints q' \<noteq> [] \<and> sound (rv_core r) \<and> known (rv_core r) = covered ops base' log
             \<and> rr_quarantined_records (rv_report r) = []))
        \<and> (rest = [] \<longrightarrow> (\<exists>r. rres = Inr r) \<and> rest' = [])"
    proof (cases "pt_checkpoints q = []")
      case True
      then show ?thesis
        using recover_fresh [OF laws _ True m(2,1) rec] opened by blast
    next
      case False
      obtain r where "recoverGraph api checksum m now (q, rest) = (Inr r, q, rest)" "sound (rv_core r)"
        "known (rv_core r) = covered ops base log" "rr_quarantined_records (rv_report r) = []"
        using recover_intact [OF laws _ False m(1)] opened by blast
      then show ?thesis
        using rec opened False by auto
    qed
    then obtain base' where rinv: "db_inv api checksum ops deps good known q' base' log"
        "\<And>r. rres = Inr r \<Longrightarrow> pt_checkpoints q' \<noteq> [] \<and> sound (rv_core r) \<and> known (rv_core r) = covered ops base' log
             \<and> rr_quarantined_records (rv_report r) = []"
        "rest = [] \<Longrightarrow> (\<exists>r. rres = Inr r) \<and> rest' = []"
      by blast
    have "normalizeOutbox checksum f q' = (Inr (), q')" for f
      using outbox_inspected [of checksum q' None] db_inv_fields(1,3) [OF rinv(1)] by (auto simp: normalizeOutbox_def)
    moreover obtain fault2 rest2 where "(case rest' of [] \<Rightarrow> (None, []) | f # fs \<Rightarrow> (f, fs)) = (fault2, rest2)"
      by (cases "case rest' of [] \<Rightarrow> (None, []) | f # fs \<Rightarrow> (f, fs)")
    ultimately have "res = rres" "p' = q'"
      using result Inr m by (auto simp: openGraphRun_def bnd_def transact_def fault q rec supported ret_def Let_def split: sum.splits)
    moreover have "rest = []" if "faults = []"
      using fault that by simp
    ultimately show ?thesis
      using rinv by blast
  qed
qed

lemma open_inv:
  assumes laws: "core_laws api ops deps good known sound"
    and inv: "world_inv api checksum ops deps good known sound w" "ww_job w = None"
  shows "world_inv api checksum ops deps good known sound (open_graph api checksum contract l now peer faults w)"
proof -
  from idle_state [OF inv] obtain base log where i: "db_inv api checksum ops deps good known (ww_db w) base log"
      "set (ww_saved w) \<subseteq> set log"
      "\<And>st. ww_state w = Some st \<Longrightarrow> pt_checkpoints (ww_db w) \<noteq> [] \<and> core_inv ops deps good known sound base log None st"
    by blast
  obtain res p faults' where run: "openGraphRun api checksum CORE_PORT_VERSION l now peer (ww_db w, faults) = (res, p, faults')"
    by (cases "openGraphRun api checksum CORE_PORT_VERSION l now peer (ww_db w, faults)")
  from openGraphRun_inv [OF laws i(1) run] obtain base' where op: "db_inv api checksum ops deps good known p base' log"
      "\<And>r. res = Inr r \<Longrightarrow> pt_checkpoints p \<noteq> [] \<and> sound (rv_core r) \<and> known (rv_core r) = covered ops base' log"
    by blast
  have "world_inv api checksum ops deps good known sound (answer out (w\<lparr>ww_db := p\<rparr>))" if "ww_state w = None" for out
    by (rule answered_inv [of _ _ _ _ _ _ _ base' log]) (use that op i in simp_all)
  moreover have "world_inv api checksum ops deps good known sound (answer out (w\<lparr>ww_db := p, ww_state := Some (opened r)\<rparr>))"
    if "res = Inr r" for out r
    by (rule answered_inv [of _ _ _ _ _ _ _ base' log]) (use op(1) op(2) [OF that] i in \<open>auto simp: opened_core_inv\<close>)
  ultimately show ?thesis
    using answered_inv [OF i] by (auto simp: open_graph_def run split: sum.split)
qed
subsection \<open>Transactions and continuations\<close>

lemma plain_answer:
  assumes "\<And>u r. (j, a) \<noteq> (Appending (ImportCause u), AppendAnswer (Inr r))"
    "\<And>x b e v t s. (j, a) \<noteq> (Replacing x b e v t, ReplaceAnswer (Inr s))"
  shows "ahead ops (Some (j, Some a)) = {}" "current_core (Some (j, Some a)) st = os_core st"
proof -
  show "ahead ops (Some (j, Some a)) = {}"
    by (cases "(ops, Some (j, Some a))" rule: ahead.cases) (use assms(1) in fastforce)+
  show "current_core (Some (j, Some a)) st = os_core st"
    by (cases "(Some (j, Some a), st)" rule: current_core.cases) (use assms(2) in fastforce)+
qed

lemma waiting_plain: "ahead ops (Some (j, None)) = {}" "current_core (Some (j, None)) st = os_core st"
  by (cases j; simp)+

lemma append_commit:
  assumes inj: "inj checksum"
    and i: "db_inv api checksum ops deps good known (ww_db w) base log" "set (ww_saved w) \<subseteq> set log"
    and st: "ww_state w = Some st" "state_inv api ops deps good known sound base log (Some (Appending c, None)) (ww_db w) st"
    and request: "append_request c now st = (u, created, b)"
    and run: "appendUpdate checksum u created b (browser_fault e) (ww_db w) = (res, p)"
  shows "world_inv api checksum ops deps good known sound (w\<lparr>ww_db := p, ww_job := Some (Appending c, Some (AppendAnswer res))\<rparr>)"
proof -
  have core: "sound (os_core st)" "covered ops base log \<subseteq> known (os_core st)"
      "known (os_core st) \<subseteq> covered ops base log \<union> pending_ops ops st"
      "\<And>pw. os_pending st = Some pw \<Longrightarrow>
        ops (pw_payload pw) \<subseteq> known (os_core st) \<and> good (pw_payload pw) \<and> deps (pw_payload pw) \<subseteq> covered ops base log"
    and job: "job_inv api ops deps good known base log (Some (Appending c, None)) st" and cps: "pt_checkpoints (ww_db w) \<noteq> []"
    using st(2) by (simp_all add: state_inv_def core_inv_def waiting_plain)
  have u: "good u" "deps u \<subseteq> covered ops base log"
      "(\<exists>v. c = ImportCause v \<and> v = u \<and> os_pending st = None) \<or> (\<exists>pw. os_pending st = Some pw \<and> pw_payload pw = u \<and> (\<forall>v. c \<noteq> ImportCause v))"
    using request job core(3,4) by (cases c; auto simp: append_request_def pending_ops_def)+
  note appended = append_inv [OF i(1) inj u(1,2) cps run]
  show ?thesis
  proof (cases res)
    case (Inl err)
    then have "p = ww_db w" "ahead ops (Some (Appending c, Some (AppendAnswer res))) = {}"
      using appended by (simp_all add: Inl plain_answer)
    then show ?thesis
      using i st(1) core cps job Inl
      by (intro world_invI [of _ _ _ _ _ _ _ base log]) (cases c; auto simp: state_inv_def core_inv_def)+
  next
    case (Inr r)
    then obtain log' where log': "db_inv api checksum ops deps good known p base log'" "set log \<subseteq> set log'"
        "(rc_sequence r, u) \<in> set log'" "covered ops base log' = covered ops base log \<union> ops u"
      using appended by blast
    have "state_inv api ops deps good known sound base log' (Some (Appending c, Some (AppendAnswer (Inr r)))) p st"
      using u(3)
    proof
      assume "\<exists>v. c = ImportCause v \<and> v = u \<and> os_pending st = None"
      then show ?thesis
        using core log' job appended by (auto simp: state_inv_def core_inv_def pending_ops_def)
    next
      assume "\<exists>pw. os_pending st = Some pw \<and> pw_payload pw = u \<and> (\<forall>v. c \<noteq> ImportCause v)"
      then show ?thesis
        using core log' appended by (cases c) (auto simp: state_inv_def core_inv_def pending_ops_def)
    qed
    then show ?thesis
      using log' i(2) st(1) Inr by (intro world_invI [of _ _ _ _ _ _ _ base log']) auto
  qed
qed

text \<open>A job that changes nothing in the core or the log when it commits.\<close>

lemma plain_commit:
  assumes "db_inv api checksum ops deps good known p base log" "set (ww_saved w) \<subseteq> set log" "pt_checkpoints p \<noteq> []"
    and "ww_state w = Some st" "core_inv ops deps good known sound base log None st"
    and "job_inv api ops deps good known base log (Some (j, Some a)) st"
    and "\<And>u r. (j, a) \<noteq> (Appending (ImportCause u), AppendAnswer (Inr r))"
      "\<And>x b e v t s. (j, a) \<noteq> (Replacing x b e v t, ReplaceAnswer (Inr s))"
  shows "world_inv api checksum ops deps good known sound (w\<lparr>ww_db := p, ww_job := Some (j, Some a)\<rparr>)"
  by (rule world_invI [of _ _ _ _ _ _ _ base log])
    (use assms plain_answer(1) [OF assms(7,8), where ops = ops] plain_answer(2) [OF assms(7,8), where st = st] in \<open>simp_all add: state_inv_def core_inv_def\<close>)

lemma replace_commit:
  assumes laws: "core_laws api ops deps good known sound"
    and i: "db_inv api checksum ops deps good known (ww_db w) base log" "set (ww_saved w) \<subseteq> set log"
    and st: "ww_state w = Some st"
      "state_inv api ops deps good known sound base log (Some (Replacing candidate b epoch vv t, None)) (ww_db w) st"
    and run: "replaceHistory checksum b epoch vv [] SCHEMA_VERSION t (browser_fault e) (ww_db w) = (res, p)"
  shows "world_inv api checksum ops deps good known sound
    (w\<lparr>ww_db := p, ww_job := Some (Replacing candidate b epoch vv t, Some (ReplaceAnswer res)),
       ww_saved := (if isl res then ww_saved w else [])\<rparr>)"
proof -
  have s: "core_inv ops deps good known sound base log None st" "pt_checkpoints (ww_db w) \<noteq> []" "os_pending st = None"
    using st(2) by (simp_all add: state_inv_def core_inv_def)
  from st(2) obtain c where c: "ca_load api Validated b = Some c" "candidate = ca_reset api c"
    by (auto simp: state_inv_def)
  note replaced = replace_inv [OF i(1) c(1) s(2) run]
  show ?thesis
  proof (cases res)
    case (Inl err)
    then show ?thesis
      using replaced i s st(1)
      by (auto simp: state_inv_def core_inv_def intro!: world_invI [of _ _ _ _ _ _ _ base log])
  next
    case (Inr n)
    have "sound c"
      using laws c(1) unfolding core_laws_def snapshot_laws_def by blast
    then have "sound candidate" "known candidate = known c"
      using laws c(2) unfolding core_laws_def snapshot_laws_def by metis+
    then show ?thesis
      using replaced s(3) st(1) Inr
      by (auto simp: state_inv_def core_inv_def pending_ops_def intro!: world_invI [of _ _ _ _ _ _ _ "known c" "[]"])
  qed
qed

lemma commit_inv:
  assumes laws: "core_laws api ops deps good known sound" and inj: "inj checksum"
    and inv: "world_inv api checksum ops deps good known sound w"
  shows "world_inv api checksum ops deps good known sound (commit_job checksum now (browser_fault e) w)"
proof (cases "\<exists>j st. ww_job w = Some (j, None) \<and> ww_state w = Some st")
  case False
  then have "commit_job checksum now (browser_fault e) w = w"
    by (auto simp: commit_job_def split: option.splits prod.splits)
  then show ?thesis
    using inv by simp
next
  case True
  then obtain j st where job: "ww_job w = Some (j, None)" and st: "ww_state w = Some st"
    by blast
  from inv obtain base log where i: "db_inv api checksum ops deps good known (ww_db w) base log" "set (ww_saved w) \<subseteq> set log"
      and s: "state_inv api ops deps good known sound base log (Some (j, None)) (ww_db w) st"
    using st job by (fastforce simp: world_inv_def)
  have idle: "core_inv ops deps good known sound base log None st" "pt_checkpoints (ww_db w) \<noteq> []"
    using s by (simp_all add: state_inv_def core_inv_def waiting_plain)
  note plain = plain_commit [OF _ i(2) _ st idle(1)]
  show ?thesis
  proof (cases j)
    case (Appending c)
    obtain u created b where request: "append_request c now st = (u, created, b)"
      by (cases "append_request c now st")
    obtain res p where run: "appendUpdate checksum u created b (browser_fault e) (ww_db w) = (res, p)"
      by (cases "appendUpdate checksum u created b (browser_fault e) (ww_db w)")
    show ?thesis
      using append_commit [OF inj i st _ request run] s job st Appending
      by (simp add: commit_job_def request run)
  next
    case (Installing c r b through created)
    obtain res p where run: "installCheckpoint checksum b through SCHEMA_VERSION created (browser_fault e) (ww_db w) = (res, p)"
      by (cases "installCheckpoint checksum b through SCHEMA_VERSION created (browser_fault e) (ww_db w)")
    from s obtain core where core: "ca_load api Validated b = Some core" "known core = covered ops base log" "os_pending st = None"
      unfolding Installing by (auto simp: state_inv_def)
    show ?thesis
      using plain [where p = p and j = "Installing c r b through created" and a = "InstallAnswer res"] checkpoint_inv [OF i(1) core(1) _ _ run] core(2,3) idle(2)
        job st Installing
      by (simp add: commit_job_def run)
  next
    case (Replacing candidate b epoch vv t)
    obtain res p where run: "replaceHistory checksum b epoch vv [] SCHEMA_VERSION t (browser_fault e) (ww_db w) = (res, p)"
      by (cases "replaceHistory checksum b epoch vv [] SCHEMA_VERSION t (browser_fault e) (ww_db w)")
    show ?thesis
      using replace_commit [OF laws i st _ run] s job st Replacing
      by (cases res) (simp_all add: commit_job_def run)
  qed (use plain [where p = "ww_db w"] i(1) idle(2) job st s in \<open>simp_all add: commit_job_def state_inv_def\<close>)
qed

lemma maintained_inv:
  assumes "db_inv api checksum ops deps good known (ww_db w) base log" "set (ww_saved w) \<subseteq> set log"
    and "\<And>st. ww_state w = Some st \<Longrightarrow> pt_checkpoints (ww_db w) \<noteq> [] \<and> core_inv ops deps good known sound base log None st"
  shows "world_inv api checksum ops deps good known sound (maintained c r failed w)"
proof -
  have "world_inv api checksum ops deps good known sound (answer out (w\<lparr>ww_state := None\<rparr>))" for out
    by (rule answered_inv [of _ _ _ _ _ _ _ base log]) (use assms in simp_all)
  then show ?thesis
    using answered_inv [OF assms] by (simp add: maintained_def split: cause.split option.split)
qed

text \<open>The state of a job whose answer does not touch the core.\<close>

lemma delivered_state:
  assumes inv: "world_inv api checksum ops deps good known sound w" and job: "ww_job w = Some (j, Some a)"
    and plain: "\<And>u r. (j, a) \<noteq> (Appending (ImportCause u), AppendAnswer (Inr r))"
      "\<And>x b e v t s. (j, a) \<noteq> (Replacing x b e v t, ReplaceAnswer (Inr s))"
  obtains base log where "db_inv api checksum ops deps good known (ww_db w) base log" "set (ww_saved w) \<subseteq> set log"
    "\<And>st. ww_state w = Some st \<Longrightarrow> pt_checkpoints (ww_db w) \<noteq> [] \<and> core_inv ops deps good known sound base log None st"
    "\<And>st. ww_state w = Some st \<Longrightarrow> job_inv api ops deps good known base log (Some (j, Some a)) st"
proof -
  from inv obtain base log where "db_inv api checksum ops deps good known (ww_db w) base log" "set (ww_saved w) \<subseteq> set log"
    "\<And>st. ww_state w = Some st \<Longrightarrow> state_inv api ops deps good known sound base log (ww_job w) (ww_db w) st"
    by (rule world_invE) blast
  then show ?thesis
    using that [of base log] job plain_answer(1) [OF plain, where ops = ops] plain_answer(2) [OF plain]
    by (simp add: state_inv_def core_inv_def)
qed

lemma saving_inv:
  assumes "db_inv api checksum ops deps good known (ww_db w) base log" "set (ww_saved w) \<subseteq> set log"
    and "(rc_sequence r, u) \<in> set log" "pt_checkpoints (ww_db w) \<noteq> []"
    and "core_inv ops deps good known sound base log None st" "os_pending st = None"
  shows "world_inv api checksum ops deps good known sound (await_job (ReadingMetadata c r) (record_saved r u (set_state st w)))"
  by (rule awaiting_inv [where base = base and log = log and st = st]) (use assms in simp_all)

lemma append_delivered:
  assumes laws: "core_laws api ops deps good known sound"
    and inv: "world_inv api checksum ops deps good known sound w"
    and job: "ww_job w = Some (Appending c, Some (AppendAnswer result))" and st: "ww_state w = Some st"
  shows "world_inv api checksum ops deps good known sound (append_answered api c result st w)"
proof (cases "\<exists>u r. c = ImportCause u \<and> result = Inr r")
  case True
  then obtain u r where c: "c = ImportCause u" "result = Inr r"
    by blast
  from inv obtain base log where i: "db_inv api checksum ops deps good known (ww_db w) base log" "set (ww_saved w) \<subseteq> set log"
      and s: "state_inv api ops deps good known sound base log (Some (Appending (ImportCause u), Some (AppendAnswer (Inr r)))) (ww_db w) st"
    using st job c by (fastforce simp: world_inv_def)
  have none: "os_pending st = None"
    using s by (simp add: state_inv_def)
  have before: "sound (os_core st)" "covered ops base log \<subseteq> known (os_core st) \<union> ops u" "known (os_core st) \<subseteq> covered ops base log"
      "good u" "deps u \<subseteq> known (os_core st)" "(rc_sequence r, u) \<in> set log" "os_pending st = None" "pt_checkpoints (ww_db w) \<noteq> []"
    using s none by (simp_all add: state_inv_def core_inv_def pending_ops_def)
  obtain core where core: "ca_import api u (os_core st) = Some core" "sound core" "known core = known (os_core st) \<union> ops u"
    using laws before(1,4,5) unfolding core_laws_def update_laws_def by metis
  have "ops u \<subseteq> covered ops base log"
    using before(6) by (force simp: covered_def)
  then have inv': "core_inv ops deps good known sound base log None
      (st'\<lparr>os_core := core, os_appliedThrough := x\<rparr>)" if "os_pending st' = None" for st' x
    using that before core by (auto simp: core_inv_def pending_ops_def)
  show ?thesis
    unfolding c append_answered_def imported_def
    using core(1) before i by (auto simp: Let_def inv' intro!: saving_inv [where base = base and log = log])
next
  case False
  have np: "(Appending c, AppendAnswer result) \<noteq> (Appending (ImportCause u), AppendAnswer (Inr r))"
      "(Appending c, AppendAnswer result) \<noteq> (Replacing x b e v t, ReplaceAnswer (Inr s))" for u r x b e v t s
    using False by auto
  from delivered_state [OF inv job np] obtain base log where i: "db_inv api checksum ops deps good known (ww_db w) base log"
      "set (ww_saved w) \<subseteq> set log"
      "\<And>st. ww_state w = Some st \<Longrightarrow> pt_checkpoints (ww_db w) \<noteq> [] \<and> core_inv ops deps good known sound base log None st"
      "\<And>st. ww_state w = Some st \<Longrightarrow> job_inv api ops deps good known base log (Some (Appending c, Some (AppendAnswer result))) st"
    by blast
  note refused = answered_inv [OF i(1,2,3)]
  show ?thesis
  proof (cases result)
    case (Inl e)
    then show ?thesis
      using refused by (cases c) (simp_all add: append_answered_def)
  next
    case (Inr r)
    with False i(4) [OF st] obtain pw where pw: "os_pending st = Some pw" "(rc_sequence r, pw_payload pw) \<in> set log"
      by (cases c) auto
    have core: "core_inv ops deps good known sound base log None st" "pt_checkpoints (ww_db w) \<noteq> []"
      using i(3) [OF st] by simp_all
    have "ops (pw_payload pw) \<subseteq> covered ops base log"
      using pw(2) by (force simp: covered_def)
    then have "core_inv ops deps good known sound base log None (st'\<lparr>os_pending := None, os_appliedThrough := x\<rparr>)"
      if "os_core st' = os_core st" for st' x
      using that core(1) pw(1) by (auto simp: core_inv_def pending_ops_def)
    then have "world_inv api checksum ops deps good known sound (persisted c r st pw w)"
      unfolding persisted_def Let_def by (rule saving_inv [OF i(1,2) pw(2) core(2)]) simp_all
    then show ?thesis
      using False Inr pw(1) by (cases c) (simp_all add: append_answered_def)
  qed
qed

lemma compact_inv:
  assumes laws: "core_laws api ops deps good known sound"
    and i: "db_inv api checksum ops deps good known (ww_db w) base log" "set (ww_saved w) \<subseteq> set log"
    and st: "ww_state w = Some st" "pt_checkpoints (ww_db w) \<noteq> []" "core_inv ops deps good known sound base log None st"
      "os_pending st = None"
  shows "world_inv api checksum ops deps good known sound (compact_now api c r through updates now st w)"
proof -
  have core: "sound (os_core st)" "known (os_core st) = covered ops base log"
    using st(3,4) by (auto simp: core_inv_def pending_ops_def)
  have maintained: "world_inv api checksum ops deps good known sound (maintained c r failed w)" for failed
    by (rule maintained_inv [OF i]) (use st in simp)
  define b where "b = (if os_remote st then ca_export api (os_core st) else ca_exportGc api (os_core st))"
  have "\<exists>copy. ca_load api Validated (ca_export api (os_core st)) = Some copy \<and> known copy = known (os_core st)"
      "\<exists>copy. ca_load api Validated (ca_exportGc api (os_core st)) = Some copy \<and> known copy = known (os_core st)"
    using laws core(1) unfolding core_laws_def snapshot_laws_def by blast+
  then have "\<exists>copy. ca_load api Validated b = Some copy \<and> known copy = covered ops base log"
    unfolding b_def core(2) by simp
  then have "job_inv api ops deps good known base log (Some (Installing c r b x t, None)) st" for x t
    using st(4) by simp
  then have "world_inv api checksum ops deps good known sound (await_job (Installing c r b x t) w)" for x t
    by (rule awaiting_inv [OF i st(1-3)])
  then show ?thesis
    using maintained unfolding compact_now_def b_def [symmetric] Let_def by (simp split: option.split)
qed

lemma other_delivered:
  assumes laws: "core_laws api ops deps good known sound"
    and inv: "world_inv api checksum ops deps good known sound w"
    and job: "ww_job w = Some (j, Some a)" and st: "ww_state w = Some st"
    and plain: "\<And>c. j \<noteq> Appending c" "\<And>x b e v t s. (j, a) \<noteq> (Replacing x b e v t, ReplaceAnswer (Inr s))"
  shows "world_inv api checksum ops deps good known sound (job_continues api now j a st w)"
proof -
  have np: "(j, a) \<noteq> (Appending (ImportCause u), AppendAnswer (Inr r))" for u r
    using plain(1) by simp
  from delivered_state [OF inv job np plain(2)] obtain base log where
      i: "db_inv api checksum ops deps good known (ww_db w) base log" "set (ww_saved w) \<subseteq> set log"
      and s: "\<And>st. ww_state w = Some st \<Longrightarrow> pt_checkpoints (ww_db w) \<noteq> [] \<and> core_inv ops deps good known sound base log None st"
      and js: "\<And>st. ww_state w = Some st \<Longrightarrow> job_inv api ops deps good known base log (Some (j, Some a)) st"
    by blast
  have core: "pt_checkpoints (ww_db w) \<noteq> []" "core_inv ops deps good known sound base log None st"
    using s [OF st] by simp_all
  have idle: "os_pending st = None"
    using js [OF st] plain(1) by (cases j) auto
  note refused = answered_inv [OF i s] and over = maintained_inv [OF i s]
  have waiting: "world_inv api checksum ops deps good known sound (await_job j' w)"
    if "job_inv api ops deps good known base log (Some (j', None)) st" for j'
    by (rule awaiting_inv [OF i st core that])
  have compact: "world_inv api checksum ops deps good known sound (compact_now api c r through updates now st w)"
    for c r through updates
    by (rule compact_inv [OF laws i st core idle])
  show ?thesis
  proof (cases j)
    case (Appending c)
    then show ?thesis
      using plain(1) by simp
  next
    case (ReadingMetadata c r)
    then show ?thesis
      using inv over waiting idle by (simp add: job_continues_def split: db_answer.split sum.split)
  next
    case (ReadingTail c r through)
    then show ?thesis
      using inv compact over by (simp add: job_continues_def tail_read_def split: db_answer.split sum.split)
  next
    case (Installing c r b through created)
    then show ?thesis
      using inv over by (simp add: job_continues_def split: db_answer.split sum.split)
  next
    case (ReadingSync b e v t)
    then show ?thesis
      using inv refused waiting idle by (simp add: job_continues_def sync_read_def split: db_answer.split sum.split)
  next
    case (CountingPending b e v t)
    then show ?thesis
      using inv refused waiting idle
      by (simp add: job_continues_def pending_counted_def split: db_answer.split sum.split option.split)
  next
    case (Replacing x b e v t)
    then show ?thesis
      using inv refused plain(2) by (simp add: job_continues_def replace_answered_def split: db_answer.split sum.split)
  qed
qed

lemma replace_delivered:
  assumes inv: "world_inv api checksum ops deps good known sound w"
    and job: "ww_job w = Some (Replacing x b e v t, Some (ReplaceAnswer (Inr s)))" and st: "ww_state w = Some st"
  shows "world_inv api checksum ops deps good known sound (replaced x s st w)"
proof -
  from inv obtain base log where i: "db_inv api checksum ops deps good known (ww_db w) base log" "set (ww_saved w) \<subseteq> set log"
      and state: "state_inv api ops deps good known sound base log (Some (Replacing x b e v t, Some (ReplaceAnswer (Inr s)))) (ww_db w) st"
    using st job by (fastforce simp: world_inv_def)
  then have "os_pending st = None" "sound x" "covered ops base log \<subseteq> known x" "known x \<subseteq> covered ops base log \<union> pending_ops ops st"
      "pt_checkpoints (ww_db w) \<noteq> []"
    by (simp_all add: state_inv_def core_inv_def)
  then show ?thesis
    using i unfolding replaced_def by (intro answered_inv [of _ _ _ _ _ _ _ base log]) (auto simp: core_inv_def pending_ops_def)
qed

lemma deliver_inv:
  assumes laws: "core_laws api ops deps good known sound"
    and inv: "world_inv api checksum ops deps good known sound w"
  shows "world_inv api checksum ops deps good known sound (deliver_job api now w)"
proof (cases "\<exists>j a st. ww_job w = Some (j, Some a) \<and> ww_state w = Some st")
  case False
  then have "deliver_job api now w = w"
    by (auto simp: deliver_job_def split: option.splits prod.splits)
  then show ?thesis
    using inv by simp
next
  case True
  then obtain j a st where job: "ww_job w = Some (j, Some a)" and st: "ww_state w = Some st"
    by blast
  consider (append) c result where "j = Appending c" "a = AppendAnswer result"
    | (strange) c where "j = Appending c" "\<And>result. a \<noteq> AppendAnswer result"
    | (replace) x b e v t s where "j = Replacing x b e v t" "a = ReplaceAnswer (Inr s)"
    | (other) "\<And>c. j \<noteq> Appending c" "\<And>x b e v t s. (j, a) \<noteq> (Replacing x b e v t, ReplaceAnswer (Inr s))"
    by blast
  then have "world_inv api checksum ops deps good known sound (job_continues api now j a st w)"
  proof cases
    case append
    then show ?thesis
      using append_delivered [OF laws inv _ st] job by (simp add: job_continues_def)
  next
    case strange
    then show ?thesis
      using inv by (simp add: job_continues_def split: db_answer.split)
  next
    case replace
    then show ?thesis
      using replace_delivered [OF inv _ st] job by (simp add: job_continues_def replace_answered_def)
  next
    case other
    then show ?thesis
      using other_delivered [OF laws inv job st] by blast
  qed
  then show ?thesis
    by (simp add: deliver_job_def job st)
qed

subsection \<open>Beside the lane\<close>

text \<open>Frames and flags of the open state are no part of what the invariant says.\<close>

definition same_core :: "'c open_state \<Rightarrow> 'c open_state \<Rightarrow> bool" where
  "same_core st st' \<longleftrightarrow> os_core st' = os_core st \<and> os_pending st' = os_pending st"

lemma state_inv_same:
  assumes "state_inv api ops deps good known sound base log job p st" "same_core st st'"
    and "pt_checkpoints p' = pt_checkpoints p"
  shows "state_inv api ops deps good known sound base log job p' st'"
proof -
  have "current_core job st = os_core st \<and> current_core job st' = os_core st' \<or> current_core job st = current_core job st'"
    by (cases "(job, st)" rule: current_core.cases) simp_all
  moreover have "job_inv api ops deps good known base log job st' = job_inv api ops deps good known base log job st"
    using assms(2) by (cases "(api, ops, deps, good, known, base, log, job, st)" rule: job_inv.cases) (auto simp: same_core_def)
  ultimately show ?thesis
    using assms by (auto simp: state_inv_def core_inv_def same_core_def pending_ops_def)
qed

lemma side_inv:
  assumes inv: "world_inv api checksum ops deps good known sound w" and st: "ww_state w = Some st" "same_core st st'"
    and db: "\<And>base log. db_inv api checksum ops deps good known (ww_db w) base log \<Longrightarrow>
        db_inv api checksum ops deps good known p base log \<and> pt_checkpoints p = pt_checkpoints (ww_db w)"
  shows "world_inv api checksum ops deps good known sound (set_state st' (w\<lparr>ww_db := p\<rparr>))"
proof -
  from inv obtain base log where i: "db_inv api checksum ops deps good known (ww_db w) base log" "set (ww_saved w) \<subseteq> set log"
      "state_inv api ops deps good known sound base log (ww_job w) (ww_db w) st"
    using st(1) by (auto simp: world_inv_def)
  show ?thesis
    by (rule world_invI [of _ _ _ _ _ _ _ base log]) (use i db [OF i(1)] state_inv_same [OF i(3) st(2)] in simp_all)
qed

lemma set_state_same: "ww_state w = Some st \<Longrightarrow> set_state st (w\<lparr>ww_db := p\<rparr>) = w\<lparr>ww_db := p\<rparr>"
  by (simp add: set_state_def)

lemma frame_inv:
  assumes "world_inv api checksum ops deps good known sound w"
  shows "world_inv api checksum ops deps good known sound (worker_frame api checksum w)"
proof -
  have "same_core st (snd (syncNextFrame api checksum m pending st))" for m pending st
    by (simp add: syncNextFrame_def same_core_def Let_def split: list.split)
  then have "world_inv api checksum ops deps good known sound
      (set_state (snd (syncNextFrame api checksum m pending st)) (w\<lparr>ww_db := ww_db w\<rparr>))" if "ww_state w = Some st" for m pending st
    using side_inv [OF assms that] by blast
  then show ?thesis
    using assms by (simp add: worker_frame_def split: option.split sum.split)
qed

lemma ack_inv:
  assumes inv: "world_inv api checksum ops deps good known sound w"
  shows "world_inv api checksum ops deps good known sound (syncAck ident fault w)"
proof (cases "ww_state w")
  case None
  then show ?thesis
    using inv by (simp add: syncAck_def)
next
  case (Some st)
  obtain res p where run: "acknowledge (ack_covers ident st) fault (ww_db w) = (res, p)"
    by (cases "acknowledge (ack_covers ident st) fault (ww_db w)")
  have "world_inv api checksum ops deps good known sound (set_state st' (w\<lparr>ww_db := p\<rparr>))" if "same_core st st'" for st'
    using side_inv [OF inv Some that] acknowledge_inv [OF _ run] by blast
  moreover from this [of st] have "world_inv api checksum ops deps good known sound (w\<lparr>ww_db := p\<rparr>)"
    using set_state_same [OF Some, of p] by (simp add: same_core_def)
  ultimately show ?thesis
    by (auto simp: syncAck_def Some run same_core_def split: sum.split option.split)
qed

lemma configure_inv:
  assumes "world_inv api checksum ops deps good known sound w" "ww_state w = Some st"
  shows "world_inv api checksum ops deps good known sound (set_state (st\<lparr>os_remote := True\<rparr>) w)"
  using side_inv [OF assms, of "st\<lparr>os_remote := True\<rparr>" "ww_db w"] by (simp add: same_core_def)

lemma worker_step_inv:
  assumes laws: "core_laws api ops deps good known sound" and inj: "inj checksum"
    and inv: "world_inv api checksum ops deps good known sound w"
  shows "world_inv api checksum ops deps good known sound (worker_step api checksum event w)"
proof (cases event)
  case ConfigureSyncEvent
  then show ?thesis
    using inv configure_inv by (auto split: option.split)
qed (use inv in \<open>simp_all add: in_lane_def crash_def releaseGraph_def open_inv [OF laws] execute_inv [OF laws] retry_inv
      import_inv [OF laws] close_inv syncReplace_inv delete_inv installArchive_inv commit_inv [OF laws inj]
      deliver_inv [OF laws] frame_inv ack_inv crash_inv released_inv\<close>)

lemma worker_run_inv:
  assumes laws: "core_laws api ops deps good known sound" and inj: "inj checksum"
  shows "world_inv api checksum ops deps good known sound (worker_run api checksum events)"
proof -
  have "world_inv api checksum ops deps good known sound w \<Longrightarrow>
      world_inv api checksum ops deps good known sound (fold (worker_step api checksum) events w)" for w
    by (induction events arbitrary: w) (simp_all add: worker_step_inv [OF laws inj])
  moreover have "world_inv api checksum ops deps good known sound new_world"
    by (rule world_invI [of _ _ _ _ _ _ _ "{}" "[]"]) (simp_all add: new_world_def no_rows_inv)
  ultimately show ?thesis
    by (simp add: worker_run_def)
qed

subsection \<open>What was saved is recovered\<close>


text \<open>A core that is the list of its operations.\<close>

definition list_core :: "bytes core_api" where
  "list_core = \<lparr>ca_new = (\<lambda>now. []), ca_load = (\<lambda>mode b. Some b), ca_stage = (\<lambda>u c. Some (c @ u)),
     ca_importRecovery = (\<lambda>u c. Some (c @ u)), ca_finish = Some, ca_reset = (\<lambda>c. c), ca_validate = (\<lambda>u c. True),
     ca_import = (\<lambda>u c. Some (c @ u)), ca_execute = (\<lambda>command c. Some (c @ map ucast command, command, map ucast command)),
     ca_export = (\<lambda>c. c), ca_exportGc = (\<lambda>c. c), ca_version = (\<lambda>c. c), ca_merge = (\<lambda>us c. Some (concat us))\<rparr>"

lemma list_core_laws: "core_laws list_core set (\<lambda>u. {}) (\<lambda>u. True) set (\<lambda>c. True)"
  by (simp add: core_laws_def snapshot_laws_def update_laws_def list_core_def)

text \<open>A save, one that fails and is retried, an import, and a crash before the next save is delivered.\<close>

definition sample_events :: "worker_event list" where
  "sample_events =
     [OpenEvent 5 sample_locator [] 7 [], ExecuteEvent [1] False [], CommitEvent [] None, DeliverEvent [],
      CommitEvent [] None, DeliverEvent [], CommitEvent [] None, DeliverEvent [],
      ExecuteEvent [2] False [], CommitEvent [] (Some QuotaExceededError), DeliverEvent [],
      RetryEvent, CommitEvent [] None, DeliverEvent [], CommitEvent [] None, DeliverEvent [], CommitEvent [] None, DeliverEvent [],
      ImportEvent [3, 4], CommitEvent [] None, DeliverEvent [], CommitEvent [] None, DeliverEvent [], CommitEvent [] None, DeliverEvent [],
      ExecuteEvent [5] False [], CommitEvent [] None, CrashEvent]"

lemma sample_saved: "map snd (ww_saved (worker_run list_core sample_digest sample_events)) = [[1], [2], [3, 4]]"
  by code_simp


end
