(* ===== verification/Outbox_Drain.thy ===== *)
theory Outbox_Drain
  imports Worker_Durability
begin

text \<open>
  Sending the outbox of an open graph: a frame carries the oldest entries that fit, its
  acknowledgement retires exactly them, and so the outbox is empty after finitely many frames.
\<close>

subsection \<open>What a frame carries\<close>

lemma carried_count_bounds:
  "records \<le> carried_count bytes records payloads \<and> carried_count bytes records payloads \<le> records + length payloads"
  by (induction bytes records payloads rule: carried_count.induct) (auto simp: Let_def)

lemma carried_count_fits:
  "carried_count bytes records payloads = records
   \<or> bytes + sum_list (map byteLength (take (carried_count bytes records payloads - records) payloads)) \<le> FRAME_UPDATE_BYTES"
proof (induction bytes records payloads rule: carried_count.induct)
  case (2 bytes records payload rest)
  show ?case
  proof (cases "FRAME_UPDATE_BYTES < bytes + byteLength payload")
    case False
    let ?n = "carried_count (bytes + byteLength payload) (records + 1) rest"
    have le: "records + 1 \<le> ?n"
      using carried_count_bounds by blast
    then have "take (?n - records) (payload # rest) = payload # take (?n - (records + 1)) rest"
      by (simp add: take_Cons')
    then show ?thesis
      using 2 False le by (auto simp: Let_def)
  qed (simp add: Let_def)
qed simp

lemma frame_covers:
  assumes "pending \<noteq> []" "length pending \<le> n"
  obtains k frame st' where "snd (syncNextFrame api checksum m pending st) = st'" "os_frame st' = Some frame" "same_core st st'"
    "fr_covers frame = map in_content_id (take k pending)" "1 \<le> k" "k \<le> n" "k \<le> length pending"
    "k = 1 \<or> sum_list (map (byteLength \<circ> in_resolved) (take k pending)) \<le> FRAME_UPDATE_BYTES"
proof -
  obtain first rest where p: "pending = first # rest"
    using assms(1) by (cases pending) auto
  define k where "k = carried_count (byteLength (in_resolved first)) 1 (map in_resolved rest)"
  have k: "1 \<le> k" "k \<le> length pending"
    using carried_count_bounds [of 1 "byteLength (in_resolved first)" "map in_resolved rest"] by (simp_all add: k_def p)
  have "k = 1 \<or> byteLength (in_resolved first) + sum_list (map byteLength (take (k - 1) (map in_resolved rest))) \<le> FRAME_UPDATE_BYTES"
    unfolding k_def by (rule carried_count_fits)
  then have fits: "k = 1 \<or> sum_list (map (byteLength \<circ> in_resolved) (take k pending)) \<le> FRAME_UPDATE_BYTES"
    using k(1) by (cases k) (auto simp: p take_map)
  define merged where
    "merged = (if 1 < k then ca_merge api (map in_resolved (take k pending)) (os_core st) else None)"
  define f where
    "f = \<lparr>fr_message_id = (case merged of None \<Rightarrow> in_content_id first | Some u \<Rightarrow> checksum u),
       fr_covers = map in_content_id (if merged = None then [first] else take k pending)\<rparr>"
  have st': "snd (syncNextFrame api checksum m pending st) = st\<lparr>os_frame := Some f\<rparr>"
    unfolding f_def merged_def k_def p by (simp add: syncNextFrame_def Let_def split: option.split)
  show thesis
  proof (cases merged)
    case None
    show thesis
      by (rule that [where frame = f and k = 1, OF st']) (use None k assms(2) in \<open>simp_all add: same_core_def p f_def\<close>)
  next
    case (Some u)
    show thesis
      by (rule that [where frame = f and k = k, OF st']) (use Some k assms(2) fits in \<open>simp_all add: same_core_def f_def\<close>)
  qed
qed

subsection \<open>What an acknowledgement retires\<close>

lemma acknowledge_rows:
  "pt_outbox (snd (acknowledge ids None p)) = filter (\<lambda>r. ob_message_id r \<notin> set ids) (pt_outbox p)"
proof -
  have "pt_outbox (acknowledge_one through ident p) = filter (\<lambda>r. ob_message_id r \<noteq> ident) (pt_outbox p)" for through ident p
    by (simp add: acknowledge_one_def Let_def delete_row_def split: option.split)
  then have "pt_outbox (fold (acknowledge_one through) ids p) = filter (\<lambda>r. ob_message_id r \<notin> set ids) (pt_outbox p)" for through
    by (induction ids arbitrary: p) (auto intro: filter_cong)
  then show ?thesis
    by (simp add: acknowledge_def Let_def snd_complete committed_def)
qed

lemma filter_prefix:
  assumes "distinct (map f rows)"
  shows "filter (\<lambda>r. f r \<notin> set (map f (take k rows))) rows = drop k rows"
proof -
  have "distinct (map f (take k rows) @ map f (drop k rows))"
    using assms by (metis append_take_drop_id map_append)
  then have "filter (\<lambda>r. f r \<notin> set (map f (take k rows))) (take k rows @ drop k rows) = drop k rows"
    by (auto simp: filter_id_conv filter_empty_conv simp del: append_take_drop_id)
  then show ?thesis
    by simp
qed

lemma acknowledge_prefix:
  assumes "distinct (map ob_message_id (pt_outbox p))"
  shows "outbox_rows None (snd (acknowledge (map ob_message_id (take k (outbox_rows None p))) None p)) = drop k (outbox_rows None p)"
proof -
  have "set (map ob_message_id (outbox_rows None p)) = set (map ob_message_id (pt_outbox p))"
      "length (outbox_rows None p) = length (pt_outbox p)"
    by (simp_all add: outbox_rows_def)
  then have "distinct (map ob_message_id (outbox_rows None p))"
    using assms by (metis card_distinct distinct_card length_map)
  from filter_prefix [OF this, of k] show ?thesis
    by (simp add: outbox_rows_def acknowledge_rows filter_sort)
qed

lemma syncAck_fields:
  assumes "ww_state w = Some st"
  shows "ww_db (syncAck ident fault w) = snd (acknowledge (ack_covers ident st) fault (ww_db w))"
    and "\<exists>st'. ww_state (syncAck ident fault w) = Some st'"
  using assms by (auto simp: syncAck_def set_state_def split: prod.split sum.split)

subsection \<open>Rounds\<close>

text \<open>The store of a running Worker reads its outbox without fail.\<close>

lemma running_outbox:
  assumes laws: "core_laws api ops deps good known sound" and inj: "inj checksum"
  obtains pending where "outbox checksum (Some n) (ww_db (worker_run api checksum events)) = Inr pending"
    "map in_persisted pending = take n (outbox_rows None (ww_db (worker_run api checksum events)))"
    "map in_content_id pending = map ob_message_id (take n (outbox_rows None (ww_db (worker_run api checksum events))))"
    "distinct (map ob_message_id (pt_outbox (ww_db (worker_run api checksum events))))"
proof -
  let ?p = "ww_db (worker_run api checksum events)"
  obtain base log where "db_inv api checksum ops deps good known ?p base log"
    using worker_run_inv [OF laws inj] by (rule world_invE)
  then have ok: "partition_ok checksum ?p" "outbox_ok ?p"
    by (simp_all add: db_inv_def)
  from outbox_inspected [OF ok, of "Some n"] obtain pending where pending: "inspectOutbox checksum (Some n) ?p = Inr pending"
      "map in_persisted pending = outbox_rows (Some n) ?p" "list_all named_by_content pending"
    by blast
  have rows: "outbox_rows (Some n) ?p = take n (outbox_rows None ?p)"
    by (simp add: outbox_rows_def)
  have "map in_content_id pending = map ob_message_id (map in_persisted pending)"
    using pending(3) by (simp add: list_all_iff named_by_content_def)
  moreover have "distinct (map ob_message_id (pt_outbox ?p))"
    using ok(1) by (auto simp: partition_ok_def rows_ok_def intro: by_key_distinct)
  ultimately show thesis
    using that pending by (simp add: outbox_def rows)
qed

lemma frame_retires:
  assumes laws: "core_laws api ops deps good known sound" "inj checksum"
    and w: "w = worker_run api checksum events" "ww_state w = Some st" "outbox_rows None (ww_db w) \<noteq> []"
  shows "\<exists>k frame st' pending. ww_state (worker_frame api checksum w) = Some st' \<and> os_frame st' = Some frame
    \<and> outbox checksum (Some FRAME_UPDATES) (ww_db w) = Inr pending
    \<and> fr_covers frame = map ob_message_id (take k (outbox_rows None (ww_db w)))
    \<and> 1 \<le> k \<and> k \<le> FRAME_UPDATES
    \<and> (k = 1 \<or> sum_list (map (byteLength \<circ> in_resolved) (take k pending)) \<le> FRAME_UPDATE_BYTES)
    \<and> outbox_rows None (ww_db (syncAck (fr_message_id frame) None (worker_frame api checksum w))) = drop k (outbox_rows None (ww_db w))"
proof -
  let ?rows = "outbox_rows None (ww_db w)"
  obtain pending where pending: "outbox checksum (Some FRAME_UPDATES) (ww_db w) = Inr pending"
      "map in_persisted pending = take FRAME_UPDATES ?rows" "map in_content_id pending = map ob_message_id (take FRAME_UPDATES ?rows)"
      "distinct (map ob_message_id (pt_outbox (ww_db w)))"
    using running_outbox [OF laws] unfolding w(1) by metis
  have "length pending = min (length ?rows) FRAME_UPDATES"
    using arg_cong [OF pending(2), of length] by simp
  then have some: "pending \<noteq> []" "length pending \<le> FRAME_UPDATES"
    using w(3) by (auto simp: FRAME_UPDATES_def min_def split: if_splits)
  obtain k frame st' where frame: "snd (syncNextFrame api checksum (metadata_of (ww_db w)) pending st) = st'"
      "os_frame st' = Some frame" "same_core st st'" "fr_covers frame = map in_content_id (take k pending)"
      "1 \<le> k" "k \<le> FRAME_UPDATES" "k \<le> length pending"
      "k = 1 \<or> sum_list (map (byteLength \<circ> in_resolved) (take k pending)) \<le> FRAME_UPDATE_BYTES"
    using frame_covers [OF some, of api checksum "metadata_of (ww_db w)" st] by metis
  have sent: "worker_frame api checksum w = set_state st' w"
    by (simp add: worker_frame_def w(2) pending(1) frame(1))
  have covers: "fr_covers frame = map ob_message_id (take k ?rows)"
    using frame(4,6) pending(3) by (simp flip: take_map add: min_absorb1)
  have "outbox_rows None (ww_db (syncAck (fr_message_id frame) None (set_state st' w))) = drop k ?rows"
    using acknowledge_prefix [OF pending(4), of k] frame(2)
    by (simp add: syncAck_fields(1) [where st = st'] ack_covers_def covers)
  then show ?thesis
    unfolding sent by (intro exI [of _ k] exI [of _ frame] exI [of _ st'] exI [of _ pending])
      (use frame pending(1) covers in simp)
qed


text \<open>One frame and its acknowledgement.\<close>

definition sync_round :: "'c core_api \<Rightarrow> (bytes \<Rightarrow> js_string) \<Rightarrow> 'c worker_world \<Rightarrow> 'c worker_world" where
  "sync_round api checksum w =
     (let w' = worker_frame api checksum w
      in case Option.bind (ww_state w') os_frame of
           None \<Rightarrow> w'
         | Some frame \<Rightarrow> syncAck (fr_message_id frame) None w')"

lemma count_rows: "countPending p = length (outbox_rows None p)"
  by (simp add: countPending_def outbox_rows_def)

lemma sync_round_nothing:
  assumes "ww_state w = Some st" "outbox checksum (Some FRAME_UPDATES) (ww_db w) = Inr []"
  shows "worker_frame api checksum w = w"
  using assms by (simp add: worker_frame_def syncNextFrame_def set_state_def)

lemma round_fewer:
  assumes laws: "core_laws api ops deps good known sound" "inj checksum"
    and w: "w = worker_run api checksum events" "ww_state w = Some st"
  shows "countPending (ww_db (sync_round api checksum w)) \<le> countPending (ww_db w) - 1
    \<and> ww_state (sync_round api checksum w) \<noteq> None"
proof (cases "outbox_rows None (ww_db w) = []")
  case True
  then have "countPending (ww_db w) = 0"
    by (simp add: count_rows)
  moreover from running_outbox [OF laws, of FRAME_UPDATES events] have "outbox checksum (Some FRAME_UPDATES) (ww_db w) = Inr []"
    unfolding w(1) [symmetric] True by auto
  ultimately show ?thesis
    using sync_round_nothing [OF w(2)] w(2)
    by (auto simp: sync_round_def countPending_def syncAck_fields [OF w(2)] acknowledge_rows split: option.split)
next
  case False
  from frame_retires [OF laws w False] obtain k frame st' where
      "ww_state (worker_frame api checksum w) = Some st'" "os_frame st' = Some frame" "1 \<le> k"
      "outbox_rows None (ww_db (syncAck (fr_message_id frame) None (worker_frame api checksum w))) = drop k (outbox_rows None (ww_db w))"
    by blast
  then show ?thesis
    by (simp add: sync_round_def count_rows syncAck_fields(2))
qed

lemma run_round:
  "\<exists>more. sync_round api checksum (worker_run api checksum events) = worker_run api checksum (events @ more)"
proof -
  let ?w = "worker_frame api checksum (worker_run api checksum events)"
  have "?w = worker_run api checksum (events @ [FrameEvent])"
    "syncAck ident None ?w = worker_run api checksum (events @ [FrameEvent, AckEvent ident None])" for ident
    by (simp_all add: worker_run_def browser_fault_def)
  then show ?thesis
    by (metis (no_types, lifting) sync_round_def option.case_eq_if)
qed

text \<open>
  C10. Sending terminates. From every reachable state of an open graph, as many rounds of one frame and its
  acknowledgement as the outbox has entries leave it empty; then there is no further frame. No round fails, sends
  nothing, or depends on what the core makes of the updates it is asked to merge.
\<close>

theorem outbox_drains:
  assumes laws: "core_laws api ops deps good known sound" "inj checksum"
    and w: "w = worker_run api checksum events" "ww_state w \<noteq> None" and n: "countPending (ww_db w) \<le> n"
  shows "countPending (ww_db ((sync_round api checksum ^^ n) w)) = 0
    \<and> worker_frame api checksum ((sync_round api checksum ^^ n) w) = (sync_round api checksum ^^ n) w
    \<and> ww_state ((sync_round api checksum ^^ n) w) \<noteq> None"
  using w n
proof (induction n arbitrary: events w)
  case 0
  then obtain st where st: "ww_state w = Some st"
    by auto
  have none: "outbox_rows None (ww_db w) = []"
    using 0(3) by (simp add: count_rows)
  from running_outbox [OF laws, of FRAME_UPDATES events] have "outbox checksum (Some FRAME_UPDATES) (ww_db w) = Inr []"
    unfolding 0(1) [symmetric] none by auto
  then show ?case
    using 0 st sync_round_nothing [OF st] by simp
next
  case (Suc n)
  obtain st where st: "ww_state w = Some st"
    using Suc.prems(2) by auto
  obtain more where more: "sync_round api checksum w = worker_run api checksum (events @ more)"
    using run_round unfolding Suc.prems(1) by blast
  have fewer: "countPending (ww_db (sync_round api checksum w)) \<le> n \<and> ww_state (sync_round api checksum w) \<noteq> None"
    using round_fewer [OF laws Suc.prems(1) st] Suc.prems(3) by auto
  show ?case
    using Suc.IH [OF more] fewer by (simp add: funpow_swap1)
qed

subsection \<open>Two saves that are sent\<close>

definition saves :: "js_string \<Rightarrow> worker_event list" where
  "saves command =
     [ExecuteEvent command False [], CommitEvent [] None, DeliverEvent [], CommitEvent [] None, DeliverEvent [],
      CommitEvent [] None, DeliverEvent []]"

definition sent_events :: "worker_event list" where
  "sent_events = [OpenEvent 5 sample_locator [] 7 [], ConfigureSyncEvent] @ saves [1] @ saves [2, 3]"

lemma sent_state:
  "ww_state (worker_run list_core sample_digest sent_events) \<noteq> None
   \<and> countPending (ww_db (worker_run list_core sample_digest sent_events)) = 2"
  by code_simp


theorem outbox_drains_witness:
  "countPending (ww_db ((sync_round list_core sample_digest ^^ 2) (worker_run list_core sample_digest sent_events))) = 0"
  using outbox_drains [OF list_core_laws inj_sample_digest refl, of sent_events 2] sent_state by simp

end
