(* ===== verification/Recovery_Runs.thy ===== *)
theory Recovery_Runs
  imports Recovery_Safety Outbox_Drain
begin

text \<open>Runs of the Worker: a recovery from a damaged store, and two that end in a state the code does not mean.\<close>

subsection \<open>A damaged update\<close>

text \<open>The store of three saves, in which the checksum of the second no longer holds.\<close>

definition damaged :: partition where
  "damaged =
     (let p = ww_db (worker_run list_core sample_digest sample_events)
      in p\<lparr>pt_updates := map (\<lambda>u. if up_sequence u = 2 then u\<lparr>up_checksum := []\<rparr> else u) (pt_updates p)\<rparr>)"

definition recovered_core :: "(worker_error + bytes recovered) \<times> 's \<Rightarrow> (bytes \<times> int \<times> js_string list) option" where
  "recovered_core x =
     (case fst x of
        Inl _ \<Rightarrow> None
      | Inr r \<Rightarrow> Some (rv_core r, rv_appliedThrough r, rr_quarantined_records (rv_report r)))"

lemma damaged_recovered:
  "recovered_core (recoverGraph list_core sample_digest (the (pt_metadata damaged)) [] (damaged, [])) =
     Some ([1], 1, [js ''update-2'', js ''update-3'', js ''update-4''])"
  by code_simp

lemma damaged_keys: "map up_sequence (pt_checkpoints damaged) = [0]" "map up_sequence (pt_updates damaged) = [1, 2, 3, 4]"
  by code_simp+

theorem recovery_loses_nothing_witness:
  "\<exists>r p' faults. recoverGraph list_core sample_digest (the (pt_metadata damaged)) [] (damaged, []) = (Inr r, p', faults)
     \<and> rv_core r = [1] \<and> accounted list_core sample_digest [] damaged r p'"
proof -
  obtain x p' faults where run: "recoverGraph list_core sample_digest (the (pt_metadata damaged)) [] (damaged, []) = (x, p', faults)"
    by (metis surj_pair)
  then obtain r where r: "x = Inr r" "rv_core r = [1]"
    using damaged_recovered by (auto simp: recovered_core_def split: sum.splits)
  have "accounted list_core sample_digest [] damaged r p'"
    by (rule recovery_loses_nothing [OF run [unfolded r(1)]]) (simp_all add: damaged_keys)
  then show ?thesis
    using run r by blast
qed

subsection \<open>A write of another tab\<close>

text \<open>
  \<open>appliedThrough\<close> is meant as the last stored update the core contains. A save takes the maximum with
  its own sequence, also when another tab has stored an update in between. The checkpoint of the next
  close then covers an update that is not in it, and the next opening does not see the update.
\<close>

definition other_tab :: "bytes worker_world \<Rightarrow> bytes worker_world" where
  "other_tab w = w\<lparr>ww_db := snd (appendUpdate sample_digest [7] [] None None (ww_db w))\<rparr>"

definition closing :: "worker_event list" where
  "closing = [CloseEvent, CommitEvent [] None, DeliverEvent [], CommitEvent [] None, DeliverEvent [],
     CommitEvent [] None, DeliverEvent []]"

definition two_tabs :: "bytes worker_world" where
  "two_tabs =
     fold (worker_step list_core sample_digest) (saves [2] @ closing)
       (other_tab (worker_run list_core sample_digest (OpenEvent 5 sample_locator [] 7 [] # saves [1])))"

lemma other_tab_write_lost:
  "(3, [2]) \<in> set (ww_saved two_tabs)
   \<and> map up_sequence (pt_checkpoints (ww_db two_tabs)) = [0, 3]
   \<and> map entry (pt_updates (ww_db two_tabs)) = [(1, [1]), (2, [7]), (3, [2])]
   \<and> recovered_core (openGraphRun list_core sample_digest CORE_PORT_VERSION sample_locator [] 7 (ww_db two_tabs, []))
       = Some ([1, 2], 3, [])"
  by code_simp

subsection \<open>A damaged checkpoint\<close>

text \<open>
  A checkpoint that recovery sets aside stays in the store. The next checkpoint keeps it as one of the two
  newest, drops the intact older one and deletes the updates up to it.
\<close>

definition damaged_checkpoint :: partition where
  "damaged_checkpoint =
     (let p = fst sample_history
      in p\<lparr>pt_checkpoints := map (\<lambda>c. if up_sequence c = 2 then c\<lparr>up_checksum := []\<rparr> else c) (pt_checkpoints p),
           pt_outbox := []\<rparr>)"

lemma damaged_checkpoint_kept:
  "recovered_core (recoverGraph list_core sample_digest (the (pt_metadata damaged_checkpoint)) [] (damaged_checkpoint, []))
     = Some ([1, 2, 3, 4, 5], 3, [js ''checkpoint-2''])
   \<and> (let p = fst (snd (recoverGraph list_core sample_digest (the (pt_metadata damaged_checkpoint)) [] (damaged_checkpoint, [])));
          p' = snd (installCheckpoint sample_digest [1, 2, 3, 4, 5] 3 9 [] None p)
      in map (\<lambda>c. (up_sequence c, validChecksum sample_digest c)) (pt_checkpoints p') = [(2, False), (3, True)]
         \<and> map up_sequence (pt_updates p') = [3])"
  by code_simp

end
