(* ===== verification/Spec2Isabelle.thy ===== *)
theory Spec2Isabelle
  imports Inline_Split Content_Rebase Graph_Snapshot Content_Submission Vim_Engine Session_Properties Outline_Projection Session_Lanes Lease_Election Sync_Runs Recovery_Runs
begin

text \<open>
  A model of the neoseq client, \<open>src/apps/client/src\<close>, and the theorems that make it correct.

  The program. neoseq is an outliner whose documents are CRDTs. The document core is Rust compiled to
  WebAssembly; the client around it is TypeScript. A keystroke travels through these parts: the
  block editor turns what the textarea holds into an edit of a draft; the content sessions
  submit drafts as commands; the outline queues edits of its structure; the graph session runs
  commands and queries one at a time against a Worker and publishes snapshots; the Worker
  executes a command in the core, appends the update to IndexedDB and, for a remote graph, to an
  outbox; the sync agent sends the outbox over a WebSocket and imports what arrives. Between tabs
  a lease decides who writes.

  Names. Definitions have the names of the functions and types they translate (a field carries a prefix
  for its record, as in \<open>md_next_sequence\<close>). A string is a list of UTF-16 code units (16-bit words,
  \<open>Js_String\<close>), bytes are lists of 8-bit words, a number that the code uses as a count is \<open>nat\<close> or \<open>int\<close>
  (the client stays below the safe integers of JavaScript), a \<open>Map\<close> is a partial function or, where
  its order is seen, an association list, an exception is the left of a sum. Out-of-range reads and
  the clamping of \<open>slice\<close> are written out in \<open>Prelude\<close>.

  The theories, in the order of the calls.

  \<^item> \<open>Prelude\<close>, \<open>Js_String\<close>, \<open>Job\<close>: array and string operations of JavaScript; asynchronous work as a
    computation that gives up control at every await.
  \<^item> \<open>Text_Diff\<close> (\<open>features/blocks/editor/text-diff.ts\<close>): the single-range diff of two texts; it is correct,
    smallest, and follows the caret.
  \<^item> \<open>Inline_Content\<close>, \<open>Inline_Edit\<close>, \<open>Inline_Split\<close> (\<open>inline-content.ts\<close>): what a block shows against the atoms
    it holds; planning of edits, splits and references refines editing the atoms.
  \<^item> \<open>Content_Buffer\<close>, \<open>Content_Mapping\<close>, \<open>Content_Match\<close>, \<open>Content_Rebase\<close> (\<open>content-buffer.ts\<close>): the piece table
    of a draft with its locale \<open>draft\<close> (what every client of a draft relies on, interpreted on the
    piece table), the Myers diff and the rebase of a draft on content that changed underneath.
  \<^item> \<open>Content_Session\<close>, \<open>Content_Session_Inv\<close>, \<open>Content_Submission\<close> (\<open>content-session.ts\<close>): all drafts of a graph, their
    submission, failure and recovery; an invariant of every operation, and that no input is lost.
  \<^item> \<open>Auto_Pair\<close> (\<open>auto-pair.ts\<close>), \<open>Vim_Text\<close> and \<open>Vim_Engine\<close> (\<open>vim/engine.ts\<close>): paired delimiters and the key
    interpreter; effects stay inside the text, a read-only text is not edited.
  \<^item> \<open>Graph_Types\<close>, \<open>Graph_Snapshot\<close>, \<open>Outline_Rows\<close> (\<open>generated/domain.ts\<close>, \<open>core-port/snapshot.ts\<close>, \<open>content-patch.ts\<close>,
    \<open>outline-index.ts\<close>, \<open>entities/outline.ts\<close>, \<open>features/outline/selection.ts\<close>): the immutable snapshot, the flat scans
    over depths against the tree they stand for, drop targets.
  \<^item> \<open>Outline_Draft\<close>, \<open>Outline_Queue\<close>, \<open>Outline_Projection\<close> (\<open>features/outline/draft-state.ts\<close> and the dispatcher in
    \<open>Outliner.tsx\<close>): structural edits that wait for the core; the queue never sticks.
  \<^item> \<open>Graph_Session\<close>, \<open>Session_Coherence\<close>, \<open>Session_Safety\<close>, \<open>Session_Properties\<close>, \<open>Session_Lanes\<close>
    (\<open>core-port/session.ts\<close>, \<open>unsaved.ts\<close>): a session's snapshot is the core's or is marked stale; the outcomes
    of a command; order and progress of the two lanes.
  \<^item> \<open>Lease_Election\<close> (\<open>core-port/lease.ts\<close>): two tabs never hold the lease together.
  \<^item> \<open>Storage\<close>, \<open>Storage_Safety\<close>, \<open>Storage_Outbox\<close> (\<open>persistence.ts\<close>): the partition of one graph (metadata, updates,
    checkpoints, quarantine, outbox, sync state) and its transactions. Its abstract content is a log of updates;
    the store refines the log, its accounts are exact, the outbox resolves.
  \<^item> \<open>Graph_Worker\<close>, \<open>Worker_Durability\<close>, \<open>Recovery_Safety\<close>, \<open>Outbox_Drain\<close>, \<open>Recovery_Runs\<close> (\<open>graph-worker.ts\<close>): opening with
    recovery, every request that changes the graph split at its transactions, crashes between any two
    of them. Reported saves survive; recovery of an arbitrarily damaged store accounts for
    every record; frames retire what they carry and drain the outbox.
  \<^item> \<open>Sync_Agent\<close>, \<open>Sync_Safety\<close>, \<open>Sync_Runs\<close> (\<open>features/sync/SyncAgent.ts\<close>): transports, frames, retries and pauses with every
    continuation after an await as a step of its own; stop-and-wait sending, no stranded agent.

  Parameters. The document core (\<open>core_api\<close> for the Worker, the \<open>port\<close> of a session), SHA-256 (\<open>checksum\<close>), the grapheme
  segmenter and Unicode word test (\<open>text_env\<close>), the network, timers and the clock are arguments. What is relied
  on is a named hypothesis: \<open>core_laws\<close> (a snapshot loads to what was exported; an update enters a core that knows
  what it builds on), \<open>port_laws\<close> (a session's answers agree with the core's view), \<open>inj checksum\<close> (no collision
  of digests). The witnesses instantiate them with concrete functions. Recovery of a damaged store
  and the recovery of the outbox's order need no law of the core.

  Loops. No definition runs on fuel: every loop is structural or has a termination proof by a measure (the Myers
  search is bounded by the code's own limit). Events of a component come as lists, so a theorem about all
  lists of events is about every interleaving; \<open>outbox_drains\<close> and \<open>lanes_progress\<close> say how many steps suffice.

  Where the code does something it does not mean, a lemma shows the run: \<open>closing_reports_failure\<close>,
  \<open>late_close_leaves_agent\<close>, \<open>stale_timer_reconnects\<close>, \<open>pause_reason_overwritten\<close>, \<open>recheck_after_stop_reports\<close>,
  \<open>repair_strands_outbox\<close>, \<open>other_tab_write_lost\<close>, \<open>damaged_checkpoint_kept\<close>.

  Not modelled. The React views (rendering, focus, dragging, menus, pickers, query panels and settings), the DOM and
  CSS, the translations, the Markdown and code highlighting done by third-party parsers, the
  encoding of frames, JSON and archives, tokens and HTTP, and the Rust crates. Of modelled files: object
  identity (\<open>sameHeaders\<close>), the Web Locks route of the lease, the reads and queries a Worker passes to the core, the
  preparation of archives, the listing of all graphs and the upgrade of the database. Within one graph the Worker
  serves requests that change it one at a time, as the session's lanes send them.
\<close>

end
